(* ===== verification/PclPrelude.thy ===== *)
theory PclPrelude imports Main "HOL-Library.Word" "HOL-Library.Monad_Syntax" begin

text \<open>
  The prelude of the development: how C objects and C undefined behaviour are represented, and
  the generic facts the component theories share.

  \<^item> A C block (an array of pointers, bytes or structs) is a list whose length is the number of
    allocated slots. A read or a write outside of it is undefined behaviour, written \<open>None\<close>.
  \<^item> A C operation that may run into undefined behaviour returns an \<open>option\<close>, sequenced with the
    do notation of \<^theory_text>\<open>Monad_Syntax\<close>; the state it changes is passed and returned
    explicitly.
  \<^item> A C \<open>int\<close> is an \<open>int\<close>; \<open>cint\<close> is the check that a signed result did not overflow
    (signed overflow is undefined behaviour in C).
  \<^item> A pointer that may be \<open>NULL\<close> is an \<open>option\<close>.
\<close>

named_theorems mem_simps \<open>reads and writes of C blocks inside their bounds\<close>
named_theorems bind_simps \<open>equations that run an option computation step by step\<close>

section \<open>C integers\<close>

definition INT_MAX :: int where "INT_MAX = 2147483647"

definition INT_MIN :: int where "INT_MIN = - 2147483648"

text \<open>A signed result that is representable; otherwise undefined behaviour.\<close>

definition cint :: "int \<Rightarrow> int option" where
  "cint x = (if INT_MIN \<le> x \<and> x \<le> INT_MAX then Some x else None)"

lemma cint_ok [bind_simps]: "INT_MIN \<le> x \<Longrightarrow> x \<le> INT_MAX \<Longrightarrow> cint x = Some x"
  by (simp add: cint_def)

lemma cint_SomeD: "cint x = Some y \<Longrightarrow> y = x \<and> INT_MIN \<le> x \<and> x \<le> INT_MAX"
  by (simp add: cint_def split: if_splits)

section \<open>C blocks\<close>

definition rd :: "'a list \<Rightarrow> int \<Rightarrow> 'a option" where
  "rd xs i = (if 0 \<le> i \<and> i < int (length xs) then Some (xs ! nat i) else None)"

definition wr :: "'a list \<Rightarrow> int \<Rightarrow> 'a \<Rightarrow> 'a list option" where
  "wr xs i v = (if 0 \<le> i \<and> i < int (length xs) then Some (xs[nat i := v]) else None)"

text \<open>\<open>memmove\<close> of \<open>n\<close> slots inside one block, \<open>memcpy\<close> of a whole source list into a block,
  \<open>memset\<close> of \<open>n\<close> slots.\<close>

definition mem_move :: "'a list \<Rightarrow> int \<Rightarrow> int \<Rightarrow> int \<Rightarrow> 'a list option" where
  "mem_move xs d s n =
     (if 0 \<le> d \<and> 0 \<le> s \<and> 0 \<le> n \<and> d + n \<le> int (length xs) \<and> s + n \<le> int (length xs)
      then Some (take (nat d) xs @ take (nat n) (drop (nat s) xs) @ drop (nat (d + n)) xs)
      else None)"

definition mem_copy :: "'a list \<Rightarrow> int \<Rightarrow> 'a list \<Rightarrow> 'a list option" where
  "mem_copy xs d src =
     (if 0 \<le> d \<and> d + int (length src) \<le> int (length xs)
      then Some (take (nat d) xs @ src @ drop (nat d + length src) xs)
      else None)"

definition mem_set :: "'a list \<Rightarrow> int \<Rightarrow> 'a \<Rightarrow> int \<Rightarrow> 'a list option" where
  "mem_set xs d v n =
     (if 0 \<le> d \<and> 0 \<le> n \<and> d + n \<le> int (length xs)
      then Some (take (nat d) xs @ replicate (nat n) v @ drop (nat (d + n)) xs)
      else None)"

text \<open>\<open>realloc\<close> of a block to \<open>n\<close> slots: the common prefix is kept and what is added holds some
  value \<open>junk\<close> the program must not rely on.\<close>

definition mem_resize :: "'a \<Rightarrow> 'a list \<Rightarrow> nat \<Rightarrow> 'a list" where
  "mem_resize junk xs n = take n xs @ replicate (n - length xs) junk"

lemma rd_ok [mem_simps]: "0 \<le> i \<Longrightarrow> i < int (length xs) \<Longrightarrow> rd xs i = Some (xs ! nat i)"
  by (simp add: rd_def)

lemma rd_int [mem_simps]: "rd xs (int n) = (if n < length xs then Some (xs ! n) else None)"
  by (simp add: rd_def)

lemma rd_SomeD: "rd xs i = Some x \<Longrightarrow> 0 \<le> i \<and> i < int (length xs) \<and> x = xs ! nat i"
  by (simp add: rd_def split: if_splits)

lemma wr_ok [mem_simps]: "0 \<le> i \<Longrightarrow> i < int (length xs) \<Longrightarrow> wr xs i v = Some (xs[nat i := v])"
  by (simp add: wr_def)

lemma wr_int [mem_simps]: "wr xs (int n) v = (if n < length xs then Some (xs[n := v]) else None)"
  by (simp add: wr_def)

lemma wr_SomeD: "wr xs i v = Some ys \<Longrightarrow> 0 \<le> i \<and> i < int (length xs) \<and> ys = xs[nat i := v]"
  by (simp add: wr_def split: if_splits)

lemma wr_length: "wr xs i v = Some ys \<Longrightarrow> length ys = length xs"
  by (auto dest: wr_SomeD)

lemma mem_move_length: "mem_move xs d s n = Some ys \<Longrightarrow> length ys = length xs"
  by (auto simp: mem_move_def min_def nat_add_distrib split: if_splits)

lemma mem_copy_length: "mem_copy xs d s = Some ys \<Longrightarrow> length ys = length xs"
  by (auto simp: mem_copy_def min_def split: if_splits)

lemma mem_set_length: "mem_set xs d v n = Some ys \<Longrightarrow> length ys = length xs"
  by (auto simp: mem_set_def min_def nat_add_distrib split: if_splits)

lemma length_mem_resize [simp]: "length (mem_resize junk xs n) = n"
  by (simp add: mem_resize_def)

lemma take_mem_resize [simp]:
  "k \<le> n \<Longrightarrow> k \<le> length xs \<Longrightarrow> take k (mem_resize junk xs n) = take k xs"
  by (simp add: mem_resize_def min_def)

lemma nth_mem_resize [simp]:
  "k < n \<Longrightarrow> k < length xs \<Longrightarrow> mem_resize junk xs n ! k = xs ! k"
  by (simp add: mem_resize_def nth_append)

section \<open>Loops over a block\<close>

text \<open>\<open>for(i = i0; i < i0 + n; i++) f(xs[i])\<close>, and the search loop that returns the first index
  whose element satisfies \<open>P\<close>, or -1.\<close>

fun for_each :: "('x \<Rightarrow> 'w \<Rightarrow> 'w option) \<Rightarrow> 'x list \<Rightarrow> nat \<Rightarrow> nat \<Rightarrow> 'w \<Rightarrow> 'w option" where
  "for_each f xs i 0 w = Some w"
| "for_each f xs i (Suc n) w =
     do { x \<leftarrow> rd xs (int i); w1 \<leftarrow> f x w; for_each f xs (Suc i) n w1 }"

fun scan_from :: "('x \<Rightarrow> bool) \<Rightarrow> 'x list \<Rightarrow> nat \<Rightarrow> nat \<Rightarrow> int option" where
  "scan_from P xs i 0 = Some (-1)"
| "scan_from P xs i (Suc n) =
     do { x \<leftarrow> rd xs (int i); if P x then Some (int i) else scan_from P xs (Suc i) n }"

text \<open>The same, over the list of elements.\<close>

fun seq_each :: "('x \<Rightarrow> 'w \<Rightarrow> 'w option) \<Rightarrow> 'x list \<Rightarrow> 'w \<Rightarrow> 'w option" where
  "seq_each f [] w = Some w"
| "seq_each f (x # xs) w = do { w1 \<leftarrow> f x w; seq_each f xs w1 }"

section \<open>Option computations\<close>

lemma bind_Some_iff [bind_simps]:
  "(Option.bind m f = Some y) \<longleftrightarrow> (\<exists>x. m = Some x \<and> f x = Some y)"
  by (cases m) auto

lemma bind_Some_map: "Option.bind m (\<lambda>x. Some (f x)) = map_option f m"
  by (cases m) auto

lemmas option_bind_split = Option.bind_split Option.bind_split_asm

section \<open>Lists\<close>

lemma take_Suc_update_same [simp]:
  "n < length xs \<Longrightarrow> take (Suc n) (xs[n := v]) = take n xs @ [v]"
  by (simp add: take_Suc_conv_app_nth)

lemma list_update_beyond_take [simp]: "n \<le> k \<Longrightarrow> take n (xs[k := v]) = take n xs"
  by (rule nth_equalityI) (auto simp: nth_list_update)

lemma for_each_drop:
  "i + n \<le> length xs \<Longrightarrow> for_each f xs i n w = seq_each f (take n (drop i xs)) w"
proof (induction n arbitrary: i w)
  case (Suc n)
  from Suc.prems have "take (Suc n) (drop i xs) = xs ! i # take n (drop (Suc i) xs)"
    by (simp add: Cons_nth_drop_Suc [symmetric])
  moreover have "rd xs (int i) = Some (xs ! i)"
    using Suc.prems by (simp add: rd_int)
  ultimately show ?case
    using Suc.IH [of "Suc i"] Suc.prems by (auto intro: Option.bind_cong)
qed simp

lemma for_each_take: "n \<le> length xs \<Longrightarrow> for_each f xs 0 n w = seq_each f (take n xs) w"
  by (simp add: for_each_drop)

lemma seq_each_append: "seq_each f (xs @ ys) w = Option.bind (seq_each f xs w) (seq_each f ys)"
proof (induction xs arbitrary: w)
  case (Cons x xs)
  then show ?case by (cases "f x w") auto
qed simp

text \<open>Position of the first element that satisfies a predicate, as a C loop returns it.\<close>

fun find_index :: "('a \<Rightarrow> bool) \<Rightarrow> 'a list \<Rightarrow> nat option" where
  "find_index P [] = None"
| "find_index P (x # xs) = (if P x then Some 0 else map_option Suc (find_index P xs))"

lemma find_index_None: "find_index P xs = None \<longleftrightarrow> (\<forall>x \<in> set xs. \<not> P x)"
  by (induction xs) auto

lemma find_index_SomeD:
  "find_index P xs = Some i \<Longrightarrow> i < length xs \<and> P (xs ! i) \<and> (\<forall>j < i. \<not> P (xs ! j))"
proof (induction xs arbitrary: i)
  case (Cons x xs)
  show ?case
  proof (cases "P x")
    case True
    with Cons.prems show ?thesis by simp
  next
    case False
    with Cons.prems obtain k where "find_index P xs = Some k" "i = Suc k" by auto
    with Cons.IH [of k] False show ?thesis by (auto simp: less_Suc_eq_0_disj)
  qed
qed simp

lemma scan_from_find:
  "i + n \<le> length xs \<Longrightarrow> scan_from P xs i n =
     Some (case find_index P (take n (drop i xs)) of None \<Rightarrow> -1 | Some k \<Rightarrow> int (i + k))"
proof (induction n arbitrary: i)
  case (Suc n)
  from Suc.prems have "take (Suc n) (drop i xs) = xs ! i # take n (drop (Suc i) xs)"
    by (simp add: Cons_nth_drop_Suc [symmetric])
  with Suc show ?case by (auto simp: rd_int split: option.splits)
qed simp

lemma scan_from_take:
  "n \<le> length xs \<Longrightarrow> scan_from P xs 0 n =
     Some (case find_index P (take n xs) of None \<Rightarrow> -1 | Some k \<Rightarrow> int k)"
  by (simp add: scan_from_find cong: option.case_cong)

lemma filter_nth_update:
  assumes "i < length xs" "\<not> P (xs ! i)" "\<not> P v"
  shows "filter P (xs[i := v]) = filter P xs"
  using assms by (induction xs arbitrary: i) (auto split: nat.splits)

end
