(* ===== verification/PclErrno.thy ===== *)
theory PclErrno imports PclPrelude begin

text \<open>
  The PCL error codes of \<open>include/pcl/_errno.h\<close> (one abbreviation per macro, in the order of
  the header) and the table of \<open>src/error/_errmsg.h\<close> that gives every code its name and its
  default message. The table ends with the placeholder row \<open>{0, NULL, NULL}\<close> the C table has.
\<close>

section \<open>Error codes\<close>

abbreviation (input) PCL_EOKAY :: int where "PCL_EOKAY \<equiv> 0"
abbreviation (input) PCL_E2BIG :: int where "PCL_E2BIG \<equiv> 1"
abbreviation (input) PCL_EACCES :: int where "PCL_EACCES \<equiv> 2"
abbreviation (input) PCL_EAGAIN :: int where "PCL_EAGAIN \<equiv> 3"
abbreviation (input) PCL_EINPROGRESS :: int where "PCL_EINPROGRESS \<equiv> 4"
abbreviation (input) PCL_EALREADY :: int where "PCL_EALREADY \<equiv> 5"
abbreviation (input) PCL_EBADF :: int where "PCL_EBADF \<equiv> 6"
abbreviation (input) PCL_EBADCMD :: int where "PCL_EBADCMD \<equiv> 7"
abbreviation (input) PCL_EBUSY :: int where "PCL_EBUSY \<equiv> 8"
abbreviation (input) PCL_ECANCELLED :: int where "PCL_ECANCELLED \<equiv> 9"
abbreviation (input) PCL_ECHILD :: int where "PCL_ECHILD \<equiv> 10"
abbreviation (input) PCL_EDEADLK :: int where "PCL_EDEADLK \<equiv> 11"
abbreviation (input) PCL_EDQUOT :: int where "PCL_EDQUOT \<equiv> 12"
abbreviation (input) PCL_EEXIST :: int where "PCL_EEXIST \<equiv> 13"
abbreviation (input) PCL_EFAULT :: int where "PCL_EFAULT \<equiv> 14"
abbreviation (input) PCL_EFBIG :: int where "PCL_EFBIG \<equiv> 15"
abbreviation (input) PCL_EILSEQ :: int where "PCL_EILSEQ \<equiv> 16"
abbreviation (input) PCL_EINTR :: int where "PCL_EINTR \<equiv> 17"
abbreviation (input) PCL_EINVAL :: int where "PCL_EINVAL \<equiv> 18"
abbreviation (input) PCL_EIO :: int where "PCL_EIO \<equiv> 19"
abbreviation (input) PCL_EISDIR :: int where "PCL_EISDIR \<equiv> 20"
abbreviation (input) PCL_ELOOP :: int where "PCL_ELOOP \<equiv> 21"
abbreviation (input) PCL_EMFILE :: int where "PCL_EMFILE \<equiv> 22"
abbreviation (input) PCL_EMLINK :: int where "PCL_EMLINK \<equiv> 23"
abbreviation (input) PCL_ENFILE :: int where "PCL_ENFILE \<equiv> 24"
abbreviation (input) PCL_ENODEV :: int where "PCL_ENODEV \<equiv> 25"
abbreviation (input) PCL_ENOENT :: int where "PCL_ENOENT \<equiv> 26"
abbreviation (input) PCL_ENOEXEC :: int where "PCL_ENOEXEC \<equiv> 27"
abbreviation (input) PCL_ENOLCK :: int where "PCL_ENOLCK \<equiv> 28"
abbreviation (input) PCL_ENOMEM :: int where "PCL_ENOMEM \<equiv> 29"
abbreviation (input) PCL_ESRCH :: int where "PCL_ESRCH \<equiv> 30"
abbreviation (input) PCL_ENOSPC :: int where "PCL_ENOSPC \<equiv> 31"
abbreviation (input) PCL_ENOSTR :: int where "PCL_ENOSTR \<equiv> 32"
abbreviation (input) PCL_ENOIMPL :: int where "PCL_ENOIMPL \<equiv> 33"
abbreviation (input) PCL_ENOTDIR :: int where "PCL_ENOTDIR \<equiv> 34"
abbreviation (input) PCL_ENOTEMPTY :: int where "PCL_ENOTEMPTY \<equiv> 35"
abbreviation (input) PCL_ENOTSUP :: int where "PCL_ENOTSUP \<equiv> 36"
abbreviation (input) PCL_EOVERFLOW :: int where "PCL_EOVERFLOW \<equiv> 37"
abbreviation (input) PCL_EPERM :: int where "PCL_EPERM \<equiv> 38"
abbreviation (input) PCL_EPIPE :: int where "PCL_EPIPE \<equiv> 39"
abbreviation (input) PCL_EPROCLIM :: int where "PCL_EPROCLIM \<equiv> 40"
abbreviation (input) PCL_ERANGE :: int where "PCL_ERANGE \<equiv> 41"
abbreviation (input) PCL_EROFS :: int where "PCL_EROFS \<equiv> 42"
abbreviation (input) PCL_ESPIPE :: int where "PCL_ESPIPE \<equiv> 43"
abbreviation (input) PCL_EWOULDBLOCK :: int where "PCL_EWOULDBLOCK \<equiv> PCL_EAGAIN"
abbreviation (input) PCL_EXDEV :: int where "PCL_EXDEV \<equiv> 45"
abbreviation (input) PCL_ENAMETOOLONG :: int where "PCL_ENAMETOOLONG \<equiv> 46"
abbreviation (input) PCL_EINDEX :: int where "PCL_EINDEX \<equiv> 47"
abbreviation (input) PCL_EBUF :: int where "PCL_EBUF \<equiv> 48"
abbreviation (input) PCL_EFORMAT :: int where "PCL_EFORMAT \<equiv> 49"
abbreviation (input) PCL_ETYPE :: int where "PCL_ETYPE \<equiv> 50"
abbreviation (input) PCL_ENOMORE :: int where "PCL_ENOMORE \<equiv> 51"
abbreviation (input) PCL_ENOTREADY :: int where "PCL_ENOTREADY \<equiv> 52"
abbreviation (input) PCL_EPATH :: int where "PCL_EPATH \<equiv> 53"
abbreviation (input) PCL_EUNDEF :: int where "PCL_EUNDEF \<equiv> 54"
abbreviation (input) PCL_ENOTFOUND :: int where "PCL_ENOTFOUND \<equiv> 55"
abbreviation (input) PCL_EOF :: int where "PCL_EOF \<equiv> 56"
abbreviation (input) PCL_ECRYPT :: int where "PCL_ECRYPT \<equiv> 57"
abbreviation (input) PCL_ETIMEOUT :: int where "PCL_ETIMEOUT \<equiv> 58"
abbreviation (input) PCL_EAUTH :: int where "PCL_EAUTH \<equiv> 69"
abbreviation (input) PCL_EVERSION :: int where "PCL_EVERSION \<equiv> 70"
abbreviation (input) PCL_ERESTART :: int where "PCL_ERESTART \<equiv> 71"
abbreviation (input) PCL_ENOLINK :: int where "PCL_ENOLINK \<equiv> 72"
abbreviation (input) PCL_EDEVERR :: int where "PCL_EDEVERR \<equiv> 73"
abbreviation (input) PCL_ELIBMAX :: int where "PCL_ELIBMAX \<equiv> 74"
abbreviation (input) PCL_ENOSR :: int where "PCL_ENOSR \<equiv> 75"
abbreviation (input) PCL_EUNAVAIL :: int where "PCL_EUNAVAIL \<equiv> 76"
abbreviation (input) PCL_EEXPIRED :: int where "PCL_EEXPIRED \<equiv> 77"
abbreviation (input) PCL_EREJECTED :: int where "PCL_EREJECTED \<equiv> 78"
abbreviation (input) PCL_EREVOKED :: int where "PCL_EREVOKED \<equiv> 79"
abbreviation (input) PCL_EDISABLED :: int where "PCL_EDISABLED \<equiv> 80"
abbreviation (input) PCL_ESYNC :: int where "PCL_ESYNC \<equiv> 81"
abbreviation (input) PCL_EDB :: int where "PCL_EDB \<equiv> 82"
abbreviation (input) PCL_ELOCK :: int where "PCL_ELOCK \<equiv> 83"
abbreviation (input) PCL_EABORT :: int where "PCL_EABORT \<equiv> 84"
abbreviation (input) PCL_EDIGEST :: int where "PCL_EDIGEST \<equiv> 85"
abbreviation (input) PCL_ESECURITY :: int where "PCL_ESECURITY \<equiv> 86"
abbreviation (input) PCL_EMOVED :: int where "PCL_EMOVED \<equiv> 87"
abbreviation (input) PCL_ECLASS :: int where "PCL_ECLASS \<equiv> 88"
abbreviation (input) PCL_ESSL :: int where "PCL_ESSL \<equiv> 89"
abbreviation (input) PCL_ESEQ :: int where "PCL_ESEQ \<equiv> 90"
abbreviation (input) PCL_ESYNTAX :: int where "PCL_ESYNTAX \<equiv> 91"
abbreviation (input) PCL_EBADH :: int where "PCL_EBADH \<equiv> 92"
abbreviation (input) PCL_EDBQUERY :: int where "PCL_EDBQUERY \<equiv> 93"
abbreviation (input) PCL_EINVCODEPT :: int where "PCL_EINVCODEPT \<equiv> 94"
abbreviation (input) PCL_ERR_NETSTART :: int where "PCL_ERR_NETSTART \<equiv> 200"
abbreviation (input) PCL_EADDRINUSE :: int where "PCL_EADDRINUSE \<equiv> 200"
abbreviation (input) PCL_EADDRNOTAVAIL :: int where "PCL_EADDRNOTAVAIL \<equiv> 201"
abbreviation (input) PCL_EAFNOSUPPORT :: int where "PCL_EAFNOSUPPORT \<equiv> 202"
abbreviation (input) PCL_ECONNABORTED :: int where "PCL_ECONNABORTED \<equiv> 203"
abbreviation (input) PCL_ECONNREFUSED :: int where "PCL_ECONNREFUSED \<equiv> 204"
abbreviation (input) PCL_ECONNRESET :: int where "PCL_ECONNRESET \<equiv> 205"
abbreviation (input) PCL_EDESTADDRREQ :: int where "PCL_EDESTADDRREQ \<equiv> 206"
abbreviation (input) PCL_EHOSTDOWN :: int where "PCL_EHOSTDOWN \<equiv> 207"
abbreviation (input) PCL_EHOSTUNREACH :: int where "PCL_EHOSTUNREACH \<equiv> 208"
abbreviation (input) PCL_EISCONN :: int where "PCL_EISCONN \<equiv> 209"
abbreviation (input) PCL_EMSGSIZE :: int where "PCL_EMSGSIZE \<equiv> 210"
abbreviation (input) PCL_EMULTIHOP :: int where "PCL_EMULTIHOP \<equiv> 211"
abbreviation (input) PCL_ENETDOWN :: int where "PCL_ENETDOWN \<equiv> 212"
abbreviation (input) PCL_ENETRESET :: int where "PCL_ENETRESET \<equiv> 213"
abbreviation (input) PCL_ENETUNREACH :: int where "PCL_ENETUNREACH \<equiv> 214"
abbreviation (input) PCL_ENOBUFS :: int where "PCL_ENOBUFS \<equiv> 215"
abbreviation (input) PCL_ENOPROTOOPT :: int where "PCL_ENOPROTOOPT \<equiv> 216"
abbreviation (input) PCL_ENOTCONN :: int where "PCL_ENOTCONN \<equiv> 217"
abbreviation (input) PCL_ENOTSOCK :: int where "PCL_ENOTSOCK \<equiv> 218"
abbreviation (input) PCL_EOPNOTSUPP :: int where "PCL_EOPNOTSUPP \<equiv> 219"
abbreviation (input) PCL_EPFNOSUPPORT :: int where "PCL_EPFNOSUPPORT \<equiv> 220"
abbreviation (input) PCL_EPROTO :: int where "PCL_EPROTO \<equiv> 221"
abbreviation (input) PCL_EPROTONOSUPPORT :: int where "PCL_EPROTONOSUPPORT \<equiv> 222"
abbreviation (input) PCL_EPROTOTYPE :: int where "PCL_EPROTOTYPE \<equiv> 223"
abbreviation (input) PCL_EREMOTE :: int where "PCL_EREMOTE \<equiv> 224"
abbreviation (input) PCL_ESHUTDOWN :: int where "PCL_ESHUTDOWN \<equiv> 225"
abbreviation (input) PCL_ESOCKTNOSUPPORT :: int where "PCL_ESOCKTNOSUPPORT \<equiv> 226"
abbreviation (input) PCL_ESTALE :: int where "PCL_ESTALE \<equiv> 227"
abbreviation (input) PCL_ETOOMANYREFS :: int where "PCL_ETOOMANYREFS \<equiv> 228"
abbreviation (input) PCL_EUSERS :: int where "PCL_EUSERS \<equiv> 229"
abbreviation (input) PCL_EHOSTNOTFOUND :: int where "PCL_EHOSTNOTFOUND \<equiv> 230"
abbreviation (input) PCL_ETRYAGAIN :: int where "PCL_ETRYAGAIN \<equiv> 231"
abbreviation (input) PCL_ENORECOVERY :: int where "PCL_ENORECOVERY \<equiv> 232"
abbreviation (input) PCL_ENODATA :: int where "PCL_ENODATA \<equiv> 233"
abbreviation (input) PCL_ENOADDRESS :: int where "PCL_ENOADDRESS \<equiv> 234"
abbreviation (input) PCL_ECOMM :: int where "PCL_ECOMM \<equiv> 235"
abbreviation (input) PCL_ENONET :: int where "PCL_ENONET \<equiv> 236"
abbreviation (input) PCL_ENOTUNIQ :: int where "PCL_ENOTUNIQ \<equiv> 237"
abbreviation (input) PCL_EREMCHG :: int where "PCL_EREMCHG \<equiv> 238"
abbreviation (input) PCL_EREMOTEIO :: int where "PCL_EREMOTEIO \<equiv> 239"
abbreviation (input) PCL_ERR_NETSTOP :: int where "PCL_ERR_NETSTOP \<equiv> 240"

text \<open>\<open>pcl_err_isnet\<close>: is the code a network error.\<close>

definition pcl_err_isnet :: "int \<Rightarrow> bool" where
  "pcl_err_isnet e \<longleftrightarrow> (e \<ge> PCL_ERR_NETSTART \<and> e < PCL_ERR_NETSTOP) \<or> e = PCL_EPIPE"

section \<open>Names and messages\<close>

text \<open>A row of the table: the code, the name and the message, either of them possibly \<open>NULL\<close>.\<close>

type_synonym ipcl_err_msgmap_t = "int \<times> string option \<times> string option"

definition error_msgmap :: "ipcl_err_msgmap_t list" where
  "error_msgmap = [
     (PCL_EOKAY, Some ''PCL_EOKAY'', Some ''The operation was successful.''),
     (PCL_E2BIG, Some ''PCL_E2BIG'', Some ''Arg list too long.''),
     (PCL_EACCES, Some ''PCL_EACCES'', Some ''Access is denied.''),
     (PCL_EAGAIN, Some ''PCL_EAGAIN'', Some ''Try again.''),
     (PCL_EALREADY, Some ''PCL_EALREADY'', Some ''Operation is already in progress.''),
     (PCL_EBADF, Some ''PCL_EBADF'', Some ''Bad file descriptor.''),
     (PCL_EBADCMD, Some ''PCL_EBADCMD'', Some ''Invalid request.''),
     (PCL_EBUSY, Some ''PCL_EBUSY'', Some ''Device or resource busy.''),
     (PCL_ECANCELLED, Some ''PCL_ECANCELLED'', Some ''Operation cancelled.''),
     (PCL_ECHILD, Some ''PCL_ECHILD'', Some ''No child processes.''),
     (PCL_EDEADLK, Some ''PCL_EDEADLK'', Some ''Resource deadlock would occur.''),
     (PCL_EDEVERR, Some ''PCL_EDEVERR'', Some ''Device error.''),
     (PCL_EDQUOT, Some ''PCL_EDQUOT'', Some ''Disc quota exceeded.''),
     (PCL_EEXIST, Some ''PCL_EEXIST'', Some ''Object or resource already exists.''),
     (PCL_EFAULT, Some ''PCL_EFAULT'', Some ''Bad Address.''),
     (PCL_EFBIG, Some ''PCL_EFBIG'', Some ''File too large.''),
     (PCL_EILSEQ, Some ''PCL_EILSEQ'', Some ''Invalid or incomplete multibyte or wide character.''),
     (PCL_ERESTART, Some ''PCL_ERESTART'', Some ''Interrupted system call should be restarted''),
     (PCL_EINPROGRESS, Some ''PCL_EINPROGRESS'', Some ''Operation is now in progress.''),
     (PCL_EINTR, Some ''PCL_EINTR'', Some ''Interrupted system call.''),
     (PCL_EINVAL, Some ''PCL_EINVAL'', Some ''Invalid argument.''),
     (PCL_EIO, Some ''PCL_EIO'', Some ''I/O error.''),
     (PCL_EISDIR, Some ''PCL_EISDIR'', Some ''Is a directory.''),
     (PCL_ELIBMAX, Some ''PCL_ELIBMAX'', Some ''Attempting to link in too many shared libraries.''),
     (PCL_ELOOP, Some ''PCL_ELOOP'', Some ''Too many symbolic links.''),
     (PCL_EMFILE, Some ''PCL_EMFILE'', Some ''Process open file limit has been exceeded.''),
     (PCL_EMLINK, Some ''PCL_EMLINK'', Some ''Too many hard links to the given file or directory.''),
     (PCL_ENFILE, Some ''PCL_ENFILE'', Some ''System open file limit has been exceeded.''),
     (PCL_ENODEV, Some ''PCL_ENODEV'', Some ''No such device.''),
     (PCL_ENOENT, Some ''PCL_ENOENT'', Some ''No such file or directory.''),
     (PCL_ENOEXEC, Some ''PCL_ENOEXEC'', Some ''Exec format error.''),
     (PCL_ENOLCK, Some ''PCL_ENOLCK'', Some ''No locks available.''),
     (PCL_ENOLINK, Some ''PCL_ENOLINK'', Some ''Link has been severed.''),
     (PCL_ENOMEM, Some ''PCL_ENOMEM'', Some ''Out of memory.''),
     (PCL_ESRCH, Some ''PCL_ESRCH'', Some ''No such process.''),
     (PCL_ENOSPC, Some ''PCL_ENOSPC'', Some ''No space left on device.''),
     (PCL_ENOSR, Some ''PCL_ENOSR'', Some ''Out of streams resources''),
     (PCL_ENOSTR, Some ''PCL_ENOSTR'', Some ''Not a stream.''),
     (PCL_ENOIMPL, Some ''PCL_ENOIMPL'', Some ''Operation/Function not implemented.''),
     (PCL_ENOTDIR, Some ''PCL_ENOTDIR'', Some ''Not a directory.''),
     (PCL_ENOTEMPTY, Some ''PCL_ENOTEMPTY'', Some ''Directory is not empty.''),
     (PCL_ENOTSUP, Some ''PCL_ENOTSUP'', Some ''Operation not supported.''),
     (PCL_EOVERFLOW, Some ''PCL_EOVERFLOW'', Some ''Value too large to be stored in data type.''),
     (PCL_EPERM, Some ''PCL_EPERM'', Some ''Permission denied.''),
     (PCL_EPIPE, Some ''PCL_EPIPE'', Some ''Broken pipe.''),
     (PCL_EPROCLIM, Some ''PCL_EPROCLIM'', Some ''Too many processes.''),
     (PCL_ERANGE, Some ''PCL_ERANGE'', Some ''Math result not representable.''),
     (PCL_EROFS, Some ''PCL_EROFS'', Some ''Read-only file system.''),
     (PCL_ESPIPE, Some ''PCL_ESPIPE'', Some ''Illegal seek.''),
     (PCL_ETIMEOUT, Some ''PCL_ETIMEOUT'', Some ''Operation timed out.''),
     (PCL_EXDEV, Some ''PCL_EXDEV'', Some ''Cross-device operation not permitted.''),
     (PCL_ENAMETOOLONG, Some ''PCL_ENAMETOOLONG'', Some ''Name is too long.''),
     (PCL_EINDEX, Some ''PCL_EINDEX'', Some ''Invalid index.''),
     (PCL_EBUF, Some ''PCL_EBUF'', Some ''Buffer too small.''),
     (PCL_EFORMAT, Some ''PCL_EFORMAT'', Some ''Invalid or corrupt format.''),
     (PCL_ETYPE, Some ''PCL_ETYPE'', Some ''Invalid type.''),
     (PCL_ENOMORE, Some ''PCL_ENOMORE'', Some ''No more items.''),
     (PCL_ENOTREADY, Some ''PCL_ENOTREADY'', Some ''Device or resource is not ready or initialized.''),
     (PCL_EPATH, Some ''PCL_EPATH'', Some ''Invalid pathname.''),
     (PCL_EUNDEF, Some ''PCL_EUNDEF'', Some ''Undefined error occurred.''),
     (PCL_ENOTFOUND, Some ''PCL_ENOTFOUND'', Some ''Object or resource not found.''),
     (PCL_EOF, Some ''PCL_EOF'', Some ''End of file.''),
     (PCL_ECRYPT, Some ''PCL_ECRYPT'', Some ''Encryption or decryption failed.''),
     (PCL_EAUTH, Some ''PCL_EAUTH'', Some ''Authentication error.''),
     (PCL_EVERSION, Some ''PCL_EVERSION'', Some ''Version conflict.''),
     (PCL_EUNAVAIL, Some ''PCL_EUNAVAIL'', Some ''Object or resource is unavailable.''),
     (PCL_EEXPIRED, Some ''PCL_EEXPIRED'', Some ''Object or resource has expired.''),
     (PCL_EREJECTED, Some ''PCL_EREJECTED'', Some ''Object or resource has been rejected.''),
     (PCL_EREVOKED, Some ''PCL_EREVOKED'', Some ''Object or resource has been revoked.''),
     (PCL_ESYNC, Some ''PCL_ESYNC'', Some ''Out of sync.''),
     (PCL_EDISABLED, Some ''PCL_EDISABLED'', Some ''Object or resource has been disabled.''),
     (PCL_EDB, Some ''PCL_EDB'', Some ''Database error.''),
     (PCL_ELOCK, Some ''PCL_ELOCK'', Some ''The resource is currently locked.''),
     (PCL_EABORT, Some ''PCL_EABORT'', Some ''The operation has been aborted.''),
     (PCL_EDIGEST, Some ''PCL_EDIGEST'', Some ''Message digest failure.''),
     (PCL_ESECURITY, Some ''PCL_ESECURITY'', Some ''Security violation.''),
     (PCL_EMOVED, Some ''PCL_EMOVED'', Some ''Object or resource has moved.''),
     (PCL_ECLASS, Some ''PCL_ECLASS'', Some ''Object is not an instance of class.''),
     (PCL_ESSL, Some ''PCL_ESSL'', Some ''SSL error.''),
     (PCL_ESEQ, Some ''PCL_ESEQ'', Some ''Out of sequence.''),
     (PCL_ESYNTAX, Some ''PCL_ESYNTAX'', Some ''Syntax error.''),
     (PCL_EBADH, Some ''PCL_EBADH'', Some ''Bad handle value.''),
     (PCL_EDBQUERY, Some ''PCL_EDBQUERY'', Some ''Database query error.''),
     (PCL_EINVCODEPT, Some ''PCL_EINVCODEPT'', Some ''Invalid unicode codepoint.''),
     (PCL_EADDRINUSE, Some ''PCL_EADDRINUSE'', Some ''The internet address is already in use.''),
     (PCL_EADDRNOTAVAIL, Some ''PCL_EADDRNOTAVAIL'', Some ''Can't assign the requested internet address.''),
     (PCL_EAFNOSUPPORT, Some ''PCL_EAFNOSUPPORT'', Some ''Internet address family not supported by protocol family.''),
     (PCL_ECOMM, Some ''PCL_ECOMM'', Some ''Communication error on send.''),
     (PCL_ECONNABORTED, Some ''PCL_ECONNABORTED'', Some ''Software caused connection abort.''),
     (PCL_ECONNREFUSED, Some ''PCL_ECONNREFUSED'', Some ''Connection refused.''),
     (PCL_ECONNRESET, Some ''PCL_ECONNRESET'', Some ''Connection reset by peer.''),
     (PCL_EDESTADDRREQ, Some ''PCL_EDESTADDRREQ'', Some ''Destination internet address required.''),
     (PCL_EHOSTDOWN, Some ''PCL_EHOSTDOWN'', Some ''Host is down.''),
     (PCL_EHOSTUNREACH, Some ''PCL_EHOSTUNREACH'', Some ''No route to host.''),
     (PCL_EISCONN, Some ''PCL_EISCONN'', Some ''Socket is already connected.''),
     (PCL_EMSGSIZE, Some ''PCL_EMSGSIZE'', Some ''Message too long.''),
     (PCL_EMULTIHOP, Some ''PCL_EMULTIHOP'', Some ''Hopping to multiple remote machines is prohibited.''),
     (PCL_ENETDOWN, Some ''PCL_ENETDOWN'', Some ''Network is down.''),
     (PCL_ENETRESET, Some ''PCL_ENETRESET'', Some ''Network dropped connection on reset.''),
     (PCL_ENETUNREACH, Some ''PCL_ENETUNREACH'', Some ''Network is unreachable.''),
     (PCL_ENOBUFS, Some ''PCL_ENOBUFS'', Some ''No buffer space available.''),
     (PCL_ENONET, Some ''PCL_ENONET'', Some ''Machine is not on the network.''),
     (PCL_ENOPROTOOPT, Some ''PCL_ENOPROTOOPT'', Some ''Protocol not available.''),
     (PCL_ENOTCONN, Some ''PCL_ENOTCONN'', Some ''Socket is not connected.''),
     (PCL_ENOTSOCK, Some ''PCL_ENOTSOCK'', Some ''A socket operation was attempted on a non-socket.''),
     (PCL_ENOTUNIQ, Some ''PCL_ENOTUNIQ'', Some ''Name not unique on network.''),
     (PCL_EOPNOTSUPP, Some ''PCL_EOPNOTSUPP'', Some ''Operation not supported.''),
     (PCL_EPFNOSUPPORT, Some ''PCL_EPFNOSUPPORT'', Some ''Protocol family not supported.''),
     (PCL_EPROTO, Some ''PCL_EPROTO'', Some ''Protocol not supported.''),
     (PCL_EPROTONOSUPPORT, Some ''PCL_EPROTONOSUPPORT'', Some ''Protocol error.''),
     (PCL_EPROTOTYPE, Some ''PCL_EPROTOTYPE'', Some ''Protocol wrong type for socket.''),
     (PCL_EREMCHG, Some ''PCL_EREMCHG'', Some ''Remote address changed.''),
     (PCL_EREMOTE, Some ''PCL_EREMOTE'', Some ''Too many levels of remote in path.''),
     (PCL_EREMOTEIO, Some ''PCL_EREMOTEIO'', Some ''Remote I/O error.''),
     (PCL_ESHUTDOWN, Some ''PCL_ESHUTDOWN'', Some ''Can't send after socket shutdown.''),
     (PCL_ESOCKTNOSUPPORT, Some ''PCL_ESOCKTNOSUPPORT'', Some ''Socket type not supported.''),
     (PCL_ESTALE, Some ''PCL_ESTALE'', Some ''Stale remote resource, such as an NFS file.''),
     (PCL_ETOOMANYREFS, Some ''PCL_ETOOMANYREFS'', Some ''Too many references, can't splice.''),
     (PCL_EUSERS, Some ''PCL_EUSERS'', Some ''Too many users.''),
     (PCL_EHOSTNOTFOUND, Some ''PCL_EHOSTNOTFOUND'', Some ''Authoritative Answer: Host not found.''),
     (PCL_ETRYAGAIN, Some ''PCL_ETRYAGAIN'', Some ''Non-Authoritative: Host not found or SERVERFAIL.''),
     (PCL_ENORECOVERY, Some ''PCL_ENORECOVERY'', Some ''Non recoverable errors, FORMERR, REFUSED, NOTIMP.''),
     (PCL_ENODATA, Some ''PCL_ENODATA'', Some ''The requested name is valid but does not have an IP address.''),
     (PCL_ENOADDRESS, Some ''PCL_ENOADDRESS'', Some ''No address, look for MX record.''),
     (0, None, None)]"

text \<open>\<open>pcl_err_name\<close> and \<open>pcl_err_msg\<close> return the row of the first match, or a fixed text.\<close>

definition pcl_err_name :: "int \<Rightarrow> string option" where
  "pcl_err_name e =
     (case List.find (\<lambda>(c, _, _). e = c) error_msgmap of
        Some (_, name, _) \<Rightarrow> name
      | None \<Rightarrow> Some ''PCL_EUNDEF'')"

definition pcl_err_msg :: "int \<Rightarrow> string option" where
  "pcl_err_msg e =
     (case List.find (\<lambda>(c, _, _). e = c) error_msgmap of
        Some (_, _, msg) \<Rightarrow> msg
      | None \<Rightarrow> Some ''Undefined'')"

text \<open>\<open>pcl_err_code\<close> compares the argument with the name of every row by \<open>strcmp\<close>, the
  placeholder row included, whose name is \<open>NULL\<close>: undefined behaviour (\<open>None\<close>).\<close>

fun err_code_loop :: "string \<Rightarrow> ipcl_err_msgmap_t list \<Rightarrow> int option" where
  "err_code_loop name [] = Some PCL_EUNDEF"
| "err_code_loop name ((c, n, _) # rows) =
     (case n of
        None \<Rightarrow> None
      | Some s \<Rightarrow> if name = s then Some c else err_code_loop name rows)"

definition pcl_err_code :: "string \<Rightarrow> int option" where
  "pcl_err_code name = err_code_loop name error_msgmap"

section \<open>Facts about the table\<close>

text \<open>
  Deciding that strings are pairwise different character by character, so that the kernel checks
  the names of the table without comparing every pair in full.
\<close>

fun distinct_by_chars :: "nat \<Rightarrow> string list \<Rightarrow> bool" where
  "distinct_by_chars 0 xs = False"
| "distinct_by_chars (Suc n) [] = True"
| "distinct_by_chars (Suc n) [x] = True"
| "distinct_by_chars (Suc n) ([] # y # ys) =
     (list_all (\<lambda>s. s \<noteq> []) (y # ys) \<and> distinct_by_chars n (y # ys))"
| "distinct_by_chars (Suc n) ((c # cs) # y # ys) =
     (let starts = (\<lambda>s. case s of [] \<Rightarrow> False | d # _ \<Rightarrow> d = c)
      in distinct_by_chars n (cs # map tl (filter starts (y # ys)))
       \<and> distinct_by_chars n (filter (\<lambda>s. \<not> starts s) (y # ys)))"

lemma distinct_by_filter:
  "distinct (filter P xs) \<Longrightarrow> distinct (filter (\<lambda>x. \<not> P x) xs) \<Longrightarrow> distinct xs"
  by (induction xs) (auto split: if_splits)

lemma distinct_by_chars_sound: "distinct_by_chars n xs \<Longrightarrow> distinct xs"
proof (induction n xs rule: distinct_by_chars.induct)
  case (4 n y ys)
  then show ?case by (auto simp: list_all_iff)
next
  case (5 n c cs y ys)
  define starts where "starts = (\<lambda>s. case s of [] \<Rightarrow> False | d # _ \<Rightarrow> d = c)"
  from 5 have a: "distinct (cs # map tl (filter starts (y # ys)))"
    and b: "distinct (filter (\<lambda>s. \<not> starts s) (y # ys))"
    by (simp_all only: starts_def Let_def distinct_by_chars.simps)
  from a have a1: "distinct (filter starts (y # ys))"
    and a2: "cs \<notin> tl ` set (filter starts (y # ys))"
    by (simp_all only: distinct.simps distinct_map list.set_map) (simp_all)
  have "(c # cs) \<notin> set (y # ys)"
  proof
    assume "(c # cs) \<in> set (y # ys)"
    then have "tl (c # cs) \<in> tl ` set (filter starts (y # ys))"
      by (intro imageI) (auto simp: starts_def)
    with a2 show False by simp
  qed
  moreover have "distinct (y # ys)"
    using a1 b by (rule distinct_by_filter)
  ultimately show ?case by simp
qed auto

lemmas msgmap_project = error_msgmap_def butlast.simps list.map comp_apply fst_conv snd_conv
  list.distinct if_False if_True simp_thms option.sel

lemma error_msgmap_split: "error_msgmap = butlast error_msgmap @ [(0, None, None)]"
  by (simp only: error_msgmap_def butlast.simps list.distinct if_False if_True append.simps
      simp_thms)

lemma msgmap_codes_distinct: "distinct (map fst (butlast error_msgmap))"
proof -
  have "sorted_wrt (<) (sort (map fst (butlast error_msgmap)))"
    by (simp only: msgmap_project) code_simp
  then show ?thesis
    by (metis distinct_sort strict_sorted_iff)
qed

lemma msgmap_names_some: "list_all (\<lambda>n. n \<noteq> None) (map (fst \<circ> snd) (butlast error_msgmap))"
  by (simp only: msgmap_project list.pred_inject option.distinct simp_thms)

lemma msgmap_names_distinct: "distinct (map (the \<circ> fst \<circ> snd) (butlast error_msgmap))"
proof -
  have "distinct_by_chars 300 (map (drop 5 \<circ> the \<circ> fst \<circ> snd) (butlast error_msgmap))"
    by (simp only: msgmap_project) code_simp
  then have "distinct (map (drop 5) (map (the \<circ> fst \<circ> snd) (butlast error_msgmap)))"
    by (simp add: distinct_by_chars_sound comp_assoc)
  then show ?thesis using distinct_map by blast
qed

text \<open>Searching a table with distinct keys finds the row of the key.\<close>

lemma find_key_unique:
  assumes "distinct (map fst rows)" "(c, x) \<in> set rows"
  shows "List.find (\<lambda>(d, _). c = d) (rows @ more) = Some (c, x)"
  using assms by (induction rows) (auto, force)

lemma err_code_loop_hit:
  assumes "distinct (map (the \<circ> fst \<circ> snd) rows)" "list_all (\<lambda>n. n \<noteq> None) (map (fst \<circ> snd) rows)"
    "(c, Some name, m) \<in> set rows"
  shows "err_code_loop name (rows @ more) = Some c"
  using assms
proof (induction rows)
  case (Cons r rows)
  obtain c' n' m' where r: "r = (c', Some n', m')"
    using Cons.prems(2) by (cases r) auto
  show ?case
  proof (cases "n' = name")
    case True
    with Cons.prems r have "(c, Some name, m) = r"
      by (force simp: image_iff)
    with r show ?thesis by simp
  next
    case False
    with Cons r show ?thesis by auto
  qed
qed simp

lemma err_code_loop_miss:
  assumes "list_all (\<lambda>n. n \<noteq> None \<and> n \<noteq> Some name) (map (fst \<circ> snd) rows)"
  shows "err_code_loop name (rows @ more) = err_code_loop name more"
  using assms by (induction rows) auto

text \<open>A code of the table is found by its number and by its name: the three lookups agree.\<close>

lemma msgmap_roundtrip:
  assumes "(c, Some name, msg) \<in> set error_msgmap"
  shows "pcl_err_name c = Some name" "pcl_err_msg c = msg" "pcl_err_code name = Some c"
proof -
  have row: "(c, Some name, msg) \<in> set (butlast error_msgmap)"
    using assms by (subst (asm) error_msgmap_split) auto
  have "List.find (\<lambda>(d, _). c = d) error_msgmap = Some (c, Some name, msg)"
    by (subst error_msgmap_split) (rule find_key_unique [OF msgmap_codes_distinct row])
  moreover have "(\<lambda>(d, _, _). c = d) = (\<lambda>(d, _ :: string option \<times> string option). c = d)"
    by (auto simp: fun_eq_iff)
  ultimately have f: "List.find (\<lambda>(d, _, _). c = d) error_msgmap = Some (c, Some name, msg)"
    by simp
  show "pcl_err_name c = Some name" "pcl_err_msg c = msg"
    by (simp_all add: pcl_err_name_def pcl_err_msg_def f)
  show "pcl_err_code name = Some c"
    unfolding pcl_err_code_def
    by (subst error_msgmap_split)
      (rule err_code_loop_hit [OF msgmap_names_distinct msgmap_names_some row])
qed

text \<open>A name that is not in the table ends in the comparison with the placeholder's \<open>NULL\<close>.\<close>

lemma msgmap_unknown_name:
  assumes "Some name \<notin> (fst \<circ> snd) ` set error_msgmap"
  shows "pcl_err_code name = None"
proof -
  have "list_all (\<lambda>n. n \<noteq> None \<and> n \<noteq> Some name) (map (fst \<circ> snd) (butlast error_msgmap))"
    using assms msgmap_names_some
    by (subst (asm) error_msgmap_split) (auto simp: list_all_iff image_iff)
  then have "err_code_loop name (butlast error_msgmap @ [(0, None, None)]) = None"
    by (simp add: err_code_loop_miss)
  then show ?thesis
    by (simp add: pcl_err_code_def error_msgmap_split [symmetric])
qed

section \<open>Properties\<close>

text \<open>The three lookups over the table of errors agree: for every row, the code gives the
  name and the message, and the name gives the code back.\<close>

theorem err_code_name_roundtrip:
  assumes "(c, Some name, msg) \<in> set error_msgmap"
  shows "pcl_err_name c = Some name \<and> pcl_err_msg c = msg \<and> pcl_err_code name = Some c"
  using msgmap_roundtrip [OF assms] by blast

theorem err_code_name_roundtrip_witness:
  "pcl_err_name PCL_ERANGE = Some ''PCL_ERANGE'' \<and> pcl_err_msg PCL_ERANGE = Some ''Math result not representable.''
   \<and> pcl_err_code ''PCL_ERANGE'' = Some PCL_ERANGE"
  by (rule err_code_name_roundtrip) (simp add: error_msgmap_def)

text \<open>\<open>pcl_err_code\<close> of a name that is not in the table does not return \<open>PCL_EUNDEF\<close>: the search
  reaches the placeholder row and compares the name with its \<open>NULL\<close>.\<close>

theorem err_code_unknown_name:
  assumes "list_all (\<lambda>row. fst (snd row) \<noteq> Some name) error_msgmap"
  shows "pcl_err_code name = None"
  using assms by (intro msgmap_unknown_name) (auto simp: list_all_iff)

theorem err_code_unknown_name_witness: "pcl_err_code ''bogus'' = None"
  by (rule err_code_unknown_name) code_simp

end
