(* ===== verification/PclError.thy ===== *)
theory PclError imports PclErrno begin

text \<open>
  The error module (\<open>src/error\<close>): the per-thread error of \<open>pcl_err_get\<close> with its stack trace,
  its freeze flag and the macros of \<open>include/pcl/_errdefs.h\<close> through which every function of the
  library reports failure, and the map of OS error codes.

  The thread's error is the record \<open>pcl_err\<close>; together with C's \<open>errno\<close> it is the state every
  failing operation of the library changes, so it is passed to and returned by the operations.
  Later theories extend the record with what their operations change besides. A location
  \<open>__FILE__, __func__, __LINE__\<close> is a triple. A formatted message is given as its text after
  formatting, and \<open>None\<close> stands for a \<open>NULL\<close> or empty format (\<open>strempty\<close>).
\<close>

section \<open>OS error codes\<close>

text \<open>A row: the OS code, the PCL code, the OS name. The numbers are those of Linux's
  \<open>errno.h\<close>; codes Linux does not define are left out by the table's \<open>#ifdef\<close>s.\<close>

type_synonym ipcl_err_map_t = "int \<times> int \<times> string"

definition error_map_1 :: "ipcl_err_map_t list" where
  "error_map_1 = [
     (7, PCL_E2BIG, ''E2BIG''),
     (13, PCL_EACCES, ''EACCES''),
     (11, PCL_EAGAIN, ''EAGAIN''),
     (114, PCL_EALREADY, ''EALREADY''),
     (9, PCL_EBADF, ''EBADF''),
     (77, PCL_EBADF, ''EBADFD''),
     (74, PCL_EINVAL, ''EBADMSG''),
     (53, PCL_EBADCMD, ''EBADR''),
     (56, PCL_EBADCMD, ''EBADRQC''),
     (57, PCL_EBADCMD, ''EBADSLT''),
     (59, PCL_ENOEXEC, ''EBFONT''),
     (16, PCL_EBUSY, ''EBUSY''),
     (125, PCL_ECANCELLED, ''ECANCELED''),
     (10, PCL_ECHILD, ''ECHILD''),
     (44, PCL_ERANGE, ''ECHRNG''),
     (35, PCL_EDEADLK, ''EDEADLK''),
     (33, PCL_EINVAL, ''EDOM''),
     (122, PCL_EDQUOT, ''EDQUOT''),
     (17, PCL_EEXIST, ''EEXIST''),
     (14, PCL_EFAULT, ''EFAULT''),
     (27, PCL_EFBIG, ''EFBIG''),
     (43, PCL_ENOTFOUND, ''EIDRM''),
     (84, PCL_EILSEQ, ''EILSEQ''),
     (115, PCL_EINPROGRESS, ''EINPROGRESS''),
     (4, PCL_EINTR, ''EINTR''),
     (22, PCL_EINVAL, ''EINVAL''),
     (5, PCL_EIO, ''EIO''),
     (21, PCL_EISDIR, ''EISDIR''),
     (127, PCL_EEXPIRED, ''EKEYEXPIRED'')]"

definition error_map_2 :: "ipcl_err_map_t list" where
  "error_map_2 = [
     (129, PCL_EREJECTED, ''EKEYREJECTED''),
     (128, PCL_EREVOKED, ''EKEYREVOKED''),
     (45, PCL_ESYNC, ''EL2NSYNC''),
     (79, PCL_EACCES, ''ELIBACC''),
     (80, PCL_ENOEXEC, ''ELIBBAD''),
     (83, PCL_ENOEXEC, ''ELIBEXEC''),
     (81, PCL_ENOEXEC, ''ELIBSCN''),
     (82, PCL_ELIBMAX, ''ELIBMAX''),
     (48, PCL_ERANGE, ''ELNRNG''),
     (40, PCL_ELOOP, ''ELOOP''),
     (124, PCL_ETYPE, ''EMEDIUMTYPE''),
     (24, PCL_EMFILE, ''EMFILE''),
     (31, PCL_EMLINK, ''EMLINK''),
     (36, PCL_ENAMETOOLONG, ''ENAMETOOLONG''),
     (119, PCL_EUNAVAIL, ''ENAVAIL''),
     (23, PCL_ENFILE, ''ENFILE''),
     (55, PCL_ENOTFOUND, ''ENOANO''),
     (50, PCL_EUNAVAIL, ''ENOCSI''),
     (61, PCL_ENODATA, ''ENODATA''),
     (19, PCL_ENODEV, ''ENODEV''),
     (2, PCL_ENOENT, ''ENOENT''),
     (8, PCL_ENOEXEC, ''ENOEXEC''),
     (126, PCL_EUNAVAIL, ''ENOKEY''),
     (37, PCL_ENOLCK, ''ENOLCK''),
     (67, PCL_ENOLINK, ''ENOLINK''),
     (123, PCL_ENOTFOUND, ''ENOMEDIUM''),
     (12, PCL_ENOMEM, ''ENOMEM''),
     (42, PCL_ETYPE, ''ENOMSG''),
     (65, PCL_EUNAVAIL, ''ENOPKG''),
     (28, PCL_ENOSPC, ''ENOSPC''),
     (63, PCL_ENOSR, ''ENOSR''),
     (60, PCL_ENOSTR, ''ENOSTR''),
     (38, PCL_ENOIMPL, ''ENOSYS''),
     (15, PCL_ETYPE, ''ENOTBLK''),
     (20, PCL_ENOTDIR, ''ENOTDIR''),
     (39, PCL_ENOTEMPTY, ''ENOTEMPTY'')]"

definition error_map_3 :: "ipcl_err_map_t list" where
  "error_map_3 = [
     (118, PCL_ETYPE, ''ENOTNAM''),
     (95, PCL_ENOTSUP, ''ENOTSUP''),
     (25, PCL_EIO, ''ENOTTY''),
     (6, PCL_ENODEV, ''ENXIO''),
     (75, PCL_EOVERFLOW, ''EOVERFLOW''),
     (1, PCL_EPERM, ''EPERM''),
     (32, PCL_EPIPE, ''EPIPE''),
     (34, PCL_ERANGE, ''ERANGE''),
     (85, PCL_ERESTART, ''ERESTART''),
     (30, PCL_EROFS, ''EROFS''),
     (29, PCL_ESPIPE, ''ESPIPE''),
     (3, PCL_ESRCH, ''ESRCH''),
     (86, PCL_EPIPE, ''ESTRPIPE''),
     (26, PCL_EBUSY, ''ETXTBSY''),
     (49, PCL_EUNAVAIL, ''EUNATCH''),
     (18, PCL_EXDEV, ''EXDEV''),
     (98, PCL_EADDRINUSE, ''EADDRINUSE''),
     (99, PCL_EADDRNOTAVAIL, ''EADDRNOTAVAIL''),
     (97, PCL_EAFNOSUPPORT, ''EAFNOSUPPORT''),
     (70, PCL_ECOMM, ''ECOMM''),
     (103, PCL_ECONNABORTED, ''ECONNABORTED''),
     (111, PCL_ECONNREFUSED, ''ECONNREFUSED''),
     (104, PCL_ECONNRESET, ''ECONNRESET''),
     (89, PCL_EDESTADDRREQ, ''EDESTADDRREQ''),
     (112, PCL_EHOSTDOWN, ''EHOSTDOWN''),
     (113, PCL_EHOSTUNREACH, ''EHOSTUNREACH''),
     (106, PCL_EISCONN, ''EISCONN''),
     (90, PCL_EMSGSIZE, ''EMSGSIZE'')]"

definition error_map_4 :: "ipcl_err_map_t list" where
  "error_map_4 = [
     (72, PCL_EMULTIHOP, ''EMULTIHOP''),
     (100, PCL_ENETDOWN, ''ENETDOWN''),
     (102, PCL_ENETRESET, ''ENETRESET''),
     (101, PCL_ENETUNREACH, ''ENETUNREACH''),
     (105, PCL_ENOBUFS, ''ENOBUFS''),
     (64, PCL_ENONET, ''ENONET''),
     (92, PCL_ENOPROTOOPT, ''ENOPROTOOPT''),
     (107, PCL_ENOTCONN, ''ENOTCONN''),
     (88, PCL_ENOTSOCK, ''ENOTSOCK''),
     (76, PCL_ENOTUNIQ, ''ENOTUNIQ''),
     (95, PCL_EOPNOTSUPP, ''EOPNOTSUPP''),
     (96, PCL_EPFNOSUPPORT, ''EPFNOSUPPORT''),
     (71, PCL_EPROTO, ''EPROTO''),
     (93, PCL_EPROTONOSUPPORT, ''EPROTONOSUPPORT''),
     (91, PCL_EPROTOTYPE, ''EPROTOTYPE''),
     (78, PCL_EREMCHG, ''EREMCHG''),
     (66, PCL_EREMOTE, ''EREMOTE''),
     (121, PCL_EREMOTEIO, ''EREMOTEIO''),
     (108, PCL_ESHUTDOWN, ''ESHUTDOWN''),
     (94, PCL_ESOCKTNOSUPPORT, ''ESOCKTNOSUPPORT''),
     (116, PCL_ESTALE, ''ESTALE''),
     (62, PCL_ETIMEOUT, ''ETIME''),
     (110, PCL_ETIMEOUT, ''ETIMEDOUT''),
     (109, PCL_ETOOMANYREFS, ''ETOOMANYREFS''),
     (87, PCL_EUSERS, ''EUSERS'')]"

definition error_map :: "ipcl_err_map_t list" where
  "error_map = (0, 0, ''PCL_EOKAY'') # error_map_1 @ error_map_2 @ error_map_3 @ error_map_4"

abbreviation (input) ERANGE :: int where "ERANGE \<equiv> 34"
abbreviation (input) EINVAL :: int where "EINVAL \<equiv> 22"
abbreviation (input) EINTR :: int where "EINTR \<equiv> 4"

definition pcl_err_os2pcl :: "int \<Rightarrow> int" where
  "pcl_err_os2pcl os =
     (case List.find (\<lambda>(c, _, _). c = os) error_map of
        Some (_, e, _) \<Rightarrow> e
      | None \<Rightarrow> PCL_EUNDEF)"

definition pcl_err_osname :: "int \<Rightarrow> string" where
  "pcl_err_osname os =
     (case List.find (\<lambda>(c, _, _). c = os) error_map of
        Some (_, _, osname) \<Rightarrow> osname
      | None \<Rightarrow> ''Unknown'')"

section \<open>The thread's error\<close>

text \<open>\<open>struct tag_pcl_err_trace\<close>; the list of traces is the C linked list, head first.\<close>

record pcl_err_trace =
  tr_file :: "string option"
  tr_func :: "string option"
  tr_line :: int
  tr_msg :: "string option"
  tr_size :: nat

text \<open>\<open>struct tag_pcl_err\<close> (its cached output buffer is modelled with the output functions),
  with the C library's \<open>errno\<close>.\<close>

record pcl_err =
  frozen :: bool
  err :: int
  oserr :: int
  strace :: "pcl_err_trace list"
  c_errno :: int

text \<open>The zeroed error a new thread gets (\<open>ipcl_err_handler\<close>).\<close>

definition err_init :: pcl_err where
  "err_init = \<lparr>frozen = False, err = PCL_EOKAY, oserr = 0, strace = [], c_errno = 0\<rparr>"

definition sizeof_err_trace :: nat where "sizeof_err_trace = 48"

fun ipcl_err_trace_free :: "pcl_err_trace list \<Rightarrow> pcl_err_trace list" where
  "ipcl_err_trace_free [] = []"
| "ipcl_err_trace_free (node # head) = ipcl_err_trace_free head"

definition pcl_err_last :: "'z pcl_err_scheme \<Rightarrow> int" where
  "pcl_err_last w = err w"

definition pcl_err_lastos :: "'z pcl_err_scheme \<Rightarrow> int" where
  "pcl_err_lastos w = oserr w"

definition pcl_err_lastmsg :: "'z pcl_err_scheme \<Rightarrow> string" where
  "pcl_err_lastmsg w =
     (case rev (strace w) of
        t # _ \<Rightarrow> (case tr_msg t of Some m \<Rightarrow> m | None \<Rightarrow> [])
      | [] \<Rightarrow> [])"

definition pcl_err_freeze :: "bool \<Rightarrow> 'z pcl_err_scheme \<Rightarrow> 'z pcl_err_scheme" where
  "pcl_err_freeze b w = w\<lparr>frozen := b\<rparr>"

text \<open>\<open>pcl_err_osclear\<close>: \<open>errno = 0\<close>.\<close>

definition pcl_err_osclear :: "'z pcl_err_scheme \<Rightarrow> 'z pcl_err_scheme" where
  "pcl_err_osclear w = w\<lparr>c_errno := 0\<rparr>"

definition pcl_err_clear :: "'z pcl_err_scheme \<Rightarrow> int \<times> 'z pcl_err_scheme" where
  "pcl_err_clear w =
     (0, if \<not> frozen w
         then pcl_err_osclear
                (w\<lparr>err := PCL_EOKAY, oserr := 0, strace := ipcl_err_trace_free (strace w)\<rparr>)
         else w)"

text \<open>The sizes of the strings that \<open>pcl_err_vtrace\<close> stores behind the trace.\<close>

definition str_size :: "string option \<Rightarrow> nat" where
  "str_size s = (case s of None \<Rightarrow> 0 | Some t \<Rightarrow> length t + 1)"

definition pcl_err_vtrace ::
  "string option \<Rightarrow> string option \<Rightarrow> int \<Rightarrow> string option \<Rightarrow> 'z pcl_err_scheme \<Rightarrow>
     int \<times> 'z pcl_err_scheme" where
  "pcl_err_vtrace file func line msg w =
     (if frozen w then (0, w)
      else
        let trc = \<lparr>tr_file = file, tr_func = func, tr_line = line, tr_msg = msg,
                   tr_size = sizeof_err_trace + str_size file + str_size func + str_size msg\<rparr>
        in (if err w = PCL_EOKAY then 0 else -1, w\<lparr>strace := trc # strace w\<rparr>))"

definition pcl_err_vset ::
  "string option \<Rightarrow> string option \<Rightarrow> int \<Rightarrow> int \<Rightarrow> int \<Rightarrow> string option \<Rightarrow>
     'z pcl_err_scheme \<Rightarrow> int \<times> 'z pcl_err_scheme" where
  "pcl_err_vset file func line e os msg w =
     (if frozen w then (0, w)
      else
        let w1 = snd (pcl_err_clear w)
        in if e = PCL_EOKAY then (0, w1)
           else pcl_err_vtrace file func line msg (w1\<lparr>err := e, oserr := os\<rparr>))"

text \<open>The variadic wrappers.\<close>

definition pcl_err_set ::
  "string option \<Rightarrow> string option \<Rightarrow> int \<Rightarrow> int \<Rightarrow> int \<Rightarrow> string option \<Rightarrow>
     'z pcl_err_scheme \<Rightarrow> int \<times> 'z pcl_err_scheme" where
  "pcl_err_set file func line e os msg w = pcl_err_vset file func line e os msg w"

definition pcl_err_trace ::
  "string option \<Rightarrow> string option \<Rightarrow> int \<Rightarrow> string option \<Rightarrow> 'z pcl_err_scheme \<Rightarrow>
     int \<times> 'z pcl_err_scheme" where
  "pcl_err_trace file func line msg w = pcl_err_vtrace file func line msg w"

section \<open>The macros\<close>

type_synonym loc = "string \<times> string \<times> int"

definition SETERRMSG_OS ::
  "loc \<Rightarrow> int \<Rightarrow> int \<Rightarrow> string option \<Rightarrow> 'z pcl_err_scheme \<Rightarrow> int \<times> 'z pcl_err_scheme" where
  "SETERRMSG_OS l e os msg w =
     (case l of (file, func, line) \<Rightarrow> pcl_err_set (Some file) (Some func) line e os msg w)"

definition SETERR :: "loc \<Rightarrow> int \<Rightarrow> 'z pcl_err_scheme \<Rightarrow> int \<times> 'z pcl_err_scheme" where
  "SETERR l e w = SETERRMSG_OS l e 0 None w"

definition SETERRMSG ::
  "loc \<Rightarrow> int \<Rightarrow> string \<Rightarrow> 'z pcl_err_scheme \<Rightarrow> int \<times> 'z pcl_err_scheme" where
  "SETERRMSG l e msg w = SETERRMSG_OS l e 0 (Some msg) w"

definition SETOSERR :: "loc \<Rightarrow> int \<Rightarrow> 'z pcl_err_scheme \<Rightarrow> int \<times> 'z pcl_err_scheme" where
  "SETOSERR l os w = SETERRMSG_OS l (pcl_err_os2pcl os) os None w"

definition SETOSERRMSG ::
  "loc \<Rightarrow> int \<Rightarrow> string \<Rightarrow> 'z pcl_err_scheme \<Rightarrow> int \<times> 'z pcl_err_scheme" where
  "SETOSERRMSG l os msg w = SETERRMSG_OS l (pcl_err_os2pcl os) os (Some msg) w"

definition SETLASTERR :: "loc \<Rightarrow> 'z pcl_err_scheme \<Rightarrow> int \<times> 'z pcl_err_scheme" where
  "SETLASTERR l w = SETOSERR l (c_errno w) w"

definition SETLASTERRMSG ::
  "loc \<Rightarrow> string \<Rightarrow> 'z pcl_err_scheme \<Rightarrow> int \<times> 'z pcl_err_scheme" where
  "SETLASTERRMSG l msg w = SETOSERRMSG l (c_errno w) msg w"

definition R_SETERR :: "'r \<Rightarrow> loc \<Rightarrow> int \<Rightarrow> 'z pcl_err_scheme \<Rightarrow> 'r \<times> 'z pcl_err_scheme" where
  "R_SETERR r l e w = (r, snd (SETERR l e w))"

definition R_SETERRMSG ::
  "'r \<Rightarrow> loc \<Rightarrow> int \<Rightarrow> string \<Rightarrow> 'z pcl_err_scheme \<Rightarrow> 'r \<times> 'z pcl_err_scheme" where
  "R_SETERRMSG r l e msg w = (r, snd (SETERRMSG l e msg w))"

definition R_SETLASTERR :: "'r \<Rightarrow> loc \<Rightarrow> 'z pcl_err_scheme \<Rightarrow> 'r \<times> 'z pcl_err_scheme" where
  "R_SETLASTERR r l w = (r, snd (SETLASTERR l w))"

definition TRCMSG ::
  "loc \<Rightarrow> string option \<Rightarrow> 'z pcl_err_scheme \<Rightarrow> int \<times> 'z pcl_err_scheme" where
  "TRCMSG l msg w =
     (case l of (file, func, line) \<Rightarrow> pcl_err_trace (Some file) (Some func) line msg w)"

definition TRC :: "loc \<Rightarrow> 'z pcl_err_scheme \<Rightarrow> int \<times> 'z pcl_err_scheme" where
  "TRC l w = TRCMSG l None w"

definition R_TRC :: "'r \<Rightarrow> loc \<Rightarrow> 'z pcl_err_scheme \<Rightarrow> 'r \<times> 'z pcl_err_scheme" where
  "R_TRC r l w = (r, snd (TRC l w))"

definition R_TRCMSG ::
  "'r \<Rightarrow> loc \<Rightarrow> string \<Rightarrow> 'z pcl_err_scheme \<Rightarrow> 'r \<times> 'z pcl_err_scheme" where
  "R_TRCMSG r l msg w = (r, snd (TRCMSG l (Some msg) w))"

definition BADARG :: "loc \<Rightarrow> 'z pcl_err_scheme \<Rightarrow> int \<times> 'z pcl_err_scheme" where
  "BADARG l w = SETERR l PCL_EINVAL w"

text \<open>\<open>FREEZE_ERR\<close>: run a piece of code with the error frozen and \<open>errno\<close> restored after it.\<close>

definition FREEZE_ERR ::
  "('z pcl_err_scheme \<Rightarrow> 'z pcl_err_scheme option) \<Rightarrow> 'z pcl_err_scheme \<Rightarrow>
     'z pcl_err_scheme option" where
  "FREEZE_ERR code w =
     do { let w1 = pcl_err_freeze True w;
          w2 \<leftarrow> code w1;
          Some (pcl_err_freeze False (w2\<lparr>c_errno := c_errno w1\<rparr>)) }"

section \<open>What setting, tracing and clearing do\<close>

lemma trace_free_empty [simp]: "ipcl_err_trace_free ts = []"
  by (induction ts) auto

lemmas err_fun_defs = pcl_err_clear_def pcl_err_osclear_def pcl_err_vtrace_def pcl_err_vset_def
  pcl_err_set_def pcl_err_trace_def

lemmas err_macro_defs = SETERRMSG_OS_def SETERR_def SETERRMSG_def SETOSERR_def SETOSERRMSG_def
  SETLASTERR_def SETLASTERRMSG_def R_SETERR_def R_SETERRMSG_def R_SETLASTERR_def TRCMSG_def
  TRC_def R_TRC_def R_TRCMSG_def BADARG_def

text \<open>While the error is frozen no call changes anything, and the macros that report a failure
  evaluate to 0, not to -1.\<close>

lemma vset_frozen: "frozen w \<Longrightarrow> pcl_err_vset f g l e os m w = (0, w)"
  by (simp add: pcl_err_vset_def)

lemma vtrace_frozen: "frozen w \<Longrightarrow> pcl_err_vtrace f g l m w = (0, w)"
  by (simp add: pcl_err_vtrace_def)

lemma macros_frozen:
  assumes "frozen w"
  shows "SETERR l e w = (0, w)" "SETERRMSG l e m w = (0, w)" "SETOSERR l os w = (0, w)"
    "SETOSERRMSG l os m w = (0, w)" "SETERRMSG_OS l e os mo w = (0, w)" "BADARG l w = (0, w)"
    "TRC l w = (0, w)" "TRCMSG l mo w = (0, w)" "R_SETERR r l e w = (r, w)"
    "R_SETERRMSG r l e m w = (r, w)" "R_TRC r l w = (r, w)" "R_TRCMSG r l m w = (r, w)"
    "pcl_err_clear w = (0, w)"
  using assms by (cases l; simp add: err_macro_defs err_fun_defs)+

text \<open>While it is not, setting an error leaves that error with the one trace of its call site.\<close>

definition mk_trace :: "loc \<Rightarrow> string option \<Rightarrow> pcl_err_trace" where
  "mk_trace l m = (case l of (file, func, line) \<Rightarrow>
     \<lparr>tr_file = Some file, tr_func = Some func, tr_line = line, tr_msg = m,
      tr_size = sizeof_err_trace + str_size (Some file) + str_size (Some func) + str_size m\<rparr>)"

definition raised :: "loc \<Rightarrow> int \<Rightarrow> int \<Rightarrow> string option \<Rightarrow> 'z pcl_err_scheme \<Rightarrow> 'z pcl_err_scheme"
  where "raised l e os m w = w\<lparr>err := e, oserr := os, strace := [mk_trace l m], c_errno := 0\<rparr>"

lemma SETERRMSG_OS_thawed:
  "\<not> frozen w \<Longrightarrow> e \<noteq> 0 \<Longrightarrow> SETERRMSG_OS l e os m w = (-1, raised l e os m w)"
  by (cases l) (simp add: err_macro_defs err_fun_defs raised_def mk_trace_def)

lemma macros_thawed:
  assumes "\<not> frozen w" "e \<noteq> 0"
  shows "SETERR l e w = (-1, raised l e 0 None w)"
    "SETERRMSG l e m w = (-1, raised l e 0 (Some m) w)"
    "R_SETERR r l e w = (r, raised l e 0 None w)"
    "R_SETERRMSG r l e m w = (r, raised l e 0 (Some m) w)"
    "BADARG l w = (-1, raised l PCL_EINVAL 0 None w)"
  using assms
  by (simp_all add: SETERR_def SETERRMSG_def R_SETERR_def R_SETERRMSG_def BADARG_def
      SETERRMSG_OS_thawed)

lemma raised_simps [simp]:
  "err (raised l e os m w) = e" "oserr (raised l e os m w) = os"
  "frozen (raised l e os m w) = frozen w" "strace (raised l e os m w) = [mk_trace l m]"
  "pcl_err.more (raised l e os m w) = pcl_err.more w" "c_errno (raised l e os m w) = 0"
  by (simp_all add: raised_def)

lemma TRCMSG_thawed:
  "\<not> frozen w \<Longrightarrow> TRCMSG l m w =
     (if err w = 0 then 0 else -1, w\<lparr>strace := mk_trace l m # strace w\<rparr>)"
  by (cases l) (simp add: err_macro_defs err_fun_defs mk_trace_def)

lemma R_TRC_thawed:
  "\<not> frozen w \<Longrightarrow> R_TRC r l w = (r, w\<lparr>strace := mk_trace l None # strace w\<rparr>)"
  by (simp add: R_TRC_def TRC_def TRCMSG_thawed)

lemma clear_thawed:
  "\<not> frozen w \<Longrightarrow>
     pcl_err_clear w = (0, w\<lparr>err := 0, oserr := 0, strace := [], c_errno := 0\<rparr>)"
  by (simp add: err_fun_defs)

text \<open>The return value of a macro follows from the frozen flag and the code alone.\<close>

lemma SETERR_fst: "e \<noteq> 0 \<Longrightarrow> fst (SETERR l e w) = (if frozen w then 0 else -1)"
  by (simp add: macros_frozen macros_thawed)

lemma err_macros_frame [simp]:
  "frozen (snd (SETERRMSG_OS l e os m w)) = frozen w"
  "pcl_err.more (snd (SETERRMSG_OS l e os m w)) = pcl_err.more w"
  "frozen (snd (TRCMSG l m w)) = frozen w"
  "pcl_err.more (snd (TRCMSG l m w)) = pcl_err.more w"
  "frozen (snd (pcl_err_clear w)) = frozen w"
  "pcl_err.more (snd (pcl_err_clear w)) = pcl_err.more w"
  by (cases l; simp add: SETERRMSG_OS_def TRCMSG_def err_fun_defs Let_def)+

lemma err_macros_frame_all [simp]:
  "frozen (snd (SETERR l e w)) = frozen w" "frozen (snd (SETERRMSG l e s w)) = frozen w"
  "frozen (snd (R_SETERR r l e w)) = frozen w" "frozen (snd (R_SETERRMSG r l e s w)) = frozen w"
  "frozen (snd (BADARG l w)) = frozen w" "frozen (snd (TRC l w)) = frozen w"
  "frozen (snd (R_TRC r l w)) = frozen w" "frozen (snd (R_TRCMSG r l s w)) = frozen w"
  "pcl_err.more (snd (SETERR l e w)) = pcl_err.more w"
  "pcl_err.more (snd (SETERRMSG l e s w)) = pcl_err.more w"
  "pcl_err.more (snd (R_SETERR r l e w)) = pcl_err.more w"
  "pcl_err.more (snd (R_SETERRMSG r l e s w)) = pcl_err.more w"
  "pcl_err.more (snd (BADARG l w)) = pcl_err.more w"
  "pcl_err.more (snd (TRC l w)) = pcl_err.more w"
  "pcl_err.more (snd (R_TRC r l w)) = pcl_err.more w"
  "pcl_err.more (snd (R_TRCMSG r l s w)) = pcl_err.more w"
  by (simp_all add: SETERR_def SETERRMSG_def R_SETERR_def R_SETERRMSG_def BADARG_def TRC_def
      R_TRC_def R_TRCMSG_def)

lemma macros_fst [simp]:
  "fst (R_SETERR r l e w) = r" "fst (R_SETERRMSG r l e s w) = r"
  "fst (R_TRC r l w) = r" "fst (R_TRCMSG r l s w) = r"
  by (simp_all add: R_SETERR_def R_SETERRMSG_def R_TRC_def R_TRCMSG_def)

section \<open>The error as a state machine\<close>

text \<open>The calls that may change a thread's error, with any arguments, and the C library setting
  \<open>errno\<close>.\<close>

inductive err_call :: "'z pcl_err_scheme \<Rightarrow> 'z pcl_err_scheme \<Rightarrow> bool" where
  call_set: "err_call w (snd (pcl_err_set file func line e os msg w))"
| call_trace: "err_call w (snd (pcl_err_trace file func line msg w))"
| call_clear: "err_call w (snd (pcl_err_clear w))"
| call_errno: "err_call w (w\<lparr>c_errno := n\<rparr>)"

inductive err_reachable :: "'z pcl_err_scheme \<Rightarrow> 'z pcl_err_scheme \<Rightarrow> bool" for w0 where
  reach_start: "err_reachable w0 w0"
| reach_call: "err_reachable w0 w \<Longrightarrow> err_call w w' \<Longrightarrow> err_reachable w0 w'"
| reach_freeze: "err_reachable w0 w \<Longrightarrow> err_reachable w0 (pcl_err_freeze b w)"

inductive_cases err_callE: "err_call w w'"

definition err_inv :: "'z pcl_err_scheme \<Rightarrow> bool" where
  "err_inv w \<longleftrightarrow> (err w = PCL_EOKAY \<longrightarrow> oserr w = 0) \<and> (err w \<noteq> PCL_EOKAY \<longrightarrow> strace w \<noteq> [])"

lemma err_inv_call: "err_call w w' \<Longrightarrow> err_inv w \<Longrightarrow> err_inv w'"
  by (erule err_callE) (auto simp: err_inv_def err_fun_defs Let_def)

text \<open>Whatever sequence of these calls a thread makes, an error code is never without the trace of
  where it was set, and an operating system error never without an error code. The import of an error
  from JSON is not among these calls and breaks the rule; the theory of that import treats it.\<close>

theorem err_reachable_inv: "err_reachable err_init w \<Longrightarrow> err_inv w"
proof (induction rule: err_reachable.induct)
  case reach_start
  then show ?case by (simp add: err_inv_def err_init_def)
next
  case (reach_call w w')
  then show ?case by (auto intro: err_inv_call)
next
  case (reach_freeze w b)
  then show ?case by (simp add: err_inv_def pcl_err_freeze_def)
qed

theorem err_reachable_inv_witness:
  "err_inv (snd (pcl_err_set (Some ''f.c'') (Some ''f'') 7 PCL_ERANGE 34 None err_init))"
  by (rule err_reachable_inv) (intro reach_call [OF reach_start call_set])

text \<open>A frozen error is immutable: no call changes anything but \<open>errno\<close> until it is thawed.\<close>

theorem err_frozen_immutable:
  assumes "frozen w" "err_call\<^sup>*\<^sup>* w w'"
  shows "w'\<lparr>c_errno := c_errno w\<rparr> = w"
  using assms(2)
proof (induction rule: rtranclp_induct)
  case (step y z)
  then have y: "frozen y" using assms(1) by (metis pcl_err.select_convs(1) pcl_err.surjective pcl_err.update_convs(5))
  from step(2) have "z\<lparr>c_errno := c_errno w\<rparr> = y\<lparr>c_errno := c_errno w\<rparr>"
    using y by (auto elim!: err_callE simp: err_fun_defs)
  with step(3) show ?case by simp
qed simp

theorem err_frozen_immutable_witness:
  "(snd (pcl_err_set None None 1 PCL_ERANGE 0 None (pcl_err_freeze True err_init)))
     \<lparr>c_errno := c_errno (pcl_err_freeze True err_init)\<rparr> = pcl_err_freeze True err_init"
  by (rule err_frozen_immutable) (simp_all add: pcl_err_freeze_def err_call.call_set r_into_rtranclp)

text \<open>Traces added while an error travels up keep the code and the message of its origin;
  \<open>pcl_err_lastmsg\<close> is the message the error was set with.\<close>

theorem err_origin_kept:
  assumes "\<not> frozen w" "e \<noteq> PCL_EOKAY"
  shows "pcl_err_last (fold (\<lambda>(l, m) v. snd (TRCMSG l m v)) ls (snd (SETERRMSG l0 e msg w))) = e
    \<and> pcl_err_lastmsg (fold (\<lambda>(l, m) v. snd (TRCMSG l m v)) ls (snd (SETERRMSG l0 e msg w))) = msg
    \<and> length (strace (fold (\<lambda>(l, m) v. snd (TRCMSG l m v)) ls (snd (SETERRMSG l0 e msg w))))
       = Suc (length ls)"
proof -
  have "\<exists>ts. fold (\<lambda>(l, m) v. snd (TRCMSG l m v)) ls v = v\<lparr>strace := ts @ strace v\<rparr>
      \<and> length ts = length ls" if "\<not> frozen v" for v :: "'a pcl_err_scheme"
    using that
  proof (induction ls arbitrary: v)
    case (Cons a ls)
    obtain l m where a: "a = (l, m)" by fastforce
    have "snd (TRCMSG l m v) = v\<lparr>strace := mk_trace l m # strace v\<rparr>"
      using Cons.prems by (simp add: TRCMSG_thawed)
    with Cons.IH [of "v\<lparr>strace := mk_trace l m # strace v\<rparr>"] Cons.prems a
    obtain ts where "fold (\<lambda>(l, m) v. snd (TRCMSG l m v)) (a # ls) v
        = v\<lparr>strace := (ts @ [mk_trace l m]) @ strace v\<rparr>" "length ts = length ls" by auto
    then show ?case by (intro exI [of _ "ts @ [mk_trace l m]"]) simp
  qed (auto intro!: exI [of _ "[]"])
  from this [of "snd (SETERRMSG l0 e msg w)"] assms show ?thesis
    by (cases l0) (auto simp: macros_thawed pcl_err_last_def pcl_err_lastmsg_def mk_trace_def)
qed

theorem err_origin_kept_witness:
  "pcl_err_last (fold (\<lambda>(l, m) v. snd (TRCMSG l m v)) [((''a.c'', ''a'', 2), None)]
      (snd (SETERRMSG (''b.c'', ''b'', 1) PCL_ERANGE ''too big'' err_init))) = PCL_ERANGE
    \<and> pcl_err_lastmsg (fold (\<lambda>(l, m) v. snd (TRCMSG l m v)) [((''a.c'', ''a'', 2), None)]
      (snd (SETERRMSG (''b.c'', ''b'', 1) PCL_ERANGE ''too big'' err_init))) = ''too big''
    \<and> length (strace (fold (\<lambda>(l, m) v. snd (TRCMSG l m v)) [((''a.c'', ''a'', 2), None)]
      (snd (SETERRMSG (''b.c'', ''b'', 1) PCL_ERANGE ''too big'' err_init))))
       = Suc (length [((''a.c'', ''a'', 2 :: int), None :: string option)])"
  by (rule err_origin_kept) (simp_all add: err_init_def)

end
