(* ===== verification/PclSeq.thy ===== *)
theory PclSeq imports PclPrelude begin

text \<open>
  The interfaces of the growing sequences of the library. \<open>growable\<close> is what a producer relies
  on when it appends results one by one (\<open>pcl_strsplit\<close> into a vector, \<open>json_parse_array\<close> and
  \<open>pcl_htable_keys\<close> into an array), \<open>indexed\<close> adds bounds-checked access and removal. The pointer
  table and the vector are interpretations of both.
\<close>

section \<open>Appending\<close>

text \<open>A producer: append the elements of a list from left to right.\<close>

fun push_all :: "('s \<Rightarrow> 'e \<Rightarrow> 's option) \<Rightarrow> 's \<Rightarrow> 'e list \<Rightarrow> 's option" where
  "push_all push s [] = Some s"
| "push_all push s (e # es) = do { s1 \<leftarrow> push s e; push_all push s1 es }"

locale growable =
  fixes ok :: "'s \<Rightarrow> bool"
    and elems_of :: "'s \<Rightarrow> 'e list"
    and elem_ok :: "'e \<Rightarrow> bool"
    and limit :: nat
    and push :: "'s \<Rightarrow> 'e \<Rightarrow> 's option"
  assumes push_ok: "ok s \<Longrightarrow> elem_ok e \<Longrightarrow> length (elems_of s) < limit \<Longrightarrow>
      \<exists>s'. push s e = Some s' \<and> ok s' \<and> elems_of s' = elems_of s @ [e]"
begin

lemma push_all_ok:
  "ok s \<Longrightarrow> list_all elem_ok es \<Longrightarrow> length (elems_of s) + length es \<le> limit \<Longrightarrow>
     \<exists>s'. push_all push s es = Some s' \<and> ok s' \<and> elems_of s' = elems_of s @ es"
proof (induction es arbitrary: s)
  case (Cons e es)
  then obtain s1 where s1: "push s e = Some s1" "ok s1" "elems_of s1 = elems_of s @ [e]"
    using push_ok [of s e] by auto
  moreover have "\<exists>s'. push_all push s1 es = Some s' \<and> ok s' \<and> elems_of s' = elems_of s1 @ es"
    using Cons.IH [of s1] s1 Cons.prems by simp
  ultimately show ?case by simp
qed simp

end

section \<open>Indexed access\<close>

locale indexed = growable ok elems_of elem_ok limit push
  for ok :: "'s \<Rightarrow> bool" and elems_of :: "'s \<Rightarrow> 'e list" and elem_ok :: "'e \<Rightarrow> bool"
    and limit :: nat and push :: "'s \<Rightarrow> 'e \<Rightarrow> 's option" +
  fixes fetch :: "'s \<Rightarrow> int \<Rightarrow> 'e option"
    and delete :: "'s \<Rightarrow> int \<Rightarrow> 's option"
  assumes fetch_in: "ok s \<Longrightarrow> i < length (elems_of s) \<Longrightarrow> fetch s (int i) = Some (elems_of s ! i)"
    and fetch_out: "ok s \<Longrightarrow> j < 0 \<or> int (length (elems_of s)) \<le> j \<Longrightarrow> fetch s j = None"
    and delete_in: "ok s \<Longrightarrow> i < length (elems_of s) \<Longrightarrow>
      \<exists>s'. delete s (int i) = Some s' \<and> ok s'
         \<and> elems_of s' = take i (elems_of s) @ drop (Suc i) (elems_of s)"
begin

text \<open>What was appended is read back at its index, and no other index changes.\<close>

lemma push_fetch:
  assumes "ok s" "elem_ok e" "length (elems_of s) < limit" "push s e = Some s'"
  shows "fetch s' i = (if i = int (length (elems_of s)) then Some e else fetch s i)"
proof -
  from push_ok [OF assms(1-3)] assms(4) have s': "ok s'" "elems_of s' = elems_of s @ [e]"
    by auto
  consider "i < 0" | "int (length (elems_of s)) < i" | n where "i = int n" "n \<le> length (elems_of s)"
    by (cases "0 \<le> i \<and> i \<le> int (length (elems_of s))") (auto dest: zero_le_imp_eq_int)
  then show ?thesis
  proof cases
    case (3 n)
    then show ?thesis
      using fetch_in [OF s'(1), of n] fetch_in [OF assms(1), of n] s'(2)
      by (cases "n < length (elems_of s)") (auto simp: nth_append)
  qed (use fetch_out [OF s'(1), of i] fetch_out [OF assms(1), of i] s'(2) in auto)
qed

text \<open>Removing the last element undoes an append.\<close>

lemma push_delete:
  assumes "ok s" "elem_ok e" "length (elems_of s) < limit" "push s e = Some s1"
  obtains s2 where "delete s1 (int (length (elems_of s))) = Some s2" "ok s2"
    "elems_of s2 = elems_of s"
proof -
  from push_ok [OF assms(1-3)] assms(4) have "ok s1" "elems_of s1 = elems_of s @ [e]"
    by auto
  with delete_in [of s1 "length (elems_of s)"] that show ?thesis by auto
qed

end

end
