(* ===== verification/PclArray.thy ===== *)
theory PclArray imports PclError PclSeq "HOL-Library.Multiset" begin

text \<open>
  The pointer table (\<open>src/array\<close>, \<open>include/pcl/array.h\<close>). The block \<open>elements\<close> is a list of
  slots, as long as the allocated capacity; a slot is \<open>NULL\<close> or points to a user object. The
  cleanup handler is a function pointer: an address of type \<open>'c\<close>, called through the parameter
  \<open>call\<close>, which says what the function at an address does to the caller's state. A function that
  changes the array returns it, after its result and before the thread's error.
\<close>

section \<open>State and operations\<close>

record ('a, 'c) pcl_array =
  arr_count :: int
  arr_capacity :: int
  arr_elements :: "'a option list"
  arr_cleanup :: "'c option"

definition pcl_array_new :: "int \<Rightarrow> 'c option \<Rightarrow> ('a, 'c) pcl_array" where
  "pcl_array_new initial_capacity cleanup =
     (let cap = max 0 initial_capacity
      in \<lparr>arr_count = 0, arr_capacity = cap,
          arr_elements = (if cap \<noteq> 0 then replicate (nat cap) None else []),
          arr_cleanup = cleanup\<rparr>)"

definition pcl_array_get ::
  "('a, 'c) pcl_array option \<Rightarrow> int \<Rightarrow> 'z pcl_err_scheme \<Rightarrow>
     ('a option \<times> 'z pcl_err_scheme) option" where
  "pcl_array_get arr index w =
     (case arr of
        None \<Rightarrow> Some (R_SETERR None (''array_get.c'', ''pcl_array_get'', 40) PCL_EINVAL w)
      | Some a \<Rightarrow>
          if index < 0 \<or> index \<ge> arr_count a
          then Some (R_SETERR None (''array_get.c'', ''pcl_array_get'', 43) PCL_EINDEX w)
          else do { let w1 = snd (pcl_err_clear w);
                    e \<leftarrow> rd (arr_elements a) index;
                    Some (e, w1) })"

text \<open>Without a comparator the pointers themselves are compared.\<close>

definition pcl_array_indexof ::
  "('a, 'c) pcl_array option \<Rightarrow> 'a option \<Rightarrow> ('a option \<Rightarrow> 'a option \<Rightarrow> int) option \<Rightarrow>
     int option" where
  "pcl_array_indexof arr elem compare =
     (case arr of
        None \<Rightarrow> Some (-1)
      | Some a \<Rightarrow>
          if arr_count a = 0 then Some (-1)
          else case compare of
                 Some cmp \<Rightarrow> scan_from (\<lambda>e. cmp e elem = 0) (arr_elements a) 0 (nat (arr_count a))
               | None \<Rightarrow> scan_from (\<lambda>e. e = elem) (arr_elements a) 0 (nat (arr_count a)))"

text \<open>The growth step of an insertion into a full table.\<close>

definition array_grow :: "('a, 'c) pcl_array \<Rightarrow> ('a, 'c) pcl_array option" where
  "array_grow a =
     (if arr_count a = arr_capacity a
      then do { cap \<leftarrow> (if arr_capacity a > 0 then cint (arr_capacity a * 2) else Some 8);
                els \<leftarrow> mem_set (mem_resize None (arr_elements a) (nat cap))
                         (arr_count a) None (cap - arr_count a);
                Some (a\<lparr>arr_capacity := cap, arr_elements := els\<rparr>) }
      else Some a)"

definition pcl_array_insert ::
  "('a, 'c) pcl_array option \<Rightarrow> 'a option \<Rightarrow> int \<Rightarrow> 'z pcl_err_scheme \<Rightarrow>
     (int \<times> ('a, 'c) pcl_array option \<times> 'z pcl_err_scheme) option" where
  "pcl_array_insert arr elem index w =
     (case arr of
        None \<Rightarrow>
          (let (r, w1) = SETERR (''array_insert.c'', ''pcl_array_insert'', 41) PCL_EINVAL w
           in Some (r, None, w1))
      | Some a0 \<Rightarrow>
          do { a \<leftarrow> array_grow a0;
               els \<leftarrow> (if index < arr_count a
                       then mem_move (arr_elements a) (index + 1) index (arr_count a - index)
                       else Some (arr_elements a));
               els1 \<leftarrow> wr els index elem;
               Some (arr_count a + 1,
                     Some (a\<lparr>arr_elements := els1, arr_count := arr_count a + 1\<rparr>), w) })"

definition pcl_array_append ::
  "('a, 'c) pcl_array option \<Rightarrow> 'a option \<Rightarrow> 'z pcl_err_scheme \<Rightarrow>
     (int \<times> ('a, 'c) pcl_array option \<times> 'z pcl_err_scheme) option" where
  "pcl_array_append arr elem w =
     pcl_array_insert arr elem (case arr of Some a \<Rightarrow> arr_count a | None \<Rightarrow> 0) w"

text \<open>Calling the cleanup handler, as \<open>if(elem && arr->cleanup)\<close> guards it.\<close>

definition cleanup_nonnull ::
  "('c \<Rightarrow> 'a option \<Rightarrow> 'w \<Rightarrow> 'w option) \<Rightarrow> 'c option \<Rightarrow> 'a option \<Rightarrow> 'w \<Rightarrow> 'w option" where
  "cleanup_nonnull call cleanup elem w =
     (case cleanup of
        Some c \<Rightarrow> if elem \<noteq> None then call c elem w else Some w
      | None \<Rightarrow> Some w)"

definition pcl_array_remove ::
  "('c \<Rightarrow> 'a option \<Rightarrow> 'z pcl_err_scheme \<Rightarrow> 'z pcl_err_scheme option) \<Rightarrow>
     ('a, 'c) pcl_array option \<Rightarrow> int \<Rightarrow> 'z pcl_err_scheme \<Rightarrow>
     (int \<times> ('a, 'c) pcl_array option \<times> 'z pcl_err_scheme) option" where
  "pcl_array_remove call arr index w =
     (case arr of
        None \<Rightarrow>
          (let (r, w1) = SETERR (''array_remove.c'', ''pcl_array_remove'', 40) PCL_EINVAL w
           in Some (r, None, w1))
      | Some a \<Rightarrow>
          if index < 0 \<or> index \<ge> arr_count a
          then (let (r, w1) = SETERR (''array_remove.c'', ''pcl_array_remove'', 43) PCL_EINDEX w
                in Some (r, Some a, w1))
          else do { elem \<leftarrow> rd (arr_elements a) index;
                    w1 \<leftarrow> cleanup_nonnull call (arr_cleanup a) elem w;
                    els \<leftarrow> (if index < arr_count a - 1
                            then mem_move (arr_elements a) index (index + 1)
                                   (arr_count a - index - 1)
                            else Some (arr_elements a));
                    Some (arr_count a - 1,
                          Some (a\<lparr>arr_elements := els, arr_count := arr_count a - 1\<rparr>), w1) })"

definition pcl_array_set ::
  "('c \<Rightarrow> 'a option \<Rightarrow> 'z pcl_err_scheme \<Rightarrow> 'z pcl_err_scheme option) \<Rightarrow>
     ('a, 'c) pcl_array option \<Rightarrow> 'a option \<Rightarrow> int \<Rightarrow> 'z pcl_err_scheme \<Rightarrow>
     (int \<times> ('a, 'c) pcl_array option \<times> 'z pcl_err_scheme) option" where
  "pcl_array_set call arr elem index w =
     (case arr of
        None \<Rightarrow>
          (let (r, w1) = SETERR (''array_set.c'', ''pcl_array_set'', 39) PCL_EINVAL w
           in Some (r, None, w1))
      | Some a \<Rightarrow>
          if index < 0 \<or> index \<ge> arr_capacity a
          then (let (r, w1) = SETERR (''array_set.c'', ''pcl_array_set'', 42) PCL_EINDEX w
                in Some (r, Some a, w1))
          else do { cur_elem \<leftarrow> rd (arr_elements a) index;
                    w1 \<leftarrow> cleanup_nonnull call (arr_cleanup a) cur_elem w;
                    els \<leftarrow> wr (arr_elements a) index elem;
                    let index1 = index + 1;
                    Some (0, Some (a\<lparr>arr_elements := els,
                                     arr_count := (if arr_count a < index1 then index1
                                                   else arr_count a)\<rparr>), w1) })"

text \<open>\<open>pcl_array_free\<close> calls the handler for every slot below \<open>count\<close>, \<open>NULL\<close> slots included;
  afterwards the array does not exist.\<close>

definition pcl_array_free ::
  "('c \<Rightarrow> 'a option \<Rightarrow> 'w \<Rightarrow> 'w option) \<Rightarrow> ('a, 'c) pcl_array option \<Rightarrow> 'w \<Rightarrow> 'w option" where
  "pcl_array_free call arr w =
     (case arr of
        None \<Rightarrow> Some w
      | Some a \<Rightarrow>
          (case arr_cleanup a of
             Some c \<Rightarrow>
               if arr_count a \<noteq> 0
               then for_each (call c) (arr_elements a) 0 (nat (arr_count a)) w
               else Some w
           | None \<Rightarrow> Some w))"

text \<open>\<open>qsort\<close> of the C library is a parameter: it gets the comparator and the first \<open>count\<close>
  slots.\<close>

definition pcl_array_sort ::
  "(('a option \<Rightarrow> 'a option \<Rightarrow> int) \<Rightarrow> 'a option list \<Rightarrow> 'a option list) \<Rightarrow>
     ('a, 'c) pcl_array option \<Rightarrow> ('a option \<Rightarrow> 'a option \<Rightarrow> int) option \<Rightarrow>
     ('a, 'c) pcl_array option" where
  "pcl_array_sort qsort arr compare =
     (case (arr, compare) of
        (Some a, Some cmp) \<Rightarrow>
          if arr_count a > 1
          then Some (a\<lparr>arr_elements := qsort cmp (take (nat (arr_count a)) (arr_elements a))
                         @ drop (nat (arr_count a)) (arr_elements a)\<rparr>)
          else arr
      | _ \<Rightarrow> arr)"

section \<open>Invariant and abstraction\<close>

text \<open>The abstract value is the sequence of the first \<open>count\<close> slots.\<close>

definition arr_wf :: "('a, 'c) pcl_array \<Rightarrow> bool" where
  "arr_wf a \<longleftrightarrow> 0 \<le> arr_count a \<and> arr_count a \<le> arr_capacity a \<and> arr_capacity a \<le> INT_MAX
     \<and> length (arr_elements a) = nat (arr_capacity a)"

definition arr_seq :: "('a, 'c) pcl_array \<Rightarrow> 'a option list" where
  "arr_seq a = take (nat (arr_count a)) (arr_elements a)"

text \<open>What \<open>pcl_array_set\<close> relies on: the slots above \<open>count\<close> are \<open>NULL\<close>.\<close>

definition arr_tail_null :: "('a, 'c) pcl_array \<Rightarrow> bool" where
  "arr_tail_null a \<longleftrightarrow> list_all (\<lambda>e. e = None) (drop (nat (arr_count a)) (arr_elements a))"

lemma arr_seq_length [simp]: "arr_wf a \<Longrightarrow> int (length (arr_seq a)) = arr_count a"
  by (auto simp: arr_wf_def arr_seq_def)

lemma arr_seq_nth: "arr_wf a \<Longrightarrow> i < length (arr_seq a) \<Longrightarrow> arr_seq a ! i = arr_elements a ! i"
  by (simp add: arr_wf_def arr_seq_def)

lemma arr_tail_null_nth:
  "arr_tail_null a \<longleftrightarrow>
     (\<forall>k < length (arr_elements a). nat (arr_count a) \<le> k \<longrightarrow> arr_elements a ! k = None)"
  (is "?l \<longleftrightarrow> ?r")
proof -
  have "?l \<longleftrightarrow> (\<forall>j < length (arr_elements a) - nat (arr_count a).
      arr_elements a ! (nat (arr_count a) + j) = None)"
    by (auto simp: arr_tail_null_def list_all_length)
  also have "\<dots> \<longleftrightarrow> ?r"
    by (metis add_diff_inverse_nat diff_less_mono le_add1 less_diff_conv add.commute not_less)
  finally show ?thesis .
qed

lemma array_new_wf: "c \<le> INT_MAX \<Longrightarrow> arr_wf (pcl_array_new c f)"
  by (simp add: arr_wf_def pcl_array_new_def Let_def INT_MAX_def)

lemma array_new_seq [simp]: "arr_seq (pcl_array_new c f) = []"
  by (simp add: arr_seq_def pcl_array_new_def Let_def)

lemma array_new_tail: "arr_tail_null (pcl_array_new c f)"
  by (simp add: arr_tail_null_def pcl_array_new_def Let_def list_all_iff)

section \<open>Growing\<close>

lemma array_grow_ok:
  assumes "arr_wf a" "arr_count a < 2 ^ 30"
  obtains a' where "array_grow a = Some a'" "arr_wf a'" "arr_count a' = arr_count a"
    "arr_count a' < arr_capacity a'" "arr_seq a' = arr_seq a" "arr_cleanup a' = arr_cleanup a"
    "arr_tail_null a \<Longrightarrow> arr_tail_null a'"
proof (cases "arr_count a = arr_capacity a")
  case True
  define cap where "cap = (if arr_capacity a > 0 then arr_capacity a * 2 else 8)"
  define a' where "a' = a\<lparr>arr_capacity := cap,
    arr_elements := arr_elements a @ replicate (nat (cap - arr_count a)) None\<rparr>"
  have cap: "arr_count a < cap" "cap \<le> INT_MAX" "0 \<le> arr_count a"
    using assms True by (auto simp: cap_def arr_wf_def INT_MAX_def)
  have len: "length (arr_elements a) = nat (arr_count a)"
    using assms True by (simp add: arr_wf_def)
  have "mem_set (mem_resize None (arr_elements a) (nat cap)) (arr_count a) None (cap - arr_count a)
      = Some (arr_elements a @ replicate (nat (cap - arr_count a)) None)"
    using cap len by (simp add: mem_set_def mem_resize_def)
  moreover have "(if arr_capacity a > 0 then cint (arr_capacity a * 2) else Some 8) = Some cap"
    using cap assms True by (auto simp: cap_def cint_def INT_MIN_def INT_MAX_def arr_wf_def)
  ultimately have "array_grow a = Some a'"
    using True by (simp add: array_grow_def a'_def)
  moreover have "arr_wf a'"
    using cap len by (simp add: arr_wf_def a'_def nat_diff_distrib)
  moreover have "arr_seq a' = arr_seq a" "arr_tail_null a'"
    using len by (simp_all add: arr_seq_def a'_def arr_tail_null_def list_all_iff)
  ultimately show ?thesis
    using cap by (intro that [of a']) (simp_all add: a'_def)
next
  case False
  then show ?thesis
    using assms by (intro that [of a]) (auto simp: array_grow_def arr_wf_def)
qed

section \<open>Insertion\<close>

text \<open>Inserting inside \<open>[0, count]\<close> puts the element at its place in the sequence.\<close>

lemma array_insert_ok:
  assumes "arr_wf a" "arr_count a < 2 ^ 30" "0 \<le> i" "i \<le> arr_count a"
  obtains a' where "pcl_array_insert (Some a) e i w = Some (arr_count a + 1, Some a', w)"
    "arr_wf a'" "arr_count a' = arr_count a + 1" "arr_cleanup a' = arr_cleanup a"
    "arr_seq a' = take (nat i) (arr_seq a) @ e # drop (nat i) (arr_seq a)"
    "arr_tail_null a \<Longrightarrow> arr_tail_null a'"
proof -
  obtain b where b: "array_grow a = Some b" "arr_wf b" "arr_count b = arr_count a"
    "arr_count b < arr_capacity b" "arr_seq b = arr_seq a" "arr_cleanup b = arr_cleanup a"
    "arr_tail_null a \<Longrightarrow> arr_tail_null b"
    using array_grow_ok [OF assms(1,2)] by blast
  define k n where "k = nat i" and "n = nat (arr_count a)"
  define xs where "xs = arr_elements b"
  have ik: "i = int k" "arr_count a = int n" "k \<le> n" and len: "n < length xs"
    using assms b(2,3,4) by (auto simp: k_def n_def xs_def arr_wf_def)
  define ys where "ys = take k xs @ e # drop k (take n xs) @ drop (Suc n) xs"
  have mv: "mem_move xs (i + 1) i (int n - i)
      = Some (take (Suc k) xs @ drop k (take n xs) @ drop (Suc n) xs)"
    using ik len by (simp add: mem_move_def nat_add_distrib drop_take nat_diff_distrib)
  have "wr (take (Suc k) xs @ drop k (take n xs) @ drop (Suc n) xs) i e = Some ys"
    using ik len by (simp add: wr_int ys_def list_update_append take_Suc_conv_app_nth
        min_def)
  moreover have "wr xs i e = Some ys" if "\<not> i < int n"
  proof -
    from that ik have "k = n" by simp
    then show ?thesis
      using ik len by (simp add: wr_int ys_def upd_conv_take_nth_drop)
  qed
  ultimately have ins: "pcl_array_insert (Some a) e i w =
      Some (arr_count a + 1, Some (b\<lparr>arr_elements := ys, arr_count := arr_count a + 1\<rparr>), w)"
    using b(1,3) mv ik(2) by (simp add: pcl_array_insert_def xs_def [symmetric])
  have lys: "length ys = length xs"
    using ik len by (simp add: ys_def)
  define c where "c = b\<lparr>arr_elements := ys, arr_count := arr_count a + 1\<rparr>"
  have "arr_seq c = take k (take n xs) @ e # drop k (take n xs)"
    using ik len by (simp add: c_def arr_seq_def ys_def nat_add_distrib min_def Suc_diff_le)
  moreover have "take n xs = arr_seq a"
    by (simp only: b(5) [symmetric]) (simp add: arr_seq_def b(3) n_def xs_def)
  ultimately have sq: "arr_seq c = take (nat i) (arr_seq a) @ e # drop (nat i) (arr_seq a)"
    by (simp only: k_def)
  have tail: "arr_tail_null c" if "arr_tail_null a"
  proof -
    have "drop (Suc n) ys = drop (Suc n) xs"
      using ik len by (simp add: ys_def Suc_diff_le)
    moreover have "set (drop (Suc n) xs) \<subseteq> set (drop n xs)"
      by (rule set_drop_subset_set_drop) simp
    ultimately show ?thesis
      using b(7) [OF that] b(3)
      by (auto simp: arr_tail_null_def list_all_iff nat_add_distrib ik(2) xs_def c_def)
  qed
  have "arr_wf c"
    using b(2,3,4) lys ik by (auto simp: arr_wf_def c_def xs_def)
  then show ?thesis
    using ins sq tail b(6) by (intro that [of c]) (simp_all add: c_def)
qed

lemma array_append_ok:
  assumes "arr_wf a" "arr_count a < 2 ^ 30"
  obtains a' where "pcl_array_append (Some a) e w = Some (arr_count a + 1, Some a', w)"
    "arr_wf a'" "arr_count a' = arr_count a + 1" "arr_cleanup a' = arr_cleanup a"
    "arr_seq a' = arr_seq a @ [e]" "arr_tail_null a \<Longrightarrow> arr_tail_null a'"
proof -
  have "0 \<le> arr_count a" "arr_count a \<le> arr_count a"
    using assms(1) by (simp_all add: arr_wf_def)
  moreover have "take (nat (arr_count a)) (arr_seq a) @ e # drop (nat (arr_count a)) (arr_seq a)
      = arr_seq a @ [e]"
    by (simp add: arr_seq_def)
  ultimately show ?thesis
    using that array_insert_ok [OF assms, of "arr_count a" e w]
    by (simp add: pcl_array_append_def) metis
qed

text \<open>Outside of that range the code has no check: a negative index writes before the block.\<close>

lemma array_insert_negative:
  assumes "arr_wf a" "i < 0"
  shows "pcl_array_insert (Some a) e i w = None"
  using assms
  by (auto simp: pcl_array_insert_def mem_move_def wr_def arr_wf_def split: option_bind_split)

section \<open>The other operations\<close>

lemma array_get_in:
  assumes "arr_wf a" "i < length (arr_seq a)"
  shows "pcl_array_get (Some a) (int i) w = Some (arr_seq a ! i, snd (pcl_err_clear w))"
proof -
  have "int i < arr_count a" using assms by (auto simp: arr_wf_def arr_seq_def)
  moreover from this assms(1) have "i < length (arr_elements a)" by (auto simp: arr_wf_def)
  ultimately show ?thesis
    using arr_seq_nth [OF assms] by (simp add: pcl_array_get_def rd_int)
qed

lemma array_get_out:
  assumes "arr_wf a" "i < 0 \<or> int (length (arr_seq a)) \<le> i"
  shows "pcl_array_get (Some a) i w =
    Some (None, snd (SETERR (''array_get.c'', ''pcl_array_get'', 43) PCL_EINDEX w))"
  using assms by (auto simp: pcl_array_get_def R_SETERR_def)

text \<open>Removal, with no handler or with one that returns.\<close>

lemma array_remove_ok:
  assumes "arr_wf a" "i < length (arr_seq a)"
    "cleanup_nonnull call (arr_cleanup a) (arr_seq a ! i) w = Some w1"
  obtains a' where
    "pcl_array_remove call (Some a) (int i) w = Some (arr_count a - 1, Some a', w1)"
    "arr_wf a'" "arr_seq a' = take i (arr_seq a) @ drop (Suc i) (arr_seq a)"
    "arr_cleanup a' = arr_cleanup a" "arr_capacity a' = arr_capacity a"
    "arr_elements a' ! nat (arr_count a - 1) = last (arr_seq a)"
proof -
  define n xs where "n = nat (arr_count a)" and "xs = arr_elements a"
  have n: "arr_count a = int n" "i < n" "n \<le> length xs"
    using assms(1,2) by (auto simp: n_def xs_def arr_wf_def arr_seq_def)
  have sq: "arr_seq a = take n xs" by (simp add: arr_seq_def n_def xs_def)
  define ys where "ys = take i xs @ drop (Suc i) (take n xs) @ drop (n - 1) xs"
  have "mem_move xs (int i) (int i + 1) (int n - int i - 1) = Some ys" if "int i < int n - 1"
    using n that by (simp add: mem_move_def ys_def nat_diff_distrib nat_add_distrib drop_take)
  moreover have "ys = xs" if "\<not> int i < int n - 1"
  proof -
    from that n have "i = n - 1" by linarith
    with n show ?thesis by (simp add: ys_def)
  qed
  ultimately have "pcl_array_remove call (Some a) (int i) w =
      Some (int n - 1, Some (a\<lparr>arr_elements := ys, arr_count := int n - 1\<rparr>), w1)"
    using assms(3) n by (auto simp: pcl_array_remove_def rd_int xs_def [symmetric] sq)
  moreover have lys: "length ys = length xs"
    using n by (simp add: ys_def)
  moreover have "arr_seq (a\<lparr>arr_elements := ys, arr_count := int n - 1\<rparr>)
      = take i (arr_seq a) @ drop (Suc i) (arr_seq a)"
  proof -
    have "length (take i xs @ drop (Suc i) (take n xs)) = n - 1"
      using n by simp
    then have "take (n - 1) ys = take i xs @ drop (Suc i) (take n xs)"
      unfolding ys_def by (metis append.assoc append_eq_conv_conj)
    moreover have "take i xs = take i (take n xs)" "nat (int n - 1) = n - 1"
      using n by (simp_all add: nat_diff_distrib)
    ultimately show ?thesis by (simp add: arr_seq_def [of "_\<lparr>arr_count := _\<rparr>"] sq)
  qed
  moreover have "ys ! (n - 1) = last (take n xs)"
  proof -
    have "take n xs \<noteq> []" "ys ! (n - 1) = xs ! (n - 1)"
      using n by (auto simp: ys_def nth_append)
    then show ?thesis using n by (simp add: last_conv_nth min_def)
  qed
  ultimately show ?thesis
    using assms(1) n
    by (intro that [of "a\<lparr>arr_elements := ys, arr_count := int n - 1\<rparr>"])
      (auto simp: arr_wf_def xs_def sq nat_diff_distrib)
qed

lemma array_remove_out:
  assumes "arr_wf a" "i < 0 \<or> int (length (arr_seq a)) \<le> i"
  shows "pcl_array_remove call (Some a) i w =
    (let (r, w1) = SETERR (''array_remove.c'', ''pcl_array_remove'', 43) PCL_EINDEX w
     in Some (r, Some a, w1))"
  using assms by (auto simp: pcl_array_remove_def)

text \<open>Setting below \<open>count\<close> replaces; setting above it extends the sequence with \<open>NULL\<close>s, provided
  the slots above \<open>count\<close> are \<open>NULL\<close>.\<close>

lemma array_set_ok:
  assumes "arr_wf a" "arr_tail_null a" "i < length (arr_elements a)"
    "cleanup_nonnull call (arr_cleanup a)
       (if i < length (arr_seq a) then arr_seq a ! i else None) w = Some w1"
  obtains a' where "pcl_array_set call (Some a) e (int i) w = Some (0, Some a', w1)"
    "arr_wf a'" "arr_tail_null a'" "arr_capacity a' = arr_capacity a"
    "arr_seq a' = (arr_seq a @ replicate (Suc i - length (arr_seq a)) None)[i := e]"
proof -
  define n xs where "n = nat (arr_count a)" and "xs = arr_elements a"
  have n: "arr_count a = int n" "i < length xs" "n \<le> length xs" "int i < arr_capacity a"
    using assms(1,3) by (auto simp: n_def xs_def arr_wf_def)
  have sq: "arr_seq a = take n xs" by (simp add: arr_seq_def n_def xs_def)
  have null: "xs ! k = None" if "n \<le> k" "k < length xs" for k
    using assms(2) that n(1) by (simp add: arr_tail_null_nth xs_def)
  have cur: "xs ! i = (if i < length (arr_seq a) then arr_seq a ! i else None)"
    using n null [of i] by (auto simp: sq)
  define c where "c = a\<lparr>arr_elements := xs[i := e],
    arr_count := (if int n < int i + 1 then int i + 1 else int n)\<rparr>"
  have "pcl_array_set call (Some a) e (int i) w = Some (0, Some c, w1)"
    using assms(4) n cur
    by (simp add: pcl_array_set_def rd_int wr_int xs_def [symmetric] c_def Let_def)
  moreover have "arr_wf c" "arr_capacity c = arr_capacity a"
    using assms(1) n by (auto simp: arr_wf_def c_def xs_def)
  moreover have "nat (arr_count c) = max n (Suc i)" and els: "arr_elements c = xs[i := e]"
    by (auto simp: c_def nat_add_distrib)
  moreover from this have "arr_tail_null c"
    using null by (simp add: arr_tail_null_nth)
  moreover have "arr_seq c = (arr_seq a @ replicate (Suc i - length (arr_seq a)) None)[i := e]"
  proof (rule nth_equalityI)
    fix k assume "k < length (arr_seq c)"
    then show "arr_seq c ! k =
        (arr_seq a @ replicate (Suc i - length (arr_seq a)) None)[i := e] ! k"
      using calculation(4,5) n null [of k]
      by (auto simp: arr_seq_def [of c] sq nth_list_update nth_append)
  qed (use calculation(4,5) n in \<open>auto simp: arr_seq_def [of c] sq\<close>)
  ultimately show ?thesis by (intro that [of c])
qed

lemma array_indexof_pointer:
  assumes "arr_wf a"
  shows "pcl_array_indexof (Some a) e None =
    Some (case find_index (\<lambda>x. x = e) (arr_seq a) of None \<Rightarrow> -1 | Some k \<Rightarrow> int k)"
  using assms
  by (auto simp: pcl_array_indexof_def arr_wf_def arr_seq_def scan_from_take)

lemma array_indexof_compare:
  assumes "arr_wf a"
  shows "pcl_array_indexof (Some a) e (Some cmp) =
    Some (case find_index (\<lambda>x. cmp x e = 0) (arr_seq a) of None \<Rightarrow> -1 | Some k \<Rightarrow> int k)"
  using assms
  by (auto simp: pcl_array_indexof_def arr_wf_def arr_seq_def scan_from_take)

text \<open>\<open>pcl_array_free\<close> runs the handler over the whole sequence, \<open>NULL\<close> slots included.\<close>

lemma array_free_runs:
  assumes "arr_wf a"
  shows "pcl_array_free call (Some a) w =
    (case arr_cleanup a of None \<Rightarrow> Some w | Some c \<Rightarrow> seq_each (call c) (arr_seq a) w)"
proof -
  have "nat (arr_count a) \<le> length (arr_elements a)"
    using assms by (auto simp: arr_wf_def)
  then show ?thesis
    using assms by (auto simp: pcl_array_free_def for_each_take arr_seq_def split: option.splits)
qed

text \<open>With a sorting function that permutes, sorting permutes the sequence and keeps the rest.\<close>

lemma array_sort_ok:
  assumes "arr_wf a" "\<And>xs. mset (qsort cmp xs) = mset xs"
  obtains a' where "pcl_array_sort qsort (Some a) (Some cmp) = Some a'" "arr_wf a'"
    "mset (arr_seq a') = mset (arr_seq a)"
    "1 < length (arr_seq a) \<Longrightarrow> arr_seq a' = qsort cmp (arr_seq a)"
    "arr_tail_null a \<Longrightarrow> arr_tail_null a'"
proof -
  have len: "length (qsort cmp xs) = length xs" for xs
    using assms(2) by (metis size_mset)
  have n: "nat (arr_count a) \<le> length (arr_elements a)"
    using assms(1) by (auto simp: arr_wf_def)
  show ?thesis
  proof (cases "arr_count a > 1")
    case True
    with assms n len show ?thesis
      by (intro that [of "a\<lparr>arr_elements := qsort cmp (take (nat (arr_count a)) (arr_elements a))
            @ drop (nat (arr_count a)) (arr_elements a)\<rparr>"])
        (auto simp: pcl_array_sort_def arr_wf_def arr_seq_def arr_tail_null_def)
  next
    case False
    with assms(1) show ?thesis
      by (intro that [of a]) (auto simp: pcl_array_sort_def arr_wf_def arr_seq_def)
  qed
qed

section \<open>The pointer table as a sequence\<close>

definition array_push :: "'z pcl_err_scheme \<Rightarrow> ('a, 'c) pcl_array \<Rightarrow> 'a option \<Rightarrow>
    ('a, 'c) pcl_array option" where
  "array_push w a e =
     (case pcl_array_append (Some a) e w of Some (_, a', _) \<Rightarrow> a' | None \<Rightarrow> None)"

definition array_fetch :: "('a, 'c) pcl_array \<Rightarrow> int \<Rightarrow> 'a option option" where
  "array_fetch a i =
     (case pcl_array_get (Some a) i err_init of
        Some (e, w) \<Rightarrow> if pcl_err_last w = PCL_EOKAY then Some e else None
      | None \<Rightarrow> None)"

definition array_delete :: "('a, 'c) pcl_array \<Rightarrow> int \<Rightarrow> ('a, 'c) pcl_array option" where
  "array_delete a i =
     (case pcl_array_remove (\<lambda>_ _. Some) (Some a) i err_init of
        Some (_, a', _) \<Rightarrow> a' | None \<Rightarrow> None)"

interpretation arr: indexed arr_wf arr_seq "\<lambda>_. True" "2 ^ 30" "array_push w" array_fetch array_delete
  for w :: "'z pcl_err_scheme"
proof
  fix s :: "('a, 'c) pcl_array" and e :: "'a option"
  assume "arr_wf s" "length (arr_seq s) < 2 ^ 30"
  then have "arr_count s < 2 ^ 30"
    by (metis arr_seq_length of_nat_less_numeral_power_cancel_iff)
  with \<open>arr_wf s\<close> show "\<exists>s'. array_push w s e = Some s' \<and> arr_wf s' \<and> arr_seq s' = arr_seq s @ [e]"
    by (elim array_append_ok [of s e w]) (auto simp: array_push_def)
next
  fix s :: "('a, 'c) pcl_array" and i
  assume "arr_wf s" "i < length (arr_seq s)"
  then show "array_fetch s (int i) = Some (arr_seq s ! i)"
    by (simp add: array_fetch_def array_get_in clear_thawed err_init_def pcl_err_last_def)
next
  fix s :: "('a, 'c) pcl_array" and i :: int
  assume "arr_wf s" "i < 0 \<or> int (length (arr_seq s)) \<le> i"
  then show "array_fetch s i = None"
    by (simp add: array_fetch_def array_get_out macros_thawed err_init_def pcl_err_last_def)
next
  fix s :: "('a, 'c) pcl_array" and i
  assume a: "arr_wf s" "i < length (arr_seq s)"
  have "cleanup_nonnull (\<lambda>_ _. Some) (arr_cleanup s) (arr_seq s ! i) err_init = Some err_init"
    by (simp add: cleanup_nonnull_def split: option.splits)
  then show "\<exists>s'. array_delete s (int i) = Some s' \<and> arr_wf s' \<and>
      arr_seq s' = take i (arr_seq s) @ drop (Suc i) (arr_seq s)"
    using a by (elim array_remove_ok [of s i "\<lambda>_ _. Some" err_init err_init])
      (auto simp: array_delete_def)
qed

section \<open>Properties\<close>

text \<open>C32: inserting at an index up to \<open>count\<close> grows a full table, shifts the elements behind the
  index and puts the element there; the invariant and the \<open>NULL\<close> slots above \<open>count\<close> are kept.\<close>

theorem array_insert_spec:
  assumes "arr_wf a" "arr_count a < 2 ^ 30" "0 \<le> i" "i \<le> arr_count a"
  shows "\<exists>a'. pcl_array_insert (Some a) e i w = Some (arr_count a + 1, Some a', w) \<and> arr_wf a'
    \<and> arr_seq a' = take (nat i) (arr_seq a) @ e # drop (nat i) (arr_seq a)
    \<and> (arr_tail_null a \<longrightarrow> arr_tail_null a')"
  by (rule array_insert_ok [OF assms]) blast

theorem array_insert_spec_witness:
  "\<exists>a'. pcl_array_insert (Some (pcl_array_new 0 None :: (nat, nat) pcl_array)) (Some 5) 0 err_init
      = Some (arr_count (pcl_array_new 0 None :: (nat, nat) pcl_array) + 1, Some a', err_init)
    \<and> arr_wf a'
    \<and> arr_seq a' = take (nat 0) (arr_seq (pcl_array_new 0 None :: (nat, nat) pcl_array))
        @ Some 5 # drop (nat 0) (arr_seq (pcl_array_new 0 None :: (nat, nat) pcl_array))
    \<and> (arr_tail_null (pcl_array_new 0 None :: (nat, nat) pcl_array) \<longrightarrow> arr_tail_null a')"
  by (rule array_insert_spec) (simp_all add: arr_wf_def INT_MAX_def pcl_array_new_def)

text \<open>Setting a slot replaces an element of the sequence or extends the sequence with \<open>NULL\<close>s up
  to the index; the handler sees the old element, if it is not \<open>NULL\<close>; outside of the capacity the
  table is unchanged and the error is \<open>PCL_EINDEX\<close>.\<close>

theorem array_set_spec:
  assumes "arr_wf a" "arr_tail_null a" "\<not> frozen w"
    "\<And>x. cleanup_nonnull call (arr_cleanup a) x w = Some (after x)"
  shows "if 0 \<le> i \<and> i < arr_capacity a
    then \<exists>a'. pcl_array_set call (Some a) e i w
        = Some (0, Some a', after (if nat i < length (arr_seq a) then arr_seq a ! nat i else None))
      \<and> arr_wf a' \<and> arr_tail_null a'
      \<and> arr_seq a' = (arr_seq a @ replicate (Suc (nat i) - length (arr_seq a)) None)[nat i := e]
    else \<exists>w'. pcl_array_set call (Some a) e i w = Some (-1, Some a, w') \<and> err w' = PCL_EINDEX"
proof (cases "0 \<le> i \<and> i < arr_capacity a")
  case True
  then have i: "nat i < length (arr_elements a)" "int (nat i) = i"
    using assms(1) by (auto simp: arr_wf_def)
  have "\<exists>a'. pcl_array_set call (Some a) e (int (nat i)) w
        = Some (0, Some a', after (if nat i < length (arr_seq a) then arr_seq a ! nat i else None))
      \<and> arr_wf a' \<and> arr_tail_null a'
      \<and> arr_seq a' = (arr_seq a @ replicate (Suc (nat i) - length (arr_seq a)) None)[nat i := e]"
    by (rule array_set_ok [OF assms(1,2) i(1) assms(4), of e]) blast
  then show ?thesis unfolding i(2) using True by simp
next
  case False
  then show ?thesis
    using assms(3) by (auto simp: pcl_array_set_def macros_thawed)
qed

theorem array_set_spec_witness:
  "if 0 \<le> (2::int) \<and> 2 < arr_capacity (pcl_array_new 4 None :: (nat, nat) pcl_array)
    then \<exists>a'. pcl_array_set (\<lambda>_ _. Some) (Some (pcl_array_new 4 None :: (nat, nat) pcl_array)) (Some 9) 2
          err_init
        = Some (0, Some a', (\<lambda>_. err_init)
            (if nat 2 < length (arr_seq (pcl_array_new 4 None :: (nat, nat) pcl_array))
             then arr_seq (pcl_array_new 4 None :: (nat, nat) pcl_array) ! nat 2 else None))
      \<and> arr_wf a' \<and> arr_tail_null a'
      \<and> arr_seq a' = (arr_seq (pcl_array_new 4 None :: (nat, nat) pcl_array)
          @ replicate (Suc (nat 2) - length (arr_seq (pcl_array_new 4 None :: (nat, nat) pcl_array))) None)
            [nat 2 := Some 9]
    else \<exists>w'. pcl_array_set (\<lambda>_ _. Some) (Some (pcl_array_new 4 None :: (nat, nat) pcl_array)) (Some 9) 2
          err_init
        = Some (-1, Some (pcl_array_new 4 None), w') \<and> err w' = PCL_EINDEX"
  by (rule array_set_spec)
    (simp_all add: arr_wf_def arr_tail_null_def list_all_iff INT_MAX_def err_init_def cleanup_nonnull_def
      pcl_array_new_def)

text \<open>Removal leaves the freed pointer in the slot behind the sequence, so that a later
  \<open>pcl_array_set\<close> of that slot hands the same element to the cleanup handler a second time.\<close>

theorem array_remove_set_double_cleanup:
  assumes "arr_wf a" "arr_cleanup a = Some c" "0 < arr_count a" "last (arr_seq a) = Some x"
    "call c (Some x) w = Some w1" "call c (Some x) w1 = Some w2"
  shows "\<exists>a1 a2. pcl_array_remove call (Some a) (arr_count a - 1) w = Some (arr_count a - 1, Some a1, w1)
    \<and> arr_seq a1 = butlast (arr_seq a)
    \<and> pcl_array_set call (Some a1) e (arr_count a - 1) w1 = Some (0, Some a2, w2)"
proof -
  define n where "n = length (arr_seq a) - 1"
  have n: "arr_count a = int n + 1" "n < length (arr_seq a)" "length (arr_seq a) = Suc n"
    using assms(3) arr_seq_length [OF assms(1)] by (cases "length (arr_seq a)"; simp add: n_def)+
  have "arr_seq a ! n = Some x"
    using assms(4) n by (metis last_conv_nth length_greater_0_conv n_def not_less0 neq0_conv)
  then have "cleanup_nonnull call (arr_cleanup a) (arr_seq a ! n) w = Some w1"
    using assms(2,5) by (simp add: cleanup_nonnull_def)
  from array_remove_ok [OF assms(1) n(2) this]
  obtain a1 where a1: "pcl_array_remove call (Some a) (int n) w = Some (int n, Some a1, w1)"
    "arr_wf a1" "arr_seq a1 = take n (arr_seq a) @ drop (Suc n) (arr_seq a)"
    "arr_cleanup a1 = Some c" "arr_capacity a1 = arr_capacity a"
    "arr_elements a1 ! n = Some x"
    using assms(2,4) n(1) by (auto simp del: of_nat_Suc)
  have "int n < arr_capacity a1" "n < length (arr_elements a1)"
    using assms(1) a1(2,5) n(1) by (auto simp: arr_wf_def)
  then have "\<exists>a2. pcl_array_set call (Some a1) e (int n) w1 = Some (0, Some a2, w2)"
    using a1(4,6) assms(6) by (simp add: pcl_array_set_def rd_int wr_int cleanup_nonnull_def Let_def)
  moreover have "arr_seq a1 = butlast (arr_seq a)"
    using a1(3) n(3) by (simp add: butlast_conv_take)
  ultimately show ?thesis using a1(1) n(1) by auto
qed

text \<open>A concrete table of one element, its handler counting in \<open>errno\<close>.\<close>

definition one_elem_array :: "(nat, nat) pcl_array" where
  "one_elem_array = \<lparr>arr_count = 1, arr_capacity = 2, arr_elements = [Some 7, None],
     arr_cleanup = Some 0\<rparr>"

theorem array_remove_set_double_cleanup_witness:
  "\<exists>a1 a2. pcl_array_remove (\<lambda>_ _ w. Some (w\<lparr>c_errno := c_errno w + 1\<rparr>)) (Some one_elem_array)
        (arr_count one_elem_array - 1) err_init
      = Some (arr_count one_elem_array - 1, Some a1, err_init\<lparr>c_errno := 1\<rparr>)
    \<and> arr_seq a1 = butlast (arr_seq one_elem_array)
    \<and> pcl_array_set (\<lambda>_ _ w. Some (w\<lparr>c_errno := c_errno w + 1\<rparr>)) (Some a1) None
        (arr_count one_elem_array - 1) (err_init\<lparr>c_errno := 1\<rparr>)
      = Some (0, Some a2, err_init\<lparr>c_errno := 2\<rparr>)"
  by (rule array_remove_set_double_cleanup [where x = 7 and c = 0])
    (simp_all add: one_elem_array_def arr_wf_def arr_seq_def INT_MAX_def err_init_def)

end
