(* ===== verification/PclBytes.thy ===== *)
theory PclBytes imports PclPrelude begin

text \<open>
  Blocks of bytes: reading a range, cutting a block into elements of one size, \<open>realloc\<close>, pointers
  to byte blocks, and integers as the bytes the machine stores (little endian, as on x86), with the
  byte swaps of \<open>htons\<close> and its relatives.
\<close>

section \<open>Sizes\<close>

text \<open>The conversions \<open>(int)\<close> and to \<open>size_t\<close>.\<close>

definition to_int :: "nat \<Rightarrow> int" where
  "to_int n = (int n + 2147483648) mod 4294967296 - 2147483648"

definition to_size :: "int \<Rightarrow> nat" where
  "to_size i = nat (i mod 18446744073709551616)"

lemma to_int_small [simp]: "int n \<le> INT_MAX \<Longrightarrow> to_int n = int n"
  by (simp add: to_int_def INT_MAX_def)

lemma to_size_small [simp]: "0 \<le> i \<Longrightarrow> i \<le> INT_MAX \<Longrightarrow> to_size i = nat i"
  by (simp add: to_size_def INT_MAX_def)

section \<open>Blocks of equal chunks\<close>

type_synonym byte = "8 word"

fun chunks :: "nat \<Rightarrow> nat \<Rightarrow> 'b list \<Rightarrow> 'b list list" where
  "chunks sz 0 bs = []"
| "chunks sz (Suc n) bs = take sz bs # chunks sz n (drop sz bs)"

definition mem_read :: "'b list \<Rightarrow> int \<Rightarrow> nat \<Rightarrow> 'b list option" where
  "mem_read xs off n =
     (if 0 \<le> off \<and> off + int n \<le> int (length xs) then Some (take n (drop (nat off) xs)) else None)"

lemma chunks_length [simp]: "length (chunks sz n bs) = n"
  by (induction n arbitrary: bs) auto

lemma chunks_sizes: "n * sz \<le> length bs \<Longrightarrow> list_all (\<lambda>c. length c = sz) (chunks sz n bs)"
  by (induction n arbitrary: bs) auto

lemma chunks_concat: "list_all (\<lambda>c. length c = sz) cs \<Longrightarrow> chunks sz (length cs) (concat cs @ r) = cs"
  by (induction cs) auto

lemma concat_chunks: "n * sz \<le> length bs \<Longrightarrow> concat (chunks sz n bs) @ drop (n * sz) bs = bs"
proof (induction n arbitrary: bs)
  case (Suc n)
  then have "concat (chunks sz n (drop sz bs)) @ drop (n * sz) (drop sz bs) = drop sz bs"
    by (intro Suc.IH) simp
  then show ?case by (simp add: add.commute)
qed simp

lemma concat_sizes: "list_all (\<lambda>c. length c = sz) cs \<Longrightarrow> length (concat cs) = length cs * sz"
  by (induction cs) auto

text \<open>\<open>pcl_realloc\<close> and \<open>pcl_malloc\<close> of byte blocks. The GNU C library answers a \<open>realloc\<close> to zero
  bytes with \<open>NULL\<close>, which \<open>pcl_realloc_trace\<close> reports to the memory handler: the process ends.\<close>

definition pcl_realloc :: "byte \<Rightarrow> byte list \<Rightarrow> nat \<Rightarrow> byte list option" where
  "pcl_realloc junk p n = (if n = 0 then None else Some (mem_resize junk p n))"

text \<open>A pointer to bytes: indeterminate (a member that was never initialised), \<open>NULL\<close>, or a
  block. Copying \<open>n\<close> bytes needs a block at both ends and a count that is not negative.\<close>

datatype bptr = Indet | Null | Blk "byte list"

definition blk_realloc :: "byte \<Rightarrow> bptr \<Rightarrow> nat \<Rightarrow> bptr option" where
  "blk_realloc junk p n =
     (case p of
        Indet \<Rightarrow> None
      | Null \<Rightarrow> Some (Blk (replicate n junk))
      | Blk bs \<Rightarrow> map_option Blk (pcl_realloc junk bs n))"

definition blk_read :: "bptr \<Rightarrow> int \<Rightarrow> int \<Rightarrow> byte list option" where
  "blk_read p off n =
     (case p of Blk bs \<Rightarrow> if 0 \<le> n then mem_read bs off (nat n) else None | _ \<Rightarrow> None)"

definition blk_write :: "bptr \<Rightarrow> int \<Rightarrow> byte list \<Rightarrow> bptr option" where
  "blk_write p off bs' =
     (case p of Blk bs \<Rightarrow> map_option Blk (mem_copy bs off bs') | _ \<Rightarrow> None)"

definition blk_set :: "bptr \<Rightarrow> int \<Rightarrow> byte \<Rightarrow> int \<Rightarrow> bptr option" where
  "blk_set p off v n =
     (case p of Blk bs \<Rightarrow> map_option Blk (mem_set bs off v n) | _ \<Rightarrow> None)"

text \<open>\<open>pcl_free_safe\<close>: a \<open>NULL\<close> pointer is skipped; the result is \<open>NULL\<close>.\<close>

definition pcl_free_safe :: "bptr \<Rightarrow> bptr option" where
  "pcl_free_safe p = (case p of Indet \<Rightarrow> None | _ \<Rightarrow> Some Null)"

text \<open>\<open>strlen\<close> of a block of characters: the index of the first NUL; a block without one is read
  past its end.\<close>

fun c_strlen :: "'a::zero list \<Rightarrow> nat option" where
  "c_strlen [] = None"
| "c_strlen (b # bs) = (if b = 0 then Some 0 else map_option Suc (c_strlen bs))"

lemma strlen_nul: "0 \<notin> set s \<Longrightarrow> c_strlen (s @ 0 # r) = Some (length s)"
  by (induction s) auto

lemma strlen_SomeD:
  "c_strlen bs = Some n \<Longrightarrow> \<exists>r. bs = take n bs @ 0 # r \<and> 0 \<notin> set (take n bs) \<and> length (take n bs) = n"
proof (induction bs arbitrary: n)
  case (Cons b bs)
  show ?case
  proof (cases "b = 0")
    case False
    with Cons.prems obtain m where m: "c_strlen bs = Some m" "n = Suc m" by auto
    from Cons.IH [OF m(1)] False m(2) show ?thesis by auto
  qed (use Cons.prems in auto)
qed simp

text \<open>\<open>strchr\<close>: the index of a character in a block of characters, of which the NUL is a part;
  \<open>Some None\<close> is \<open>NULL\<close>.\<close>

fun c_strchr :: "'a::zero \<Rightarrow> 'a list \<Rightarrow> nat option option" where
  "c_strchr c [] = None"
| "c_strchr c (x # s) =
     (if x = c then Some (Some 0) else if x = 0 then Some None
      else map_option (map_option Suc) (c_strchr c s))"

lemma strchr_absent: "c \<notin> set s \<Longrightarrow> 0 \<notin> set s \<Longrightarrow> c \<noteq> 0 \<Longrightarrow> c_strchr c (s @ 0 # r) = Some None"
  by (induction s) auto

lemma strchr_behind:
  "c \<notin> set s \<Longrightarrow> 0 \<notin> set s \<Longrightarrow> c_strchr c (s @ r) = map_option (map_option ((+) (length s))) (c_strchr c r)"
  by (induction s) (auto simp: option.map_comp o_def option.map_ident cong: option.map_cong)

section \<open>Integers in memory\<close>

fun le_bytes :: "nat \<Rightarrow> nat \<Rightarrow> byte list" where
  "le_bytes 0 x = []"
| "le_bytes (Suc n) x = of_nat x # le_bytes n (x div 256)"

fun le_nat :: "byte list \<Rightarrow> nat" where
  "le_nat [] = 0"
| "le_nat (b # bs) = unat b + 256 * le_nat bs"

lemma length_le_bytes [simp]: "length (le_bytes n x) = n"
  by (induction n arbitrary: x) auto

lemma le_nat_le_bytes: "le_nat (le_bytes n x) = x mod 256 ^ n"
proof (induction n arbitrary: x)
  case (Suc n)
  then show ?case
    by (simp add: unat_of_nat mod_mult2_eq)
qed simp

lemma byte_lt: "unat (b :: byte) < 256"
  using unsigned_less [of b, where ?'a = nat] by simp

lemma le_bytes_le_nat: "le_bytes (length bs) (le_nat bs) = bs"
proof (induction bs)
  case (Cons b bs)
  have "unat b < 256" by (rule byte_lt)
  then have "(unat b + 256 * le_nat bs) div 256 = le_nat bs" by simp
  moreover have z: "(256 :: byte) * x = 0" for x
  proof -
    have "(256 :: byte) = 0" by simp
    then show ?thesis by (metis mult_zero_left)
  qed
  have "(of_nat (unat b + 256 * le_nat bs) :: byte) = b" by (simp add: z)
  ultimately show ?case using Cons by simp
qed simp

text \<open>The bytes of a word as they lie in memory, a word read from memory, and the byte swap
  between host and network order.\<close>

definition word_bytes :: "'a::len word \<Rightarrow> byte list" where
  "word_bytes w = le_bytes (LENGTH('a) div 8) (unat w)"

definition bytes_word :: "byte list \<Rightarrow> 'a::len word" where
  "bytes_word bs = of_nat (le_nat bs)"

definition byte_swap :: "'a::len word \<Rightarrow> 'a word" where
  "byte_swap w = bytes_word (rev (word_bytes w))"

lemma length_word_bytes [simp]: "length (word_bytes (w :: 'a::len word)) = LENGTH('a) div 8"
  by (simp add: word_bytes_def)

lemma two_pow_8: "(2 :: nat) ^ 8 = 256"
  by simp

lemma pow256: "8 dvd n \<Longrightarrow> (256 :: nat) ^ (n div 8) = 2 ^ n"
  by (metis dvd_mult_div_cancel power_mult two_pow_8)

lemma bytes_word_bytes:
  "8 dvd LENGTH('a) \<Longrightarrow> bytes_word (word_bytes w) = (w :: 'a::len word)"
  by (simp add: bytes_word_def word_bytes_def le_nat_le_bytes pow256)

lemma le_nat_bound: "le_nat bs < 256 ^ length bs"
proof (induction bs)
  case (Cons b bs)
  have "unat b < 256" by (rule byte_lt)
  with Cons show ?case by simp
qed simp

lemma word_bytes_word:
  assumes "8 dvd LENGTH('a::len)" "length bs = LENGTH('a) div 8"
  shows "word_bytes (bytes_word bs :: 'a word) = bs"
proof -
  have "le_nat bs < 2 ^ LENGTH('a)"
    using le_nat_bound [of bs] assms pow256 by metis
  then have "unat (bytes_word bs :: 'a word) = le_nat bs"
    by (simp add: bytes_word_def unat_of_nat)
  then show ?thesis
    using le_bytes_le_nat [of bs] assms by (simp add: word_bytes_def)
qed

text \<open>What the machine stores for a swapped word is the big-endian form of the word, and swapping
  twice is the identity.\<close>

lemma word_bytes_swap:
  "8 dvd LENGTH('a) \<Longrightarrow> word_bytes (byte_swap w) = rev (word_bytes (w :: 'a::len word))"
  by (simp add: byte_swap_def word_bytes_word)

lemma byte_swap_swap: "8 dvd LENGTH('a) \<Longrightarrow> byte_swap (byte_swap w) = (w :: 'a::len word)"
  by (simp add: byte_swap_def [of "byte_swap w"] word_bytes_swap bytes_word_bytes)

section \<open>Decimal digits\<close>

definition dec_digit :: "nat \<Rightarrow> char" where
  "dec_digit d = char_of (48 + d)"

fun nat_dec :: "nat \<Rightarrow> string" where
  "nat_dec n = (let q = n div 10; d = dec_digit (n mod 10) in if q = 0 then [d] else nat_dec q @ [d])"

definition int_dec :: "int \<Rightarrow> string" where
  "int_dec i = (if i < 0 then CHR ''-'' # nat_dec (nat (- i)) else nat_dec (nat i))"

declare nat_dec.simps [simp del]

end
