(* ===== verification/PclVector.thy ===== *)
theory PclVector imports PclBytes PclError PclSeq "HOL-Library.Multiset" begin

text \<open>
  The vector (\<open>src/vector\<close>, \<open>include/pcl/vector.h\<close>): a block of \<open>capacity * size\<close> bytes that holds
  \<open>count\<close> elements of \<open>size\<close> bytes each. Element addresses are byte offsets into the block, and
  every operation moves bytes. The abstract value of a vector is the sequence of its elements,
  each a byte list. The pointer \<open>elems\<close> is \<open>None\<close> while it is indeterminate: \<open>pcl_vector\<close> does
  not initialise it when the capacity is zero.
\<close>

section \<open>State and operations\<close>

record 'c pcl_vector =
  vec_count :: int
  vec_capacity :: int
  vec_size :: nat
  vec_elems :: "byte list option"
  vec_cleanup :: "'c option"

definition pcl_vector_new ::
  "'c \<Rightarrow> byte \<Rightarrow> int \<Rightarrow> nat \<Rightarrow> 'c option \<Rightarrow> 'z pcl_err_scheme \<Rightarrow>
     'c pcl_vector option \<times> 'z pcl_err_scheme" where
  "pcl_vector_new pcl_cleanup_ptr junk capacity elemsize cleanup w =
     (if cleanup = Some pcl_cleanup_ptr
      then R_SETERRMSG None (''vector.c'', ''pcl_vector'', 40) PCL_EINVAL
             ''vector cannot use pcl_cleanup_ptr as cleanup function'' w
      else let cap = max 0 capacity
           in (Some \<lparr>vec_count = 0, vec_capacity = cap, vec_size = elemsize,
                     vec_elems = (if cap \<noteq> 0 then Some (replicate (nat cap * elemsize) junk)
                                  else None),
                     vec_cleanup = cleanup\<rparr>, w))"

text \<open>The macro \<open>pcl_vector_get\<close>: the offset of an element, unchecked.\<close>

definition pcl_vector_get :: "'c pcl_vector \<Rightarrow> int \<Rightarrow> int" where
  "pcl_vector_get v pos = pos * int (vec_size v)"

definition pcl_vector_get_safe ::
  "'c pcl_vector option \<Rightarrow> int \<Rightarrow> 'z pcl_err_scheme \<Rightarrow> int option \<times> 'z pcl_err_scheme" where
  "pcl_vector_get_safe vo pos w =
     (case vo of
        Some v \<Rightarrow> if pos \<ge> 0 \<and> pos < vec_count v then (Some (pcl_vector_get v pos), w)
                  else R_SETERR None (''vector_get_s.c'', ''pcl_vector_get_safe'', 38)
                         PCL_ENOTFOUND w
      | None \<Rightarrow> R_SETERR None (''vector_get_s.c'', ''pcl_vector_get_safe'', 38) PCL_ENOTFOUND w)"

text \<open>The growth step of \<open>pcl_vector_insert\<close>.\<close>

definition vector_grow :: "byte \<Rightarrow> 'c pcl_vector \<Rightarrow> 'c pcl_vector option" where
  "vector_grow junk v =
     (if vec_count v = vec_capacity v
      then do { cap \<leftarrow> (if vec_capacity v \<noteq> 0 then cint (vec_capacity v * 2) else Some 8);
                p \<leftarrow> vec_elems v;
                els \<leftarrow> pcl_realloc junk p (nat cap * vec_size v);
                Some (v\<lparr>vec_capacity := cap, vec_elems := Some els\<rparr>) }
      else Some v)"

text \<open>Storing the element: a missing one stands for zeros. The caller's element has at least
  \<open>size\<close> bytes.\<close>

definition vector_store ::
  "'c pcl_vector \<Rightarrow> byte list \<Rightarrow> int \<Rightarrow> byte list option \<Rightarrow> byte list option" where
  "vector_store v els pos elem =
     (case elem of
        None \<Rightarrow> mem_set els (pcl_vector_get v pos) 0 (int (vec_size v))
      | Some e \<Rightarrow> if vec_size v \<le> length e
                  then mem_copy els (pcl_vector_get v pos) (take (vec_size v) e) else None)"

definition pcl_vector_insert ::
  "byte \<Rightarrow> 'c pcl_vector option \<Rightarrow> byte list option \<Rightarrow> int \<Rightarrow>
     (int option \<times> 'c pcl_vector option) option" where
  "pcl_vector_insert junk vo elem pos =
     (case vo of
        None \<Rightarrow> Some (None, None)
      | Some v0 \<Rightarrow>
          if pos > vec_count v0 then Some (None, Some v0)
          else do { v \<leftarrow> vector_grow junk v0;
                    els \<leftarrow> vec_elems v;
                    els1 \<leftarrow> (if pos < vec_count v
                             then mem_move els (pcl_vector_get v (pos + 1)) (pcl_vector_get v pos)
                                    ((vec_count v - pos) * int (vec_size v))
                             else Some els);
                    els2 \<leftarrow> vector_store v els1 pos elem;
                    let v' = v\<lparr>vec_elems := Some els2, vec_count := vec_count v + 1\<rparr>;
                    Some (Some (pcl_vector_get v' pos), Some v') })"

definition pcl_vector_append ::
  "byte \<Rightarrow> 'c pcl_vector option \<Rightarrow> byte list option \<Rightarrow>
     (int option \<times> 'c pcl_vector option) option" where
  "pcl_vector_append junk vo elem =
     pcl_vector_insert junk vo elem (case vo of Some v \<Rightarrow> vec_count v | None \<Rightarrow> 0)"

text \<open>The cleanup handler gets the address of an element; the parameter \<open>call\<close> sees its bytes.\<close>

definition vector_cleanup_at ::
  "('c \<Rightarrow> byte list \<Rightarrow> 'w \<Rightarrow> 'w option) \<Rightarrow> 'c pcl_vector \<Rightarrow> int \<Rightarrow> 'w \<Rightarrow> 'w option" where
  "vector_cleanup_at call v pos w =
     (case vec_cleanup v of
        None \<Rightarrow> Some w
      | Some c \<Rightarrow> do { els \<leftarrow> vec_elems v;
                       e \<leftarrow> mem_read els (pcl_vector_get v pos) (vec_size v);
                       call c e w })"

fun vector_clear_loop ::
  "('c \<Rightarrow> byte list \<Rightarrow> 'w \<Rightarrow> 'w option) \<Rightarrow> 'c pcl_vector \<Rightarrow> nat \<Rightarrow> nat \<Rightarrow> 'w \<Rightarrow> 'w option" where
  "vector_clear_loop call v i 0 w = Some w"
| "vector_clear_loop call v i (Suc n) w =
     do { w1 \<leftarrow> vector_cleanup_at call v (int i) w; vector_clear_loop call v (Suc i) n w1 }"

definition pcl_vector_clear ::
  "('c \<Rightarrow> byte list \<Rightarrow> 'w \<Rightarrow> 'w option) \<Rightarrow> 'c pcl_vector option \<Rightarrow> 'w \<Rightarrow>
     ('c pcl_vector option \<times> 'w) option" where
  "pcl_vector_clear call vo w =
     (case vo of
        None \<Rightarrow> Some (None, w)
      | Some v \<Rightarrow> do { w1 \<leftarrow> (if vec_cleanup v \<noteq> None
                              then vector_clear_loop call v 0 (nat (vec_count v)) w else Some w);
                       Some (Some (v\<lparr>vec_count := 0\<rparr>), w1) })"

definition pcl_vector_remove ::
  "('c \<Rightarrow> byte list \<Rightarrow> 'w \<Rightarrow> 'w option) \<Rightarrow> 'c pcl_vector option \<Rightarrow> int \<Rightarrow> 'w \<Rightarrow>
     (int \<times> 'c pcl_vector option \<times> 'w) option" where
  "pcl_vector_remove call vo pos w =
     (case vo of
        None \<Rightarrow> Some (-1, None, w)
      | Some v \<Rightarrow>
          if pos \<ge> 0 \<and> pos < vec_count v
          then do { w1 \<leftarrow> vector_cleanup_at call v pos w;
                    els \<leftarrow> vec_elems v;
                    els1 \<leftarrow> (if pos < vec_count v - 1
                             then mem_move els (pcl_vector_get v pos) (pcl_vector_get v (pos + 1))
                                    ((vec_count v - pos - 1) * int (vec_size v))
                             else Some els);
                    Some (0, Some (v\<lparr>vec_elems := Some els1, vec_count := vec_count v - 1\<rparr>), w1) }
          else Some (-1, Some v, w))"

definition pcl_vector_compact :: "byte \<Rightarrow> 'c pcl_vector option \<Rightarrow> 'c pcl_vector option option" where
  "pcl_vector_compact junk vo =
     (case vo of
        None \<Rightarrow> Some None
      | Some v \<Rightarrow>
          if vec_count v < vec_capacity v
          then do { p \<leftarrow> vec_elems v;
                    els \<leftarrow> pcl_realloc junk p (nat (vec_count v) * vec_size v);
                    Some (Some (v\<lparr>vec_capacity := vec_count v, vec_elems := Some els\<rparr>)) }
          else Some (Some v))"

text \<open>\<open>pcl_vector_free\<close> reads the pointer \<open>elems\<close>, which must be determinate.\<close>

definition pcl_vector_free ::
  "('c \<Rightarrow> byte list \<Rightarrow> 'w \<Rightarrow> 'w option) \<Rightarrow> 'c pcl_vector option \<Rightarrow> 'w \<Rightarrow> 'w option" where
  "pcl_vector_free call vo w =
     do { (v', w1) \<leftarrow> pcl_vector_clear call vo w;
          case v' of
            Some v \<Rightarrow> do { _ \<leftarrow> vec_elems v; Some w1 }
          | None \<Rightarrow> Some w1 }"

text \<open>\<open>qsort\<close> of the C library, a parameter, sorts \<open>count\<close> chunks of \<open>size\<close> bytes.\<close>

definition pcl_vector_sort ::
  "((byte list \<Rightarrow> byte list \<Rightarrow> int) \<Rightarrow> byte list list \<Rightarrow> byte list list) \<Rightarrow>
     'c pcl_vector option \<Rightarrow> (byte list \<Rightarrow> byte list \<Rightarrow> int) option \<Rightarrow> 'c pcl_vector option option" where
  "pcl_vector_sort qsort vo compare =
     (case (vo, compare) of
        (Some v, Some cmp) \<Rightarrow>
          if vec_count v > 1
          then do { els \<leftarrow> vec_elems v;
                    let n = nat (vec_count v);
                    Some (Some (v\<lparr>vec_elems :=
                      Some (concat (qsort cmp (chunks (vec_size v) n els))
                            @ drop (n * vec_size v) els)\<rparr>)) }
          else Some vo
      | _ \<Rightarrow> Some vo)"

section \<open>Invariant and abstraction\<close>

definition vec_wf :: "'c pcl_vector \<Rightarrow> bool" where
  "vec_wf v \<longleftrightarrow> 0 \<le> vec_count v \<and> vec_count v \<le> vec_capacity v \<and> vec_capacity v \<le> INT_MAX
     \<and> 0 < vec_size v
     \<and> (case vec_elems v of Some els \<Rightarrow> length els = nat (vec_capacity v) * vec_size v | None \<Rightarrow> False)"

definition vec_seq :: "'c pcl_vector \<Rightarrow> byte list list" where
  "vec_seq v = (case vec_elems v of
      Some els \<Rightarrow> chunks (vec_size v) (nat (vec_count v)) els | None \<Rightarrow> [])"

lemma vec_wfE:
  assumes "vec_wf v"
  obtains n els rest where "vec_elems v = Some els" "vec_count v = int n" "0 < vec_size v"
    "els = concat (vec_seq v) @ rest" "length (vec_seq v) = n"
    "list_all (\<lambda>c. length c = vec_size v) (vec_seq v)"
    "length (concat (vec_seq v)) = n * vec_size v"
    "length rest = (nat (vec_capacity v) - n) * vec_size v" "int n \<le> vec_capacity v"
proof -
  obtain els where els: "vec_elems v = Some els" "length els = nat (vec_capacity v) * vec_size v"
    using assms by (auto simp: vec_wf_def split: option.splits)
  define n where "n = nat (vec_count v)"
  have n: "vec_count v = int n" "0 < vec_size v" "int n \<le> vec_capacity v"
    using assms by (auto simp: vec_wf_def n_def)
  have sq: "vec_seq v = chunks (vec_size v) n els"
    by (simp add: vec_seq_def els n_def)
  have le: "n * vec_size v \<le> length els" using n els by simp
  have sz: "list_all (\<lambda>c. length c = vec_size v) (vec_seq v)"
    unfolding sq by (rule chunks_sizes [OF le])
  show ?thesis
    using concat_chunks [OF le] concat_sizes [OF sz] sz n els le
    by (intro that [of els n "drop (n * vec_size v) els"]) (auto simp: sq diff_mult_distrib)
qed

text \<open>A block put together from chunks is again a vector with these chunks.\<close>

lemma vec_build:
  assumes "list_all (\<lambda>c. length c = vec_size v) cs" "vec_elems v = Some (concat cs @ rest)"
    "vec_count v = int (length cs)"
  shows "vec_seq v = cs"
  using assms by (simp add: vec_seq_def chunks_concat)

lemma vec_build_wf:
  assumes "list_all (\<lambda>c. length c = vec_size v) cs" "vec_elems v = Some (concat cs @ rest)"
    "vec_count v = int (length cs)" "int (length cs) \<le> vec_capacity v" "vec_capacity v \<le> INT_MAX"
    "0 < vec_size v" "length rest = (nat (vec_capacity v) - length cs) * vec_size v"
  shows "vec_wf v"
  using assms by (simp add: vec_wf_def concat_sizes diff_mult_distrib)

section \<open>Growing and insertion\<close>

lemma vector_grow_ok:
  assumes "vec_wf v" "vec_count v < 2 ^ 30"
  obtains v' where "vector_grow junk v = Some v'" "vec_wf v'" "vec_count v' = vec_count v"
    "vec_count v' < vec_capacity v'" "vec_seq v' = vec_seq v" "vec_cleanup v' = vec_cleanup v"
    "vec_size v' = vec_size v"
proof (cases "vec_count v = vec_capacity v")
  case True
  from assms(1) obtain n els rest where v: "vec_elems v = Some els" "vec_count v = int n"
    "0 < vec_size v" "els = concat (vec_seq v) @ rest" "length (vec_seq v) = n"
    "list_all (\<lambda>c. length c = vec_size v) (vec_seq v)"
    "length (concat (vec_seq v)) = n * vec_size v"
    "length rest = (nat (vec_capacity v) - n) * vec_size v" "int n \<le> vec_capacity v"
    by (rule vec_wfE)
  define m where "m = (if n \<noteq> 0 then n * 2 else 8)"
  have m: "n < m" "int m \<le> INT_MAX" "0 < m"
    using assms(2) v(2) by (auto simp: m_def INT_MAX_def)
  have cap: "(if vec_capacity v \<noteq> 0 then cint (vec_capacity v * 2) else Some 8) = Some (int m)"
    using m v(2) True assms(2) by (auto simp: m_def cint_def INT_MIN_def INT_MAX_def)
  define els' where "els' = concat (vec_seq v) @ replicate ((m - n) * vec_size v) junk"
  have "rest = []" using v(8) v(2) True by simp
  then have re: "pcl_realloc junk els (m * vec_size v) = Some els'"
    using m v(3,4,7) by (simp add: pcl_realloc_def mem_resize_def els'_def diff_mult_distrib)
  let ?v = "v\<lparr>vec_capacity := int m, vec_elems := Some els'\<rparr>"
  have "vector_grow junk v = Some ?v"
    using True cap re v(1) by (simp add: vector_grow_def)
  moreover have "vec_seq ?v = vec_seq v"
    by (rule vec_build [of ?v]) (use v in \<open>auto simp: els'_def\<close>)
  moreover have "vec_wf ?v"
    by (rule vec_build_wf [of ?v "vec_seq v" "replicate ((m - n) * vec_size v) junk"])
      (use v m in \<open>auto simp: els'_def\<close>)
  ultimately show ?thesis using m v(2) by (intro that [of ?v]) auto
next
  case False
  then show ?thesis
    using assms by (intro that [of v]) (auto simp: vector_grow_def vec_wf_def)
qed

text \<open>The bytes a call stores: the caller's element, or zeros.\<close>

definition vec_bytes :: "nat \<Rightarrow> byte list option \<Rightarrow> byte list" where
  "vec_bytes sz elem = (case elem of None \<Rightarrow> replicate sz 0 | Some e \<Rightarrow> take sz e)"

definition vec_elem_ok :: "nat \<Rightarrow> byte list option \<Rightarrow> bool" where
  "vec_elem_ok sz elem = (case elem of None \<Rightarrow> True | Some e \<Rightarrow> sz \<le> length e)"

lemma length_vec_bytes [simp]: "vec_elem_ok sz e \<Longrightarrow> length (vec_bytes sz e) = sz"
  by (auto simp: vec_elem_ok_def vec_bytes_def split: option.splits)

lemma mem_copy_mid:
  "length m = length b \<Longrightarrow> mem_copy (xs @ m @ ys) (int (length xs)) b = Some (xs @ b @ ys)"
  by (simp add: mem_copy_def)

text \<open>Opening a gap of one element and filling it.\<close>

lemma gap_fill:
  assumes "list_all (\<lambda>c. length c = sz) cs" "length rest \<ge> sz" "i \<le> length cs" "length b = sz"
  defines "els \<equiv> concat cs @ rest" and "ya \<equiv> concat (take i cs)" and "yb \<equiv> concat (drop i cs)"
  shows "mem_move els (int ((i + 1) * sz)) (int (i * sz)) (int ((length cs - i) * sz))
      = Some (take ((i + 1) * sz) els @ yb @ drop sz rest)"
    and "mem_copy (take ((i + 1) * sz) els @ yb @ drop sz rest) (int (i * sz)) b
      = Some (ya @ b @ yb @ drop sz rest)"
    and "i = length cs \<Longrightarrow> mem_copy els (int (i * sz)) b = Some (ya @ b @ yb @ drop sz rest)"
proof -
  have cs: "concat cs = ya @ yb" by (simp add: ya_def yb_def flip: concat_append)
  have la: "length ya = i * sz"
    using assms(1,3) concat_sizes [of sz "take i cs"] list_all_append [of _ "take i cs" "drop i cs"]
    by (simp add: ya_def)
  have lb: "length yb = (length cs - i) * sz"
    using assms(1) concat_sizes [of sz "drop i cs"] list_all_append [of _ "take i cs" "drop i cs"]
    by (simp add: yb_def)
  have els: "els = ya @ yb @ rest" by (simp add: els_def cs)
  have le: "(i + 1) * sz + length yb \<le> length els" using la assms(2) els by simp
  have "drop (i * sz) els = yb @ rest" "drop ((i + 1) * sz + length yb) els = drop sz rest"
    using la by (simp_all add: els algebra_simps)
  moreover have "i * sz + length yb \<le> length els" using la els by simp
  ultimately show "mem_move els (int ((i + 1) * sz)) (int (i * sz)) (int ((length cs - i) * sz))
      = Some (take ((i + 1) * sz) els @ yb @ drop sz rest)"
    using le unfolding lb [symmetric] mem_move_def of_nat_add [symmetric] nat_int
    by (simp only: of_nat_0_le_iff of_nat_le_iff if_True append_eq_conv_conj simp_thms) simp
  have "take (i * sz) (take ((i + 1) * sz) els) = ya"
    using la by (simp add: els min_def)
  moreover have "length (take ((i + 1) * sz) els) = (i + 1) * sz"
    using le by simp
  ultimately obtain m where "take ((i + 1) * sz) els = ya @ m" "length m = sz"
    using la by (metis add_diff_cancel_left' add_mult_distrib append_take_drop_id length_append
        mult.left_neutral)
  then show "mem_copy (take ((i + 1) * sz) els @ yb @ drop sz rest) (int (i * sz)) b
      = Some (ya @ b @ yb @ drop sz rest)"
    using mem_copy_mid [of m b ya "yb @ drop sz rest"] assms(4) la by (simp del: of_nat_mult)
  show "mem_copy els (int (i * sz)) b = Some (ya @ b @ yb @ drop sz rest)" if "i = length cs"
    using mem_copy_mid [of "take sz rest" b ya "drop sz rest"] that la lb assms(2,4) els
    by (simp del: of_nat_mult)
qed

lemma mem_set_copy: "mem_set xs d v (int n) = mem_copy xs d (replicate n v)"
  by (simp add: mem_set_def mem_copy_def nat_add_distrib)

lemma vector_insert_ok:
  assumes "vec_wf v" "vec_count v < 2 ^ 30" "i \<le> length (vec_seq v)" "vec_elem_ok (vec_size v) e"
  obtains v' where "pcl_vector_insert junk (Some v) e (int i)
      = Some (Some (int (i * vec_size v)), Some v')"
    "vec_wf v'" "vec_size v' = vec_size v" "vec_cleanup v' = vec_cleanup v"
    "vec_seq v' = take i (vec_seq v) @ vec_bytes (vec_size v) e # drop i (vec_seq v)"
proof -
  obtain u where u: "vector_grow junk v = Some u" "vec_wf u" "vec_count u = vec_count v"
    "vec_count u < vec_capacity u" "vec_seq u = vec_seq v" "vec_cleanup u = vec_cleanup v"
    "vec_size u = vec_size v"
    using vector_grow_ok [OF assms(1,2), of junk] by blast
  define sz cs where "sz = vec_size v" and "cs = vec_seq v"
  from u(2) obtain n els rest where n: "vec_elems u = Some els" "vec_count u = int n"
    "0 < vec_size u" "els = concat cs @ rest" "length cs = n"
    "list_all (\<lambda>c. length c = sz) cs"
    "length rest = (nat (vec_capacity u) - n) * sz"
    by (rule vec_wfE) (simp add: u(5,7) sz_def cs_def)
  have "1 \<le> nat (vec_capacity u) - n" using u(4) n(2) by simp
  then have room: "sz \<le> length rest" using n(7) by (cases "nat (vec_capacity u) - n") auto
  define b where "b = vec_bytes sz e"
  have lb: "length b = sz" using assms(4) by (simp add: b_def sz_def)
  have i: "i \<le> length cs" using assms(3) by (simp add: cs_def)
  define els' where "els' = concat (take i cs) @ b @ concat (drop i cs) @ drop sz rest"
  note g = gap_fill [OF n(6) room i lb, folded n(4)]
  let ?v = "u\<lparr>vec_elems := Some els', vec_count := int n + 1\<rparr>"
  have fill: "vector_store u xs (int i) e = mem_copy xs (int (i * sz)) b" for xs
    using assms(4) by (auto simp: vector_store_def pcl_vector_get_def u(7) b_def vec_bytes_def
        vec_elem_ok_def sz_def mem_set_copy split: option.splits)
  have off: "pcl_vector_get u (int i + 1) = int ((i + 1) * sz)"
    "pcl_vector_get u (int i) = int (i * sz)" "pcl_vector_get ?v (int i) = int (i * sz)"
    by (simp_all add: pcl_vector_get_def u(7) sz_def algebra_simps)
  have len: "(int n - int i) * int (vec_size u) = int ((length cs - i) * sz)"
    using i n(5) u(7) by (simp add: sz_def of_nat_diff)
  have "pcl_vector_insert junk (Some v) e (int i) = Some (Some (int (i * sz)), Some ?v)"
  proof (cases "int i < int n")
    case True
    then show ?thesis
      using u(1,3) n(1,2,5) i g(1,2) fill off len
      by (simp add: pcl_vector_insert_def Let_def els'_def del: of_nat_mult)
  next
    case False
    with i n(5) have "i = length cs" by simp
    with False show ?thesis
      using u(1,3) n(1,2,5) g(3) fill off
      by (simp add: pcl_vector_insert_def Let_def els'_def del: of_nat_mult)
  qed
  moreover define ds where "ds = take i cs @ b # drop i cs"
  moreover have "els' = concat ds @ drop sz rest" "length ds = n + 1"
    using i n(5) by (auto simp: els'_def ds_def)
  moreover have "list_all (\<lambda>c. length c = sz) ds"
    using n(6) lb by (auto simp: ds_def list_all_iff dest: in_set_takeD in_set_dropD)
  moreover have "length (drop sz rest) = (nat (vec_capacity u) - (n + 1)) * sz"
    using n(7) by (simp add: diff_mult_distrib)
  moreover have "vec_seq ?v = ds"
    by (rule vec_build [of ?v]) (use calculation u(7) in \<open>auto simp: sz_def\<close>)
  moreover have "vec_wf ?v"
    by (rule vec_build_wf [of ?v ds "drop sz rest"])
      (use calculation u(2,4,7) n(2,3) in \<open>auto simp: sz_def vec_wf_def\<close>)
  ultimately show ?thesis
    using u(6,7) by (intro that [of ?v]) (auto simp: sz_def cs_def b_def)
qed

lemma vector_insert_beyond:
  "pos > vec_count v \<Longrightarrow> pcl_vector_insert junk (Some v) e pos = Some (None, Some v)"
  by (simp add: pcl_vector_insert_def)

lemma vector_append_ok:
  assumes "vec_wf v" "vec_count v < 2 ^ 30" "vec_elem_ok (vec_size v) e"
  obtains v' where "pcl_vector_append junk (Some v) e
      = Some (Some (vec_count v * int (vec_size v)), Some v')"
    "vec_wf v'" "vec_size v' = vec_size v" "vec_cleanup v' = vec_cleanup v"
    "vec_seq v' = vec_seq v @ [vec_bytes (vec_size v) e]"
proof -
  have "vec_count v = int (length (vec_seq v))"
    using assms(1) by (auto elim: vec_wfE)
  then show ?thesis
    using that vector_insert_ok [OF assms(1,2) order_refl assms(3), of junk]
    by (simp add: pcl_vector_append_def) metis
qed

section \<open>Access, removal, clearing\<close>

lemma chunk_at:
  assumes "list_all (\<lambda>c. length c = sz) cs" "i < length cs"
  shows "mem_read (concat cs @ rest) (int (i * sz)) sz = Some (cs ! i)"
proof -
  have "concat cs = concat (take i cs) @ cs ! i @ concat (drop (Suc i) cs)"
    using assms(2) by (metis concat.simps(2) concat_append id_take_nth_drop)
  moreover have "length (concat (take i cs)) = i * sz" "length (cs ! i) = sz"
    using assms concat_sizes [of sz "take i cs"] by (auto simp: list_all_length)
  ultimately show ?thesis by (simp add: mem_read_def del: of_nat_mult)
qed

text \<open>The address that \<open>pcl_vector_get\<close> computes holds the element.\<close>

lemma vector_get_ok:
  assumes "vec_wf v" "i < length (vec_seq v)"
  shows "Option.bind (vec_elems v)
    (\<lambda>els. mem_read els (pcl_vector_get v (int i)) (vec_size v)) = Some (vec_seq v ! i)"
  using assms chunk_at [of "vec_size v" "vec_seq v" i]
  by (elim vec_wfE) (auto simp: pcl_vector_get_def)

lemma vector_cleanup_at_ok:
  assumes "vec_wf v" "i < length (vec_seq v)"
  shows "vector_cleanup_at call v (int i) w =
    (case vec_cleanup v of None \<Rightarrow> Some w | Some c \<Rightarrow> call c (vec_seq v ! i) w)"
  using vector_get_ok [OF assms]
  by (auto simp: vector_cleanup_at_def bind_simps split: option.splits)

lemma vector_clear_loop_ok:
  assumes "vec_wf v" "vec_cleanup v = Some c"
  shows "i + n \<le> length (vec_seq v) \<Longrightarrow>
    vector_clear_loop call v i n w = seq_each (call c) (take n (drop i (vec_seq v))) w"
proof (induction n arbitrary: i w)
  case (Suc n)
  then have "take (Suc n) (drop i (vec_seq v)) = vec_seq v ! i # take n (drop (Suc i) (vec_seq v))"
    by (simp add: Cons_nth_drop_Suc [symmetric])
  then show ?case
    using Suc vector_cleanup_at_ok [OF assms(1), of i call] assms(2)
    by (auto intro: Option.bind_cong)
qed simp

text \<open>Clearing runs the handler over every element in order and keeps the block.\<close>

lemma vector_clear_ok:
  assumes "vec_wf v"
  shows "pcl_vector_clear call (Some v) w =
    map_option (\<lambda>w1. (Some (v\<lparr>vec_count := 0\<rparr>), w1))
      (case vec_cleanup v of None \<Rightarrow> Some w | Some c \<Rightarrow> seq_each (call c) (vec_seq v) w)"
proof -
  have "nat (vec_count v) = length (vec_seq v)"
    using assms by (auto elim: vec_wfE)
  then show ?thesis
    using vector_clear_loop_ok [OF assms, of _ 0 "length (vec_seq v)" call w]
    by (auto simp: pcl_vector_clear_def bind_Some_map split: option.splits)
qed

lemma vector_cleared_wf: "vec_wf v \<Longrightarrow> vec_wf (v\<lparr>vec_count := 0\<rparr>)"
  "vec_wf v \<Longrightarrow> vec_seq (v\<lparr>vec_count := 0\<rparr>) = []"
  by (auto simp: vec_wf_def vec_seq_def split: option.splits)

lemma vector_remove_ok:
  assumes "vec_wf v" "i < length (vec_seq v)" "vector_cleanup_at call v (int i) w = Some w1"
  obtains v' where "pcl_vector_remove call (Some v) (int i) w = Some (0, Some v', w1)"
    "vec_wf v'" "vec_size v' = vec_size v" "vec_cleanup v' = vec_cleanup v"
    "vec_seq v' = take i (vec_seq v) @ drop (Suc i) (vec_seq v)"
proof -
  define sz cs where "sz = vec_size v" and "cs = vec_seq v"
  from assms(1) obtain n els rest where n: "vec_elems v = Some els" "vec_count v = int n"
    "0 < sz" "els = concat cs @ rest" "length cs = n"
    "list_all (\<lambda>c. length c = sz) cs"
    "length rest = (nat (vec_capacity v) - n) * sz" "int n \<le> vec_capacity v"
    by (rule vec_wfE) (simp add: sz_def cs_def)
  have i: "i < n" using assms(2) n(5) by (simp add: cs_def)
  define ds where "ds = take i cs @ drop (Suc i) cs"
  have ds: "length ds = n - 1" "list_all (\<lambda>c. length c = sz) ds"
    using i n(5,6) by (auto simp: ds_def list_all_iff dest: in_set_takeD in_set_dropD)
  define ya yb where "ya = concat (take i cs)" and "yb = concat (drop (Suc i) cs)"
  have c3: "concat cs = ya @ cs ! i @ yb"
    using i n(5) unfolding ya_def yb_def
    by (metis concat.simps(2) concat_append id_take_nth_drop)
  have la: "length ya = i * sz" and lc: "length (cs ! i) = sz"
    using i n(5,6) concat_sizes [of sz "take i cs"] by (auto simp: ya_def list_all_length)
  have lb: "length yb = (n - Suc i) * sz"
    using n(5,6) concat_sizes [of sz "drop (Suc i) cs"] by (simp add: yb_def list_all_length)
  define tl where "tl = drop (i * sz + length yb) els"
  have mv: "mem_move els (int (i * sz)) (int ((i + 1) * sz)) (int ((n - Suc i) * sz))
      = Some (ya @ yb @ tl)"
  proof -
    have "drop ((i + 1) * sz) els = yb @ rest" "take (i * sz) els = ya"
      "(i + 1) * sz + length yb \<le> length els"
      using la lc by (simp_all add: n(4) c3 algebra_simps)
    then show ?thesis
      unfolding lb [symmetric] mem_move_def of_nat_add [symmetric] nat_int tl_def
      by (simp only: of_nat_0_le_iff of_nat_le_iff if_True append_eq_conv_conj simp_thms) simp
  qed
  have ltl: "length tl = (nat (vec_capacity v) - (n - 1)) * sz"
  proof -
    have "length els = nat (vec_capacity v) * sz"
      using n(4,7,8) concat_sizes [OF n(6)] n(5)
      by (simp flip: add_mult_distrib)
    moreover have "i * sz + length yb = (n - 1) * sz"
      using i lb by (simp flip: add_mult_distrib)
    ultimately show ?thesis by (simp add: tl_def diff_mult_distrib)
  qed
  have last: "els = ya @ yb @ tl" if "\<not> int i < int n - 1"
  proof -
    from that i have "n - Suc i = 0" by linarith
    then have "yb = []" using lb by simp
    then show ?thesis using la by (simp add: tl_def n(4) c3)
  qed
  let ?v = "v\<lparr>vec_elems := Some (ya @ yb @ tl), vec_count := int n - 1\<rparr>"
  have off: "pcl_vector_get v (int i) = int (i * sz)"
    "pcl_vector_get v (int i + 1) = int ((i + 1) * sz)"
    by (simp_all add: pcl_vector_get_def sz_def algebra_simps)
  have "int n - int i - 1 = int (n - Suc i)" using i by simp
  then have cnt: "(int n - int i - 1) * int (vec_size v) = int ((n - Suc i) * sz)"
    by (simp add: sz_def)
  have "pcl_vector_remove call (Some v) (int i) w = Some (0, Some ?v, w1)"
    using assms(3) n(1,2) i off cnt mv last
    by (cases "int i < int n - 1") (simp_all add: pcl_vector_remove_def del: of_nat_mult)
  moreover have "vec_seq ?v = ds"
    by (rule vec_build [of ?v])
      (use ds i n in \<open>auto simp: sz_def ds_def ya_def yb_def\<close>)
  moreover have "vec_wf ?v"
    by (rule vec_build_wf [of ?v ds tl])
      (use ds i n ltl assms(1) in \<open>auto simp: sz_def ds_def ya_def yb_def vec_wf_def\<close>)
  ultimately show ?thesis
    by (intro that [of ?v]) (auto simp: ds_def cs_def)
qed

lemma vector_remove_beyond:
  "pos < 0 \<or> vec_count v \<le> pos \<Longrightarrow> pcl_vector_remove call (Some v) pos w = Some (-1, Some v, w)"
  by (auto simp: pcl_vector_remove_def)

text \<open>Compacting an emptied vector asks \<open>realloc\<close> for zero bytes.\<close>

lemma vector_compact_empty:
  assumes "vec_wf v" "vec_count v = 0" "0 < vec_capacity v"
  shows "pcl_vector_compact junk (Some v) = None"
  using assms
  by (auto simp: pcl_vector_compact_def pcl_realloc_def vec_wf_def split: option.splits)

lemma vector_compact_ok:
  assumes "vec_wf v" "0 < vec_count v"
  obtains v' where "pcl_vector_compact junk (Some v) = Some (Some v')" "vec_wf v'"
    "vec_seq v' = vec_seq v" "vec_capacity v' = vec_count v"
proof (cases "vec_count v < vec_capacity v")
  case True
  from assms(1) obtain n els rest where n: "vec_elems v = Some els" "vec_count v = int n"
    "0 < vec_size v" "els = concat (vec_seq v) @ rest" "length (vec_seq v) = n"
    "list_all (\<lambda>c. length c = vec_size v) (vec_seq v)"
    "length (concat (vec_seq v)) = n * vec_size v"
    by (rule vec_wfE)
  have "pcl_realloc junk els (n * vec_size v) = Some (concat (vec_seq v))"
    using n(2,3,4,7) assms(2) by (simp add: pcl_realloc_def mem_resize_def)
  moreover have "vec_seq (v\<lparr>vec_capacity := int n, vec_elems := Some (concat (vec_seq v))\<rparr>)
      = vec_seq v"
    by (rule vec_build [where rest = "[]"]) (use n in auto)
  moreover have "vec_wf (v\<lparr>vec_capacity := int n, vec_elems := Some (concat (vec_seq v))\<rparr>)"
    by (rule vec_build_wf [where rest = "[]" and cs = "vec_seq v"])
      (use n assms(1) True in \<open>auto simp: vec_wf_def\<close>)
  ultimately show ?thesis
    using True n(1,2)
    by (intro that [of "v\<lparr>vec_capacity := int n, vec_elems := Some (concat (vec_seq v))\<rparr>"])
      (auto simp: pcl_vector_compact_def)
next
  case False
  with assms(1) show ?thesis
    by (intro that [of v]) (auto simp: pcl_vector_compact_def vec_wf_def)
qed

text \<open>A vector made with capacity zero has an indeterminate block: its first insertion reads it.\<close>

lemma vector_zero_capacity:
  assumes "cleanup \<noteq> Some ptr" "capacity \<le> 0"
  shows "\<exists>v. pcl_vector_new ptr junk capacity sz cleanup w = (Some v, w)
    \<and> pcl_vector_append junk (Some v) e = None \<and> pcl_vector_free call (Some v) w = None"
  using assms
  by (simp add: pcl_vector_new_def pcl_vector_append_def pcl_vector_insert_def vector_grow_def
      Let_def pcl_vector_free_def pcl_vector_clear_def split: option.splits)

lemma vector_new_wf:
  assumes "cleanup \<noteq> Some ptr" "0 < capacity" "capacity \<le> INT_MAX" "0 < sz"
  obtains v where "pcl_vector_new ptr junk capacity sz cleanup w = (Some v, w)" "vec_wf v"
    "vec_seq v = []" "vec_size v = sz"
  using assms
  by (intro that [of "fst (the_vec, w)" for the_vec])
    (auto simp: pcl_vector_new_def vec_wf_def vec_seq_def Let_def)

section \<open>The vector as a sequence\<close>

definition vec_sized :: "nat \<Rightarrow> 'c pcl_vector \<Rightarrow> bool" where
  "vec_sized sz v \<longleftrightarrow> vec_wf v \<and> vec_size v = sz"

definition vector_push :: "byte \<Rightarrow> 'c pcl_vector \<Rightarrow> byte list \<Rightarrow> 'c pcl_vector option" where
  "vector_push junk v e =
     (case pcl_vector_append junk (Some v) (Some e) of Some (Some _, v') \<Rightarrow> v' | _ \<Rightarrow> None)"

definition vector_fetch :: "'c pcl_vector \<Rightarrow> int \<Rightarrow> byte list option" where
  "vector_fetch v i =
     (case fst (pcl_vector_get_safe (Some v) i err_init) of
        Some off \<Rightarrow> Option.bind (vec_elems v) (\<lambda>els. mem_read els off (vec_size v))
      | None \<Rightarrow> None)"

definition vector_delete :: "'c pcl_vector \<Rightarrow> int \<Rightarrow> 'c pcl_vector option" where
  "vector_delete v i =
     (case pcl_vector_remove (\<lambda>_ _. Some) (Some v) i () of
        Some (r, v', _) \<Rightarrow> if r = 0 then v' else None | None \<Rightarrow> None)"

interpretation vec: indexed "vec_sized sz" vec_seq "\<lambda>e. length e = sz" "2 ^ 30"
    "vector_push junk" vector_fetch vector_delete
  for sz :: nat and junk :: byte
proof
  fix s :: "'c pcl_vector" and e :: "byte list"
  assume a: "vec_sized sz s" "length e = sz" "length (vec_seq s) < 2 ^ 30"
  then have "vec_count s = int (length (vec_seq s))"
    by (auto simp: vec_sized_def elim: vec_wfE)
  with a(3) have "vec_count s < 2 ^ 30"
    by (metis of_nat_less_numeral_power_cancel_iff)
  with a obtain v' where "pcl_vector_append junk (Some s) (Some e)
      = Some (Some (vec_count s * int (vec_size s)), Some v')" "vec_wf v'" "vec_size v' = vec_size s"
    "vec_seq v' = vec_seq s @ [vec_bytes (vec_size s) (Some e)]"
    using vector_append_ok [of s "Some e" junk] by (auto simp: vec_sized_def vec_elem_ok_def)
  with a show "\<exists>s'. vector_push junk s e = Some s' \<and> vec_sized sz s' \<and> vec_seq s' = vec_seq s @ [e]"
    by (auto simp: vector_push_def vec_sized_def vec_bytes_def)
next
  fix s :: "'c pcl_vector" and i
  assume a: "vec_sized sz s" "i < length (vec_seq s)"
  then have "vec_count s = int (length (vec_seq s))"
    by (auto simp: vec_sized_def elim: vec_wfE)
  with a show "vector_fetch s (int i) = Some (vec_seq s ! i)"
    using vector_get_ok [of s i]
    by (simp add: vector_fetch_def pcl_vector_get_safe_def vec_sized_def)
next
  fix s :: "'c pcl_vector" and i :: int
  assume a: "vec_sized sz s" "i < 0 \<or> int (length (vec_seq s)) \<le> i"
  then have "vec_count s = int (length (vec_seq s))"
    by (auto simp: vec_sized_def elim: vec_wfE)
  with a show "vector_fetch s i = None"
    by (auto simp: vector_fetch_def pcl_vector_get_safe_def R_SETERR_def)
next
  fix s :: "'c pcl_vector" and i
  assume a: "vec_sized sz s" "i < length (vec_seq s)"
  then have w: "vec_wf s" "vec_size s = sz" by (simp_all add: vec_sized_def)
  have "vector_cleanup_at (\<lambda>_ _. Some) s (int i) () = Some ()"
    using vector_cleanup_at_ok [OF w(1) a(2), of "\<lambda>_ _. Some" "()"] by (auto split: option.splits)
  from vector_remove_ok [OF w(1) a(2) this]
  obtain v' where "pcl_vector_remove (\<lambda>_ _. Some) (Some s) (int i) () = Some (0, Some v', ())"
    "vec_wf v'" "vec_size v' = vec_size s" "vec_seq v' = take i (vec_seq s) @ drop (Suc i) (vec_seq s)"
    by metis
  then show "\<exists>s'. vector_delete s (int i) = Some s' \<and> vec_sized sz s' \<and>
      vec_seq s' = take i (vec_seq s) @ drop (Suc i) (vec_seq s)"
    using w by (simp add: vector_delete_def vec_sized_def)
qed

section \<open>Properties\<close>

text \<open>C31: inserting at a position up to \<open>count\<close> moves the bytes of the elements behind it, stores the
  bytes of the element (zeros for a missing one) and returns its address; every other element is
  byte for byte unchanged.\<close>

theorem vector_insert_spec:
  assumes "vec_wf v" "vec_count v < 2 ^ 30" "i \<le> length (vec_seq v)" "vec_elem_ok (vec_size v) e"
  shows "\<exists>v'. pcl_vector_insert junk (Some v) e (int i) = Some (Some (int (i * vec_size v)), Some v')
    \<and> vec_wf v' \<and> vec_size v' = vec_size v
    \<and> vec_seq v' = take i (vec_seq v) @ vec_bytes (vec_size v) e # drop i (vec_seq v)"
  by (rule vector_insert_ok [OF assms]) blast

text \<open>A vector of two elements of two bytes.\<close>

definition two_vector :: "nat pcl_vector" where
  "two_vector = \<lparr>vec_count = 2, vec_capacity = 2, vec_size = 2, vec_elems = Some [1, 2, 3, 4],
     vec_cleanup = None\<rparr>"

theorem vector_insert_spec_witness:
  "\<exists>v'. pcl_vector_insert 0 (Some two_vector) (Some [8, 9]) (int 1)
      = Some (Some (int (1 * vec_size two_vector)), Some v')
    \<and> vec_wf v' \<and> vec_size v' = vec_size two_vector
    \<and> vec_seq v' = take 1 (vec_seq two_vector) @ vec_bytes (vec_size two_vector) (Some [8, 9])
        # drop 1 (vec_seq two_vector)"
  by (rule vector_insert_spec)
    (simp_all add: two_vector_def vec_wf_def INT_MAX_def vec_seq_def vec_elem_ok_def)

text \<open>Appending elements one by one and reading them back by index returns them in order.\<close>

theorem vector_append_fetch:
  assumes "vec_wf v" "list_all (\<lambda>e. length e = vec_size v) es"
    "length (vec_seq v) + length es \<le> 2 ^ 30"
  shows "\<exists>v'. push_all (vector_push junk) v es = Some v' \<and> vec_wf v'
    \<and> vec_seq v' = vec_seq v @ es
    \<and> (\<forall>i < length es. vector_fetch v' (int (length (vec_seq v) + i)) = Some (es ! i))"
proof -
  have "vec_sized (vec_size v) v" using assms(1) by (simp add: vec_sized_def)
  from vec.push_all_ok [OF this assms(2,3), of junk]
  obtain v' where v': "push_all (vector_push junk) v es = Some v'" "vec_sized (vec_size v) v'"
    "vec_seq v' = vec_seq v @ es" by blast
  have "vector_fetch v' (int (length (vec_seq v) + i)) = Some (es ! i)" if "i < length es" for i
    using vec.fetch_in [OF v'(2), of "length (vec_seq v) + i"] v'(3) that by (simp add: nth_append)
  with v' show ?thesis by (auto simp: vec_sized_def)
qed

theorem vector_append_fetch_witness:
  "\<exists>v'. push_all (vector_push 0) two_vector [[5, 6], [7, 8]] = Some v' \<and> vec_wf v'
    \<and> vec_seq v' = vec_seq two_vector @ [[5, 6], [7, 8]]
    \<and> (\<forall>i < length [[5 :: byte, 6], [7, 8]].
        vector_fetch v' (int (length (vec_seq two_vector) + i)) = Some ([[5, 6], [7, 8]] ! i))"
  by (rule vector_append_fetch)
    (simp_all add: two_vector_def vec_wf_def INT_MAX_def vec_seq_def)

text \<open>Compacting keeps the elements and drops the spare capacity, but compacting a vector without
  elements asks \<open>realloc\<close> for zero bytes, which ends the process.\<close>

theorem vector_compact_spec:
  assumes "vec_wf v" "vec_count v < vec_capacity v"
  shows "if vec_count v = 0 then pcl_vector_compact junk (Some v) = None
    else \<exists>v'. pcl_vector_compact junk (Some v) = Some (Some v') \<and> vec_wf v'
      \<and> vec_seq v' = vec_seq v \<and> vec_capacity v' = vec_count v"
proof (cases "vec_count v = 0")
  case True
  with assms show ?thesis by (simp add: vector_compact_empty)
next
  case False
  with assms(1) have "0 < vec_count v" by (simp add: vec_wf_def)
  from vector_compact_ok [OF assms(1) this, of junk] False show ?thesis by auto
qed

theorem vector_compact_spec_witness:
  "if vec_count (two_vector\<lparr>vec_count := 0\<rparr>) = 0
    then pcl_vector_compact 0 (Some (two_vector\<lparr>vec_count := 0\<rparr>)) = None
    else \<exists>v'. pcl_vector_compact 0 (Some (two_vector\<lparr>vec_count := 0\<rparr>)) = Some (Some v') \<and> vec_wf v'
      \<and> vec_seq v' = vec_seq (two_vector\<lparr>vec_count := 0\<rparr>)
      \<and> vec_capacity v' = vec_count (two_vector\<lparr>vec_count := 0\<rparr>)"
  by (rule vector_compact_spec) (simp_all add: two_vector_def vec_wf_def INT_MAX_def)

end
