(* ===== verification/PclBuf.thy ===== *)
theory PclBuf imports PclBytes PclError begin

text \<open>
  The dynamic buffer (\<open>src/buf\<close>, \<open>include/pcl/buf.h\<close>): a block of \<open>size\<close> characters of
  \<open>chrsize\<close> bytes with a position at which values are put and got, and a NUL character kept
  behind the content. Binary buffers hold integers in network order and strings with their NUL.
  The model is the 64-bit little-endian one: \<open>int\<close> has 32 bits, \<open>size_t\<close> 64, and a
  \<open>wchar_t\<close> four bytes. Memory that is not initialised holds the byte \<open>junk\<close>.
\<close>

section \<open>State\<close>

datatype pcl_buf_mode = PclBufBinary | PclBufText | PclBufTextW

record pcl_buf =
  bf_mode :: pcl_buf_mode
  bf_chrsize :: int
  bf_pos :: int
  bf_len :: int
  bf_size :: nat
  bf_data :: bptr

definition sizeof_wchar :: int where "sizeof_wchar = 4"

section \<open>Construction and release\<close>

text \<open>The mode is an integer for the caller. A buffer that is passed keeps its pointer \<open>data\<close> when
  the size is zero, and a new one has an indeterminate one.\<close>

definition buf_mode_of :: "int \<Rightarrow> (pcl_buf_mode \<times> int) option" where
  "buf_mode_of mode =
     (if mode = 2 then Some (PclBufTextW, sizeof_wchar)
      else if mode = 0 then Some (PclBufBinary, 1)
      else if mode = 1 then Some (PclBufText, 1)
      else None)"

definition buf_setup :: "byte \<Rightarrow> pcl_buf option \<Rightarrow> nat \<Rightarrow> pcl_buf_mode \<Rightarrow> int \<Rightarrow> pcl_buf option" where
  "buf_setup junk bo sz mode chrsize =
     do { data \<leftarrow> (if sz \<noteq> 0
                  then blk_set (Blk (replicate (sz * nat chrsize) junk)) 0 0 chrsize
                  else Some (case bo of Some b \<Rightarrow> bf_data b | None \<Rightarrow> Indet));
          Some \<lparr>bf_mode = mode, bf_chrsize = chrsize, bf_pos = 0, bf_len = 0, bf_size = sz,
                bf_data = data\<rparr> }"

definition pcl_buf_init ::
  "byte \<Rightarrow> pcl_buf option \<Rightarrow> nat \<Rightarrow> int \<Rightarrow> 'z pcl_err_scheme \<Rightarrow>
     (pcl_buf option \<times> 'z pcl_err_scheme) option" where
  "pcl_buf_init junk bo sz mode w =
     (case buf_mode_of mode of
        None \<Rightarrow> Some (R_SETERRMSG None (''buf_init.c'', ''pcl_buf_init'', 53) PCL_EINVAL
                        (''No such mode: '' @ int_dec mode) w)
      | Some (m, chrsize) \<Rightarrow> do { b \<leftarrow> buf_setup junk bo sz m chrsize; Some (Some b, w) })"

definition pcl_buf_clear ::
  "pcl_buf option \<Rightarrow> 'z pcl_err_scheme \<Rightarrow> (pcl_buf option \<times> 'z pcl_err_scheme) option" where
  "pcl_buf_clear bo w =
     (case bo of
        None \<Rightarrow> Some (R_SETERR None (''buf_clear.c'', ''pcl_buf_clear'', 39) PCL_EINVAL w)
      | Some b \<Rightarrow> do { d \<leftarrow> pcl_free_safe (bf_data b);
                      Some (Some (b\<lparr>bf_size := 0, bf_len := 0, bf_pos := 0, bf_data := d\<rparr>), w) })"

definition pcl_buf_free ::
  "pcl_buf option \<Rightarrow> 'z pcl_err_scheme \<Rightarrow> (pcl_buf option \<times> 'z pcl_err_scheme) option" where
  "pcl_buf_free bo w =
     (case bo of
        None \<Rightarrow> Some (None, w)
      | Some b \<Rightarrow> do { (_, w1) \<leftarrow> pcl_buf_clear (Some b) w; Some (None, w1) })"

definition pcl_buf_reset :: "pcl_buf option \<Rightarrow> pcl_buf option option" where
  "pcl_buf_reset bo =
     (case bo of
        None \<Rightarrow> Some None
      | Some b \<Rightarrow>
          do { d \<leftarrow> (case bf_data b of Null \<Rightarrow> Some Null | d \<Rightarrow> blk_set d 0 0 (bf_chrsize b));
               Some (Some (b\<lparr>bf_pos := 0, bf_len := 0, bf_data := d\<rparr>)) })"

section \<open>Growing and copying\<close>

definition pcl_buf_grow ::
  "byte \<Rightarrow> pcl_buf option \<Rightarrow> int \<Rightarrow> 'z pcl_err_scheme \<Rightarrow>
     (pcl_buf option \<times> 'z pcl_err_scheme) option" where
  "pcl_buf_grow junk bo len w =
     (case bo of
        None \<Rightarrow> Some (R_SETERR None (''buf_grow.c'', ''pcl_buf_grow'', 39) PCL_EINVAL w)
      | Some b \<Rightarrow>
          do { avail \<leftarrow> cint (to_int (bf_size b) - bf_pos b);
               if len \<ge> avail
               then do { more \<leftarrow> cint (len - avail);
                         let sz = to_size ((int (bf_size b) + more) * 2);
                         d \<leftarrow> blk_realloc junk (bf_data b) (to_size (int sz * bf_chrsize b));
                         Some (Some (b\<lparr>bf_size := sz, bf_data := d\<rparr>), w) }
               else Some (Some b, w) })"

text \<open>\<open>dest->chrsize\<close> is left as it is when a buffer is passed.\<close>

definition buf_mode_code :: "pcl_buf_mode \<Rightarrow> int" where
  "buf_mode_code m = (case m of PclBufBinary \<Rightarrow> 0 | PclBufText \<Rightarrow> 1 | PclBufTextW \<Rightarrow> 2)"

definition pcl_buf_copy ::
  "byte \<Rightarrow> pcl_buf option \<Rightarrow> pcl_buf option \<Rightarrow> 'z pcl_err_scheme \<Rightarrow>
     (pcl_buf option \<times> 'z pcl_err_scheme) option" where
  "pcl_buf_copy junk desto srco w =
     (case srco of
        None \<Rightarrow> Some (R_SETERR None (''buf_copy.c'', ''pcl_buf_copy'', 40) PCL_EINVAL w)
      | Some src \<Rightarrow>
          do { (ro, w1) \<leftarrow>
                 (case desto of
                    None \<Rightarrow> pcl_buf_init junk None (bf_size src) (buf_mode_code (bf_mode src)) w
                  | Some dest \<Rightarrow>
                      do { d \<leftarrow> blk_realloc junk (bf_data dest)
                                  (to_size (int (bf_size src) * bf_chrsize src));
                           Some (Some (dest\<lparr>bf_data := d, bf_mode := bf_mode src,
                                            bf_size := bf_size src\<rparr>), w) });
               dest \<leftarrow> ro;
               n \<leftarrow> cint (bf_len src + 1);
               sz \<leftarrow> cint (n * bf_chrsize dest);
               bytes \<leftarrow> blk_read (bf_data src) 0 sz;
               d \<leftarrow> blk_write (bf_data dest) 0 bytes;
               Some (Some (dest\<lparr>bf_len := bf_len src, bf_pos := bf_pos src, bf_data := d\<rparr>), w1) })"

section \<open>Putting\<close>

text \<open>The caller's data is a block of its own (\<open>None\<close> for \<open>NULL\<close>).\<close>

definition buf_store :: "pcl_buf \<Rightarrow> byte list option \<Rightarrow> int \<Rightarrow> pcl_buf option" where
  "buf_store b data len =
     do { bytes \<leftarrow> data;
          off \<leftarrow> cint (bf_pos b * bf_chrsize b);
          n \<leftarrow> cint (len * bf_chrsize b);
          src \<leftarrow> blk_read (Blk bytes) 0 n;
          d \<leftarrow> blk_write (bf_data b) off src;
          pos \<leftarrow> cint (bf_pos b + len);
          end_off \<leftarrow> cint (pos * bf_chrsize b);
          d1 \<leftarrow> blk_set d end_off 0 (bf_chrsize b);
          Some (b\<lparr>bf_data := d1, bf_pos := pos, bf_len := max (bf_len b) pos\<rparr>) }"

definition pcl_buf_put ::
  "byte \<Rightarrow> pcl_buf option \<Rightarrow> byte list option \<Rightarrow> int \<Rightarrow> 'z pcl_err_scheme \<Rightarrow>
     (int \<times> pcl_buf option \<times> 'z pcl_err_scheme) option" where
  "pcl_buf_put junk bo data len w =
     (if bo = None \<or> len = 0
      then (let (r, w1) = BADARG (''buf_put.c'', ''pcl_buf_put'', 39) w in Some (r, bo, w1))
      else do { n \<leftarrow> cint (len + 1);
                (bo1, w1) \<leftarrow> pcl_buf_grow junk bo n w;
                b1 \<leftarrow> bo1;
                b2 \<leftarrow> buf_store b1 data len;
                Some (len, Some b2, w1) })"

definition pcl_buf_putchar ::
  "byte \<Rightarrow> pcl_buf option \<Rightarrow> 32 word \<Rightarrow> 'z pcl_err_scheme \<Rightarrow>
     (int \<times> pcl_buf option \<times> 'z pcl_err_scheme) option" where
  "pcl_buf_putchar junk bo c w =
     (case bo of
        Some b \<Rightarrow> pcl_buf_put junk bo (Some (word_bytes c)) 1 w
      | None \<Rightarrow> (let (r, w1) = BADARG (''buf_putchar.c'', ''pcl_buf_putchar'', 39) w
                 in Some (r, bo, w1)))"

text \<open>The integer puts share their guard.\<close>

definition buf_binary :: "pcl_buf option \<Rightarrow> bool" where
  "buf_binary bo = (case bo of None \<Rightarrow> False | Some b \<Rightarrow> bf_mode b = PclBufBinary)"

definition pcl_buf_putint8 ::
  "byte \<Rightarrow> pcl_buf option \<Rightarrow> 8 word \<Rightarrow> 'z pcl_err_scheme \<Rightarrow>
     (int \<times> pcl_buf option \<times> 'z pcl_err_scheme) option" where
  "pcl_buf_putint8 junk bo i w =
     (if buf_binary bo then pcl_buf_put junk bo (Some (word_bytes i)) 1 w
      else (let (r, w1) = BADARG (''buf_putint8.c'', ''pcl_buf_putint8'', 39) w
            in Some (r, bo, w1)))"

definition pcl_buf_putint16 ::
  "byte \<Rightarrow> pcl_buf option \<Rightarrow> 16 word \<Rightarrow> 'z pcl_err_scheme \<Rightarrow>
     (int \<times> pcl_buf option \<times> 'z pcl_err_scheme) option" where
  "pcl_buf_putint16 junk bo i w =
     (if \<not> buf_binary bo
      then (let (r, w1) = BADARG (''buf_putint16.c'', ''pcl_buf_putint16'', 39) w
            in Some (r, bo, w1))
      else pcl_buf_put junk bo (Some (word_bytes (byte_swap i))) 2 w)"

definition pcl_buf_putint32 ::
  "byte \<Rightarrow> pcl_buf option \<Rightarrow> 32 word \<Rightarrow> 'z pcl_err_scheme \<Rightarrow>
     (int \<times> pcl_buf option \<times> 'z pcl_err_scheme) option" where
  "pcl_buf_putint32 junk bo i w =
     (if \<not> buf_binary bo
      then (let (r, w1) = BADARG (''buf_putint32.c'', ''pcl_buf_putint32'', 39) w
            in Some (r, bo, w1))
      else pcl_buf_put junk bo (Some (word_bytes (byte_swap i))) 4 w)"

text \<open>\<open>htonll\<close> is a function of the platform's library (Darwin and Windows have it; on Linux the
  source defines \<open>htonl\<close> where it means \<open>htonll\<close>, so the name stays undeclared): a parameter.\<close>

definition pcl_buf_putint64 ::
  "(64 word \<Rightarrow> 64 word) \<Rightarrow> byte \<Rightarrow> pcl_buf option \<Rightarrow> 64 word \<Rightarrow> 'z pcl_err_scheme \<Rightarrow>
     (int \<times> pcl_buf option \<times> 'z pcl_err_scheme) option" where
  "pcl_buf_putint64 htonll junk bo i w =
     (if \<not> buf_binary bo
      then (let (r, w1) = BADARG (''buf_putint64.c'', ''pcl_buf_putint64'', 44) w
            in Some (r, bo, w1))
      else pcl_buf_put junk bo (Some (word_bytes (htonll i))) 8 w)"

text \<open>\<open>wcslen\<close> of the bytes of a wide string.\<close>

fun c_wcslen :: "byte list \<Rightarrow> nat option" where
  "c_wcslen (a # b # c # d # bs) =
     (if a = 0 \<and> b = 0 \<and> c = 0 \<and> d = 0 then Some 0 else map_option Suc (c_wcslen bs))"
| "c_wcslen _ = None"

definition pcl_buf_putstr ::
  "byte \<Rightarrow> pcl_buf option \<Rightarrow> byte list option \<Rightarrow> 'z pcl_err_scheme \<Rightarrow>
     (int \<times> pcl_buf option \<times> 'z pcl_err_scheme) option" where
  "pcl_buf_putstr junk bo so w =
     (case (bo, so) of
        (Some b, Some s) \<Rightarrow>
          do { n \<leftarrow> (if bf_chrsize b = 1 then c_strlen s else c_wcslen s);
               let len = to_int n;
               len1 \<leftarrow> (if bf_mode b = PclBufBinary then cint (len + 1) else Some len);
               pcl_buf_put junk bo so len1 w }
      | _ \<Rightarrow> (let (r, w1) = BADARG (''buf_putstr.c'', ''pcl_buf_putstr'', 49) w
              in Some (r, bo, w1)))"

section \<open>Formatted text\<close>

text \<open>The text that \<open>vsnprintf\<close> or \<open>vswprintf\<close> make of the format and the arguments is a parameter:
  the characters, or the PCL error of a bad format. \<open>vxprintf\<close> without a block answers the
  length; with one of \<open>size\<close> characters it writes the text and a NUL, and answers an error when the text
  does not fit (for a wide block of size zero the error is that of an \<open>errno\<close> of zero).\<close>

type_synonym formatted = "int + byte list list"

definition vxprintf_len :: "formatted \<Rightarrow> int" where
  "vxprintf_len t = (case t of Inl e \<Rightarrow> - e | Inr cs \<Rightarrow> to_int (length cs))"

definition vxprintf_write :: "bptr \<Rightarrow> int \<Rightarrow> int \<Rightarrow> int \<Rightarrow> formatted \<Rightarrow> (int \<times> bptr) option" where
  "vxprintf_write d off sz chrsize t =
     (case t of
        Inl e \<Rightarrow> Some (- e, d)
      | Inr cs \<Rightarrow>
          if sz < 0 then None
          else if sz = 0 then Some (if chrsize = 1 then - PCL_EBUF else - PCL_EINVAL, d)
          else do { let k = min (length cs) (nat sz - 1);
                    d1 \<leftarrow> blk_write d off (concat (take k cs) @ replicate (nat chrsize) 0);
                    Some (if int (length cs) \<ge> sz then - PCL_EBUF else to_int (length cs), d1) })"

definition pcl_buf_vputf ::
  "byte \<Rightarrow> pcl_buf option \<Rightarrow> formatted \<Rightarrow> 'z pcl_err_scheme \<Rightarrow>
     (int \<times> pcl_buf option \<times> 'z pcl_err_scheme) option" where
  "pcl_buf_vputf junk bo text w =
     do { b \<leftarrow> bo;
          let len = vxprintf_len text;
          if len < 0
          then (let (r, w1) = SETERR (''buf_vputf.c'', ''pcl_buf_vputf'', 48) (- len) w
                in Some (r, bo, w1))
          else do { want \<leftarrow> (if bf_mode b = PclBufBinary then cint (len + 1) else Some len);
                    (bo1, w1) \<leftarrow> pcl_buf_grow junk bo want w;
                    b1 \<leftarrow> bo1;
                    (n, d) \<leftarrow> vxprintf_write (bf_data b1) (bf_pos b1 * bf_chrsize b1)
                               (int (bf_size b1) - bf_pos b1) (bf_chrsize b1) text;
                    let k = (if bf_mode b = PclBufBinary then 1 else 0);
                    pos \<leftarrow> cint (bf_pos b1 + n + k);
                    end_off \<leftarrow> cint (pos * bf_chrsize b1);
                    d1 \<leftarrow> blk_set d end_off 0 (bf_chrsize b1);
                    Some (n + k, Some (b1\<lparr>bf_data := d1, bf_pos := pos,
                                          bf_len := max (bf_len b1) pos\<rparr>), w1) } }"

section \<open>Getting\<close>

text \<open>The destination is a block of the caller, returned with what was copied into it.\<close>

definition pcl_buf_get ::
  "pcl_buf option \<Rightarrow> byte list option \<Rightarrow> int \<Rightarrow> 'z pcl_err_scheme \<Rightarrow>
     (int \<times> byte list option \<times> pcl_buf option \<times> 'z pcl_err_scheme) option" where
  "pcl_buf_get bo dst len w =
     (case (bo, dst) of
        (Some b, Some out) \<Rightarrow>
          if bf_mode b \<noteq> PclBufBinary
          then (let (r, w1) = SETERR (''buf_get.c'', ''pcl_buf_get'', 39) PCL_EINVAL w
                in Some (r, dst, bo, w1))
          else do { left \<leftarrow> cint (bf_len b - bf_pos b);
                    if len > left
                    then (let (r, w1) = SETERR (''buf_get.c'', ''pcl_buf_get'', 43) PCL_EOF w
                          in Some (r, dst, bo, w1))
                    else do { off \<leftarrow> cint (bf_pos b * bf_chrsize b);
                              n \<leftarrow> cint (len * bf_chrsize b);
                              bytes \<leftarrow> blk_read (bf_data b) off n;
                              out1 \<leftarrow> mem_copy out 0 bytes;
                              pos \<leftarrow> cint (bf_pos b + len);
                              Some (len, Some out1, Some (b\<lparr>bf_pos := pos\<rparr>), w) } }
      | _ \<Rightarrow> (let (r, w1) = SETERR (''buf_get.c'', ''pcl_buf_get'', 39) PCL_EINVAL w
              in Some (r, dst, bo, w1)))"

text \<open>\<open>*c\<close> is a 32-bit integer of which one byte is written.\<close>

definition pcl_buf_getchar ::
  "pcl_buf option \<Rightarrow> 32 word option \<Rightarrow> 'z pcl_err_scheme \<Rightarrow>
     (int \<times> 32 word option \<times> pcl_buf option \<times> 'z pcl_err_scheme) option" where
  "pcl_buf_getchar bo c w =
     do { (r, out, bo1, w1) \<leftarrow> pcl_buf_get bo (map_option word_bytes c) 1 w;
          Some (r, map_option bytes_word out, bo1, w1) }"

definition pcl_buf_getint8 ::
  "pcl_buf option \<Rightarrow> 8 word option \<Rightarrow> 'z pcl_err_scheme \<Rightarrow>
     (int \<times> 8 word option \<times> pcl_buf option \<times> 'z pcl_err_scheme) option" where
  "pcl_buf_getint8 bo i w =
     (if buf_binary bo
      then do { (r, out, bo1, w1) \<leftarrow> pcl_buf_get bo (map_option word_bytes i) 1 w;
                Some (r, map_option bytes_word out, bo1, w1) }
      else (let (r, w1) = BADARG (''buf_getint8.c'', ''pcl_buf_getint8'', 39) w
            in Some (r, i, bo, w1)))"

text \<open>The three larger gets have one body: the guard, the get, a trace when it failed, and
  the swap of the caller's integer.\<close>

definition buf_getint ::
  "loc \<Rightarrow> loc \<Rightarrow> int \<Rightarrow> pcl_buf option \<Rightarrow> 'a::len word option \<Rightarrow> 'z pcl_err_scheme \<Rightarrow>
     (int \<times> 'a word option \<times> pcl_buf option \<times> 'z pcl_err_scheme) option" where
  "buf_getint l_arg l_trc sz bo i w =
     (if \<not> buf_binary bo
      then (let (r, w1) = BADARG l_arg w in Some (r, i, bo, w1))
      else do { (r, out, bo1, w1) \<leftarrow> pcl_buf_get bo (map_option word_bytes i) sz w;
                if r < 0
                then (let (r1, w2) = TRC l_trc w1 in Some (r1, map_option bytes_word out, bo1, w2))
                else do { bytes \<leftarrow> out;
                          Some (sz, Some (byte_swap (bytes_word bytes)), bo1, w1) } })"

definition pcl_buf_getint16 ::
  "pcl_buf option \<Rightarrow> 16 word option \<Rightarrow> 'z pcl_err_scheme \<Rightarrow>
     (int \<times> 16 word option \<times> pcl_buf option \<times> 'z pcl_err_scheme) option" where
  "pcl_buf_getint16 = buf_getint (''buf_getint16.c'', ''pcl_buf_getint16'', 39)
     (''buf_getint16.c'', ''pcl_buf_getint16'', 44) 2"

definition pcl_buf_getint32 ::
  "pcl_buf option \<Rightarrow> 32 word option \<Rightarrow> 'z pcl_err_scheme \<Rightarrow>
     (int \<times> 32 word option \<times> pcl_buf option \<times> 'z pcl_err_scheme) option" where
  "pcl_buf_getint32 = buf_getint (''buf_getint32.c'', ''pcl_buf_getint32'', 39)
     (''buf_getint32.c'', ''pcl_buf_getint32'', 44) 4"

definition pcl_buf_getint64 ::
  "pcl_buf option \<Rightarrow> 64 word option \<Rightarrow> 'z pcl_err_scheme \<Rightarrow>
     (int \<times> 64 word option \<times> pcl_buf option \<times> 'z pcl_err_scheme) option" where
  "pcl_buf_getint64 = buf_getint (''buf_getint64.c'', ''pcl_buf_getint64'', 44)
     (''buf_getint64.c'', ''pcl_buf_getint64'', 49) 8"

text \<open>\<open>strlen(b->data + b->pos)\<close> reads from the position on, to the NUL behind the content.\<close>

definition pcl_buf_getstr ::
  "pcl_buf option \<Rightarrow> byte list option \<Rightarrow> int \<Rightarrow> 'z pcl_err_scheme \<Rightarrow>
     (int \<times> byte list option \<times> pcl_buf option \<times> 'z pcl_err_scheme) option" where
  "pcl_buf_getstr bo dst len w =
     (case bo of
        Some b \<Rightarrow>
          if bf_mode b \<noteq> PclBufBinary
          then (let (r, w1) = BADARG (''buf_getstr.c'', ''pcl_buf_getstr'', 39) w
                in Some (r, dst, bo, w1))
          else do { bs \<leftarrow> (case bf_data b of Blk bs \<Rightarrow> Some bs | _ \<Rightarrow> None);
                    k \<leftarrow> (if 0 \<le> bf_pos b then c_strlen (drop (nat (bf_pos b)) bs) else None);
                    let n = to_int (k + 1);
                    if n > len
                    then (let (r, w1) = SETERR (''buf_getstr.c'', ''pcl_buf_getstr'', 44) PCL_EBUF w
                          in Some (r, dst, bo, w1))
                    else pcl_buf_get bo dst n w }
      | None \<Rightarrow> (let (r, w1) = BADARG (''buf_getstr.c'', ''pcl_buf_getstr'', 39) w
                 in Some (r, dst, bo, w1)))"

end
