(* ===== verification/PclBufOk.thy ===== *)
theory PclBufOk imports PclBuf begin

text \<open>
  Correctness of the buffer: the invariant every operation keeps (position within the content,
  content within the block, a NUL character behind it), what a put at any position does to the
  content, growth, getting back what was put, and the cases in which the code leaves the block.
\<close>

section \<open>Invariant and abstraction\<close>

definition mode_chrsize :: "pcl_buf_mode \<Rightarrow> int" where
  "mode_chrsize m = (if m = PclBufTextW then 4 else 1)"

definition bf_wf :: "pcl_buf \<Rightarrow> bool" where
  "bf_wf b \<longleftrightarrow> 0 \<le> bf_pos b \<and> bf_pos b \<le> bf_len b \<and> bf_chrsize b = mode_chrsize (bf_mode b)
     \<and> int (bf_size b) * bf_chrsize b \<le> INT_MAX
     \<and> (case bf_data b of
          Indet \<Rightarrow> False
        | Null \<Rightarrow> bf_size b = 0 \<and> bf_len b = 0
        | Blk bs \<Rightarrow> length bs = bf_size b * nat (bf_chrsize b) \<and> bf_len b < int (bf_size b)
            \<and> take (nat (bf_chrsize b)) (drop (nat (bf_len b * bf_chrsize b)) bs)
                = replicate (nat (bf_chrsize b)) 0)"

definition bf_content :: "pcl_buf \<Rightarrow> byte list" where
  "bf_content b = (case bf_data b of Blk bs \<Rightarrow> take (nat (bf_len b * bf_chrsize b)) bs | _ \<Rightarrow> [])"

text \<open>Room for \<open>n\<close> more characters: what growing may ask for fits an \<open>int\<close>.\<close>

definition bf_room :: "pcl_buf \<Rightarrow> nat \<Rightarrow> bool" where
  "bf_room b n \<longleftrightarrow> 2 * (bf_size b + n + 1) * nat (bf_chrsize b) \<le> nat INT_MAX"

text \<open>The shape of a block: content, NUL, slack.\<close>

definition bf_shape :: "pcl_buf \<Rightarrow> nat \<Rightarrow> nat \<Rightarrow> nat \<Rightarrow> byte list \<Rightarrow> byte list \<Rightarrow> bool" where
  "bf_shape b p l c cont r \<longleftrightarrow>
     bf_pos b = int p \<and> bf_len b = int l \<and> bf_chrsize b = int c \<and> p \<le> l \<and> l < bf_size b
     \<and> mode_chrsize (bf_mode b) = int c \<and> bf_size b * c \<le> nat INT_MAX
     \<and> bf_data b = Blk (cont @ replicate c 0 @ r) \<and> length cont = l * c
     \<and> length cont + c + length r = bf_size b * c"

lemma chrsize_pos: "0 < mode_chrsize m" "mode_chrsize m \<le> 4"
  by (auto simp: mode_chrsize_def)

lemma split3: "xs = take n xs @ take c (drop n xs) @ drop (n + c) xs"
proof -
  have "take c (drop n xs) @ drop (n + c) xs = drop n xs"
    using append_take_drop_id [of c "drop n xs"] by (simp add: add.commute)
  then show ?thesis by simp
qed

lemma bf_wf_shape:
  assumes "bf_wf b" "bf_data b = Blk bs"
  obtains p l c r where "bf_shape b p l c (bf_content b) r" "bs = bf_content b @ replicate c 0 @ r"
    "0 < c"
proof -
  define p l c where "p = nat (bf_pos b)" and "l = nat (bf_len b)" and "c = nat (bf_chrsize b)"
  have c0: "0 < bf_chrsize b"
    using assms chrsize_pos by (simp add: bf_wf_def)
  have i: "bf_pos b = int p" "bf_len b = int l" "bf_chrsize b = int c" "p \<le> l" "0 < c"
    using assms(1) c0 by (auto simp: bf_wf_def p_def l_def c_def)
  have bs: "length bs = bf_size b * c" "l < bf_size b"
    "take c (drop (l * c) bs) = replicate c 0"
    using assms i by (auto simp: bf_wf_def simp flip: of_nat_mult)
  have "Suc l * c \<le> bf_size b * c" using bs(2) by (intro mult_le_mono1) simp
  then have le: "l * c + c \<le> length bs" using bs(1) by simp
  define r where "r = drop (l * c + c) bs"
  have ct: "bf_content b = take (l * c) bs"
    using i assms(2) by (simp add: bf_content_def flip: of_nat_mult)
  have "bs = take (l * c) bs @ take c (drop (l * c) bs) @ r"
    unfolding r_def by (rule split3)
  with bs(3) ct have sp: "bs = bf_content b @ replicate c 0 @ r" by simp
  have "bf_size b * c \<le> nat INT_MAX"
    using assms(1) i by (simp add: bf_wf_def INT_MAX_def flip: of_nat_mult)
  moreover have "mode_chrsize (bf_mode b) = int c" using assms(1) i by (simp add: bf_wf_def)
  moreover have "length (bf_content b) + c + length r = bf_size b * c"
    using le bs(1) ct by (simp add: r_def)
  moreover have "length (bf_content b) = l * c" using le ct by simp
  moreover have "bf_data b = Blk (bf_content b @ replicate c 0 @ r)"
    by (simp only: assms(2) flip: sp)
  ultimately have "bf_shape b p l c (bf_content b) r"
    using i bs(2) by (simp add: bf_shape_def)
  with sp i(5) show ?thesis by (intro that [of p l c r]) auto
qed

lemma bf_shape_wf:
  assumes "bf_shape b p l c cont r"
  shows "bf_wf b" "bf_content b = cont"
proof -
  have i: "bf_pos b = int p" "bf_len b = int l" "bf_chrsize b = int c" "p \<le> l" "l < bf_size b"
    "mode_chrsize (bf_mode b) = int c" "bf_size b * c \<le> nat INT_MAX"
    "bf_data b = Blk (cont @ replicate c 0 @ r)" "length cont = l * c"
    "length cont + c + length r = bf_size b * c"
    using assms by (auto simp: bf_shape_def)
  show "bf_content b = cont"
    using i by (simp add: bf_content_def flip: of_nat_mult)
  have "int (bf_size b * c) \<le> INT_MAX" using i(7) by (simp add: INT_MAX_def del: of_nat_mult)
  then show "bf_wf b"
    using i by (simp add: bf_wf_def flip: of_nat_mult)
qed

section \<open>Blocks\<close>

lemma blk_read_mid:
  "length xs = a \<Longrightarrow> length ys = n \<Longrightarrow> blk_read (Blk (xs @ ys @ zs)) (int a) (int n) = Some ys"
  by (simp add: blk_read_def mem_read_def)

lemma blk_read_prefix: "n \<le> length xs \<Longrightarrow> blk_read (Blk xs) 0 (int n) = Some (take n xs)"
  by (simp add: blk_read_def mem_read_def)

lemma blk_write_at:
  "a + length ys \<le> length bs \<Longrightarrow>
     blk_write (Blk bs) (int a) ys = Some (Blk (take a bs @ ys @ drop (a + length ys) bs))"
  by (simp add: blk_write_def mem_copy_def)

lemma blk_set_at:
  "a + n \<le> length bs \<Longrightarrow>
     blk_set (Blk bs) (int a) v (int n) = Some (Blk (take a bs @ replicate n v @ drop (a + n) bs))"
  by (simp add: blk_set_def mem_set_def nat_int_add flip: of_nat_add)

text \<open>Writing bytes and a NUL behind them.\<close>

lemma write_nul:
  assumes "a + length d + c \<le> length bs"
  defines "X \<equiv> take a bs @ d @ drop (a + length d) bs"
  shows "blk_write (Blk bs) (int a) d = Some (Blk X)"
    and "blk_set (Blk X) (int (a + length d)) 0 (int c)
      = Some (Blk (take a bs @ d @ replicate c 0 @ drop (a + length d + c) bs))"
proof -
  show "blk_write (Blk bs) (int a) d = Some (Blk X)"
    using assms(1) by (simp add: blk_write_at X_def)
  have "length X = length bs" using assms by (simp add: X_def)
  moreover have "take (a + length d) X = take a bs @ d" using assms by (simp add: X_def)
  moreover have "drop (a + length d + c) X = drop (a + length d + c) bs"
    using assms by (simp add: X_def add.commute)
  ultimately show "blk_set (Blk X) (int (a + length d)) 0 (int c)
      = Some (Blk (take a bs @ d @ replicate c 0 @ drop (a + length d + c) bs))"
    using blk_set_at [of "a + length d" c X 0] assms(1) by simp
qed

text \<open>What a put of \<open>d\<close> at the byte offset \<open>a\<close> makes of the content: the new bytes, and, where the
  put ends inside the content, a NUL over the character behind it.\<close>

definition put_content :: "nat \<Rightarrow> byte list \<Rightarrow> nat \<Rightarrow> byte list \<Rightarrow> byte list" where
  "put_content c cont a d =
     take a cont @ d @ (if a + length d < length cont
                        then replicate c 0 @ drop (a + length d + c) cont else [])"

lemma put_lists:
  fixes cont d :: "byte list"
  assumes "a \<le> length cont" "length cont \<le> a + length d \<or> a + length d + c \<le> length cont"
    "0 < c" "a + length d + c \<le> length bs" "take (length cont) bs = cont"
    "cont = [] \<or> take (length cont + c) bs = cont @ replicate c 0"
  obtains r' where
    "take a bs @ d @ replicate c 0 @ drop (a + length d + c) bs
       = put_content c cont a d @ replicate c 0 @ r'"
    "length (put_content c cont a d) = max (length cont) (a + length d)"
proof -
  have ta: "take a bs = take a cont"
    using arg_cong [OF assms(5), of "take a"] assms(1) by (simp add: min_def)
  show ?thesis
  proof (cases "a + length d < length cont")
    case True
    then have le: "a + length d + c \<le> length cont" using assms(2) by simp
    have "bs = cont @ replicate c 0 @ drop (length cont + c) bs"
    proof -
      have "take (length cont + c) bs = cont @ replicate c 0" using assms(6) True by auto
      then show ?thesis
        by (metis append_take_drop_id append.assoc)
    qed
    then have "drop (a + length d + c) bs
        = drop (a + length d + c) cont @ replicate c 0 @ drop (length cont + c) bs"
      using le by (metis drop_append diff_is_0_eq drop0)
    then show ?thesis
      using ta True le
      by (intro that [of "drop (length cont + c) bs"]) (auto simp: put_content_def min_def)
  next
    case False
    then show ?thesis
      using ta assms(1)
      by (intro that [of "drop (a + length d + c) bs"]) (auto simp: put_content_def min_def)
  qed
qed

section \<open>Growing\<close>

text \<open>The numbers of a well-formed buffer as natural numbers.\<close>

lemma bf_wf_nats:
  assumes "bf_wf b"
  obtains p l c where "bf_pos b = int p" "bf_len b = int l" "bf_chrsize b = int c" "p \<le> l" "0 < c"
    "l \<le> bf_size b" "bf_size b * c \<le> nat INT_MAX" "mode_chrsize (bf_mode b) = int c"
proof -
  have c0: "0 < bf_chrsize b"
    using assms chrsize_pos by (simp add: bf_wf_def)
  have "int (bf_size b) * bf_chrsize b \<le> INT_MAX" using assms unfolding bf_wf_def by blast
  then have "bf_size b * nat (bf_chrsize b) \<le> nat INT_MAX"
  proof -
    assume le: "int (bf_size b) * bf_chrsize b \<le> INT_MAX"
    obtain k where k: "bf_chrsize b = int k" using c0 by (metis zero_less_imp_eq_int)
    with le have "int (bf_size b * k) \<le> INT_MAX" by simp
    then have "bf_size b * k \<le> nat INT_MAX" by (simp add: INT_MAX_def del: of_nat_mult)
    with k show ?thesis by simp
  qed
  moreover have "bf_len b \<le> int (bf_size b)"
    using assms by (auto simp: bf_wf_def split: bptr.splits)
  ultimately show ?thesis
    using assms c0
    by (intro that [of "nat (bf_pos b)" "nat (bf_len b)" "nat (bf_chrsize b)"])
      (auto simp: bf_wf_def)
qed

lemma le_mult_pos: "0 < (c :: nat) \<Longrightarrow> n \<le> n * c"
  by simp

lemma grow_ok:
  assumes wf: "bf_wf b" and n: "0 < n \<or> bf_data b \<noteq> Null" and room: "bf_room b n"
  obtains s bs where
    "pcl_buf_grow junk (Some b) (int n) w = Some (Some (b\<lparr>bf_size := s, bf_data := Blk bs\<rparr>), w)"
    "length bs = s * nat (bf_chrsize b)" "nat (bf_pos b) + n < s" "bf_size b \<le> s"
    "s \<le> max (bf_size b) (2 * (nat (bf_pos b) + n))" "take (length (bf_content b)) bs = bf_content b"
    "bf_content b = [] \<or> take (length (bf_content b) + nat (bf_chrsize b)) bs
       = bf_content b @ replicate (nat (bf_chrsize b)) 0"
proof -
  obtain p l c where i: "bf_pos b = int p" "bf_len b = int l" "bf_chrsize b = int c" "p \<le> l"
    "0 < c" "l \<le> bf_size b" "bf_size b * c \<le> nat INT_MAX" "mode_chrsize (bf_mode b) = int c"
    using wf by (rule bf_wf_nats)
  have rm: "2 * (bf_size b + n + 1) * c \<le> nat INT_MAX" using room i by (simp add: bf_room_def)
  then have big: "2 * (bf_size b + n + 1) \<le> nat INT_MAX"
    using le_mult_pos [OF i(5), of "2 * (bf_size b + n + 1)"] by linarith
  then have big': "2 * (int (bf_size b) + int n + 1) \<le> INT_MAX" by (simp add: INT_MAX_def)
  have av: "cint (to_int (bf_size b) - bf_pos b) = Some (int (bf_size b) - int p)"
    using big' i by (simp add: cint_def INT_MIN_def INT_MAX_def)
  show ?thesis
  proof (cases "int n \<ge> int (bf_size b) - int p")
    case False
    then obtain bs where bs: "bf_data b = Blk bs"
      using wf i by (cases "bf_data b") (auto simp: bf_wf_def)
    obtain p' l' c' r where sh: "bf_shape b p' l' c' (bf_content b) r"
      "bs = bf_content b @ replicate c' 0 @ r"
      by (rule bf_wf_shape [OF wf bs])
    have "pcl_buf_grow junk (Some b) (int n) w
        = Some (Some (b\<lparr>bf_size := bf_size b, bf_data := Blk bs\<rparr>), w)"
      using False av bs by (simp add: pcl_buf_grow_def)
    moreover have "nat (bf_chrsize b) = c'" "length bs = bf_size b * c'"
      using sh by (auto simp: bf_shape_def)
    ultimately show ?thesis
      using False i sh(2) by (intro that [where s = "bf_size b" and bs = bs]) auto
  next
    case True
    define s where "s = 2 * (p + n)"
    have s: "s \<le> 2 * (bf_size b + n)" "bf_size b \<le> s"
      using i True by (auto simp: s_def)
    have sc: "s * c \<le> nat INT_MAX"
      using rm mult_le_mono1 [OF s(1), of c] by (simp add: algebra_simps)
    have pn: "p + n < s"
      using n True i wf by (auto simp: s_def bf_wf_def split: bptr.splits)
    have sz: "to_size ((int (bf_size b) + (int n - (int (bf_size b) - int p))) * 2) = s"
      using big' s by (simp add: s_def)
    have "int s * int c \<le> INT_MAX" using sc by (simp add: INT_MAX_def del: of_nat_mult flip: of_nat_mult)
    then have sc': "to_size (int s * bf_chrsize b) = s * c"
      using i(3) by (simp add: nat_mult_distrib)
    have mo: "cint (int n - (int (bf_size b) - int p)) = Some (int n - (int (bf_size b) - int p))"
      using big' i True by (simp add: cint_def INT_MIN_def INT_MAX_def)
    have scp: "0 < s * c" using pn i(5) by simp
    have "\<exists>bs. blk_realloc junk (bf_data b) (s * c) = Some (Blk bs) \<and> length bs = s * c
        \<and> take (length (bf_content b)) bs = bf_content b
        \<and> (bf_content b = [] \<or>
            take (length (bf_content b) + c) bs = bf_content b @ replicate c 0)"
    proof (cases "bf_data b")
      case (Blk bs)
      obtain p' l' c' r where sh: "bf_shape b p' l' c' (bf_content b) r"
        "bs = bf_content b @ replicate c' 0 @ r"
        by (rule bf_wf_shape [OF wf Blk])
      have "c' = c" using sh(1) i(3) by (auto simp: bf_shape_def)
      have "length bs = bf_size b * c" using sh i(3) by (auto simp: bf_shape_def)
      then have "length bs \<le> s * c" using s(2) by simp
      then show ?thesis
        using Blk scp sh(2) \<open>c' = c\<close>
        by (simp add: blk_realloc_def pcl_realloc_def)
    next
      case Null
      then show ?thesis by (simp add: blk_realloc_def bf_content_def)
    next
      case Indet
      then show ?thesis using wf by (simp add: bf_wf_def)
    qed
    then obtain bs where bs: "blk_realloc junk (bf_data b) (s * c) = Some (Blk bs)"
      "length bs = s * c" "take (length (bf_content b)) bs = bf_content b"
      "bf_content b = [] \<or> take (length (bf_content b) + c) bs = bf_content b @ replicate c 0"
      by blast
    have "pcl_buf_grow junk (Some b) (int n) w
        = Some (Some (b\<lparr>bf_size := s, bf_data := Blk bs\<rparr>), w)"
      using True av mo sz sc' bs(1) by (simp add: pcl_buf_grow_def Let_def)
    moreover have "s \<le> max (bf_size b) (2 * (nat (bf_pos b) + n))" by (simp add: s_def i(1))
    ultimately show ?thesis using bs s(2) pn i by (intro that [where s = s and bs = bs]) auto
  qed
qed

section \<open>Putting\<close>

lemma length_bf_content:
  assumes "bf_wf b" shows "length (bf_content b) = nat (bf_len b) * nat (bf_chrsize b)"
proof (cases "bf_data b")
  case (Blk bs)
  obtain p l c r where "bf_shape b p l c (bf_content b) r" by (rule bf_wf_shape [OF assms Blk])
  then show ?thesis by (auto simp: bf_shape_def)
qed (use assms in \<open>auto simp: bf_wf_def bf_content_def\<close>)

text \<open>The common end of every put: \<open>d\<close> (\<open>n\<close> characters) at the position of a block with room for it and
  a NUL, the NUL behind it, and the new position and length.\<close>

lemma store_end:
  assumes wf: "bf_wf b" and s: "length bs = s * nat (bf_chrsize b)" "nat (bf_pos b) + n < s"
    "bf_size b \<le> s" "int (s * nat (bf_chrsize b)) \<le> INT_MAX"
    and pre: "take (length (bf_content b)) bs = bf_content b"
    "bf_content b = [] \<or> take (length (bf_content b) + nat (bf_chrsize b)) bs
       = bf_content b @ replicate (nat (bf_chrsize b)) 0"
    and d: "length d = n * nat (bf_chrsize b)"
  defines "c \<equiv> nat (bf_chrsize b)" and "p \<equiv> nat (bf_pos b)"
  defines "fin \<equiv> take (p * c) bs @ d @ replicate c 0 @ drop ((p + n + 1) * c) bs"
  defines "b' \<equiv> b\<lparr>bf_size := s, bf_data := Blk fin, bf_pos := int (p + n),
                   bf_len := max (bf_len b) (int (p + n))\<rparr>"
  shows "bf_wf b'" "bf_content b' = put_content c (bf_content b) (p * c) d"
proof -
  obtain l where i: "bf_pos b = int p" "bf_len b = int l" "bf_chrsize b = int c" "p \<le> l"
    "0 < c" "l \<le> bf_size b" "mode_chrsize (bf_mode b) = int c"
    using bf_wf_nats [OF wf] unfolding c_def p_def by (metis nat_int)
  note s = s [folded c_def p_def] and pre = pre [folded c_def] and d = d [folded c_def]
  have lc: "length (bf_content b) = l * c" using length_bf_content [OF wf] i by simp
  have ls: "l < s"
  proof (cases "bf_data b")
    case (Blk bs0)
    then show ?thesis using wf s(3) i by (auto simp: bf_wf_def)
  next
    case Null
    then show ?thesis using wf s(2) i by (auto simp: bf_wf_def)
  qed (use wf in \<open>simp add: bf_wf_def\<close>)
  have le: "l * c \<le> p * c + length d \<or> p * c + length d + c \<le> l * c"
  proof (cases "l \<le> p + n")
    case True
    then have "l * c \<le> (p + n) * c" by (rule mult_le_mono1)
    then show ?thesis by (simp add: d add_mult_distrib)
  next
    case False
    then have "Suc (p + n) * c \<le> l * c" by (intro mult_le_mono1) simp
    then show ?thesis by (simp add: d add_mult_distrib)
  qed
  have "Suc (p + n) * c \<le> s * c" using s(2) by (intro mult_le_mono1) simp
  then have room: "p * c + length d + c \<le> length bs"
    by (simp add: d s(1) add_mult_distrib)
  have pl: "p * c \<le> length (bf_content b)" using i(4) lc by simp
  have fin: "fin = take (p * c) bs @ d @ replicate c 0 @ drop (p * c + length d + c) bs"
    by (simp add: fin_def d add_mult_distrib add.commute add.left_commute)
  obtain r' where r: "fin = put_content c (bf_content b) (p * c) d @ replicate c 0 @ r'"
    "length (put_content c (bf_content b) (p * c) d) = max (length (bf_content b)) (p * c + length d)"
    unfolding fin by (rule put_lists [OF pl _ i(5) room pre]) (use le lc in auto)
  have mx: "max (length (bf_content b)) (p * c + length d) = max l (p + n) * c"
    by (simp add: lc d nat_mult_max_left add_mult_distrib)
  have "length fin = length bs" using room by (simp add: fin)
  then have "length (put_content c (bf_content b) (p * c) d) + c + length r' = s * c"
    by (simp add: r(1) s(1))
  moreover have "s * c \<le> nat INT_MAX" using s(4) by (simp add: INT_MAX_def del: of_nat_mult)
  ultimately have "bf_shape b' (p + n) (max l (p + n)) c (put_content c (bf_content b) (p * c) d) r'"
    using i r mx ls s(2) by (auto simp: bf_shape_def b'_def)
  then show "bf_wf b'" "bf_content b' = put_content c (bf_content b) (p * c) d"
    by (auto dest: bf_shape_wf)
qed

lemma put_ok:
  assumes wf: "bf_wf b" and n: "0 < n" and room: "bf_room b (n + 1)"
    and data: "n * nat (bf_chrsize b) \<le> length data"
  obtains b' where "pcl_buf_put junk (Some b) (Some data) (int n) w = Some (int n, Some b', w)"
    "bf_wf b'" "bf_mode b' = bf_mode b" "bf_pos b' = bf_pos b + int n"
    "bf_len b' = max (bf_len b) (bf_pos b + int n)" "bf_size b' \<le> max (bf_size b) (2 * (nat (bf_pos b) + n + 1))" "bf_chrsize b' = bf_chrsize b"
    "bf_data b' \<noteq> Null"
    "bf_content b' = put_content (nat (bf_chrsize b)) (bf_content b)
       (nat (bf_pos b) * nat (bf_chrsize b)) (take (n * nat (bf_chrsize b)) data)"
proof -
  obtain p l c where i: "bf_pos b = int p" "bf_len b = int l" "bf_chrsize b = int c" "p \<le> l"
    "0 < c" "l \<le> bf_size b" "bf_size b * c \<le> nat INT_MAX" "mode_chrsize (bf_mode b) = int c"
    using wf by (rule bf_wf_nats)
  obtain s bs where g:
    "pcl_buf_grow junk (Some b) (int (n + 1)) w = Some (Some (b\<lparr>bf_size := s, bf_data := Blk bs\<rparr>), w)"
    "length bs = s * nat (bf_chrsize b)" "nat (bf_pos b) + (n + 1) < s" "bf_size b \<le> s"
    "s \<le> max (bf_size b) (2 * (nat (bf_pos b) + (n + 1)))" "take (length (bf_content b)) bs = bf_content b"
    "bf_content b = [] \<or> take (length (bf_content b) + nat (bf_chrsize b)) bs
       = bf_content b @ replicate (nat (bf_chrsize b)) 0"
    by (rule grow_ok [OF wf _ room]) simp
  define d where "d = take (n * c) data"
  have d: "length d = n * c" using data i by (simp add: d_def)
  have sc: "int (s * c) \<le> INT_MAX"
  proof -
    have "s \<le> 2 * (bf_size b + (n + 1))" using g(5) i by simp
    then have "s * c \<le> 2 * (bf_size b + (n + 1)) * c" by (rule mult_le_mono1)
    also have "\<dots> \<le> nat INT_MAX" using room i by (simp add: bf_room_def algebra_simps)
    finally show ?thesis by (simp add: INT_MAX_def del: of_nat_mult)
  qed
  have lt: "(p + n + 1) * c \<le> s * c" using g(3) i by (intro mult_le_mono1) simp
  have "s \<le> s * c" using i(5) by simp
  then have nb: "int s \<le> INT_MAX" using sc by linarith
  define fin where "fin = take (p * c) bs @ d @ replicate c 0 @ drop ((p + n + 1) * c) bs"
  define b' where "b' = b\<lparr>bf_size := s, bf_data := Blk fin, bf_pos := int (p + n),
                   bf_len := max (bf_len b) (int (p + n))\<rparr>"
  have ci: "cint (int k) = Some (int k)" if "k \<le> s * c" for k
  proof -
    have "int k \<le> int (s * c)" using that by (simp del: of_nat_mult)
    with sc have "int k \<le> INT_MAX" by linarith
    then show ?thesis by (simp add: cint_def INT_MIN_def)
  qed
  have lb: "length bs = s * c" using g(2) i by simp
  have rd: "blk_read (Blk data) 0 (int (n * c)) = Some d"
    using blk_read_prefix [of "n * c" data] data i by (simp add: d_def)
  have rm: "p * c + length d + c \<le> length bs" using lt by (simp add: lb d add_mult_distrib)
  note wn = write_nul [OF rm]
  have eq: "(p + n) * c = p * c + length d" "(p + n + 1) * c = p * c + length d + c"
    by (simp_all add: d add_mult_distrib)
  have "p + n + 1 < s" using g(3) i(1) by simp
  then have m: "p + n \<le> s * c" "n + 1 \<le> s * c" using \<open>s \<le> s * c\<close> by linarith+
  have k: "p * c \<le> s * c" "n * c \<le> s * c" "(p + n) * c \<le> s * c"
    using \<open>p + n + 1 < s\<close> by (intro mult_le_mono1; simp)+
  have "buf_store (b\<lparr>bf_size := s, bf_data := Blk bs\<rparr>) (Some data) (int n) = Some b'"
    using ci [OF k(1)] ci [OF k(2)] ci [OF k(3)] ci [OF m(1)] rd wn i(1-3)
    by (simp add: buf_store_def b'_def fin_def eq add.commute [of c "p * c + length d"] del: of_nat_mult of_nat_add
        flip: of_nat_mult of_nat_add)
  then have "pcl_buf_put junk (Some b) (Some data) (int n) w = Some (int n, Some b', w)"
    using n g(1) ci [OF m(2)] by (simp add: pcl_buf_put_def add.commute)
  moreover have "bf_wf b'" "bf_content b' = put_content c (bf_content b) (p * c) d"
    using store_end [OF wf, of bs s n d] g lb sc d i by (auto simp: b'_def fin_def)
  ultimately show ?thesis
    using g(5) i by (intro that [of b']) (auto simp: b'_def d_def)
qed

section \<open>Getting\<close>

text \<open>The caller may move the position inside the content.\<close>

lemma bf_wf_move:
  "bf_wf b \<Longrightarrow> 0 \<le> q \<Longrightarrow> q \<le> bf_len b \<Longrightarrow> bf_wf (b\<lparr>bf_pos := q\<rparr>)"
  by (cases "bf_data b") (auto simp: bf_wf_def)

lemma bf_content_move [simp]: "bf_content (b\<lparr>bf_pos := q\<rparr>) = bf_content b"
  by (cases "bf_data b") (simp_all add: bf_content_def)

text \<open>A get of \<open>n\<close> characters of a binary buffer copies them and moves the position.\<close>

lemma get_ok:
  assumes wf: "bf_wf b" and bin: "bf_mode b = PclBufBinary" and n: "0 < n"
    and left: "bf_pos b + int n \<le> bf_len b" and out: "n \<le> length out"
  shows "pcl_buf_get (Some b) (Some out) (int n) w =
    Some (int n, Some (take n (drop (nat (bf_pos b)) (bf_content b)) @ drop n out),
          Some (b\<lparr>bf_pos := bf_pos b + int n\<rparr>), w)"
    and "bf_wf (b\<lparr>bf_pos := bf_pos b + int n\<rparr>)"
    and "bf_content (b\<lparr>bf_pos := bf_pos b + int n\<rparr>) = bf_content b"
proof -
  obtain p l c where i: "bf_pos b = int p" "bf_len b = int l" "bf_chrsize b = int c" "p \<le> l"
    "0 < c" "l \<le> bf_size b" "bf_size b * c \<le> nat INT_MAX" "mode_chrsize (bf_mode b) = int c"
    using wf by (rule bf_wf_nats)
  have c: "c = 1" using i(8) bin by (simp add: mode_chrsize_def)
  have li: "int l \<le> INT_MAX" using i(6,7) c by (simp add: INT_MAX_def)
  obtain bs where bs: "bf_data b = Blk bs"
    using wf left n i by (cases "bf_data b") (auto simp: bf_wf_def)
  obtain r where r: "bs = bf_content b @ replicate c 0 @ r"
    using bf_wf_shape [OF wf bs] i(3) by (metis bf_shape_def of_nat_eq_iff)
  have lc: "length (bf_content b) = l" using length_bf_content [OF wf] i c by simp
  have pn: "p + n \<le> l" using left i by simp
  have rd: "blk_read (bf_data b) (int p) (int n) = Some (take n (drop p (bf_content b)))"
    using pn lc by (simp add: bs r blk_read_def mem_read_def)
  show "pcl_buf_get (Some b) (Some out) (int n) w =
    Some (int n, Some (take n (drop (nat (bf_pos b)) (bf_content b)) @ drop n out),
          Some (b\<lparr>bf_pos := bf_pos b + int n\<rparr>), w)"
  proof -
    have "min (l - p) n = n" using pn by simp
    then show ?thesis
      using bin i(1-3) pn li c rd lc out
      by (simp add: pcl_buf_get_def cint_def INT_MIN_def INT_MAX_def mem_copy_def)
  qed
  show "bf_wf (b\<lparr>bf_pos := bf_pos b + int n\<rparr>)"
    using i(1) left by (intro bf_wf_move [OF wf]) auto
  show "bf_content (b\<lparr>bf_pos := bf_pos b + int n\<rparr>) = bf_content b"
    by simp
qed

text \<open>A get behind the end is refused and changes nothing but the error.\<close>

lemma get_eof:
  assumes "bf_wf b" "bf_mode b = PclBufBinary" "bf_len b < bf_pos b + n" "\<not> frozen w"
  shows "pcl_buf_get (Some b) (Some out) n w =
    Some (-1, Some out, Some b, raised (''buf_get.c'', ''pcl_buf_get'', 43) PCL_EOF 0 None w)"
proof -
  obtain p l c where i: "bf_pos b = int p" "bf_len b = int l" "bf_chrsize b = int c" "p \<le> l"
    "0 < c" "l \<le> bf_size b" "bf_size b * c \<le> nat INT_MAX" "mode_chrsize (bf_mode b) = int c"
    using assms(1) by (rule bf_wf_nats)
  have "l \<le> nat INT_MAX" using i(5-7) le_mult_pos [OF i(5), of "bf_size b"] by linarith
  then have "cint (int l - int p) = Some (int l - int p)"
    using i(4) by (simp add: cint_def INT_MIN_def INT_MAX_def)
  then show ?thesis
    using assms i by (simp add: pcl_buf_get_def macros_thawed)
qed

section \<open>Serialisation\<close>

text \<open>The interface of a serialiser: putting an item at the end appends its code; getting into a
  matching destination at the code of an item gives the item and moves behind it. \<open>fits b k\<close> is
  the invariant with room for \<open>k\<close> more elements.\<close>

locale serialiser =
  fixes put :: "'x \<Rightarrow> 'b \<Rightarrow> 'b option" and get :: "'d \<Rightarrow> 'b \<Rightarrow> ('x \<times> 'b) option"
    and enc :: "'x \<Rightarrow> 'e list" and ok :: "'x \<Rightarrow> bool" and dst :: "'x \<Rightarrow> 'd \<Rightarrow> bool"
    and content :: "'b \<Rightarrow> 'e list" and pos :: "'b \<Rightarrow> nat" and fits :: "'b \<Rightarrow> nat \<Rightarrow> bool"
    and rewind :: "'b \<Rightarrow> 'b"
  assumes put_law: "fits b k \<Longrightarrow> pos b = length (content b) \<Longrightarrow> ok x \<Longrightarrow> length (enc x) \<le> k \<Longrightarrow>
      \<exists>b'. put x b = Some b' \<and> fits b' (k - length (enc x)) \<and> content b' = content b @ enc x
        \<and> pos b' = length (content b')"
    and get_law: "fits b k \<Longrightarrow> ok x \<Longrightarrow> dst x d \<Longrightarrow> content b = a @ enc x @ r \<Longrightarrow> pos b = length a \<Longrightarrow>
      \<exists>b'. get d b = Some (x, b') \<and> fits b' k \<and> content b' = content b
        \<and> pos b' = length a + length (enc x)"
    and rewind_law: "fits b k \<Longrightarrow> fits (rewind b) k \<and> content (rewind b) = content b \<and> pos (rewind b) = 0"
begin

fun put_list :: "'x list \<Rightarrow> 'b \<Rightarrow> 'b option" where
  "put_list [] b = Some b"
| "put_list (x # xs) b = do { b1 \<leftarrow> put x b; put_list xs b1 }"

fun get_list :: "'d list \<Rightarrow> 'b \<Rightarrow> ('x list \<times> 'b) option" where
  "get_list [] b = Some ([], b)"
| "get_list (d # ds) b = do { (x, b1) \<leftarrow> get d b; (xs, b2) \<leftarrow> get_list ds b1; Some (x # xs, b2) }"

lemma put_list_ok:
  assumes "fits b k" "pos b = length (content b)" "list_all ok xs" "length (concat (map enc xs)) \<le> k"
  shows "\<exists>b'. put_list xs b = Some b' \<and> fits b' (k - length (concat (map enc xs)))
    \<and> content b' = content b @ concat (map enc xs) \<and> pos b' = length (content b')"
  using assms
proof (induction xs arbitrary: b k)
  case (Cons x xs)
  obtain b1 where b1: "put x b = Some b1" "fits b1 (k - length (enc x))"
    "content b1 = content b @ enc x" "pos b1 = length (content b1)"
    using put_law [of b k x] Cons.prems by auto
  with Cons.IH [of b1 "k - length (enc x)"] Cons.prems show ?case by auto
qed simp

lemma get_list_ok:
  assumes "fits b k" "list_all ok xs" "list_all2 dst xs ds"
    "content b = a @ concat (map enc xs) @ r" "pos b = length a"
  shows "\<exists>b'. get_list ds b = Some (xs, b') \<and> fits b' k \<and> content b' = content b
    \<and> pos b' = length a + length (concat (map enc xs))"
  using assms
proof (induction xs arbitrary: b a ds)
  case (Cons x xs)
  then obtain d ds' where ds: "ds = d # ds'" "dst x d" "list_all2 dst xs ds'"
    by (auto simp: list_all2_Cons1)
  obtain b1 where b1: "get d b = Some (x, b1)" "fits b1 k" "content b1 = content b"
    "pos b1 = length a + length (enc x)"
    using get_law [of b k x d a "concat (map enc xs) @ r"] Cons.prems ds by auto
  with Cons.IH [of b1 ds' "a @ enc x"] Cons.prems ds show ?case by auto
qed simp

lemma round_trip:
  assumes "fits b k" "content b = []" "pos b = 0" "list_all ok xs" "list_all2 dst xs ds"
    "length (concat (map enc xs)) \<le> k"
  shows "\<exists>b1 b2. put_list xs b = Some b1 \<and> content b1 = concat (map enc xs)
    \<and> get_list ds (rewind b1) = Some (xs, b2)"
proof -
  obtain b1 where b1: "put_list xs b = Some b1" "fits b1 (k - length (concat (map enc xs)))"
    "content b1 = concat (map enc xs)"
    using put_list_ok [of b k xs] assms by auto
  with rewind_law [OF b1(2)] get_list_ok [of "rewind b1" _ xs ds "[]" "[]"] assms(4,5)
  show ?thesis by auto
qed

end

text \<open>The items a program puts into a binary buffer, and the functions it uses for them.
  A destination is the variable or block the value is read into, with its old contents.\<close>

datatype buf_item = I8 "8 word" | I16 "16 word" | I32 "32 word" | I64 "64 word"
  | Str "byte list" | Blob "byte list"

fun item_ok :: "buf_item \<Rightarrow> bool" where
  "item_ok (Str s) = (0 \<notin> set s)"
| "item_ok (Blob d) = (d \<noteq> [])"
| "item_ok _ = True"

fun item_bytes :: "buf_item \<Rightarrow> byte list" where
  "item_bytes (I8 i) = [i]"
| "item_bytes (I16 i) = rev (word_bytes i)"
| "item_bytes (I32 i) = rev (word_bytes i)"
| "item_bytes (I64 i) = rev (word_bytes i)"
| "item_bytes (Str s) = s @ [0]"
| "item_bytes (Blob d) = d"

fun item_dst :: "buf_item \<Rightarrow> buf_item \<Rightarrow> bool" where
  "item_dst (I8 _) (I8 _) = True"
| "item_dst (I16 _) (I16 _) = True"
| "item_dst (I32 _) (I32 _) = True"
| "item_dst (I64 _) (I64 _) = True"
| "item_dst (Str s) (Str d) = (length s < length d)"
| "item_dst (Blob s) (Blob d) = (length d = length s)"
| "item_dst _ _ = False"

definition put_result ::
  "(int \<times> pcl_buf option \<times> pcl_err) option \<Rightarrow> (pcl_buf \<times> pcl_err) option" where
  "put_result res = do { (r, bo, w) \<leftarrow> res; b \<leftarrow> bo; if r < 0 then None else Some (b, w) }"

definition buf_put_item ::
  "(64 word \<Rightarrow> 64 word) \<Rightarrow> byte \<Rightarrow> buf_item \<Rightarrow> pcl_buf \<times> pcl_err \<Rightarrow> (pcl_buf \<times> pcl_err) option" where
  "buf_put_item htonll junk x = (\<lambda>(b, w). put_result (case x of
      I8 i \<Rightarrow> pcl_buf_putint8 junk (Some b) i w
    | I16 i \<Rightarrow> pcl_buf_putint16 junk (Some b) i w
    | I32 i \<Rightarrow> pcl_buf_putint32 junk (Some b) i w
    | I64 i \<Rightarrow> pcl_buf_putint64 htonll junk (Some b) i w
    | Str s \<Rightarrow> pcl_buf_putstr junk (Some b) (Some (s @ [0])) w
    | Blob d \<Rightarrow> pcl_buf_put junk (Some b) (Some d) (int (length d)) w))"

definition get_result ::
  "('o \<Rightarrow> int \<Rightarrow> buf_item) \<Rightarrow> (int \<times> 'o option \<times> pcl_buf option \<times> pcl_err) option \<Rightarrow>
     (buf_item \<times> pcl_buf \<times> pcl_err) option" where
  "get_result f res =
     do { (r, oo, bo, w) \<leftarrow> res; v \<leftarrow> oo; b \<leftarrow> bo; if r < 0 then None else Some (f v r, b, w) }"

definition buf_get_item ::
  "buf_item \<Rightarrow> pcl_buf \<times> pcl_err \<Rightarrow> (buf_item \<times> pcl_buf \<times> pcl_err) option" where
  "buf_get_item d = (\<lambda>(b, w). case d of
      I8 i \<Rightarrow> get_result (\<lambda>v r. I8 v) (pcl_buf_getint8 (Some b) (Some i) w)
    | I16 i \<Rightarrow> get_result (\<lambda>v r. I16 v) (pcl_buf_getint16 (Some b) (Some i) w)
    | I32 i \<Rightarrow> get_result (\<lambda>v r. I32 v) (pcl_buf_getint32 (Some b) (Some i) w)
    | I64 i \<Rightarrow> get_result (\<lambda>v r. I64 v) (pcl_buf_getint64 (Some b) (Some i) w)
    | Str s \<Rightarrow> get_result (\<lambda>v r. Str (take (nat r - 1) v))
                (pcl_buf_getstr (Some b) (Some s) (int (length s)) w)
    | Blob s \<Rightarrow> get_result (\<lambda>v r. Blob v) (pcl_buf_get (Some b) (Some s) (int (length s)) w))"

text \<open>The invariant with room for \<open>k\<close> more bytes, whatever growing does on the way.\<close>

definition buf_cap :: "pcl_buf \<Rightarrow> nat \<Rightarrow> bool" where
  "buf_cap b k \<longleftrightarrow> bf_wf b \<and> bf_chrsize b = 1
     \<and> 2 * (max (bf_size b) (2 * (nat (bf_len b) + k + 1)) + k + 2) \<le> nat INT_MAX"

definition buf_fits :: "pcl_buf \<times> pcl_err \<Rightarrow> nat \<Rightarrow> bool" where
  "buf_fits = (\<lambda>(b, w) k. bf_mode b = PclBufBinary \<and> buf_cap b k)"

lemma put_content_end [simp]: "put_content c cont (length cont) d = cont @ d"
  by (simp add: put_content_def)

lemma buf_cap_room:
  assumes "buf_cap b k" "n \<le> k" shows "bf_room b (n + 1)"
proof -
  have "bf_size b + n + 2 \<le> max (bf_size b) (2 * (nat (bf_len b) + k + 1)) + k + 2"
    using assms(2) by (intro add_mono) auto
  from mult_le_mono2 [OF this] assms(1) have "2 * (bf_size b + n + 2) \<le> nat INT_MAX"
    unfolding buf_cap_def by (meson order_trans)
  then show ?thesis using assms(1) by (simp add: bf_room_def buf_cap_def)
qed

lemma buf_cap_after:
  assumes "buf_cap b k" "n \<le> k" "bf_wf b'" "bf_chrsize b' = 1" "bf_len b' = bf_len b + int n"
    "bf_size b' \<le> max (bf_size b) (2 * (nat (bf_len b) + n + 1))"
  shows "buf_cap b' (k - n)"
proof -
  have "0 \<le> bf_len b" using assms(1) by (auto simp: buf_cap_def bf_wf_def)
  then have eq: "nat (bf_len b') + (k - n) = nat (bf_len b) + k" using assms(2,5) by simp
  have "bf_size b' \<le> max (bf_size b) (2 * (nat (bf_len b) + k + 1))"
    using assms(2,6) by simp
  then have "max (bf_size b') (2 * (nat (bf_len b') + (k - n) + 1)) + (k - n) + 2
      \<le> max (bf_size b) (2 * (nat (bf_len b) + k + 1)) + k + 2"
    unfolding eq by (intro add_mono) auto
  from mult_le_mono2 [OF this] assms(1)
  have "2 * (max (bf_size b') (2 * (nat (bf_len b') + (k - n) + 1)) + (k - n) + 2) \<le> nat INT_MAX"
    unfolding buf_cap_def by (meson order_trans)
  then show ?thesis using assms(3,4) by (simp add: buf_cap_def)
qed

text \<open>The position of a buffer that is filled from its start is its length.\<close>

lemma buf_cap_pos:
  assumes "buf_cap b k" "nat (bf_pos b) = length (bf_content b)"
  shows "bf_pos b = bf_len b" "0 \<le> bf_len b" "bf_wf b" "bf_chrsize b = 1"
    "length (bf_content b) = nat (bf_len b)"
proof -
  show wf: "bf_wf b" "bf_chrsize b = 1" using assms(1) by (auto simp: buf_cap_def)
  then show "0 \<le> bf_len b" "length (bf_content b) = nat (bf_len b)"
    using length_bf_content [OF wf(1)] by (auto simp: bf_wf_def)
  then show "bf_pos b = bf_len b" using wf assms(2) by (auto simp: bf_wf_def)
qed

lemma put_end:
  assumes f: "buf_cap b k" and p: "nat (bf_pos b) = length (bf_content b)"
    and n: "0 < n" "n \<le> k" "n \<le> length data"
  obtains b' where "pcl_buf_put junk (Some b) (Some data) (int n) w = Some (int n, Some b', w)"
    "buf_cap b' (k - n)" "bf_content b' = bf_content b @ take n data"
    "nat (bf_pos b') = length (bf_content b')" "bf_mode b' = bf_mode b" "bf_data b' \<noteq> Null"
proof -
  note b = buf_cap_pos [OF f p]
  obtain b' where b': "pcl_buf_put junk (Some b) (Some data) (int n) w = Some (int n, Some b', w)"
    "bf_wf b'" "bf_mode b' = bf_mode b" "bf_pos b' = bf_pos b + int n"
    "bf_len b' = max (bf_len b) (bf_pos b + int n)"
    "bf_size b' \<le> max (bf_size b) (2 * (nat (bf_pos b) + n + 1))" "bf_chrsize b' = bf_chrsize b"
    "bf_data b' \<noteq> Null"
    "bf_content b' = put_content (nat (bf_chrsize b)) (bf_content b)
       (nat (bf_pos b) * nat (bf_chrsize b)) (take (n * nat (bf_chrsize b)) data)"
    using put_ok [OF b(3) n(1) buf_cap_room [OF f n(2)], of data junk w] n(3) b(4) by auto
  have ct: "bf_content b' = bf_content b @ take n data" using b'(9) b(4) p by simp
  moreover have "buf_cap b' (k - n)"
    by (rule buf_cap_after [OF f n(2) b'(2)]) (use b' b in simp_all)
  moreover have "nat (bf_pos b') = length (bf_content b')"
    using ct b'(4) p n(3) b(1,2) by simp
  ultimately show ?thesis using b'(1,3,8) by (intro that [of b'])
qed

lemma put_bin:
  assumes f: "buf_fits (b, w) k" and p: "nat (bf_pos b) = length (bf_content b)"
    and n: "0 < n" "n \<le> k" "n \<le> length data"
  obtains b' where "pcl_buf_put junk (Some b) (Some data) (int n) w = Some (int n, Some b', w)"
    "buf_fits (b', w) (k - n)" "bf_content b' = bf_content b @ take n data"
    "nat (bf_pos b') = length (bf_content b')"
proof -
  have "buf_cap b k" using f by (simp add: buf_fits_def)
  from put_end [OF this p n, of junk w] f that show ?thesis by (auto simp: buf_fits_def)
qed

lemma put_bin_item:
  assumes "buf_fits (b, w) k" "nat (bf_pos b) = length (bf_content b)" "length data \<le> k" "data \<noteq> []"
    "n = int (length data)"
  shows "\<exists>b'. put_result (pcl_buf_put junk (Some b) (Some data) n w) = Some (b', w)
    \<and> buf_fits (b', w) (k - length data) \<and> bf_content b' = bf_content b @ data
    \<and> nat (bf_pos b') = length (bf_content b')"
proof -
  obtain b' where "pcl_buf_put junk (Some b) (Some data) (int (length data)) w
      = Some (int (length data), Some b', w)"
    "buf_fits (b', w) (k - length data)" "bf_content b' = bf_content b @ take (length data) data"
    "nat (bf_pos b') = length (bf_content b')"
    by (rule put_bin [OF assms(1,2), of "length data" data junk]) (use assms in auto)
  then show ?thesis using assms(5) by (simp add: put_result_def)
qed

lemma get_bin:
  assumes f: "buf_fits (b, w) k" and ct: "bf_content b = a @ d @ r" and p: "nat (bf_pos b) = length a"
    and d: "d \<noteq> []" "length d \<le> length out" and n: "n = int (length d)"
  defines "b' \<equiv> b\<lparr>bf_pos := bf_pos b + n\<rparr>"
  shows "pcl_buf_get (Some b) (Some out) n w = Some (n, Some (d @ drop (length d) out), Some b', w)"
    "buf_fits (b', w) k" "bf_content b' = bf_content b" "nat (bf_pos b') = length a + length d"
proof -
  have wf: "bf_wf b" and m: "bf_mode b = PclBufBinary" using f by (auto simp: buf_fits_def buf_cap_def)
  have c: "bf_chrsize b = 1" using wf m by (simp add: bf_wf_def mode_chrsize_def)
  have i: "0 \<le> bf_pos b" "bf_pos b \<le> bf_len b" using wf by (auto simp: bf_wf_def)
  have lc: "length (bf_content b) = nat (bf_len b)" using length_bf_content [OF wf] c by simp
  have le: "bf_pos b + n \<le> bf_len b" using lc ct p n i by simp
  have dp: "0 < length d" using d by simp
  note g = get_ok(1) [OF wf m dp le [unfolded n] d(2), of w]
    get_ok(2) [OF wf m dp le [unfolded n] d(2)]
  show "pcl_buf_get (Some b) (Some out) n w = Some (n, Some (d @ drop (length d) out), Some b', w)"
    using g(1) ct p by (simp add: n b'_def)
  show "buf_fits (b', w) k"
    using f g(2) by (simp add: buf_fits_def buf_cap_def b'_def n)
  show "bf_content b' = bf_content b" by (simp add: b'_def)
  show "nat (bf_pos b') = length a + length d" using p i n by (simp add: b'_def)
qed

lemma buf_fits_binary:
  "buf_fits (b, w) k \<Longrightarrow> bf_mode b = PclBufBinary"
  "buf_fits (b, w) k \<Longrightarrow> buf_binary (Some b)"
  "buf_fits (b, w) k \<Longrightarrow> bf_chrsize b = 1"
  by (auto simp: buf_fits_def buf_cap_def buf_binary_def)

lemma buf_fits_len:
  assumes "buf_fits (b, w) k"
  shows "nat (bf_len b) + k \<le> nat INT_MAX"
proof -
  define M where "M = max (bf_size b) (2 * (nat (bf_len b) + k + 1))"
  have "2 * (M + k + 2) \<le> nat INT_MAX" using assms by (simp add: buf_fits_def buf_cap_def M_def)
  moreover have "2 * (nat (bf_len b) + k + 1) \<le> M" by (simp add: M_def)
  ultimately have "nat (bf_len b) + k \<le> 2 * (M + k + 2)" by simp
  with \<open>2 * (M + k + 2) \<le> nat INT_MAX\<close> show ?thesis by (rule order_trans [rotated])
qed

lemma word_byte: "word_bytes (i :: 8 word) = [i]"
  by (simp add: word_bytes_def)

lemma buf_put_item_ok:
  assumes f: "buf_fits (b, w) k" and p: "nat (bf_pos b) = length (bf_content b)"
    and x: "item_ok x" "length (item_bytes x) \<le> k" and h: "htonll = byte_swap"
  shows "\<exists>b'. buf_put_item htonll junk x (b, w) = Some (b', w)
    \<and> buf_fits (b', w) (k - length (item_bytes x)) \<and> bf_content b' = bf_content b @ item_bytes x
    \<and> nat (bf_pos b') = length (bf_content b')"
proof (cases x)
  case (I8 i)
  with put_bin_item [OF f p, of "[i]" 1 junk] x buf_fits_binary [OF f] show ?thesis
    by (simp add: buf_put_item_def pcl_buf_putint8_def word_byte)
next
  case (I16 i)
  with put_bin_item [OF f p, of "rev (word_bytes i)" 2 junk] x buf_fits_binary [OF f] show ?thesis
    by (simp add: buf_put_item_def pcl_buf_putint16_def word_bytes_swap flip: length_0_conv)
next
  case (I32 i)
  with put_bin_item [OF f p, of "rev (word_bytes i)" 4 junk] x buf_fits_binary [OF f] show ?thesis
    by (simp add: buf_put_item_def pcl_buf_putint32_def word_bytes_swap flip: length_0_conv)
next
  case (I64 i)
  with put_bin_item [OF f p, of "rev (word_bytes i)" 8 junk] x h buf_fits_binary [OF f] show ?thesis
    by (simp add: buf_put_item_def pcl_buf_putint64_def word_bytes_swap flip: length_0_conv)
next
  case (Str s)
  have "int (length s) + 1 \<le> INT_MAX"
    using f x(2) Str by (simp add: buf_fits_def buf_cap_def INT_MAX_def)
  then have "cint (to_int (length s) + 1) = Some (int (length s) + 1)" "to_int (length s) = int (length s)"
    by (simp_all add: cint_def INT_MIN_def)
  with put_bin_item [OF f p, of "s @ [0]" "int (length s) + 1" junk] x Str buf_fits_binary [OF f]
  show ?thesis
    by (simp add: buf_put_item_def pcl_buf_putstr_def strlen_nul)
next
  case (Blob d)
  with put_bin_item [OF f p, of d "int (length d)" junk] x show ?thesis
    by (simp add: buf_put_item_def)
qed

lemma buf_getint_ok:
  fixes i :: "'a::len word"
  assumes f: "buf_fits (b, w) k" and ct: "bf_content b = a @ rev (word_bytes i) @ r"
    and p: "nat (bf_pos b) = length a" and l: "8 dvd LENGTH('a)" "sz = int (LENGTH('a) div 8)"
  defines "b' \<equiv> b\<lparr>bf_pos := bf_pos b + sz\<rparr>"
  shows "buf_getint l1 l2 sz (Some b) (Some old) w = Some (sz, Some i, Some b', w)"
    "buf_fits (b', w) k" "bf_content b' = bf_content b"
    "nat (bf_pos b') = length a + LENGTH('a) div 8"
proof -
  have ne: "rev (word_bytes i) \<noteq> []"
  proof -
    obtain m where m: "LENGTH('a) = 8 * m" using l(1) by (auto simp: dvd_def)
    then have "m \<noteq> 0" using len_gt_0 [where ?'a = 'a] by (metis mult_0_right less_irrefl)
    then have "length (rev (word_bytes i)) \<noteq> 0" using m by simp
    then show ?thesis by (metis length_0_conv)
  qed
  note g = get_bin [OF f ct p ne, of "word_bytes old" sz]
  have "byte_swap (bytes_word (rev (word_bytes i))) = i"
    using l(1) by (metis byte_swap_def byte_swap_swap)
  then show "buf_getint l1 l2 sz (Some b) (Some old) w = Some (sz, Some i, Some b', w)"
    using g(1) l(2) buf_fits_binary [OF f] by (simp add: buf_getint_def b'_def)
  show "buf_fits (b', w) k" "bf_content b' = bf_content b"
    "nat (bf_pos b') = length a + LENGTH('a) div 8"
    using g(2-4) l(2) by (simp_all add: b'_def)
qed

lemma buf_get_item_ok:
  assumes f: "buf_fits (b, w) k" and x: "item_ok x" "item_dst x d"
    and ct: "bf_content b = a @ item_bytes x @ r" and p: "nat (bf_pos b) = length a"
  shows "\<exists>b'. buf_get_item d (b, w) = Some (x, b', w) \<and> buf_fits (b', w) k
    \<and> bf_content b' = bf_content b \<and> nat (bf_pos b') = length a + length (item_bytes x)"
proof (cases x)
  case (I8 i)
  then obtain j where d: "d = I8 j" using x by (cases d) auto
  show ?thesis
    using get_bin [OF f _ p, of "[i]" r "word_bytes j" 1] ct buf_fits_binary [OF f]
      bytes_word_bytes [of i]
    by (simp add: I8 d buf_get_item_def pcl_buf_getint8_def get_result_def word_byte)
next
  case (I16 i)
  then obtain j where d: "d = I16 j" using x by (cases d) auto
  show ?thesis
    using buf_getint_ok [OF f _ p, of i r 2] ct
    by (simp add: I16 d buf_get_item_def pcl_buf_getint16_def get_result_def)
next
  case (I32 i)
  then obtain j where d: "d = I32 j" using x by (cases d) auto
  show ?thesis
    using buf_getint_ok [OF f _ p, of i r 4] ct
    by (simp add: I32 d buf_get_item_def pcl_buf_getint32_def get_result_def)
next
  case (I64 i)
  then obtain j where d: "d = I64 j" using x by (cases d) auto
  show ?thesis
    using buf_getint_ok [OF f _ p, of i r 8] ct
    by (simp add: I64 d buf_get_item_def pcl_buf_getint64_def get_result_def)
next
  case (Blob s)
  then obtain t where d: "d = Blob t" "length t = length s" using x by (cases d) auto
  show ?thesis
    using get_bin [OF f _ p, of s r t "int (length t)"] ct x Blob d
    by (simp add: buf_get_item_def get_result_def)
next
  case (Str s)
  then obtain t where d: "d = Str t" "length s < length t" using x by (cases d) auto
  have wf: "bf_wf b" using f by (simp add: buf_fits_def buf_cap_def)
  obtain bs where bs: "bf_data b = Blk bs"
    using wf ct Str by (cases "bf_data b") (auto simp: bf_wf_def bf_content_def)
  obtain r' where r': "bs = bf_content b @ r'"
    using bs by (metis append_take_drop_id bf_content_def bptr.simps(10))
  have ln: "c_strlen (drop (nat (bf_pos b)) bs) = Some (length s)"
    using r' ct Str p x strlen_nul by simp
  have "length (bf_content b) = nat (bf_len b)"
    using length_bf_content [OF wf] buf_fits_binary [OF f] by simp
  then have "int (length s) + 1 \<le> INT_MAX"
    using buf_fits_len [OF f] ct Str by (simp add: INT_MAX_def)
  then have ti: "to_int (Suc (length s)) = int (length s) + 1"
    by simp
  have i: "0 \<le> bf_pos b" using wf by (simp add: bf_wf_def)
  note g = get_bin [OF f ct p, of t "int (length s) + 1"]
  have "pcl_buf_getstr (Some b) (Some t) (int (length t)) w
      = pcl_buf_get (Some b) (Some t) (int (length s) + 1) w"
    using d(2) buf_fits_binary [OF f] by (simp add: pcl_buf_getstr_def bs ln ti i)
  then show ?thesis
    using g Str d by (simp add: buf_get_item_def get_result_def)
qed

text \<open>The buffer with these puts and gets is a serialiser.\<close>

interpretation wire: serialiser "buf_put_item byte_swap junk" buf_get_item item_bytes item_ok item_dst
  "\<lambda>s. bf_content (fst s)" "\<lambda>s. nat (bf_pos (fst s))" buf_fits "\<lambda>(b, w). (b\<lparr>bf_pos := 0\<rparr>, w)"
proof
  fix s k x
  assume "buf_fits s k" "nat (bf_pos (fst s)) = length (bf_content (fst s))" "item_ok x"
    "length (item_bytes x) \<le> k"
  then show "\<exists>s'. buf_put_item byte_swap junk x s = Some s' \<and> buf_fits s' (k - length (item_bytes x))
      \<and> bf_content (fst s') = bf_content (fst s) @ item_bytes x
      \<and> nat (bf_pos (fst s')) = length (bf_content (fst s'))"
    using buf_put_item_ok [of "fst s" "snd s" k x byte_swap junk] by fastforce
next
  fix s k x d a r
  assume "buf_fits s k" "item_ok x" "item_dst x d" "bf_content (fst s) = a @ item_bytes x @ r"
    "nat (bf_pos (fst s)) = length a"
  then show "\<exists>s'. buf_get_item d s = Some (x, s') \<and> buf_fits s' k
      \<and> bf_content (fst s') = bf_content (fst s)
      \<and> nat (bf_pos (fst s')) = length a + length (item_bytes x)"
    using buf_get_item_ok [of "fst s" "snd s" k x d a r] by fastforce
next
  fix s k
  assume "buf_fits s k"
  moreover then have "0 \<le> bf_len (fst s)" by (auto simp: buf_fits_def buf_cap_def bf_wf_def)
  ultimately show "buf_fits ((\<lambda>(b, w). (b\<lparr>bf_pos := 0\<rparr>, w)) s) k
      \<and> bf_content (fst ((\<lambda>(b, w). (b\<lparr>bf_pos := 0\<rparr>, w)) s)) = bf_content (fst s)
      \<and> nat (bf_pos (fst ((\<lambda>(b, w). (b\<lparr>bf_pos := 0\<rparr>, w)) s))) = 0"
    by (cases s) (auto simp: buf_fits_def buf_cap_def intro: bf_wf_move)
qed

section \<open>Formatted puts\<close>

lemma blk_set_same:
  "blk_set (Blk (xs @ replicate c v @ ys)) (int (length xs)) v (int c) = Some (Blk (xs @ replicate c v @ ys))"
  using blk_set_at [of "length xs" c "xs @ replicate c v @ ys" v] by simp

text \<open>The bytes a formatted put leaves: the text, in a binary buffer with its NUL.\<close>

definition text_bytes :: "pcl_buf \<Rightarrow> byte list list \<Rightarrow> byte list" where
  "text_bytes b cs = concat cs @ (if bf_mode b = PclBufBinary then [0] else [])"

definition text_chars :: "pcl_buf \<Rightarrow> byte list list \<Rightarrow> nat" where
  "text_chars b cs = length cs + (if bf_mode b = PclBufBinary then 1 else 0)"

lemma concat_const_length: "list_all (\<lambda>x. length x = c) cs \<Longrightarrow> length (concat cs) = length cs * c"
  by (induction cs) auto

lemma vputf_ok:
  assumes wf: "bf_wf b" and cs: "list_all (\<lambda>x. length x = nat (bf_chrsize b)) cs"
    and ne: "cs \<noteq> [] \<or> bf_data b \<noteq> Null" and room: "bf_room b (length cs + 1)"
  defines "n \<equiv> text_chars b cs"
  obtains b' where "pcl_buf_vputf junk (Some b) (Inr cs) w = Some (int n, Some b', w)"
    "bf_wf b'" "bf_mode b' = bf_mode b" "bf_pos b' = bf_pos b + int n"
    "bf_len b' = max (bf_len b) (bf_pos b + int n)"
    "bf_content b' = put_content (nat (bf_chrsize b)) (bf_content b)
       (nat (bf_pos b) * nat (bf_chrsize b)) (text_bytes b cs)"
    "bf_size b' \<le> max (bf_size b) (2 * (nat (bf_pos b) + n))" "bf_chrsize b' = bf_chrsize b"
    "bf_data b' \<noteq> Null"
proof -
  obtain p l c where i: "bf_pos b = int p" "bf_len b = int l" "bf_chrsize b = int c" "p \<le> l"
    "0 < c" "l \<le> bf_size b" "bf_size b * c \<le> nat INT_MAX" "mode_chrsize (bf_mode b) = int c"
    using wf by (rule bf_wf_nats)
  define k where "k = (if bf_mode b = PclBufBinary then 1 else 0 :: nat)"
  have n: "n = length cs + k" by (simp add: n_def text_chars_def k_def)
  have kc: "k = 1 \<Longrightarrow> c = 1" using i(8)
    by (cases "bf_mode b") (simp_all add: k_def mode_chrsize_def)
  have room': "bf_room b n"
  proof -
    have "2 * (bf_size b + n + 1) * c \<le> 2 * (bf_size b + (length cs + 1) + 1) * c"
      by (intro mult_le_mono1) (simp add: n k_def)
    then show ?thesis using room i(3) by (simp add: bf_room_def)
  qed
  have ne': "0 < n \<or> bf_data b \<noteq> Null" using ne by (auto simp: n)
  obtain s bs where g:
    "pcl_buf_grow junk (Some b) (int n) w = Some (Some (b\<lparr>bf_size := s, bf_data := Blk bs\<rparr>), w)"
    "length bs = s * nat (bf_chrsize b)" "nat (bf_pos b) + n < s" "bf_size b \<le> s"
    "s \<le> max (bf_size b) (2 * (nat (bf_pos b) + n))" "take (length (bf_content b)) bs = bf_content b"
    "bf_content b = [] \<or> take (length (bf_content b) + nat (bf_chrsize b)) bs
       = bf_content b @ replicate (nat (bf_chrsize b)) 0"
    by (rule grow_ok [OF wf ne' room'])
  have lb: "length bs = s * c" and pn: "p + n < s" using g(2,3) i by auto
  have sc: "int (s * c) \<le> INT_MAX"
  proof -
    have "s \<le> 2 * (bf_size b + n + 1)" using g(5) i by simp
    then have "s * c \<le> 2 * (bf_size b + n + 1) * c" by (rule mult_le_mono1)
    also have "\<dots> \<le> nat INT_MAX" using room' i by (simp add: bf_room_def)
    finally show ?thesis by (simp add: INT_MAX_def del: of_nat_mult)
  qed
  have "s \<le> s * c" using i(5) by simp
  have ci: "int m \<le> INT_MAX" "cint (int m) = Some (int m)" if "m \<le> s * c" for m
  proof -
    have "int m \<le> int (s * c)" using that by (simp del: of_nat_mult)
    with sc show le: "int m \<le> INT_MAX" by linarith
    then show "cint (int m) = Some (int m)" by (simp add: cint_def INT_MIN_def)
  qed
  have m: "length cs \<le> s * c" "n \<le> s * c" "p + n \<le> s * c" "p \<le> s * c"
    using pn n \<open>s \<le> s * c\<close> by linarith+
  have lt: "(p + n) * c \<le> s * c" "(p + n + 1) * c \<le> s * c"
    using pn by (intro mult_le_mono1; simp)+
  define d where "d = text_bytes b cs"
  have ld: "length d = n * c"
    using concat_const_length [OF cs] i(3) kc by (auto simp: d_def text_bytes_def n k_def)
  define fin where "fin = take (p * c) bs @ d @ replicate c 0 @ drop ((p + n + 1) * c) bs"
  have rm: "p * c + length d + c \<le> length bs" using lt(2) by (simp add: lb ld add_mult_distrib)
  note wn = write_nul [OF rm]
  have eq: "(p + n) * c = p * c + length d" "(p + n + 1) * c = p * c + length d + c"
    by (simp_all add: ld add_mult_distrib)
  obtain Y where Y: "blk_write (Blk bs) (int (p * c)) (concat cs @ replicate c 0) = Some Y"
    "blk_set Y (int ((p + n) * c)) 0 (int c) = Some (Blk fin)"
  proof (cases "bf_mode b = PclBufBinary")
    case True
    then have "c = 1" "concat cs @ replicate c 0 = d" using kc by (auto simp: k_def d_def text_bytes_def)
    moreover from this have "n = Suc (length (concat cs))" using ld by auto
    ultimately show ?thesis using wn by (intro that) (auto simp: fin_def eq add.left_commute)
  next
    case False
    then have dd: "concat cs = d" by (simp add: d_def text_bytes_def)
    have tp: "length (take (p * c) bs) = p * c" using rm by simp
    have "blk_write (Blk bs) (int (p * c)) (d @ replicate c 0) = Some (Blk fin)"
      using blk_write_at [of "p * c" "d @ replicate c 0" bs] rm
      by (simp only: fin_def eq) (simp add: add.assoc)
    moreover have "blk_set (Blk fin) (int ((p + n) * c)) 0 (int c) = Some (Blk fin)"
      using blk_set_same [of "take (p * c) bs @ d" c 0 "drop ((p + n + 1) * c) bs"] tp
      by (simp only: fin_def eq length_append append_assoc)
    ultimately show ?thesis using dd by (intro that) auto
  qed
  define b' where "b' = b\<lparr>bf_size := s, bf_data := Blk fin, bf_pos := int (p + n),
                   bf_len := max (bf_len b) (int (p + n))\<rparr>"
  have tl: "to_int (length cs) = int (length cs)" using ci(1) [OF m(1)] by simp
  have want: "(if bf_mode b = PclBufBinary then cint (int (length cs) + 1) else Some (int (length cs)))
      = Some (int n)"
    using ci(2) [OF m(2)] by (cases "bf_mode b = PclBufBinary") (simp_all add: n k_def add.commute)
  have vw: "vxprintf_write (Blk bs) (int p * int c) (int s - int p) (int c) (Inr cs)
      = Some (int (length cs), Y)"
  proof -
    have "nat (int s - int p) - 1 = s - p - 1" by simp
    then have "min (length cs) (nat (int s - int p) - 1) = length cs" using pn n by simp
    then show ?thesis using Y(1) pn n tl by (simp add: vxprintf_write_def)
  qed
  have "pcl_buf_vputf junk (Some b) (Inr cs) w = Some (int n, Some b', w)"
  proof -
    have kk: "(if bf_mode b = PclBufBinary then 1 else 0) = int k" by (simp add: k_def)
    have ps: "cint (int p + int (length cs) + int k) = Some (int (p + n))"
      using ci(2) [OF m(3)] by (simp add: n add.assoc)
    have eo: "cint (int (p + n) * int c) = Some (int ((p + n) * c))"
      using ci(2) [OF lt(1)] by (simp only: of_nat_mult)
    have nk: "int (length cs) + int k = int n" by (simp add: n)
    show ?thesis
      using want g(1) vw i(1-3) Y(2) tl ps eo nk
      by (simp add: pcl_buf_vputf_def vxprintf_len_def b'_def kk del: of_nat_add of_nat_mult)
  qed
  moreover have "bf_wf b'" "bf_content b' = put_content c (bf_content b) (p * c) d"
    using store_end [OF wf, of bs s n d] g lb sc ld i by (auto simp: b'_def fin_def)
  ultimately show ?thesis
    using i g(5) by (intro that [of b']) (auto simp: b'_def d_def)
qed

lemma vputf_end:
  assumes f: "buf_cap b k" and p: "nat (bf_pos b) = length (bf_content b)"
    and m: "bf_mode b = PclBufText" and ne: "bf_data b \<noteq> Null" and n: "length s \<le> k"
  obtains b' where
    "pcl_buf_vputf junk (Some b) (Inr (map (\<lambda>x. [x]) s)) w = Some (int (length s), Some b', w)"
    "buf_cap b' (k - length s)" "bf_content b' = bf_content b @ s"
    "nat (bf_pos b') = length (bf_content b')" "bf_mode b' = bf_mode b" "bf_data b' \<noteq> Null"
proof -
  note b = buf_cap_pos [OF f p]
  let ?cs = "map (\<lambda>x. [x]) s"
  have tx: "text_chars b ?cs = length s" "text_bytes b ?cs = s"
    using m by (simp_all add: text_chars_def text_bytes_def)
  obtain b' where b': "pcl_buf_vputf junk (Some b) (Inr ?cs) w = Some (int (length s), Some b', w)"
    "bf_wf b'" "bf_mode b' = bf_mode b" "bf_pos b' = bf_pos b + int (length s)"
    "bf_len b' = max (bf_len b) (bf_pos b + int (length s))"
    "bf_content b' = put_content (nat (bf_chrsize b)) (bf_content b)
       (nat (bf_pos b) * nat (bf_chrsize b)) s"
    "bf_size b' \<le> max (bf_size b) (2 * (nat (bf_pos b) + length s))" "bf_chrsize b' = bf_chrsize b"
    "bf_data b' \<noteq> Null"
    using vputf_ok [OF b(3), of ?cs junk w] ne buf_cap_room [OF f n] b(4)
    by (auto simp: list_all_iff tx)
  have ct: "bf_content b' = bf_content b @ s" using b'(6) b(4) p by simp
  moreover have "buf_cap b' (k - length s)"
    by (rule buf_cap_after [OF f n b'(2)]) (use b' b in auto)
  moreover have "nat (bf_pos b') = length (bf_content b')"
    using ct b'(4) p b(1,2) by simp
  ultimately show ?thesis using b'(1,3,9) by (intro that [of b'])
qed

section \<open>Construction and copying\<close>

lemma mode_codes [simp]: "buf_mode_of (buf_mode_code m) = Some (m, mode_chrsize m)"
  by (cases m) (simp_all add: buf_mode_of_def buf_mode_code_def mode_chrsize_def sizeof_wchar_def)

lemma init_ok:
  assumes "0 < sz" "int sz * mode_chrsize m \<le> INT_MAX"
  obtains b where "pcl_buf_init junk bo sz (buf_mode_code m) w = Some (Some b, w)" "bf_wf b"
    "bf_mode b = m" "bf_pos b = 0" "bf_len b = 0" "bf_size b = sz" "bf_content b = []"
    "bf_chrsize b = mode_chrsize m"
proof -
  define c where "c = nat (mode_chrsize m)"
  have c: "mode_chrsize m = int c" "0 < c" using chrsize_pos [of m] by (auto simp: c_def)
  obtain k where k: "sz = Suc k" using assms(1) by (cases sz) auto
  let ?b = "\<lparr>bf_mode = m, bf_chrsize = int c, bf_pos = 0, bf_len = 0, bf_size = sz,
              bf_data = Blk (replicate c 0 @ replicate (k * c) junk)\<rparr>"
  have "blk_set (Blk (replicate (sz * c) junk)) 0 0 (int c)
      = Some (Blk (replicate c 0 @ replicate (k * c) junk))"
    using blk_set_at [of 0 c "replicate (sz * c) junk" 0] k by simp
  then have "pcl_buf_init junk bo sz (buf_mode_code m) w = Some (Some ?b, w)"
    using assms(1) c by (simp add: pcl_buf_init_def buf_setup_def)
  moreover have "bf_shape ?b 0 0 c [] (replicate (k * c) junk)"
  proof -
    have "int (sz * c) \<le> INT_MAX" using assms(2) c by simp
    then have "sz * c \<le> nat INT_MAX" by (simp add: INT_MAX_def del: of_nat_mult)
    then show ?thesis using c k by (simp add: bf_shape_def)
  qed
  ultimately show ?thesis
    using bf_shape_wf c by (intro that [of ?b]) auto
qed

text \<open>An unknown mode is reported with its number and nothing is allocated.\<close>

lemma init_bad_mode:
  "mode < 0 \<or> 2 < mode \<Longrightarrow> \<not> frozen w \<Longrightarrow> pcl_buf_init junk bo sz mode w =
     Some (None, raised (''buf_init.c'', ''pcl_buf_init'', 53) PCL_EINVAL 0
                   (Some (''No such mode: '' @ int_dec mode)) w)"
  by (auto simp: pcl_buf_init_def buf_mode_of_def macros_thawed)

lemma copy_block:
  assumes src: "bf_wf src" "bf_data src = Blk bs" and c: "bf_chrsize dest = bf_chrsize src"
    and d: "bf_data dest = Blk ds" "length ds = bf_size src * nat (bf_chrsize src)"
    and m: "bf_mode dest = bf_mode src" "bf_size dest = bf_size src"
  obtains bytes d' where "cint (bf_len src + 1) = Some (bf_len src + 1)"
    "cint ((bf_len src + 1) * bf_chrsize dest) = Some ((bf_len src + 1) * bf_chrsize dest)"
    "blk_read (bf_data src) 0 ((bf_len src + 1) * bf_chrsize dest) = Some bytes"
    "blk_write (bf_data dest) 0 bytes = Some d'"
    "bf_wf (dest\<lparr>bf_len := bf_len src, bf_pos := bf_pos src, bf_data := d'\<rparr>)"
    "bf_content (dest\<lparr>bf_len := bf_len src, bf_pos := bf_pos src, bf_data := d'\<rparr>) = bf_content src"
proof -
  obtain p l k r where sh: "bf_shape src p l k (bf_content src) r"
    "bs = bf_content src @ replicate k 0 @ r" "0 < k"
    by (rule bf_wf_shape [OF src])
  have i: "bf_pos src = int p" "bf_len src = int l" "bf_chrsize src = int k"
    "length (bf_content src) = l * k" "length (bf_content src) + k + length r = bf_size src * k"
    using sh(1) by (auto simp: bf_shape_def)
  define bytes where "bytes = bf_content src @ replicate k 0"
  have n: "(bf_len src + 1) * bf_chrsize dest = int (length bytes)"
    using c i by (simp add: bytes_def algebra_simps)
  have rd: "blk_read (bf_data src) 0 ((bf_len src + 1) * bf_chrsize dest) = Some bytes"
    unfolding n using blk_read_prefix [of "length bytes" bs] by (simp add: src(2) sh(2) bytes_def)
  define r' where "r' = drop (length bytes) ds"
  have "length bytes \<le> length ds" using d(2) i by (simp add: bytes_def)
  then have wr: "blk_write (bf_data dest) 0 bytes = Some (Blk (bytes @ r'))"
    using blk_write_at [of 0 bytes ds] by (simp add: d(1) r'_def)
  have "int (length bytes) \<le> INT_MAX" "int l + 1 \<le> int (length bytes)"
  proof -
    have "bf_size src * k \<le> nat INT_MAX" using sh(1) by (simp add: bf_shape_def)
    then show "int (length bytes) \<le> INT_MAX" using i(5) by (simp add: bytes_def INT_MAX_def)
    have "l + 1 \<le> length bytes" using sh(3) i(4) by (cases k) (auto simp: bytes_def)
    then show "int l + 1 \<le> int (length bytes)" by linarith
  qed
  then have ci: "cint (bf_len src + 1) = Some (bf_len src + 1)"
    "cint ((bf_len src + 1) * bf_chrsize dest) = Some ((bf_len src + 1) * bf_chrsize dest)"
    unfolding n using i(2) by (simp_all add: cint_def INT_MIN_def)
  have "length r' = length r" using d(2) i by (simp add: r'_def bytes_def)
  then have "bf_shape (dest\<lparr>bf_len := bf_len src, bf_pos := bf_pos src, bf_data := Blk (bytes @ r')\<rparr>)
      p l k (bf_content src) r'"
    using sh(1) c m by (simp add: bf_shape_def bytes_def)
  with rd wr ci show ?thesis using bf_shape_wf by (intro that [of bytes "Blk (bytes @ r')"]) auto
qed

text \<open>Copying a buffer with content into no buffer, or into a well-formed one of the same
  character size, gives a well-formed buffer with the mode, position, length, capacity and content
  of the source.\<close>

theorem buf_copy_spec:
  assumes src: "bf_wf src" "bf_data src \<noteq> Null"
    and dest: "\<forall>d. desto = Some d \<longrightarrow> bf_wf d \<and> bf_chrsize d = bf_chrsize src"
  shows "\<exists>d'. pcl_buf_copy junk desto (Some src) w = Some (Some d', w) \<and> bf_wf d'
    \<and> bf_content d' = bf_content src \<and> bf_mode d' = bf_mode src \<and> bf_pos d' = bf_pos src
    \<and> bf_len d' = bf_len src \<and> bf_size d' = bf_size src"
proof -
  obtain bs where bs: "bf_data src = Blk bs"
    using src by (cases "bf_data src") (auto simp: bf_wf_def)
  obtain p l k r where sh: "bf_shape src p l k (bf_content src) r" "0 < k"
    by (rule bf_wf_shape [OF src(1) bs])
  have i: "bf_chrsize src = int k" "0 < bf_size src" "mode_chrsize (bf_mode src) = int k"
    "bf_size src * k \<le> nat INT_MAX"
    using sh(1) by (auto simp: bf_shape_def)
  have mx: "int (bf_size src) * int k \<le> INT_MAX"
  proof -
    have "int (bf_size src * k) \<le> INT_MAX" using i(4) by (simp add: INT_MAX_def del: of_nat_mult)
    then show ?thesis by simp
  qed
  show ?thesis
  proof (cases desto)
    case None
    obtain b where b: "pcl_buf_init junk None (bf_size src) (buf_mode_code (bf_mode src)) w = Some (Some b, w)"
      "bf_wf b" "bf_mode b = bf_mode src" "bf_pos b = 0" "bf_len b = 0" "bf_size b = bf_size src"
      "bf_content b = []" "bf_chrsize b = mode_chrsize (bf_mode src)"
      by (rule init_ok [OF i(2), of "bf_mode src" junk None w]) (use i(3) mx in auto)
    obtain ds where ds: "bf_data b = Blk ds" "length ds = bf_size src * k"
      using b(2,6,8) i by (cases "bf_data b") (auto simp: bf_wf_def)
    obtain bytes d' where "cint (bf_len src + 1) = Some (bf_len src + 1)"
      "cint ((bf_len src + 1) * bf_chrsize b) = Some ((bf_len src + 1) * bf_chrsize b)"
      "blk_read (bf_data src) 0 ((bf_len src + 1) * bf_chrsize b) = Some bytes"
      "blk_write (bf_data b) 0 bytes = Some d'"
      "bf_wf (b\<lparr>bf_len := bf_len src, bf_pos := bf_pos src, bf_data := d'\<rparr>)"
      "bf_content (b\<lparr>bf_len := bf_len src, bf_pos := bf_pos src, bf_data := d'\<rparr>) = bf_content src"
      by (rule copy_block [OF src(1) bs _ ds(1)]) (use b i ds in auto)
    then show ?thesis using b None by (simp add: pcl_buf_copy_def)
  next
    case (Some dst)
    then have c: "bf_chrsize dst = bf_chrsize src" and wf: "bf_wf dst" using dest by auto
    have n: "to_size (int (bf_size src) * bf_chrsize src) = bf_size src * k"
      using mx i(1) by (simp add: nat_mult_distrib)
    obtain ds where ds: "blk_realloc junk (bf_data dst) (bf_size src * k) = Some (Blk ds)"
      "length ds = bf_size src * k"
      using wf i sh(2)
      by (cases "bf_data dst") (auto simp: bf_wf_def blk_realloc_def pcl_realloc_def)
    let ?d = "dst\<lparr>bf_data := Blk ds, bf_mode := bf_mode src, bf_size := bf_size src\<rparr>"
    obtain bytes d' where "cint (bf_len src + 1) = Some (bf_len src + 1)"
      "cint ((bf_len src + 1) * bf_chrsize ?d) = Some ((bf_len src + 1) * bf_chrsize ?d)"
      "blk_read (bf_data src) 0 ((bf_len src + 1) * bf_chrsize ?d) = Some bytes"
      "blk_write (bf_data ?d) 0 bytes = Some d'"
      "bf_wf (?d\<lparr>bf_len := bf_len src, bf_pos := bf_pos src, bf_data := d'\<rparr>)"
      "bf_content (?d\<lparr>bf_len := bf_len src, bf_pos := bf_pos src, bf_data := d'\<rparr>) = bf_content src"
      by (rule copy_block [OF src(1) bs, of ?d ds]) (use c i ds in auto)
    then show ?thesis using Some n ds(1) by (simp add: pcl_buf_copy_def)
  qed
qed

text \<open>A buffer of three one-byte characters, capacity four.\<close>

definition abc_buf :: pcl_buf where
  "abc_buf = \<lparr>bf_mode = PclBufText, bf_chrsize = 1, bf_pos = 1, bf_len = 3, bf_size = 4,
              bf_data = Blk [97, 98, 99, 0]\<rparr>"

lemma abc_buf_wf: "bf_wf abc_buf"
  by (simp add: abc_buf_def bf_wf_def mode_chrsize_def INT_MAX_def)

theorem buf_copy_spec_witness:
  "\<exists>d'. pcl_buf_copy 7 (Some abc_buf) (Some abc_buf) err_init = Some (Some d', err_init) \<and> bf_wf d'
    \<and> bf_content d' = bf_content abc_buf \<and> bf_mode d' = bf_mode abc_buf
    \<and> bf_pos d' = bf_pos abc_buf \<and> bf_len d' = bf_len abc_buf \<and> bf_size d' = bf_size abc_buf"
  by (rule buf_copy_spec) (use abc_buf_wf in \<open>simp_all add: abc_buf_def\<close>)

text \<open>Copying into a buffer of another character size changes the mode but not the character
  size, so the result is never well-formed; and a narrow source whose content does not fill a
  quarter of its block makes the copy run over the block of a wide destination.\<close>

theorem buf_copy_chrsize:
  assumes "bf_wf src" "bf_wf dest" "bf_chrsize dest \<noteq> bf_chrsize src"
  shows "(\<forall>d' w'. pcl_buf_copy junk (Some dest) (Some src) w = Some (Some d', w') \<longrightarrow> \<not> bf_wf d')
    \<and> (bf_mode dest = PclBufTextW \<and> int (bf_size src) < 4 * (bf_len src + 1) \<longrightarrow>
        pcl_buf_copy junk (Some dest) (Some src) w = None)"
proof (intro conjI impI)
  show "\<forall>d' w'. pcl_buf_copy junk (Some dest) (Some src) w = Some (Some d', w') \<longrightarrow> \<not> bf_wf d'"
    using assms by (auto simp: pcl_buf_copy_def bf_wf_def bind_simps)
next
  assume a: "bf_mode dest = PclBufTextW \<and> int (bf_size src) < 4 * (bf_len src + 1)"
  then have c: "bf_chrsize dest = 4" "bf_chrsize src = 1"
    using assms by (auto simp: bf_wf_def mode_chrsize_def split: if_splits)
  have "blk_read (bf_data src) 0 ((bf_len src + 1) * bf_chrsize dest) = None"
    using a c assms(1)
    by (cases "bf_data src") (auto simp: bf_wf_def blk_read_def mem_read_def)
  then show "pcl_buf_copy junk (Some dest) (Some src) w = None"
    by (auto simp: pcl_buf_copy_def cint_def c bind_eq_None_conv algebra_simps)
qed

definition wide_buf :: pcl_buf where
  "wide_buf = \<lparr>bf_mode = PclBufTextW, bf_chrsize = 4, bf_pos = 0, bf_len = 0, bf_size = 1,
               bf_data = Blk [0, 0, 0, 0]\<rparr>"

lemma replicate_four: "replicate 4 x = [x, x, x, x]"
  by (simp add: numeral_eq_Suc)

theorem buf_copy_chrsize_witness:
  "pcl_buf_copy 7 (Some wide_buf) (Some abc_buf) err_init = None"
proof -
  have "bf_wf wide_buf" "bf_chrsize wide_buf \<noteq> bf_chrsize abc_buf"
    "bf_mode wide_buf = PclBufTextW \<and> int (bf_size abc_buf) < 4 * (bf_len abc_buf + 1)"
    by (simp_all add: abc_buf_def wide_buf_def bf_wf_def mode_chrsize_def INT_MAX_def replicate_four)
  then show ?thesis using buf_copy_chrsize [of abc_buf wide_buf 7 err_init] abc_buf_wf by blast
qed

text \<open>C34: A put of \<open>n\<close> characters at any position of a buffer stores them there, moves the position
  behind them, extends the length where they reach over the end and grows the block as needed;
  when the put ends inside the content, the character behind it is overwritten with a NUL.\<close>

theorem buf_put_spec:
  assumes "bf_wf b" "0 < n" "bf_room b (n + 1)" "n * nat (bf_chrsize b) \<le> length data"
  shows "\<exists>b'. pcl_buf_put junk (Some b) (Some data) (int n) w = Some (int n, Some b', w) \<and> bf_wf b'
    \<and> bf_mode b' = bf_mode b \<and> bf_pos b' = bf_pos b + int n
    \<and> bf_len b' = max (bf_len b) (bf_pos b + int n)
    \<and> bf_content b' = put_content (nat (bf_chrsize b)) (bf_content b)
        (nat (bf_pos b) * nat (bf_chrsize b)) (take (n * nat (bf_chrsize b)) data)"
  by (rule put_ok [OF assms, of junk w]) blast

theorem buf_put_spec_witness:
  "\<exists>b'. pcl_buf_put 7 (Some abc_buf) (Some [120]) (int 1) err_init = Some (int 1, Some b', err_init)
    \<and> bf_wf b' \<and> bf_mode b' = bf_mode abc_buf \<and> bf_pos b' = bf_pos abc_buf + int 1
    \<and> bf_len b' = max (bf_len abc_buf) (bf_pos abc_buf + int 1)
    \<and> bf_content b' = put_content (nat (bf_chrsize abc_buf)) (bf_content abc_buf)
        (nat (bf_pos abc_buf) * nat (bf_chrsize abc_buf)) (take (1 * nat (bf_chrsize abc_buf)) [120])"
  by (rule buf_put_spec)
    (use abc_buf_wf in \<open>simp_all add: abc_buf_def bf_room_def INT_MAX_def\<close>)

text \<open>A formatted put of a text leaves the buffer as a plain put of its characters does, with
  the NUL counted in a binary buffer: same result, mode, position, length and content.\<close>

theorem buf_vputf_as_put:
  assumes "bf_wf b" "list_all (\<lambda>x. length x = nat (bf_chrsize b)) cs" "cs \<noteq> []"
    "bf_room b (length cs + 2)"
  shows "\<exists>b1 b2. pcl_buf_vputf junk (Some b) (Inr cs) w = Some (int (text_chars b cs), Some b1, w)
    \<and> pcl_buf_put junk (Some b) (Some (text_bytes b cs)) (int (text_chars b cs)) w
        = Some (int (text_chars b cs), Some b2, w)
    \<and> bf_wf b1 \<and> bf_wf b2 \<and> bf_mode b1 = bf_mode b2 \<and> bf_pos b1 = bf_pos b2
    \<and> bf_len b1 = bf_len b2 \<and> bf_content b1 = bf_content b2"
proof -
  let ?n = "text_chars b cs" and ?c = "nat (bf_chrsize b)"
  have n: "0 < ?n" "?n \<le> length cs + 1" using assms(3) by (auto simp: text_chars_def)
  have less: "bf_room b m" if "m \<le> length cs + 2" for m
  proof -
    have "2 * (bf_size b + m + 1) * ?c \<le> 2 * (bf_size b + (length cs + 2) + 1) * ?c"
      using that by (intro mult_le_mono1) simp
    then show ?thesis using assms(4) by (simp add: bf_room_def)
  qed
  have len: "length (text_bytes b cs) = ?n * ?c"
    using concat_const_length [OF assms(2)] assms(1)
    by (auto simp: text_bytes_def text_chars_def bf_wf_def mode_chrsize_def)
  obtain b1 where "pcl_buf_vputf junk (Some b) (Inr cs) w = Some (int ?n, Some b1, w)"
    "bf_wf b1" "bf_mode b1 = bf_mode b" "bf_pos b1 = bf_pos b + int ?n"
    "bf_len b1 = max (bf_len b) (bf_pos b + int ?n)"
    "bf_content b1 = put_content ?c (bf_content b) (nat (bf_pos b) * ?c) (text_bytes b cs)"
    by (rule vputf_ok [OF assms(1,2), of junk w]) (use assms(3) less in auto)
  moreover obtain b2 where
    "pcl_buf_put junk (Some b) (Some (text_bytes b cs)) (int ?n) w = Some (int ?n, Some b2, w)"
    "bf_wf b2" "bf_mode b2 = bf_mode b" "bf_pos b2 = bf_pos b + int ?n"
    "bf_len b2 = max (bf_len b) (bf_pos b + int ?n)"
    "bf_content b2 = put_content ?c (bf_content b) (nat (bf_pos b) * ?c)
       (take (?n * ?c) (text_bytes b cs))"
    by (rule put_ok [OF assms(1) n(1), of "text_bytes b cs" junk w]) (use n less len in auto)
  ultimately show ?thesis using len by auto
qed

theorem buf_vputf_as_put_witness:
  "\<exists>b1 b2. pcl_buf_vputf 7 (Some abc_buf) (Inr [[120], [121]]) err_init
      = Some (int (text_chars abc_buf [[120], [121]]), Some b1, err_init)
    \<and> pcl_buf_put 7 (Some abc_buf) (Some (text_bytes abc_buf [[120], [121]]))
        (int (text_chars abc_buf [[120], [121]])) err_init
        = Some (int (text_chars abc_buf [[120], [121]]), Some b2, err_init)
    \<and> bf_wf b1 \<and> bf_wf b2 \<and> bf_mode b1 = bf_mode b2 \<and> bf_pos b1 = bf_pos b2
    \<and> bf_len b1 = bf_len b2 \<and> bf_content b1 = bf_content b2"
  by (rule buf_vputf_as_put)
    (use abc_buf_wf in \<open>simp_all add: abc_buf_def bf_room_def INT_MAX_def\<close>)

text \<open>Programs that put a list of items and get a list of destinations.\<close>

fun buf_put_items ::
  "(64 word \<Rightarrow> 64 word) \<Rightarrow> byte \<Rightarrow> buf_item list \<Rightarrow> pcl_buf \<times> pcl_err \<Rightarrow> (pcl_buf \<times> pcl_err) option"
  where
  "buf_put_items htonll junk [] s = Some s"
| "buf_put_items htonll junk (x # xs) s =
     do { s1 \<leftarrow> buf_put_item htonll junk x s; buf_put_items htonll junk xs s1 }"

fun buf_get_items ::
  "buf_item list \<Rightarrow> pcl_buf \<times> pcl_err \<Rightarrow> (buf_item list \<times> pcl_buf \<times> pcl_err) option" where
  "buf_get_items [] s = Some ([], s)"
| "buf_get_items (d # ds) s =
     do { (x, s1) \<leftarrow> buf_get_item d s; (xs, s2) \<leftarrow> buf_get_items ds s1; Some (x # xs, s2) }"

lemma buf_put_items_wire: "buf_put_items byte_swap junk xs s = wire.put_list junk xs s"
proof (induction xs arbitrary: s)
  case (Cons x xs)
  then show ?case by (cases "buf_put_item byte_swap junk x s") simp_all
qed simp

lemma buf_get_items_wire: "buf_get_items ds s = wire.get_list ds s"
proof (induction ds arbitrary: s)
  case (Cons d ds)
  then show ?case by (cases "buf_get_item d s") (simp_all split: prod.splits)
qed simp

text \<open>C33: What a program puts into a new binary buffer (8, 16, 32 and 64-bit integers, strings,
  blobs) stands there in network byte order, strings with their NUL; after the position is set back
  to zero, the same sequence of gets returns exactly the values that were put.\<close>

theorem buf_serialise_roundtrip:
  assumes "list_all item_ok xs" "list_all2 item_dst xs ds" "0 < sz"
    "\<forall>i. htonll i = byte_swap i"
    "k = length (concat (map item_bytes xs))" "2 * (max sz (2 * (k + 1)) + k + 2) \<le> nat INT_MAX"
  shows "\<exists>b b1 b2 w1. pcl_buf_init junk None sz 0 w = Some (Some b, w)
    \<and> buf_put_items htonll junk xs (b, w) = Some (b1, w1)
    \<and> bf_content b1 = concat (map item_bytes xs)
    \<and> buf_get_items ds (b1\<lparr>bf_pos := 0\<rparr>, w1) = Some (xs, b2)"
proof -
  have "sz \<le> 2 * (max sz (2 * (k + 1)) + k + 2)" by simp
  then have "sz \<le> nat INT_MAX" using assms(6) by (rule order_trans)
  then have le: "int sz * mode_chrsize PclBufBinary \<le> INT_MAX"
    by (simp add: mode_chrsize_def INT_MAX_def)
  obtain b where b: "pcl_buf_init junk None sz (buf_mode_code PclBufBinary) w = Some (Some b, w)"
    "bf_wf b" "bf_mode b = PclBufBinary" "bf_pos b = 0" "bf_len b = 0" "bf_size b = sz"
    "bf_content b = []" "bf_chrsize b = mode_chrsize PclBufBinary"
    by (rule init_ok [OF assms(3) le])
  have "buf_fits (b, w) k" using b assms(6)
    by (simp add: buf_fits_def buf_cap_def mode_chrsize_def)
  then obtain s1 s2 where s: "wire.put_list junk xs (b, w) = Some s1"
    "bf_content (fst s1) = concat (map item_bytes xs)"
    "wire.get_list ds (case s1 of (b, w) \<Rightarrow> (b\<lparr>bf_pos := 0\<rparr>, w)) = Some (xs, s2)"
    using wire.round_trip [of "(b, w)" k xs ds junk] b assms by auto
  have h: "htonll = byte_swap" using assms(4) by (simp add: fun_eq_iff)
  show ?thesis
    using b(1) s by (cases s1) (auto simp: buf_mode_code_def h buf_put_items_wire buf_get_items_wire)
qed

theorem buf_serialise_roundtrip_witness:
  "\<exists>b b1 b2 w1. pcl_buf_init 7 None 4 0 err_init = Some (Some b, err_init)
    \<and> buf_put_items byte_swap 7 [I16 4660, Str [97, 98], I64 9, Blob [0, 1]] (b, err_init) = Some (b1, w1)
    \<and> bf_content b1 = concat (map item_bytes [I16 4660, Str [97, 98], I64 9, Blob [0, 1]])
    \<and> buf_get_items [I16 0, Str [5, 5, 5, 5], I64 1, Blob [6, 6]] (b1\<lparr>bf_pos := 0\<rparr>, w1)
        = Some ([I16 4660, Str [97, 98], I64 9, Blob [0, 1]], b2)"
  by (rule buf_serialise_roundtrip [where k = 15]) (simp_all add: INT_MAX_def)

section \<open>Corners\<close>

text \<open>A formatted put of the empty text into a cleared text buffer asks for a block of zero bytes and
  writes the NUL behind it; copying a cleared buffer reads through \<open>NULL\<close>.\<close>

lemma vputf_empty_cleared:
  assumes "bf_data b = Null" "bf_size b = 0" "bf_pos b = 0" "bf_mode b = PclBufText" "bf_chrsize b = 1"
  shows "pcl_buf_vputf junk (Some b) (Inr []) w = None"
  using assms
  by (simp add: pcl_buf_vputf_def vxprintf_len_def pcl_buf_grow_def to_int_def to_size_def cint_def
      INT_MIN_def INT_MAX_def blk_realloc_def vxprintf_write_def blk_set_def mem_set_def)

lemma copy_cleared: "bf_data src = Null \<Longrightarrow> pcl_buf_copy junk desto (Some src) w = None"
  by (auto simp: pcl_buf_copy_def blk_read_def split: option.splits prod.splits bind_splits)

text \<open>A character that is got keeps the three upper bytes of the caller's variable.\<close>

lemma getchar_upper_bytes:
  assumes "buf_fits (b, w) k" "bf_content b = a @ d # r" "nat (bf_pos b) = length a"
  shows "\<exists>b'. pcl_buf_getchar (Some b) (Some c) w
    = Some (1, Some (bytes_word (d # drop 1 (word_bytes c))), Some b', w)"
  using get_bin(1) [OF assms(1) _ assms(3), of "[d]" r "word_bytes c" 1] assms(2)
  by (simp add: pcl_buf_getchar_def)

end
