(* ===== verification/PclUtf8.thy ===== *)
theory PclUtf8 imports PclBytes PclError begin

text \<open>
  The encodings of \<open>src/string\<close>: UTF-8 (\<open>utf8_encode.c\<close>, \<open>utf8_check.c\<close>), hexadecimal text
  (\<open>hex_encode.c\<close>, \<open>hex_decode.c\<close>) and the wrappers around OpenSSL's base64. Text is bytes here,
  since the code works on \<open>unsigned char\<close>. UTF-8 is compared with a reference encoder of natural
  numbers, hexadecimal text is decoded back.
\<close>

unbundle bit_operations_syntax

section \<open>UTF-8\<close>

text \<open>\<open>%02hhx\<close> of a byte.\<close>

definition hex_table :: string where
  "hex_table = ''0123456789abcdef''"

definition hh :: "byte \<Rightarrow> string" where
  "hh c = [hex_table ! (unat c div 16), hex_table ! (unat c mod 16)]"

text \<open>The output buffer has at least as many bytes as are written.\<close>

definition pcl_utf8_encode ::
  "32 word \<Rightarrow> byte list option \<Rightarrow> 'z pcl_err_scheme \<Rightarrow>
     (int \<times> byte list option \<times> 'z pcl_err_scheme) option" where
  "pcl_utf8_encode code utf8buf w =
     (case utf8buf of
        None \<Rightarrow> (let (r, w1) = BADARG (''utf8_encode.c'', ''pcl_utf8_encode'', 39) w
                 in Some (r, None, w1))
      | Some buf \<Rightarrow>
          if code \<le> 0x7F
          then do { b \<leftarrow> mem_copy buf 0 [ucast code]; Some (1, Some b, w) }
          else if code \<le> 0x07FF
          then do { b \<leftarrow> mem_copy buf 0
                      [ucast ((drop_bit 6 code AND 0x1F) OR 0xC0),
                       ucast ((drop_bit 0 code AND 0x3F) OR 0x80)];
                    Some (2, Some b, w) }
          else if code \<le> 0xFFFF
          then do { b \<leftarrow> mem_copy buf 0
                      [ucast ((drop_bit 12 code AND 0x0F) OR 0xE0),
                       ucast ((drop_bit 6 code AND 0x3F) OR 0x80),
                       ucast ((drop_bit 0 code AND 0x3F) OR 0x80)];
                    Some (3, Some b, w) }
          else if code \<le> 0x10FFFF
          then do { b \<leftarrow> mem_copy buf 0
                      [ucast ((drop_bit 18 code AND 0x07) OR 0xF0),
                       ucast ((drop_bit 12 code AND 0x3F) OR 0x80),
                       ucast ((drop_bit 6 code AND 0x3F) OR 0x80),
                       ucast ((drop_bit 0 code AND 0x3F) OR 0x80)];
                    Some (4, Some b, w) }
          else (let (r, w1) = SETERRMSG (''utf8_encode.c'', ''pcl_utf8_encode'', 71) PCL_EINVCODEPT
                      (''invalid codepoint 0x'' @ concat (map hh (rev (word_bytes code)))) w
                in Some (r, utf8buf, w1)))"

text \<open>The loop of \<open>pcl_utf8_check\<close> over the bytes from \<open>s\<close> to \<open>end\<close>: nothing, or the line and the
  message of the error.\<close>

definition m2 :: "byte \<Rightarrow> byte \<Rightarrow> string" where
  "m2 c c2 = ''first='' @ hh c @ '', second='' @ hh c2"

definition m3 :: "byte \<Rightarrow> byte \<Rightarrow> byte \<Rightarrow> string" where
  "m3 c c2 c3 = m2 c c2 @ '', third='' @ hh c3"

definition m4 :: "byte \<Rightarrow> byte \<Rightarrow> byte \<Rightarrow> byte \<Rightarrow> string" where
  "m4 c c2 c3 c4 = m3 c c2 c3 @ '', fourth='' @ hh c4"

fun utf8_check_loop :: "byte list \<Rightarrow> (int \<times> string) option" where
  "utf8_check_loop [] = None"
| "utf8_check_loop (c # s) =
     (if c \<le> 0x7F then utf8_check_loop s
      else if c \<ge> 0xC2 \<and> c \<le> 0xDF then
        (case s of
           c2 # s2 \<Rightarrow>
             if c2 < 0x80 \<or> c2 > 0xBF
             then Some (75, ''2-byte sequence has invalid 2nd byte: '' @ m2 c c2)
             else utf8_check_loop s2
         | _ \<Rightarrow> Some (70, ''2-byte sequence missing byte: first='' @ hh c))
      else if c \<ge> 0xE0 \<and> c \<le> 0xEF then
        (case s of
           c2 # c3 # s3 \<Rightarrow>
             if c = 0xE0 \<and> (c2 < 0xA0 \<or> c2 > 0xBF)
             then Some (90, ''3-byte sequence has invalid 2nd byte: '' @ m2 c c2)
             else if c = 0xED \<and> (c2 < 0x80 \<or> c2 > 0x9F)
             then Some (96, ''3-byte sequence has invalid 2nd byte: '' @ m2 c c2)
             else if c \<noteq> 0xE0 \<and> c \<noteq> 0xED \<and> (c2 < 0x80 \<or> c2 > 0xBF)
             then Some (101, ''3-byte sequence has invalid 2nd byte: '' @ m2 c c2)
             else if c3 < 0x80 \<or> c3 > 0xBF
             then Some (108, ''3-byte sequence has invalid 3rd byte: '' @ m3 c c2 c3)
             else utf8_check_loop s3
         | _ \<Rightarrow> Some (83, ''3-byte sequence missing bytes: first='' @ hh c))
      else if c \<ge> 0xF0 \<and> c \<le> 0xF4 then
        (case s of
           c2 # c3 # c4 # s4 \<Rightarrow>
             if c = 0xF0 \<and> (c2 < 0x90 \<or> c2 > 0xBF)
             then Some (123, ''4-byte sequence has invalid 2nd byte: '' @ m2 c c2)
             else if c \<noteq> 0xF0 \<and> (c2 < 0x80 \<or> c > 0xBF)
             then Some (128, ''4-byte sequence has invalid 2nd byte: '' @ m2 c c2)
             else if c3 < 0x80 \<or> c3 > 0xBF
             then Some (135, ''4-byte sequence has invalid 3rd byte: '' @ m3 c c2 c3)
             else if c4 < 0x80 \<or> c4 > 0xBF
             then Some (141, ''4-byte sequence has invalid 4th byte: '' @ m4 c c2 c3 c4)
             else utf8_check_loop s4
         | _ \<Rightarrow> Some (116, ''4-byte sequence missing bytes: first='' @ hh c))
      else Some (147, ''invalid first byte: '' @ hh c @ ''x''))"

definition pcl_utf8_check ::
  "byte list \<Rightarrow> nat \<Rightarrow> 'z pcl_err_scheme \<Rightarrow> (int \<times> 'z pcl_err_scheme) option" where
  "pcl_utf8_check s len w =
     do { n \<leftarrow> (if len = 0 then c_strlen s else Some len);
          bytes \<leftarrow> mem_read s 0 n;
          Some (case utf8_check_loop bytes of
                  None \<Rightarrow> (0, w)
                | Some (line, msg) \<Rightarrow>
                    SETERRMSG (''utf8_check.c'', ''pcl_utf8_check'', line) PCL_EILSEQ msg w) }"

section \<open>The reference encoder\<close>

definition scalar :: "nat \<Rightarrow> bool" where
  "scalar n \<longleftrightarrow> n < 0xD800 \<or> (0xE000 \<le> n \<and> n < 0x110000)"

definition utf8_bytes :: "nat \<Rightarrow> byte list" where
  "utf8_bytes n =
     (if n < 0x80 then [of_nat n]
      else if n < 0x800 then [of_nat (0xC0 + n div 64), of_nat (0x80 + n mod 64)]
      else if n < 0x10000 then
        [of_nat (0xE0 + n div 4096), of_nat (0x80 + n div 64 mod 64), of_nat (0x80 + n mod 64)]
      else
        [of_nat (0xF0 + n div 262144), of_nat (0x80 + n div 4096 mod 64),
         of_nat (0x80 + n div 64 mod 64), of_nat (0x80 + n mod 64)])"

lemma low_or_high:
  fixes x :: "32 word"
  assumes "j \<le> k"
  shows "take_bit j x OR push_bit k y = take_bit j x + push_bit k y"
  by (rule disjunctive_add [symmetric])
    (use assms in \<open>auto simp: bit_take_bit_iff bit_push_bit_iff\<close>)

lemma and_masks:
  fixes x :: "32 word"
  shows "x AND 0x3F = take_bit 6 x" "x AND 0x1F = take_bit 5 x" "x AND 0x0F = take_bit 4 x"
    "x AND 0x07 = take_bit 3 x"
  by (simp_all add: take_bit_eq_mask mask_eq_exp_minus_1)

lemma or_lead:
  fixes x :: "32 word"
  shows "(x AND 0x3F) OR 0x80 = take_bit 6 x + 0x80" "(x AND 0x1F) OR 0xC0 = take_bit 5 x + 0xC0"
    "(x AND 0x0F) OR 0xE0 = take_bit 4 x + 0xE0" "(x AND 0x07) OR 0xF0 = take_bit 3 x + 0xF0"
  using low_or_high [of 6 7 x 1] low_or_high [of 5 6 x 3] low_or_high [of 4 5 x 7]
    low_or_high [of 3 4 x 15]
  by (simp_all add: and_masks push_bit_eq_mult)

lemma byte_of_field:
  fixes x :: "32 word"
  assumes "j \<le> 6" "h < 256"
  shows "(ucast (take_bit j (drop_bit k x) + of_nat h) :: byte)
    = of_nat (h + unat x div 2 ^ k mod 2 ^ j)"
proof -
  have "take_bit 32 (unat x) = unat x"
    using unsigned_less [of x, where ?'a = nat] by (simp add: take_bit_nat_eq_self)
  then have "unat (take_bit j (drop_bit k x)) = take_bit j (drop_bit k (unat x))"
    by (simp add: unsigned_take_bit_eq unsigned_drop_bit_eq)
  also have "\<dots> = unat x div 2 ^ k mod 2 ^ j"
    by (simp add: take_bit_eq_mod drop_bit_eq_div)
  finally have "unat (take_bit j (drop_bit k x)) = unat x div 2 ^ k mod 2 ^ j" .
  then have "take_bit j (drop_bit k x) = of_nat (unat x div 2 ^ k mod 2 ^ j)"
    by (metis of_nat_unat ucast_id)
  then have "take_bit j (drop_bit k x) + of_nat h = of_nat (h + unat x div 2 ^ k mod 2 ^ j)"
    by (simp add: add.commute)
  moreover have "h + unat x div 2 ^ k mod 2 ^ j < 2 ^ 32"
  proof -
    have "unat x div 2 ^ k mod 2 ^ j < 2 ^ j" by simp
    also have "(2 :: nat) ^ j \<le> 2 ^ 6" using assms(1) by (rule power_increasing) simp
    finally show ?thesis using assms(2) by simp
  qed
  ultimately show ?thesis
    by (simp only: unsigned_of_nat) (simp add: take_bit_nat_eq_self)
qed

text \<open>The masks and shifts of the source are the digits of the reference.\<close>

lemma encode_reference:
  assumes "code \<le> 0x10FFFF" "4 \<le> length buf"
  shows "pcl_utf8_encode code (Some buf) w =
    Some (int (length (utf8_bytes (unat code))),
          Some (utf8_bytes (unat code) @ drop (length (utf8_bytes (unat code))) buf), w)"
proof -
  have d0: "drop_bit 0 code = code" by simp
  have f: "(ucast (take_bit 6 code + 0x80) :: byte) = of_nat (0x80 + unat code mod 64)"
    "(ucast (take_bit 6 (drop_bit 6 code) + 0x80) :: byte) = of_nat (0x80 + unat code div 64 mod 64)"
    "(ucast (take_bit 6 (drop_bit 12 code) + 0x80) :: byte) = of_nat (0x80 + unat code div 4096 mod 64)"
    "(ucast (take_bit 5 (drop_bit 6 code) + 0xC0) :: byte) = of_nat (0xC0 + unat code div 64 mod 32)"
    "(ucast (take_bit 4 (drop_bit 12 code) + 0xE0) :: byte) = of_nat (0xE0 + unat code div 4096 mod 16)"
    "(ucast (take_bit 3 (drop_bit 18 code) + 0xF0) :: byte) = of_nat (0xF0 + unat code div 262144 mod 8)"
    using byte_of_field [of 6 "0x80" 0 code] byte_of_field [of 6 "0x80" 6 code]
      byte_of_field [of 6 "0x80" 12 code] byte_of_field [of 5 "0xC0" 6 code]
      byte_of_field [of 4 "0xE0" 12 code] byte_of_field [of 3 "0xF0" 18 code]
    by simp_all
  have m: "mem_copy buf 0 ys = Some (ys @ drop (length ys) buf)" if "length ys \<le> 4" for ys
    using that assms(2) by (simp add: mem_copy_def)
  have le: "code \<le> k \<longleftrightarrow> unat code \<le> unat k" for k by (simp add: word_le_nat_alt)
  have a: "unat code < 1114112" using assms(1) by (simp add: le)
  consider "unat code < 0x80" | "0x80 \<le> unat code" "unat code < 0x800"
    | "0x800 \<le> unat code" "unat code < 0x10000" | "0x10000 \<le> unat code" "unat code < 1114112"
    using a by linarith
  then show ?thesis
  proof cases
    case 1
    then have "(ucast code :: byte) = of_nat (unat code)" by simp
    then show ?thesis
      using 1 m by (simp add: pcl_utf8_encode_def le utf8_bytes_def del: of_nat_unat)
  next
    case 2
    then have "unat code div 64 mod 32 = unat code div 64" by simp
    then show ?thesis
      using 2 m f by (simp add: pcl_utf8_encode_def le utf8_bytes_def or_lead del: of_nat_add)
  next
    case 3
    then have "unat code div 4096 mod 16 = unat code div 4096" by simp
    then show ?thesis
      using 3 m f by (simp add: pcl_utf8_encode_def le utf8_bytes_def or_lead del: of_nat_add)
  next
    case 4
    then have "unat code div 262144 mod 8 = unat code div 262144" by simp
    then show ?thesis
      using 4 m f by (simp add: pcl_utf8_encode_def le utf8_bytes_def or_lead del: of_nat_add)
  qed
qed

section \<open>What the check accepts\<close>

lemma unat_byte: "k < 256 \<Longrightarrow> unat (of_nat k :: byte) = k"
  by (simp add: unat_of_nat)

lemmas byte_nat = word_le_nat_alt word_less_nat_alt word_unat_eq_iff

lemma digits64: "n = n div 4096 * 4096 + n div 64 mod 64 * 64 + n mod 64" for n :: nat
proof -
  have "n = 64 * (n div 64) + n mod 64" by simp
  moreover have "n div 64 = 64 * (n div 4096) + n div 64 mod 64"
    using mult_div_mod_eq [of 64 "n div 64"] by (simp flip: div_mult2_eq)
  ultimately show ?thesis by linarith
qed

lemma digits64_of:
  fixes a b e :: nat
  assumes "b < 64" "e < 64"
  shows "(a * 4096 + b * 64 + e) div 4096 = a" "(a * 4096 + b * 64 + e) div 64 mod 64 = b"
    "(a * 4096 + b * 64 + e) mod 64 = e"
proof -
  have n: "a * 4096 + b * 64 + e = e + 64 * (b + 64 * a)" by simp
  have d: "(e + 64 * (b + 64 * a)) div 64 = b + 64 * a" using assms by simp
  show "(a * 4096 + b * 64 + e) div 64 mod 64 = b" 
    by (simp only: n d) (use assms in simp)
  show "(a * 4096 + b * 64 + e) mod 64 = e" using assms by (simp only: n mod_mult_self2) simp
  show "(a * 4096 + b * 64 + e) div 4096 = a" using assms by simp
qed

text \<open>Reading one encoded code point below 0x40000.\<close>

lemma check_step:
  assumes "scalar n" "n < 0x40000"
  shows "utf8_check_loop (utf8_bytes n @ r) = utf8_check_loop r"
proof -
  consider "n < 0x80" | "0x80 \<le> n" "n < 0x800" | "0x800 \<le> n" "n < 0x10000"
    | "0x10000 \<le> n" "n < 0x40000"
    using assms(2) by linarith
  then show ?thesis
  proof cases
    case 1
    then show ?thesis by (simp add: utf8_bytes_def byte_nat unat_byte)
  next
    case 2
    define a b where "a = n div 64" and "b = n mod 64"
    have d: "a < 32" "2 \<le> a" "b < 64" using 2 by (auto simp: a_def b_def)
    have "utf8_bytes n = [of_nat (0xC0 + a), of_nat (0x80 + b)]"
      using 2 by (simp add: utf8_bytes_def a_def b_def)
    then show ?thesis
      using d by (simp add: byte_nat unat_byte del: of_nat_add)
  next
    case 3
    define a b c where "a = n div 4096" and "b = n div 64 mod 64" and "c = n mod 64"
    have d: "a < 16" "b < 64" "c < 64" using 3 by (auto simp: a_def b_def c_def)
    have "n = a * 4096 + b * 64 + c" unfolding a_def b_def c_def by (rule digits64)
    then have e: "a = 0 \<Longrightarrow> 32 \<le> b" "a = 13 \<Longrightarrow> b < 32"
      using 3 assms(1) d by (auto simp: scalar_def)
    have "utf8_bytes n = [of_nat (0xE0 + a), of_nat (0x80 + b), of_nat (0x80 + c)]"
      using 3 by (simp add: utf8_bytes_def a_def b_def c_def)
    then show ?thesis
      using d e by (cases "a = 0"; cases "a = 13") (simp_all add: byte_nat unat_byte del: of_nat_add)
  next
    case 4
    define a b c e where "a = n div 262144" and "b = n div 4096 mod 64" and "c = n div 64 mod 64"
      and "e = n mod 64"
    have d: "a = 0" "b < 64" "c < 64" "e < 64" using 4 by (auto simp: a_def b_def c_def e_def)
    have "n div 4096 < 64" "16 \<le> n div 4096" using 4 by (auto simp: less_eq_div_iff_mult_less_eq)
    then have "16 \<le> b" by (simp add: b_def)
    have "utf8_bytes n = [of_nat (0xF0 + a), of_nat (0x80 + b), of_nat (0x80 + c), of_nat (0x80 + e)]"
      using 4 by (simp add: utf8_bytes_def a_def b_def c_def e_def)
    then show ?thesis
      using d \<open>16 \<le> b\<close> by (simp add: byte_nat unat_byte del: of_nat_add)
  qed
qed

text \<open>And back: bytes the loop accepts are the code of some such code point.\<close>

lemma of_nat_byte: "unat c = k \<Longrightarrow> of_nat k = (c :: byte)"
  by auto

lemma decode2:
  assumes "0xC2 \<le> c" "c \<le> 0xDF" "\<not> (c2 < 0x80 \<or> c2 > 0xBF)"
  shows "\<exists>n. scalar n \<and> n < 0x40000 \<and> utf8_bytes n = [c, c2]"
proof -
  define a b where "a = unat c - 0xC0" and "b = unat c2 - 0x80"
  have r: "2 \<le> a" "a < 32" "b < 64" "unat c = 0xC0 + a" "unat c2 = 0x80 + b"
    using assms by (auto simp: byte_nat a_def b_def)
  have "(a * 64 + b) div 64 = a" "(a * 64 + b) mod 64 = b" using r by auto
  then have "utf8_bytes (a * 64 + b) = [c, c2]"
    using r by (simp add: utf8_bytes_def of_nat_byte del: of_nat_add)
  moreover have "scalar (a * 64 + b)" "a * 64 + b < 0x40000" using r by (auto simp: scalar_def)
  ultimately show ?thesis by blast
qed

lemma decode3:
  assumes "0xE0 \<le> c" "c \<le> 0xEF" "c = 0xE0 \<longrightarrow> 0xA0 \<le> c2" "c = 0xED \<longrightarrow> c2 \<le> 0x9F"
    "0x80 \<le> c2" "c2 \<le> 0xBF" "\<not> (c3 < 0x80 \<or> c3 > 0xBF)"
  shows "\<exists>n. scalar n \<and> n < 0x40000 \<and> utf8_bytes n = [c, c2, c3]"
proof -
  define a b e where "a = unat c - 0xE0" and "b = unat c2 - 0x80" and "e = unat c3 - 0x80"
  have r: "a < 16" "b < 64" "e < 64" "unat c = 0xE0 + a" "unat c2 = 0x80 + b" "unat c3 = 0x80 + e"
    using assms by (auto simp: byte_nat a_def b_def e_def)
  have s: "a = 0 \<Longrightarrow> 32 \<le> b" "a = 13 \<Longrightarrow> b < 32"
    using assms(3,4) r by (auto simp: byte_nat)
  define n where "n = a * 4096 + b * 64 + e"
  have n: "n div 4096 = a" "n div 64 mod 64 = b" "n mod 64 = e"
    unfolding n_def by (rule digits64_of; use r in simp)+
  have "0x800 \<le> n" using s r by (cases "a = 0") (auto simp: n_def)
  moreover have lt: "n < 0x10000" using r by (auto simp: n_def)
  ultimately have "utf8_bytes n = [c, c2, c3]"
    using r n by (simp add: utf8_bytes_def of_nat_byte del: of_nat_add)
  moreover have "scalar n"
  proof (cases "a = 13")
    case True
    then show ?thesis using s r by (auto simp: scalar_def n_def)
  next
    case False
    then have "a < 13 \<or> 14 \<le> a" by linarith
    then show ?thesis using r by (auto simp: scalar_def n_def)
  qed
  ultimately show ?thesis using lt by (intro exI [of _ n]) auto
qed

lemma decode4:
  assumes "0xF0 \<le> c" "c \<le> 0xF4" "c = 0xF0 \<longrightarrow> \<not> (c2 < 0x90 \<or> c2 > 0xBF)"
    "c \<noteq> 0xF0 \<longrightarrow> \<not> (c2 < 0x80 \<or> c > 0xBF)" "\<not> (c3 < 0x80 \<or> c3 > 0xBF)"
    "\<not> (c4 < 0x80 \<or> c4 > 0xBF)"
  shows "\<exists>n. scalar n \<and> n < 0x40000 \<and> utf8_bytes n = [c, c2, c3, c4]"
proof -
  have c: "c = 0xF0" using assms(1,4) by (auto simp: byte_nat)
  define b e d where "b = unat c2 - 0x80" and "e = unat c3 - 0x80" and "d = unat c4 - 0x80"
  have r: "16 \<le> b" "b < 64" "e < 64" "d < 64" "unat c2 = 0x80 + b" "unat c3 = 0x80 + e"
    "unat c4 = 0x80 + d"
    using assms(3,5,6) c by (auto simp: byte_nat b_def e_def d_def)
  define n where "n = b * 4096 + e * 64 + d"
  have n: "n div 262144 = 0" "n div 4096 mod 64 = b" "n div 64 mod 64 = e" "n mod 64 = d"
    using r digits64_of [of e d b] by (auto simp: n_def)
  have ge: "0x10000 \<le> n" using r by (auto simp: n_def)
  then have "utf8_bytes n = [c, c2, c3, c4]"
    using r n c by (simp add: utf8_bytes_def of_nat_byte del: of_nat_add)
  moreover have "n < 0x40000" using r by (auto simp: n_def)
  ultimately show ?thesis using ge by (intro exI [of _ n]) (auto simp: scalar_def)
qed

definition utf8_text :: "byte list \<Rightarrow> bool" where
  "utf8_text bs \<longleftrightarrow>
     (\<exists>ns. list_all (\<lambda>n. scalar n \<and> n < 0x40000) ns \<and> bs = concat (map utf8_bytes ns))"

lemma utf8_text_Cons:
  assumes "scalar n \<and> n < 0x40000 \<and> utf8_bytes n = b" "utf8_text bs"
  shows "utf8_text (b @ bs)"
proof -
  from assms(2) obtain ns where "list_all (\<lambda>n. scalar n \<and> n < 0x40000) ns" "bs = concat (map utf8_bytes ns)"
    by (auto simp: utf8_text_def)
  with assms(1) show ?thesis
    unfolding utf8_text_def by (intro exI [of _ "n # ns"]) simp
qed

lemma check_sound: "utf8_check_loop bs = None \<Longrightarrow> utf8_text bs"
proof (induction bs rule: utf8_check_loop.induct)
  case 1
  then show ?case by (auto simp: utf8_text_def intro: exI [of _ "[]"])
next
  case (2 c s)
  consider (one) "c \<le> 0x7F" | (two) "0xC2 \<le> c" "c \<le> 0xDF" | (three) "0xE0 \<le> c" "c \<le> 0xEF"
    | (four) "0xF0 \<le> c" "c \<le> 0xF4"
    using 2(5) by (auto split: if_splits)
  then show ?case
  proof cases
    case one
    then have "utf8_bytes (unat c) = [c]" "scalar (unat c)" "unat c < 0x40000"
      by (auto simp: utf8_bytes_def scalar_def byte_nat)
    then show ?thesis
      using utf8_text_Cons [of "unat c" "[c]" s] 2 one by auto
  next
    case two
    then have "\<not> c \<le> 0x7F" by (auto simp: byte_nat)
    with 2(5) two obtain c2 s2 where s: "s = c2 # s2" "\<not> (c2 < 0x80 \<or> c2 > 0xBF)"
      "utf8_check_loop s2 = None"
      by (auto split: list.splits if_splits)
    then have "utf8_text s2" using 2(2) two \<open>\<not> c \<le> 0x7F\<close> by auto
    with decode2 [OF two s(2)] utf8_text_Cons [of _ "[c, c2]" s2] s(1) show ?thesis by auto
  next
    case three
    then have n: "\<not> c \<le> 0x7F" "\<not> c \<le> 0xDF" by (auto simp: byte_nat)
    with 2(5) three obtain c2 c3 s3 where s: "s = c2 # c3 # s3"
      "\<not> (c = 0xE0 \<and> (c2 < 0xA0 \<or> c2 > 0xBF))" "\<not> (c = 0xED \<and> (c2 < 0x80 \<or> c2 > 0x9F))"
      "\<not> (c \<noteq> 0xE0 \<and> c \<noteq> 0xED \<and> (c2 < 0x80 \<or> c2 > 0xBF))" "\<not> (c3 < 0x80 \<or> c3 > 0xBF)"
      "utf8_check_loop s3 = None"
      by (simp split: list.splits if_splits)
    then have "utf8_text s3" using 2(3) three n by auto
    moreover have "\<exists>n. scalar n \<and> n < 0x40000 \<and> utf8_bytes n = [c, c2, c3]"
      by (rule decode3) (use three s in \<open>auto simp: byte_nat\<close>)
    ultimately show ?thesis using utf8_text_Cons [of _ "[c, c2, c3]" s3] s(1) by auto
  next
    case four
    then have n: "\<not> c \<le> 0x7F" "\<not> c \<le> 0xDF" "\<not> c \<le> 0xEF" by (auto simp: byte_nat)
    with 2(5) four obtain c2 c3 c4 s4 where s: "s = c2 # c3 # c4 # s4"
      "\<not> (c = 0xF0 \<and> (c2 < 0x90 \<or> c2 > 0xBF))" "\<not> (c \<noteq> 0xF0 \<and> (c2 < 0x80 \<or> c > 0xBF))"
      "\<not> (c3 < 0x80 \<or> c3 > 0xBF)" "\<not> (c4 < 0x80 \<or> c4 > 0xBF)" "utf8_check_loop s4 = None"
      by (simp split: list.splits if_splits)
    then have "utf8_text s4" using 2(4) four n by auto
    moreover have "\<exists>n. scalar n \<and> n < 0x40000 \<and> utf8_bytes n = [c, c2, c3, c4]"
      by (rule decode4) (use four s in auto)
    ultimately show ?thesis using utf8_text_Cons [of _ "[c, c2, c3, c4]" s4] s(1) by auto
  qed
qed

lemma check_complete: "utf8_text bs \<Longrightarrow> utf8_check_loop bs = None"
proof -
  have "list_all (\<lambda>n. scalar n \<and> n < 0x40000) ns \<Longrightarrow> utf8_check_loop (concat (map utf8_bytes ns)) = None"
    for ns by (induction ns) (auto simp: check_step)
  then show "utf8_text bs \<Longrightarrow> utf8_check_loop bs = None" by (auto simp: utf8_text_def)
qed

lemma check_iff: "utf8_check_loop bs = None \<longleftrightarrow> utf8_text bs"
  using check_sound check_complete by blast

text \<open>The encodings that are refused: surrogates, and the code points from 0x40000 on.\<close>

lemma check_refused:
  assumes "n < 0x110000" "\<not> (scalar n \<and> n < 0x40000)"
  shows "utf8_check_loop (utf8_bytes n) \<noteq> None"
proof (cases "n < 0x40000")
  case True
  then have sur: "0xD800 \<le> n" "n < 0xE000" using assms by (auto simp: scalar_def)
  define a b c where "a = n div 4096" and "b = n div 64 mod 64" and "c = n mod 64"
  have n: "n = a * 4096 + b * 64 + c" unfolding a_def b_def c_def by (rule digits64)
  have d: "b < 64" "c < 64" by (auto simp: b_def c_def)
  have a: "a = 13" using sur by (auto simp: a_def)
  have "32 \<le> b" using n d sur a by auto
  moreover have "utf8_bytes n = [of_nat (0xE0 + a), of_nat (0x80 + b), of_nat (0x80 + c)]"
    using sur by (simp add: utf8_bytes_def a_def b_def c_def)
  ultimately show ?thesis
    using d a by (simp add: byte_nat unat_byte del: of_nat_add)
next
  case False
  define a b c e where "a = n div 262144" and "b = n div 4096 mod 64" and "c = n div 64 mod 64"
    and "e = n mod 64"
  have d: "1 \<le> a" "a \<le> 4" "b < 64" "c < 64" "e < 64"
    using False assms(1) by (auto simp: a_def b_def c_def e_def less_eq_div_iff_mult_less_eq)
  have "utf8_bytes n = [of_nat (0xF0 + a), of_nat (0x80 + b), of_nat (0x80 + c), of_nat (0x80 + e)]"
    using False by (simp add: utf8_bytes_def a_def b_def c_def e_def)
  then show ?thesis
    using d by (simp add: byte_nat unat_byte del: of_nat_add)
qed

text \<open>C35: \<open>pcl_utf8_check\<close> accepts exactly the concatenated UTF-8 encodings of Unicode scalar values
  below 0x40000, and reports \<open>PCL_EILSEQ\<close> for all other bytes.\<close>

theorem utf8_check_exact:
  assumes "0 < len" "len \<le> length s" "\<not> frozen w"
  shows "if utf8_text (take len s) then pcl_utf8_check s len w = Some (0, w)
    else \<exists>w'. pcl_utf8_check s len w = Some (-1, w') \<and> err w' = PCL_EILSEQ"
proof (cases "utf8_check_loop (take len s)")
  case None
  then show ?thesis
    using assms check_iff [of "take len s"] by (simp add: pcl_utf8_check_def mem_read_def)
next
  case (Some e)
  then have "\<not> utf8_text (take len s)" using check_iff [of "take len s"] by simp
  then show ?thesis
    using assms Some by (cases e) (simp add: pcl_utf8_check_def mem_read_def macros_thawed)
qed

theorem utf8_check_exact_witness:
  "if utf8_text (take 2 [195, 169, 0]) then pcl_utf8_check [195, 169, 0] 2 err_init = Some (0, err_init)
    else \<exists>w'. pcl_utf8_check [195, 169, 0] 2 err_init = Some (-1, w') \<and> err w' = PCL_EILSEQ"
  by (rule utf8_check_exact) (simp_all add: err_init_def)

text \<open>\<open>pcl_utf8_encode\<close> writes the UTF-8 encoding of every code point up to 0x10FFFF, and
  \<open>pcl_utf8_check\<close> accepts what it wrote exactly for the scalar values below 0x40000: the valid
  characters above are refused.\<close>

theorem utf8_encode_check:
  assumes "code \<le> 0x10FFFF" "4 \<le> length buf" "\<not> frozen w"
  shows "\<exists>bs. bs = utf8_bytes (unat code)
    \<and> pcl_utf8_encode code (Some buf) w = Some (int (length bs), Some (bs @ drop (length bs) buf), w)
    \<and> map_option fst (pcl_utf8_check bs (length bs) w)
        = Some (if scalar (unat code) \<and> unat code < 0x40000 then 0 else -1)"
proof -
  let ?bs = "utf8_bytes (unat code)"
  have len: "length ?bs \<noteq> 0" by (simp add: utf8_bytes_def)
  have lt: "unat code < 0x110000" using assms(1) by (simp add: word_le_nat_alt)
  have "utf8_check_loop ?bs = None \<longleftrightarrow> scalar (unat code) \<and> unat code < 0x40000"
    using check_refused [OF lt] check_step [of "unat code" "[]"]
    by (metis append_Nil2 utf8_check_loop.simps(1))
  then have "map_option fst (pcl_utf8_check ?bs (length ?bs) w)
      = Some (if scalar (unat code) \<and> unat code < 0x40000 then 0 else -1)"
    using len assms(3)
    by (auto simp: pcl_utf8_check_def mem_read_def macros_thawed split: option.splits)
  with encode_reference [OF assms(1,2), of w] show ?thesis by blast
qed

theorem utf8_encode_check_witness:
  "\<exists>bs. bs = utf8_bytes (unat (0x1F600 :: 32 word))
    \<and> pcl_utf8_encode 0x1F600 (Some [0, 0, 0, 0]) err_init
        = Some (int (length bs), Some (bs @ drop (length bs) [0, 0, 0, 0]), err_init)
    \<and> map_option fst (pcl_utf8_check bs (length bs) err_init)
        = Some (if scalar (unat (0x1F600 :: 32 word)) \<and> unat (0x1F600 :: 32 word) < 0x40000 then 0 else -1)"
  by (rule utf8_encode_check) (simp_all add: err_init_def)

section \<open>Hexadecimal text\<close>

definition hex_digit :: "nat \<Rightarrow> byte" where
  "hex_digit n = [48, 49, 50, 51, 52, 53, 54, 55, 56, 57, 97, 98, 99, 100, 101, 102] ! n"

fun hex_encode_loop ::
  "byte list \<Rightarrow> nat \<Rightarrow> byte list \<Rightarrow> nat \<Rightarrow> nat \<Rightarrow> (byte list \<times> nat) option" where
  "hex_encode_loop buf p data dp 0 = Some (buf, p)"
| "hex_encode_loop buf p data dp (Suc len) =
     do { d \<leftarrow> rd data (int dp);
          b1 \<leftarrow> wr buf (int p) (hex_digit (unat (drop_bit 4 (d AND 0xF0))));
          b2 \<leftarrow> wr b1 (int (p + 1)) (hex_digit (unat (d AND 0x0F)));
          hex_encode_loop b2 (p + 2) data (dp + 1) len }"

definition pcl_hex_encode ::
  "byte list option \<Rightarrow> nat \<Rightarrow> byte list option \<Rightarrow> nat \<Rightarrow> 'z pcl_err_scheme \<Rightarrow>
     (int \<times> byte list option \<times> 'z pcl_err_scheme) option" where
  "pcl_hex_encode bufo sz datao len w =
     (if sz < (len * 2 + 1) mod 2 ^ 64
      then (let (r, w1) = SETERR (''hex_encode.c'', ''pcl_hex_encode'', 49) PCL_EBUF w
            in Some (r, bufo, w1))
      else do { buf \<leftarrow> bufo;
                (b, p) \<leftarrow> (if len = 0 then Some (buf, 0)
                          else do { data \<leftarrow> datao; hex_encode_loop buf 0 data 0 len });
                b1 \<leftarrow> wr b (int p) 0;
                Some (to_int p, Some b1, w) })"

definition chr2bin :: "byte \<Rightarrow> byte option" where
  "chr2bin hex =
     (if hex \<ge> 48 \<and> hex \<le> 57 then Some (hex - 48)
      else if hex \<ge> 65 \<and> hex \<le> 70 then Some (hex - 65 + 10)
      else if hex \<ge> 97 \<and> hex \<le> 102 then Some (hex - 97 + 10)
      else None)"

text \<open>The loop answers whether all digits were good, with the bytes written so far.\<close>

fun hex_decode_loop ::
  "byte list \<Rightarrow> byte list \<Rightarrow> nat \<Rightarrow> nat \<Rightarrow> (bool \<times> byte list) option" where
  "hex_decode_loop hex b i 0 = Some (True, b)"
| "hex_decode_loop hex b i (Suc n) =
     do { h1 \<leftarrow> rd hex (int (i * 2));
          case chr2bin h1 of
            None \<Rightarrow> Some (False, b)
          | Some b1 \<Rightarrow>
              do { h2 \<leftarrow> rd hex (int (i * 2 + 1));
                   case chr2bin h2 of
                     None \<Rightarrow> Some (False, b)
                   | Some b2 \<Rightarrow> do { b' \<leftarrow> wr b (int i) (push_bit 4 b1 OR b2);
                                    hex_decode_loop hex b' (i + 1) n } } }"

definition pcl_hex_decode ::
  "byte list option \<Rightarrow> nat \<Rightarrow> byte list option \<Rightarrow> 'z pcl_err_scheme \<Rightarrow>
     (int \<times> byte list option \<times> 'z pcl_err_scheme) option" where
  "pcl_hex_decode bufo sz hexo w =
     (case (bufo, hexo) of
        (Some buf, Some hex) \<Rightarrow>
          if sz < 2 then Some (0, bufo, w)
          else do { b \<leftarrow> wr buf 0 0;
                    len \<leftarrow> c_strlen hex;
                    if len < 2 \<or> len mod 2 \<noteq> 0
                    then (let (r, w1) = BADARG (''hex_decode.c'', ''pcl_hex_decode'', 66) w
                          in Some (r, Some b, w1))
                    else do { h0 \<leftarrow> rd hex 0;
                              h1 \<leftarrow> rd hex 1;
                              let skip = (if h0 = 48 \<and> h1 = 120 then 2 else 0);
                              let n = (len - skip) div 2;
                              if sz < n
                              then (let (r, w1) = SETERR (''hex_decode.c'', ''pcl_hex_decode'', 74)
                                          PCL_EBUF w in Some (r, Some b, w1))
                              else do { (good, b1) \<leftarrow> hex_decode_loop (drop skip hex) b 0 n;
                                        if good then Some (to_int n, Some b1, w)
                                        else (let (r, w1) = SETERR (''hex_decode.c'',
                                                    ''pcl_hex_decode'', 81) PCL_EFORMAT w
                                              in Some (r, Some b1, w1)) } } }
      | _ \<Rightarrow> Some (0, bufo, w))"

text \<open>Every byte is the byte its two digits decode to.\<close>

definition hex2 :: "byte \<Rightarrow> byte list" where
  "hex2 d = [hex_digit (unat (drop_bit 4 (d AND 0xF0))), hex_digit (unat (d AND 0x0F))]"

definition hex_ok :: "byte \<Rightarrow> bool" where
  "hex_ok d \<longleftrightarrow> (case hex2 d of
       [h1, h2] \<Rightarrow> h1 \<noteq> 0 \<and> h2 \<noteq> 0 \<and> h2 \<noteq> 120
         \<and> (case (chr2bin h1, chr2bin h2) of (Some b1, Some b2) \<Rightarrow> push_bit 4 b1 OR b2 = d | _ \<Rightarrow> False)
     | _ \<Rightarrow> False)"

lemma hex_ok_upt: "list_all (\<lambda>n. hex_ok (of_nat n)) [0..<256]"
  by code_simp

lemma hex_ok: "hex_ok d"
proof -
  have "\<forall>n \<in> {0..<256}. hex_ok (of_nat n)"
    using hex_ok_upt by (simp only: list_all_iff set_upt)
  then have "hex_ok (of_nat (unat d))"
    using byte_lt [of d] by (meson atLeastLessThan_iff zero_le)
  then show ?thesis by simp
qed

lemma hex2_decode:
  obtains h1 h2 b1 b2 where "hex2 d = [h1, h2]" "h1 \<noteq> 0" "h2 \<noteq> 0" "h2 \<noteq> 120" "chr2bin h1 = Some b1"
    "chr2bin h2 = Some b2" "push_bit 4 b1 OR b2 = d"
  using hex_ok [of d] by (auto simp: hex_ok_def hex2_def split: list.splits option.splits)

definition hex_text :: "byte list \<Rightarrow> byte list" where
  "hex_text ds = concat (map hex2 ds)"

lemma hex_text_simps [simp]:
  "hex_text [] = []" "hex_text (d # ds) = hex2 d @ hex_text ds"
  by (simp_all add: hex_text_def)

lemma hex2_length [simp]: "length (hex2 d) = 2"
  by (simp add: hex2_def)

lemma hex_text_length [simp]: "length (hex_text ds) = 2 * length ds"
  by (induction ds) auto

lemma hex_text_nul: "0 \<notin> set (hex_text ds)"
proof (induction ds)
  case (Cons d ds)
  obtain h1 h2 b1 b2 where "hex2 d = [h1, h2]" "h1 \<noteq> 0" "h2 \<noteq> 0" by (rule hex2_decode [of d])
  then show ?case using Cons by auto
qed simp

lemma hex_encode_loop_ok:
  assumes "dp + n \<le> length data" "p + 2 * n \<le> length buf"
  shows "hex_encode_loop buf p data dp n =
    Some (take p buf @ hex_text (take n (drop dp data)) @ drop (p + 2 * n) buf, p + 2 * n)"
  using assms
proof (induction n arbitrary: buf p dp)
  case (Suc n)
  let ?d = "data ! dp"
  have dr: "take (Suc n) (drop dp data) = ?d # take n (drop (Suc dp) data)"
    using Suc.prems by (simp add: Cons_nth_drop_Suc [symmetric])
  obtain h1 h2 where h: "hex2 ?d = [h1, h2]" by (simp add: hex2_def)
  define b2 where "b2 = (buf[p := h1])[Suc p := h2]"
  have len: "length b2 = length buf" by (simp add: b2_def)
  have "take (Suc (Suc p)) b2 = take p buf @ [h1, h2]"
    using Suc.prems by (simp add: b2_def take_Suc_conv_app_nth)
  moreover have "drop (Suc (Suc (p + 2 * n))) b2 = drop (Suc (Suc (p + 2 * n))) buf"
    by (simp add: b2_def)
  moreover have "hex_encode_loop buf p data dp (Suc n) = hex_encode_loop b2 (p + 2) data (dp + 1) n"
    using Suc.prems h by (simp add: rd_def wr_def b2_def hex2_def nat_add_distrib)
  moreover have "hex_encode_loop b2 (p + 2) data (dp + 1) n =
    Some (take (p + 2) b2 @ hex_text (take n (drop (dp + 1) data)) @ drop (p + 2 + 2 * n) b2, p + 2 + 2 * n)"
    by (rule Suc.IH) (use Suc.prems len in auto)
  ultimately show ?case using dr h by simp
qed simp

lemma hex_decode_loop_ok:
  assumes "i + n \<le> length b" "hex = pre @ hex_text ds @ r" "length pre = 2 * i" "length ds = n"
  shows "hex_decode_loop hex b i n = Some (True, take i b @ ds @ drop (i + n) b)"
  using assms
proof (induction n arbitrary: b i pre ds)
  case (Suc n)
  then obtain d ds' where ds: "ds = d # ds'" by (cases ds) auto
  obtain h1 h2 b1 b2 where h: "hex2 d = [h1, h2]" "chr2bin h1 = Some b1" "chr2bin h2 = Some b2"
    "push_bit 4 b1 OR b2 = d"
    by (rule hex2_decode [of d])
  have hx: "hex = (pre @ [h1, h2]) @ hex_text ds' @ r" using Suc.prems(2) ds h(1) by simp
  have "rd hex (int (i * 2)) = Some h1" "rd hex (int (i * 2 + 1)) = Some h2"
    unfolding rd_int using hx Suc.prems(3) by (simp_all add: nth_append)
  moreover have "wr b (int i) d = Some (b[i := d])" using Suc.prems(1) by (simp add: wr_int)
  ultimately have "hex_decode_loop hex b i (Suc n) = hex_decode_loop hex (b[i := d]) (i + 1) n"
    using h by simp
  also have "\<dots> = Some (True, take (i + 1) (b[i := d]) @ ds' @ drop (i + 1 + n) (b[i := d]))"
    by (rule Suc.IH [OF _ hx]) (use Suc.prems ds in auto)
  also have "\<dots> = Some (True, take i b @ ds @ drop (i + Suc n) b)"
    using Suc.prems(1) ds by simp
  finally show ?case .
qed simp

text \<open>C36: Hexadecimal text decodes to the bytes it was made of, for 1 to 2^30 - 1 bytes: \<open>pcl_hex_encode\<close> writes two
  digits per byte and a NUL, and \<open>pcl_hex_decode\<close> of this text gives the data back. (From 2^30 bytes on the length of
  the text no longer fits the \<open>int\<close> that is returned.)\<close>

theorem hex_roundtrip:
  assumes "0 < len" "len < 2 ^ 30" "len \<le> length data" "2 * len < sz" "sz \<le> length buf"
    "2 \<le> sz'" "len \<le> sz'" "sz' \<le> length out"
  shows "\<exists>tx. pcl_hex_encode (Some buf) sz (Some data) len w = Some (2 * int len, Some tx, w)
    \<and> pcl_hex_decode (Some out) sz' (Some tx) w = Some (int len, Some (take len data @ drop len out), w)"
proof -
  define ds where "ds = take len data"
  have ld: "length ds = len" using assms(3) by (simp add: ds_def)
  define tx where "tx = hex_text ds @ 0 # drop (2 * len + 1) buf"
  have "hex_encode_loop buf 0 data 0 len = Some (hex_text ds @ drop (2 * len) buf, 2 * len)"
    using hex_encode_loop_ok [of 0 len data 0 buf] assms by (simp add: ds_def)
  moreover have "wr (hex_text ds @ drop (2 * len) buf) (int (2 * len)) 0 = Some tx"
  proof -
    have "drop (2 * len) buf = buf ! (2 * len) # drop (2 * len + 1) buf"
      using assms(4,5) by (simp add: Cons_nth_drop_Suc)
    then show ?thesis
      using ld assms(4,5) by (simp add: wr_int tx_def list_update_append del: of_nat_mult)
  qed
  ultimately have enc: "pcl_hex_encode (Some buf) sz (Some data) len w = Some (2 * int len, Some tx, w)"
    using assms(1,2,4) by (simp add: pcl_hex_encode_def INT_MAX_def)
  obtain d ds' where dd: "ds = d # ds'" using ld assms(1) by (cases ds) auto
  obtain h1 h2 where h: "hex2 d = [h1, h2]" "h2 \<noteq> 120" by (rule hex2_decode [of d]) auto
  have t: "tx = h1 # h2 # hex_text ds' @ 0 # drop (2 * len + 1) buf"
    using dd h by (simp add: tx_def)
  have sl: "c_strlen tx = Some (2 * len)"
    using strlen_nul [OF hex_text_nul [of ds]] ld by (simp add: tx_def)
  have "wr out 0 0 = Some (out[0 := 0])" using assms(6,8) by (cases out) (simp_all add: wr_def)
  moreover have "rd tx 0 = Some h1" "rd tx 1 = Some h2" using t by (simp_all add: rd_def)
  moreover have "hex_decode_loop tx (out[0 := 0]) 0 len
      = Some (True, take 0 (out[0 := 0]) @ ds @ drop (0 + len) (out[0 := 0]))"
    by (rule hex_decode_loop_ok [of _ _ _ _ "[]" ds "0 # drop (2 * len + 1) buf"])
      (use ld assms tx_def in auto)
  moreover have "drop len (out[0 := 0]) = drop len out" using assms(1) by simp
  ultimately have "pcl_hex_decode (Some out) sz' (Some tx) w = Some (int len, Some (ds @ drop len out), w)"
    using assms(1,2,6,7) sl h(2) by (simp add: pcl_hex_decode_def INT_MAX_def)
  with enc show ?thesis by (auto simp: ds_def)
qed

theorem hex_roundtrip_witness:
  "\<exists>tx. pcl_hex_encode (Some [1, 1, 1, 1, 1]) 5 (Some [222, 173]) 2 err_init
      = Some (2 * int 2, Some tx, err_init)
    \<and> pcl_hex_decode (Some [7, 7]) 2 (Some tx) err_init
      = Some (int 2, Some (take 2 [222, 173] @ drop 2 [7, 7]), err_init)"
  by (rule hex_roundtrip) simp_all

section \<open>Base64\<close>

text \<open>The wrappers around \<open>EVP_EncodeBlock\<close> and \<open>EVP_DecodeBlock\<close>, parameters: of a block and its length, an
  \<open>int\<close>, the text, and the result with the bytes written. A length that is not negative is read from the block.\<close>

definition evp_input :: "byte list \<Rightarrow> int \<Rightarrow> byte list option" where
  "evp_input data len = (if 0 \<le> len then mem_read data 0 (nat len) else Some [])"

definition pcl_base64_encode ::
  "(byte list \<Rightarrow> int \<Rightarrow> byte list) \<Rightarrow> byte list option \<Rightarrow> nat \<Rightarrow> byte list option \<Rightarrow> nat \<Rightarrow>
     'z pcl_err_scheme \<Rightarrow> (int \<times> byte list option \<times> 'z pcl_err_scheme) option" where
  "pcl_base64_encode encode_block bufo sz datao len w =
     (case (bufo, datao) of
        (Some buf, Some data) \<Rightarrow>
          if sz < (4 * ((len + 2) mod 2 ^ 64 div 3) + 1) mod 2 ^ 64
          then (let (r, w1) = SETERR (''base64_encode.c'', ''pcl_base64_encode'', 45) PCL_EBUF w
                in Some (r, bufo, w1))
          else do { d \<leftarrow> evp_input data (to_int len);
                    let text = encode_block d (to_int len);
                    b \<leftarrow> mem_copy buf 0 (text @ [0]);
                    Some (to_int (length text), Some b, w) }
      | _ \<Rightarrow> (let (r, w1) = BADARG (''base64_encode.c'', ''pcl_base64_encode'', 40) w
              in Some (r, bufo, w1)))"

definition pcl_base64_decode ::
  "(byte list \<Rightarrow> int \<Rightarrow> int \<times> byte list) \<Rightarrow> byte list option \<Rightarrow> nat \<Rightarrow> byte list option \<Rightarrow>
     'z pcl_err_scheme \<Rightarrow> (int \<times> byte list option \<times> 'z pcl_err_scheme) option" where
  "pcl_base64_decode decode_block bufo sz b64o w =
     (case (bufo, b64o) of
        (Some buf, Some b64) \<Rightarrow>
          do { n \<leftarrow> c_strlen b64;
               let len = to_int n;
               need \<leftarrow> cint (len + 1);
               if to_int sz < need
               then (let (r, w1) = SETERR (''base64_decode.c'', ''pcl_base64_decode'', 45) PCL_EBUF w
                     in Some (r, bufo, w1))
               else do { s \<leftarrow> evp_input b64 len;
                         let (r, bs) = decode_block s len;
                         b \<leftarrow> mem_copy buf 0 bs;
                         Some (r, Some b, w) } }
      | _ \<Rightarrow> (let (r, w1) = BADARG (''base64_decode.c'', ''pcl_base64_decode'', 40) w
              in Some (r, bufo, w1)))"

text \<open>With an encoder that keeps to base64's length the encoder's output, NUL included, never
  leaves a buffer of the size that was announced.\<close>

lemma base64_encode_fits:
  assumes "\<And>d. length (encode_block d (int (length d))) = 4 * ((length d + 2) div 3)" "sz \<le> length buf"
    "len \<le> length data" "int len \<le> INT_MAX"
  shows "pcl_base64_encode encode_block (Some buf) sz (Some data) len w \<noteq> None"
proof -
  have "(4 * ((len + 2) mod 2 ^ 64 div 3) + 1) mod 2 ^ 64 = 4 * ((len + 2) div 3) + 1"
    using assms(4) by (simp add: INT_MAX_def)
  moreover have "length (encode_block (take len data) (int len)) = 4 * ((len + 2) div 3)"
    using assms(1) [of "take len data"] assms(3) by simp
  ultimately show ?thesis
    using assms(2-4)
    by (auto simp: pcl_base64_encode_def evp_input_def Let_def mem_read_def mem_copy_def split: prod.splits)
qed

end
