(* ===== verification/PclString.thy ===== *)
theory PclString imports PclBufOk PclArray begin

text \<open>
  The string functions of \<open>src/string\<close> and the inline ones of \<open>include/pcl/string.h\<close>. The source
  compiles every file twice, for \<open>char\<close> and for \<open>wchar_t\<close>; the model is generic in the character
  type, whose zero is the NUL. A string is a block that holds a NUL; reading a block without one
  runs over its end. Two strings that are passed to one call do not overlap. The C library's
  character tests and conversions are parameters.
\<close>

section \<open>Copying into a block\<close>

text \<open>\<open>dest\<close> or \<open>NULL\<close> is returned as a truth value, with the block.\<close>

definition pcl_strncat ::
  "'a::zero list option \<Rightarrow> nat \<Rightarrow> 'a list option \<Rightarrow> nat \<Rightarrow> (bool \<times> 'a list option) option" where
  "pcl_strncat dest sz src len =
     (case dest of
        None \<Rightarrow> Some (False, None)
      | Some d \<Rightarrow>
          if sz = 0 then Some (False, dest)
          else (case src of
              None \<Rightarrow> Some (True, dest)
            | Some s \<Rightarrow>
                do { n \<leftarrow> (if len \<noteq> 0 then Some len else c_strlen s);
                     if n = 0 then Some (True, dest)
                     else do { dest_len \<leftarrow> c_strlen d;
                               let avail = int sz - int dest_len;
                               if avail \<le> 0 then Some (True, dest)
                               else if int n \<ge> avail then Some (False, dest)
                               else do { bytes \<leftarrow> mem_read s 0 n;
                                         d1 \<leftarrow> mem_copy d (int dest_len) bytes;
                                         d2 \<leftarrow> wr d1 (int (dest_len + n)) 0;
                                         Some (True, Some d2) } } }))"

definition pcl_strncpy ::
  "'a::zero list option \<Rightarrow> nat \<Rightarrow> 'a list option \<Rightarrow> nat \<Rightarrow> 'z pcl_err_scheme \<Rightarrow>
     (bool \<times> 'a list option \<times> 'z pcl_err_scheme) option" where
  "pcl_strncpy dest sz src len w =
     (let fail = (\<lambda>line b w. (False, b, snd (SETERR (''strncpy.c'', ''pcl_strncpy'', line) PCL_EBUF w)))
      in case dest of
        None \<Rightarrow> Some (fail 38 None w)
      | Some d \<Rightarrow>
          if sz = 0 then Some (fail 38 dest w)
          else do { d0 \<leftarrow> wr d 0 0;
                    case src of
                      None \<Rightarrow> Some (False, Some d0, w)
                    | Some s \<Rightarrow>
                        do { n \<leftarrow> (if len \<noteq> 0 then Some len else c_strlen s);
                             if n = 0 then Some (True, Some d0, w)
                             else if n \<ge> sz then Some (fail 48 (Some d0) w)
                             else do { bytes \<leftarrow> mem_read s 0 n;
                                       d1 \<leftarrow> mem_copy d0 0 bytes;
                                       d2 \<leftarrow> wr d1 (int n) 0;
                                       Some (True, Some d2, w) } } })"

text \<open>\<open>pcl_strtrunc\<close>: the size and the length are \<open>size_t\<close>.\<close>

definition pcl_strtrunc :: "'a::zero list \<Rightarrow> nat \<Rightarrow> 'a list \<Rightarrow> 'a list option" where
  "pcl_strtrunc dest dest_size src =
     do { src_len \<leftarrow> c_strlen src;
          let n = (if dest_size \<le> src_len then to_size (int dest_size - 1) else src_len);
          bytes \<leftarrow> mem_read src 0 (to_size (int n + 1));
          mem_copy dest 0 bytes }"

section \<open>Duplicates and slices\<close>

text \<open>A \<open>NULL\<close> string goes to the memory handler, which ends the process.\<close>

definition pcl_strndup :: "'a::zero list option \<Rightarrow> nat \<Rightarrow> 'a list option" where
  "pcl_strndup so len =
     do { s \<leftarrow> so;
          n \<leftarrow> (if len = 0 then c_strlen s else Some len);
          bytes \<leftarrow> mem_read s 0 n;
          Some (bytes @ [0]) }"

definition pcl_strslice ::
  "'a::zero list option \<Rightarrow> nat \<Rightarrow> nat \<Rightarrow> 'z pcl_err_scheme \<Rightarrow>
     ('a list option \<times> 'z pcl_err_scheme) option" where
  "pcl_strslice so pos len w =
     (case so of
        None \<Rightarrow> Some (R_SETERR None (''strslice.c'', ''pcl_strslice'', 38) PCL_EINVAL w)
      | Some s \<Rightarrow>
          do { n \<leftarrow> c_strlen s;
               if to_size (int pos + int len) > n
               then Some (R_SETERR None (''strslice.c'', ''pcl_strslice'', 41) PCL_EINDEX w)
               else if pos \<le> length s
               then do { d \<leftarrow> pcl_strndup (Some (drop pos s)) len; Some (Some d, w) }
               else None })"

text \<open>On Unix the conversions between UTF-8 and the platform's text are duplicates.\<close>

definition pcl_pcs_to_utf8 ::
  "'a::zero list option \<Rightarrow> nat \<Rightarrow> 'z pcl_err_scheme \<Rightarrow>
     ('a list option \<times> nat option \<times> 'z pcl_err_scheme) option" where
  "pcl_pcs_to_utf8 srco src_len w =
     (case srco of
        None \<Rightarrow> Some (None, None, snd (SETERR (''pcs_to_utf8.c'', ''pcl_pcs_to_utf8'', 76) PCL_EINVAL w))
      | Some src \<Rightarrow>
          do { n \<leftarrow> (if src_len = 0 then c_strlen src else Some src_len);
               s \<leftarrow> pcl_strndup (Some src) n;
               Some (Some s, Some n, w) })"

definition pcl_utf8_to_pcs ::
  "'a::zero list option \<Rightarrow> nat \<Rightarrow> 'z pcl_err_scheme \<Rightarrow>
     ('a list option \<times> nat option \<times> 'z pcl_err_scheme) option" where
  "pcl_utf8_to_pcs srco src_len w =
     (case srco of
        None \<Rightarrow> Some (None, None, snd (SETERR (''utf8_to_pcs.c'', ''pcl_utf8_to_pcs'', 68) PCL_EINVAL w))
      | Some src \<Rightarrow>
          do { n \<leftarrow> (if src_len = 0 then c_strlen src else Some src_len);
               s \<leftarrow> pcl_strndup (Some src) n;
               Some (Some s, Some n, w) })"

section \<open>Changes in place\<close>

definition default_set :: "'a::semiring_1 list" where
  "default_set = map of_nat [32, 9, 10, 11, 12, 13] @ [0]"

text \<open>The first loop: how many leading characters are in the set.\<close>

fun trim_left_loop :: "'a::zero list \<Rightarrow> 'a list \<Rightarrow> nat option" where
  "trim_left_loop cs [] = None"
| "trim_left_loop cs (c # s) =
     (if c \<noteq> 0 \<and> c \<in> set cs then map_option Suc (trim_left_loop cs s) else Some 0)"

text \<open>The second loop, from the last character down; the argument and the result are \<open>p + 1\<close>.\<close>

fun trim_right_loop :: "'a::zero list \<Rightarrow> 'a list \<Rightarrow> nat \<Rightarrow> nat option" where
  "trim_right_loop cs s 0 = Some 0"
| "trim_right_loop cs s (Suc p) =
     do { c \<leftarrow> rd s (int p);
          if c \<in> set cs then trim_right_loop cs s p else Some (Suc p) }"

definition trim_front :: "'a::zero list \<Rightarrow> 'a list \<Rightarrow> 'a list option" where
  "trim_front cs s =
     do { k \<leftarrow> trim_left_loop cs s;
          if k = 0 then Some s
          else do { n \<leftarrow> c_strlen (drop k s);
                    mem_move s 0 (int k) (int n + 1) } }"

definition trim_back :: "'a::zero list \<Rightarrow> 'a list \<Rightarrow> 'a list option" where
  "trim_back cs s =
     do { n \<leftarrow> c_strlen s;
          p \<leftarrow> trim_right_loop cs s n;
          wr s (int p) 0 }"

definition pcl_strtrimset ::
  "'a::semiring_1 list \<Rightarrow> 'a list option \<Rightarrow> bool \<Rightarrow> bool \<Rightarrow> 'a list option" where
  "pcl_strtrimset s seto ltrim rtrim =
     do { let st = (case seto of None \<Rightarrow> default_set | Some st \<Rightarrow> st);
          m \<leftarrow> c_strlen st;
          s1 \<leftarrow> (if ltrim then trim_front (take m st) s else Some s);
          if rtrim then trim_back (take m st) s1 else Some s1 }"

text \<open>The loops that run over a string up to its NUL and replace single characters.\<close>

fun map_string :: "('a::zero \<Rightarrow> 'a) \<Rightarrow> 'a list \<Rightarrow> 'a list option" where
  "map_string f [] = None"
| "map_string f (c # s) = (if c = 0 then Some (c # s) else map_option (Cons (f c)) (map_string f s))"

definition pcl_strlower :: "('a::zero \<Rightarrow> bool) \<Rightarrow> ('a \<Rightarrow> 'a) \<Rightarrow> 'a list \<Rightarrow> 'a list option" where
  "pcl_strlower isupper tolower s = map_string (\<lambda>c. if isupper c then tolower c else c) s"

definition pcl_wcsupper :: "('a::zero \<Rightarrow> bool) \<Rightarrow> ('a \<Rightarrow> 'a) \<Rightarrow> 'a list \<Rightarrow> 'a list option" where
  "pcl_wcsupper iswlower towupper s = map_string (\<lambda>c. if iswlower c then towupper c else c) s"

definition pcl_strrepchr :: "'a::zero list \<Rightarrow> 'a \<Rightarrow> 'a \<Rightarrow> 'a list option" where
  "pcl_strrepchr s oldch newch = map_string (\<lambda>c. if c = oldch then newch else c) s"

text \<open>\<open>pcl_strupper\<close> walks the bytes of a \<open>char\<close> string as \<open>int\<close>s of four bytes. \<open>islower\<close> of a
  value that is not an \<open>unsigned char\<close> is undefined behaviour.\<close>

fun pcl_strupper :: "(byte \<Rightarrow> bool) \<Rightarrow> (byte \<Rightarrow> byte) \<Rightarrow> byte list \<Rightarrow> byte list option" where
  "pcl_strupper islower toupper (a # b # c # d # s) =
     (if a = 0 \<and> b = 0 \<and> c = 0 \<and> d = 0 then Some (a # b # c # d # s)
      else if b = 0 \<and> c = 0 \<and> d = 0
      then map_option (\<lambda>r. (if islower a then toupper a else a) # b # c # d # r)
             (pcl_strupper islower toupper s)
      else None)"
| "pcl_strupper islower toupper _ = None"

text \<open>\<open>pcl_strskipws\<close>: the offset of the first character that is not white space.\<close>

fun pcl_strskipws :: "('a \<Rightarrow> bool) \<Rightarrow> 'a list \<Rightarrow> nat option" where
  "pcl_strskipws isspace [] = None"
| "pcl_strskipws isspace (c # s) =
     (if isspace c then map_option Suc (pcl_strskipws isspace s) else Some 0)"

section \<open>Searching\<close>

text \<open>\<open>strstr\<close> of the C library: the offset of the first occurrence.\<close>

fun str_find :: "'a list \<Rightarrow> 'a list \<Rightarrow> nat option" where
  "str_find d s =
     (if take (length d) s = d then Some 0
      else case s of [] \<Rightarrow> None | _ # s' \<Rightarrow> map_option Suc (str_find d s'))"

definition c_strstr :: "'a::zero list \<Rightarrow> 'a list \<Rightarrow> nat option option" where
  "c_strstr s d =
     do { n \<leftarrow> c_strlen s; m \<leftarrow> c_strlen d; Some (str_find (take m d) (take n s)) }"

text \<open>\<open>pcl_stristr\<close>: the inner loop compares behind the first characters, the outer one moves along
  the haystack.\<close>

fun stri_match :: "('a::zero \<Rightarrow> 'a) \<Rightarrow> 'a list \<Rightarrow> 'a list \<Rightarrow> bool option" where
  "stri_match lower hs [] = None"
| "stri_match lower hs (n # ns) =
     (if n = 0 then Some True
      else case hs of
          [] \<Rightarrow> None
        | h # hs' \<Rightarrow> if lower h \<noteq> lower n then Some False else stri_match lower hs' ns)"

fun stri_loop :: "('a::zero \<Rightarrow> 'a) \<Rightarrow> 'a \<Rightarrow> 'a list \<Rightarrow> 'a list \<Rightarrow> nat option option" where
  "stri_loop lower c ns [] = None"
| "stri_loop lower c ns (h # hs) =
     (if h = 0 then Some None
      else do { found \<leftarrow> (if lower h = c then stri_match lower hs ns else Some False);
                if found then Some (Some 0)
                else map_option (map_option Suc) (stri_loop lower c ns hs) })"

definition pcl_stristr :: "('a::zero \<Rightarrow> 'a) \<Rightarrow> 'a list \<Rightarrow> 'a list \<Rightarrow> nat option option" where
  "pcl_stristr lower haystack needle =
     (case needle of
        [] \<Rightarrow> None
      | n # ns \<Rightarrow> if lower n = 0 then Some (Some 0) else stri_loop lower (lower n) ns haystack)"

section \<open>Splitting and replacing\<close>

text \<open>The elements of the array are the duplicates. An empty delimiter never ends the loop.\<close>

partial_function (option) strsplit_loop ::
  "('a::zero list \<Rightarrow> 'a list \<Rightarrow> nat option option) \<Rightarrow> 'a list \<Rightarrow> nat \<Rightarrow> 'a list option \<Rightarrow>
     ('a list, 'c) pcl_array option \<Rightarrow> 'z pcl_err_scheme \<Rightarrow>
     (('a list, 'c) pcl_array option \<times> 'z pcl_err_scheme) option" where
  "strsplit_loop fn_strstr delim delim_len so arr w =
     (case so of
        None \<Rightarrow> Some (arr, w)
      | Some s \<Rightarrow>
          Option.bind (rd s 0) (\<lambda>c.
            if c = 0 then Some (arr, w)
            else Option.bind (fn_strstr s delim) (\<lambda>p.
              case p of
                None \<Rightarrow>
                  Option.bind (pcl_strndup (Some s) 0) (\<lambda>elem.
                    Option.bind (pcl_array_append arr (Some elem) w) (\<lambda>res.
                      strsplit_loop fn_strstr delim delim_len None (fst (snd res)) (snd (snd res))))
              | Some k \<Rightarrow>
                  Option.bind (pcl_strndup (Some s) k) (\<lambda>elem.
                    Option.bind (pcl_array_append arr (Some elem) w) (\<lambda>res.
                      strsplit_loop fn_strstr delim delim_len (Some (drop (k + delim_len) s))
                        (fst (snd res)) (snd (snd res)))))))"

definition strsplit_impl ::
  "'c \<Rightarrow> ('a::zero \<Rightarrow> 'a) \<Rightarrow> 'a list option \<Rightarrow> 'a list \<Rightarrow> bool \<Rightarrow> 'z pcl_err_scheme \<Rightarrow>
     (('a list, 'c) pcl_array option \<times> 'z pcl_err_scheme) option" where
  "strsplit_impl pcl_cleanup_ptr lower s delim casefold w =
     do { delim_len \<leftarrow> c_strlen delim;
          let arr = pcl_array_new 4 (Some pcl_cleanup_ptr);
          strsplit_loop (if casefold then pcl_stristr lower else c_strstr) delim delim_len s (Some arr) w }"

definition pcl_strsplit ::
  "'c \<Rightarrow> ('a::zero \<Rightarrow> 'a) \<Rightarrow> 'a list option \<Rightarrow> 'a list \<Rightarrow> 'z pcl_err_scheme \<Rightarrow>
     (('a list, 'c) pcl_array option \<times> 'z pcl_err_scheme) option" where
  "pcl_strsplit cp lower s d w = strsplit_impl cp lower s d False w"

definition pcl_strisplit ::
  "'c \<Rightarrow> ('a::zero \<Rightarrow> 'a) \<Rightarrow> 'a list option \<Rightarrow> 'a list \<Rightarrow> 'z pcl_err_scheme \<Rightarrow>
     (('a list, 'c) pcl_array option \<times> 'z pcl_err_scheme) option" where
  "pcl_strisplit cp lower s d w = strsplit_impl cp lower s d True w"

text \<open>\<open>strncmp\<close> and \<open>strncasecmp\<close> compared with 0: equal up to \<open>n\<close> characters or a common NUL.\<close>

fun strn_equal :: "('a::zero \<Rightarrow> 'a) \<Rightarrow> 'a list \<Rightarrow> 'a list \<Rightarrow> nat \<Rightarrow> bool option" where
  "strn_equal lower s t 0 = Some True"
| "strn_equal lower (a # s) (b # t) (Suc n) =
     (if lower a \<noteq> lower b then Some False else if a = 0 then Some True else strn_equal lower s t n)"
| "strn_equal lower _ _ (Suc n) = None"

text \<open>\<open>replace_impl\<close> for \<open>char\<close> (the \<open>wchar_t\<close> version puts the same characters into a wide buffer).
  The results of the puts are not looked at. An empty \<open>from\<close> never ends the loop.\<close>

partial_function (option) replace_loop ::
  "byte \<Rightarrow> (byte \<Rightarrow> byte) \<Rightarrow> byte list \<Rightarrow> byte list \<Rightarrow> int \<Rightarrow> int \<Rightarrow> byte list \<Rightarrow> pcl_buf option \<Rightarrow>
     'z pcl_err_scheme \<Rightarrow> (pcl_buf option \<times> 'z pcl_err_scheme) option" where
  "replace_loop junk lower from_s to_s from_len to_len s buf w =
     Option.bind (rd s 0) (\<lambda>c.
       if c = 0 then Some (buf, w)
       else Option.bind (strn_equal lower s from_s (nat from_len)) (\<lambda>equal.
         if equal
         then Option.bind (pcl_buf_put junk buf (Some to_s) to_len w) (\<lambda>res.
                replace_loop junk lower from_s to_s from_len to_len (drop (nat from_len) s)
                  (fst (snd res)) (snd (snd res)))
         else Option.bind (pcl_buf_putchar junk buf (scast c) w) (\<lambda>res.
                replace_loop junk lower from_s to_s from_len to_len (drop 1 s)
                  (fst (snd res)) (snd (snd res)))))"

definition replace_impl ::
  "byte \<Rightarrow> (byte \<Rightarrow> byte) \<Rightarrow> byte list \<Rightarrow> byte list \<Rightarrow> byte list \<Rightarrow> 'z pcl_err_scheme \<Rightarrow>
     (bptr \<times> 'z pcl_err_scheme) option" where
  "replace_impl junk lower s from_s to_s w =
     do { t \<leftarrow> c_strlen to_s;
          f \<leftarrow> c_strlen from_s;
          (bo, w1) \<leftarrow> pcl_buf_init junk None 64 (buf_mode_code PclBufText) w;
          (bo1, w2) \<leftarrow> replace_loop junk lower from_s to_s (to_int f) (to_int t) s bo w1;
          b \<leftarrow> bo1;
          Some (bf_data b, w2) }"

definition pcl_strreplace ::
  "byte \<Rightarrow> byte list \<Rightarrow> byte list \<Rightarrow> byte list \<Rightarrow> 'z pcl_err_scheme \<Rightarrow>
     (bptr \<times> 'z pcl_err_scheme) option" where
  "pcl_strreplace junk subject from_s to_s w = replace_impl junk (\<lambda>c. c) subject from_s to_s w"

definition pcl_strireplace ::
  "byte \<Rightarrow> (byte \<Rightarrow> byte) \<Rightarrow> byte list \<Rightarrow> byte list \<Rightarrow> byte list \<Rightarrow> 'z pcl_err_scheme \<Rightarrow>
     (bptr \<times> 'z pcl_err_scheme) option" where
  "pcl_strireplace junk lower subject from_s to_s w = replace_impl junk lower subject from_s to_s w"

section \<open>Formatted concatenation\<close>

text \<open>The formatted text is a parameter (see \<open>vxprintf\<close> in the buffer's model), here of single bytes.\<close>

definition pcl_strcatf :: "byte list \<Rightarrow> nat \<Rightarrow> formatted \<Rightarrow> byte list option" where
  "pcl_strcatf dest sz t =
     do { n \<leftarrow> c_strlen dest;
          (_, d) \<leftarrow> vxprintf_write (Blk dest) (int n) (int sz - int n) 1 t;
          (case d of Blk b \<Rightarrow> Some b | _ \<Rightarrow> None) }"

definition pcl_vastrcatf ::
  "byte \<Rightarrow> byte list option \<Rightarrow> formatted \<Rightarrow> 'z pcl_err_scheme \<Rightarrow>
     (byte list option \<times> 'z pcl_err_scheme) option" where
  "pcl_vastrcatf junk srco t w =
     (let res_len = vxprintf_len t in
      if res_len < 0 then Some (R_TRC None (''astrcatf.c'', ''pcl_vastrcatf'', 56) w)
      else do { src_len \<leftarrow> (case srco of None \<Rightarrow> Some 0 | Some s \<Rightarrow> c_strlen s);
                total \<leftarrow> cint (res_len + (int src_len + 1));
                src \<leftarrow> (case srco of None \<Rightarrow> Some [] | Some s \<Rightarrow> mem_read s 0 src_len);
                res \<leftarrow> mem_copy (replicate (nat total) junk) 0 src;
                (n, d) \<leftarrow> vxprintf_write (Blk res) (int src_len) (total - int src_len) 1 t;
                if n < 0
                then Some (None, snd (TRC (''astrcatf.c'', ''pcl_vastrcatf'', 71) w))
                else (case d of Blk b \<Rightarrow> Some (Some b, w) | _ \<Rightarrow> None) })"

end
