(* ===== verification/PclStringOk.thy ===== *)
theory PclStringOk imports PclString begin

text \<open>
  What the string functions do to strings: a block is written \<open>s @ 0 # r\<close> with no NUL in \<open>s\<close>, so
  \<open>s\<close> is the string and \<open>r\<close> the slack behind its NUL.
\<close>

lemmas nul_simps = strlen_nul rd_def wr_def mem_read_def mem_copy_def

section \<open>Duplicates, slices, bounded copies\<close>

lemma strndup_all: "0 \<notin> set s \<Longrightarrow> pcl_strndup (Some (s @ 0 # r)) 0 = Some (s @ [0])"
  by (simp add: pcl_strndup_def nul_simps)

lemma strndup_some:
  "0 < k \<Longrightarrow> k \<le> length s \<Longrightarrow> pcl_strndup (Some (s @ r)) k = Some (take k s @ [0])"
  by (simp add: pcl_strndup_def nul_simps)

text \<open>A slice of positive length is that part of the string; a slice of length zero is the whole
  rest; and a position near the top of \<open>size_t\<close> passes the bounds check.\<close>

lemma strslice_ok:
  assumes "0 \<notin> set s" "0 < len" "pos + len \<le> length s" "length s < 2 ^ 64"
  shows "pcl_strslice (Some (s @ 0 # r)) pos len w = Some (Some (take len (drop pos s) @ [0]), w)"
proof -
  have "to_size (int pos + int len) = pos + len"
    using assms(3,4) by (simp add: to_size_def nat_int_add)
  then show ?thesis
    using assms strndup_some [of len "drop pos s" "0 # r"] by (simp add: pcl_strslice_def strlen_nul)
qed

lemma strslice_zero:
  assumes "0 \<notin> set s" "pos \<le> length s" "length s < 2 ^ 64"
  shows "pcl_strslice (Some (s @ 0 # r)) pos 0 w = Some (Some (drop pos s @ [0]), w)"
proof -
  have "0 \<notin> set (drop pos s)" using assms(1) by (meson in_set_dropD)
  moreover have "to_size (int pos) = pos" using assms(2,3) by (simp add: to_size_def)
  ultimately show ?thesis
    using assms strndup_all [of "drop pos s" r] by (simp add: pcl_strslice_def strlen_nul)
qed

lemma strslice_wrap:
  assumes "0 \<notin> set s" "length (s @ 0 # r) < 2 ^ 64 - 1"
  shows "pcl_strslice (Some (s @ 0 # r)) (2 ^ 64 - 1) 1 w = None"
  using assms by (simp add: pcl_strslice_def strlen_nul to_size_def)

text \<open>A truncated copy is not terminated: it is the first \<open>size\<close> characters of the source.\<close>

lemma strtrunc_cut:
  assumes "0 \<notin> set s" "0 < n" "n \<le> length s" "n \<le> length dest" "length s < 2 ^ 64"
  shows "pcl_strtrunc dest n (s @ 0 # r) = Some (take n s @ drop n dest)"
proof -
  have "to_size (int n - 1) = n - 1" "to_size (int (n - 1) + 1) = n"
    using assms(2,3,5) by (auto simp: to_size_def)
  then show ?thesis
    using assms by (simp add: pcl_strtrunc_def strlen_nul mem_read_def mem_copy_def)
qed

lemma strtrunc_fits:
  assumes "0 \<notin> set s" "length s < n" "n \<le> length dest" "length s < 2 ^ 63"
  shows "pcl_strtrunc dest n (s @ 0 # r) = Some (s @ 0 # drop (length s + 1) dest)"
proof -
  have "to_size (int (length s) + 1) = length s + 1" using assms(4) by (simp add: to_size_def nat_add_distrib)
  then show ?thesis
    using assms by (simp add: pcl_strtrunc_def strlen_nul mem_read_def mem_copy_def)
qed

text \<open>Concatenation appends when the result and its NUL fit, and leaves the block alone when not.\<close>

lemma mem_copy_at:
  "length xs = d \<Longrightarrow> length b \<le> length ys \<Longrightarrow>
     mem_copy (xs @ ys) (int d) b = Some (xs @ b @ drop (length b) ys)"
  by (simp add: mem_copy_def)

lemma strncat_ok:
  assumes "0 \<notin> set d" "0 \<notin> set s" "length d + length s < sz" "sz \<le> length (d @ 0 # r)"
  shows "pcl_strncat (Some (d @ 0 # r)) sz (Some (s @ 0 # q)) 0
    = Some (True, Some (if s = [] then d @ 0 # r else d @ s @ 0 # drop (length s) r))"
proof (cases "s = []")
  case False
  then obtain c s' where s: "s = c # s'" by (cases s) auto
  have m: "mem_copy (d @ 0 # r) (int (length d)) s = Some (d @ s @ drop (length s) (0 # r))"
    by (rule mem_copy_at) (use assms in auto)
  have l: "length s \<le> length r" using assms(3,4) by simp
  have "drop (length s) (0 # r) = (0 # r) ! length s # drop (length s) r"
    using l Cons_nth_drop_Suc [of "length s" "0 # r"] by simp
  then have w: "wr (d @ s @ drop (length s) (0 # r)) (int (length d + length s)) 0
      = Some (d @ s @ 0 # drop (length s) r)"
    using wr_int [of "d @ s @ drop (length s) (0 # r)" "length d + length s" 0] l
    by (simp add: list_update_append)
  show ?thesis
    using False assms m w by (auto simp: pcl_strncat_def strlen_nul mem_read_def)
qed (use assms in \<open>auto simp: pcl_strncat_def strlen_nul\<close>)

lemma strncat_full:
  assumes "0 \<notin> set d" "0 \<notin> set s" "sz \<le> length d + length s" "0 < sz" "s \<noteq> []"
  shows "pcl_strncat (Some (d @ 0 # r)) sz (Some (s @ 0 # q)) 0
    = Some (sz \<le> length d, Some (d @ 0 # r))"
  using assms by (auto simp: pcl_strncat_def strlen_nul)

section \<open>Trimming\<close>

definition set_chars :: "'a::semiring_1 list option \<Rightarrow> 'a list option" where
  "set_chars seto = (let st = (case seto of None \<Rightarrow> default_set | Some st \<Rightarrow> st)
                     in map_option (\<lambda>m. take m st) (c_strlen st))"

definition trimmed :: "'a list \<Rightarrow> bool \<Rightarrow> bool \<Rightarrow> 'a list \<Rightarrow> 'a list" where
  "trimmed cs l r s =
     (let s1 = (if l then dropWhile (\<lambda>c. c \<in> set cs) s else s)
      in if r then rev (dropWhile (\<lambda>c. c \<in> set cs) (rev s1)) else s1)"

lemma trim_left_loop_ok:
  "0 \<notin> set s \<Longrightarrow> trim_left_loop cs (s @ 0 # r) = Some (length (takeWhile (\<lambda>c. c \<in> set cs) s))"
  by (induction s) auto

lemma trim_right_loop_ok:
  "trim_right_loop cs (s @ r) (length s) = Some (length (dropWhile (\<lambda>c. c \<in> set cs) (rev s)))"
proof (induction s arbitrary: r rule: rev_induct)
  case (snoc c s)
  show ?case
  proof (cases "c \<in> set cs")
    case True
    then show ?thesis using snoc.IH [of "c # r"] by (simp add: rd_int)
  qed (simp add: rd_int)
qed simp

lemma dropWhile_drop: "dropWhile P s = drop (length (takeWhile P s)) s"
  by (simp add: dropWhile_eq_drop)

lemma rev_dropWhile_take:
  "rev (dropWhile P (rev s)) = take (length (dropWhile P (rev s))) s"
  by (metis append_take_drop_id length_rev append_eq_conv_conj rev_append rev_rev_ident takeWhile_dropWhile_id)

lemma move_front:
  assumes "k \<le> length s"
  shows "\<exists>r'. mem_move (s @ 0 # r) 0 (int k) (int (length s - k) + 1) = Some (drop k s @ 0 # r')"
proof -
  define m where "m = Suc (length s - k)"
  have e: "int (length s - k) + 1 = int m" by (simp add: m_def)
  have le: "m \<le> length (s @ 0 # r)" "k + m \<le> length (s @ 0 # r)" using assms by (simp_all add: m_def)
  then have le': "0 + int m \<le> int (length (s @ 0 # r))" "int k + int m \<le> int (length (s @ 0 # r))"
    by linarith+
  have "take m (drop k (s @ 0 # r)) = drop k s @ [0]"
    using assms by (simp add: m_def)
  then show ?thesis
    unfolding e mem_move_def using le' by simp
qed

lemma trim_front_ok:
  assumes "0 \<notin> set s"
  shows "\<exists>r'. trim_front cs (s @ 0 # r) = Some (dropWhile (\<lambda>c. c \<in> set cs) s @ 0 # r')
    \<and> length (dropWhile (\<lambda>c. c \<in> set cs) s @ 0 # r') = length (s @ 0 # r)"
proof -
  define k where "k = length (takeWhile (\<lambda>c. c \<in> set cs) s)"
  have dk: "dropWhile (\<lambda>c. c \<in> set cs) s = drop k s" by (simp add: k_def dropWhile_drop)
  have kl: "k \<le> length s" by (simp add: k_def length_takeWhile_le)
  have loop: "trim_left_loop cs (s @ 0 # r) = Some k"
    using trim_left_loop_ok [OF assms] by (simp add: k_def)
  show ?thesis
  proof (cases "k = 0")
    case False
    have "0 \<notin> set (drop k s)" using assms by (meson in_set_dropD)
    then have "c_strlen (drop k (s @ 0 # r)) = Some (length s - k)"
      using kl strlen_nul [of "drop k s" r] by simp
    moreover obtain r' where r': "mem_move (s @ 0 # r) 0 (int k) (int (length s - k) + 1)
        = Some (drop k s @ 0 # r')"
      using move_front [OF kl, of r] by blast
    ultimately have "trim_front cs (s @ 0 # r) = Some (drop k s @ 0 # r')"
      using loop False by (simp add: trim_front_def)
    with mem_move_length [OF r'] dk show ?thesis by auto
  qed (use loop dk in \<open>simp add: trim_front_def\<close>)
qed

lemma trim_back_ok:
  assumes "0 \<notin> set s"
  shows "\<exists>r'. trim_back cs (s @ 0 # r) = Some (rev (dropWhile (\<lambda>c. c \<in> set cs) (rev s)) @ 0 # r')
    \<and> length (rev (dropWhile (\<lambda>c. c \<in> set cs) (rev s)) @ 0 # r') = length (s @ 0 # r)"
proof -
  define j where "j = length (dropWhile (\<lambda>c. c \<in> set cs) (rev s))"
  have jl: "j \<le> length s"
    using length_dropWhile_le [of "\<lambda>c. c \<in> set cs" "rev s"] by (simp add: j_def)
  have t: "rev (dropWhile (\<lambda>c. c \<in> set cs) (rev s)) = take j s"
    unfolding j_def by (rule rev_dropWhile_take)
  have "trim_right_loop cs (s @ 0 # r) (length s) = Some j"
    by (simp add: trim_right_loop_ok j_def)
  moreover have "wr (s @ 0 # r) (int j) 0 = Some (take j s @ 0 # drop (Suc j) (s @ 0 # r))"
    using jl upd_conv_take_nth_drop [of j "s @ 0 # r" 0] by (simp add: wr_int)
  ultimately have "trim_back cs (s @ 0 # r) = Some (take j s @ 0 # drop (Suc j) (s @ 0 # r))"
    using assms by (simp add: trim_back_def strlen_nul)
  moreover have "length (take j s @ 0 # drop (Suc j) (s @ 0 # r)) = length (s @ 0 # r)"
    using jl by simp
  ultimately show ?thesis unfolding t by blast
qed

text \<open>Trimming removes the leading and the trailing characters of the set, as asked for, in place:
  the block holds the trimmed string and its NUL, and keeps its length.\<close>

theorem strtrimset_spec:
  assumes "0 \<notin> set s" "set_chars seto = Some cs"
  shows "\<exists>r'. pcl_strtrimset (s @ 0 # r) seto l rt = Some (trimmed cs l rt s @ 0 # r')
    \<and> length (trimmed cs l rt s @ 0 # r') = length (s @ 0 # r)"
proof -
  obtain st m where st: "st = (case seto of None \<Rightarrow> default_set | Some st \<Rightarrow> st)"
    "c_strlen st = Some m" "cs = take m st"
    using assms(2) by (auto simp: set_chars_def Let_def)
  define s1 where "s1 = (if l then dropWhile (\<lambda>c. c \<in> set cs) s else s)"
  have nz: "0 \<notin> set s1" using assms(1) by (auto simp: s1_def dest: set_dropWhileD)
  obtain r1 where r1: "(if l then trim_front cs (s @ 0 # r) else Some (s @ 0 # r)) = Some (s1 @ 0 # r1)"
    "length (s1 @ 0 # r1) = length (s @ 0 # r)"
    using trim_front_ok [OF assms(1), of cs r] by (cases l) (auto simp: s1_def)
  have t: "trimmed cs l rt s = (if rt then rev (dropWhile (\<lambda>c. c \<in> set cs) (rev s1)) else s1)"
    by (simp add: trimmed_def s1_def)
  have eq: "pcl_strtrimset (s @ 0 # r) seto l rt
      = (if rt then trim_back cs (s1 @ 0 # r1) else Some (s1 @ 0 # r1))"
    using r1(1) by (cases l; cases rt) (simp_all add: pcl_strtrimset_def st(2,3) flip: st(1))
  show ?thesis
  proof (cases rt)
    case True
    then show ?thesis using trim_back_ok [OF nz, of cs r1] eq t r1(2) by (metis (no_types))
  qed (use eq t r1(2) in auto)
qed

theorem strtrimset_spec_witness:
  "\<exists>r'. pcl_strtrimset ([32, 65, 32, 66, 9] @ 0 # [7]) None True True
      = Some (trimmed (map of_nat [32, 9, 10, 11, 12, 13]) True True ([32, 65, 32, 66, 9] :: byte list) @ 0 # r')
    \<and> length (trimmed (map of_nat [32, 9, 10, 11, 12, 13]) True True ([32, 65, 32, 66, 9] :: byte list) @ 0 # r')
        = length ([32, 65, 32, 66, 9] @ (0 :: byte) # [7])"
  by (rule strtrimset_spec) (simp_all add: set_chars_def default_set_def)

section \<open>Case\<close>

lemma map_string_ok: "0 \<notin> set s \<Longrightarrow> map_string f (s @ 0 # r) = Some (map f s @ 0 # r)"
  by (induction s) auto

lemma strlower_ok:
  "0 \<notin> set s \<Longrightarrow> pcl_strlower up low (s @ 0 # r)
     = Some (map (\<lambda>c. if up c then low c else c) s @ 0 # r)"
  by (simp add: pcl_strlower_def map_string_ok)

lemma wcsupper_ok:
  "0 \<notin> set s \<Longrightarrow> pcl_wcsupper low up (s @ 0 # r)
     = Some (map (\<lambda>c. if low c then up c else c) s @ 0 # r)"
  by (simp add: pcl_wcsupper_def map_string_ok)

text \<open>Uppercasing a \<open>char\<close> string of two or more characters is undefined behaviour, whatever
  follows its NUL: the loop reads the bytes four at a time as an \<open>int\<close>.\<close>

theorem strupper_undefined:
  assumes "0 \<notin> set s" "2 \<le> length s"
  shows "pcl_strupper islower toupper (s @ 0 # r) = None"
proof -
  obtain a b t where s: "s = a # b # t"
    using assms(2) by (cases s; cases "tl s") auto
  have "b \<noteq> 0" using assms(1) s by auto
  then have "pcl_strupper islower toupper (a # b # u) = None" for u
  proof (cases u)
    case (Cons c v)
    then show ?thesis using \<open>b \<noteq> 0\<close> by (cases v) simp_all
  qed simp
  then show ?thesis using s by simp
qed

theorem strupper_undefined_witness:
  "pcl_strupper (\<lambda>c. 97 \<le> c) (\<lambda>c. c - 32) ([97, 98] @ 0 # [0, 0, 0, 0, 0]) = None"
  by (rule strupper_undefined) simp_all

section \<open>Searching\<close>

text \<open>A search for a delimiter, up to a conversion of the characters.\<close>

locale string_search =
  fixes find :: "'a::zero list \<Rightarrow> 'a list \<Rightarrow> nat option option" and conv :: "'a \<Rightarrow> 'a"
  assumes find_law: "0 \<notin> set s \<Longrightarrow> 0 \<notin> set d \<Longrightarrow>
    find (s @ 0 # r) (d @ 0 # q) = Some (str_find (map conv d) (map conv s))"

interpretation exact: string_search c_strstr "\<lambda>c. c"
  by unfold_locales (simp add: c_strstr_def strlen_nul del: str_find.simps)

lemma stri_match_ok:
  assumes "\<And>c. lower c = 0 \<longleftrightarrow> c = (0 :: 'a::zero)"
  shows "0 \<notin> set s \<Longrightarrow> 0 \<notin> set n \<Longrightarrow> stri_match lower (s @ 0 # r) (n @ 0 # q)
    = Some (take (length n) (map lower s) = map lower n)"
proof (induction n arbitrary: s)
  case (Cons c n)
  then show ?case using assms by (cases s) (auto, metis)
qed simp

lemma stri_loop_ok:
  assumes "\<And>c. lower c = 0 \<longleftrightarrow> c = (0 :: 'a::zero)" "0 \<notin> set (n # ns)"
  shows "0 \<notin> set s \<Longrightarrow> stri_loop lower (lower n) (ns @ 0 # q) (s @ 0 # r)
    = Some (str_find (map lower (n # ns)) (map lower s))"
proof (induction s)
  case (Cons c s)
  then show ?case
    using stri_match_ok [OF assms(1), of s ns r q] assms(2)
    by (cases "lower c = lower n") auto
qed simp

lemma stristr_find:
  assumes "\<And>c. lower c = 0 \<longleftrightarrow> c = (0 :: 'a::zero)" "0 \<notin> set s" "0 \<notin> set d"
  shows "pcl_stristr lower (s @ 0 # r) (d @ 0 # q) = Some (str_find (map lower d) (map lower s))"
proof (cases d)
  case Nil
  then show ?thesis using assms(1) by (simp add: pcl_stristr_def)
next
  case (Cons n ns)
  then show ?thesis
    using stri_loop_ok [OF assms(1), of n ns s q r] assms by (simp add: pcl_stristr_def)
qed

text \<open>\<open>pcl_stristr\<close> returns the first position at which the needle occurs in the haystack after
  both are converted to lower case, or \<open>NULL\<close> when there is none.\<close>

theorem stristr_spec:
  assumes "\<forall>c. lower c = 0 \<longleftrightarrow> c = (0 :: 'a::zero)" "0 \<notin> set s" "0 \<notin> set d"
  shows "case pcl_stristr lower (s @ 0 # r) (d @ 0 # q) of
      Some (Some k) \<Rightarrow> take (length d) (drop k (map lower s)) = map lower d
        \<and> (\<forall>j < k. take (length d) (drop j (map lower s)) \<noteq> map lower d)
    | Some None \<Rightarrow> (\<forall>j. take (length d) (drop j (map lower s)) = map lower d \<longrightarrow> length s < j)
    | None \<Rightarrow> False"
proof -
  have first: "(case str_find d s of
      Some k \<Rightarrow> take (length d) (drop k s) = d \<and> (\<forall>j < k. take (length d) (drop j s) \<noteq> d)
    | None \<Rightarrow> (\<forall>j. take (length d) (drop j s) = d \<longrightarrow> length s < j))" for d s :: "'a list"
  proof (induction s)
    case (Cons c s)
    show ?case
    proof (cases "take (length d) (c # s) = d")
      case False
      then have "take (length d) (drop j (c # s)) \<noteq> d" if "j = 0" for j using that by simp
      with False Cons show ?thesis
        by (auto simp: drop_Cons split: option.splits nat.splits)
    qed simp
  qed auto
  show ?thesis
    using stristr_find [of lower s d r q] first [of "map lower d" "map lower s"] assms
    by (auto split: option.splits)
qed

text \<open>\<open>tolower\<close> of the C locale.\<close>

definition ascii_tolower :: "byte \<Rightarrow> byte" where
  "ascii_tolower c = (if 65 \<le> c \<and> c \<le> 90 then c + 32 else c)"

lemma ascii_tolower_zero: "ascii_tolower c = 0 \<longleftrightarrow> c = 0"
proof -
  have "list_all (\<lambda>n. ascii_tolower (of_nat n) = 0 \<longleftrightarrow> n = 0) [0..<256]"
    by code_simp
  then have "\<forall>n \<in> {0..<256}. ascii_tolower (of_nat n) = 0 \<longleftrightarrow> n = 0"
    by (simp only: list_all_iff set_upt)
  then have "ascii_tolower (of_nat (unat c)) = 0 \<longleftrightarrow> unat c = 0"
    using byte_lt [of c] by (meson atLeastLessThan_iff zero_le)
  then show ?thesis by (simp add: unat_eq_zero)
qed

interpretation folded: string_search "pcl_stristr ascii_tolower" ascii_tolower
  by unfold_locales (simp add: stristr_find ascii_tolower_zero)

theorem stristr_spec_witness:
  "case pcl_stristr ascii_tolower ([97, 66, 67] @ 0 # []) ([98, 99] @ 0 # []) of
      Some (Some k) \<Rightarrow>
        take (length [98, 99 :: byte]) (drop k (map ascii_tolower [97, 66, 67])) = map ascii_tolower [98, 99]
        \<and> (\<forall>j < k. take (length [98, 99 :: byte]) (drop j (map ascii_tolower [97, 66, 67]))
             \<noteq> map ascii_tolower [98, 99])
    | Some None \<Rightarrow>
        (\<forall>j. take (length [98, 99 :: byte]) (drop j (map ascii_tolower [97, 66, 67])) = map ascii_tolower [98, 99]
          \<longrightarrow> length [97, 66, 67 :: byte] < j)
    | None \<Rightarrow> False"
  by (rule stristr_spec) (simp_all add: ascii_tolower_zero)

section \<open>Splitting\<close>

fun join :: "'a list \<Rightarrow> 'a list list \<Rightarrow> 'a list" where
  "join d [] = []"
| "join d [p] = p"
| "join d (p # ps) = p @ d @ join d ps"

text \<open>Parts a split can tell apart: not empty, and the delimiter is found right behind each but the
  last, in which it is not found.\<close>

fun separable :: "('a \<Rightarrow> 'a) \<Rightarrow> 'a list \<Rightarrow> 'a list list \<Rightarrow> bool" where
  "separable f d [] = True"
| "separable f d [p] = (p \<noteq> [] \<and> str_find (map f d) (map f p) = None)"
| "separable f d (p # ps) =
     (p \<noteq> [] \<and> str_find (map f d) (map f (p @ d)) = Some (length p) \<and> separable f d ps)"

lemma str_find_append:
  "str_find d (p @ d) = Some (length p) \<Longrightarrow> str_find d (p @ d @ s) = Some (length p)"
proof (induction p)
  case (Cons c p)
  then have ne: "take (length d) (c # p @ d) \<noteq> d" by auto
  have "take (length d) (c # p @ d @ s) = take (length d) (c # p @ d)"
    using take_append [of "length d" "c # p @ d" s] by simp
  with Cons ne show ?case by auto
qed simp

context string_search begin

lemma split_join:
  assumes "separable conv d ps" "0 \<notin> set d" "list_all (\<lambda>p. 0 \<notin> set p) ps"
    "arr_wf a" "arr_count a + int (length ps) \<le> 2 ^ 30"
  shows "\<exists>a'. strsplit_loop find (d @ 0 # q) (length d) (Some (join d ps @ 0 # r)) (Some a) w
      = Some (Some a', w)
    \<and> arr_wf a' \<and> arr_seq a' = arr_seq a @ map (\<lambda>p. Some (p @ [0])) ps"
  using assms
proof (induction d ps arbitrary: a rule: join.induct)
  case (1 d)
  then show ?case by (simp add: strsplit_loop.simps rd_def)
next
  case (2 d p)
  then obtain c p' where p: "p = c # p'" "c \<noteq> 0" by (cases p) auto
  obtain a' where a': "pcl_array_append (Some a) (Some (p @ [0])) w = Some (arr_count a + 1, Some a', w)"
    "arr_wf a'" "arr_seq a' = arr_seq a @ [Some (p @ [0])]"
    by (rule array_append_ok [of a "Some (p @ [0])" w]) (use 2 in auto)
  have "find (p @ 0 # r) (d @ 0 # q) = Some None"
    using find_law [of p d r q] 2 by simp
  moreover have "pcl_strndup (Some (p @ 0 # r)) 0 = Some (p @ [0])"
    using 2 by (simp add: strndup_all)
  ultimately show ?case
    using a' p by (subst strsplit_loop.simps) (simp add: rd_def strsplit_loop.simps)
next
  case (3 d p p2 ps)
  let ?s = "p @ d @ join d (p2 # ps)"
  obtain c p' where p: "p = c # p'" "c \<noteq> 0" using 3 by (cases p) auto
  obtain a1 where a1: "pcl_array_append (Some a) (Some (p @ [0])) w = Some (arr_count a + 1, Some a1, w)"
    "arr_wf a1" "arr_count a1 = arr_count a + 1" "arr_seq a1 = arr_seq a @ [Some (p @ [0])]"
    by (rule array_append_ok [of a "Some (p @ [0])" w]) (use 3 in auto)
  have nz: "0 \<notin> set (join d ps')" if "list_all (\<lambda>p. 0 \<notin> set p) ps'" for ps'
    using that "3.prems"(2) by (induction d ps' rule: join.induct) auto
  have "find (?s @ 0 # r) (d @ 0 # q) = Some (str_find (map conv d) (map conv ?s))"
    by (rule find_law) (use 3 nz in auto)
  also have "str_find (map conv d) (map conv ?s) = Some (length p)"
    using str_find_append [of "map conv d" "map conv p" "map conv (join d (p2 # ps))"] 3 by simp
  finally have f: "find (?s @ 0 # r) (d @ 0 # q) = Some (Some (length p))" .
  have dup: "pcl_strndup (Some (?s @ 0 # r)) (length p) = Some (p @ [0])"
    using strndup_some [of "length p" "p @ d" "join d (p2 # ps) @ 0 # r"] p by simp
  have dr: "drop (length p + length d) (?s @ 0 # r) = join d (p2 # ps) @ 0 # r" by simp
  obtain a' where a': "strsplit_loop find (d @ 0 # q) (length d) (Some (join d (p2 # ps) @ 0 # r)) (Some a1) w
      = Some (Some a', w)" "arr_wf a'"
    "arr_seq a' = arr_seq a1 @ map (\<lambda>p. Some (p @ [0])) (p2 # ps)"
    using "3.IH" [of a1] 3 a1 by auto
  have "strsplit_loop find (d @ 0 # q) (length d) (Some (?s @ 0 # r)) (Some a) w
      = strsplit_loop find (d @ 0 # q) (length d) (Some (join d (p2 # ps) @ 0 # r)) (Some a1) w"
    by (subst strsplit_loop.simps) (use f dup a1(1) p dr in \<open>simp add: rd_def\<close>)
  with a' a1(4) show ?case by auto
qed

end

text \<open>C38: Splitting a text that was joined from separable parts gives back the parts, each a duplicate,
  in the array of \<open>pcl_strsplit\<close>.\<close>

theorem strsplit_join:
  fixes d :: "'a::zero list" and cp :: 'c
  assumes "separable (\<lambda>c. c) d ps" "0 \<notin> set d" "list_all (\<lambda>p. 0 \<notin> set p) ps"
    "int (length ps) \<le> 2 ^ 30"
  shows "\<exists>a. pcl_strsplit cp lower (Some (join d ps @ 0 # r)) (d @ 0 # q) w = Some (Some a, w)
    \<and> arr_wf a \<and> arr_seq a = map (\<lambda>p. Some (p @ [0])) ps"
proof -
  let ?a = "pcl_array_new 4 (Some cp) :: ('a list, 'c) pcl_array"
  have wf: "arr_wf ?a" by (rule array_new_wf) (simp add: INT_MAX_def)
  have n: "arr_count ?a = 0" by (simp add: pcl_array_new_def Let_def)
  have "c_strlen (d @ 0 # q) = Some (length d)" by (rule strlen_nul [OF assms(2)])
  with exact.split_join [OF assms(1-3) wf, of q r w] n assms(4)
  show ?thesis by (simp add: pcl_strsplit_def strsplit_impl_def)
qed

theorem strsplit_join_witness:
  "\<exists>a. pcl_strsplit (0 :: nat) ascii_tolower (Some (join [44, 32] [[97], [98, 44], [99]] @ 0 # []))
      ([44, 32] @ 0 # []) err_init = Some (Some a, err_init)
    \<and> arr_wf a \<and> arr_seq a = map (\<lambda>p. Some (p @ [0])) [[97], [98, 44], [99]]"
  by (rule strsplit_join) simp_all

text \<open>A text that begins with the delimiter is split wrongly: its first part is the whole text,
  delimiter included, instead of nothing, since the duplicate of length zero is a duplicate of
  everything.\<close>

theorem strsplit_leading:
  fixes d :: "'a::zero list" and cp :: 'c
  assumes "d \<noteq> []" "t \<noteq> []" "0 \<notin> set d" "0 \<notin> set t" "str_find d t = None"
  shows "\<exists>a. pcl_strsplit cp lower (Some (d @ t @ 0 # r)) (d @ 0 # q) w = Some (Some a, w)
    \<and> arr_seq a = [Some (d @ t @ [0]), Some (t @ [0])]"
proof -
  let ?a = "pcl_array_new 4 (Some cp) :: ('a list, 'c) pcl_array"
  have wf: "arr_wf ?a" by (rule array_new_wf) (simp add: INT_MAX_def)
  have n: "arr_count ?a = 0" by (simp add: pcl_array_new_def Let_def)
  obtain a1 where a1: "pcl_array_append (Some ?a) (Some (d @ t @ [0])) w = Some (arr_count ?a + 1, Some a1, w)"
    "arr_wf a1" "arr_count a1 = arr_count ?a + 1" "arr_seq a1 = arr_seq ?a @ [Some (d @ t @ [0])]"
    by (rule array_append_ok [OF wf, of "Some (d @ t @ [0])" w]) (simp_all add: n)
  obtain a2 where a2: "strsplit_loop c_strstr (d @ 0 # q) (length d) (Some (t @ 0 # r)) (Some a1) w
      = Some (Some a2, w)" "arr_seq a2 = arr_seq a1 @ [Some (t @ [0])]"
    using exact.split_join [of d "[t]" a1 q r w] assms a1 n by auto
  obtain c d' where d: "d = c # d'" "c \<noteq> 0" using assms(1,3) by (cases d) auto
  have "c_strstr (d @ t @ 0 # r) (d @ 0 # q) = Some (str_find d (d @ t))"
    using exact.find_law [of "d @ t" d r q] assms by simp
  then have f: "c_strstr (d @ t @ 0 # r) (d @ 0 # q) = Some (Some 0)" by simp
  have "pcl_strndup (Some (d @ t @ 0 # r)) 0 = Some (d @ t @ [0])"
    using strndup_all [of "d @ t" r] assms by simp
  with f a1(1) d a2(1)
  have "strsplit_loop c_strstr (d @ 0 # q) (length d) (Some (d @ t @ 0 # r)) (Some ?a) w = Some (Some a2, w)"
    by (subst strsplit_loop.simps) (simp add: rd_def)
  then show ?thesis
    using a1(4) a2(2) strlen_nul [OF assms(3), of q] by (simp add: pcl_strsplit_def strsplit_impl_def)
qed

theorem strsplit_leading_witness:
  "\<exists>a. pcl_strsplit (0 :: nat) ascii_tolower (Some ([44] @ [98] @ 0 # [])) ([44] @ 0 # []) err_init
      = Some (Some a, err_init)
    \<and> arr_seq a = [Some ([44] @ [98] @ [0]), Some ([98] @ [0])]"
  by (rule strsplit_leading) simp_all

text \<open>With an empty delimiter the loop does not return.\<close>

lemma strsplit_empty_delim:
  fixes c :: "'a::zero"
  assumes "strsplit_loop c_strstr (0 # q) 0 (Some (c # s)) arr w = Some res" "c \<noteq> 0"
  shows False
proof -
  have "fn = c_strstr \<longrightarrow> dl = 0 # q \<longrightarrow> n = 0 \<longrightarrow> so = Some (c # s) \<longrightarrow> False"
    if st: "strsplit_loop fn dl n so arr w = Some res" for fn dl n so arr w res
  proof (rule strsplit_loop.raw_induct [OF _ st], goal_cases)
    case (1 rec fn dl n so arr w res)
    show ?case
    proof (intro impI)
      assume h: "fn = c_strstr" "dl = 0 # q" "n = 0" "so = Some (c # s)"
      with 1(2) assms(2) obtain p where p: "c_strstr (c # s) (0 # q) = Some p"
        by (auto simp: rd_def bind_simps)
      then obtain m where "c_strlen (c # s) = Some m" by (cases "c_strlen (c # s)") (auto simp: c_strstr_def)
      moreover have "str_find [] x = Some 0" for x :: "'a list" by simp
      ultimately have "c_strstr (c # s) (0 # q) = Some (Some 0)"
        by (simp add: c_strstr_def del: str_find.simps c_strlen.simps(2)) simp
      with 1(2) h assms(2) obtain arr' w'
        where "rec c_strstr (0 # q) 0 (Some (c # s)) arr' w' = Some res"
        by (auto simp: rd_def bind_simps)
      from 1(1) [OF this] show False by simp
    qed
  qed
  with assms(1) show False by blast
qed

section \<open>Replacing\<close>

fun replace_all :: "('a \<Rightarrow> 'a) \<Rightarrow> 'a list \<Rightarrow> 'a list \<Rightarrow> 'a list \<Rightarrow> 'a list" where
  "replace_all f from_s to_s [] = []"
| "replace_all f from_s to_s (c # s) =
     (if from_s \<noteq> [] \<and> take (length from_s) (map f (c # s)) = map f from_s
      then to_s @ replace_all f from_s to_s (drop (length from_s - 1) s)
      else c # replace_all f from_s to_s s)"

lemma strn_equal_ok:
  assumes "\<And>c. lower c = 0 \<longleftrightarrow> c = (0 :: 'a::zero)"
  shows "0 \<notin> set s \<Longrightarrow> 0 \<notin> set t \<Longrightarrow>
    strn_equal lower (s @ 0 # r) (t @ 0 # q) (length t) = Some (take (length t) (map lower s) = map lower t)"
proof (induction t arbitrary: s)
  case (Cons c t)
  then show ?case using assms by (cases s) (auto, metis)
qed simp

lemma word_bytes_char: "\<exists>bs. word_bytes (scast c :: 32 word) = (c :: byte) # bs"
proof -
  have "(ucast (scast c :: 32 word) :: byte) = c"
    by transfer (simp add: take_bit_signed_take_bit)
  then have "(of_nat (unat (scast c :: 32 word)) :: byte) = c" by simp
  moreover have e: "LENGTH(32) div 8 = Suc 3" by simp
  ultimately show ?thesis unfolding word_bytes_def e le_bytes.simps(2) by simp
qed

lemma cap_shrinks: "buf_cap b k \<Longrightarrow> m \<le> k \<Longrightarrow> buf_cap b m"
proof -
  assume a: "buf_cap b k" "m \<le> k"
  have "2 * (max (bf_size b) (2 * (nat (bf_len b) + m + 1)) + m + 2)
      \<le> 2 * (max (bf_size b) (2 * (nat (bf_len b) + k + 1)) + k + 2)"
    using a(2) by (intro mult_le_mono2 add_mono max.mono) auto
  with a(1) show ?thesis unfolding buf_cap_def by (meson order_trans)
qed

lemma replace_loop_ok:
  assumes lower: "\<And>c. lower c = 0 \<longleftrightarrow> c = (0 :: byte)"
    and strings: "0 \<notin> set from_s" "from_s \<noteq> []"
  shows "0 \<notin> set s \<Longrightarrow> buf_cap b (length (replace_all lower from_s to_s s)) \<Longrightarrow>
    nat (bf_pos b) = length (bf_content b) \<Longrightarrow> bf_data b \<noteq> Null \<Longrightarrow>
    \<exists>b' w'. replace_loop junk lower (from_s @ 0 # q) (to_s @ 0 # p) (int (length from_s)) (int (length to_s))
        (s @ 0 # r) (Some b) w = Some (Some b', w')
      \<and> bf_wf b' \<and> bf_chrsize b' = 1 \<and> bf_data b' \<noteq> Null
      \<and> bf_content b' = bf_content b @ replace_all lower from_s to_s s
      \<and> (to_s \<noteq> [] \<longrightarrow> w' = w)"
proof (induction "length s" arbitrary: s b w rule: less_induct)
  case less
  show ?case
  proof (cases s)
    case Nil
    then show ?thesis
      using less.prems by (subst replace_loop.simps) (auto simp: rd_def buf_cap_def)
  next
    case (Cons c s')
    let ?R = "replace_all lower from_s to_s"
    let ?loop = "replace_loop junk lower (from_s @ 0 # q) (to_s @ 0 # p) (int (length from_s))
      (int (length to_s))"
    have c: "c \<noteq> 0" "rd (s @ 0 # r) 0 = Some c" using Cons less.prems(1) by (auto simp: rd_def)
    have eq: "strn_equal lower (s @ 0 # r) (from_s @ 0 # q) (nat (int (length from_s)))
        = Some (take (length from_s) (map lower s) = map lower from_s)"
      using strn_equal_ok [OF lower less.prems(1) strings(1)] by simp
    show ?thesis
    proof (cases "take (length from_s) (map lower s) = map lower from_s")
      case True
      define s1 where "s1 = drop (length from_s) s"
      have le: "length from_s \<le> length s"
        using arg_cong [OF True, of length] by simp
      have R: "?R s = to_s @ ?R s1"
        using True strings(2) Cons by (cases from_s) (auto simp: s1_def)
      have d: "drop (nat (int (length from_s))) (s @ 0 # r) = s1 @ 0 # r"
        using le by (simp add: s1_def)
      have s1: "0 \<notin> set s1" "length s1 < length s"
      proof -
        have "0 < length from_s" "0 < length s" using strings(2) Cons by auto
        then show "length s1 < length s" by (simp add: s1_def)
        show "0 \<notin> set s1" using less.prems(1) by (auto simp: s1_def dest: in_set_dropD)
      qed
      obtain b1 w1 res where put: "pcl_buf_put junk (Some b) (Some (to_s @ 0 # p)) (int (length to_s)) w
          = Some (res, Some b1, w1)"
        "buf_cap b1 (length (?R s1))" "bf_content b1 = bf_content b @ to_s"
        "nat (bf_pos b1) = length (bf_content b1)" "bf_data b1 \<noteq> Null" "to_s \<noteq> [] \<longrightarrow> w1 = w"
      proof (cases "to_s = []")
        case True
        obtain r1 w1 where bad: "BADARG (''buf_put.c'', ''pcl_buf_put'', 39) w = (r1, w1)" by fastforce
        have "pcl_buf_put junk (Some b) (Some (to_s @ 0 # p)) (int (length to_s)) w
            = Some (r1, Some b, w1)"
          using True bad by (simp add: pcl_buf_put_def)
        moreover have "buf_cap b (length (?R s1))" "bf_content b = bf_content b @ to_s"
          using less.prems(2) R True by simp_all
        ultimately show ?thesis using less.prems(3,4) True by (intro that) simp_all
      next
        case False
        have t: "0 < length to_s" "length to_s \<le> length (?R s)"
          "length to_s \<le> length (to_s @ 0 # p)"
          using False R by auto
        obtain b' where "pcl_buf_put junk (Some b) (Some (to_s @ 0 # p)) (int (length to_s)) w
            = Some (int (length to_s), Some b', w)"
          "buf_cap b' (length (?R s) - length to_s)"
          "bf_content b' = bf_content b @ take (length to_s) (to_s @ 0 # p)"
          "nat (bf_pos b') = length (bf_content b')" "bf_data b' \<noteq> Null"
          by (rule put_end [OF less.prems(2,3) t])
        then show ?thesis using R by (intro that [of _ b']) auto
      qed
      obtain b' w' where "?loop (s1 @ 0 # r) (Some b1) w1 = Some (Some b', w')"
        "bf_wf b'" "bf_chrsize b' = 1" "bf_data b' \<noteq> Null" "bf_content b' = bf_content b1 @ ?R s1" "to_s \<noteq> [] \<longrightarrow> w' = w1"
        using less.hyps [OF s1(2,1) put(2,4,5), of w1] by blast
      then show ?thesis
        using c eq True d put R by (subst replace_loop.simps) simp
    next
      case False
      then have R: "?R s = c # ?R s'" using Cons by auto
      obtain bs where bs: "word_bytes (scast c :: 32 word) = c # bs"
        using word_bytes_char [of c] by blast
      have t: "0 < (1 :: nat)" "1 \<le> length (?R s)" "1 \<le> length (c # bs)" using R by auto
      obtain b1 where b1: "pcl_buf_put junk (Some b) (Some (c # bs)) (int 1) w = Some (int 1, Some b1, w)"
        "buf_cap b1 (length (?R s) - 1)" "bf_content b1 = bf_content b @ take 1 (c # bs)"
        "nat (bf_pos b1) = length (bf_content b1)" "bf_data b1 \<noteq> Null"
        by (rule put_end [OF less.prems(2,3) t])
      have s': "0 \<notin> set s'" "length s' < length s" "buf_cap b1 (length (?R s'))"
        using less.prems(1) Cons b1(2) R by auto
      obtain b' w' where "?loop (s' @ 0 # r) (Some b1) w = Some (Some b', w')"
        "bf_wf b'" "bf_chrsize b' = 1" "bf_data b' \<noteq> Null" "bf_content b' = bf_content b1 @ ?R s'" "to_s \<noteq> [] \<longrightarrow> w' = w"
        using less.hyps [OF s'(2,1,3) b1(4,5), of w] by blast
      then show ?thesis
        using c eq False b1(1,3) R Cons bs
        by (subst replace_loop.simps) (simp add: pcl_buf_putchar_def)
    qed
  qed
qed

text \<open>C37: \<open>pcl_strreplace\<close> returns a new string in which every occurrence of a non-empty \<open>from\<close>,
  searched from left to right and not overlapping, is replaced by \<open>to\<close>; the error is left alone when
  \<open>to\<close> is not empty. (The loop does not advance over an empty \<open>from\<close>.)\<close>

theorem strreplace_spec:
  assumes "0 \<notin> set s" "0 \<notin> set from_s" "0 \<notin> set to_s" "from_s \<noteq> []"
    "length from_s \<le> nat INT_MAX" "length to_s \<le> nat INT_MAX"
    "k = length (replace_all (\<lambda>c. c) from_s to_s s)" "2 * (max 64 (2 * (k + 1)) + k + 2) \<le> nat INT_MAX"
  shows "\<exists>r' w'. pcl_strreplace junk (s @ 0 # r) (from_s @ 0 # q) (to_s @ 0 # p) w
      = Some (Blk (replace_all (\<lambda>c. c) from_s to_s s @ 0 # r'), w')
    \<and> (to_s \<noteq> [] \<longrightarrow> w' = w)"
proof -
  obtain b where b: "pcl_buf_init junk None 64 (buf_mode_code PclBufText) w = Some (Some b, w)"
    "bf_wf b" "bf_mode b = PclBufText" "bf_pos b = 0" "bf_len b = 0" "bf_size b = 64"
    "bf_content b = []" "bf_chrsize b = mode_chrsize PclBufText"
    by (rule init_ok [of 64 PclBufText junk None w]) (auto simp: mode_chrsize_def INT_MAX_def)
  have cap: "buf_cap b k" using b assms(8) by (simp add: buf_cap_def mode_chrsize_def)
  have nn: "bf_data b \<noteq> Null" using b(2,6) by (cases "bf_data b") (auto simp: bf_wf_def)
  have id0: "\<And>c :: byte. c = 0 \<longleftrightarrow> c = 0" by simp
  obtain b' w' where loop: "replace_loop junk (\<lambda>c. c) (from_s @ 0 # q) (to_s @ 0 # p)
      (int (length from_s)) (int (length to_s)) (s @ 0 # r) (Some b) w = Some (Some b', w')"
    "bf_wf b'" "bf_chrsize b' = 1" "bf_data b' \<noteq> Null" "bf_content b' = replace_all (\<lambda>c. c) from_s to_s s"
    "to_s \<noteq> [] \<longrightarrow> w' = w"
    using replace_loop_ok [OF id0 assms(2,4,1), of b to_s junk q p r w] assms(7) cap b(4,7) nn
    by auto
  have "\<exists>r'. bf_data b' = Blk (bf_content b' @ 0 # r')"
  proof (cases "bf_data b'")
    case (Blk bs)
    obtain p l c r where "bf_shape b' p l c (bf_content b') r" "bs = bf_content b' @ replicate c 0 @ r"
      by (rule bf_wf_shape [OF loop(2) Blk])
    then show ?thesis using Blk loop(3) by (auto simp: bf_shape_def)
  qed (use loop(2,4) in \<open>auto simp: bf_wf_def\<close>)
  moreover have "int (length from_s) \<le> INT_MAX" "int (length to_s) \<le> INT_MAX"
    using assms(5,6) by (simp_all add: INT_MAX_def)
  ultimately show ?thesis
    using b(1) loop strlen_nul [OF assms(2), of q] strlen_nul [OF assms(3), of p]
    by (simp add: pcl_strreplace_def replace_impl_def)
qed

lemma strreplace_spec_witness:
  "\<exists>r' w'. pcl_strreplace 7 [97, 98, 97, 0] [97, 0] [120, 121, 0] err_init
     = Some (Blk ([120, 121, 98, 120, 121] @ 0 # r'), w')
   \<and> w' = err_init"
  using strreplace_spec [where s = "[97, 98, 97]" and from_s = "[97]" and to_s = "[120, 121]"
      and k = 5 and junk = 7 and r = "[]" and q = "[]" and p = "[]" and w = err_init]
  by (simp add: INT_MAX_def)

end
