(* ===== verification/PclNodes.thy ===== *)
theory PclNodes imports PclPrelude begin

text \<open>
  The singly linked nodes shared by the queue and the stack: a store of allocated nodes, what it
  means for a pointer to lead through a list of nodes, and the interface of the containers built
  on them. A node address that is not allocated is undefined behaviour to read or free.
\<close>

section \<open>Nodes and the store\<close>

record 'v node =
  nd_value :: "'v option"
  nd_next :: "nat option"

record 'v store =
  st_map :: "nat \<Rightarrow> 'v node option"
  st_fresh :: nat

definition empty_store :: "'v store" where
  "empty_store = \<lparr>st_map = Map.empty, st_fresh = 0\<rparr>"

definition node_alloc :: "'v node \<Rightarrow> 'v store \<Rightarrow> nat \<times> 'v store" where
  "node_alloc n st = (st_fresh st,
     st\<lparr>st_map := (st_map st)(st_fresh st \<mapsto> n), st_fresh := Suc (st_fresh st)\<rparr>)"

definition node_free :: "nat \<Rightarrow> 'v store \<Rightarrow> 'v store option" where
  "node_free a st =
     (if st_map st a = None then None else Some (st\<lparr>st_map := (st_map st)(a := None)\<rparr>))"

definition node_set_next :: "nat \<Rightarrow> nat option \<Rightarrow> 'v store \<Rightarrow> 'v store option" where
  "node_set_next a p st =
     (case st_map st a of None \<Rightarrow> None
      | Some n \<Rightarrow> Some (st\<lparr>st_map := (st_map st)(a \<mapsto> n\<lparr>nd_next := p\<rparr>)\<rparr>))"

text \<open>\<open>path m p as vs\<close>: from the pointer \<open>p\<close> the nodes at \<open>as\<close> follow each other to \<open>NULL\<close> and
  hold the values \<open>vs\<close>.\<close>

fun path :: "(nat \<Rightarrow> 'v node option) \<Rightarrow> nat option \<Rightarrow> nat list \<Rightarrow> 'v option list \<Rightarrow> bool" where
  "path m p [] vs \<longleftrightarrow> p = None \<and> vs = []"
| "path m p (a # as) vs \<longleftrightarrow> p = Some a \<and>
     (case m a of None \<Rightarrow> False
      | Some n \<Rightarrow> vs \<noteq> [] \<and> nd_value n = hd vs \<and> path m (nd_next n) as (tl vs))"

lemma path_Cons: "path m p (a # as) vs \<longleftrightarrow>
    p = Some a \<and> (\<exists>n us. m a = Some n \<and> vs = nd_value n # us \<and> path m (nd_next n) as us)"
  by (cases vs) (auto split: option.splits)

declare path.simps(2) [simp del]
declare path_Cons [simp]

lemma path_length: "path m p as vs \<Longrightarrow> length vs = length as"
  by (induction as arbitrary: p vs) auto

lemma path_None [simp]: "path m None as vs \<longleftrightarrow> as = [] \<and> vs = []"
  by (cases as) auto

lemma path_SomeE:
  assumes "path m (Some a) as vs"
  obtains as' vs' n where "as = a # as'" "vs = nd_value n # vs'" "m a = Some n"
    "path m (nd_next n) as' vs'"
  using assms by (cases as) auto

lemma path_alloc: "path m p as vs \<Longrightarrow> \<forall>a \<in> set as. m a \<noteq> None"
  by (induction as arbitrary: p vs) auto

text \<open>The values of the first \<open>n\<close> nodes from a pointer.\<close>

fun walk :: "(nat \<Rightarrow> 'v node option) \<Rightarrow> nat option \<Rightarrow> nat \<Rightarrow> 'v option list" where
  "walk m p 0 = []"
| "walk m p (Suc n) =
     (case p of None \<Rightarrow> [] | Some a \<Rightarrow>
        (case m a of None \<Rightarrow> [] | Some nd \<Rightarrow> nd_value nd # walk m (nd_next nd) n))"

lemma path_walk: "path m p as vs \<Longrightarrow> walk m p (length vs) = vs"
  by (induction as arbitrary: p vs) auto

text \<open>The store with the nodes of a list freed.\<close>

definition freed :: "nat list \<Rightarrow> 'v store \<Rightarrow> 'v store" where
  "freed as st = st\<lparr>st_map := (\<lambda>b. if b \<in> set as then None else st_map st b)\<rparr>"

lemma freed_Nil [simp]: "freed [] st = st"
  by (simp add: freed_def)

lemma freed_Cons: "freed as (st\<lparr>st_map := (st_map st)(a := None)\<rparr>) = freed (a # as) st"
  by (auto simp: freed_def fun_eq_iff)

text \<open>Storing at an address that is not on the path does not change it.\<close>

lemma path_frame: "a \<notin> set as \<Longrightarrow> path (m(a := x)) p as vs = path m p as vs"
  by (induction as arbitrary: p vs) auto

text \<open>A path reaches every node once.\<close>

lemma path_fun: "path m p as vs \<Longrightarrow> path m p bs us \<Longrightarrow> as = bs \<and> vs = us"
proof (induction as arbitrary: p vs bs us)
  case (Cons a as)
  from Cons.prems(1) have "p = Some a" by simp
  with Cons.prems(2) have "path m (Some a) bs us" by simp
  then obtain bs' us' n where "bs = a # bs'" "us = nd_value n # us'" "m a = Some n"
    "path m (nd_next n) bs' us'"
    by (rule path_SomeE)
  with Cons.prems(1) show ?case by (auto dest: Cons.IH)
qed simp

lemma path_suffix:
  "path m p (as @ b # bs) vs \<Longrightarrow> \<exists>us. path m (Some b) (b # bs) us"
proof (induction as arbitrary: p vs)
  case Nil
  then show ?case by (cases p) (simp, metis append_Nil path_Cons)
next
  case (Cons a as)
  then show ?case by (metis append_Cons path_Cons)
qed

lemma path_distinct: "path m p as vs \<Longrightarrow> distinct as"
proof (induction as arbitrary: p vs)
  case (Cons a as)
  then obtain n where n: "p = Some a" "m a = Some n" "path m (nd_next n) as (tl vs)"
    by auto
  have "a \<notin> set as"
  proof
    assume "a \<in> set as"
    then obtain xs ys where "as = xs @ a # ys" by (auto dest: split_list)
    with n(3) obtain us where "path m (Some a) (a # ys) us" by (auto dest: path_suffix)
    with Cons.prems n(1) have "a # as = a # ys" by (metis path_fun)
    with \<open>as = xs @ a # ys\<close> show False by (auto dest: arg_cong [of _ _ length])
  qed
  with Cons.IH [OF n(3)] show ?case by simp
qed simp

text \<open>Linking a new last node after the old one.\<close>

lemma path_snoc:
  assumes "path m p (as @ [t]) vs" "b \<notin> set (as @ [t])" "m t = Some nt" "nd_next n = None"
  shows "path (m(b \<mapsto> n, t \<mapsto> nt\<lparr>nd_next := Some b\<rparr>)) p (as @ [t, b]) (vs @ [nd_value n])"
  using assms
proof (induction as arbitrary: p vs)
  case Nil
  then show ?case by auto
next
  case (Cons a as)
  from path_distinct [OF Cons.prems(1)] have "a \<noteq> t" by simp
  with Cons show ?case by auto
qed

lemma path_last_next:
  fixes m :: "nat \<Rightarrow> 'v node option"
  shows "path m p (as @ [t]) vs \<Longrightarrow> \<exists>n. m t = Some n \<and> nd_next n = None \<and> nd_value n = last vs"
proof (induction as arbitrary: p vs)
  case (Cons a as)
  then obtain n :: "'v node" and us
    where n: "vs = nd_value n # us" "path m (nd_next n) (as @ [t]) us"
    by auto
  moreover from path_length [OF n(2)] have "us \<noteq> []" by auto
  moreover note Cons.IH [OF n(2)]
  ultimately show ?case by simp
qed auto

section \<open>The interface of the containers\<close>

text \<open>\<open>join xs x\<close> is the content after \<open>x\<close> was put in: at the end for a queue, in front for a
  stack. Taking always removes the head.\<close>

fun put_all :: "('s \<Rightarrow> 'v \<Rightarrow> 's option) \<Rightarrow> 's \<Rightarrow> 'v list \<Rightarrow> 's option" where
  "put_all put s [] = Some s"
| "put_all put s (x # xs) = do { s1 \<leftarrow> put s x; put_all put s1 xs }"

fun take_n :: "('s \<Rightarrow> ('v \<times> 's) option) \<Rightarrow> nat \<Rightarrow> 's \<Rightarrow> ('v list \<times> 's) option" where
  "take_n get 0 s = Some ([], s)"
| "take_n get (Suc n) s =
     do { (x, s1) \<leftarrow> get s; (xs, s2) \<leftarrow> take_n get n s1; Some (x # xs, s2) }"

locale container =
  fixes ok :: "'s \<Rightarrow> bool"
    and content :: "'s \<Rightarrow> 'v list"
    and join :: "'v list \<Rightarrow> 'v \<Rightarrow> 'v list"
    and limit :: nat
    and put :: "'s \<Rightarrow> 'v \<Rightarrow> 's option"
    and take1 :: "'s \<Rightarrow> ('v \<times> 's) option"
  assumes put_law: "ok s \<Longrightarrow> length (content s) < limit \<Longrightarrow>
      \<exists>s'. put s x = Some s' \<and> ok s' \<and> content s' = join (content s) x"
    and take_law: "ok s \<Longrightarrow> content s = x # xs \<Longrightarrow>
      \<exists>s'. take1 s = Some (x, s') \<and> ok s' \<and> content s' = xs"
    and join_length: "length (join xs x) = Suc (length xs)"
begin

lemma put_all_ok:
  "ok s \<Longrightarrow> length (content s) + length xs \<le> limit \<Longrightarrow>
     \<exists>s'. put_all put s xs = Some s' \<and> ok s' \<and> content s' = foldl join (content s) xs"
proof (induction xs arbitrary: s)
  case (Cons x xs)
  then obtain s1 where s1: "put s x = Some s1" "ok s1" "content s1 = join (content s) x"
    using put_law [of s x] by auto
  with Cons.prems Cons.IH [OF s1(2)] show ?case by (auto simp: join_length)
qed simp

lemma take_n_ok:
  "ok s \<Longrightarrow> n \<le> length (content s) \<Longrightarrow>
     \<exists>s'. take_n take1 n s = Some (take n (content s), s') \<and> ok s'
       \<and> content s' = drop n (content s)"
proof (induction n arbitrary: s)
  case (Suc n)
  then obtain x xs where x: "content s = x # xs" by (cases "content s") auto
  from take_law [OF Suc.prems(1) x]
  obtain s1 where s1: "take1 s = Some (x, s1)" "ok s1" "content s1 = xs" by auto
  from Suc.IH [OF s1(2)] Suc.prems(2) x s1 show ?case by auto
qed simp

text \<open>Everything put into an empty container comes out in the order \<open>join\<close> gives.\<close>

lemma drain_ok:
  assumes "ok s" "content s = []" "length xs \<le> limit"
  obtains s1 s2 where "put_all put s xs = Some s1"
    "take_n take1 (length (foldl join [] xs)) s1 = Some (foldl join [] xs, s2)"
    "ok s2" "content s2 = []"
proof -
  obtain s1 where s1: "put_all put s xs = Some s1" "ok s1" "content s1 = foldl join [] xs"
    using put_all_ok [OF assms(1), of xs] assms(2,3) by auto
  with take_n_ok [OF s1(2) order_refl] that show ?thesis by auto
qed

end

lemma foldl_snoc: "foldl (\<lambda>xs x. xs @ [x]) ys xs = ys @ xs"
  by (induction xs arbitrary: ys) auto

lemma foldl_cons: "foldl (\<lambda>xs x. x # xs) ys xs = rev xs @ ys"
  by (induction xs arbitrary: ys) auto

end
