(* ===== verification/PclQueue.thy ===== *)
theory PclQueue imports PclNodes begin

text \<open>
  The queue (\<open>src/queue\<close>): a linked list with a head and a tail pointer. Its content is the list of
  the values from the head; adding appends, removing takes the head.
\<close>

section \<open>State and operations\<close>

record 'c pcl_queue =
  q_size :: int
  q_head :: "nat option"
  q_tail :: "nat option"
  q_cleanup :: "'c option"

definition pcl_queue_new :: "'c option \<Rightarrow> 'c pcl_queue" where
  "pcl_queue_new cleanup = \<lparr>q_size = 0, q_head = None, q_tail = None, q_cleanup = cleanup\<rparr>"

definition pcl_queue_size :: "'c pcl_queue option \<Rightarrow> int" where
  "pcl_queue_size qo = (case qo of Some q \<Rightarrow> q_size q | None \<Rightarrow> 0)"

definition pcl_queue_empty :: "'c pcl_queue option \<Rightarrow> bool" where
  "pcl_queue_empty qo \<longleftrightarrow> pcl_queue_size qo = 0"

definition pcl_queue_add ::
  "'c pcl_queue option \<Rightarrow> 'v option \<Rightarrow> 'v store \<Rightarrow> ('c pcl_queue option \<times> 'v store) option" where
  "pcl_queue_add qo item st =
     (case qo of
        None \<Rightarrow> Some (None, st)
      | Some q \<Rightarrow>
          do { let (qitem, st1) = node_alloc \<lparr>nd_value = item, nd_next = None\<rparr> st;
               sz \<leftarrow> cint (q_size q + 1);
               case q_tail q of
                 None \<Rightarrow> Some (Some (q\<lparr>q_size := sz, q_head := Some qitem, q_tail := Some qitem\<rparr>), st1)
               | Some t \<Rightarrow> do { st2 \<leftarrow> node_set_next t (Some qitem) st1;
                                Some (Some (q\<lparr>q_size := sz, q_tail := Some qitem\<rparr>), st2) } })"

definition pcl_queue_peek :: "'c pcl_queue option \<Rightarrow> 'v store \<Rightarrow> 'v option option" where
  "pcl_queue_peek qo st =
     (if pcl_queue_empty qo then Some None
      else do { q \<leftarrow> qo; h \<leftarrow> q_head q; n \<leftarrow> st_map st h; Some (nd_value n) })"

definition pcl_queue_remove ::
  "'c pcl_queue option \<Rightarrow> 'v store \<Rightarrow> ('v option \<times> 'c pcl_queue option \<times> 'v store) option" where
  "pcl_queue_remove qo st =
     (if pcl_queue_empty qo then Some (None, qo, st)
      else do { q \<leftarrow> qo;
                qitem \<leftarrow> q_head q;
                n \<leftarrow> st_map st qitem;
                let q1 = q\<lparr>q_head := nd_next n\<rparr>;
                let q2 = (if q_head q1 = None then q1\<lparr>q_tail := None\<rparr> else q1);
                let q3 = q2\<lparr>q_size := q_size q2 - 1\<rparr>;
                let item = nd_value n;
                st1 \<leftarrow> node_free qitem st;
                Some (item, Some q3, st1) })"

text \<open>The loop of \<open>pcl_queue_clear\<close>; running off a node that was freed is undefined behaviour.\<close>

partial_function (option) queue_clear_loop ::
  "('c \<Rightarrow> 'v option \<Rightarrow> 'w \<Rightarrow> 'w option) \<Rightarrow> 'c option \<Rightarrow> nat option \<Rightarrow> 'v store \<Rightarrow> 'w \<Rightarrow>
     ('v store \<times> 'w) option" where
  "queue_clear_loop call cleanup node st w =
     (case node of
        None \<Rightarrow> Some (st, w)
      | Some a \<Rightarrow>
          do { n \<leftarrow> st_map st a;
               let nxt = nd_next n;
               w1 \<leftarrow> (case cleanup of Some c \<Rightarrow> call c (nd_value n) w | None \<Rightarrow> Some w);
               st1 \<leftarrow> node_free a st;
               queue_clear_loop call cleanup nxt st1 w1 })"

definition pcl_queue_clear ::
  "('c \<Rightarrow> 'v option \<Rightarrow> 'w \<Rightarrow> 'w option) \<Rightarrow> 'c pcl_queue option \<Rightarrow> 'v store \<Rightarrow> 'w \<Rightarrow>
     ('c pcl_queue option \<times> 'v store \<times> 'w) option" where
  "pcl_queue_clear call qo st w =
     (case qo of
        None \<Rightarrow> Some (None, st, w)
      | Some q \<Rightarrow>
          do { (st1, w1) \<leftarrow> queue_clear_loop call (q_cleanup q) (q_head q) st w;
               Some (Some (q\<lparr>q_size := 0, q_head := None, q_tail := None\<rparr>), st1, w1) })"

definition pcl_queue_free ::
  "('c \<Rightarrow> 'v option \<Rightarrow> 'w \<Rightarrow> 'w option) \<Rightarrow> 'c pcl_queue option \<Rightarrow> 'v store \<Rightarrow> 'w \<Rightarrow>
     ('v store \<times> 'w) option" where
  "pcl_queue_free call qo st w =
     (case qo of
        None \<Rightarrow> Some (st, w)
      | Some q \<Rightarrow> do { (_, st1, w1) \<leftarrow> pcl_queue_clear call (Some q) st w; Some (st1, w1) })"

section \<open>Invariant\<close>

definition queue_rep :: "'c pcl_queue \<Rightarrow> 'v store \<Rightarrow> nat list \<Rightarrow> 'v option list \<Rightarrow> bool" where
  "queue_rep q st as vs \<longleftrightarrow> path (st_map st) (q_head q) as vs \<and> (\<forall>a \<in> set as. a < st_fresh st)
     \<and> q_size q = int (length vs) \<and> q_tail q = (if as = [] then None else Some (last as))"

lemma queue_new_rep: "queue_rep (pcl_queue_new c) st [] []"
  by (simp add: queue_rep_def pcl_queue_new_def)

lemma queue_empty_iff: "queue_rep q st as vs \<Longrightarrow> pcl_queue_empty (Some q) \<longleftrightarrow> vs = []"
  by (auto simp: queue_rep_def pcl_queue_empty_def pcl_queue_size_def)

lemma queue_add_ok:
  assumes "queue_rep q st as vs" "int (length vs) < INT_MAX"
  obtains q' st' where "pcl_queue_add (Some q) x st = Some (Some q', st')"
    "queue_rep q' st' (as @ [st_fresh st]) (vs @ [x])" "q_cleanup q' = q_cleanup q"
proof -
  let ?b = "st_fresh st"
  let ?n = "\<lparr>nd_value = x, nd_next = None\<rparr>"
  have r: "path (st_map st) (q_head q) as vs" "\<forall>a \<in> set as. a < ?b" "q_size q = int (length vs)"
    using assms(1) by (auto simp: queue_rep_def)
  have sz: "cint (q_size q + 1) = Some (int (length vs) + 1)"
    using assms(2) r(3) by (simp add: cint_def INT_MIN_def)
  show ?thesis
  proof (cases as rule: rev_cases)
    case Nil
    with assms(1) have "vs = []" "q_tail q = None" by (auto simp: queue_rep_def)
    with Nil sz show ?thesis
      by (intro that [of "q\<lparr>q_size := 1, q_head := Some ?b, q_tail := Some ?b\<rparr>"
            "snd (node_alloc ?n st)"])
        (auto simp: pcl_queue_add_def node_alloc_def queue_rep_def)
  next
    case (snoc bs t)
    with r(1) obtain nt where nt: "st_map st t = Some nt" by (auto dest: path_last_next)
    have tl: "q_tail q = Some t" using assms(1) snoc by (simp add: queue_rep_def)
    have "?b \<notin> set as" "t \<noteq> ?b" using r(2) snoc by auto
    moreover from this have "path ((st_map st)(?b \<mapsto> ?n, t \<mapsto> nt\<lparr>nd_next := Some ?b\<rparr>)) (q_head q)
        (bs @ [t, ?b]) (vs @ [x])"
      using path_snoc [of "st_map st" "q_head q" bs t vs ?b nt ?n] r(1) snoc nt by simp
    ultimately show ?thesis
      using r sz snoc nt tl
      by (intro that [of "q\<lparr>q_size := int (length vs) + 1, q_tail := Some ?b\<rparr>"
            "st\<lparr>st_map := (st_map st)(?b \<mapsto> ?n, t \<mapsto> nt\<lparr>nd_next := Some ?b\<rparr>), st_fresh := Suc ?b\<rparr>"])
        (auto simp: pcl_queue_add_def node_alloc_def node_set_next_def queue_rep_def)
  qed
qed

lemma queue_remove_ok:
  fixes st :: "'v store"
  assumes "queue_rep q st as (x # vs)"
  obtains q' st' where "pcl_queue_remove (Some q) st = Some (x, Some q', st')"
    "queue_rep q' st' (tl as) vs" "q_cleanup q' = q_cleanup q"
proof -
  obtain a as' where as: "as = a # as'"
    using assms by (cases as) (auto simp: queue_rep_def)
  with assms obtain n :: "'v node" where n: "q_head q = Some a" "st_map st a = Some n" "nd_value n = x"
    "path (st_map st) (nd_next n) as' vs"
    by (auto simp: queue_rep_def)
  have "path (st_map st) (q_head q) (a # as') (x # vs)"
    using assms as by (simp add: queue_rep_def)
  then have "distinct (a # as')" by (rule path_distinct)
  then have "path ((st_map st)(a := None)) (nd_next n) as' vs"
    using n(4) by (simp add: path_frame)
  moreover have "nd_next n = None \<longleftrightarrow> as' = []"
    using n(4) by (cases as'; cases "nd_next n") auto
  ultimately show ?thesis
    using assms as n queue_empty_iff [OF assms]
    by (intro that [of "q\<lparr>q_head := nd_next n, q_tail := (if as' = [] then None else q_tail q),
          q_size := int (length vs)\<rparr>" "st\<lparr>st_map := (st_map st)(a := None)\<rparr>"])
      (auto simp: pcl_queue_remove_def node_free_def queue_rep_def Let_def)
qed

lemma queue_remove_empty: "queue_rep q st as [] \<Longrightarrow> pcl_queue_remove (Some q) st = Some (None, Some q, st)"
  by (simp add: pcl_queue_remove_def queue_empty_iff)

lemma queue_peek_ok:
  "queue_rep q st as vs \<Longrightarrow>
     pcl_queue_peek (Some q) st = Some (case vs of [] \<Rightarrow> None | x # _ \<Rightarrow> x)"
  using queue_empty_iff [of q st as vs]
  by (cases as; cases vs) (auto simp: pcl_queue_peek_def queue_rep_def split: option.splits)

text \<open>Clearing runs the handler over the values from the head and frees every node.\<close>

lemma queue_clear_loop_ok:
  fixes st :: "'v store"
  shows "path (st_map st) p as vs \<Longrightarrow>
     queue_clear_loop call cleanup p st w =
       map_option (Pair (freed as st))
         (case cleanup of None \<Rightarrow> Some w | Some c \<Rightarrow> seq_each (call c) vs w)"
proof (induction as arbitrary: p vs st w)
  case Nil
  then show ?case by (simp add: queue_clear_loop.simps split: option.splits)
next
  case (Cons a as)
  then obtain n :: "'v node" and vs' where n: "p = Some a" "st_map st a = Some n" "vs = nd_value n # vs'"
    "path (st_map st) (nd_next n) as vs'"
    by auto
  let ?st = "st\<lparr>st_map := (st_map st)(a := None)\<rparr>"
  have "a \<notin> set as" using path_distinct [OF Cons.prems] by simp
  then have "path (st_map ?st) (nd_next n) as vs'" using n(4) by (simp add: path_frame)
  from Cons.IH [OF this] have IH: "queue_clear_loop call cleanup (nd_next n) ?st w' =
      map_option (Pair (freed (a # as) st))
         (case cleanup of None \<Rightarrow> Some w' | Some c \<Rightarrow> seq_each (call c) vs' w')" for w'
    by (simp add: freed_Cons)
  show ?case
    by (subst queue_clear_loop.simps, cases cleanup)
      (use n(2) IH in \<open>auto simp: n(1,3) node_free_def map_option_bind comp_def
        intro: Option.bind_cong\<close>)
qed

lemma queue_clear_ok:
  assumes "queue_rep q st as vs"
  shows "pcl_queue_clear call (Some q) st w =
    map_option (\<lambda>w1. (Some (q\<lparr>q_size := 0, q_head := None, q_tail := None\<rparr>),
        freed as st, w1))
      (case q_cleanup q of None \<Rightarrow> Some w | Some c \<Rightarrow> seq_each (call c) vs w)"
  using assms queue_clear_loop_ok [of st "q_head q" as vs call "q_cleanup q" w]
  by (auto simp: queue_rep_def pcl_queue_clear_def bind_map_option comp_def bind_Some_map
      split: option.splits)

section \<open>The queue as a FIFO container\<close>

definition queue_ok :: "'c pcl_queue \<times> 'v store \<Rightarrow> bool" where
  "queue_ok s \<longleftrightarrow> (\<exists>as vs. queue_rep (fst s) (snd s) as vs)"

definition queue_content :: "'c pcl_queue \<times> 'v store \<Rightarrow> 'v option list" where
  "queue_content s = walk (st_map (snd s)) (q_head (fst s)) (nat (q_size (fst s)))"

lemma queue_content_eq: "queue_rep q st as vs \<Longrightarrow> queue_content (q, st) = vs"
  by (auto simp: queue_content_def queue_rep_def path_walk)

definition queue_put :: "'c pcl_queue \<times> 'v store \<Rightarrow> 'v option \<Rightarrow> ('c pcl_queue \<times> 'v store) option" where
  "queue_put s x =
     (case pcl_queue_add (Some (fst s)) x (snd s) of Some (Some q, st) \<Rightarrow> Some (q, st) | _ \<Rightarrow> None)"

definition queue_take ::
  "'c pcl_queue \<times> 'v store \<Rightarrow> ('v option \<times> 'c pcl_queue \<times> 'v store) option" where
  "queue_take s =
     (case pcl_queue_remove (Some (fst s)) (snd s) of
        Some (x, Some q, st) \<Rightarrow> Some (x, q, st) | _ \<Rightarrow> None)"

interpretation queue: container queue_ok queue_content "\<lambda>xs x. xs @ [x]" "nat INT_MAX"
    queue_put queue_take
proof
  fix s :: "'c pcl_queue \<times> 'v store" and x
  assume a: "queue_ok s" "length (queue_content s) < nat INT_MAX"
  then obtain as vs where r: "queue_rep (fst s) (snd s) as vs" by (auto simp: queue_ok_def)
  then have c: "queue_content s = vs" using queue_content_eq by force
  with a have "int (length vs) < INT_MAX" by (simp add: zless_nat_eq_int_zless)
  from queue_add_ok [OF r this, of x] obtain q' st' where
    "pcl_queue_add (Some (fst s)) x (snd s) = Some (Some q', st')"
    "queue_rep q' st' (as @ [st_fresh (snd s)]) (vs @ [x])" by metis
  then show "\<exists>s'. queue_put s x = Some s' \<and> queue_ok s' \<and> queue_content s' = queue_content s @ [x]"
    using c by (auto simp: queue_put_def queue_ok_def queue_content_eq)
next
  fix s :: "'c pcl_queue \<times> 'v store" and x xs
  assume a: "queue_ok s" "queue_content s = x # xs"
  then obtain as vs where "queue_rep (fst s) (snd s) as vs" by (auto simp: queue_ok_def)
  moreover from this have "vs = x # xs" using a(2) queue_content_eq by force
  ultimately obtain q' st' where "pcl_queue_remove (Some (fst s)) (snd s) = Some (x, Some q', st')"
    "queue_rep q' st' (tl as) xs" by (metis queue_remove_ok)
  then show "\<exists>s'. queue_take s = Some (x, s') \<and> queue_ok s' \<and> queue_content s' = xs"
    by (auto simp: queue_take_def queue_ok_def queue_content_eq)
qed simp

section \<open>Properties\<close>

text \<open>First in, first out: what is added to an empty queue is removed in the same order, and the
  queue is empty again.\<close>

theorem queue_fifo:
  assumes "length xs \<le> nat INT_MAX"
  shows "\<exists>s1 s2. put_all queue_put (pcl_queue_new c, st) xs = Some s1
    \<and> take_n queue_take (length xs) s1 = Some (xs, s2) \<and> pcl_queue_empty (Some (fst s2))"
proof -
  have r: "queue_rep (pcl_queue_new c) st [] []" by (rule queue_new_rep)
  then have "queue_ok (pcl_queue_new c, st)" "queue_content (pcl_queue_new c, st) = []"
    by (auto simp: queue_ok_def queue_content_eq)
  note d = queue.drain_ok [OF this assms, unfolded foldl_snoc append_Nil]
  obtain s1 s2 where
    s: "put_all queue_put (pcl_queue_new c, st) xs = Some s1"
    "take_n queue_take (length xs) s1 = Some (xs, s2)" "queue_ok s2" "queue_content s2 = []"
    by (rule d)
  from s(3) obtain as vs where "queue_rep (fst s2) (snd s2) as vs" by (auto simp: queue_ok_def)
  with s(4) have "pcl_queue_empty (Some (fst s2))"
    using queue_content_eq [of "fst s2" "snd s2"] by (auto simp: queue_empty_iff)
  with s show ?thesis by blast
qed

theorem queue_fifo_witness:
  "\<exists>s1 s2. put_all queue_put (pcl_queue_new (None :: nat option), empty_store) [Some 1, None, Some (3::nat)]
      = Some s1
    \<and> take_n queue_take (length [Some 1, None, Some (3::nat)]) s1 = Some ([Some 1, None, Some 3], s2)
    \<and> pcl_queue_empty (Some (fst s2))"
  by (rule queue_fifo) (simp add: INT_MAX_def)

text \<open>Clearing a queue terminates, hands every value to the handler once from the head to the
  tail, frees every node of the queue and no other, and leaves the empty queue.\<close>

theorem queue_clear_spec:
  assumes "queue_rep q st as vs" "q_cleanup q = Some c" "seq_each (call c) vs w = Some w'"
  shows "\<exists>q' st'. pcl_queue_clear call (Some q) st w = Some (Some q', st', w')
    \<and> queue_rep q' st' [] [] \<and> (\<forall>a. st_map st' a = (if a \<in> set as then None else st_map st a))"
  using queue_clear_ok [OF assms(1), of call w] assms(2,3)
  by (auto simp: queue_rep_def freed_def)

theorem queue_clear_spec_witness:
  "\<exists>q' st'. pcl_queue_clear (\<lambda>_ x w. Some (w @ [x]))
        (Some \<lparr>q_size = 1, q_head = Some 0, q_tail = Some 0, q_cleanup = Some (0::nat)\<rparr>)
        \<lparr>st_map = [0 \<mapsto> \<lparr>nd_value = Some (5::nat), nd_next = None\<rparr>], st_fresh = 1\<rparr> []
      = Some (Some q', st', [Some 5])
    \<and> queue_rep q' st' [] []
    \<and> (\<forall>a. st_map st' a = (if a \<in> set [0] then None
        else st_map \<lparr>st_map = [0 \<mapsto> \<lparr>nd_value = Some (5::nat), nd_next = None\<rparr>], st_fresh = 1\<rparr> a))"
  by (rule queue_clear_spec [where c = 0 and vs = "[Some 5]"]) (simp_all add: queue_rep_def)

end
