(* ===== verification/PclStack.thy ===== *)
theory PclStack imports PclNodes begin

text \<open>
  The stack (\<open>src/stack\<close>): a linked list with its head pointer. Its content is the list of the
  values from the head; pushing and popping act on the head.
\<close>

section \<open>State and operations\<close>

record 'c pcl_stack =
  s_head :: "nat option"
  s_size :: int
  s_cleanup :: "'c option"

definition pcl_stack_new :: "'c option \<Rightarrow> 'c pcl_stack" where
  "pcl_stack_new cleanup = \<lparr>s_head = None, s_size = 0, s_cleanup = cleanup\<rparr>"

definition pcl_stack_size :: "'c pcl_stack option \<Rightarrow> int" where
  "pcl_stack_size so = (case so of Some s \<Rightarrow> s_size s | None \<Rightarrow> 0)"

definition pcl_stack_empty :: "'c pcl_stack option \<Rightarrow> bool" where
  "pcl_stack_empty so \<longleftrightarrow> pcl_stack_size so = 0"

definition pcl_stack_push ::
  "'c pcl_stack option \<Rightarrow> 'v option \<Rightarrow> 'v store \<Rightarrow> ('c pcl_stack option \<times> 'v store) option" where
  "pcl_stack_push so item st =
     (case so of
        None \<Rightarrow> Some (None, st)
      | Some s \<Rightarrow>
          do { let (sitem, st1) = node_alloc \<lparr>nd_value = item, nd_next = s_head s\<rparr> st;
               sz \<leftarrow> cint (s_size s + 1);
               Some (Some (s\<lparr>s_size := sz, s_head := Some sitem\<rparr>), st1) })"

definition pcl_stack_peek :: "'c pcl_stack option \<Rightarrow> 'v store \<Rightarrow> 'v option option" where
  "pcl_stack_peek so st =
     (if pcl_stack_empty so then Some None
      else do { s \<leftarrow> so; h \<leftarrow> s_head s; n \<leftarrow> st_map st h; Some (nd_value n) })"

definition pcl_stack_pop ::
  "'c pcl_stack option \<Rightarrow> 'v store \<Rightarrow> ('v option \<times> 'c pcl_stack option \<times> 'v store) option" where
  "pcl_stack_pop so st =
     (if pcl_stack_empty so then Some (None, so, st)
      else do { s \<leftarrow> so;
                sitem \<leftarrow> s_head s;
                n \<leftarrow> st_map st sitem;
                let v = nd_value n;
                let s1 = s\<lparr>s_head := nd_next n, s_size := s_size s - 1\<rparr>;
                st1 \<leftarrow> node_free sitem st;
                Some (v, Some s1, st1) })"

text \<open>The loop of \<open>pcl_stack_clear\<close> reads \<open>next\<close> after the handler has run.\<close>

partial_function (option) stack_clear_loop ::
  "('c \<Rightarrow> 'v option \<Rightarrow> 'w \<Rightarrow> 'w option) \<Rightarrow> 'c option \<Rightarrow> nat option \<Rightarrow> 'v store \<Rightarrow> 'w \<Rightarrow>
     ('v store \<times> 'w) option" where
  "stack_clear_loop call cleanup node st w =
     (case node of
        None \<Rightarrow> Some (st, w)
      | Some a \<Rightarrow>
          do { n \<leftarrow> st_map st a;
               w1 \<leftarrow> (case cleanup of Some c \<Rightarrow> call c (nd_value n) w | None \<Rightarrow> Some w);
               let nxt = nd_next n;
               st1 \<leftarrow> node_free a st;
               stack_clear_loop call cleanup nxt st1 w1 })"

definition pcl_stack_clear ::
  "('c \<Rightarrow> 'v option \<Rightarrow> 'w \<Rightarrow> 'w option) \<Rightarrow> 'c pcl_stack option \<Rightarrow> 'v store \<Rightarrow> 'w \<Rightarrow>
     ('c pcl_stack option \<times> 'v store \<times> 'w) option" where
  "pcl_stack_clear call so st w =
     (case so of
        None \<Rightarrow> Some (None, st, w)
      | Some s \<Rightarrow>
          do { (st1, w1) \<leftarrow> stack_clear_loop call (s_cleanup s) (s_head s) st w;
               Some (Some (s\<lparr>s_size := 0, s_head := None\<rparr>), st1, w1) })"

definition pcl_stack_free ::
  "('c \<Rightarrow> 'v option \<Rightarrow> 'w \<Rightarrow> 'w option) \<Rightarrow> 'c pcl_stack option \<Rightarrow> 'v store \<Rightarrow> 'w \<Rightarrow>
     ('v store \<times> 'w) option" where
  "pcl_stack_free call so st w =
     (case so of
        None \<Rightarrow> Some (st, w)
      | Some s \<Rightarrow> do { (_, st1, w1) \<leftarrow> pcl_stack_clear call (Some s) st w; Some (st1, w1) })"

section \<open>Invariant\<close>

definition stack_rep :: "'c pcl_stack \<Rightarrow> 'v store \<Rightarrow> nat list \<Rightarrow> 'v option list \<Rightarrow> bool" where
  "stack_rep s st as vs \<longleftrightarrow> path (st_map st) (s_head s) as vs \<and> (\<forall>a \<in> set as. a < st_fresh st)
     \<and> s_size s = int (length vs)"

lemma stack_new_rep: "stack_rep (pcl_stack_new c) st [] []"
  by (simp add: stack_rep_def pcl_stack_new_def)

lemma stack_empty_iff: "stack_rep s st as vs \<Longrightarrow> pcl_stack_empty (Some s) \<longleftrightarrow> vs = []"
  by (auto simp: stack_rep_def pcl_stack_empty_def pcl_stack_size_def)

lemma stack_push_ok:
  assumes "stack_rep s st as vs" "int (length vs) < INT_MAX"
  obtains s' st' where "pcl_stack_push (Some s) x st = Some (Some s', st')"
    "stack_rep s' st' (st_fresh st # as) (x # vs)" "s_cleanup s' = s_cleanup s"
proof -
  have r: "path (st_map st) (s_head s) as vs" "\<forall>a \<in> set as. a < st_fresh st"
    "s_size s = int (length vs)"
    using assms(1) by (auto simp: stack_rep_def)
  then have "st_fresh st \<notin> set as" by auto
  with r have "path ((st_map st)(st_fresh st \<mapsto> \<lparr>nd_value = x, nd_next = s_head s\<rparr>))
      (Some (st_fresh st)) (st_fresh st # as) (x # vs)"
    by (simp add: path_frame)
  with r assms(2) show ?thesis
    by (intro that [of "s\<lparr>s_size := int (length vs) + 1, s_head := Some (st_fresh st)\<rparr>"
          "snd (node_alloc \<lparr>nd_value = x, nd_next = s_head s\<rparr> st)"])
      (auto simp: pcl_stack_push_def node_alloc_def stack_rep_def cint_def INT_MIN_def)
qed

lemma stack_pop_ok:
  fixes st :: "'v store"
  assumes "stack_rep s st as (x # vs)"
  obtains s' st' where "pcl_stack_pop (Some s) st = Some (x, Some s', st')"
    "stack_rep s' st' (tl as) vs" "s_cleanup s' = s_cleanup s"
proof -
  obtain a as' where as: "as = a # as'"
    using assms by (cases as) (auto simp: stack_rep_def)
  with assms obtain n :: "'v node" where n: "s_head s = Some a" "st_map st a = Some n"
    "nd_value n = x" "path (st_map st) (nd_next n) as' vs"
    by (auto simp: stack_rep_def)
  have "path (st_map st) (s_head s) (a # as') (x # vs)"
    using assms as by (simp add: stack_rep_def)
  then have "distinct (a # as')" by (rule path_distinct)
  then have "path ((st_map st)(a := None)) (nd_next n) as' vs"
    using n(4) by (simp add: path_frame)
  then show ?thesis
    using assms as n stack_empty_iff [OF assms]
    by (intro that [of "s\<lparr>s_head := nd_next n, s_size := int (length vs)\<rparr>"
          "st\<lparr>st_map := (st_map st)(a := None)\<rparr>"])
      (auto simp: pcl_stack_pop_def node_free_def stack_rep_def Let_def)
qed

lemma stack_pop_empty: "stack_rep s st as [] \<Longrightarrow> pcl_stack_pop (Some s) st = Some (None, Some s, st)"
  by (simp add: pcl_stack_pop_def stack_empty_iff)

lemma stack_peek_ok:
  "stack_rep s st as vs \<Longrightarrow>
     pcl_stack_peek (Some s) st = Some (case vs of [] \<Rightarrow> None | x # _ \<Rightarrow> x)"
  using stack_empty_iff [of s st as vs]
  by (cases as; cases vs) (auto simp: pcl_stack_peek_def stack_rep_def split: option.splits)

lemma stack_clear_loop_ok:
  fixes st :: "'v store"
  shows "path (st_map st) p as vs \<Longrightarrow>
     stack_clear_loop call cleanup p st w =
       map_option (Pair (freed as st))
         (case cleanup of None \<Rightarrow> Some w | Some c \<Rightarrow> seq_each (call c) vs w)"
proof (induction as arbitrary: p vs st w)
  case Nil
  then show ?case by (simp add: stack_clear_loop.simps split: option.splits)
next
  case (Cons a as)
  then obtain n :: "'v node" and vs' where n: "p = Some a" "st_map st a = Some n"
    "vs = nd_value n # vs'" "path (st_map st) (nd_next n) as vs'"
    by auto
  let ?st = "st\<lparr>st_map := (st_map st)(a := None)\<rparr>"
  have "a \<notin> set as" using path_distinct [OF Cons.prems] by simp
  then have "path (st_map ?st) (nd_next n) as vs'" using n(4) by (simp add: path_frame)
  from Cons.IH [OF this] have IH: "stack_clear_loop call cleanup (nd_next n) ?st w' =
      map_option (Pair (freed (a # as) st))
         (case cleanup of None \<Rightarrow> Some w' | Some c \<Rightarrow> seq_each (call c) vs' w')" for w'
    by (simp add: freed_Cons)
  show ?case
    by (subst stack_clear_loop.simps, cases cleanup)
      (use n(2) IH in \<open>auto simp: n(1,3) node_free_def map_option_bind comp_def
        intro: Option.bind_cong\<close>)
qed

lemma stack_clear_ok:
  assumes "stack_rep s st as vs"
  shows "pcl_stack_clear call (Some s) st w =
    map_option (\<lambda>w1. (Some (s\<lparr>s_size := 0, s_head := None\<rparr>), freed as st, w1))
      (case s_cleanup s of None \<Rightarrow> Some w | Some c \<Rightarrow> seq_each (call c) vs w)"
  using assms stack_clear_loop_ok [of st "s_head s" as vs call "s_cleanup s" w]
  by (auto simp: stack_rep_def pcl_stack_clear_def bind_map_option comp_def bind_Some_map
      split: option.splits)

section \<open>The stack as a LIFO container\<close>

definition stack_ok :: "'c pcl_stack \<times> 'v store \<Rightarrow> bool" where
  "stack_ok s \<longleftrightarrow> (\<exists>as vs. stack_rep (fst s) (snd s) as vs)"

definition stack_content :: "'c pcl_stack \<times> 'v store \<Rightarrow> 'v option list" where
  "stack_content s = walk (st_map (snd s)) (s_head (fst s)) (nat (s_size (fst s)))"

lemma stack_content_eq: "stack_rep q st as vs \<Longrightarrow> stack_content (q, st) = vs"
  by (auto simp: stack_content_def stack_rep_def path_walk)

definition stack_put :: "'c pcl_stack \<times> 'v store \<Rightarrow> 'v option \<Rightarrow> ('c pcl_stack \<times> 'v store) option" where
  "stack_put s x =
     (case pcl_stack_push (Some (fst s)) x (snd s) of Some (Some q, st) \<Rightarrow> Some (q, st) | _ \<Rightarrow> None)"

definition stack_take ::
  "'c pcl_stack \<times> 'v store \<Rightarrow> ('v option \<times> 'c pcl_stack \<times> 'v store) option" where
  "stack_take s =
     (case pcl_stack_pop (Some (fst s)) (snd s) of
        Some (x, Some q, st) \<Rightarrow> Some (x, q, st) | _ \<Rightarrow> None)"

interpretation stack: container stack_ok stack_content "\<lambda>xs x. x # xs" "nat INT_MAX"
    stack_put stack_take
proof
  fix s :: "'c pcl_stack \<times> 'v store" and x
  assume a: "stack_ok s" "length (stack_content s) < nat INT_MAX"
  then obtain as vs where r: "stack_rep (fst s) (snd s) as vs" by (auto simp: stack_ok_def)
  then have c: "stack_content s = vs" using stack_content_eq by force
  with a have "int (length vs) < INT_MAX" by (simp add: zless_nat_eq_int_zless)
  from stack_push_ok [OF r this, of x] obtain q' st' where
    "pcl_stack_push (Some (fst s)) x (snd s) = Some (Some q', st')"
    "stack_rep q' st' (st_fresh (snd s) # as) (x # vs)" by metis
  then show "\<exists>s'. stack_put s x = Some s' \<and> stack_ok s' \<and> stack_content s' = x # stack_content s"
    using c by (auto simp: stack_put_def stack_ok_def stack_content_eq)
next
  fix s :: "'c pcl_stack \<times> 'v store" and x xs
  assume a: "stack_ok s" "stack_content s = x # xs"
  then obtain as vs where "stack_rep (fst s) (snd s) as vs" by (auto simp: stack_ok_def)
  moreover from this have "vs = x # xs" using a(2) stack_content_eq by force
  ultimately obtain q' st' where "pcl_stack_pop (Some (fst s)) (snd s) = Some (x, Some q', st')"
    "stack_rep q' st' (tl as) xs" by (metis stack_pop_ok)
  then show "\<exists>s'. stack_take s = Some (x, s') \<and> stack_ok s' \<and> stack_content s' = xs"
    by (auto simp: stack_take_def stack_ok_def stack_content_eq)
qed simp

section \<open>Properties\<close>

text \<open>Last in, first out: what is pushed on an empty stack is popped in the reverse order, and
  the stack is empty again.\<close>

theorem stack_lifo:
  assumes "length xs \<le> nat INT_MAX"
  shows "\<exists>s1 s2. put_all stack_put (pcl_stack_new c, st) xs = Some s1
    \<and> take_n stack_take (length xs) s1 = Some (rev xs, s2) \<and> pcl_stack_empty (Some (fst s2))"
proof -
  have r: "stack_rep (pcl_stack_new c) st [] []" by (rule stack_new_rep)
  then have "stack_ok (pcl_stack_new c, st)" "stack_content (pcl_stack_new c, st) = []"
    by (auto simp: stack_ok_def stack_content_eq)
  note d = stack.drain_ok [OF this assms, unfolded foldl_cons append_Nil2]
  obtain s1 s2 where
    s: "put_all stack_put (pcl_stack_new c, st) xs = Some s1"
    "take_n stack_take (length xs) s1 = Some (rev xs, s2)" "stack_ok s2" "stack_content s2 = []"
    by (rule d) (simp only: length_rev)
  from s(3) obtain as vs where "stack_rep (fst s2) (snd s2) as vs" by (auto simp: stack_ok_def)
  with s(4) have "pcl_stack_empty (Some (fst s2))"
    using stack_content_eq [of "fst s2" "snd s2"] by (auto simp: stack_empty_iff)
  with s show ?thesis by blast
qed

theorem stack_lifo_witness:
  "\<exists>s1 s2. put_all stack_put (pcl_stack_new (None :: nat option), empty_store) [Some 1, None, Some (3::nat)]
      = Some s1
    \<and> take_n stack_take (length [Some 1, None, Some (3::nat)]) s1 = Some (rev [Some 1, None, Some 3], s2)
    \<and> pcl_stack_empty (Some (fst s2))"
  by (rule stack_lifo) (simp add: INT_MAX_def)

end
