(* ===== verification/PclHtable.thy ===== *)
theory PclHtable imports PclArray begin

text \<open>
  The hash table (\<open>src/htable\<close>, \<open>include/pcl/htable.h\<close>): entries in a block in insertion order, one
  collision list per bucket threaded through them by index, and a lookup block that holds the
  head of every list. Keys and values are pointers; the comparison and the hash function of the
  table are function pointers, modelled as functions. The hash of the default callback,
  \<open>pcl_farmhash64_seed\<close>, is a parameter. A load factor is the exact value \<open>m / 2 ^ e\<close> of its
  float: capacities are powers of two, so the products the code rounds are exact.
\<close>

unbundle bit_operations_syntax

section \<open>State\<close>

record ('k, 'v) htable_entry =
  he_next :: int
  he_code :: "64 word"
  he_key :: "'k option"
  he_value :: "'v option"

record ('k, 'v, 'c) pcl_htable =
  ht_count :: int
  ht_count_used :: int
  ht_capacity :: int
  ht_table_mask :: int
  ht_entries :: "('k, 'v) htable_entry list"
  ht_entry_lookup :: "int list"
  ht_key_len :: nat
  ht_min_loadfac :: "int \<times> nat"
  ht_max_loadfac :: "int \<times> nat"
  ht_key_equals :: "'k \<Rightarrow> 'k \<Rightarrow> nat \<Rightarrow> bool"
  ht_hashcode :: "'k \<Rightarrow> nat \<Rightarrow> 64 word"
  ht_remove_entry :: "'c option"

definition MAX_LOADFAC :: "int \<times> nat" where "MAX_LOADFAC = (3, 2)"

definition MIN_LOADFAC :: "int \<times> nat" where "MIN_LOADFAC = (13421773, 26)"

definition MINTBLSIZE :: int where "MINTBLSIZE = 8"

text \<open>\<open>(int) (loadfac * (float) capacity)\<close>.\<close>

definition load_limit :: "int \<times> nat \<Rightarrow> int \<Rightarrow> int" where
  "load_limit lf cap = (case lf of (m, e) \<Rightarrow> m * cap div 2 ^ e)"

text \<open>\<open>(int) (code & table_mask)\<close>: the mask is converted to 64 bits, the result back to \<open>int\<close>.\<close>

definition hash_index :: "64 word \<Rightarrow> int \<Rightarrow> int" where
  "hash_index code tmask = sint (ucast (code AND word_of_int tmask) :: 32 word)"

section \<open>Construction\<close>

text \<open>The default callbacks compare and hash \<open>key_len\<close> bytes, or strings when it is zero. A key
  is the list of the bytes it points to.\<close>

definition default_key_equals :: "string \<Rightarrow> string \<Rightarrow> nat \<Rightarrow> bool" where
  "default_key_equals a b key_len =
     (if key_len \<noteq> 0 then take key_len a = take key_len b else a = b)"

definition default_hashcode :: "(string \<Rightarrow> nat \<Rightarrow> 64 word \<Rightarrow> 64 word) \<Rightarrow> string \<Rightarrow> nat \<Rightarrow> 64 word" where
  "default_hashcode farmhash64_seed key key_len =
     (let len = (if key_len = 0 then length key else key_len)
      in farmhash64_seed (take len key) len 0)"

definition ipcl_htable_chkcapacity :: "64 word \<Rightarrow> 'z pcl_err_scheme \<Rightarrow> int \<times> 'z pcl_err_scheme" where
  "ipcl_htable_chkcapacity capacity w =
     (let c0 = max capacity 8;
          c = (if c0 AND (c0 - 1) \<noteq> 0
               then let x1 = c0 OR drop_bit 1 c0;
                        x2 = x1 OR drop_bit 2 x1;
                        x3 = x2 OR drop_bit 4 x2;
                        x4 = x3 OR drop_bit 8 x3;
                        x5 = x4 OR drop_bit 16 x4
                    in x5 + 1
               else c0)
      in if c > push_bit 30 1
         then SETERR (''htable_chkcapacity.c'', ''ipcl_htable_chkcapacity'', 76) PCL_ERANGE w
         else (sint (ucast c :: 32 word), w))"

definition zero_entry :: "('k, 'v) htable_entry" where
  "zero_entry = \<lparr>he_next = 0, he_code = 0, he_key = None, he_value = None\<rparr>"

definition ipcl_htable_init :: "int \<Rightarrow> ('k, 'v) htable_entry list \<times> int list" where
  "ipcl_htable_init capacity =
     (replicate (nat capacity) zero_entry, replicate (nat capacity) (-1))"

definition pcl_htable_new ::
  "(string \<Rightarrow> nat \<Rightarrow> 64 word \<Rightarrow> 64 word) \<Rightarrow> int \<Rightarrow> 'z pcl_err_scheme \<Rightarrow>
     (string, 'v, 'c) pcl_htable option \<times> 'z pcl_err_scheme" where
  "pcl_htable_new farmhash64_seed capacity w =
     (let (cap, w1) = ipcl_htable_chkcapacity (word_of_int (if capacity < 0 then 0 else capacity)) w
      in if cap < 0 then R_TRC None (''htable.c'', ''pcl_htable'', 64) w1
         else let (ents, lookup) = ipcl_htable_init cap
              in (Some \<lparr>ht_count = 0, ht_count_used = 0, ht_capacity = cap,
                        ht_table_mask = cap - 1, ht_entries = ents, ht_entry_lookup = lookup,
                        ht_key_len = 0, ht_min_loadfac = MIN_LOADFAC, ht_max_loadfac = MAX_LOADFAC,
                        ht_key_equals = default_key_equals,
                        ht_hashcode = default_hashcode farmhash64_seed,
                        ht_remove_entry = None\<rparr>, w1))"

section \<open>Lookup\<close>

definition ht_eq :: "('k, 'v, 'c) pcl_htable \<Rightarrow> 'k \<Rightarrow> 'k \<Rightarrow> bool" where
  "ht_eq ht a b = ht_key_equals ht a b (ht_key_len ht)"

definition ht_hash :: "('k, 'v, 'c) pcl_htable \<Rightarrow> 'k \<Rightarrow> 64 word" where
  "ht_hash ht k = ht_hashcode ht k (ht_key_len ht)"

text \<open>The loop over a collision list; the result is the index of the entry and of the entry before
  it in the list. A list that does not end is undefined behaviour.\<close>

partial_function (option) chain_find ::
  "('k \<Rightarrow> 'k \<Rightarrow> bool) \<Rightarrow> ('k, 'v) htable_entry list \<Rightarrow> 64 word \<Rightarrow> 'k \<Rightarrow> int option \<Rightarrow> int \<Rightarrow>
     (int \<times> int option) option option" where
  "chain_find eq ents code key prev entidx =
     (if entidx = -1 then Some None
      else do { e \<leftarrow> rd ents entidx;
                found \<leftarrow> (if he_code e = code then do { k \<leftarrow> he_key e; Some (eq k key) }
                          else Some False);
                if found then Some (Some (entidx, prev))
                else chain_find eq ents code key (Some entidx) (he_next e) })"

definition ipcl_htable_lookup ::
  "('k, 'v, 'c) pcl_htable \<Rightarrow> 'k \<Rightarrow> 'z pcl_err_scheme \<Rightarrow>
     (int option \<times> 64 word \<times> int \<times> 'z pcl_err_scheme) option" where
  "ipcl_htable_lookup ht key w =
     do { let code = ht_hash ht key;
          let hashidx = hash_index code (ht_table_mask ht);
          entidx \<leftarrow> rd (ht_entry_lookup ht) hashidx;
          r \<leftarrow> chain_find (ht_eq ht) (ht_entries ht) code key None entidx;
          Some (case r of
                  Some (i, _) \<Rightarrow> (Some i, code, hashidx, w)
                | None \<Rightarrow> (None, code, hashidx,
                    snd (SETERR (''htable_lookup.c'', ''ipcl_htable_lookup'', 71) PCL_ENOTFOUND w))) }"

definition pcl_htable_lookup ::
  "('k, 'v, 'c) pcl_htable option \<Rightarrow> 'k option \<Rightarrow> 'z pcl_err_scheme \<Rightarrow>
     (('k, 'v) htable_entry option \<times> 'z pcl_err_scheme) option" where
  "pcl_htable_lookup hto keyo w =
     (case (hto, keyo) of
        (Some ht, Some key) \<Rightarrow>
          do { (eo, _, _, w1) \<leftarrow> ipcl_htable_lookup ht key w;
               case eo of
                 Some i \<Rightarrow> do { e \<leftarrow> rd (ht_entries ht) i; Some (Some e, w1) }
               | None \<Rightarrow> Some (R_TRC None (''htable_lookup.c'', ''pcl_htable_lookup'', 43) w1) }
      | _ \<Rightarrow> Some (R_SETERR None (''htable_lookup.c'', ''pcl_htable_lookup'', 39) PCL_EINVAL w))"

definition pcl_htable_get ::
  "('k, 'v, 'c) pcl_htable option \<Rightarrow> 'k option \<Rightarrow> 'z pcl_err_scheme \<Rightarrow>
     ('v option \<times> 'z pcl_err_scheme) option" where
  "pcl_htable_get hto keyo w =
     do { (eo, w1) \<leftarrow> pcl_htable_lookup hto keyo w;
          Some (case eo of
                  None \<Rightarrow> R_TRC None (''htable_get.c'', ''pcl_htable_get'', 41) w1
                | Some e \<Rightarrow> (he_value e, snd (pcl_err_clear w1))) }"

section \<open>Insertion\<close>

text \<open>Filling the next free entry and linking it behind the head of its list; the shared code of
  \<open>pcl_htable_put\<close> and \<open>ipcl_htable_rehash\<close>.\<close>

definition entry_link ::
  "'k option \<Rightarrow> 'v option \<Rightarrow> 64 word \<Rightarrow> int \<Rightarrow> int \<Rightarrow> ('k, 'v) htable_entry list \<Rightarrow> int list \<Rightarrow>
     (('k, 'v) htable_entry list \<times> int list) option" where
  "entry_link key v code hashidx n ents lookup =
     do { ent \<leftarrow> rd ents n;
          let ent1 = ent\<lparr>he_key := key, he_value := v, he_code := code\<rparr>;
          entidx \<leftarrow> rd lookup hashidx;
          if entidx \<noteq> -1
          then do { ents1 \<leftarrow> wr ents n ent1;
                    head \<leftarrow> rd ents1 entidx;
                    ents2 \<leftarrow> wr ents1 n (ent1\<lparr>he_next := he_next head\<rparr>);
                    head2 \<leftarrow> rd ents2 entidx;
                    ents3 \<leftarrow> wr ents2 entidx (head2\<lparr>he_next := n\<rparr>);
                    Some (ents3, lookup) }
          else do { ents1 \<leftarrow> wr ents n (ent1\<lparr>he_next := -1\<rparr>);
                    lookup1 \<leftarrow> wr lookup hashidx n;
                    Some (ents1, lookup1) } }"

text \<open>The loop of \<open>ipcl_htable_rehash\<close> over the used entries, deleted ones skipped.\<close>

fun rehash_loop ::
  "('k, 'v) htable_entry list \<Rightarrow> int \<Rightarrow> nat \<Rightarrow> nat \<Rightarrow> int \<Rightarrow> ('k, 'v) htable_entry list \<Rightarrow> int list \<Rightarrow>
     (('k, 'v) htable_entry list \<times> int list) option" where
  "rehash_loop old tmask i 0 cnt ents lookup = Some (ents, lookup)"
| "rehash_loop old tmask i (Suc n) cnt ents lookup =
     do { oldent \<leftarrow> rd old (int i);
          if he_key oldent = None then rehash_loop old tmask (Suc i) n cnt ents lookup
          else do { (ents1, lookup1) \<leftarrow> entry_link (he_key oldent) (he_value oldent) (he_code oldent)
                      (hash_index (he_code oldent) tmask) cnt ents lookup;
                    rehash_loop old tmask (Suc i) n (cnt + 1) ents1 lookup1 } }"

definition ipcl_htable_rehash ::
  "('k, 'v, 'c) pcl_htable \<Rightarrow> bool \<Rightarrow> 'z pcl_err_scheme \<Rightarrow>
     (int \<times> ('k, 'v, 'c) pcl_htable \<times> 'z pcl_err_scheme) option" where
  "ipcl_htable_rehash ht grow w =
     do { let cap64 = (word_of_int (ht_capacity ht) :: 64 word);
          let (new_capacity, w1) = ipcl_htable_chkcapacity
                (if grow then push_bit 1 cap64 else drop_bit 1 cap64) w;
          let new_table_mask = new_capacity - 1;
          if new_capacity < 0
          then (let (r, w2) = TRC (''htable_rehash.c'', ''ipcl_htable_rehash'', 46) w1
                in Some (r, ht, w2))
          else do { let (ents0, lookup0) = ipcl_htable_init new_capacity;
                    (ents, lookup) \<leftarrow> rehash_loop (ht_entries ht) new_table_mask 0
                       (nat (ht_count_used ht)) 0 ents0 lookup0;
                    Some (0, ht\<lparr>ht_capacity := new_capacity, ht_table_mask := new_table_mask,
                               ht_entries := ents, ht_entry_lookup := lookup,
                               ht_count_used := ht_count ht\<rparr>, w1) } }"

text \<open>\<open>pcl_htable_put\<close>: the lookup runs with the error frozen, and the error is thawed after it.\<close>

definition pcl_htable_put ::
  "('c \<Rightarrow> 'k option \<Rightarrow> 'v option \<Rightarrow> 'z pcl_err_scheme \<Rightarrow> 'z pcl_err_scheme option) \<Rightarrow>
     ('k, 'v, 'c) pcl_htable option \<Rightarrow> 'k option \<Rightarrow> 'v option \<Rightarrow> bool \<Rightarrow> 'z pcl_err_scheme \<Rightarrow>
     (int \<times> ('k, 'v, 'c) pcl_htable option \<times> 'z pcl_err_scheme) option" where
  "pcl_htable_put call hto keyo v unique w =
     (case (hto, keyo) of
        (Some ht, Some key) \<Rightarrow>
          do { (eo, code, hashidx, w0) \<leftarrow> ipcl_htable_lookup ht key (pcl_err_freeze True w);
               let w1 = pcl_err_freeze False w0;
               case eo of
                 Some i \<Rightarrow>
                   if unique
                   then (let (r, w2) = SETERR (''htable_put.c'', ''pcl_htable_put'', 53) PCL_EEXIST w1
                         in Some (r, Some ht, w2))
                   else do { e \<leftarrow> rd (ht_entries ht) i;
                             ents \<leftarrow> wr (ht_entries ht) i (e\<lparr>he_key := Some key, he_value := v\<rparr>);
                             w2 \<leftarrow> (case ht_remove_entry ht of
                                     Some c \<Rightarrow> call c (he_key e) (he_value e) w1
                                   | None \<Rightarrow> Some w1);
                             Some (0, Some (ht\<lparr>ht_entries := ents\<rparr>), w2) }
               | None \<Rightarrow>
                   do { (r, ht1, hashidx1, w2) \<leftarrow>
                          (if ht_count ht \<ge> load_limit (ht_max_loadfac ht) (ht_capacity ht)
                           then do { (r, ht1, w2) \<leftarrow> ipcl_htable_rehash ht True w1;
                                     Some (r, ht1, hash_index code (ht_table_mask ht1), w2) }
                           else Some (0, ht, hashidx, w1));
                        if r \<noteq> 0
                        then (let (r1, w3) = TRC (''htable_put.c'', ''pcl_htable_put'', 74) w2
                              in Some (r1, Some ht1, w3))
                        else do { (ents, lookup) \<leftarrow> entry_link (Some key) v code hashidx1
                                    (ht_count_used ht1) (ht_entries ht1) (ht_entry_lookup ht1);
                                  Some (0, Some (ht1\<lparr>ht_entries := ents, ht_entry_lookup := lookup,
                                                     ht_count := ht_count ht1 + 1,
                                                     ht_count_used := ht_count_used ht1 + 1\<rparr>), w2) } } }
      | _ \<Rightarrow> (let (r, w1) = BADARG (''htable_put.c'', ''pcl_htable_put'', 41) w
             in Some (r, hto, w1)))"

section \<open>Removal\<close>

text \<open>The table after the entry at \<open>i\<close> was unlinked, before the handler runs.\<close>

definition entry_unlink ::
  "('k, 'v, 'c) pcl_htable \<Rightarrow> int \<Rightarrow> int \<Rightarrow> int option \<Rightarrow> ('k, 'v, 'c) pcl_htable option" where
  "entry_unlink ht hashidx i prev =
     do { ent \<leftarrow> rd (ht_entries ht) i;
          case prev of
            Some p \<Rightarrow> do { pe \<leftarrow> rd (ht_entries ht) p;
                           ents \<leftarrow> wr (ht_entries ht) p (pe\<lparr>he_next := he_next ent\<rparr>);
                           Some (ht\<lparr>ht_entries := ents\<rparr>) }
          | None \<Rightarrow> do { lookup \<leftarrow> wr (ht_entry_lookup ht) hashidx (he_next ent);
                         Some (ht\<lparr>ht_entry_lookup := lookup\<rparr>) } }"

definition deleted_entry :: "('k, 'v) htable_entry \<Rightarrow> ('k, 'v) htable_entry" where
  "deleted_entry e = e\<lparr>he_next := -1, he_code := 0, he_key := None, he_value := None\<rparr>"

definition pcl_htable_remove ::
  "('c \<Rightarrow> 'k option \<Rightarrow> 'v option \<Rightarrow> 'z pcl_err_scheme \<Rightarrow> 'z pcl_err_scheme option) \<Rightarrow>
     ('k, 'v, 'c) pcl_htable option \<Rightarrow> 'k option \<Rightarrow> 'z pcl_err_scheme \<Rightarrow>
     (int \<times> ('k, 'v, 'c) pcl_htable option \<times> 'z pcl_err_scheme) option" where
  "pcl_htable_remove call hto keyo w =
     (case (hto, keyo) of
        (Some ht, Some key) \<Rightarrow>
          do { let code = ht_hash ht key;
               let hashidx = hash_index code (ht_table_mask ht);
               entidx \<leftarrow> rd (ht_entry_lookup ht) hashidx;
               r \<leftarrow> chain_find (ht_eq ht) (ht_entries ht) code key None entidx;
               case r of
                 None \<Rightarrow> Some (ht_count ht, Some ht, w)
               | Some (i, prev) \<Rightarrow>
                   do { ht1 \<leftarrow> entry_unlink ht hashidx i prev;
                        ent \<leftarrow> rd (ht_entries ht1) i;
                        w1 \<leftarrow> (case ht_remove_entry ht1 of
                                Some c \<Rightarrow> call c (he_key ent) (he_value ent) w
                              | None \<Rightarrow> Some w);
                        ents \<leftarrow> wr (ht_entries ht1) i (deleted_entry ent);
                        let ht2 = ht1\<lparr>ht_entries := ents, ht_count := ht_count ht1 - 1\<rparr>;
                        if ht_capacity ht2 \<noteq> MINTBLSIZE
                           \<and> ht_count ht2 < load_limit (ht_min_loadfac ht2) (ht_capacity ht2)
                        then do { (rr, ht3, w2) \<leftarrow> ipcl_htable_rehash ht2 False w1;
                                  if rr < 0
                                  then (let (r1, w3) = TRC (''htable_remove.c'', ''pcl_htable_remove'', 68) w2
                                        in Some (r1, Some ht3, w3))
                                  else Some (ht_count ht3, Some ht3, w2) }
                        else Some (ht_count ht2, Some ht2, w1) } }
      | _ \<Rightarrow> (let (r, w1) = BADARG (''htable_remove.c'', ''pcl_htable_remove'', 39) w
             in Some (r, hto, w1)))"

section \<open>Whole-table operations\<close>

text \<open>\<open>if(ent->key && ht->remove_entry) ht->remove_entry(ent->key, ent->value)\<close>.\<close>

definition entry_drop ::
  "('c \<Rightarrow> 'k option \<Rightarrow> 'v option \<Rightarrow> 'w \<Rightarrow> 'w option) \<Rightarrow> 'c option \<Rightarrow> ('k, 'v) htable_entry \<Rightarrow>
     'w \<Rightarrow> 'w option" where
  "entry_drop call handler e w =
     (if he_key e \<noteq> None
      then (case handler of Some c \<Rightarrow> call c (he_key e) (he_value e) w | None \<Rightarrow> Some w)
      else Some w)"

definition pcl_htable_clear ::
  "('c \<Rightarrow> 'k option \<Rightarrow> 'v option \<Rightarrow> 'w \<Rightarrow> 'w option) \<Rightarrow> ('k, 'v, 'c) pcl_htable option \<Rightarrow> bool \<Rightarrow> 'w \<Rightarrow>
     (('k, 'v, 'c) pcl_htable option \<times> 'w) option" where
  "pcl_htable_clear call hto shrink w =
     (case hto of
        None \<Rightarrow> Some (None, w)
      | Some ht \<Rightarrow>
          do { w1 \<leftarrow> for_each (entry_drop call (ht_remove_entry ht)) (ht_entries ht) 0
                      (nat (ht_count_used ht)) w;
               ht1 \<leftarrow> (if shrink \<and> ht_capacity ht \<noteq> MINTBLSIZE
                       then (let (ents, lookup) = ipcl_htable_init MINTBLSIZE
                             in Some (ht\<lparr>ht_capacity := MINTBLSIZE, ht_table_mask := MINTBLSIZE - 1,
                                         ht_entries := ents, ht_entry_lookup := lookup\<rparr>))
                       else do { ents \<leftarrow> mem_set (ht_entries ht) 0 zero_entry (ht_capacity ht);
                                 lookup \<leftarrow> mem_set (ht_entry_lookup ht) 0 (-1) (ht_capacity ht);
                                 Some (ht\<lparr>ht_entries := ents, ht_entry_lookup := lookup\<rparr>) });
               Some (Some (ht1\<lparr>ht_count := 0, ht_count_used := 0\<rparr>), w1) })"

definition pcl_htable_free ::
  "('c \<Rightarrow> 'k option \<Rightarrow> 'v option \<Rightarrow> 'w \<Rightarrow> 'w option) \<Rightarrow> ('k, 'v, 'c) pcl_htable option \<Rightarrow> 'w \<Rightarrow>
     'w option" where
  "pcl_htable_free call hto w =
     (case hto of
        None \<Rightarrow> Some w
      | Some ht \<Rightarrow> for_each (entry_drop call (ht_remove_entry ht)) (ht_entries ht) 0
                     (nat (ht_count_used ht)) w)"

text \<open>\<open>pcl_htable_iter\<close>: the entry and the new index.\<close>

definition pcl_htable_iter ::
  "('k, 'v, 'c) pcl_htable option \<Rightarrow> int option \<Rightarrow>
     (('k, 'v) htable_entry option \<times> int option) option" where
  "pcl_htable_iter hto indexo =
     (case (hto, indexo) of
        (Some ht, Some index) \<Rightarrow>
          if index < 0 \<or> index \<ge> ht_count_used ht then Some (None, indexo)
          else do { i \<leftarrow> scan_from (\<lambda>e. he_key e \<noteq> None) (ht_entries ht) (nat index)
                         (nat (ht_count_used ht - index));
                    if i = -1 then Some (None, Some (-1))
                    else do { e \<leftarrow> rd (ht_entries ht) i; Some (Some e, Some (i + 1)) } }
      | _ \<Rightarrow> Some (None, indexo))"

text \<open>\<open>pcl_htable_keys\<close>: the keys, appended to a pointer table.\<close>

fun keys_loop ::
  "('k, 'v) htable_entry list \<Rightarrow> nat \<Rightarrow> nat \<Rightarrow> ('k, 'c) pcl_array \<Rightarrow> 'z pcl_err_scheme \<Rightarrow>
     (('k, 'c) pcl_array \<times> 'z pcl_err_scheme) option" where
  "keys_loop ents i 0 keys w = Some (keys, w)"
| "keys_loop ents i (Suc n) keys w =
     do { e \<leftarrow> rd ents (int i);
          if he_key e \<noteq> None
          then do { (_, keys1, w1) \<leftarrow> pcl_array_append (Some keys) (he_key e) w;
                    k \<leftarrow> keys1;
                    keys_loop ents (Suc i) n k w1 }
          else keys_loop ents (Suc i) n keys w }"

definition pcl_htable_keys ::
  "('k, 'v, 'c) pcl_htable option \<Rightarrow> 'z pcl_err_scheme \<Rightarrow>
     (('k, 'c) pcl_array \<times> 'z pcl_err_scheme) option" where
  "pcl_htable_keys hto w =
     (let keys = pcl_array_new (case hto of Some ht \<Rightarrow> ht_count ht | None \<Rightarrow> 0) None
      in case hto of
           Some ht \<Rightarrow> if ht_count ht \<noteq> 0
                      then keys_loop (ht_entries ht) 0 (nat (ht_count_used ht)) keys w
                      else Some (keys, w)
         | None \<Rightarrow> Some (keys, w))"

end
