(* ===== verification/PclStrint.thy ===== *)
theory PclStrint imports PclBytes PclError begin

text \<open>
  Strings to integers (\<open>include/pcl/strint.h\<close>, \<open>src/strint\<close>): the range-checked wrappers of the C
  library's \<open>strtol\<close> family. The library's conversion is written out as the C standard and the GNU
  library define it in the C locale: white space, one sign, a base prefix, digits; no digits leave
  the end pointer at the start, a value out of range is clamped and sets \<open>errno\<close> to \<open>ERANGE\<close>, a base
  that is not one sets it to \<open>EINVAL\<close> and leaves the end pointer alone.

  A wrapper answers its result, what it stores through \<open>endptr\<close> and through \<open>result\<close> where these are
  not \<open>NULL\<close> (\<open>None\<close> when it stores nothing), and the error state. An end pointer is an offset into
  the string, or \<open>NULL\<close>.
\<close>

section \<open>The conversion of the C library\<close>

definition c_isspace :: "byte \<Rightarrow> bool" where
  "c_isspace c \<longleftrightarrow> c = 32 \<or> (9 \<le> c \<and> c \<le> 13)"

definition c_isdigit :: "byte \<Rightarrow> bool" where
  "c_isdigit c \<longleftrightarrow> 48 \<le> c \<and> c \<le> 57"

definition digit_val :: "byte \<Rightarrow> nat option" where
  "digit_val c =
     (if 48 \<le> c \<and> c \<le> 57 then Some (unat c - 48)
      else if 65 \<le> c \<and> c \<le> 90 then Some (unat c - 55)
      else if 97 \<le> c \<and> c \<le> 122 then Some (unat c - 87)
      else None)"

definition base_digit :: "nat \<Rightarrow> byte \<Rightarrow> nat option" where
  "base_digit b c = (case digit_val c of Some d \<Rightarrow> if d < b then Some d else None | None \<Rightarrow> None)"

fun space_len :: "byte list \<Rightarrow> nat option" where
  "space_len [] = None"
| "space_len (c # s) = (if c_isspace c then map_option Suc (space_len s) else Some 0)"

fun digits_loop :: "nat \<Rightarrow> byte list \<Rightarrow> nat \<Rightarrow> nat \<Rightarrow> (nat \<times> nat) option" where
  "digits_loop b [] v k = None"
| "digits_loop b (c # s) v k =
     (case base_digit b c of
        Some d \<Rightarrow> digits_loop b s (v * b + d) (k + 1)
      | None \<Rightarrow> Some (v, k))"

text \<open>The base that is used, and the length of its prefix.\<close>

definition base_prefix :: "int \<Rightarrow> byte list \<Rightarrow> nat \<Rightarrow> (nat \<times> nat) option" where
  "base_prefix base s k =
     do { c \<leftarrow> rd s (int k);
          hex \<leftarrow> (if c = 48 \<and> (base = 0 \<or> base = 16)
                 then do { x \<leftarrow> rd s (int k + 1);
                           if x = 120 \<or> x = 88
                           then do { d \<leftarrow> rd s (int k + 2); Some (base_digit 16 d \<noteq> None) }
                           else Some False }
                 else Some False);
          Some (if hex then (16, 2)
                else if base = 0 then (if c = 48 then 8 else 10, 0)
                else (nat base, 0)) }"

text \<open>Sign, magnitude and the offset of the first character that was not used; 0 when there is no
  digit.\<close>

definition c_strto_scan :: "int \<Rightarrow> byte list \<Rightarrow> (bool \<times> nat \<times> nat) option" where
  "c_strto_scan base s =
     do { k \<leftarrow> space_len s;
          c \<leftarrow> rd s (int k);
          let neg = (c = 45);
          let k1 = (if c = 45 \<or> c = 43 then k + 1 else k);
          (b, p) \<leftarrow> base_prefix base s k1;
          (v, n) \<leftarrow> digits_loop b (drop (k1 + p) s) 0 0;
          Some (if n = 0 then (False, 0, 0) else (neg, v, k1 + p + n)) }"

definition LLONG_MAX :: int where "LLONG_MAX = 9223372036854775807"
definition LLONG_MIN :: int where "LLONG_MIN = - 9223372036854775808"
definition ULLONG_MAX :: int where "ULLONG_MAX = 18446744073709551615"

text \<open>\<open>strtol\<close> and \<open>strtoll\<close> (\<open>long\<close> has 64 bits), \<open>strtoul\<close> and \<open>strtoull\<close>: the value, the end
  pointer and \<open>errno\<close>. A minus sign negates the unsigned value modulo \<open>2 ^ 64\<close>.\<close>

definition c_strtoll :: "byte list \<Rightarrow> int \<Rightarrow> (int \<times> nat option \<times> int) option" where
  "c_strtoll s base =
     (if base < 0 \<or> base = 1 \<or> base > 36 then Some (0, None, EINVAL)
      else do { (neg, v, k) \<leftarrow> c_strto_scan base s;
                let n = (if neg then - int v else int v);
                Some (if n < LLONG_MIN then (LLONG_MIN, Some k, ERANGE)
                      else if n > LLONG_MAX then (LLONG_MAX, Some k, ERANGE)
                      else (n, Some k, 0)) })"

definition c_strtoull :: "byte list \<Rightarrow> int \<Rightarrow> (int \<times> nat option \<times> int) option" where
  "c_strtoull s base =
     (if base < 0 \<or> base = 1 \<or> base > 36 then Some (0, None, EINVAL)
      else do { (neg, v, k) \<leftarrow> c_strto_scan base s;
                Some (if int v > ULLONG_MAX then (ULLONG_MAX, Some k, ERANGE)
                      else ((if neg then - int v else int v) mod (ULLONG_MAX + 1), Some k, 0)) })"

section \<open>The wrappers\<close>

text \<open>\<open>strempty\<close>: a \<open>NULL\<close> string or one that starts with the NUL.\<close>

definition strempty :: "byte list option \<Rightarrow> bool option" where
  "strempty so = (case so of None \<Rightarrow> Some True | Some s \<Rightarrow> map_option (\<lambda>c. c = 0) (rd s 0))"

type_synonym 'z converted =
  "(int \<times> nat option option \<times> int option \<times> 'z pcl_err_scheme) option"

definition stores :: "nat option option \<Rightarrow> int option \<Rightarrow> int \<times> 'z pcl_err_scheme \<Rightarrow> 'z converted" where
  "stores e n rw = Some (fst rw, e, n, snd rw)"

definition pcl_strtol :: "byte list option \<Rightarrow> int \<Rightarrow> 'z pcl_err_scheme \<Rightarrow> 'z converted" where
  "pcl_strtol nptr base w =
     do { empty \<leftarrow> strempty nptr;
          if empty
          then stores None None (SETERRMSG (''strtol.c'', ''pcl_strtol'', 48) PCL_EINVAL
                                   ''empty input string'' w)
          else do { s \<leftarrow> nptr;
                    (n, endp, e) \<leftarrow> c_strtoll s base;
                    let w1 = w\<lparr>c_errno := e\<rparr>;
                    if e = ERANGE
                    then stores (Some endp) None
                           (SETLASTERRMSG (''strtol.c'', ''pcl_strtol'', 58)
                              ((if n = LLONG_MIN then ''underflow'' else ''overflow'') @ '' occurred'') w1)
                    else if e \<noteq> 0 \<and> n = 0
                    then stores (Some endp) None (SETOSERR (''strtol.c'', ''pcl_strtol'', 61) e w1)
                    else if endp = Some 0
                    then stores (Some endp) None
                           (SETERRMSG (''strtol.c'', ''pcl_strtol'', 64) PCL_EINVAL ''no digits founds'' w1)
                    else stores (Some endp) (Some n) (0, w1) } }"

definition pcl_strtoll :: "byte list option \<Rightarrow> int \<Rightarrow> 'z pcl_err_scheme \<Rightarrow> 'z converted" where
  "pcl_strtoll nptr base w =
     do { empty \<leftarrow> strempty nptr;
          if empty then stores None None (BADARG (''strtoll.c'', ''pcl_strtoll'', 48) w)
          else do { s \<leftarrow> nptr;
                    (n, endp, e) \<leftarrow> c_strtoll s base;
                    let w1 = w\<lparr>c_errno := e\<rparr>;
                    if e = ERANGE
                    then stores (Some endp) None
                           (SETOSERRMSG (''strtoll.c'', ''pcl_strtoll'', 58) ERANGE
                              ((if n = LLONG_MIN then ''underflow'' else ''overflow'') @ '' occurred'') w1)
                    else if e \<noteq> 0 \<and> n = 0
                    then stores (Some endp) None (SETOSERR (''strtoll.c'', ''pcl_strtoll'', 61) e w1)
                    else if endp = Some 0
                    then stores (Some endp) None
                           (SETERRMSG (''strtoll.c'', ''pcl_strtoll'', 64) PCL_EINVAL ''no digits founds'' w1)
                    else stores (Some endp) (Some n) (0, w1) } }"

text \<open>The callers read their local variable after a call that answered 0; it holds a value only when
  the callee stored one.\<close>

definition pcl_strtoi :: "byte list option \<Rightarrow> int \<Rightarrow> 'z pcl_err_scheme \<Rightarrow> 'z converted" where
  "pcl_strtoi s base w =
     do { (r, e, no, w1) \<leftarrow> pcl_strtol s base w;
          if r \<noteq> 0 then stores e None (TRC (''strtoi.c'', ''pcl_strtoi'', 60) w1)
          else do { n \<leftarrow> no;
                    if n < INT_MIN \<or> n > INT_MAX
                    then stores e None (SETERR (''strtoi.c'', ''pcl_strtoi'', 63) PCL_ERANGE w1)
                    else stores e (Some n) (0, w1) } }"

definition pcl_strtoul :: "byte list option \<Rightarrow> int \<Rightarrow> 'z pcl_err_scheme \<Rightarrow> 'z converted" where
  "pcl_strtoul nptr base w =
     do { empty \<leftarrow> strempty nptr;
          if empty
          then stores None None (SETERRMSG (''strtoul.c'', ''pcl_strtoul'', 47) PCL_EINVAL
                                   ''empty input string'' w)
          else do { s \<leftarrow> nptr;
                    (n, endp, e) \<leftarrow> c_strtoull s base;
                    let w1 = w\<lparr>c_errno := e\<rparr>;
                    if e = ERANGE
                    then stores (Some endp) None (SETOSERR (''strtoul.c'', ''pcl_strtoul'', 57) ERANGE w1)
                    else if e \<noteq> 0 \<and> n = 0
                    then stores (Some endp) None (SETOSERR (''strtoul.c'', ''pcl_strtoul'', 60) e w1)
                    else if endp = Some 0
                    then stores (Some endp) None
                           (SETERRMSG (''strtoul.c'', ''pcl_strtoul'', 63) PCL_EINVAL ''no digits founds'' w1)
                    else stores (Some endp) (Some n) (0, w1) } }"

definition pcl_strtoull :: "byte list option \<Rightarrow> int \<Rightarrow> 'z pcl_err_scheme \<Rightarrow> 'z converted" where
  "pcl_strtoull nptr base w =
     do { empty \<leftarrow> strempty nptr;
          if empty then stores None None (BADARG (''strtoull.c'', ''pcl_strtoull'', 47) w)
          else do { s \<leftarrow> nptr;
                    (n, endp, e) \<leftarrow> c_strtoull s base;
                    let w1 = w\<lparr>c_errno := e\<rparr>;
                    if e = ERANGE
                    then stores (Some endp) None (SETOSERR (''strtoull.c'', ''pcl_strtoull'', 57) ERANGE w1)
                    else if e \<noteq> 0 \<and> n = 0
                    then stores (Some endp) None (SETOSERR (''strtoull.c'', ''pcl_strtoull'', 60) e w1)
                    else if endp = Some 0
                    then stores (Some endp) None
                           (SETERRMSG (''strtoull.c'', ''pcl_strtoull'', 63) PCL_EINVAL ''no digits founds'' w1)
                    else stores (Some endp) (Some n) (0, w1) } }"

definition UINT_MAX :: int where "UINT_MAX = 4294967295"

definition pcl_strtoui :: "byte list option \<Rightarrow> int \<Rightarrow> 'z pcl_err_scheme \<Rightarrow> 'z converted" where
  "pcl_strtoui s base w =
     do { (r, e, no, w1) \<leftarrow> pcl_strtoul s base w;
          if r \<noteq> 0 then stores e None (TRC (''strtoui.c'', ''pcl_strtoui'', 52) w1)
          else do { n \<leftarrow> no;
                    if n > UINT_MAX
                    then stores e None (SETERR (''strtoui.c'', ''pcl_strtoui'', 55) PCL_ERANGE w1)
                    else stores e (Some n) (0, w1) } }"

section \<open>Decimal numbers\<close>

text \<open>The bytes of a string, and the decimal digits of a number as the conversion reads them.\<close>

definition str_bytes :: "string \<Rightarrow> byte list" where
  "str_bytes s = map (\<lambda>c. of_nat (of_char c)) s"

lemma str_bytes_simps [simp]:
  "str_bytes [] = []" "str_bytes (c # s) = of_nat (of_char c) # str_bytes s"
  "str_bytes (s @ t) = str_bytes s @ str_bytes t" "length (str_bytes s) = length s"
  by (simp_all add: str_bytes_def)

lemma digit_byte:
  assumes "d < 10"
  shows "base_digit 10 (of_nat (of_char (dec_digit d))) = Some d"
proof -
  have "of_char (dec_digit d) = 48 + d" using assms by (simp add: dec_digit_def of_char_of)
  moreover have "unat (of_nat (48 + d) :: byte) = 48 + d"
    using assms by (simp add: unat_of_nat del: of_nat_add)
  ultimately show ?thesis
    using assms unfolding base_digit_def digit_val_def by (simp add: word_le_nat_alt del: of_nat_add)
qed

lemma digits_loop_append:
  "\<forall>c \<in> set s. base_digit b c \<noteq> None \<Longrightarrow> base_digit b e = None \<Longrightarrow>
   digits_loop b (s @ e # r) v k =
     Some (foldl (\<lambda>a c. a * b + the (base_digit b c)) v s, k + length s)"
proof (induction s arbitrary: v k)
  case (Cons c s)
  then show ?case by (cases "base_digit b c") auto
qed simp

lemma nat_dec_digits: "c \<in> set (str_bytes (nat_dec n)) \<Longrightarrow> base_digit 10 c \<noteq> None"
proof (induction n rule: nat_dec.induct)
  case (1 n)
  have d: "n mod 10 < 10" by simp
  show ?case
  proof (cases "n div 10 = 0")
    case True
    then show ?thesis using 1(2) digit_byte [OF d] by (subst (asm) nat_dec.simps) (auto simp del: of_nat_add)
  next
    case False
    then have "c \<in> set (str_bytes (nat_dec (n div 10))) \<or> c = of_nat (of_char (dec_digit (n mod 10)))"
      using 1(2) by (subst (asm) nat_dec.simps) (auto simp: Let_def)
    then show ?thesis using 1(1) [OF refl refl False] digit_byte [OF d] by auto
  qed
qed

lemma nat_dec_value:
  "foldl (\<lambda>a c. a * 10 + the (base_digit 10 c)) 0 (str_bytes (nat_dec n)) = n"
proof (induction n rule: nat_dec.induct)
  case (1 n)
  have d: "n mod 10 < 10" by simp
  show ?case
  proof (cases "n div 10 = 0")
    case True
    then have "n mod 10 = n" by simp
    then show ?thesis using True digit_byte [OF d] by (subst nat_dec.simps) simp
  next
    case False
    then show ?thesis
      using 1 [OF refl refl False] digit_byte [OF d] by (subst nat_dec.simps) (simp add: Let_def)
  qed
qed

lemma nat_dec_nonempty [simp]: "nat_dec n \<noteq> []"
  by (subst nat_dec.simps) (simp add: Let_def)

text \<open>A digit is neither white space nor a sign, and a second digit is not the prefix of a base.\<close>

lemma base_digit_range: "base_digit 10 c \<noteq> None \<longleftrightarrow> 48 \<le> c \<and> c \<le> 57"
proof -
  have "unat c < 58" if "c \<le> 57" using that by (simp add: word_le_nat_alt)
  moreover have "48 \<le> unat c" if "48 \<le> c" using that by (simp add: word_le_nat_alt)
  moreover have "\<not> unat c - 55 < 10" if "65 \<le> c"
    using that by (simp add: word_le_nat_alt)
  moreover have "\<not> unat c - 87 < 10" if "97 \<le> c"
    using that by (simp add: word_le_nat_alt)
  ultimately show ?thesis
    by (auto simp: base_digit_def digit_val_def)
qed

lemma digit_not_special:
  assumes "base_digit 10 c \<noteq> None"
  shows "\<not> c_isspace c" "c \<noteq> 45" "c \<noteq> 43" "c \<noteq> 0"
  using assms unfolding base_digit_range
  by (auto simp: c_isspace_def word_le_nat_alt dest: order_trans)

lemma scan_int_dec:
  assumes "base_digit 10 e = None"
  shows "c_strto_scan 10 (str_bytes (int_dec i) @ e # r)
    = Some (i < 0, nat \<bar>i\<bar>, length (int_dec i))"
proof -
  have dl: "digits_loop 10 (str_bytes (nat_dec n) @ e # r) 0 0 = Some (n, length (nat_dec n))" for n
    using digits_loop_append [of "str_bytes (nat_dec n)" 10 e r 0 0] nat_dec_digits nat_dec_value [of n]
      assms by fastforce
  obtain c t where c: "str_bytes (nat_dec (nat i)) = c # t"
    by (cases "nat_dec (nat i)") (auto simp: str_bytes_def)
  have cd: "base_digit 10 c \<noteq> None"
    using nat_dec_digits [of c "nat i"] c by simp
  show ?thesis
  proof (cases "i < 0")
    case True
    then have "nat (- i) = nat \<bar>i\<bar>" by simp
    then show ?thesis
      using True dl [of "nat (- i)"]
      by (simp add: c_strto_scan_def int_dec_def c_isspace_def rd_def base_prefix_def nth_append)
  next
    case False
    then show ?thesis
      using dl [of "nat i"] c digit_not_special [OF cd]
      by (simp add: c_strto_scan_def int_dec_def rd_def base_prefix_def)
  qed
qed

lemma strempty_int_dec: "strempty (Some (str_bytes (int_dec i) @ r)) = Some False"
proof (cases "i < 0")
  case True
  then show ?thesis by (simp add: strempty_def int_dec_def rd_def)
next
  case False
  then obtain c t where "str_bytes (int_dec i) = c # t" "c \<in> set (str_bytes (nat_dec (nat i)))"
    by (cases "nat_dec (nat i)") (auto simp: int_dec_def str_bytes_def)
  then show ?thesis
    using digit_not_special(4) [OF nat_dec_digits] by (auto simp: strempty_def rd_def)
qed

lemma int_dec_nonempty [simp]: "int_dec i \<noteq> []"
  by (simp add: int_dec_def)

lemma strtoll_int_dec:
  assumes "base_digit 10 e = None"
  shows "c_strtoll (str_bytes (int_dec i) @ e # r) 10 =
    Some (if i < LLONG_MIN then (LLONG_MIN, Some (length (int_dec i)), ERANGE)
          else if i > LLONG_MAX then (LLONG_MAX, Some (length (int_dec i)), ERANGE)
          else (i, Some (length (int_dec i)), 0))"
  using scan_int_dec [OF assms, of i r] by (auto simp: c_strtoll_def)

lemma os2pcl_ERANGE: "pcl_err_os2pcl ERANGE = PCL_ERANGE"
  by (simp add: pcl_err_os2pcl_def error_map_def error_map_1_def error_map_2_def error_map_3_def
      error_map_4_def)

text \<open>Converting the decimal form of a number, followed by any character that is not a digit,
  gives the number back and ends behind its digits; a number outside of the range of \<open>long long\<close>
  stores nothing and reports \<open>PCL_ERANGE\<close> with the direction of the overflow.\<close>

theorem strtoll_dec:
  assumes "base_digit 10 e = None" "\<not> frozen w"
  shows "pcl_strtoll (Some (str_bytes (int_dec i) @ e # r)) 10 w =
    Some (if LLONG_MIN \<le> i \<and> i \<le> LLONG_MAX then (0, Some (Some (length (int_dec i))), Some i, w\<lparr>c_errno := 0\<rparr>)
          else (-1, Some (Some (length (int_dec i))), None,
                raised (''strtoll.c'', ''pcl_strtoll'', 58) PCL_ERANGE ERANGE
                  (Some ((if i < LLONG_MIN then ''underflow'' else ''overflow'') @ '' occurred'')) w))"
proof -
  have "SETOSERRMSG l ERANGE m (w\<lparr>c_errno := n\<rparr>) = (-1, raised l PCL_ERANGE ERANGE (Some m) w)" for l m n
    using assms(2) by (simp add: SETOSERRMSG_def SETERRMSG_OS_thawed os2pcl_ERANGE raised_def)
  then show ?thesis
    using strtoll_int_dec [OF assms(1), of i r] strempty_int_dec [of i "e # r"]
    by (simp add: pcl_strtoll_def stores_def LLONG_MIN_def LLONG_MAX_def)
qed

lemma strtoll_dec_witness:
  "pcl_strtoll (Some (str_bytes (int_dec (- 70)) @ 44 # [])) 10 err_init =
    Some (if LLONG_MIN \<le> - 70 \<and> - 70 \<le> LLONG_MAX
          then (0, Some (Some (length (int_dec (- 70)))), Some (- 70), err_init\<lparr>c_errno := 0\<rparr>)
          else (-1, Some (Some (length (int_dec (- 70)))), None,
                raised (''strtoll.c'', ''pcl_strtoll'', 58) PCL_ERANGE ERANGE
                  (Some ((if - 70 < LLONG_MIN then ''underflow'' else ''overflow'') @ '' occurred''))
                  err_init))"
  by (rule strtoll_dec) (simp_all add: base_digit_def digit_val_def err_init_def)

text \<open>C39: The \<open>int\<close> conversion accepts exactly the range of \<open>int\<close>: whatever the number, it is stored
  when it fits and otherwise the result is -1 with \<open>PCL_ERANGE\<close> and nothing is stored.\<close>

theorem strtoi_dec:
  assumes "base_digit 10 e = None" "\<not> frozen w"
  shows "\<exists>w'. pcl_strtoi (Some (str_bytes (int_dec i) @ e # r)) 10 w =
    Some (if INT_MIN \<le> i \<and> i \<le> INT_MAX then (0, Some (Some (length (int_dec i))), Some i, w')
          else (-1, Some (Some (length (int_dec i))), None, w'))
    \<and> err w' = (if INT_MIN \<le> i \<and> i \<le> INT_MAX then err w else PCL_ERANGE)"
proof -
  have s: "SETLASTERRMSG l m (w\<lparr>c_errno := ERANGE\<rparr>) = (-1, raised l PCL_ERANGE ERANGE (Some m) w)"
    "SETERR l PCL_ERANGE (w\<lparr>c_errno := 0\<rparr>) = (-1, raised l PCL_ERANGE 0 None w)" for l m
    using assms(2)
    by (simp_all add: SETLASTERRMSG_def SETOSERRMSG_def SETERR_def SETERRMSG_OS_thawed os2pcl_ERANGE
        raised_def)
  have t: "TRC l (raised l' PCL_ERANGE os m w)
      = (-1, (raised l' PCL_ERANGE os m w)\<lparr>strace := mk_trace l None # [mk_trace l' m]\<rparr>)" for l l' os m
    using assms(2) by (simp add: TRC_def TRCMSG_thawed)
  consider "i < LLONG_MIN" | "LLONG_MAX < i" | "LLONG_MIN \<le> i" "i \<le> LLONG_MAX" "i < INT_MIN \<or> INT_MAX < i"
    | "INT_MIN \<le> i" "i \<le> INT_MAX" by linarith
  then show ?thesis
    using strtoll_int_dec [OF assms(1), of i r] strempty_int_dec [of i "e # r"] s t
    by cases (auto simp: pcl_strtoi_def pcl_strtol_def stores_def LLONG_MIN_def LLONG_MAX_def
        INT_MIN_def INT_MAX_def)
qed

lemma strtoi_dec_witness:
  "\<exists>w'. pcl_strtoi (Some (str_bytes (int_dec 2147483648) @ 0 # [])) 10 err_init =
    Some (-1, Some (Some (length (int_dec 2147483648))), None, w') \<and> err w' = PCL_ERANGE"
  using strtoi_dec [of 0 err_init 2147483648 "[]"]
  by (simp add: base_digit_def digit_val_def err_init_def INT_MAX_def)

text \<open>The unsigned conversions accept a minus sign and wrap around, which the range check of
  \<open>pcl_strtoui\<close> then sees as a large value.\<close>

lemma strtoull_minus_one:
  "pcl_strtoull (Some [45, 49, 0]) 10 w = Some (0, Some (Some 2), Some ULLONG_MAX, w\<lparr>c_errno := 0\<rparr>)"
  by (simp add: pcl_strtoull_def strempty_def rd_def c_strtoull_def c_strto_scan_def c_isspace_def
      base_prefix_def base_digit_def digit_val_def stores_def ULLONG_MAX_def)

text \<open>A caller that has frozen its error and converts a bad string gets the success code of the inner
  conversion and goes on with a variable that was never stored.\<close>

lemma strtoi_frozen_uninitialised:
  assumes "frozen w" shows "pcl_strtoi (Some [120, 0]) 10 w = None"
proof -
  have "SETERRMSG l e m (w\<lparr>c_errno := 0\<rparr>) = (0, w\<lparr>c_errno := 0\<rparr>)" for l e m
    using assms by (simp add: macros_frozen)
  then show ?thesis
    by (simp add: pcl_strtoi_def pcl_strtol_def strempty_def rd_def c_strtoll_def c_strto_scan_def
        c_isspace_def base_prefix_def base_digit_def digit_val_def stores_def LLONG_MIN_def LLONG_MAX_def)
qed

end
