(* ===== verification/PclJson.thy ===== *)
theory PclJson imports PclHtable PclString PclUtf8 PclStrint begin

text \<open>
  JSON values (\<open>include/pcl/json.h\<close>, \<open>src/json\<close>): construction, reference counts, objects and arrays.

  A value is a node of an explicit store, since nodes are shared and changed in place; a pointer to
  one is a number. \<open>null\<close>, \<open>true\<close> and \<open>false\<close> are the three static nodes. The store is part of the
  state that carries the thread's error. An access to a node that is not allocated is undefined
  behaviour. Strings, pointer tables and hash tables belong to their node and are values of it: the
  \<open>char\<close> block of a string, and for a key the string itself, which is what the table compares.

  Everything outside of the source is a parameter, collected in a record: the hash of the tables,
  the content of fresh memory, the floating-point type with \<open>strtod\<close>, \<open>isnan\<close>, \<open>isinf\<close>, the comparison
  with \<open>PCL_JSON_INVREAL\<close> and the text that \<open>%1.15g\<close> makes, and a bound of the depth to which
  \<open>pcl_json_free\<close> may recurse (running out of it is \<open>None\<close>, as an endless recursion is).
\<close>

section \<open>Values and the store\<close>

datatype json_handler = RemoveEntry | ArrayCleanup

datatype 'r json_val =
    JNull
  | JBool bool
  | JReal 'r
  | JInt int
  | JStr "byte list"
  | JArr "(nat, json_handler) pcl_array option"
  | JObj "(string, nat, json_handler) pcl_htable"

record 'r pcl_json =
  js_nrefs :: int
  js_val :: "'r json_val"

record 'r jworld = pcl_err +
  jw_mem :: "nat \<Rightarrow> 'r pcl_json option"
  jw_next :: nat

record 'r json_lib =
  jl_farmhash :: "string \<Rightarrow> nat \<Rightarrow> 64 word \<Rightarrow> 64 word"
  jl_junk :: byte
  jl_depth :: nat
  jl_strtod :: "byte list \<Rightarrow> ('r \<times> nat \<times> int) option"
  jl_zero :: "'r \<Rightarrow> bool"
  jl_isnan :: "'r \<Rightarrow> bool"
  jl_isinf :: "'r \<Rightarrow> bool"
  jl_invreal :: 'r
  jl_format :: "'r \<Rightarrow> byte list"

text \<open>The member \<open>type\<close>.\<close>

definition json_type :: "'r json_val \<Rightarrow> char" where
  "json_type v =
     (case v of JNull \<Rightarrow> CHR 0x00 | JBool _ \<Rightarrow> CHR ''b'' | JReal _ \<Rightarrow> CHR ''r'' | JInt _ \<Rightarrow> CHR ''i''
      | JStr _ \<Rightarrow> CHR ''s'' | JArr _ \<Rightarrow> CHR ''a'' | JObj _ \<Rightarrow> CHR ''o'')"

definition json_load :: "nat \<Rightarrow> 'r jworld \<Rightarrow> 'r pcl_json option" where
  "json_load p w = jw_mem w p"

definition json_store :: "nat \<Rightarrow> 'r pcl_json \<Rightarrow> 'r jworld \<Rightarrow> 'r jworld" where
  "json_store p nd w = w\<lparr>jw_mem := (jw_mem w)(p \<mapsto> nd)\<rparr>"

definition json_alloc :: "'r pcl_json \<Rightarrow> 'r jworld \<Rightarrow> nat \<times> 'r jworld" where
  "json_alloc nd w = (jw_next w, w\<lparr>jw_mem := (jw_mem w)(jw_next w \<mapsto> nd), jw_next := jw_next w + 1\<rparr>)"

definition pcl_json_null :: nat where "pcl_json_null = 0"
definition pcl_json_true :: nat where "pcl_json_true = 1"
definition pcl_json_false :: nat where "pcl_json_false = 2"

definition pcl_json_bool :: "bool \<Rightarrow> nat" where
  "pcl_json_bool value = (if value then pcl_json_true else pcl_json_false)"

definition json_static :: "nat \<Rightarrow> bool" where
  "json_static p \<longleftrightarrow> p = pcl_json_null \<or> p = pcl_json_true \<or> p = pcl_json_false"

text \<open>The store before the program creates a value.\<close>

definition json_init :: "'r jworld" where
  "json_init = pcl_err.extend err_init
     \<lparr>jw_mem = [pcl_json_null \<mapsto> \<lparr>js_nrefs = 0, js_val = JNull\<rparr>,
                pcl_json_true \<mapsto> \<lparr>js_nrefs = 0, js_val = JBool True\<rparr>,
                pcl_json_false \<mapsto> \<lparr>js_nrefs = 0, js_val = JBool False\<rparr>],
      jw_next = 3\<rparr>"

section \<open>Reference counts\<close>

definition pcl_json_ref :: "nat option \<Rightarrow> int \<Rightarrow> 'r jworld \<Rightarrow> 'r jworld option" where
  "pcl_json_ref jo amt w =
     (case jo of
        None \<Rightarrow> Some w
      | Some j \<Rightarrow>
          if json_static j then Some w
          else do { nd \<leftarrow> json_load j w;
                    n \<leftarrow> cint (js_nrefs nd + amt);
                    Some (json_store j (nd\<lparr>js_nrefs := n\<rparr>) w) })"

text \<open>The handlers of a table (\<open>remove_entry\<close> frees key and value) and of an array (\<open>array_cleanup\<close>)
  free the value. The node is read again before it is freed: a handler may have freed it.\<close>

fun pcl_json_free :: "nat \<Rightarrow> nat option \<Rightarrow> 'r jworld \<Rightarrow> 'r jworld option" where
  "pcl_json_free 0 jo w = None"
| "pcl_json_free (Suc depth) jo w =
     (case jo of
        None \<Rightarrow> Some w
      | Some j \<Rightarrow>
          if json_static j then Some w
          else do { w1 \<leftarrow> pcl_json_ref (Some j) (-1) w;
                    nd \<leftarrow> json_load j w1;
                    if js_nrefs nd > 0 then Some w1
                    else do { w2 \<leftarrow> (case js_val nd of
                                JArr a \<Rightarrow> pcl_array_free (\<lambda>_ elem. pcl_json_free depth elem) a w1
                              | JObj t \<Rightarrow> pcl_htable_free (\<lambda>_ key value. pcl_json_free depth value)
                                            (Some t) w1
                              | _ \<Rightarrow> Some w1);
                              _ \<leftarrow> json_load j w2;
                              Some (w2\<lparr>jw_mem := (jw_mem w2)(j := None)\<rparr>) } })"

definition array_cleanup :: "'r json_lib \<Rightarrow> json_handler \<Rightarrow> nat option \<Rightarrow> 'r jworld \<Rightarrow> 'r jworld option" where
  "array_cleanup L h elem w = pcl_json_free (jl_depth L) elem w"

definition remove_entry ::
  "'r json_lib \<Rightarrow> json_handler \<Rightarrow> string option \<Rightarrow> nat option \<Rightarrow> 'r jworld \<Rightarrow> 'r jworld option" where
  "remove_entry L h key value w = pcl_json_free (jl_depth L) value w"

section \<open>Scalars\<close>

definition PCL_JSON_SKIPUTF8CHK :: "32 word" where "PCL_JSON_SKIPUTF8CHK = 0x01"
definition PCL_JSON_SHALLOW :: "32 word" where "PCL_JSON_SHALLOW = 0x02"
definition PCL_JSON_EMPTYASNULL :: "32 word" where "PCL_JSON_EMPTYASNULL = 0x04"
definition PCL_JSON_ALLOWNULL :: "32 word" where "PCL_JSON_ALLOWNULL = 0x08"
definition PCL_JSON_FREEVALONERR :: "32 word" where "PCL_JSON_FREEVALONERR = 0x10"

definition has_flag :: "32 word \<Rightarrow> 32 word \<Rightarrow> bool" where "has_flag flags f \<longleftrightarrow> flags AND f \<noteq> 0"

definition PCL_JSON_INVINT :: int where "PCL_JSON_INVINT = LLONG_MIN"

type_synonym 'r made = "(nat option \<times> 'r jworld) option"

definition made :: "'r json_val \<Rightarrow> 'r jworld \<Rightarrow> 'r made" where
  "made v w = (case json_alloc \<lparr>js_nrefs = 1, js_val = v\<rparr> w of (p, w1) \<Rightarrow> Some (Some p, w1))"

definition pcl_json_int :: "int \<Rightarrow> 'r jworld \<Rightarrow> 'r made" where
  "pcl_json_int i w =
     (if i = PCL_JSON_INVINT then Some (R_SETERR None (''json_int.c'', ''pcl_json_int'', 39) PCL_EINVAL w)
      else made (JInt i) w)"

definition pcl_json_real :: "'r json_lib \<Rightarrow> 'r \<Rightarrow> 'r jworld \<Rightarrow> 'r made" where
  "pcl_json_real L r w =
     (if r = jl_invreal L then Some (R_SETERR None (''json_real.c'', ''pcl_json_real'', 40) PCL_EINVAL w)
      else if jl_isnan L r
      then Some (R_SETERRMSG None (''json_real.c'', ''pcl_json_real'', 43) PCL_EINVAL ''NaN not supported'' w)
      else if jl_isinf L r
      then Some (R_SETERRMSG None (''json_real.c'', ''pcl_json_real'', 46) PCL_EINVAL
                   ''Infinity not supported'' w)
      else made (JReal r) w)"

definition pcl_json_str :: "byte list option \<Rightarrow> 32 word \<Rightarrow> 'r jworld \<Rightarrow> 'r made" where
  "pcl_json_str so flags w =
     (case so of
        None \<Rightarrow>
          if has_flag flags PCL_JSON_ALLOWNULL then Some (Some pcl_json_null, w)
          else Some (R_SETERR None (''json_str.c'', ''pcl_json_str'', 44) PCL_EINVAL w)
      | Some s \<Rightarrow>
          do { len \<leftarrow> c_strlen s;
               (bad, w1) \<leftarrow> (if \<not> has_flag flags PCL_JSON_SKIPUTF8CHK then pcl_utf8_check s len w
                             else Some (0, w));
               if bad < 0 then Some (R_TRC None (''json_str.c'', ''pcl_json_str'', 50) w1)
               else if has_flag flags PCL_JSON_EMPTYASNULL \<and> len = 0 then Some (Some pcl_json_null, w1)
               else do { str \<leftarrow> (if has_flag flags PCL_JSON_SHALLOW then Some s
                                 else pcl_strndup (Some s) len);
                         made (JStr str) w1 } })"

definition pcl_json_strn :: "byte list option \<Rightarrow> nat \<Rightarrow> 32 word \<Rightarrow> 'r jworld \<Rightarrow> 'r made" where
  "pcl_json_strn so len flags w =
     (case so of
        None \<Rightarrow>
          if has_flag flags PCL_JSON_ALLOWNULL then Some (Some pcl_json_null, w)
          else Some (R_SETERR None (''json_strn.c'', ''pcl_json_strn'', 44) PCL_EINVAL w)
      | Some s \<Rightarrow>
          do { (bad, w1) \<leftarrow> (if \<not> has_flag flags PCL_JSON_SKIPUTF8CHK then pcl_utf8_check s len w
                             else Some (0, w));
               if bad < 0 then Some (R_TRC None (''json_strn.c'', ''pcl_json_strn'', 48) w1)
               else if has_flag flags PCL_JSON_EMPTYASNULL \<and> len = 0 then Some (Some pcl_json_null, w1)
               else do { str \<leftarrow> pcl_strndup (Some s) len; made (JStr str) w1 } })"

section \<open>Type tests\<close>

definition json_is :: "('r json_val \<Rightarrow> bool) \<Rightarrow> nat option \<Rightarrow> 'r jworld \<Rightarrow> bool option" where
  "json_is P jo w =
     (case jo of None \<Rightarrow> Some False | Some j \<Rightarrow> map_option (\<lambda>nd. P (js_val nd)) (json_load j w))"

definition pcl_json_isnull :: "nat option \<Rightarrow> 'r jworld \<Rightarrow> bool option" where
  "pcl_json_isnull j w = json_is (\<lambda>v. json_type v = CHR 0x00) j w"

definition pcl_json_isbool :: "nat option \<Rightarrow> 'r jworld \<Rightarrow> bool option" where
  "pcl_json_isbool j w = json_is (\<lambda>v. json_type v = CHR ''b'') j w"

definition pcl_json_istrue :: "nat option \<Rightarrow> 'r jworld \<Rightarrow> bool option" where
  "pcl_json_istrue j w = json_is (\<lambda>v. case v of JBool b \<Rightarrow> b | _ \<Rightarrow> False) j w"

definition pcl_json_isfalse :: "nat option \<Rightarrow> 'r jworld \<Rightarrow> bool option" where
  "pcl_json_isfalse j w = json_is (\<lambda>v. case v of JBool b \<Rightarrow> \<not> b | _ \<Rightarrow> False) j w"

definition pcl_json_isreal :: "nat option \<Rightarrow> 'r jworld \<Rightarrow> bool option" where
  "pcl_json_isreal j w = json_is (\<lambda>v. json_type v = CHR ''r'') j w"

definition pcl_json_isint :: "nat option \<Rightarrow> 'r jworld \<Rightarrow> bool option" where
  "pcl_json_isint j w = json_is (\<lambda>v. json_type v = CHR ''i'') j w"

definition pcl_json_isstr :: "nat option \<Rightarrow> 'r jworld \<Rightarrow> bool option" where
  "pcl_json_isstr j w = json_is (\<lambda>v. json_type v = CHR ''s'') j w"

definition pcl_json_isarr :: "nat option \<Rightarrow> 'r jworld \<Rightarrow> bool option" where
  "pcl_json_isarr j w = json_is (\<lambda>v. json_type v = CHR ''a'') j w"

definition pcl_json_isobj :: "nat option \<Rightarrow> 'r jworld \<Rightarrow> bool option" where
  "pcl_json_isobj j w = json_is (\<lambda>v. json_type v = CHR ''o'') j w"

text \<open>The message of a type error, with \<open>%c\<close> of the type.\<close>

definition expected :: "char \<Rightarrow> 'r json_val \<Rightarrow> string" where
  "expected t v = ''expected type '' @ [CHR 0x27, t, CHR 0x27] @ '', got '' @ [CHR 0x27, json_type v, CHR 0x27]"

end
