(* ===== verification/PclJsonDom.thy ===== *)
theory PclJsonDom imports PclJson begin

text \<open>
  JSON objects and arrays (\<open>src/json/json_obj*.c\<close>, \<open>json_arr*.c\<close>, \<open>json_count.c\<close>). A call loads the
  container's node, runs the operation of the hash table or the pointer table on its member and
  stores the changed member. The handlers that run inside of it change the store; a node they freed
  must not be written.
\<close>

section \<open>Construction\<close>

definition pcl_json_obj :: "'r json_lib \<Rightarrow> 'r jworld \<Rightarrow> 'r made" where
  "pcl_json_obj L w =
     (case pcl_htable_new (jl_farmhash L) 0 w of
        (to, w1) \<Rightarrow> do { t \<leftarrow> to; made (JObj (t\<lparr>ht_remove_entry := Some RemoveEntry\<rparr>)) w1 })"

definition pcl_json_arr :: "'r jworld \<Rightarrow> 'r made" where
  "pcl_json_arr w = made (JArr (Some (pcl_array_new 8 (Some ArrayCleanup)))) w"

text \<open>Storing a container's member back.\<close>

definition json_put_val :: "nat \<Rightarrow> 'r json_val \<Rightarrow> 'r jworld \<Rightarrow> 'r jworld option" where
  "json_put_val p v w = do { nd \<leftarrow> json_load p w; Some (json_store p (nd\<lparr>js_val := v\<rparr>) w) }"

text \<open>\<open>if(freeval) pcl_json_free(value)\<close>.\<close>

definition free_on_error :: "'r json_lib \<Rightarrow> 32 word \<Rightarrow> nat option \<Rightarrow> 'r jworld \<Rightarrow> 'r jworld option" where
  "free_on_error L flags value w =
     (if value \<noteq> None \<and> has_flag flags PCL_JSON_FREEVALONERR then pcl_json_free (jl_depth L) value w
      else Some w)"

section \<open>Arrays\<close>

definition pcl_json_arradd ::
  "'r json_lib \<Rightarrow> nat option \<Rightarrow> nat option \<Rightarrow> 32 word \<Rightarrow> 'r jworld \<Rightarrow> (int \<times> 'r jworld) option" where
  "pcl_json_arradd L arr elem flags w =
     (case (arr, elem) of
        (Some a, Some e) \<Rightarrow>
          do { nd \<leftarrow> json_load a w;
               case js_val nd of
                 JArr ar \<Rightarrow>
                   do { (r, ar1, w1) \<leftarrow> pcl_array_append ar (Some e) w;
                        if r < 0
                        then do { w2 \<leftarrow> free_on_error L flags elem w1;
                                  Some (TRCMSG (''json_arradd.c'', ''pcl_json_arradd'', 61)
                                          (Some ''failed to add array element'') w2) }
                        else do { w2 \<leftarrow> json_put_val a (JArr ar1) w1; Some (0, w2) } }
               | v \<Rightarrow> do { w1 \<leftarrow> free_on_error L flags elem w;
                          Some (SETERRMSG (''json_arradd.c'', ''pcl_json_arradd'', 53) PCL_ETYPE
                                  (expected CHR ''a'' v) w1) } }
      | _ \<Rightarrow> do { w1 \<leftarrow> free_on_error L flags elem w;
                 Some (BADARG (''json_arradd.c'', ''pcl_json_arradd'', 45) w1) })"

definition pcl_json_arraddbool ::
  "'r json_lib \<Rightarrow> nat option \<Rightarrow> bool \<Rightarrow> 'r jworld \<Rightarrow> (int \<times> 'r jworld) option" where
  "pcl_json_arraddbool L arr value w =
     do { (r, w1) \<leftarrow> pcl_json_arradd L arr (Some (pcl_json_bool value)) 0 w;
          Some (if r < 0 then TRC (''json_arraddbool.c'', ''pcl_json_arraddbool'', 37) w1 else (0, w1)) }"

definition pcl_json_arraddnull ::
  "'r json_lib \<Rightarrow> nat option \<Rightarrow> 'r jworld \<Rightarrow> (int \<times> 'r jworld) option" where
  "pcl_json_arraddnull L arr w =
     do { (r, w1) \<leftarrow> pcl_json_arradd L arr (Some pcl_json_null) 0 w;
          Some (if r < 0 then TRC (''json_arraddnull.c'', ''pcl_json_arraddnull'', 37) w1 else (0, w1)) }"

definition pcl_json_arraddint ::
  "'r json_lib \<Rightarrow> nat option \<Rightarrow> int \<Rightarrow> 'r jworld \<Rightarrow> (int \<times> 'r jworld) option" where
  "pcl_json_arraddint L arr value w =
     do { (val, w1) \<leftarrow> pcl_json_int value w;
          (r, w2) \<leftarrow> (if val = None then Some (-1, w1)
                     else pcl_json_arradd L arr val PCL_JSON_FREEVALONERR w1);
          Some (if r < 0 then TRC (''json_arraddint.c'', ''pcl_json_arraddint'', 38) w2 else (0, w2)) }"

definition pcl_json_arraddreal ::
  "'r json_lib \<Rightarrow> nat option \<Rightarrow> 'r \<Rightarrow> 'r jworld \<Rightarrow> (int \<times> 'r jworld) option" where
  "pcl_json_arraddreal L arr value w =
     do { (val, w1) \<leftarrow> pcl_json_real L value w;
          (r, w2) \<leftarrow> (if val = None then Some (-1, w1)
                     else pcl_json_arradd L arr val PCL_JSON_FREEVALONERR w1);
          Some (if r < 0 then TRC (''json_arraddreal.c'', ''pcl_json_arraddreal'', 38) w2 else (0, w2)) }"

definition pcl_json_arraddstr ::
  "'r json_lib \<Rightarrow> nat option \<Rightarrow> byte list option \<Rightarrow> 32 word \<Rightarrow> 'r jworld \<Rightarrow> (int \<times> 'r jworld) option" where
  "pcl_json_arraddstr L arr value flags w =
     do { (val, w1) \<leftarrow> pcl_json_str value flags w;
          (r, w2) \<leftarrow> (if val = None then Some (-1, w1)
                     else pcl_json_arradd L arr val (flags OR PCL_JSON_FREEVALONERR) w1);
          Some (if r < 0 then TRC (''json_arraddstr.c'', ''pcl_json_arraddstr'', 38) w2 else (0, w2)) }"

definition pcl_json_arrget :: "nat option \<Rightarrow> int \<Rightarrow> 'r jworld \<Rightarrow> 'r made" where
  "pcl_json_arrget arr index w =
     (case arr of
        None \<Rightarrow> Some (R_SETERR None (''json_arrget.c'', ''pcl_json_arrget'', 39) PCL_EINVAL w)
      | Some a \<Rightarrow>
          do { nd \<leftarrow> json_load a w;
               case js_val nd of
                 JArr ar \<Rightarrow>
                   do { (e, w1) \<leftarrow> pcl_array_get ar index w;
                        Some (if e = None then R_TRC None (''json_arrget.c'', ''pcl_json_arrget'', 47) w1
                              else (e, w1)) }
               | v \<Rightarrow> Some (R_SETERRMSG None (''json_arrget.c'', ''pcl_json_arrget'', 42) PCL_ETYPE
                             (expected CHR ''a'' v) w) })"

definition pcl_json_arrgetint :: "nat option \<Rightarrow> int \<Rightarrow> 'r jworld \<Rightarrow> (int \<times> 'r jworld) option" where
  "pcl_json_arrgetint arr index w =
     do { (val, w1) \<leftarrow> pcl_json_arrget arr index w;
          case val of
            None \<Rightarrow> Some (R_TRC PCL_JSON_INVINT (''json_arrgetint.c'', ''pcl_json_arrgetint'', 40) w1)
          | Some p \<Rightarrow> do { nd \<leftarrow> json_load p w1;
                          case js_val nd of
                            JInt i \<Rightarrow> Some (i, w1)
                          | v \<Rightarrow> Some (R_SETERRMSG PCL_JSON_INVINT
                                   (''json_arrgetint.c'', ''pcl_json_arrgetint'', 43) PCL_ETYPE
                                   (expected CHR ''i'' v) w1) } }"

definition pcl_json_arrgetreal ::
  "'r json_lib \<Rightarrow> nat option \<Rightarrow> int \<Rightarrow> 'r jworld \<Rightarrow> ('r \<times> 'r jworld) option" where
  "pcl_json_arrgetreal L arr index w =
     do { (val, w1) \<leftarrow> pcl_json_arrget arr index w;
          case val of
            None \<Rightarrow> Some (R_TRC (jl_invreal L) (''json_arrgetreal.c'', ''pcl_json_arrgetreal'', 40) w1)
          | Some p \<Rightarrow> do { nd \<leftarrow> json_load p w1;
                          case js_val nd of
                            JReal r \<Rightarrow> Some (r, w1)
                          | v \<Rightarrow> Some (R_SETERRMSG (jl_invreal L)
                                   (''json_arrgetreal.c'', ''pcl_json_arrgetreal'', 43) PCL_ETYPE
                                   (expected CHR ''r'' v) w1) } }"

definition pcl_json_arrgetstr ::
  "nat option \<Rightarrow> int \<Rightarrow> 'r jworld \<Rightarrow> (byte list option \<times> 'r jworld) option" where
  "pcl_json_arrgetstr arr index w =
     do { (val, w1) \<leftarrow> pcl_json_arrget arr index w;
          case val of
            None \<Rightarrow> Some (R_TRC None (''json_arrgetstr.c'', ''pcl_json_arrgetstr'', 40) w1)
          | Some p \<Rightarrow> do { nd \<leftarrow> json_load p w1;
                          case js_val nd of
                            JStr s \<Rightarrow> Some (Some s, w1)
                          | v \<Rightarrow> Some (R_SETERRMSG None
                                   (''json_arrgetstr.c'', ''pcl_json_arrgetstr'', 43) PCL_ETYPE
                                   (expected CHR ''s'' v) w1) } }"

text \<open>The tests of an element: the element is looked up, which may set the error, and tested.\<close>

definition arr_test ::
  "(nat option \<Rightarrow> 'r jworld \<Rightarrow> bool option) \<Rightarrow> nat option \<Rightarrow> int \<Rightarrow> 'r jworld \<Rightarrow> (bool \<times> 'r jworld) option" where
  "arr_test test arr index w =
     do { (val, w1) \<leftarrow> pcl_json_arrget arr index w; b \<leftarrow> test val w1; Some (b, w1) }"

definition pcl_json_arrisarr :: "nat option \<Rightarrow> int \<Rightarrow> 'r jworld \<Rightarrow> (bool \<times> 'r jworld) option" where
  "pcl_json_arrisarr = arr_test pcl_json_isarr"
definition pcl_json_arrisbool :: "nat option \<Rightarrow> int \<Rightarrow> 'r jworld \<Rightarrow> (bool \<times> 'r jworld) option" where
  "pcl_json_arrisbool = arr_test pcl_json_isbool"
definition pcl_json_arristrue :: "nat option \<Rightarrow> int \<Rightarrow> 'r jworld \<Rightarrow> (bool \<times> 'r jworld) option" where
  "pcl_json_arristrue = arr_test pcl_json_istrue"
definition pcl_json_arrisfalse :: "nat option \<Rightarrow> int \<Rightarrow> 'r jworld \<Rightarrow> (bool \<times> 'r jworld) option" where
  "pcl_json_arrisfalse = arr_test pcl_json_isfalse"
definition pcl_json_arrisint :: "nat option \<Rightarrow> int \<Rightarrow> 'r jworld \<Rightarrow> (bool \<times> 'r jworld) option" where
  "pcl_json_arrisint = arr_test pcl_json_isint"
definition pcl_json_arrisnull :: "nat option \<Rightarrow> int \<Rightarrow> 'r jworld \<Rightarrow> (bool \<times> 'r jworld) option" where
  "pcl_json_arrisnull = arr_test pcl_json_isnull"
definition pcl_json_arrisobj :: "nat option \<Rightarrow> int \<Rightarrow> 'r jworld \<Rightarrow> (bool \<times> 'r jworld) option" where
  "pcl_json_arrisobj = arr_test pcl_json_isobj"
definition pcl_json_arrisreal :: "nat option \<Rightarrow> int \<Rightarrow> 'r jworld \<Rightarrow> (bool \<times> 'r jworld) option" where
  "pcl_json_arrisreal = arr_test pcl_json_isreal"
definition pcl_json_arrisstr :: "nat option \<Rightarrow> int \<Rightarrow> 'r jworld \<Rightarrow> (bool \<times> 'r jworld) option" where
  "pcl_json_arrisstr = arr_test pcl_json_isstr"

definition pcl_json_arrremove ::
  "'r json_lib \<Rightarrow> nat option \<Rightarrow> int \<Rightarrow> 'r jworld \<Rightarrow> (int \<times> 'r jworld) option" where
  "pcl_json_arrremove L arr index w =
     (case arr of
        None \<Rightarrow> Some (BADARG (''json_arrremove.c'', ''pcl_json_arrremove'', 39) w)
      | Some a \<Rightarrow>
          do { nd \<leftarrow> json_load a w;
               case js_val nd of
                 JArr ar \<Rightarrow>
                   do { (r, ar1, w1) \<leftarrow> pcl_array_remove (array_cleanup L) ar index w;
                        w2 \<leftarrow> json_put_val a (JArr ar1) w1;
                        Some (if r < 0 then TRC (''json_arrremove.c'', ''pcl_json_arrremove'', 44) w2
                              else (0, w2)) }
               | v \<Rightarrow> Some (SETERRMSG (''json_arrremove.c'', ''pcl_json_arrremove'', 42) PCL_ETYPE
                             (expected CHR ''a'' v) w) })"

section \<open>Objects\<close>

text \<open>The string a \<open>char\<close> block holds.\<close>

definition c_string :: "byte list \<Rightarrow> string option" where
  "c_string s = do { n \<leftarrow> c_strlen s; Some (map (\<lambda>b. char_of (unat b)) (take n s)) }"

definition pcl_json_objput ::
  "'r json_lib \<Rightarrow> nat option \<Rightarrow> byte list option \<Rightarrow> nat option \<Rightarrow> 32 word \<Rightarrow> 'r jworld \<Rightarrow>
     (int \<times> 'r jworld) option" where
  "pcl_json_objput L obj keyo value flags w =
     (case (obj, keyo, value) of
        (Some ob, Some key, Some val) \<Rightarrow>
          do { nd \<leftarrow> json_load ob w;
               case js_val nd of
                 JObj t \<Rightarrow>
                   do { (bad, w1) \<leftarrow> (if \<not> has_flag flags PCL_JSON_SKIPUTF8CHK
                                     then pcl_utf8_check key 0 w else Some (0, w));
                        if bad < 0
                        then do { w2 \<leftarrow> free_on_error L flags value w1;
                                  Some (TRC (''json_objput.c'', ''pcl_json_objput'', 63) w2) }
                        else do { k \<leftarrow> c_string key;
                                  (r, to, w2) \<leftarrow> pcl_htable_put (remove_entry L) (Some t) (Some k)
                                                  (Some val) True w1;
                                  t1 \<leftarrow> to;
                                  w3 \<leftarrow> json_put_val ob (JObj t1) w2;
                                  if r < 0
                                  then do { w4 \<leftarrow> free_on_error L flags value w3;
                                            Some (TRCMSG (''json_objput.c'', ''pcl_json_objput'', 79)
                                              (Some (''failed to put '' @ [CHR 0x27] @ k @ [CHR 0x27] @ '' key'')) w4) }
                                  else Some (0, w3) } }
               | v \<Rightarrow> do { w1 \<leftarrow> free_on_error L flags value w;
                          Some (SETERRMSG (''json_objput.c'', ''pcl_json_objput'', 55) PCL_ETYPE
                                  (expected CHR ''o'' v) w1) } }
      | _ \<Rightarrow> do { w1 \<leftarrow> free_on_error L flags value w;
                 Some (BADARG (''json_objput.c'', ''pcl_json_objput'', 47) w1) })"

definition pcl_json_objputbool ::
  "'r json_lib \<Rightarrow> nat option \<Rightarrow> byte list option \<Rightarrow> bool \<Rightarrow> 32 word \<Rightarrow> 'r jworld \<Rightarrow>
     (int \<times> 'r jworld) option" where
  "pcl_json_objputbool L obj key value flags w =
     do { (r, w1) \<leftarrow> pcl_json_objput L obj key (Some (pcl_json_bool value))
                       (flags OR PCL_JSON_FREEVALONERR) w;
          Some (if r < 0 then TRC (''json_objputbool.c'', ''pcl_json_objputbool'', 38) w1 else (0, w1)) }"

definition pcl_json_objputnull ::
  "'r json_lib \<Rightarrow> nat option \<Rightarrow> byte list option \<Rightarrow> 32 word \<Rightarrow> 'r jworld \<Rightarrow> (int \<times> 'r jworld) option" where
  "pcl_json_objputnull L obj key flags w =
     do { (r, w1) \<leftarrow> pcl_json_objput L obj key (Some pcl_json_null) (flags OR PCL_JSON_FREEVALONERR) w;
          Some (if r < 0 then TRC (''json_objputnull.c'', ''pcl_json_objputnull'', 38) w1 else (0, w1)) }"

definition pcl_json_objputint ::
  "'r json_lib \<Rightarrow> nat option \<Rightarrow> byte list option \<Rightarrow> int \<Rightarrow> 32 word \<Rightarrow> 'r jworld \<Rightarrow>
     (int \<times> 'r jworld) option" where
  "pcl_json_objputint L obj key value flags w =
     do { (val, w1) \<leftarrow> pcl_json_int value w;
          if val = None then Some (TRC (''json_objputint.c'', ''pcl_json_objputint'', 40) w1)
          else do { (r, w2) \<leftarrow> pcl_json_objput L obj key val (flags OR PCL_JSON_FREEVALONERR) w1;
                    Some (if r < 0 then TRC (''json_objputint.c'', ''pcl_json_objputint'', 43) w2
                          else (0, w2)) } }"

definition pcl_json_objputreal ::
  "'r json_lib \<Rightarrow> nat option \<Rightarrow> byte list option \<Rightarrow> 'r \<Rightarrow> 32 word \<Rightarrow> 'r jworld \<Rightarrow>
     (int \<times> 'r jworld) option" where
  "pcl_json_objputreal L obj key value flags w =
     do { (val, w1) \<leftarrow> pcl_json_real L value w;
          if val = None then Some (TRC (''json_objputreal.c'', ''pcl_json_objputreal'', 40) w1)
          else do { (r, w2) \<leftarrow> pcl_json_objput L obj key val (flags OR PCL_JSON_FREEVALONERR) w1;
                    Some (if r < 0 then TRC (''json_objputreal.c'', ''pcl_json_objputreal'', 43) w2
                          else (0, w2)) } }"

definition pcl_json_objputstr ::
  "'r json_lib \<Rightarrow> nat option \<Rightarrow> byte list option \<Rightarrow> byte list option \<Rightarrow> 32 word \<Rightarrow> 'r jworld \<Rightarrow>
     (int \<times> 'r jworld) option" where
  "pcl_json_objputstr L obj key value flags w =
     do { (val, w1) \<leftarrow> pcl_json_str value flags w;
          if val = None then Some (TRC (''json_objputstr.c'', ''pcl_json_objputstr'', 40) w1)
          else do { (r, w2) \<leftarrow> pcl_json_objput L obj key val (flags OR PCL_JSON_FREEVALONERR) w1;
                    Some (if r < 0 then TRC (''json_objputstr.c'', ''pcl_json_objputstr'', 43) w2
                          else (0, w2)) } }"

definition pcl_json_objget :: "nat option \<Rightarrow> byte list option \<Rightarrow> 'r jworld \<Rightarrow> 'r made" where
  "pcl_json_objget obj keyo w =
     (case (obj, keyo) of
        (Some ob, Some key) \<Rightarrow>
          do { nd \<leftarrow> json_load ob w;
               case js_val nd of
                 JObj t \<Rightarrow>
                   do { k \<leftarrow> c_string key;
                        (val, w1) \<leftarrow> pcl_htable_get (Some t) (Some k) w;
                        Some (if val = None
                              then if pcl_err_last w1 \<noteq> 0
                                   then R_TRC None (''json_objget.c'', ''pcl_json_objget'', 47) w1
                                   else R_SETERR None (''json_objget.c'', ''pcl_json_objget'', 47) PCL_ENOTFOUND w1
                              else (val, w1)) }
               | v \<Rightarrow> Some (R_SETERRMSG None (''json_objget.c'', ''pcl_json_objget'', 42) PCL_ETYPE
                             (expected CHR ''o'' v) w) }
      | _ \<Rightarrow> Some (R_SETERR None (''json_objget.c'', ''pcl_json_objget'', 39) PCL_EINVAL w))"

definition pcl_json_objgetint ::
  "nat option \<Rightarrow> byte list option \<Rightarrow> 'r jworld \<Rightarrow> (int \<times> 'r jworld) option" where
  "pcl_json_objgetint obj key w =
     do { (val, w1) \<leftarrow> pcl_json_objget obj key w;
          case val of
            None \<Rightarrow> Some (R_TRC PCL_JSON_INVINT (''json_objgetint.c'', ''pcl_json_objgetint'', 40) w1)
          | Some p \<Rightarrow> do { nd \<leftarrow> json_load p w1;
                          case js_val nd of
                            JInt i \<Rightarrow> Some (i, w1)
                          | v \<Rightarrow> Some (R_SETERRMSG PCL_JSON_INVINT
                                   (''json_objgetint.c'', ''pcl_json_objgetint'', 43) PCL_ETYPE
                                   (expected CHR ''i'' v) w1) } }"

definition pcl_json_objgetreal ::
  "'r json_lib \<Rightarrow> nat option \<Rightarrow> byte list option \<Rightarrow> 'r jworld \<Rightarrow> ('r \<times> 'r jworld) option" where
  "pcl_json_objgetreal L obj key w =
     do { (val, w1) \<leftarrow> pcl_json_objget obj key w;
          case val of
            None \<Rightarrow> Some (R_TRC (jl_invreal L) (''json_objgetreal.c'', ''pcl_json_objgetreal'', 40) w1)
          | Some p \<Rightarrow> do { nd \<leftarrow> json_load p w1;
                          case js_val nd of
                            JReal r \<Rightarrow> Some (r, w1)
                          | v \<Rightarrow> Some (R_SETERRMSG (jl_invreal L)
                                   (''json_objgetreal.c'', ''pcl_json_objgetreal'', 43) PCL_ETYPE
                                   (expected CHR ''r'' v) w1) } }"

definition pcl_json_objgetstr ::
  "nat option \<Rightarrow> byte list option \<Rightarrow> 'r jworld \<Rightarrow> (byte list option \<times> 'r jworld) option" where
  "pcl_json_objgetstr obj key w =
     do { (val, w1) \<leftarrow> pcl_json_objget obj key w;
          case val of
            None \<Rightarrow> Some (R_TRC None (''json_objgetstr.c'', ''pcl_json_objgetstr'', 40) w1)
          | Some p \<Rightarrow> do { nd \<leftarrow> json_load p w1;
                          case js_val nd of
                            JStr s \<Rightarrow> Some (Some s, w1)
                          | v \<Rightarrow> Some (R_SETERRMSG None
                                   (''json_objgetstr.c'', ''pcl_json_objgetstr'', 43) PCL_ETYPE
                                   (expected CHR ''s'' v) w1) } }"

definition obj_test ::
  "(nat option \<Rightarrow> 'r jworld \<Rightarrow> bool option) \<Rightarrow> nat option \<Rightarrow> byte list option \<Rightarrow> 'r jworld \<Rightarrow>
     (bool \<times> 'r jworld) option" where
  "obj_test test obj key w =
     do { (val, w1) \<leftarrow> pcl_json_objget obj key w; b \<leftarrow> test val w1; Some (b, w1) }"

definition pcl_json_objisarr :: "nat option \<Rightarrow> byte list option \<Rightarrow> 'r jworld \<Rightarrow> (bool \<times> 'r jworld) option" where
  "pcl_json_objisarr = obj_test pcl_json_isarr"
definition pcl_json_objisbool :: "nat option \<Rightarrow> byte list option \<Rightarrow> 'r jworld \<Rightarrow> (bool \<times> 'r jworld) option" where
  "pcl_json_objisbool = obj_test pcl_json_isbool"
definition pcl_json_objistrue :: "nat option \<Rightarrow> byte list option \<Rightarrow> 'r jworld \<Rightarrow> (bool \<times> 'r jworld) option" where
  "pcl_json_objistrue = obj_test pcl_json_istrue"
definition pcl_json_objisfalse :: "nat option \<Rightarrow> byte list option \<Rightarrow> 'r jworld \<Rightarrow> (bool \<times> 'r jworld) option" where
  "pcl_json_objisfalse = obj_test pcl_json_isfalse"
definition pcl_json_objisint :: "nat option \<Rightarrow> byte list option \<Rightarrow> 'r jworld \<Rightarrow> (bool \<times> 'r jworld) option" where
  "pcl_json_objisint = obj_test pcl_json_isint"
definition pcl_json_objisnull :: "nat option \<Rightarrow> byte list option \<Rightarrow> 'r jworld \<Rightarrow> (bool \<times> 'r jworld) option" where
  "pcl_json_objisnull = obj_test pcl_json_isnull"
definition pcl_json_objisobj :: "nat option \<Rightarrow> byte list option \<Rightarrow> 'r jworld \<Rightarrow> (bool \<times> 'r jworld) option" where
  "pcl_json_objisobj = obj_test pcl_json_isobj"
definition pcl_json_objisreal :: "nat option \<Rightarrow> byte list option \<Rightarrow> 'r jworld \<Rightarrow> (bool \<times> 'r jworld) option" where
  "pcl_json_objisreal = obj_test pcl_json_isreal"
definition pcl_json_objisstr :: "nat option \<Rightarrow> byte list option \<Rightarrow> 'r jworld \<Rightarrow> (bool \<times> 'r jworld) option" where
  "pcl_json_objisstr = obj_test pcl_json_isstr"

definition pcl_json_objremove ::
  "'r json_lib \<Rightarrow> nat option \<Rightarrow> byte list option \<Rightarrow> 'r jworld \<Rightarrow> (int \<times> 'r jworld) option" where
  "pcl_json_objremove L obj keyo w =
     (case obj of
        None \<Rightarrow> Some (BADARG (''json_objremove.c'', ''pcl_json_objremove'', 39) w)
      | Some ob \<Rightarrow>
          do { nd \<leftarrow> json_load ob w;
               case js_val nd of
                 JObj t \<Rightarrow>
                   do { k \<leftarrow> (case keyo of None \<Rightarrow> Some None | Some key \<Rightarrow> map_option Some (c_string key));
                        (r, to, w1) \<leftarrow> pcl_htable_remove (remove_entry L) (Some t) k w;
                        t1 \<leftarrow> to;
                        w2 \<leftarrow> json_put_val ob (JObj t1) w1;
                        Some (if r < 0 then TRC (''json_objremove.c'', ''pcl_json_objremove'', 45) w2
                              else (0, w2)) }
               | v \<Rightarrow> Some (SETERRMSG (''json_objremove.c'', ''pcl_json_objremove'', 42) PCL_ETYPE
                             (expected CHR ''o'' v) w) })"

definition pcl_json_count :: "nat option \<Rightarrow> 'r jworld \<Rightarrow> (int \<times> 'r jworld) option" where
  "pcl_json_count j w =
     (let notype = SETERR (''json_count.c'', ''pcl_json_count'', 45) PCL_ETYPE w
      in case j of
           None \<Rightarrow> Some notype
         | Some p \<Rightarrow>
             do { nd \<leftarrow> json_load p w;
                  case js_val nd of
                    JArr ar \<Rightarrow> do { a \<leftarrow> ar; Some (arr_count a, w) }
                  | JObj t \<Rightarrow> Some (ht_count t, w)
                  | _ \<Rightarrow> Some notype })"

end
