(* ===== verification/PclJsonPath.thy ===== *)
theory PclJsonPath imports PclJsonDom PclVector begin

text \<open>
  JSON path queries (\<open>src/json/json_compile.c\<close>, \<open>json_match.c\<close>, \<open>json_query.c\<close>, \<open>json_freepath.c\<close>).
  A compiled path is a list of nodes that nobody shares, so a list stands for it. The compiler reads
  a terminated string; a position in it is the rest of the block from there. The parts of its loop
  body answer the new node and the position behind it, or nothing when they have released the nodes
  built so far and set the error.
\<close>

section \<open>Compiled paths\<close>

datatype path_node =
    PathRoot
  | PathMember "byte list"
  | PathWildcardMember
  | PathRecursiveDescent
  | PathElement int
  | PathWildcardElement
  | PathElementList "unit pcl_vector"
  | PathElementSlice int int int

type_synonym pcl_json_path = "path_node list"

text \<open>The vector of a node has no cleanup handler.\<close>

definition free_indexes :: "unit pcl_vector \<Rightarrow> 'w \<Rightarrow> 'w option" where
  "free_indexes v w = pcl_vector_free (\<lambda>_ _ w. Some w) (Some v) w"

fun pcl_json_freepath :: "pcl_json_path \<Rightarrow> 'w \<Rightarrow> 'w option" where
  "pcl_json_freepath [] w = Some w"
| "pcl_json_freepath (cur # path) w =
     do { w1 \<leftarrow> (case cur of PathElementList v \<Rightarrow> free_indexes v w | _ \<Rightarrow> Some w);
          pcl_json_freepath path w1 }"

section \<open>The compiler\<close>

type_synonym ('x, 'z) path_step = "('x option \<times> 'z pcl_err_scheme) option"

text \<open>Both kinds of failure release the path first.\<close>

definition path_fail ::
  "pcl_json_path \<Rightarrow> loc \<Rightarrow> string \<Rightarrow> 'z pcl_err_scheme \<Rightarrow> ('x, 'z) path_step" where
  "path_fail root l msg w =
     do { w1 \<leftarrow> pcl_json_freepath root w; Some (R_SETERRMSG None l PCL_ESYNTAX msg w1) }"

definition path_trace ::
  "pcl_json_path \<Rightarrow> loc \<Rightarrow> string \<Rightarrow> 'z pcl_err_scheme \<Rightarrow> ('x, 'z) path_step" where
  "path_trace root l msg w =
     do { w1 \<leftarrow> pcl_json_freepath root w; Some (R_TRCMSG None l msg w1) }"

text \<open>Comparing the next characters one by one, up to the first that differs.\<close>

fun match_at :: "byte list \<Rightarrow> byte list \<Rightarrow> bool option" where
  "match_at s [] = Some True"
| "match_at s (c # cs) = do { x \<leftarrow> rd s 0; if x = c then match_at (tl s) cs else Some False }"

text \<open>A number: its value and the position behind it; the variable is read only after a success.\<close>

definition number_at :: "byte list \<Rightarrow> 'z pcl_err_scheme \<Rightarrow> (int \<times> byte list, 'z) path_step" where
  "number_at s w =
     do { (r, endp, no, w1) \<leftarrow> pcl_strtoi (Some s) 10 w;
          if r < 0 then Some (None, w1)
          else do { n \<leftarrow> no; ep \<leftarrow> endp; k \<leftarrow> ep; Some (Some (n, drop k s), w1) } }"

text \<open>\<open>.name\<close>, \<open>.*\<close>, \<open>..\<close>; the position is at the dot.\<close>

fun name_end :: "byte list \<Rightarrow> nat option" where
  "name_end [] = None"
| "name_end (c # s) = (if c \<noteq> 46 \<and> c \<noteq> 91 \<and> c \<noteq> 0 then map_option Suc (name_end s) else Some 0)"

definition compile_dot ::
  "pcl_json_path \<Rightarrow> byte list \<Rightarrow> 'z pcl_err_scheme \<Rightarrow> (path_node \<times> byte list, 'z) path_step" where
  "compile_dot root p w =
     do { c \<leftarrow> rd p 1;
          if c = 46 then Some (Some (PathRecursiveDescent, drop 1 p), w)
          else if c = 42 then Some (Some (PathWildcardMember, drop 2 p), w)
          else do { let p1 = drop 1 p;
                    n \<leftarrow> name_end p1;
                    if n = 0
                    then path_fail root (''json_compile.c'', ''pcl_json_compile'', 84) ''missing member name'' w
                    else do { m \<leftarrow> pcl_strndup (Some p1) n;
                              Some (Some (PathMember m, drop n p1), w) } } }"

text \<open>\<open>['*']\<close> and \<open>['name']\<close>; the position is at the bracket.\<close>

definition compile_quote ::
  "pcl_json_path \<Rightarrow> byte list \<Rightarrow> 'z pcl_err_scheme \<Rightarrow> (path_node \<times> byte list, 'z) path_step" where
  "compile_quote root p w =
     do { star \<leftarrow> match_at (drop 2 p) [42, 39, 93];
          if star then Some (Some (PathWildcardMember, drop 5 p), w)
          else do { let p1 = drop 2 p;
                    endo \<leftarrow> c_strstr p1 [39, 93, 0];
                    case endo of
                      None \<Rightarrow> path_fail root (''json_compile.c'', ''pcl_json_compile'', 126)
                                ''unterminated single quote'' w
                    | Some n \<Rightarrow> do { m \<leftarrow> pcl_strndup (Some p1) n;
                                    Some (Some (PathMember m, drop (n + 2) p1), w) } } }"

text \<open>The step of a slice, where there is one; the position may be at its colon.\<close>

definition compile_stride ::
  "pcl_json_path \<Rightarrow> loc \<Rightarrow> byte list \<Rightarrow> 'z pcl_err_scheme \<Rightarrow> (int \<times> byte list, 'z) path_step" where
  "compile_stride root l p w =
     do { c \<leftarrow> rd p 0;
          if c = 58
          then do { (no, w1) \<leftarrow> number_at (drop 1 p) w;
                    case no of
                      None \<Rightarrow> path_trace root l ''invalid slice expression: slice step'' w1
                    | Some r \<Rightarrow> Some (Some r, w1) }
          else Some (Some (1, p), w) }"

text \<open>\<open>[:end:step]\<close>; the position is at the bracket.\<close>

definition compile_slice ::
  "pcl_json_path \<Rightarrow> byte list \<Rightarrow> 'z pcl_err_scheme \<Rightarrow> (path_node \<times> byte list, 'z) path_step" where
  "compile_slice root p w =
     do { let p1 = drop 2 p;
          c \<leftarrow> rd p1 0;
          (endo, w1) \<leftarrow> (if c \<noteq> 58 then number_at p1 w else Some (Some (0, p1), w));
          case endo of
            None \<Rightarrow> path_trace root (''json_compile.c'', ''pcl_json_compile'', 148)
                      ''invalid slice expression: slice end'' w1
          | Some (slice_end, p2) \<Rightarrow>
              do { (stepo, w2) \<leftarrow> compile_stride root (''json_compile.c'', ''pcl_json_compile'', 160) p2 w1;
                   case stepo of
                     None \<Rightarrow> Some (None, w2)
                   | Some (slice_step, p3) \<Rightarrow>
                       do { d \<leftarrow> rd p3 0;
                            if d \<noteq> 93
                            then path_fail root (''json_compile.c'', ''pcl_json_compile'', 170)
                                   (''invalid slice expression: no closing '' @ [CHR 0x27, CHR '']'', CHR 0x27]) w2
                            else Some (Some (PathElementSlice 0 slice_end slice_step, drop 1 p3), w2) } } }"

text \<open>\<open>[index:end:step]\<close>; the position is at the first colon.\<close>

definition compile_index_slice ::
  "pcl_json_path \<Rightarrow> int \<Rightarrow> byte list \<Rightarrow> 'z pcl_err_scheme \<Rightarrow> (path_node \<times> byte list, 'z) path_step" where
  "compile_index_slice root index p w =
     do { let p1 = drop 1 p;
          c \<leftarrow> rd p1 0;
          (endo, w1) \<leftarrow> (if c \<noteq> 93 \<and> c \<noteq> 58 then number_at p1 w else Some (Some (0, p1), w));
          case endo of
            None \<Rightarrow> path_trace root (''json_compile.c'', ''pcl_json_compile'', 233)
                      ''invalid slice expression: slice end'' w1
          | Some (slice_end, p2) \<Rightarrow>
              do { (stepo, w2) \<leftarrow> compile_stride root (''json_compile.c'', ''pcl_json_compile'', 245) p2 w1;
                   case stepo of
                     None \<Rightarrow> Some (None, w2)
                   | Some (slice_step, p3) \<Rightarrow>
                       do { d \<leftarrow> rd p3 0;
                            if d \<noteq> 93
                            then path_fail root (''json_compile.c'', ''pcl_json_compile'', 255)
                                   (''invalid slice expression: no closing '' @ [CHR 0x27, CHR '']'', CHR 0x27]) w2
                            else Some (Some (PathElementSlice index slice_end slice_step, drop 1 p3), w2) } } }"

text \<open>The loop over \<open>,index\<close>; the position is at a comma or at the closing bracket.\<close>

definition int_bytes :: "int \<Rightarrow> byte list" where "int_bytes i = word_bytes (word_of_int i :: 32 word)"

definition append_index :: "byte \<Rightarrow> unit pcl_vector \<Rightarrow> int \<Rightarrow> unit pcl_vector option" where
  "append_index junk v index =
     do { (_, vo) \<leftarrow> pcl_vector_append junk (Some v) (Some (int_bytes index)); vo }"

partial_function (option) compile_list_loop ::
  "byte \<Rightarrow> pcl_json_path \<Rightarrow> unit pcl_vector \<Rightarrow> byte list \<Rightarrow> 'z pcl_err_scheme \<Rightarrow>
     (unit pcl_vector \<times> byte list, 'z) path_step" where
  "compile_list_loop junk root indexes p w =
     do { c \<leftarrow> rd p 0;
          if c = 93 then Some (Some (indexes, p), w)
          else do { (no, w1) \<leftarrow> number_at (drop 1 p) w;
                    case no of
                      None \<Rightarrow> do { w2 \<leftarrow> pcl_json_freepath root w1;
                                  w3 \<leftarrow> free_indexes indexes w2;
                                  Some (R_TRCMSG None (''json_compile.c'', ''pcl_json_compile'', 204)
                                          ''invalid subscript set expression'' w3) }
                    | Some (index, p1) \<Rightarrow>
                        do { d \<leftarrow> rd p1 0;
                             if d \<noteq> 44 \<and> d \<noteq> 93
                             then do { w2 \<leftarrow> pcl_json_freepath root w1;
                                       w3 \<leftarrow> free_indexes indexes w2;
                                       Some (R_SETERRMSG None (''json_compile.c'', ''pcl_json_compile'', 212)
                                               PCL_ESYNTAX ''invalid subscript set expression'' w3) }
                             else do { v \<leftarrow> append_index junk indexes index;
                                       compile_list_loop junk root v p1 w1 } } } }"

declare compile_list_loop.simps [code]

definition compile_list ::
  "byte \<Rightarrow> pcl_json_path \<Rightarrow> int \<Rightarrow> byte list \<Rightarrow> 'z pcl_err_scheme \<Rightarrow> (path_node \<times> byte list, 'z) path_step" where
  "compile_list junk root index p w =
     do { let (vo, w1) = pcl_vector_new () junk 4 4 None w;
          v0 \<leftarrow> vo;
          v1 \<leftarrow> append_index junk v0 index;
          (r, w2) \<leftarrow> compile_list_loop junk root v1 p w1;
          case r of
            None \<Rightarrow> Some (None, w2)
          | Some (indexes, p1) \<Rightarrow> Some (Some (PathElementList indexes, drop 1 p1), w2) }"

text \<open>\<open>[index]\<close>, \<open>[index,index]\<close>, \<open>[index:end:step]\<close>; the position is at the bracket.\<close>

definition compile_index ::
  "byte \<Rightarrow> pcl_json_path \<Rightarrow> byte list \<Rightarrow> 'z pcl_err_scheme \<Rightarrow> (path_node \<times> byte list, 'z) path_step" where
  "compile_index junk root p w =
     do { (no, w1) \<leftarrow> number_at (drop 1 p) w;
          case no of
            None \<Rightarrow> path_trace root (''json_compile.c'', ''pcl_json_compile'', 186)
                      ''invalid subscript expression'' w1
          | Some (index, p1) \<Rightarrow>
              do { c \<leftarrow> rd p1 0;
                   if c = 44 then compile_list junk root index p1 w1
                   else if c = 58 then compile_index_slice root index p1 w1
                   else if c = 93 then Some (Some (PathElement index, drop 1 p1), w1)
                   else path_fail root (''json_compile.c'', ''pcl_json_compile'', 274)
                          ''invalid subscript expression'' w1 } }"

definition compile_bracket ::
  "byte \<Rightarrow> pcl_json_path \<Rightarrow> byte list \<Rightarrow> 'z pcl_err_scheme \<Rightarrow> (path_node \<times> byte list, 'z) path_step" where
  "compile_bracket junk root p w =
     do { star \<leftarrow> match_at (drop 1 p) [42, 93];
          c \<leftarrow> rd p 1;
          if star then Some (Some (PathWildcardElement, drop 3 p), w)
          else if c = 39 then compile_quote root p w
          else if c = 58 then compile_slice root p w
          else compile_index junk root p w }"

text \<open>The \<open>switch\<close> of the loop, the loop, and the reversal of the list at the end.\<close>

definition compile_node ::
  "byte \<Rightarrow> pcl_json_path \<Rightarrow> byte list \<Rightarrow> 'z pcl_err_scheme \<Rightarrow> (path_node \<times> byte list, 'z) path_step" where
  "compile_node junk root p w =
     do { c \<leftarrow> rd p 0;
          if c = 36
          then path_fail root (''json_compile.c'', ''pcl_json_compile'', 57)
                 (''second '' @ [CHR 0x27, CHR ''$'', CHR 0x27] @ '' root not allowed'') w
          else if c = 46 then compile_dot root p w
          else if c = 91 then compile_bracket junk root p w
          else path_fail root (''json_compile.c'', ''pcl_json_compile'', 285)
                 (''unexpected character '' @ [CHR 0x27, char_of (unat c), CHR 0x27]) w }"

partial_function (option) compile_loop ::
  "byte \<Rightarrow> pcl_json_path \<Rightarrow> byte list \<Rightarrow> 'z pcl_err_scheme \<Rightarrow> (pcl_json_path, 'z) path_step" where
  "compile_loop junk root p w =
     do { c \<leftarrow> rd p 0;
          if c = 0 then Some (Some root, w)
          else do { (r, w1) \<leftarrow> compile_node junk root p w;
                    case r of
                      None \<Rightarrow> Some (None, w1)
                    | Some (node, p1) \<Rightarrow> compile_loop junk (node # root) p1 w1 } }"

declare compile_loop.simps [code]

fun reverse_loop :: "pcl_json_path \<Rightarrow> pcl_json_path \<Rightarrow> pcl_json_path" where
  "reverse_loop prev [] = prev"
| "reverse_loop prev (current # next) = reverse_loop (current # prev) next"

definition pcl_json_compile ::
  "byte \<Rightarrow> byte list option \<Rightarrow> 'z pcl_err_scheme \<Rightarrow> (pcl_json_path, 'z) path_step" where
  "pcl_json_compile junk patho w =
     do { path \<leftarrow> patho;
          k \<leftarrow> pcl_strskipws c_isspace path;
          let p = drop k path;
          c \<leftarrow> rd p 0;
          d \<leftarrow> (if c = 36 then rd p 1 else Some 0);
          if c \<noteq> 36 \<or> (d \<noteq> 46 \<and> d \<noteq> 91)
          then Some (R_SETERRMSG None (''json_compile.c'', ''pcl_json_compile'', 44) PCL_ESYNTAX
                       (''missing '' @ [CHR 0x27, CHR ''$'', CHR 0x27] @ '' root'') w)
          else do { (r, w1) \<leftarrow> compile_loop junk [PathRoot] (drop 1 p) w;
                    Some (map_option (reverse_loop []) r, w1) } }"

section \<open>The matcher\<close>

type_synonym results = "(nat, json_handler) pcl_array"
type_synonym 'r walked = "(results \<times> 'r jworld) option"

text \<open>A selected node gets a reference and is appended.\<close>

definition add_match :: "nat option \<Rightarrow> results \<Rightarrow> 'r jworld \<Rightarrow> 'r walked" where
  "add_match node results w =
     do { w1 \<leftarrow> pcl_json_ref node 1 w;
          (_, ao, w2) \<leftarrow> pcl_array_append (Some results) node w1;
          a \<leftarrow> ao; Some (a, w2) }"

definition add_or_walk ::
  "(nat option \<Rightarrow> pcl_json_path \<Rightarrow> results \<Rightarrow> 'r jworld \<Rightarrow> 'r walked) \<Rightarrow> nat option \<Rightarrow> pcl_json_path \<Rightarrow>
     results \<Rightarrow> 'r jworld \<Rightarrow> 'r walked" where
  "add_or_walk walk node next results w =
     (if next = [] then add_match node results w else walk node next results w)"

text \<open>A lookup by index with the error frozen, and what follows for an element that is there.\<close>

definition get_frozen ::
  "results option \<Rightarrow> int \<Rightarrow> 'r jworld \<Rightarrow> (nat option \<times> 'r jworld) option" where
  "get_frozen ar index w =
     do { (elem, w1) \<leftarrow> pcl_array_get ar index (pcl_err_freeze True w);
          Some (elem, pcl_err_freeze False w1) }"

definition walk_index ::
  "(nat option \<Rightarrow> pcl_json_path \<Rightarrow> results \<Rightarrow> 'r jworld \<Rightarrow> 'r walked) \<Rightarrow> results option \<Rightarrow> int \<Rightarrow>
     pcl_json_path \<Rightarrow> results \<Rightarrow> 'r jworld \<Rightarrow> 'r walked" where
  "walk_index walk ar index next results w =
     do { (elem, w1) \<leftarrow> get_frozen ar index w;
          if elem \<noteq> None then add_or_walk walk elem next results w1 else Some (results, w1) }"

text \<open>The loops over the elements of an array, the entries of a table (the bound is the number of
  entries that can be left), the indices of a list and a slice. The index of a slice is an \<open>int\<close>.\<close>

fun walk_elems ::
  "(int \<Rightarrow> nat option \<Rightarrow> results \<Rightarrow> 'r jworld \<Rightarrow> 'r walked) \<Rightarrow> results \<Rightarrow> int \<Rightarrow> nat \<Rightarrow> results \<Rightarrow>
     'r jworld \<Rightarrow> 'r walked" where
  "walk_elems visit a i 0 results w = Some (results, w)"
| "walk_elems visit a i (Suc n) results w =
     do { elem \<leftarrow> rd (arr_elements a) i;
          (res1, w1) \<leftarrow> visit i elem results w;
          walk_elems visit a (i + 1) n res1 w1 }"

fun walk_entries ::
  "(string \<Rightarrow> nat option \<Rightarrow> results \<Rightarrow> 'r jworld \<Rightarrow> 'r walked) \<Rightarrow> (string, nat, json_handler) pcl_htable \<Rightarrow>
     nat \<Rightarrow> int option \<Rightarrow> results \<Rightarrow> 'r jworld \<Rightarrow> 'r walked" where
  "walk_entries visit t 0 index results w = None"
| "walk_entries visit t (Suc n) index results w =
     do { (ento, index1) \<leftarrow> pcl_htable_iter (Some t) index;
          case ento of
            None \<Rightarrow> Some (results, w)
          | Some ent \<Rightarrow> do { key \<leftarrow> he_key ent;
                            (res1, w1) \<leftarrow> visit key (he_value ent) results w;
                            walk_entries visit t n index1 res1 w1 } }"

definition index_at :: "unit pcl_vector \<Rightarrow> int \<Rightarrow> int option" where
  "index_at v i =
     do { els \<leftarrow> vec_elems v;
          bs \<leftarrow> mem_read els (pcl_vector_get v i) 4;
          Some (sint (bytes_word bs :: 32 word)) }"

fun walk_list ::
  "(int \<Rightarrow> results \<Rightarrow> 'r jworld \<Rightarrow> 'r walked) \<Rightarrow> unit pcl_vector \<Rightarrow> int \<Rightarrow> nat \<Rightarrow> results \<Rightarrow>
     'r jworld \<Rightarrow> 'r walked" where
  "walk_list visit v i 0 results w = Some (results, w)"
| "walk_list visit v i (Suc n) results w =
     do { index \<leftarrow> index_at v i;
          (res1, w1) \<leftarrow> visit index results w;
          walk_list visit v (i + 1) n res1 w1 }"

partial_function (option) walk_slice ::
  "(int \<Rightarrow> results \<Rightarrow> 'r jworld \<Rightarrow> 'r walked) \<Rightarrow> int \<Rightarrow> int \<Rightarrow> int \<Rightarrow> results \<Rightarrow> 'r jworld \<Rightarrow> 'r walked" where
  "walk_slice visit stride i stop results w =
     (if i < stop
      then Option.bind (visit i results w) (\<lambda>res.
             Option.bind (cint (i + stride)) (\<lambda>i1. walk_slice visit stride i1 stop (fst res) (snd res)))
      else Some (results, w))"

declare walk_slice.simps [code]

text \<open>What the type tests see: a \<open>NULL\<close> node passes none of them.\<close>

definition node_val :: "nat option \<Rightarrow> 'r jworld \<Rightarrow> 'r json_val option" where
  "node_val node w =
     (case node of None \<Rightarrow> Some JNull | Some p \<Rightarrow> map_option js_val (json_load p w))"

text \<open>The cases of the \<open>switch\<close>.\<close>

type_synonym 'r walker = "nat option \<Rightarrow> pcl_json_path \<Rightarrow> results \<Rightarrow> 'r jworld \<Rightarrow> 'r walked"

definition walk_member ::
  "'r walker \<Rightarrow> byte list \<Rightarrow> nat option \<Rightarrow> pcl_json_path \<Rightarrow> results \<Rightarrow> 'r jworld \<Rightarrow> 'r walked" where
  "walk_member walk member node next results w =
     do { isobj \<leftarrow> pcl_json_isobj node w;
          if \<not> isobj then Some (results, w)
          else do { (mbr, w1) \<leftarrow> pcl_json_objget node (Some member) w;
                    if mbr \<noteq> None then add_or_walk walk mbr next results w1 else Some (results, w1) } }"

text \<open>\<open>strcmp(path->next->member, ent->key)\<close>, after the type of the next node, which must be there.\<close>

definition next_is_key :: "pcl_json_path \<Rightarrow> string \<Rightarrow> bool option" where
  "next_is_key next key =
     (case next of
        [] \<Rightarrow> None
      | PathMember m # _ \<Rightarrow> do { s \<leftarrow> c_string m; Some (s = key) }
      | _ \<Rightarrow> Some False)"

definition next_is_index :: "pcl_json_path \<Rightarrow> int \<Rightarrow> bool option" where
  "next_is_index next i =
     (case next of [] \<Rightarrow> None | PathElement index # _ \<Rightarrow> Some (index = i) | _ \<Rightarrow> Some False)"

definition walk_descent ::
  "'r walker \<Rightarrow> nat option \<Rightarrow> pcl_json_path \<Rightarrow> results \<Rightarrow> 'r jworld \<Rightarrow> 'r walked" where
  "walk_descent walk node next results w =
     do { v \<leftarrow> node_val node w;
          case v of
            JObj t \<Rightarrow>
              walk_entries (\<lambda>key value res w1.
                do { hit \<leftarrow> next_is_key next key;
                     if hit then walk node next res w1
                     else walk value (PathRecursiveDescent # next) res w1 })
                t (Suc (nat (ht_count_used t))) (Some 0) results w
          | JArr ar \<Rightarrow>
              do { a \<leftarrow> ar;
                   walk_elems (\<lambda>i elem res w1.
                     do { hit \<leftarrow> next_is_index next i;
                          if hit then walk node next res w1
                          else walk elem (PathRecursiveDescent # next) res w1 })
                     a 0 (nat (arr_count a)) results w }
          | _ \<Rightarrow> Some (results, w) }"

definition walk_wildcard_member ::
  "'r walker \<Rightarrow> nat option \<Rightarrow> pcl_json_path \<Rightarrow> results \<Rightarrow> 'r jworld \<Rightarrow> 'r walked" where
  "walk_wildcard_member walk node next results w =
     do { v \<leftarrow> node_val node w;
          case v of
            JObj t \<Rightarrow> walk_entries (\<lambda>_ value. add_or_walk walk value next)
                        t (Suc (nat (ht_count_used t))) (Some 0) results w
          | _ \<Rightarrow> add_match node results w }"

definition walk_element ::
  "'r walker \<Rightarrow> int \<Rightarrow> nat option \<Rightarrow> pcl_json_path \<Rightarrow> results \<Rightarrow> 'r jworld \<Rightarrow> 'r walked" where
  "walk_element walk index node next results w =
     do { v \<leftarrow> node_val node w;
          case v of JArr ar \<Rightarrow> walk_index walk ar index next results w | _ \<Rightarrow> Some (results, w) }"

definition walk_element_list ::
  "'r walker \<Rightarrow> unit pcl_vector \<Rightarrow> nat option \<Rightarrow> pcl_json_path \<Rightarrow> results \<Rightarrow> 'r jworld \<Rightarrow> 'r walked" where
  "walk_element_list walk idx_list node next results w =
     do { v \<leftarrow> node_val node w;
          case v of
            JArr ar \<Rightarrow> walk_list (\<lambda>index. walk_index walk ar index next) idx_list 0
                         (nat (vec_count idx_list)) results w
          | _ \<Rightarrow> Some (results, w) }"

definition walk_wildcard_element ::
  "'r walker \<Rightarrow> nat option \<Rightarrow> pcl_json_path \<Rightarrow> results \<Rightarrow> 'r jworld \<Rightarrow> 'r walked" where
  "walk_wildcard_element walk node next results w =
     do { v \<leftarrow> node_val node w;
          case v of
            JArr ar \<Rightarrow> do { a \<leftarrow> ar;
                           walk_elems (\<lambda>_ elem. add_or_walk walk elem next) a 0 (nat (arr_count a)) results w }
          | _ \<Rightarrow> add_match node results w }"

definition slice_from :: "int \<Rightarrow> int \<Rightarrow> int option" where
  "slice_from cnt start = (if start < 0 then cint (cnt + start) else Some start)"

definition slice_stop :: "int \<Rightarrow> int \<Rightarrow> int option" where
  "slice_stop cnt stop =
     (let e = (if stop \<noteq> 0 then stop else cnt) in if e < 0 then cint (cnt + stop) else Some e)"

definition walk_element_slice ::
  "'r walker \<Rightarrow> int \<Rightarrow> int \<Rightarrow> int \<Rightarrow> nat option \<Rightarrow> pcl_json_path \<Rightarrow> results \<Rightarrow> 'r jworld \<Rightarrow> 'r walked" where
  "walk_element_slice walk start stop stride node next results w =
     do { v \<leftarrow> node_val node w;
          case v of
            JArr ar \<Rightarrow>
              do { a \<leftarrow> ar;
                   i \<leftarrow> slice_from (arr_count a) start;
                   e \<leftarrow> slice_stop (arr_count a) stop;
                   walk_slice (\<lambda>i. walk_index walk ar i next) stride i e results w }
          | _ \<Rightarrow> Some (results, w) }"

definition walk_body ::
  "'r walker \<Rightarrow> nat option \<Rightarrow> pcl_json_path \<Rightarrow> results \<Rightarrow> 'r jworld \<Rightarrow> 'r walked" where
  "walk_body walk node path results w =
     (case path of
        [] \<Rightarrow> None
      | PathRoot # next \<Rightarrow> add_or_walk walk node next results w
      | PathMember m # next \<Rightarrow> walk_member walk m node next results w
      | PathRecursiveDescent # next \<Rightarrow> walk_descent walk node next results w
      | PathWildcardMember # next \<Rightarrow> walk_wildcard_member walk node next results w
      | PathElement index # next \<Rightarrow> walk_element walk index node next results w
      | PathElementList idx_list # next \<Rightarrow> walk_element_list walk idx_list node next results w
      | PathWildcardElement # next \<Rightarrow> walk_wildcard_element walk node next results w
      | PathElementSlice start stop stride # next \<Rightarrow>
          walk_element_slice walk start stop stride node next results w)"

text \<open>The recursion of the matcher, with a bound of its depth.\<close>

primrec walk_path :: "nat \<Rightarrow> 'r walker" where
  "walk_path 0 = (\<lambda>node path results w. None)"
| "walk_path (Suc fuel) = walk_body (walk_path fuel)"

definition pcl_json_match ::
  "nat \<Rightarrow> 'r json_lib \<Rightarrow> nat option \<Rightarrow> pcl_json_path \<Rightarrow> 'r jworld \<Rightarrow> 'r walked" where
  "pcl_json_match fuel L root path w =
     do { (jo, w1) \<leftarrow> pcl_json_arr w;
          j \<leftarrow> jo;
          nd \<leftarrow> json_load j w1;
          case js_val nd of
            JArr (Some results) \<Rightarrow>
              do { w2 \<leftarrow> json_put_val j (JArr None) w1;
                   w3 \<leftarrow> pcl_json_free (jl_depth L) (Some j) w2;
                   walk_path fuel root path results w3 }
          | _ \<Rightarrow> None }"

definition pcl_json_query ::
  "nat \<Rightarrow> 'r json_lib \<Rightarrow> nat option \<Rightarrow> byte list option \<Rightarrow> 'r jworld \<Rightarrow> (results option \<times> 'r jworld) option" where
  "pcl_json_query fuel L j path w =
     (if j = None \<or> path = None
      then Some (R_SETERR None (''json_query.c'', ''pcl_json_query'', 38) PCL_EINVAL w)
      else do { (po, w1) \<leftarrow> pcl_json_compile (jl_junk L) path w;
                case po of
                  None \<Rightarrow> Some (R_TRC None (''json_query.c'', ''pcl_json_query'', 43) w1)
                | Some p \<Rightarrow> do { (arr, w2) \<leftarrow> pcl_json_match fuel L j p w1;
                                w3 \<leftarrow> pcl_json_freepath p w2;
                                Some (Some arr, w3) } })"

end
