(* ===== verification/PclJsonPathOk.thy ===== *)
theory PclJsonPathOk imports PclJsonPath PclStringOk begin

text \<open>
  The path compiler returns for every terminated string: no read leaves the string, no loop runs for
  ever, and what it builds is well-formed.
\<close>

section \<open>Positions in a terminated string\<close>

text \<open>The rest of the block at a position is a terminated string; \<open>n\<close> characters are left.\<close>

lemma strlen_drop: "c_strlen p = Some n \<Longrightarrow> k \<le> n \<Longrightarrow> c_strlen (drop k p) = Some (n - k)"
proof (induction p arbitrary: n k)
  case (Cons c p)
  then show ?case by (cases k) (auto split: if_splits)
qed simp

lemma strlen_length: "c_strlen p = Some n \<Longrightarrow> n < length p"
  by (induction p arbitrary: n) (auto split: if_splits)

lemma strlen_rd:
  assumes "c_strlen p = Some n" "k \<le> n"
  shows "\<exists>c. rd p (int k) = Some c \<and> (c = 0 \<longleftrightarrow> k = n)"
proof -
  obtain r where r: "p = take n p @ 0 # r" "0 \<notin> set (take n p)" "length (take n p) = n"
    using strlen_SomeD [OF assms(1)] by blast
  have "n < length p" by (rule strlen_length [OF assms(1)])
  moreover have "p ! n = 0" using r(1,3) by (metis nth_append_length)
  moreover have "p ! k = take n p ! k" if "k < n" using that by simp
  moreover have "take n p ! k \<noteq> 0" if "k < n" using r(2,3) that by (metis nth_mem)
  ultimately show ?thesis using assms(2) by (cases "k = n") (auto simp: rd_int)
qed

lemma strlen_hd:
  assumes "c_strlen p = Some n"
  obtains c s where "p = c # s" "c = 0 \<longleftrightarrow> n = 0" "n \<noteq> 0 \<longrightarrow> c_strlen s = Some (n - 1)"
proof (cases p)
  case (Cons c s)
  then have "c = 0 \<longleftrightarrow> n = 0" "n \<noteq> 0 \<longrightarrow> c_strlen s = Some (n - 1)"
    using assms by (auto split: if_splits)
  with Cons that show ?thesis by blast
qed (use assms in simp)

lemma space_len_total: "c_strlen p = Some n \<Longrightarrow> \<exists>k. space_len p = Some k \<and> k \<le> n"
proof (induction p arbitrary: n)
  case (Cons c p)
  show ?case
  proof (cases "c_isspace c")
    case True
    then have "c \<noteq> 0" by (auto simp: c_isspace_def)
    with Cons show ?thesis using True by auto
  qed simp
qed simp

lemma digits_total:
  "c_strlen p = Some n \<Longrightarrow> \<exists>v' k'. digits_loop 10 p v k = Some (v', k') \<and> k \<le> k' \<and> k' \<le> k + n"
proof (induction p arbitrary: n v k)
  case (Cons c p)
  show ?case
  proof (cases "base_digit 10 c")
    case None
    then show ?thesis by simp
  next
    case (Some d)
    then have "c \<noteq> 0" by (auto simp: base_digit_def digit_val_def)
    then obtain m where m: "n = Suc m" "c_strlen p = Some m" using Cons.prems by (auto split: if_splits)
    from Cons.IH [OF m(2), of "v * 10 + d" "k + 1"] show ?thesis using Some m(1) by auto
  qed
qed simp

lemma scan_total:
  assumes "c_strlen p = Some n"
  shows "\<exists>neg v k. c_strto_scan 10 p = Some (neg, v, k) \<and> k \<le> n"
proof -
  obtain k where k: "space_len p = Some k" "k \<le> n" using space_len_total [OF assms] by blast
  obtain c where c: "rd p (int k) = Some c" "c = 0 \<longleftrightarrow> k = n" using strlen_rd [OF assms k(2)] by blast
  define k1 where "k1 = (if c = 45 \<or> c = 43 then k + 1 else k)"
  have k1: "k1 \<le> n" using k(2) c(2) by (auto simp: k1_def)
  obtain d where d: "rd p (int k1) = Some d" using strlen_rd [OF assms k1] by blast
  obtain v j where "digits_loop 10 (drop k1 p) 0 0 = Some (v, j)" "j \<le> n - k1"
    using digits_total [OF strlen_drop [OF assms k1], of 0 0] by auto
  then show ?thesis
    using k c d k1 by (auto simp: c_strto_scan_def base_prefix_def k1_def [symmetric] Let_def)
qed

section \<open>Numbers\<close>

text \<open>What every part of the compiler keeps: the error is not frozen, and it is set exactly by a
  failure.\<close>

definition step_ok ::
  "'z pcl_err_scheme \<Rightarrow> ('x \<Rightarrow> bool) \<Rightarrow> ('x, 'z) path_step \<Rightarrow> bool" where
  "step_ok w P st \<longleftrightarrow>
     (case st of None \<Rightarrow> False
      | Some (r, w') \<Rightarrow> \<not> frozen w'
          \<and> (case r of None \<Rightarrow> err w' \<noteq> 0 | Some x \<Rightarrow> err w' = err w \<and> P x))"

lemma step_ok_ok: "\<not> frozen w' \<Longrightarrow> err w' = err w \<Longrightarrow> P x \<Longrightarrow> step_ok w P (Some (Some x, w'))"
  by (simp add: step_ok_def)

lemma step_ok_fail: "\<not> frozen w' \<Longrightarrow> err w' \<noteq> 0 \<Longrightarrow> step_ok w P (Some (None, w'))"
  by (simp add: step_ok_def)

lemma step_ok_mono: "step_ok w P st \<Longrightarrow> (\<And>x. P x \<Longrightarrow> Q x) \<Longrightarrow> step_ok w Q st"
  by (auto simp: step_ok_def split: option.splits prod.splits)

lemma step_ok_bind:
  assumes "step_ok w P st"
    "\<And>w'. \<not> frozen w' \<Longrightarrow> err w' \<noteq> 0 \<Longrightarrow> step_ok w Q (f (None, w'))"
    "\<And>x w'. \<not> frozen w' \<Longrightarrow> err w' = err w \<Longrightarrow> P x \<Longrightarrow> step_ok w Q (f (Some x, w'))"
  shows "step_ok w Q (Option.bind st f)"
proof -
  from assms(1) obtain r w' where "st = Some (r, w')" "\<not> frozen w'"
    "case r of None \<Rightarrow> err w' \<noteq> 0 | Some x \<Rightarrow> err w' = err w \<and> P x"
    by (auto simp: step_ok_def split: option.splits prod.splits)
  then show ?thesis using assms(2,3) by (cases r) auto
qed

lemma step_ok_err: "step_ok w' P st \<Longrightarrow> err w' = err w \<Longrightarrow> step_ok w P st"
  by (auto simp: step_ok_def split: option.splits prod.splits)

text \<open>The rest behind a number.\<close>

definition rest_ok :: "nat \<Rightarrow> byte list \<Rightarrow> bool" where
  "rest_ok n p \<longleftrightarrow> (\<exists>m \<le> n. c_strlen p = Some m)"

lemma rest_ok_rd: "rest_ok n p \<Longrightarrow> \<exists>c. rd p 0 = Some c"
  using strlen_rd [of p _ 0] by (auto simp: rest_ok_def)

text \<open>A conversion fails with the error set, or stores a number and an end pointer.\<close>

definition conv_ok :: "int \<Rightarrow> int \<Rightarrow> nat \<Rightarrow> 'z pcl_err_scheme \<Rightarrow> 'z converted \<Rightarrow> bool" where
  "conv_ok lo hi n w c \<longleftrightarrow>
     (case c of None \<Rightarrow> False
      | Some (r, e, no, w') \<Rightarrow> \<not> frozen w'
          \<and> (if r = 0 then err w' = err w
               \<and> (case (e, no) of (Some (Some k), Some i) \<Rightarrow> k \<le> n \<and> lo \<le> i \<and> i \<le> hi | _ \<Rightarrow> False)
             else r = -1 \<and> err w' \<noteq> 0))"

lemma conv_ok_raised: "\<not> frozen w' \<Longrightarrow> err w' \<noteq> 0 \<Longrightarrow> conv_ok lo hi n w (stores e no (-1, w'))"
  by (simp add: conv_ok_def stores_def)

lemma conv_okE:
  assumes "conv_ok lo hi n w c"
  obtains e no w' where "c = Some (-1, e, no, w')" "\<not> frozen w'" "err w' \<noteq> 0"
  | k i w' where "c = Some (0, Some (Some k), Some i, w')" "\<not> frozen w'" "err w' = err w" "k \<le> n"
      "lo \<le> i" "i \<le> hi"
proof -
  obtain r e no w' where c: "c = Some (r, e, no, w')"
    using assms by (cases c) (auto simp: conv_ok_def)
  show ?thesis
  proof (cases "r = 0")
    case True
    then obtain k i where "e = Some (Some k)" "no = Some i"
      using assms c by (cases e; cases no; cases "the e") (auto simp: conv_ok_def)
    then show ?thesis using that(2) assms c True by (simp add: conv_ok_def)
  next
    case False
    then show ?thesis using that(1) assms c by (simp add: conv_ok_def)
  qed
qed

lemma strtol_total:
  assumes "c_strlen p = Some n" "\<not> frozen w"
  shows "conv_ok LLONG_MIN LLONG_MAX n w (pcl_strtol (Some p) 10 w)"
proof -
  obtain c where c: "rd p 0 = Some c" using strlen_rd [OF assms(1), of 0] by auto
  obtain neg v k where sc: "c_strto_scan 10 p = Some (neg, v, k)" "k \<le> n"
    using scan_total [OF assms(1)] by blast
  define m where "m = (if neg then - int v else int v)"
  have "c_strtoll p 10 = Some (max LLONG_MIN (min LLONG_MAX m), Some k,
      if m < LLONG_MIN \<or> LLONG_MAX < m then ERANGE else 0)"
    using sc(1) by (auto simp: c_strtoll_def m_def Let_def LLONG_MIN_def LLONG_MAX_def)
  then obtain i k e where i: "c_strtoll p 10 = Some (i, Some k, e)" "k \<le> n" "e = 0 \<or> e = ERANGE"
    "LLONG_MIN \<le> i" "i \<le> LLONG_MAX"
    using sc(2) by (simp add: LLONG_MIN_def LLONG_MAX_def)
  have er: "SETLASTERRMSG l ms (w\<lparr>c_errno := ERANGE\<rparr>)
      = (-1, raised l PCL_ERANGE ERANGE (Some ms) (w\<lparr>c_errno := ERANGE\<rparr>))" for l ms
    using assms(2) by (simp add: SETLASTERRMSG_def SETOSERRMSG_def SETERRMSG_OS_thawed os2pcl_ERANGE)
  consider "c = 0" | "c \<noteq> 0" "e = ERANGE" | "c \<noteq> 0" "e = 0" "k = 0" | "c \<noteq> 0" "e = 0" "k \<noteq> 0"
    using i(3) by blast
  then show ?thesis
  proof cases
    case 4
    then show ?thesis
      using c i assms(2) by (simp add: pcl_strtol_def strempty_def stores_def conv_ok_def)
  qed (use c i assms(2) in \<open>auto simp: pcl_strtol_def strempty_def macros_thawed er intro!: conv_ok_raised\<close>)
qed

lemma strtoi_total:
  assumes "c_strlen p = Some n" "\<not> frozen w"
  shows "conv_ok INT_MIN INT_MAX n w (pcl_strtoi (Some p) 10 w)"
proof -
  from strtol_total [OF assms] show ?thesis
  proof (cases rule: conv_okE)
    case (1 e no w')
    then show ?thesis
      by (auto simp: pcl_strtoi_def TRC_def TRCMSG_thawed intro!: conv_ok_raised)
  next
    case (2 k i w')
    then show ?thesis
      by (auto simp: pcl_strtoi_def macros_thawed stores_def conv_ok_def)
  qed
qed

lemma number_at_ok:
  assumes "c_strlen p = Some n" "\<not> frozen w"
  shows "step_ok w (\<lambda>(i, p1). INT_MIN \<le> i \<and> i \<le> INT_MAX \<and> rest_ok n p1) (number_at p w)"
  using strtoi_total [OF assms]
proof (cases rule: conv_okE)
  case (2 k i w')
  then show ?thesis
    using strlen_drop [OF assms(1), of k] by (auto simp: number_at_def rest_ok_def intro!: step_ok_ok)
qed (simp add: number_at_def step_ok_fail)

section \<open>Nodes\<close>

definition index_vec :: "unit pcl_vector \<Rightarrow> bool" where
  "index_vec v \<longleftrightarrow> vec_wf v \<and> vec_size v = 4 \<and> vec_cleanup v = None"

fun node_ok :: "path_node \<Rightarrow> bool" where
  "node_ok (PathMember m) \<longleftrightarrow> c_strlen m \<noteq> None"
| "node_ok (PathElementList v) \<longleftrightarrow> index_vec v"
| "node_ok PathRoot \<longleftrightarrow> True"
| "node_ok PathWildcardMember \<longleftrightarrow> True"
| "node_ok PathRecursiveDescent \<longleftrightarrow> True"
| "node_ok (PathElement i) \<longleftrightarrow> True"
| "node_ok PathWildcardElement \<longleftrightarrow> True"
| "node_ok (PathElementSlice a b c) \<longleftrightarrow> True"

lemma free_indexes_ok: "index_vec v \<Longrightarrow> free_indexes v w = Some w"
  by (auto simp: free_indexes_def index_vec_def pcl_vector_free_def pcl_vector_clear_def vec_wf_def
      split: option.splits)

lemma freepath_ok: "list_all node_ok root \<Longrightarrow> pcl_json_freepath root w = Some w"
  by (induction root) (auto simp: free_indexes_ok split: path_node.splits)

lemma path_fail_ok: "list_all node_ok root \<Longrightarrow> \<not> frozen v \<Longrightarrow> step_ok w P (path_fail root l msg v)"
  by (simp add: path_fail_def freepath_ok macros_thawed step_ok_fail)

lemma path_trace_ok:
  "list_all node_ok root \<Longrightarrow> \<not> frozen v \<Longrightarrow> err v \<noteq> 0 \<Longrightarrow> step_ok w P (path_trace root l msg v)"
  by (simp add: path_trace_def freepath_ok R_TRCMSG_def TRCMSG_thawed step_ok_fail)

lemma append_index_ok:
  assumes "index_vec v" "vec_count v < 2 ^ 30"
  obtains v' where "append_index junk v i = Some v'" "index_vec v'"
    "vec_seq v' = vec_seq v @ [int_bytes i]" "vec_count v' = vec_count v + 1"
proof -
  have sz: "vec_elem_ok (vec_size v) (Some (int_bytes i))" "vec_bytes (vec_size v) (Some (int_bytes i)) = int_bytes i"
    using assms(1) by (simp_all add: index_vec_def vec_elem_ok_def vec_bytes_def int_bytes_def)
  have w: "vec_wf v" using assms(1) by (simp add: index_vec_def)
  obtain v' where v': "pcl_vector_append junk (Some v) (Some (int_bytes i))
      = Some (Some (vec_count v * int (vec_size v)), Some v')"
    "vec_wf v'" "vec_size v' = vec_size v" "vec_cleanup v' = vec_cleanup v"
    "vec_seq v' = vec_seq v @ [int_bytes i]"
    using vector_append_ok [OF w assms(2) sz(1), of junk] sz(2) by metis
  have "int (length (vec_seq v')) = vec_count v'" "int (length (vec_seq v)) = vec_count v"
    using v'(2) w by (auto elim!: vec_wfE)
  then show ?thesis
    using v' assms(1) that [of v'] by (simp add: append_index_def index_vec_def)
qed

lemma first_index:
  obtains v0 v where "pcl_vector_new () junk 4 4 None w = (Some v0, w)"
    "append_index junk v0 i = Some v" "index_vec v" "vec_seq v = [int_bytes i]" "vec_count v = 1"
proof -
  define v where "v = \<lparr>vec_count = 0, vec_capacity = 4, vec_size = 4,
    vec_elems = Some (replicate 16 junk), vec_cleanup = None :: unit option\<rparr>"
  have n: "pcl_vector_new () junk 4 4 None w = (Some v, w)"
    by (simp add: pcl_vector_new_def v_def)
  have ok: "index_vec v" "vec_count v = 0" by (simp_all add: index_vec_def v_def vec_wf_def INT_MAX_def)
  have "vec_seq v = []" by (simp add: vec_seq_def v_def)
  moreover have "vec_count v < 2 ^ 30" using ok by simp
  ultimately show ?thesis
    using append_index_ok [OF ok(1), of junk i] that [OF n] ok by auto
qed

section \<open>The parts of the compiler\<close>

lemma step_ok_opt_bind:
  assumes "step_ok w P st"
    "\<And>w'. \<not> frozen w' \<Longrightarrow> err w' \<noteq> 0 \<Longrightarrow> step_ok w Q (f None w')"
    "\<And>x w'. \<not> frozen w' \<Longrightarrow> err w' = err w \<Longrightarrow> P x \<Longrightarrow> step_ok w Q (f (Some x) w')"
  shows "step_ok w Q (Option.bind st (\<lambda>(r, w'). f r w'))"
  by (rule step_ok_bind [OF assms(1)]) (use assms(2,3) in auto)

text \<open>A node and the rest behind it; recursive descent is followed by a dot.\<close>

definition parsed :: "nat \<Rightarrow> path_node \<times> byte list \<Rightarrow> bool" where
  "parsed n np \<longleftrightarrow> node_ok (fst np) \<and> fst np \<noteq> PathRoot \<and> rest_ok n (snd np)
     \<and> (fst np = PathRecursiveDescent \<longrightarrow> rd (snd np) 0 = Some 46)"

lemma rest_ok_drop: "rest_ok n p \<Longrightarrow> rd p 0 = Some c \<Longrightarrow> c \<noteq> 0 \<Longrightarrow> rest_ok (n - 1) (drop 1 p)"
proof -
  assume a: "rest_ok n p" "rd p 0 = Some c" "c \<noteq> 0"
  then obtain m where m: "m \<le> n" "c_strlen p = Some m" by (auto simp: rest_ok_def)
  then have "m \<noteq> 0" using a strlen_rd [OF m(2), of 0] by auto
  then show ?thesis using m strlen_drop [OF m(2), of 1] by (auto simp: rest_ok_def intro!: exI [of _ "m - 1"])
qed

lemma rest_ok_mono: "rest_ok n p \<Longrightarrow> n \<le> m \<Longrightarrow> rest_ok m p"
  by (auto simp: rest_ok_def)

lemma number_rest:
  assumes "rest_ok n p" "\<not> frozen w"
  shows "step_ok w (\<lambda>(i, p1). INT_MIN \<le> i \<and> i \<le> INT_MAX \<and> rest_ok n p1) (number_at p w)"
proof -
  obtain m where m: "m \<le> n" "c_strlen p = Some m" using assms(1) by (auto simp: rest_ok_def)
  then show ?thesis
    by (intro step_ok_mono [OF number_at_ok [OF m(2) assms(2)]]) (auto intro: rest_ok_mono)
qed

lemma name_end_total: "c_strlen p = Some n \<Longrightarrow> \<exists>k. name_end p = Some k \<and> k \<le> n"
proof (induction p arbitrary: n)
  case (Cons c p)
  show ?case
  proof (cases "c \<noteq> 46 \<and> c \<noteq> 91 \<and> c \<noteq> 0")
    case True
    then obtain m where m: "n = Suc m" "c_strlen p = Some m" using Cons.prems by (auto split: if_splits)
    from Cons.IH [OF m(2)] obtain k where "name_end p = Some k" "k \<le> m" by blast
    then show ?thesis using True m(1) by simp
  next
    case False
    then have "name_end (c # p) = Some 0" by auto
    then show ?thesis by simp
  qed
qed simp

lemma strndup_ok:
  fixes p :: "byte list"
  assumes "c_strlen p = Some n" "k \<le> n"
  shows "\<exists>m. pcl_strndup (Some p) k = Some m \<and> c_strlen m \<noteq> None"
proof -
  have nul: "c_strlen (bs @ [0]) \<noteq> None" for bs :: "byte list" by (induction bs) auto
  have "pcl_strndup (Some p) k = Some (take (if k = 0 then n else k) p @ [0])"
    using assms strlen_length [OF assms(1)] by (simp add: pcl_strndup_def mem_read_def)
  then show ?thesis using nul [of "take (if k = 0 then n else k) p"] by blast
qed

lemma match_at_total: "c_strlen p = Some n \<Longrightarrow> 0 \<notin> set cs \<Longrightarrow> \<exists>b. match_at p cs = Some b \<and> (b \<longrightarrow> length cs \<le> n)"
proof (induction cs arbitrary: p n)
  case (Cons c cs)
  from Cons.prems(1) show ?case
  proof (cases rule: strlen_hd)
    case (1 x s)
    show ?thesis
    proof (cases "x = c")
      case True
      then have "n \<noteq> 0" using 1(2) Cons.prems(2) by auto
      with 1 Cons.IH [of s "n - 1"] Cons.prems(2) True show ?thesis by (auto simp: rd_def)
    next
      case False
      then have "match_at p (c # cs) = Some False" using 1 by (simp add: rd_def)
      then show ?thesis by auto
    qed
  qed
qed auto

lemma parsed_okI:
  "node_ok node \<Longrightarrow> node \<noteq> PathRoot \<Longrightarrow> node \<noteq> PathRecursiveDescent \<Longrightarrow> rest_ok n p \<Longrightarrow> parsed n (node, p)"
  by (simp add: parsed_def)

lemma str_find_bound: "str_find d s = Some k \<Longrightarrow> k + length d \<le> length s"
proof (induction d s arbitrary: k rule: str_find.induct)
  case (1 d s)
  show ?case
  proof (cases "take (length d) s = d")
    case True
    then have "length d \<le> length s" by (metis length_take min.cobounded1)
    then show ?thesis using 1(2) True by (subst (asm) str_find.simps) simp
  next
    case False
    show ?thesis
    proof (cases s)
      case Nil
      then show ?thesis using 1(2) False by (subst (asm) str_find.simps) simp
    next
      case (Cons c s')
      have "str_find d s = map_option Suc (str_find d s')"
        using False Cons by (subst str_find.simps) simp
      then obtain j where "str_find d s' = Some j" "k = Suc j" using 1(2) by auto
      with 1(1) [OF False Cons, of j] Cons show ?thesis by simp
    qed
  qed
qed

lemma dot_ok:
  assumes root: "list_all node_ok root" and "c_strlen p = Some (Suc n)" "\<not> frozen w"
  shows "step_ok w (parsed n) (compile_dot root p w)"
proof -
  obtain c where c: "rd p 1 = Some c" "c = 0 \<longleftrightarrow> n = 0" using strlen_rd [OF assms(2), of 1] by auto
  have p1: "c_strlen (drop 1 p) = Some n" using strlen_drop [OF assms(2), of 1] by simp
  consider "c = 46" | "c = 42" | "c \<noteq> 46" "c \<noteq> 42" by blast
  then show ?thesis
  proof cases
    case 1
    have "rd (drop 1 p) 0 = Some 46" using c(1) 1 by (auto simp: rd_def split: if_splits)
    then show ?thesis
      using 1 c p1 assms(3) by (auto simp: compile_dot_def parsed_def rest_ok_def intro!: step_ok_ok)
  next
    case 2
    then have "c_strlen (drop 2 p) = Some (n - 1)" using c(2) strlen_drop [OF assms(2), of 2] by simp
    then show ?thesis
      using 2 c assms(3) by (auto simp: compile_dot_def rest_ok_def intro!: step_ok_ok parsed_okI exI [of _ "n - 1"])
  next
    case 3
    obtain k where k: "name_end (drop 1 p) = Some k" "k \<le> n" using name_end_total [OF p1] by blast
    obtain m where m: "pcl_strndup (Some (drop 1 p)) k = Some m" "c_strlen m \<noteq> None"
      using strndup_ok [OF p1 k(2)] by blast
    have "rest_ok n (drop k (drop 1 p))" using strlen_drop [OF p1 k(2)] by (auto simp: rest_ok_def)
    then show ?thesis
      using 3 c k m assms(3) path_fail_ok [OF root assms(3)]
      by (auto simp: compile_dot_def Let_def step_ok_ok parsed_okI add.commute)
  qed
qed

lemma quote_ok:
  assumes root: "list_all node_ok root" and "c_strlen p = Some (Suc n)" "rd p 1 = Some 39" "\<not> frozen w"
  shows "step_ok w (parsed n) (compile_quote root p w)"
proof -
  have n: "n \<noteq> 0" using strlen_rd [OF assms(2), of 1] assms(3) by auto
  then have p1: "c_strlen (drop 2 p) = Some (n - 1)" using strlen_drop [OF assms(2), of 2] by simp
  obtain b where b: "match_at (drop 2 p) [42, 39, 93] = Some b" "b \<longrightarrow> 3 \<le> n - 1"
    using match_at_total [OF p1, of "[42, 39, 93]"] by auto
  obtain q where q: "c_strstr (drop 2 p) [39, 93, 0] = Some q"
    using p1 by (auto simp: c_strstr_def)
  have le: "k + 2 \<le> n - 1" if "q = Some k" for k
    using q that p1 str_find_bound [of "[39, 93]" "take (n - 1) (drop 2 p)" k] strlen_length [OF p1]
    by (auto simp: c_strstr_def simp del: str_find.simps)
  show ?thesis
  proof (cases b)
    case True
    then have "c_strlen (drop 5 p) = Some (n - 4)" using b(2) strlen_drop [OF assms(2), of 5] by simp
    then show ?thesis
      using True b(1) assms(4) by (auto simp: compile_quote_def rest_ok_def intro!: step_ok_ok parsed_okI exI [of _ "n - 4"])
  next
    case False
    show ?thesis
    proof (cases q)
      case None
      then show ?thesis
        using False b(1) q path_fail_ok [OF root assms(4)] by (simp add: compile_quote_def)
    next
      case (Some k)
      obtain m where m: "pcl_strndup (Some (drop 2 p)) k = Some m" "c_strlen m \<noteq> None"
        using strndup_ok [OF p1, of k] le [OF Some] by auto
      have "rest_ok n (drop (k + 2) (drop 2 p))"
        using strlen_drop [OF p1, of "k + 2"] le [OF Some] by (auto simp: rest_ok_def)
      then show ?thesis
        using False b(1) q m Some assms(4) by (auto simp: compile_quote_def Let_def step_ok_ok parsed_okI add.commute)
    qed
  qed
qed

lemma stride_ok:
  assumes root: "list_all node_ok root" and "rest_ok n p" "\<not> frozen w"
  shows "step_ok w (\<lambda>(c, p1). rest_ok n p1) (compile_stride root l p w)"
proof -
  obtain c where c: "rd p 0 = Some c" using rest_ok_rd [OF assms(2)] by blast
  show ?thesis
  proof (cases "c = 58")
    case True
    then have "rest_ok (n - 1) (drop 1 p)" using rest_ok_drop [OF assms(2) c] by simp
    then have "rest_ok n (drop 1 p)" by (rule rest_ok_mono) simp
    note num = number_rest [OF this assms(3)]
    have "step_ok w (\<lambda>(c, p1). rest_ok n p1)
      (Option.bind (number_at (drop 1 p) w) (\<lambda>(no, w1).
        case no of None \<Rightarrow> path_trace root l ''invalid slice expression: slice step'' w1
        | Some r \<Rightarrow> Some (Some r, w1)))"
      by (rule step_ok_opt_bind [OF num]) (auto intro: path_trace_ok [OF root] step_ok_ok)
    then show ?thesis using c True by (simp add: compile_stride_def)
  next
    case False
    then show ?thesis using c assms(2,3) by (auto simp: compile_stride_def intro: step_ok_ok)
  qed
qed

text \<open>What follows the end of a slice, for both forms of one.\<close>

lemma slice_tail_ok:
  assumes root: "list_all node_ok root" and "rest_ok n p" "\<not> frozen w"
  shows "step_ok w (parsed n)
    (Option.bind (compile_stride root l p w) (\<lambda>(stepo, w2).
       case stepo of
         None \<Rightarrow> Some (None, w2)
       | Some (slice_step, p3) \<Rightarrow>
           Option.bind (rd p3 0) (\<lambda>d.
             if d \<noteq> 93 then path_fail root l1 msg w2
             else Some (Some (PathElementSlice a b slice_step, drop 1 p3), w2))))"
proof (rule step_ok_opt_bind [OF stride_ok [OF assms]], goal_cases)
  case (2 x w')
  obtain c p3 where x: "x = (c, p3)" "rest_ok n p3" using 2(3) by (cases x) auto
  obtain d where d: "rd p3 0 = Some d" using rest_ok_rd [OF x(2)] by blast
  have "rest_ok n (drop 1 p3)" if "d = 93"
    using rest_ok_mono [OF rest_ok_drop [OF x(2) d]] that by simp
  then show ?case
    using x d 2(1,2) by (auto intro!: step_ok_ok parsed_okI path_fail_ok [OF root])
qed (auto intro: step_ok_fail)

text \<open>The end of a slice where it is given.\<close>

lemma slice_end_ok:
  assumes "rest_ok n p" "\<not> frozen w"
  shows "step_ok w (\<lambda>(e, p1). rest_ok n p1) (if b then number_at p w else Some (Some (0, p), w))"
  using assms number_rest [OF assms] by (auto intro: step_ok_ok step_ok_mono)

lemma slice_ok:
  assumes root: "list_all node_ok root" and "c_strlen p = Some (Suc n)" "rd p 1 = Some 58" "\<not> frozen w"
  shows "step_ok w (parsed n) (compile_slice root p w)"
proof -
  have n: "n \<noteq> 0" using strlen_rd [OF assms(2), of 1] assms(3) by auto
  then have p1: "rest_ok n (drop 2 p)"
    using strlen_drop [OF assms(2), of 2] by (auto simp: rest_ok_def intro!: exI [of _ "n - 1"])
  obtain c where c: "rd (drop 2 p) 0 = Some c" using rest_ok_rd [OF p1] by blast
  show ?thesis
    unfolding compile_slice_def Let_def c Option.bind.simps
    by (rule step_ok_opt_bind [OF slice_end_ok [OF p1 assms(4)]])
      (auto intro!: path_trace_ok [OF root] step_ok_err [OF slice_tail_ok [OF root]])
qed

lemma index_slice_ok:
  assumes root: "list_all node_ok root" and "rest_ok n p" "rd p 0 = Some 58" "\<not> frozen w"
  shows "step_ok w (parsed n) (compile_index_slice root index p w)"
proof -
  have p1: "rest_ok n (drop 1 p)"
    using rest_ok_mono [OF rest_ok_drop [OF assms(2,3)]] by simp
  obtain c where c: "rd (drop 1 p) 0 = Some c" using rest_ok_rd [OF p1] by blast
  show ?thesis
    unfolding compile_index_slice_def Let_def c Option.bind.simps
    by (rule step_ok_opt_bind [OF slice_end_ok [OF p1 assms(4)]])
      (auto intro!: path_trace_ok [OF root] step_ok_err [OF slice_tail_ok [OF root]])
qed

text \<open>The indices of a list: each takes a comma, so the loop ends with the string.\<close>

lemma list_loop_ok:
  assumes root: "list_all node_ok root"
  shows "rest_ok n p \<Longrightarrow> rd p 0 = Some 44 \<or> rd p 0 = Some 93 \<Longrightarrow> \<not> frozen w \<Longrightarrow> index_vec v \<Longrightarrow>
    vec_count v + int n \<le> 2 ^ 30 \<Longrightarrow>
    step_ok w (\<lambda>(v1, p1). index_vec v1 \<and> rest_ok n p1 \<and> rd p1 0 = Some 93)
      (compile_list_loop junk root v p w)"
proof (induction n arbitrary: p v w rule: less_induct)
  case (less n)
  show ?case
  proof (cases "rd p 0 = Some 93")
    case True
    then show ?thesis
      using less.prems by (subst compile_list_loop.simps) (auto intro: step_ok_ok)
  next
    case False
    then have c: "rd p 0 = Some 44" using less.prems(2) by blast
    have n: "n \<noteq> 0"
      using less.prems(1) strlen_rd [of p 0 0] c by (cases "n = 0") (auto simp: rest_ok_def)
    have r1: "rest_ok (n - 1) (drop 1 p)" using rest_ok_drop [OF less.prems(1) c] by simp
    have fv: "free_indexes v x = Some x" for x :: "'a pcl_err_scheme"
      by (rule free_indexes_ok [OF less.prems(4)])
    show ?thesis
    proof (subst compile_list_loop.simps, simp only: c Option.bind.simps, simp,
        rule step_ok_opt_bind [OF number_rest [OF r1 [simplified] less.prems(3)]], goal_cases)
      case (1 w')
      then show ?case
        by (simp add: freepath_ok [OF root] fv R_TRCMSG_def TRCMSG_thawed step_ok_fail)
    next
      case (2 x w')
      obtain i p1 where x: "x = (i, p1)" "rest_ok (n - 1) p1" using 2(3) by (cases x) auto
      obtain d where d: "rd p1 0 = Some d" using rest_ok_rd [OF x(2)] by blast
      show ?case
      proof (cases "d \<noteq> 44 \<and> d \<noteq> 93")
        case True
        then show ?thesis
          using 2(1) x d by (simp add: freepath_ok [OF root] fv macros_thawed step_ok_fail)
      next
        case False
        have "vec_count v < 2 ^ 30" using less.prems(5) n by simp
        then obtain v' where v': "append_index junk v i = Some v'" "index_vec v'" "vec_count v' = vec_count v + 1"
          using append_index_ok [OF less.prems(4)] by metis
        have "step_ok w' (\<lambda>(v1, p1). index_vec v1 \<and> rest_ok (n - 1) p1 \<and> rd p1 0 = Some 93)
            (compile_list_loop junk root v' p1 w')"
          using less.IH [of "n - 1" p1 w' v'] x(2) d False v'(2,3) 2(1) less.prems(5) n by auto
        then have "step_ok w' (\<lambda>(v1, p1). index_vec v1 \<and> rest_ok n p1 \<and> rd p1 0 = Some 93)
            (compile_list_loop junk root v' p1 w')"
          by (rule step_ok_mono) (auto intro: rest_ok_mono)
        then show ?thesis using 2(2) x d False v'(1) by (auto intro: step_ok_err)
      qed
    qed
  qed
qed

lemma list_ok:
  assumes root: "list_all node_ok root" and "rest_ok n p" "rd p 0 = Some 44" "\<not> frozen w" "n < 2 ^ 30"
  shows "step_ok w (parsed n) (compile_list junk root index p w)"
proof -
  obtain v0 v where v: "pcl_vector_new () junk 4 4 None w = (Some v0, w)"
    "append_index junk v0 index = Some v" "index_vec v" "vec_count v = 1"
    by (rule first_index [of junk w index])
  have "vec_count v + int n \<le> 2 ^ 30" using v(4) assms(5) by simp
  then have loop: "step_ok w (\<lambda>(v1, p1). index_vec v1 \<and> rest_ok n p1 \<and> rd p1 0 = Some 93)
      (compile_list_loop junk root v p w)"
    using list_loop_ok [OF root assms(2) _ assms(4) v(3)] assms(3) by blast
  have tl: "rest_ok n (drop 1 p1)" if "rest_ok n p1" "rd p1 0 = Some 93" for p1
    using rest_ok_mono [OF rest_ok_drop [OF that]] by simp
  show ?thesis
    unfolding compile_list_def v(1,2) Let_def prod.case Option.bind.simps
    by (rule step_ok_opt_bind [OF loop]) (auto intro!: step_ok_fail step_ok_ok parsed_okI tl [simplified])
qed

lemma index_ok:
  assumes root: "list_all node_ok root" and "c_strlen p = Some (Suc n)" "\<not> frozen w" "n < 2 ^ 30"
  shows "step_ok w (parsed n) (compile_index junk root p w)"
proof -
  have p1: "rest_ok n (drop 1 p)" using strlen_drop [OF assms(2), of 1] by (auto simp: rest_ok_def)
  show ?thesis
    unfolding compile_index_def
  proof (rule step_ok_opt_bind [OF number_rest [OF p1 assms(3)]], goal_cases)
    case (1 w')
    then show ?case by (auto intro!: path_trace_ok [OF root])
  next
    case (2 x w')
    obtain i q where x: "x = (i, q)" "rest_ok n q" using 2(3) by (cases x) auto
    obtain c where c: "rd q 0 = Some c" using rest_ok_rd [OF x(2)] by blast
    have e: "step_ok w' P st \<Longrightarrow> step_ok w P st" for P and st :: "(path_node \<times> byte list, 'a) path_step"
      using 2(2) step_ok_err by blast
    have tl: "rest_ok n (drop 1 q)" if "c = 93"
      using rest_ok_mono [OF rest_ok_drop [OF x(2) c]] that by simp
    consider "c = 44" | "c = 58" | "c = 93" | "c \<noteq> 44" "c \<noteq> 58" "c \<noteq> 93" by blast
    then show ?case
      using x c 2(1,2) list_ok [OF root x(2) _ 2(1) assms(4)] index_slice_ok [OF root x(2) _ 2(1)]
        path_fail_ok [OF root 2(1)] tl
      by cases (auto intro!: e step_ok_ok parsed_okI)
  qed
qed

lemma bracket_ok:
  assumes root: "list_all node_ok root" and "c_strlen p = Some (Suc n)" "\<not> frozen w" "n < 2 ^ 30"
  shows "step_ok w (parsed n) (compile_bracket junk root p w)"
proof -
  have p1: "c_strlen (drop 1 p) = Some n" using strlen_drop [OF assms(2), of 1] by simp
  obtain b where b: "match_at (drop 1 p) [42, 93] = Some b" "b \<longrightarrow> 2 \<le> n"
    using match_at_total [OF p1, of "[42, 93]"] by auto
  obtain c where c: "rd p 1 = Some c" using strlen_rd [OF assms(2), of 1] by auto
  show ?thesis
  proof (cases b)
    case True
    then have "c_strlen (drop 3 p) = Some (n - 2)" using b(2) strlen_drop [OF assms(2), of 3] by simp
    then show ?thesis
      using True b(1) c assms(3)
      by (auto simp: compile_bracket_def rest_ok_def intro!: step_ok_ok parsed_okI exI [of _ "n - 2"])
  next
    case False
    then show ?thesis
      using b(1) c quote_ok [OF root assms(2) _ assms(3)] slice_ok [OF root assms(2) _ assms(3)]
        index_ok [OF root assms(2-4)]
      by (simp add: compile_bracket_def)
  qed
qed

lemma compile_node_ok:
  assumes root: "list_all node_ok root" and "c_strlen p = Some (Suc n)" "\<not> frozen w" "n < 2 ^ 30"
  shows "step_ok w (parsed n) (compile_node junk root p w)"
proof -
  obtain c where c: "rd p 0 = Some c" using strlen_rd [OF assms(2), of 0] by auto
  then show ?thesis
    using dot_ok [OF root assms(2,3)] bracket_ok [OF root assms(2-4)]
    by (auto simp: compile_node_def intro: path_fail_ok [OF root assms(3)])
qed

section \<open>The compiler as a whole\<close>

text \<open>A compiled path starts with its only root, its parts are well-formed, and recursive descent is
  never the last node, so that the matcher can look at the node behind it.\<close>

fun descents_ok :: "pcl_json_path \<Rightarrow> bool" where
  "descents_ok [] \<longleftrightarrow> True"
| "descents_ok (nd # ns) \<longleftrightarrow> (nd = PathRecursiveDescent \<longrightarrow> ns \<noteq> []) \<and> descents_ok ns"

definition path_ok :: "pcl_json_path \<Rightarrow> bool" where
  "path_ok path \<longleftrightarrow> list_all node_ok path \<and> descents_ok path
     \<and> (\<exists>ns. path = PathRoot # ns \<and> ns \<noteq> [] \<and> PathRoot \<notin> set ns)"

lemma descents_append:
  "descents_ok (xs @ ys) \<longleftrightarrow> (if ys = [] then descents_ok xs else descents_ok (xs @ [PathRoot]) \<and> descents_ok ys)"
  by (induction xs) auto

lemma reverse_loop_rev: "reverse_loop prev path = rev path @ prev"
  by (induction path arbitrary: prev) auto

text \<open>The nodes built so far, newest first; the one that is still open is followed by a dot.\<close>

definition building :: "pcl_json_path \<Rightarrow> byte list \<Rightarrow> bool" where
  "building root p \<longleftrightarrow> list_all node_ok root \<and> (\<exists>ns. root = ns @ [PathRoot] \<and> PathRoot \<notin> set ns)
     \<and> descents_ok (rev root @ [PathRoot]) \<and> (hd root = PathRecursiveDescent \<longrightarrow> rd p 0 = Some 46)"

lemma building_next:
  assumes "building root p" "parsed n (nd, p1)"
  shows "building (nd # root) p1"
proof -
  have "descents_ok (rev root @ [nd, PathRoot])"
    using assms(1) descents_append [of "rev root" "[nd, PathRoot]"] by (simp add: building_def)
  then show ?thesis using assms by (auto simp: building_def parsed_def intro: exI [of _ "nd # _"])
qed

lemma building_done:
  assumes "building root p" "length root \<noteq> 1" "rd p 0 = Some 0"
  shows "path_ok (reverse_loop [] root)"
proof -
  obtain ns where ns: "root = ns @ [PathRoot]" "PathRoot \<notin> set ns" using assms(1) by (auto simp: building_def)
  then obtain nd ms where nd: "ns = nd # ms" "nd \<noteq> PathRecursiveDescent"
    using assms by (cases ns) (auto simp: building_def)
  have "descents_ok ((PathRoot # rev ms) @ [nd, PathRoot])"
    using assms(1) ns nd by (simp add: building_def)
  then have "descents_ok ((PathRoot # rev ms) @ [nd])"
    using nd(2) by (subst (asm) descents_append, subst descents_append) auto
  then show ?thesis
    using assms(1) ns nd by (simp add: path_ok_def building_def reverse_loop_rev)
qed

lemma compile_loop_ok:
  "c_strlen p = Some n \<Longrightarrow> n < 2 ^ 30 \<Longrightarrow> building root p \<Longrightarrow> n = 0 \<longrightarrow> length root \<noteq> 1 \<Longrightarrow> \<not> frozen w \<Longrightarrow>
   step_ok w (\<lambda>ns. path_ok (reverse_loop [] ns)) (compile_loop junk root p w)"
proof (induction n arbitrary: p root w rule: less_induct)
  case (less n)
  obtain c where c: "rd p 0 = Some c" "c = 0 \<longleftrightarrow> n = 0" using strlen_rd [OF less.prems(1), of 0] by auto
  show ?case
  proof (cases "c = 0")
    case True
    then show ?thesis
      using c less.prems building_done [OF less.prems(3)]
      by (subst compile_loop.simps) (auto intro: step_ok_ok)
  next
    case False
    then obtain m where m: "n = Suc m" using c by (cases n) auto
    have root: "list_all node_ok root" using less.prems(3) by (simp add: building_def)
    have "c_strlen p = Some (Suc m)" "m < 2 ^ 30" using less.prems(1,2) m by simp_all
    note nd = compile_node_ok [OF root this(1) less.prems(5) this(2), of junk]
    have nz: "length (x # root) \<noteq> 1" for x using less.prems(3) by (auto simp: building_def)
    have "step_ok w (\<lambda>ns. path_ok (reverse_loop [] ns))
      (Option.bind (compile_node junk root p w) (\<lambda>(r, w1). case r of
         None \<Rightarrow> Some (None, w1)
       | Some (node, p1) \<Rightarrow> compile_loop junk (node # root) p1 w1))"
    proof (rule step_ok_opt_bind [OF nd], goal_cases)
      case (2 x w')
      obtain node p1 where x: "x = (node, p1)" by (cases x)
      then obtain k where k: "k \<le> m" "c_strlen p1 = Some k" using 2(3) by (auto simp: parsed_def rest_ok_def)
      have "step_ok w' (\<lambda>ns. path_ok (reverse_loop [] ns)) (compile_loop junk (node # root) p1 w')"
        using less.IH [of k p1 "node # root" w'] k m less.prems(2) 2 x nz building_next [OF less.prems(3)]
        by auto
      then show ?case using x 2(2) step_ok_err by auto
    qed (auto intro: step_ok_fail)
    then show ?thesis using c(1) False by (subst compile_loop.simps) simp
  qed
qed

lemma compile_total:
  assumes "c_strlen path = Some n" "n < 2 ^ 30" "\<not> frozen w"
  shows "step_ok w path_ok (pcl_json_compile junk (Some path) w)"
proof -
  have "\<exists>k. pcl_strskipws c_isspace path = Some k \<and> k \<le> n"
    using assms(1)
  proof (induction path arbitrary: n)
    case (Cons c path)
    show ?case
    proof (cases "c_isspace c")
      case True
      then have "c \<noteq> 0" by (auto simp: c_isspace_def)
      then obtain m where m: "n = Suc m" "c_strlen path = Some m" using Cons.prems by auto
      from Cons.IH [OF m(2)] show ?thesis using True m(1) by auto
    qed simp
  qed simp
  then obtain k where k: "pcl_strskipws c_isspace path = Some k" "k \<le> n" by blast
  define p where "p = drop k path"
  have p: "c_strlen p = Some (n - k)" unfolding p_def by (rule strlen_drop [OF assms(1) k(2)])
  obtain c where c: "rd p 0 = Some c" "c = 0 \<longleftrightarrow> n - k = 0" using strlen_rd [OF p, of 0] by auto
  have fl: "step_ok w path_ok (Some (R_SETERRMSG None l PCL_ESYNTAX m w))" for l m
    using assms(3) by (simp add: macros_thawed step_ok_fail)
  show ?thesis
  proof (cases "c = 36")
    case False
    then show ?thesis using k c fl by (simp add: pcl_json_compile_def p_def [symmetric])
  next
    case True
    then obtain m where m: "n - k = Suc m" using c by (cases "n - k") auto
    obtain d where d: "rd p 1 = Some d" "d = 0 \<longleftrightarrow> m = 0" using strlen_rd [OF p, of 1] m by auto
    have p1: "c_strlen (drop 1 p) = Some m" "m < 2 ^ 30" using strlen_drop [OF p, of 1] m assms(2) by simp_all
    have b: "building [PathRoot] (drop 1 p)" by (simp add: building_def)
    show ?thesis
    proof (cases "d = 46 \<or> d = 91")
      case False
      then show ?thesis using True k c d fl by (simp add: pcl_json_compile_def p_def [symmetric])
    next
      case dot: True
      then have "m = 0 \<longrightarrow> length [PathRoot] \<noteq> 1" using d by auto
      note loop = compile_loop_ok [OF p1 b this assms(3), of junk]
      have "step_ok w path_ok (Option.bind (compile_loop junk [PathRoot] (drop 1 p) w)
          (\<lambda>(r, w1). Some (map_option (reverse_loop []) r, w1)))"
        by (rule step_ok_opt_bind [OF loop]) (auto intro: step_ok_ok step_ok_fail)
      then show ?thesis
        using True dot k c d by (auto simp: pcl_json_compile_def p_def [symmetric] simp del: reverse_loop.simps)
    qed
  qed
qed

end
