(* ===== verification/PclJsonParse.thy ===== *)
theory PclJsonParse imports PclJsonDom begin

text \<open>
  The JSON decoder (\<open>src/json/json_decode.c\<close>, \<open>json_parse_*.c\<close>, \<open>json_skipws.c\<close>): a recursive descent
  parser over a block of bytes. The parser's pointers are offsets into the block; \<open>next\<close> is read
  without a check against \<open>end\<close> in many places, and a read outside of the block is undefined
  behaviour. The recursion between values, arrays and objects and the loops over their elements
  run on fuel; the loop over the characters of a string is a \<open>partial_function\<close>.
\<close>

section \<open>State\<close>

record json_state =
  jp_next :: int
  jp_end :: int
  jp_ctx :: int
  jp_line :: int

text \<open>\<open>JSON_THROW\<close>: a function that fails answers \<open>NULL\<close>, with the state it got to.\<close>

definition json_throw ::
  "loc \<Rightarrow> string \<Rightarrow> json_state \<Rightarrow> 'r jworld \<Rightarrow> ('a option \<times> json_state \<times> 'r jworld) option" where
  "json_throw l msg st w = Some (None, st, snd (R_SETERRMSG () l PCL_ESYNTAX msg w))"

definition advance :: "int \<Rightarrow> json_state \<Rightarrow> json_state" where
  "advance n st = st\<lparr>jp_next := jp_next st + n\<rparr>"

section \<open>White space\<close>

function skipws_loop :: "byte list \<Rightarrow> json_state \<Rightarrow> (bool \<times> json_state) option" where
  "skipws_loop txt st =
     (if jp_next st < jp_end st
      then Option.bind (rd txt (jp_next st)) (\<lambda>c.
             if \<not> c_isspace c then Some (True, st)
             else if c = 13
             then Option.bind (rd txt (jp_next st + 1)) (\<lambda>d.
                    skipws_loop txt (if d = 10 then (advance 2 st)\<lparr>jp_line := jp_line st + 1\<rparr>
                                     else advance 1 st))
             else if c = 10 then skipws_loop txt ((advance 1 st)\<lparr>jp_line := jp_line st + 1\<rparr>)
             else skipws_loop txt (advance 1 st))
      else Some (False, st))"
  by pat_completeness auto
termination
  by (relation "measure (\<lambda>(txt, st). nat (jp_end st - jp_next st))") (auto simp: advance_def)

declare skipws_loop.simps [simp del]

definition ipcl_json_skipws ::
  "byte list \<Rightarrow> json_state \<Rightarrow> 'r jworld \<Rightarrow> (bool \<times> json_state \<times> 'r jworld) option" where
  "ipcl_json_skipws txt st w =
     do { (found, st1) \<leftarrow> skipws_loop txt st;
          if found then Some (True, st1, w)
          else Some (False, st1, snd (R_SETERRMSG () (''json_skipws.c'', ''ipcl_json_skipws'', 57)
                 PCL_ESYNTAX ''unexpected end of input'' w)) }"

section \<open>Numbers\<close>

definition with_char :: "string \<Rightarrow> byte \<Rightarrow> string" where
  "with_char s c = s @ [CHR 0x27, char_of (unat c), CHR 0x27]"

text \<open>The loop over the characters of a number: the line and message of an error, or its end and
  whether it has an exponent and a decimal point.\<close>

function num_scan ::
  "byte list \<Rightarrow> int \<Rightarrow> int \<Rightarrow> bool \<Rightarrow> bool \<Rightarrow> bool \<Rightarrow> ((int \<times> string) + (int \<times> bool \<times> bool)) option" where
  "num_scan txt ende p expo dec expsign =
     (if p < ende
      then Option.bind (rd txt p) (\<lambda>c.
             if c = 101 \<or> c = 69
             then if expo then Some (Inl (55, with_char ''invalid number format: multiple exponents '' c))
                  else num_scan txt ende (p + 1) True dec expsign
             else if c = 46
             then if dec then Some (Inl (62, ''invalid number format: multiple decimal signs''))
                  else num_scan txt ende (p + 1) expo True expsign
             else if c = 45 \<or> c = 43
             then if \<not> expo
                  then Some (Inl (69, ''invalid number format: sign '' @ with_char [] c @ '' in wrong position''))
                  else if expsign then Some (Inl (72, ''invalid number format: multiple exponent signs''))
                  else num_scan txt ende (p + 1) expo dec True
             else if c < 48 \<or> c > 57 then Some (Inr (p, expo, dec))
             else num_scan txt ende (p + 1) expo dec expsign)
      else Some (Inr (p, expo, dec)))"
  by pat_completeness auto
termination
  by (relation "measure (\<lambda>(txt, ende, p, _). nat (ende - p))") auto

declare num_scan.simps [simp del]

definition ipcl_json_parse_number ::
  "'r json_lib \<Rightarrow> byte list \<Rightarrow> json_state \<Rightarrow>
     'r jworld \<Rightarrow> (nat option \<times> json_state \<times> 'r jworld) option" where
  "ipcl_json_parse_number L txt st w =
     (let throw = (\<lambda>line msg w. json_throw (''json_parse_number.c'', ''ipcl_json_parse_number'', line) msg st w)
      in do { c0 \<leftarrow> rd txt (jp_next st);
              res \<leftarrow> num_scan txt (jp_end st) (jp_next st + (if c0 = 45 then 1 else 0)) False False False;
              case res of
                Inl (line, msg) \<Rightarrow> throw line msg w
              | Inr (p, expo, dec) \<Rightarrow>
                  if p = jp_end st then throw 84 ''unexpected end of input parsing number'' w
                  else do { zero \<leftarrow> (if c0 = 48 then map_option c_isdigit (rd txt (jp_next st + 1))
                                    else Some False);
                            if zero then throw 87 ''invalid number value: begins with 0'' w
                            else if expo \<or> dec
                            then do { (num, k, e) \<leftarrow> jl_strtod L (drop (nat (jp_next st)) txt);
                                      let w1 = w\<lparr>c_errno := e\<rparr>;
                                      if e \<noteq> 0 \<and> \<not> jl_zero L num
                                      then Some (None, st, snd (pcl_err_set (Some ''json_parse_number.c'')
                                             (Some ''ipcl_json_parse_number'') 101 (pcl_err_os2pcl e) 0
                                             (Some ''invalid number value'') w1))
                                      else if k = 0 then throw 107 ''invalid number value: no digits found'' w1
                                      else do { (v, w2) \<leftarrow> pcl_json_real L num w1;
                                                Some (v, advance (int k) st, w2) } }
                            else do { (r, en, no, w1) \<leftarrow> pcl_strtoll (Some (drop (nat (jp_next st)) txt)) 10 w;
                                      if r < 0
                                      then Some (None, st, snd (R_TRC () (''json_parse_number.c'',
                                             ''ipcl_json_parse_number'', 116) w1))
                                      else do { n \<leftarrow> no;
                                                (v, w2) \<leftarrow> pcl_json_int n w1;
                                                endp \<leftarrow> en;
                                                k \<leftarrow> endp;
                                                Some (v, advance (int k) st, w2) } } } })"

section \<open>Strings\<close>

definition printed :: "byte list \<Rightarrow> string" where
  "printed s = map (\<lambda>b. char_of (unat b)) (takeWhile (\<lambda>b. b \<noteq> 0) s)"

text \<open>The four digits after \<open>\u\<close>, copied and converted with base 16.\<close>

definition hex2num ::
  "byte list \<Rightarrow> json_state \<Rightarrow> 'r jworld \<Rightarrow> (32 word option \<times> json_state \<times> 'r jworld) option" where
  "hex2num txt st w =
     do { ds \<leftarrow> mem_read txt (jp_next st) 4;
          let num = ds @ [0];
          (r, en, no, w1) \<leftarrow> pcl_strtoi (Some num) 16 w;
          if r < 0
          then Some (None, st, snd (R_TRCMSG () (''json_parse_string.c'', ''hex2num'', 45)
                 (''parsing '' @ [CHR 0x5C] @ ''u sequence '' @ [CHR 0x27] @ printed num @ [CHR 0x27]) w1))
          else do { endp \<leftarrow> en;
                    k \<leftarrow> endp;
                    c \<leftarrow> rd num (int k);
                    if c \<noteq> 0
                    then json_throw (''json_parse_string.c'', ''hex2num'', 49)
                           (''invalid unicode character: '' @ [CHR 0x27] @ printed num @ [CHR 0x27]) st w1
                    else do { n \<leftarrow> no; Some (Some (word_of_int n), advance 4 st, w1) } } }"

text \<open>Storing a code point behind the content of the buffer, without a NUL.\<close>

definition buf_put_code ::
  "'r json_lib \<Rightarrow> 32 word \<Rightarrow> pcl_buf \<Rightarrow> 'r jworld \<Rightarrow> (int \<times> pcl_buf \<times> 'r jworld) option" where
  "buf_put_code L code b w =
     do { (bo, w1) \<leftarrow> pcl_buf_grow (jl_junk L) (Some b) 4 w;
          b1 \<leftarrow> bo;
          bs \<leftarrow> (case bf_data b1 of Blk bs \<Rightarrow> Some bs | _ \<Rightarrow> None);
          at \<leftarrow> mem_read bs 0 (nat (bf_pos b1));
          (n, out, w2) \<leftarrow> pcl_utf8_encode code (Some (drop (nat (bf_pos b1)) bs)) w1;
          bs1 \<leftarrow> out;
          if n = -1 then Some (n, b1\<lparr>bf_data := Blk (at @ bs1)\<rparr>, w2)
          else do { pos \<leftarrow> cint (bf_pos b1 + n);
                    len \<leftarrow> cint (bf_len b1 + n);
                    Some (n, b1\<lparr>bf_data := Blk (at @ bs1), bf_pos := pos, bf_len := len\<rparr>, w2) } }"

definition utf16_to_utf8 ::
  "'r json_lib \<Rightarrow> byte list \<Rightarrow> json_state \<Rightarrow> pcl_buf \<Rightarrow> 'r jworld \<Rightarrow>
     (bool \<times> json_state \<times> pcl_buf \<times> 'r jworld) option" where
  "utf16_to_utf8 L txt st b w =
     (let fail = (\<lambda>line msg st w. do { (_, st1, w1) \<leftarrow> json_throw (''json_parse_string.c'', ''utf16_to_utf8'', line)
                                          msg st w :: (unit option \<times> json_state \<times> 'r jworld) option;
                                       Some (False, st1, b, w1) });
          emit = (\<lambda>code st w. do { (n, b1, w1) \<leftarrow> buf_put_code L code b w;
                                   if n = -1
                                   then Some (False, st, b1, snd (R_TRC () (''json_parse_string.c'', ''utf16_to_utf8'', 104) w1))
                                   else Some (True, st, b1, w1) })
      in if jp_end st - jp_next st < 4
         then fail 69 (''unexpected end of input: '' @ [CHR 0x5C] @ ''u0000 encoding missing digits'') st w
         else do { (p0, st1, w1) \<leftarrow> hex2num txt st w;
                   case p0 of
                     None \<Rightarrow> Some (False, st1, b, w1)
                   | Some pair0 \<Rightarrow>
                       if pair0 \<ge> 0xD800 \<and> pair0 \<le> 0xDBFF
                       then if jp_end st1 - jp_next st1 < 6
                            then fail 78 (''unexpected end of input: '' @ [CHR 0x5C] @ ''u0000 encoding missing digits'') st1 w1
                            else do { c0 \<leftarrow> rd txt (jp_next st1);
                                      c1 \<leftarrow> rd txt (jp_next st1 + 1);
                                      if c0 \<noteq> 92 \<or> c1 \<noteq> 117
                                      then fail 81 (''invalid unicode character: missing UTF-16 surrogate ''
                                             @ [CHR 0x27] @ printed (take 12 (drop (nat (jp_next st1 - 6)) txt)) @ [CHR 0x27]) st1 w1
                                      else do { (p1, st2, w2) \<leftarrow> hex2num txt (advance 2 st1) w1;
                                                case p1 of
                                                  None \<Rightarrow> Some (False, st2, b, w2)
                                                | Some pair1 \<Rightarrow>
                                                    if pair1 < 0xDC00 \<or> pair1 > 0xDFFF
                                                    then fail 90 (''invalid unicode character: surrogate ''
                                                           @ [CHR 0x27] @ printed (take 6 (drop (nat (jp_next st2 - 6)) txt)) @ [CHR 0x27]) st2 w2
                                                    else emit (0x10000 + push_bit 10 (pair0 AND 0x03FF)
                                                                + (pair1 AND 0x03FF)) st2 w2 } }
                       else emit pair0 st1 w1 })"

definition simple_escape :: "byte \<Rightarrow> byte option" where
  "simple_escape c =
     (if c = 92 \<or> c = 47 \<or> c = 34 then Some c
      else if c = 110 then Some 10
      else if c = 114 then Some 13
      else if c = 98 then Some 8
      else if c = 102 then Some 12
      else if c = 116 then Some 9
      else None)"

text \<open>The loop over the characters: \<open>True\<close> when it ends at a quote or at the NUL, \<open>False\<close> when the
  function answers \<open>NULL\<close>. It does not look at \<open>end\<close>.\<close>

partial_function (option) str_loop ::
  "'r json_lib \<Rightarrow> byte list \<Rightarrow> json_state \<Rightarrow> pcl_buf \<Rightarrow> 'r jworld \<Rightarrow>
     (bool \<times> json_state \<times> pcl_buf \<times> 'r jworld) option" where
  "str_loop L txt st b w =
     Option.bind (rd txt (jp_next st)) (\<lambda>c.
       if c = 0 \<or> c = 34 then Some (True, st, b, w)
       else if c \<noteq> 92
       then Option.bind (pcl_buf_putchar (jl_junk L) (Some b) (scast c) w) (\<lambda>res.
              Option.bind (fst (snd res)) (\<lambda>b1. str_loop L txt (advance 1 st) b1 (snd (snd res))))
       else Option.bind (rd txt (jp_next st + 1)) (\<lambda>e.
              if simple_escape e \<noteq> None
              then Option.bind (pcl_buf_putchar (jl_junk L) (Some b) (scast (the (simple_escape e))) w) (\<lambda>res.
                     Option.bind (fst (snd res)) (\<lambda>b1. str_loop L txt (advance 2 st) b1 (snd (snd res))))
              else if e = 117
              then Option.bind (utf16_to_utf8 L txt (advance 2 st) b w) (\<lambda>res.
                     if fst res
                     then str_loop L txt (fst (snd res)) (fst (snd (snd res))) (snd (snd (snd res)))
                     else Some res)
              else Option.bind (json_throw (''json_parse_string.c'', ''ipcl_json_parse_string'', 180)
                     (''invalid escape sequence within string '' @ [CHR 0x5C, char_of (unat e)]) (advance 1 st) w
                     :: (unit option \<times> json_state \<times> 'r jworld) option) (\<lambda>res.
                       Some (False, fst (snd res), b, snd (snd res)))))"

declare str_loop.simps [code]

definition ipcl_json_parse_string ::
  "'r json_lib \<Rightarrow> byte list \<Rightarrow> json_state \<Rightarrow> 'r jworld \<Rightarrow>
     (byte list option \<times> json_state \<times> 'r jworld) option" where
  "ipcl_json_parse_string L txt st w =
     do { c \<leftarrow> rd txt (jp_next st);
          if c \<noteq> 34
          then json_throw (''json_parse_string.c'', ''ipcl_json_parse_string'', 116) ''expected opening quote'' st w
          else do { (bo, w1) \<leftarrow> pcl_buf_init (jl_junk L) None 32 (buf_mode_code PclBufText) w;
                    b \<leftarrow> bo;
                    (done, st1, b1, w2) \<leftarrow> str_loop L txt ((advance 1 st)\<lparr>jp_ctx := jp_next st\<rparr>) b w1;
                    if \<not> done then Some (None, st1, w2)
                    else do { q \<leftarrow> rd txt (jp_next st1);
                              if q \<noteq> 34
                              then json_throw (''json_parse_string.c'', ''ipcl_json_parse_string'', 187)
                                     ''expected closing double quote'' st1 w2
                              else do { bs \<leftarrow> (case bf_data b1 of Blk bs \<Rightarrow> Some bs | _ \<Rightarrow> None);
                                        (r, w3) \<leftarrow> pcl_utf8_check bs (nat (bf_len b1)) w2;
                                        if r < 0
                                        then Some (None, advance 1 st1, snd (R_TRC () (''json_parse_string.c'',
                                               ''ipcl_json_parse_string'', 194) w3))
                                        else Some (Some bs, advance 1 st1, w3) } } } }"

section \<open>Values, arrays and objects\<close>

text \<open>\<open>s->end - s->next < n || strncmp(s->next + 1, rest, n - 1) != 0\<close>, negated.\<close>

definition json_literal :: "byte list \<Rightarrow> json_state \<Rightarrow> byte list \<Rightarrow> bool option" where
  "json_literal txt st word_rest =
     (if jp_end st - jp_next st < int (length word_rest) + 1 then Some False
      else strn_equal (\<lambda>c. c) (drop (nat (jp_next st + 1)) txt) (word_rest @ [0]) (length word_rest))"

definition parse_literal ::
  "byte list \<Rightarrow> json_state \<Rightarrow> byte list \<Rightarrow> int \<Rightarrow> nat \<Rightarrow> 'r jworld \<Rightarrow>
     (nat option \<times> json_state \<times> 'r jworld) option" where
  "parse_literal txt st word_rest line val w =
     do { good \<leftarrow> json_literal txt st word_rest;
          if good then Some (Some val, advance (int (length word_rest) + 1) st, w)
          else json_throw (''json_parse_value.c'', ''ipcl_json_parse_value'', line) ''invalid json value'' st w }"

text \<open>\<open>pcl_json_free(container)\<close> on the way to a failure.\<close>

definition drop_container ::
  "'r json_lib \<Rightarrow> nat \<Rightarrow> (nat option \<times> json_state \<times> 'r jworld) option \<Rightarrow>
     (nat option \<times> json_state \<times> 'r jworld) option" where
  "drop_container L p res =
     do { (_, st, w) \<leftarrow> res; w1 \<leftarrow> pcl_json_free (jl_depth L) (Some p) w; Some (None, st, w1) }"

text \<open>The bodies of the functions, with the functions they call as arguments.\<close>

definition parse_value_body ::
  "(json_state \<Rightarrow> 'r jworld \<Rightarrow> (nat option \<times> json_state \<times> 'r jworld) option) \<Rightarrow>
     (json_state \<Rightarrow> 'r jworld \<Rightarrow> (nat option \<times> json_state \<times> 'r jworld) option) \<Rightarrow> 'r json_lib \<Rightarrow> byte list \<Rightarrow> json_state \<Rightarrow>
     'r jworld \<Rightarrow> (nat option \<times> json_state \<times> 'r jworld) option" where
  "parse_value_body object array L txt st w =
     do { (found, st1, w1) \<leftarrow> ipcl_json_skipws txt (st\<lparr>jp_ctx := jp_next st\<rparr>) w;
          if \<not> found then Some (None, st1, w1)
          else do { let st2 = st1\<lparr>jp_ctx := jp_next st1\<rparr>;
                    c \<leftarrow> rd txt (jp_next st2);
                    if c = 123 then object st2 w1
                    else if c = 91 then array st2 w1
                    else if c = 34
                    then do { (str, st3, w2) \<leftarrow> ipcl_json_parse_string L txt st2 w1;
                              if str = None then Some (None, st3, w2)
                              else do { (val, w3) \<leftarrow> pcl_json_str str
                                          (PCL_JSON_SKIPUTF8CHK OR PCL_JSON_SHALLOW) w2;
                                        Some (val, st3, w3) } }
                    else if c = 116 then parse_literal txt st2 (str_bytes ''rue'') 79 pcl_json_true w1
                    else if c = 102 then parse_literal txt st2 (str_bytes ''alse'') 89 pcl_json_false w1
                    else if c = 110 then parse_literal txt st2 (str_bytes ''ull'') 99 pcl_json_null w1
                    else if c = 45 \<or> c_isdigit c then ipcl_json_parse_number L txt st2 w1
                    else json_throw (''json_parse_value.c'', ''ipcl_json_parse_value'', 124)
                           ''expected json value'' st2 w1 } }"

definition parse_array_body ::
  "(nat \<Rightarrow> json_state \<Rightarrow> 'r jworld \<Rightarrow> (nat option \<times> json_state \<times> 'r jworld) option) \<Rightarrow> 'r json_lib \<Rightarrow> byte list \<Rightarrow> json_state \<Rightarrow>
     'r jworld \<Rightarrow> (nat option \<times> json_state \<times> 'r jworld) option" where
  "parse_array_body loop L txt st w =
     do { c \<leftarrow> rd txt (jp_next st);
          if c \<noteq> 91
          then json_throw (''json_parse_array.c'', ''ipcl_json_parse_array'', 38)
                 (''expected opening array '' @ [CHR 0x27, CHR ''['', CHR 0x27]) (advance 1 st) w
          else do { (_, st1, w1) \<leftarrow> ipcl_json_skipws txt (advance 1 st) w;
                    let st2 = st1\<lparr>jp_ctx := jp_next st1\<rparr>;
                    (ao, w2) \<leftarrow> pcl_json_arr w1;
                    a \<leftarrow> ao;
                    d \<leftarrow> rd txt (jp_next st2);
                    if d = 93 then Some (Some a, advance 1 st2, w2)
                    else loop a st2 w2 } }"

definition array_loop_body ::
  "(json_state \<Rightarrow> 'r jworld \<Rightarrow> (nat option \<times> json_state \<times> 'r jworld) option) \<Rightarrow>
     (nat \<Rightarrow> json_state \<Rightarrow> 'r jworld \<Rightarrow> (nat option \<times> json_state \<times> 'r jworld) option) \<Rightarrow> 'r json_lib \<Rightarrow> byte list \<Rightarrow> nat \<Rightarrow> json_state \<Rightarrow> 'r jworld \<Rightarrow>
     (nat option \<times> json_state \<times> 'r jworld) option" where
  "array_loop_body value loop L txt a st w =
     do { (vo, st1, w1) \<leftarrow> value st w;
          if vo = None then drop_container L a (Some (None, st1, w1))
          else do { (r, w2) \<leftarrow> pcl_json_arradd L (Some a) vo PCL_JSON_FREEVALONERR w1;
                    if r < 0
                    then do { w3 \<leftarrow> pcl_json_free (jl_depth L) (Some a) w2;
                              Some (None, st1, snd (R_TRCMSG () (''json_parse_array.c'',
                                ''ipcl_json_parse_array'', 65) ''failed to add value to array'' w3)) }
                    else do { (found, st2, w3) \<leftarrow> ipcl_json_skipws txt st1 w2;
                              if \<not> found then drop_container L a (Some (None, st2, w3))
                              else do { c \<leftarrow> rd txt (jp_next st2);
                                        if c = 93 then Some (Some a, advance 1 st2, w3)
                                        else if c \<noteq> 44
                                        then do { w4 \<leftarrow> pcl_json_free (jl_depth L) (Some a) w3;
                                                  json_throw (''json_parse_array.c'', ''ipcl_json_parse_array'', 83)
                                                    ''missing comma after value'' (advance 1 st2) w4 }
                                        else do { (found1, st3, w4) \<leftarrow> ipcl_json_skipws txt (advance 1 st2) w3;
                                                  if \<not> found1 then drop_container L a (Some (None, st3, w4))
                                                  else if jp_next st3 < jp_end st3
                                                  then loop a st3 w4
                                                  else do { w5 \<leftarrow> pcl_json_free (jl_depth L) (Some a) w4;
                                                            json_throw (''json_parse_array.c'',
                                                              ''ipcl_json_parse_array'', 95)
                                                              ''unexpected end of input'' st3 w5 } } } } } }"

definition parse_object_body ::
  "(nat \<Rightarrow> json_state \<Rightarrow> 'r jworld \<Rightarrow> (nat option \<times> json_state \<times> 'r jworld) option) \<Rightarrow> 'r json_lib \<Rightarrow> byte list \<Rightarrow> json_state \<Rightarrow>
     'r jworld \<Rightarrow> (nat option \<times> json_state \<times> 'r jworld) option" where
  "parse_object_body loop L txt st w =
     do { c \<leftarrow> rd txt (jp_next st);
          if c \<noteq> 123
          then json_throw (''json_parse_object.c'', ''ipcl_json_parse_object'', 40)
                 (''expected opening object '' @ [CHR 0x27, CHR 0x7B, CHR 0x27]) (advance 1 st) w
          else do { (found, st1, w1) \<leftarrow> ipcl_json_skipws txt (advance 1 st) w;
                    if \<not> found then Some (None, st1, w1)
                    else do { let st2 = st1\<lparr>jp_ctx := jp_next st1\<rparr>;
                              (oo, w2) \<leftarrow> pcl_json_obj L w1;
                              ob \<leftarrow> oo;
                              d \<leftarrow> rd txt (jp_next st2);
                              if d = 125 then Some (Some ob, advance 1 st2, w2)
                              else loop ob st2 w2 } } }"

definition object_rest_body ::
  "(nat \<Rightarrow> json_state \<Rightarrow> 'r jworld \<Rightarrow> (nat option \<times> json_state \<times> 'r jworld) option) \<Rightarrow> 'r json_lib \<Rightarrow> byte list \<Rightarrow> nat \<Rightarrow> json_state \<Rightarrow> 'r jworld \<Rightarrow>
     (nat option \<times> json_state \<times> 'r jworld) option" where
  "object_rest_body loop L txt ob st w =
     do { c \<leftarrow> rd txt (jp_next st);
          if c = 125 then Some (Some ob, advance 1 st, w)
          else if c \<noteq> 44
          then do { w1 \<leftarrow> pcl_json_free (jl_depth L) (Some ob) w;
                    json_throw (''json_parse_object.c'', ''ipcl_json_parse_object'', 113)
                      ''missing comma after value'' (advance 1 st) w1 }
          else do { (found, st1, w1) \<leftarrow> ipcl_json_skipws txt (advance 1 st) w;
                    if \<not> found then drop_container L ob (Some (None, st1, w1))
                    else if jp_next st1 < jp_end st1 then loop ob st1 w1
                    else do { w2 \<leftarrow> pcl_json_free (jl_depth L) (Some ob) w1;
                              json_throw (''json_parse_object.c'', ''ipcl_json_parse_object'', 125)
                                ''unexpected end of input'' st1 w2 } } }"

definition object_loop_body ::
  "(json_state \<Rightarrow> 'r jworld \<Rightarrow> (nat option \<times> json_state \<times> 'r jworld) option) \<Rightarrow>
     (nat \<Rightarrow> json_state \<Rightarrow> 'r jworld \<Rightarrow> (nat option \<times> json_state \<times> 'r jworld) option) \<Rightarrow> 'r json_lib \<Rightarrow> byte list \<Rightarrow> nat \<Rightarrow> json_state \<Rightarrow> 'r jworld \<Rightarrow>
     (nat option \<times> json_state \<times> 'r jworld) option" where
  "object_loop_body value loop L txt ob st w =
     do { (key, st1, w1) \<leftarrow> ipcl_json_parse_string L txt st w;
          if key = None then drop_container L ob (Some (None, st1, w1))
          else do { (found, st2, w2) \<leftarrow> ipcl_json_skipws txt st1 w1;
                    if \<not> found then drop_container L ob (Some (None, st2, w2))
                    else do { c \<leftarrow> rd txt (jp_next st2);
                              if c \<noteq> 58
                              then do { w3 \<leftarrow> pcl_json_free (jl_depth L) (Some ob) w2;
                                        json_throw (''json_parse_object.c'', ''ipcl_json_parse_object'', 77)
                                          (''expected value '' @ [CHR 0x27, CHR '':'', CHR 0x27] @ '' separator'')
                                          (advance 1 st2) w3 }
                              else do { (vo, st3, w3) \<leftarrow> value (advance 1 st2) w2;
                                        if vo = None then drop_container L ob (Some (None, st3, w3))
                                        else do { (r, w4) \<leftarrow> pcl_json_objput L (Some ob) key vo
                                                    (PCL_JSON_SKIPUTF8CHK OR PCL_JSON_SHALLOW OR PCL_JSON_FREEVALONERR) w3;
                                                  if r < 0 then drop_container L ob (Some (None, st3, w4))
                                                  else do { (found1, st4, w5) \<leftarrow> ipcl_json_skipws txt st3 w4;
                                                            if \<not> found1
                                                            then drop_container L ob (Some (None, st4, w5))
                                                            else object_rest_body loop L txt ob st4 w5 } } } } } }"

text \<open>The recursion: what is parsed next, with the container a loop fills.\<close>

datatype json_job = JobValue | JobArray | JobArrayLoop nat | JobObject | JobObjectLoop nat

primrec json_parse ::
  "nat \<Rightarrow> 'r json_lib \<Rightarrow> byte list \<Rightarrow> json_job \<Rightarrow> json_state \<Rightarrow> 'r jworld \<Rightarrow>
     (nat option \<times> json_state \<times> 'r jworld) option" where
  "json_parse 0 L txt job st w = None"
| "json_parse (Suc n) L txt job st w =
     (case job of
        JobValue \<Rightarrow> parse_value_body (json_parse n L txt JobObject) (json_parse n L txt JobArray) L txt st w
      | JobArray \<Rightarrow> parse_array_body (\<lambda>a. json_parse n L txt (JobArrayLoop a)) L txt st w
      | JobArrayLoop a \<Rightarrow> array_loop_body (json_parse n L txt JobValue)
          (\<lambda>a. json_parse n L txt (JobArrayLoop a)) L txt a st w
      | JobObject \<Rightarrow> parse_object_body (\<lambda>ob. json_parse n L txt (JobObjectLoop ob)) L txt st w
      | JobObjectLoop ob \<Rightarrow> object_loop_body (json_parse n L txt JobValue)
          (\<lambda>ob. json_parse n L txt (JobObjectLoop ob)) L txt ob st w)"

definition ipcl_json_parse_value ::
  "nat \<Rightarrow> 'r json_lib \<Rightarrow> byte list \<Rightarrow> json_state \<Rightarrow>
     'r jworld \<Rightarrow> (nat option \<times> json_state \<times> 'r jworld) option" where
  "ipcl_json_parse_value n L txt st w = json_parse n L txt JobValue st w"

section \<open>Decoding a text\<close>

text \<open>The up to twenty bytes of context that an error shows, with control characters escaped.\<close>

definition ctx_escape :: "byte \<Rightarrow> byte list" where
  "ctx_escape c =
     (if c = 12 then [92, 102] else if c = 9 then [92, 116] else if c = 13 then [92, 114]
      else if c = 10 then [92, 110] else if c = 8 then [92, 98] else [c])"

definition pcl_json_decode ::
  "nat \<Rightarrow> 'r json_lib \<Rightarrow> byte list option \<Rightarrow> nat \<Rightarrow> 'r jworld \<Rightarrow>
     (nat option \<times> int option \<times> 'r jworld) option" where
  "pcl_json_decode fuel L jsono len w =
     (let loc = (\<lambda>line. (''json_decode.c'', ''pcl_json_decode'', line));
          fails = (\<lambda>w. Some (None, None, w));
          empty = (\<lambda>line. fails (snd (R_SETERRMSG () (loc line) PCL_EINVAL ''empty json string'' w)))
      in case jsono of
           None \<Rightarrow> fails (snd (R_SETERR () (loc 40) PCL_EINVAL w))
         | Some json \<Rightarrow>
             do { len1 \<leftarrow> (if len = 0 then c_strlen json else Some len);
                  if len1 = 0 then empty 46
                  else do { mark \<leftarrow> (if len1 \<ge> 3 then map_option (\<lambda>b. b = [0xEF, 0xBB, 0xBF]) (mem_read json 0 3)
                                    else Some False);
                            let bom = (if mark then 3 else 0);
                            let len2 = len1 - bom;
                            if len2 = 0 then empty 56
                            else do { let txt = drop bom json;
                                      (val, st, w1) \<leftarrow> ipcl_json_parse_value fuel L txt
                                        \<lparr>jp_next = 0, jp_end = int len2, jp_ctx = 0, jp_line = 1\<rparr> w;
                                      if val \<noteq> None then Some (val, Some (int bom + jp_next st), w1)
                                      else do { ctx \<leftarrow> mem_read txt (jp_ctx st)
                                                  (if jp_ctx st \<le> jp_end st
                                                   then min (nat (jp_end st - jp_ctx st)) 20 else 20);
                                                fails (snd (R_TRCMSG () (loc 119)
                                                  (''line='' @ int_dec (jp_line st) @ '', context=''
                                                   @ printed (concat (map ctx_escape ctx))) w1)) } } } })"

end
