(* ===== verification/PclJsonEncode.thy ===== *)
theory PclJsonEncode imports PclJsonDom begin

text \<open>
  The JSON encoder (\<open>src/json/json_encode*.c\<close>): a value is written into a text buffer, optionally
  with line breaks and tabs. The encoders of arrays and objects take the encoder of values as an
  argument; the encoder of values recurses on fuel, since the store may hold a cycle.
\<close>

section \<open>State and output\<close>

record json_encode =
  en_tabs :: int
  en_format :: bool
  en_b :: pcl_buf

type_synonym 'r encoded = "(bool \<times> json_encode \<times> 'r jworld) option"

text \<open>The puts into \<open>enc->b\<close>; their results are not looked at.\<close>

definition enc_buf ::
  "(pcl_buf option \<Rightarrow> 'r jworld \<Rightarrow> (int \<times> pcl_buf option \<times> 'r jworld) option) \<Rightarrow> json_encode \<Rightarrow>
     'r jworld \<Rightarrow> (json_encode \<times> 'r jworld) option" where
  "enc_buf put enc w = do { (_, bo, w1) \<leftarrow> put (Some (en_b enc)) w; b \<leftarrow> bo; Some (enc\<lparr>en_b := b\<rparr>, w1) }"

definition enc_char ::
  "'r json_lib \<Rightarrow> 32 word \<Rightarrow> json_encode \<Rightarrow> 'r jworld \<Rightarrow> (json_encode \<times> 'r jworld) option" where
  "enc_char L c = enc_buf (\<lambda>bo. pcl_buf_putchar (jl_junk L) bo c)"

definition enc_text ::
  "'r json_lib \<Rightarrow> byte list \<Rightarrow> json_encode \<Rightarrow> 'r jworld \<Rightarrow> (json_encode \<times> 'r jworld) option" where
  "enc_text L s = enc_buf (\<lambda>bo. pcl_buf_putstr (jl_junk L) bo (Some (s @ [0])))"

definition enc_format ::
  "'r json_lib \<Rightarrow> byte list \<Rightarrow> json_encode \<Rightarrow> 'r jworld \<Rightarrow> (json_encode \<times> 'r jworld) option" where
  "enc_format L s = enc_buf (\<lambda>bo. pcl_buf_vputf (jl_junk L) bo (Inr (map (\<lambda>b. [b]) s)))"

fun print_tabs ::
  "'r json_lib \<Rightarrow> nat \<Rightarrow> json_encode \<Rightarrow> 'r jworld \<Rightarrow> (json_encode \<times> 'r jworld) option" where
  "print_tabs L 0 enc w = Some (enc, w)"
| "print_tabs L (Suc n) enc w = do { (enc1, w1) \<leftarrow> enc_char L 9 enc w; print_tabs L n enc1 w1 }"

definition enc_when ::
  "bool \<Rightarrow> (json_encode \<Rightarrow> 'r jworld \<Rightarrow> (json_encode \<times> 'r jworld) option) \<Rightarrow> json_encode \<Rightarrow> 'r jworld \<Rightarrow>
     (json_encode \<times> 'r jworld) option" where
  "enc_when b f enc w = (if b then f enc w else Some (enc, w))"

section \<open>Strings\<close>

definition string_escape :: "byte \<Rightarrow> byte list option" where
  "string_escape c =
     (if c = 92 then Some [92, 92]
      else if c = 47 then Some [92, 47]
      else if c = 34 then Some [92, 34]
      else if c = 8 then Some [92, 98]
      else if c = 9 then Some [92, 116]
      else if c = 10 then Some [92, 110]
      else if c = 12 then Some [92, 102]
      else if c = 13 then Some [92, 114]
      else None)"

definition encode_char ::
  "'r json_lib \<Rightarrow> byte \<Rightarrow> json_encode \<Rightarrow> 'r jworld \<Rightarrow> (json_encode \<times> 'r jworld) option" where
  "encode_char L c enc w =
     (case string_escape c of
        Some e \<Rightarrow> enc_text L e enc w
      | None \<Rightarrow> if c < 0x20 then enc_format L (str_bytes ([CHR 0x5C] @ ''u00'' @ hh c)) enc w
                else enc_char L (ucast c) enc w)"

fun encode_chars ::
  "'r json_lib \<Rightarrow> byte list \<Rightarrow> json_encode \<Rightarrow> 'r jworld \<Rightarrow> (json_encode \<times> 'r jworld) option" where
  "encode_chars L [] enc w = None"
| "encode_chars L (c # s) enc w =
     (if c = 0 then Some (enc, w)
      else do { (enc1, w1) \<leftarrow> encode_char L c enc w; encode_chars L s enc1 w1 })"

definition ipcl_json_encode_string ::
  "'r json_lib \<Rightarrow> byte list \<Rightarrow> json_encode \<Rightarrow> 'r jworld \<Rightarrow> 'r encoded" where
  "ipcl_json_encode_string L s enc w =
     do { (enc1, w1) \<leftarrow> enc_char L 34 enc w;
          (enc2, w2) \<leftarrow> encode_chars L s enc1 w1;
          (enc3, w3) \<leftarrow> enc_char L 34 enc2 w2;
          Some (True, enc3, w3) }"

section \<open>Arrays and objects\<close>

fun array_elems ::
  "(nat option \<Rightarrow> json_encode \<Rightarrow> 'r jworld \<Rightarrow> 'r encoded) \<Rightarrow> 'r json_lib \<Rightarrow> (nat, 'c) pcl_array \<Rightarrow> nat \<Rightarrow>
     nat \<Rightarrow> json_encode \<Rightarrow> 'r jworld \<Rightarrow> 'r encoded" where
  "array_elems value L a i 0 enc w = Some (True, enc, w)"
| "array_elems value L a i (Suc n) enc w =
     do { (enc1, w1) \<leftarrow> enc_when (en_format enc) (print_tabs L (nat (en_tabs enc))) enc w;
          e \<leftarrow> rd (arr_elements a) (int i);
          (good, enc2, w2) \<leftarrow> value e enc1 w1;
          if \<not> good then Some (False, enc2, w2)
          else do { (enc3, w3) \<leftarrow> enc_when (int i + 1 < arr_count a) (enc_char L 44) enc2 w2;
                    (enc4, w4) \<leftarrow> enc_when (en_format enc3) (enc_char L 10) enc3 w3;
                    array_elems value L a (i + 1) n enc4 w4 } }"

text \<open>The line break after the opening bracket and the closing bracket, as arrays and objects share
  them.\<close>

definition enc_open ::
  "'r json_lib \<Rightarrow> 32 word \<Rightarrow> int \<Rightarrow> json_encode \<Rightarrow> 'r jworld \<Rightarrow> (json_encode \<times> 'r jworld) option" where
  "enc_open L bracket cnt enc w =
     do { let enc0 = enc\<lparr>en_tabs := en_tabs enc + 1\<rparr>;
          (enc1, w1) \<leftarrow> enc_char L bracket enc0 w;
          enc_when (en_format enc1 \<and> cnt \<noteq> 0) (enc_char L 10) enc1 w1 }"

definition enc_close ::
  "'r json_lib \<Rightarrow> 32 word \<Rightarrow> int \<Rightarrow> json_encode \<Rightarrow> 'r jworld \<Rightarrow> 'r encoded" where
  "enc_close L bracket cnt enc w =
     do { let enc0 = enc\<lparr>en_tabs := en_tabs enc - 1\<rparr>;
          (enc1, w1) \<leftarrow> enc_when (en_format enc0 \<and> cnt \<noteq> 0) (print_tabs L (nat (en_tabs enc0))) enc0 w;
          (enc2, w2) \<leftarrow> enc_char L bracket enc1 w1;
          Some (True, enc2, w2) }"

definition ipcl_json_encode_array ::
  "(nat option \<Rightarrow> json_encode \<Rightarrow> 'r jworld \<Rightarrow> 'r encoded) \<Rightarrow> 'r json_lib \<Rightarrow> (nat, 'c) pcl_array \<Rightarrow>
     json_encode \<Rightarrow> 'r jworld \<Rightarrow> 'r encoded" where
  "ipcl_json_encode_array value L a enc w =
     do { (enc1, w1) \<leftarrow> enc_open L 91 (arr_count a) enc w;
          (good, enc2, w2) \<leftarrow> array_elems value L a 0 (nat (arr_count a)) enc1 w1;
          if \<not> good then Some (False, enc2, w2) else enc_close L 93 (arr_count a) enc2 w2 }"

text \<open>The loop over the entries ends when \<open>pcl_htable_iter\<close> does, at the latest after \<open>count_used\<close>
  entries; \<open>count\<close> is the number of entries that are left.\<close>

fun object_entries ::
  "(nat option \<Rightarrow> json_encode \<Rightarrow> 'r jworld \<Rightarrow> 'r encoded) \<Rightarrow> 'r json_lib \<Rightarrow> (string, nat, 'c) pcl_htable \<Rightarrow>
     nat \<Rightarrow> int option \<Rightarrow> int \<Rightarrow> json_encode \<Rightarrow> 'r jworld \<Rightarrow> 'r encoded" where
  "object_entries value L t 0 index cnt enc w = None"
| "object_entries value L t (Suc n) index cnt enc w =
     do { (ento, index1) \<leftarrow> pcl_htable_iter (Some t) index;
          case ento of
            None \<Rightarrow> Some (True, enc, w)
          | Some ent \<Rightarrow>
              do { (enc1, w1) \<leftarrow> enc_when (en_format enc) (print_tabs L (nat (en_tabs enc))) enc w;
                   k \<leftarrow> he_key ent;
                   (good, enc2, w2) \<leftarrow> ipcl_json_encode_string L (str_bytes k @ [0]) enc1 w1;
                   if \<not> good then Some (False, enc2, w2)
                   else do { (enc3, w3) \<leftarrow> enc_char L 58 enc2 w2;
                             (enc4, w4) \<leftarrow> enc_when (en_format enc3) (enc_char L 32) enc3 w3;
                             (good1, enc5, w5) \<leftarrow> value (he_value ent) enc4 w4;
                             if \<not> good1 then Some (False, enc5, w5)
                             else do { (enc6, w6) \<leftarrow> enc_when (cnt - 1 > 0) (enc_char L 44) enc5 w5;
                                       (enc7, w7) \<leftarrow> enc_when (en_format enc6) (enc_char L 10) enc6 w6;
                                       object_entries value L t n index1 (cnt - 1) enc7 w7 } } } }"

definition ipcl_json_encode_object ::
  "(nat option \<Rightarrow> json_encode \<Rightarrow> 'r jworld \<Rightarrow> 'r encoded) \<Rightarrow> 'r json_lib \<Rightarrow> (string, nat, 'c) pcl_htable \<Rightarrow>
     json_encode \<Rightarrow> 'r jworld \<Rightarrow> 'r encoded" where
  "ipcl_json_encode_object value L t enc w =
     do { (enc1, w1) \<leftarrow> enc_open L 123 (ht_count t) enc w;
          (good, enc2, w2) \<leftarrow> object_entries value L t (Suc (nat (ht_count_used t))) (Some 0) (ht_count t) enc1 w1;
          if \<not> good then Some (False, enc2, w2) else enc_close L 125 (ht_count t) enc2 w2 }"

section \<open>Values\<close>

definition put_done :: "(json_encode \<times> 'r jworld) option \<Rightarrow> 'r encoded" where
  "put_done r = do { (enc, w) \<leftarrow> r; Some (True, enc, w) }"

fun ipcl_json_encode_value ::
  "nat \<Rightarrow> 'r json_lib \<Rightarrow> nat option \<Rightarrow> json_encode \<Rightarrow> 'r jworld \<Rightarrow> 'r encoded" where
  "ipcl_json_encode_value 0 L value enc w = None"
| "ipcl_json_encode_value (Suc n) L value enc w =
     do { p \<leftarrow> value;
          nd \<leftarrow> json_load p w;
          case js_val nd of
            JNull \<Rightarrow> put_done (enc_text L (str_bytes ''null'') enc w)
          | JObj t \<Rightarrow> ipcl_json_encode_object (ipcl_json_encode_value n L) L t enc w
          | JArr ar \<Rightarrow> do { a \<leftarrow> ar; ipcl_json_encode_array (ipcl_json_encode_value n L) L a enc w }
          | JBool b \<Rightarrow> put_done (enc_text L (str_bytes (if b then ''true'' else ''false'')) enc w)
          | JStr s \<Rightarrow> ipcl_json_encode_string L s enc w
          | JInt i \<Rightarrow> put_done (enc_format L (str_bytes (int_dec i)) enc w)
          | JReal r \<Rightarrow>
              if jl_isnan L r \<or> jl_isinf L r then put_done (enc_text L (str_bytes ''null'') enc w)
              else put_done (enc_format L (jl_format L r) enc w) }"

definition pcl_json_encode ::
  "nat \<Rightarrow> 'r json_lib \<Rightarrow> nat option \<Rightarrow> bool \<Rightarrow> 'r jworld \<Rightarrow> (bptr \<times> 'r jworld) option" where
  "pcl_json_encode fuel L value format w =
     do { (bo, w1) \<leftarrow> pcl_buf_init (jl_junk L) None 256 (buf_mode_code PclBufText) w;
          b \<leftarrow> bo;
          (good, enc, w2) \<leftarrow> ipcl_json_encode_value fuel L value
                               \<lparr>en_tabs = 0, en_format = format, en_b = b\<rparr> w1;
          if \<not> good then Some (Null, w2) else Some (bf_data (en_b enc), w2) }"

end
