(* ===== verification/PclHtableInv.thy ===== *)
theory PclHtableInv imports PclHtable begin

text \<open>
  The invariant of the hash table and its abstract value. Rounding of capacities, bucket indices,
  the collision lists threaded through the entries, linking and unlinking of an entry; then the
  association list in insertion order that a table stands for, the well-formedness \<open>ht_wf\<close> and
  the correctness of lookup and get.
\<close>

section \<open>Capacities and bucket indices\<close>

lemma sint_ucast_small:
  fixes c :: "64 word"
  assumes "uint c < 2 ^ 31"
  shows "sint (ucast c :: 32 word) = uint c"
proof -
  have "sint (ucast c :: 32 word) = signed_take_bit 31 (uint c)"
    by (simp add: sint_uint unsigned_ucast_eq signed_take_bit_take_bit)
  also have "\<dots> = uint c"
    using assms by (intro signed_take_bit_int_eq_self) (auto intro: order_trans [of _ 0])
  finally show ?thesis .
qed

lemma hash_index_mod:
  assumes "k \<le> 30"
  shows "hash_index code (2 ^ k - 1) = uint code mod 2 ^ k"
proof -
  have "(word_of_int (2 ^ k - 1) :: 64 word) = mask k"
    by (simp add: mask_eq_exp_minus_1)
  then have and_eq: "code AND word_of_int (2 ^ k - 1) = take_bit k code"
    by (simp add: take_bit_eq_mask)
  have u: "uint (take_bit k code) = uint code mod 2 ^ k"
    by (simp only: unsigned_take_bit_eq take_bit_eq_mod [of _ "uint _"])
  have "(2::int) ^ k \<le> 2 ^ 30" using assms by (intro power_increasing) auto
  moreover have "uint code mod 2 ^ k < 2 ^ k" by simp
  ultimately have "uint code mod 2 ^ k < 2 ^ 30" by (rule order_less_le_trans [rotated])
  then have lt: "uint code mod 2 ^ k < 2 ^ 31" by simp
  have "sint (ucast (take_bit k code) :: 32 word) = uint code mod 2 ^ k"
    using sint_ucast_small [of "take_bit k code"] lt by (simp only: u)
  then show ?thesis by (simp only: hash_index_def and_eq)
qed

lemma hash_index_range:
  assumes "k \<le> 30" "cap = 2 ^ k"
  shows "0 \<le> hash_index code (cap - 1)" "hash_index code (cap - 1) < cap"
  using assms by (simp_all add: hash_index_mod)

text \<open>Smearing the top bit of a word downwards.\<close>

definition smear :: "64 word \<Rightarrow> 64 word" where
  "smear c0 = (let x1 = c0 OR drop_bit 1 c0;
                   x2 = x1 OR drop_bit 2 x1;
                   x3 = x2 OR drop_bit 4 x2;
                   x4 = x3 OR drop_bit 8 x3
               in x4 OR drop_bit 16 x4)"

lemma smear_step:
  fixes x y :: "64 word"
  assumes "\<And>i. bit y i \<longleftrightarrow> (\<exists>d < m. bit x (i + d))" and n: "n = m + m"
  shows "bit (y OR drop_bit m y) i \<longleftrightarrow> (\<exists>d < n. bit x (i + d))"
proof -
  have "(\<exists>d < m + m. bit x (i + d)) \<longleftrightarrow> (\<exists>d < m. bit x (i + d)) \<or> (\<exists>d < m. bit x (i + m + d))"
  proof
    assume "\<exists>d < m + m. bit x (i + d)"
    then obtain d where d: "d < m + m" "bit x (i + d)" by blast
    show "(\<exists>d < m. bit x (i + d)) \<or> (\<exists>d < m. bit x (i + m + d))"
    proof (cases "d < m")
      case False
      with d have "d - m < m" "bit x (i + m + (d - m))" by simp_all
      then show ?thesis by blast
    qed (use d in blast)
  next
    assume "(\<exists>d < m. bit x (i + d)) \<or> (\<exists>d < m. bit x (i + m + d))"
    then show "\<exists>d < m + m. bit x (i + d)"
      by (auto simp: add.assoc intro: trans_less_add1) (metis add_strict_left_mono)
  qed
  then show ?thesis
    using assms by (simp add: bit_or_iff bit_drop_bit_eq add.commute n)
qed

lemma bit_smear: "bit (smear x) i \<longleftrightarrow> (\<exists>d < 32. bit x (i + d))"
proof -
  have 1: "bit x i \<longleftrightarrow> (\<exists>d < 1. bit x (i + d))" for i by simp
  define x1 where "x1 = x OR drop_bit 1 x"
  define x2 where "x2 = x1 OR drop_bit 2 x1"
  define x3 where "x3 = x2 OR drop_bit 4 x2"
  define x4 where "x4 = x3 OR drop_bit 8 x3"
  have 2: "bit x1 i \<longleftrightarrow> (\<exists>d < 2. bit x (i + d))" for i
    unfolding x1_def by (rule smear_step [OF 1]) simp
  have 4: "bit x2 i \<longleftrightarrow> (\<exists>d < 4. bit x (i + d))" for i
    unfolding x2_def by (rule smear_step [OF 2]) simp
  have 8: "bit x3 i \<longleftrightarrow> (\<exists>d < 8. bit x (i + d))" for i
    unfolding x3_def by (rule smear_step [OF 4]) simp
  have 16: "bit x4 i \<longleftrightarrow> (\<exists>d < 16. bit x (i + d))" for i
    unfolding x4_def by (rule smear_step [OF 8]) simp
  have "bit (x4 OR drop_bit 16 x4) i \<longleftrightarrow> (\<exists>d < 32. bit x (i + d))"
    by (rule smear_step [OF 16]) simp
  then show ?thesis
    by (simp only: smear_def Let_def x4_def x3_def x2_def x1_def)
qed

lemma smear_mask:
  assumes "2 ^ k \<le> x" "x < 2 ^ Suc k" "k < 32"
  shows "smear (word_of_nat x) = mask (Suc k)"
proof (rule bit_word_eqI)
  fix i :: nat
  assume i: "i < LENGTH(64)"
  have hi: "\<not> bit (word_of_nat x :: 64 word) j" if "k < j" for j
  proof -
    have "x < 2 ^ j" using assms(2) that by (meson Suc_leI one_le_numeral order_less_le_trans power_increasing)
    then have "\<not> bit x j" by (simp add: bit_iff_odd)
    then show ?thesis by (simp add: bit_of_nat_iff)
  qed
  have top: "bit (word_of_nat x :: 64 word) k"
  proof -
    have "x div 2 ^ k = 1" using assms(1,2) by (simp add: div_nat_eqI)
    then have "bit x k" by (simp add: bit_iff_odd)
    with assms(3) show ?thesis by (simp add: bit_of_nat_iff)
  qed
  show "bit (smear (word_of_nat x)) i \<longleftrightarrow> bit (mask (Suc k) :: 64 word) i"
  proof (cases "i \<le> k")
    case True
    then have "k - i < 32" "bit (word_of_nat x :: 64 word) (i + (k - i))" using assms(3) top by auto
    with True i show ?thesis by (auto simp: bit_smear bit_mask_iff)
  next
    case False
    with hi show ?thesis by (auto simp: bit_smear bit_mask_iff)
  qed
qed

text \<open>A power of two is its own capacity.\<close>

lemma pow_and_pred: "k < 64 \<Longrightarrow> (2 ^ k :: 64 word) AND (2 ^ k - 1) = 0"
  by (rule bit_word_eqI) (auto simp: bit_and_iff bit_exp_iff bit_mask_iff simp flip: mask_eq_exp_minus_1)

lemma word_pow_le:
  assumes "j \<le> 40" "k \<le> 40"
  shows "(2 ^ j :: 64 word) \<le> 2 ^ k \<longleftrightarrow> j \<le> k"
proof -
  have u: "unat (2 ^ n :: 64 word) = 2 ^ n" if "n \<le> 40" for n
  proof -
    have "(2::nat) ^ n < 2 ^ 64" using that by (intro power_strict_increasing) auto
    then have "unat (word_of_nat (2 ^ n) :: 64 word) = 2 ^ n"
      by (simp only: unsigned_of_nat of_nat_id) (use that in simp)
    then show ?thesis by simp
  qed
  show ?thesis using assms by (simp add: word_le_nat_alt u)
qed

lemma uint_pow: "k \<le> 40 \<Longrightarrow> uint (2 ^ k :: 64 word) = 2 ^ k"
proof -
  assume "k \<le> 40"
  then have "(2::int) ^ k < 2 ^ 64" by (intro power_strict_increasing) auto
  then have "uint (word_of_int (2 ^ k) :: 64 word) = 2 ^ k"
    by (simp only: uint_word_of_int) simp
  then show ?thesis by simp
qed

lemma chkcapacity_pow:
  assumes "3 \<le> k" "k \<le> 30"
  shows "ipcl_htable_chkcapacity (2 ^ k) w = (2 ^ k, w)"
proof -
  have "(8 :: 64 word) = 2 ^ 3" "(push_bit 30 1 :: 64 word) = 2 ^ 30"
    by (simp_all add: push_bit_eq_mult)
  moreover have "(2 ^ 3 :: 64 word) \<le> 2 ^ k" "(2 ^ k :: 64 word) \<le> 2 ^ 30"
    using assms word_pow_le [of 3 k] word_pow_le [of k 30] by simp_all
  ultimately have "max (2 ^ k) (8 :: 64 word) = 2 ^ k" "\<not> push_bit 30 1 < (2 ^ k :: 64 word)"
    by (auto simp only: max_def not_less split: if_splits)
  moreover have "sint (ucast (2 ^ k :: 64 word) :: 32 word) = 2 ^ k"
  proof -
    have "(2::int) ^ k \<le> 2 ^ 30" using assms by (intro power_increasing) auto
    then show ?thesis
      using sint_ucast_small [of "2 ^ k"] assms by (simp only: uint_pow [of k]) simp
  qed
  moreover have "(2 ^ k :: 64 word) AND (2 ^ k - 1) = 0"
    using assms by (intro pow_and_pred) simp
  ultimately show ?thesis
    by (simp only: ipcl_htable_chkcapacity_def Let_def simp_thms if_False)
qed

lemma chkcapacity_too_big:
  "ipcl_htable_chkcapacity (2 ^ 31) w =
    SETERR (''htable_chkcapacity.c'', ''ipcl_htable_chkcapacity'', 76) PCL_ERANGE w"
proof -
  have "(2 ^ 31 :: 64 word) AND (2 ^ 31 - 1) = 0" by (rule pow_and_pred) simp
  moreover have "max (2 ^ 31) (8 :: 64 word) = 2 ^ 31" "push_bit 30 1 < (2 ^ 31 :: 64 word)"
    by (simp_all add: push_bit_eq_mult)
  ultimately show ?thesis
    by (simp only: ipcl_htable_chkcapacity_def Let_def simp_thms if_False if_True)
qed

text \<open>Any other requested capacity up to \<open>2 ^ 30\<close> is rounded up to the next power of two.\<close>

lemma chkcapacity_smear:
  "ipcl_htable_chkcapacity c w =
    (let c0 = max c 8; c1 = (if c0 AND (c0 - 1) \<noteq> 0 then smear c0 + 1 else c0)
     in if c1 > push_bit 30 1
        then SETERR (''htable_chkcapacity.c'', ''ipcl_htable_chkcapacity'', 76) PCL_ERANGE w
        else (sint (ucast c1 :: 32 word), w))"
  by (simp only: ipcl_htable_chkcapacity_def smear_def Let_def)

lemma and_pred_zero_pow:
  assumes "2 ^ k < x" "x < 2 ^ Suc k" "k < 32"
  shows "(word_of_nat x :: 64 word) AND (word_of_nat x - 1) \<noteq> 0"
proof -
  have top: "bit (word_of_nat y :: 64 word) k" if "2 ^ k \<le> y" "y < 2 ^ Suc k" for y
  proof -
    have "y div 2 ^ k = 1" using that by (simp add: div_nat_eqI)
    then have "bit y k" by (simp add: bit_iff_odd)
    with assms(3) show ?thesis by (simp add: bit_of_nat_iff)
  qed
  have "(word_of_nat x :: 64 word) - 1 = word_of_nat (x - 1)"
    using assms(1) by (simp add: of_nat_diff)
  then have "bit ((word_of_nat x :: 64 word) AND (word_of_nat x - 1)) k"
    using top [of x] top [of "x - 1"] assms by (auto simp: bit_and_iff)
  then show ?thesis by auto
qed

lemma chkcapacity_round:
  assumes "8 \<le> n" "n \<le> 2 ^ 30"
  obtains k where "ipcl_htable_chkcapacity (word_of_nat n) w = (2 ^ k, w)" "3 \<le> k" "k \<le> 30"
    "n \<le> 2 ^ k" "2 ^ k < 2 * n"
proof (cases "\<exists>k. n = 2 ^ k")
  case True
  then obtain k where k: "n = 2 ^ k" by blast
  have "(2::nat) ^ 3 \<le> 2 ^ k" "(2::nat) ^ k \<le> 2 ^ 30" using assms k by auto
  then have "3 \<le> k" "k \<le> 30" by (auto intro: power_le_imp_le_exp [of "2::nat"])
  with chkcapacity_pow [of k w] k show ?thesis by (intro that [of k]) auto
next
  case False
  obtain k where k: "2 ^ k \<le> n" "n < 2 ^ Suc k"
    using assms(1) ex_power_ivl1 [of 2 n] by auto
  with False have lt: "2 ^ k < n" by (metis le_neq_implies_less)
  have "(2::nat) ^ k < 2 ^ 30" using lt assms(2) by linarith
  then have k30: "k < 30" by (auto intro: power_less_imp_less_exp [of "2::nat"])
  have "(2::nat) ^ 3 < 2 ^ Suc k" using assms(1) k(2) by (simp del: power_Suc)
  then have "3 < Suc k" by (auto intro: power_less_imp_less_exp [of "2::nat"])
  then have k3: "3 \<le> k" by simp
  have m8: "max (word_of_nat n) 8 = (word_of_nat n :: 64 word)"
  proof -
    have "(8 :: 64 word) = word_of_nat 8" by simp
    moreover have "(word_of_nat 8 :: 64 word) \<le> word_of_nat n"
      using assms by (simp only: word_of_nat_less_eq_iff) (simp add: take_bit_nat_eq_self)
    ultimately show ?thesis by (simp add: max_def)
  qed
  have "smear (word_of_nat n) + 1 = (2 ^ Suc k :: 64 word)"
    using smear_mask [OF k] k30 by (simp add: mask_eq_exp_minus_1)
  moreover have "\<not> push_bit 30 1 < (2 ^ Suc k :: 64 word)"
  proof -
    have "(2 ^ Suc k :: 64 word) \<le> 2 ^ 30" using word_pow_le [of "Suc k" 30] k30 by simp
    then show ?thesis by (simp add: push_bit_eq_mult not_less)
  qed
  moreover have "sint (ucast (2 ^ Suc k :: 64 word) :: 32 word) = 2 ^ Suc k"
  proof -
    have "(2::int) ^ Suc k \<le> 2 ^ 30" using k30 by (intro power_increasing) auto
    then show ?thesis
      using sint_ucast_small [of "2 ^ Suc k"] k30 by (simp only: uint_pow [of "Suc k"]) simp
  qed
  ultimately have "ipcl_htable_chkcapacity (word_of_nat n) w = (2 ^ Suc k, w)"
    using and_pred_zero_pow [OF lt k(2)] k30
    by (simp only: chkcapacity_smear Let_def m8 if_True if_False simp_thms)
  then show ?thesis
    using k k3 k30 lt by (intro that [of "Suc k"]) auto
qed

section \<open>Collision lists\<close>

text \<open>\<open>chain ents i js\<close>: from the entry index \<open>i\<close> the list leads through the entries \<open>js\<close>.\<close>

fun chain :: "('k, 'v) htable_entry list \<Rightarrow> int \<Rightarrow> nat list \<Rightarrow> bool" where
  "chain ents i [] \<longleftrightarrow> i = -1"
| "chain ents i (j # js) \<longleftrightarrow> i = int j \<and> j < length ents \<and> chain ents (he_next (ents ! j)) js"

lemma chain_bound: "chain ents i js \<Longrightarrow> \<forall>j \<in> set js. j < length ents"
  by (induction js arbitrary: i) auto

lemma chain_cong:
  "length ents' = length ents \<Longrightarrow> (\<And>j. j \<in> set js \<Longrightarrow> he_next (ents' ! j) = he_next (ents ! j)) \<Longrightarrow>
     chain ents' i js = chain ents i js"
  by (induction js arbitrary: i) auto

lemma chain_update_other:
  "j \<notin> set js \<Longrightarrow> chain (ents[j := e]) i js = chain ents i js"
  by (rule chain_cong) (simp, metis nth_list_update_neq)

text \<open>Taking \<open>j\<close> out behind \<open>p\<close>.\<close>

lemma chain_bypass:
  "chain ents i (pre @ p # j # post) \<Longrightarrow> distinct (pre @ p # j # post) \<Longrightarrow>
     chain (ents[p := (ents ! p)\<lparr>he_next := he_next (ents ! j)\<rparr>]) i (pre @ p # post)"
proof (induction pre arbitrary: i)
  case Nil
  then show ?case by (auto simp: chain_update_other)
qed auto

lemma chain_find_ok:
  assumes "chain ents i js" "\<forall>j \<in> set js. he_key (ents ! j) \<noteq> None"
  shows "chain_find eq ents code key prev i =
    Some (case find_index (\<lambda>j. he_code (ents ! j) = code \<and> eq (the (he_key (ents ! j))) key) js of
            None \<Rightarrow> None
          | Some n \<Rightarrow> Some (int (js ! n), if n = 0 then prev else Some (int (js ! (n - 1)))))"
  using assms
proof (induction js arbitrary: i prev)
  case Nil
  then show ?case by (simp add: chain_find.simps)
next
  case (Cons j js)
  then have i: "i = int j" "j < length ents" "chain ents (he_next (ents ! j)) js"
    and k: "\<exists>k. he_key (ents ! j) = Some k"
    by auto
  note IH = Cons.IH [OF i(3), of "Some (int j)"]
  show ?case
    using i(1,2) k IH Cons.prems(2)
    by (subst chain_find.simps)
      (auto simp: rd_int nth_Cons' split: option.splits)
qed

text \<open>The lookup block with, for every bucket, the list of the live entries that hash to it.\<close>

definition buckets_ok ::
  "('k, 'v) htable_entry list \<Rightarrow> int list \<Rightarrow> nat set \<Rightarrow> (nat \<Rightarrow> nat list) \<Rightarrow> bool" where
  "buckets_ok ents lookup L C \<longleftrightarrow>
     (\<forall>b < length lookup. chain ents (lookup ! b) (C b) \<and> distinct (C b)
        \<and> set (C b) = {j \<in> L. hash_index (he_code (ents ! j)) (int (length lookup) - 1) = int b})"

lemma buckets_in: "buckets_ok ents lookup L C \<Longrightarrow> b < length lookup \<Longrightarrow> j \<in> set (C b) \<Longrightarrow> j \<in> L"
  by (auto simp: buckets_ok_def)

lemma buckets_disjoint:
  "buckets_ok ents lookup L C \<Longrightarrow> b < length lookup \<Longrightarrow> c < length lookup \<Longrightarrow> b \<noteq> c \<Longrightarrow>
     j \<in> set (C b) \<Longrightarrow> j \<notin> set (C c)"
  by (auto simp: buckets_ok_def)

text \<open>What an entry holds, its link apart.\<close>

definition payload :: "('k, 'v) htable_entry \<Rightarrow> 'k option \<times> 'v option \<times> 64 word" where
  "payload e = (he_key e, he_value e, he_code e)"

lemma payload_next [simp]: "payload (e\<lparr>he_next := n\<rparr>) = payload e"
  by (simp add: payload_def)

lemma payload_code: "payload e = payload e' \<Longrightarrow> he_code e = he_code e'"
  by (simp add: payload_def)

lemma entry_link_ok:
  assumes B: "buckets_ok ents lookup L C" and L: "\<forall>j \<in> L. j < length ents"
    and n: "n < length ents" "n \<notin> L"
    and b: "hash_index code (int (length lookup) - 1) = int b" "b < length lookup"
  obtains ents' lookup' C' where
    "entry_link k v code (int b) (int n) ents lookup = Some (ents', lookup')"
    "length ents' = length ents" "length lookup' = length lookup"
    "buckets_ok ents' lookup' (insert n L) C'"
    "map payload ents' = (map payload ents)[n := (k, v, code)]"
proof (cases "C b")
  case Nil
  define e where "e = (ents ! n)\<lparr>he_key := k, he_value := v, he_code := code, he_next := -1\<rparr>"
  have "lookup ! b = -1" using B b(2) Nil by (auto simp: buckets_ok_def)
  then have r: "entry_link k v code (int b) (int n) ents lookup
      = Some (ents[n := e], lookup[b := int n])"
    using n b(2) by (simp add: entry_link_def rd_int wr_int e_def)
  have "buckets_ok (ents[n := e]) (lookup[b := int n]) (insert n L) (C(b := [n]))"
    unfolding buckets_ok_def
  proof (intro allI impI)
    fix c assume c: "c < length (lookup[b := int n])"
    then have cL: "n \<notin> set (C c)" using B n(2) by (auto simp: buckets_ok_def)
    show "chain (ents[n := e]) (lookup[b := int n] ! c) ((C(b := [n])) c)
      \<and> distinct ((C(b := [n])) c)
      \<and> set ((C(b := [n])) c) = {j \<in> insert n L.
          hash_index (he_code (ents[n := e] ! j)) (int (length (lookup[b := int n])) - 1) = int c}"
      using B b n c cL L Nil
      by (auto simp: buckets_ok_def e_def chain_update_other nth_list_update split: if_splits)
  qed
  moreover have "map payload (ents[n := e]) = (map payload ents)[n := (k, v, code)]"
    by (simp add: map_update e_def payload_def)
  ultimately show ?thesis using r by (intro that) auto
next
  case (Cons h t)
  have ch: "chain ents (lookup ! b) (h # t)" and dist: "distinct (h # t)"
    using B b(2) Cons by (auto simp: buckets_ok_def)
  have hL: "h \<in> L" and tL: "\<forall>j \<in> set t. j \<in> L"
    using B b(2) Cons buckets_in [of ents lookup L C b] by auto
  have nh: "n \<noteq> h" "n \<notin> set t" using hL tL n(2) by auto
  define e where "e = (ents ! n)\<lparr>he_key := k, he_value := v, he_code := code,
    he_next := he_next (ents ! h)\<rparr>"
  define ents' where "ents' = ents[n := e, h := (ents ! h)\<lparr>he_next := int n\<rparr>]"
  have hl: "h < length ents" "lookup ! b = int h" using ch by auto
  have r: "entry_link k v code (int b) (int n) ents lookup = Some (ents', lookup)"
    using n(1) b(2) hl nh by (simp add: entry_link_def rd_int wr_int ents'_def e_def)
  have nth: "ents' ! j = (if j = h then (ents ! h)\<lparr>he_next := int n\<rparr> else if j = n then e else ents ! j)"
    if "j < length ents" for j
    using that by (simp add: ents'_def nth_list_update)
  have len: "length ents' = length ents" by (simp add: ents'_def)
  have pay: "map payload ents' = (map payload ents)[n := (k, v, code)]"
    using hl nh(1) n(1) by (simp add: ents'_def map_update e_def payload_def list_update_swap
        list_update_same_conv)
  have "buckets_ok ents' lookup (insert n L) (C(b := h # n # t))"
    unfolding buckets_ok_def
  proof (intro allI impI)
    fix c assume c: "c < length lookup"
    have codes: "{j \<in> insert n L. hash_index (he_code (ents' ! j)) (int (length lookup) - 1) = int c}
      = {j \<in> L. hash_index (he_code (ents ! j)) (int (length lookup) - 1) = int c}
        \<union> (if c = b then {n} else {})"
    proof -
      have "he_code (ents' ! j) = (if j = n then code else he_code (ents ! j))" if "j < length ents" for j
        using nth [OF that] nh(1) by (simp add: e_def)
      then show ?thesis using L n b(1) by (auto split: if_splits)
    qed
    show "chain ents' (lookup ! c) ((C(b := h # n # t)) c)
      \<and> distinct ((C(b := h # n # t)) c)
      \<and> set ((C(b := h # n # t)) c) = {j \<in> insert n L.
          hash_index (he_code (ents' ! j)) (int (length lookup) - 1) = int c}"
    proof (cases "c = b")
      case True
      have "chain ents' (he_next (ents ! h)) t = chain ents (he_next (ents ! h)) t"
        using nh dist chain_bound [OF ch] by (intro chain_cong) (auto simp: len nth)
      then have "chain ents' (lookup ! b) (h # n # t)"
        using ch nh n(1) by (simp add: len nth e_def)
      moreover have "set (h # t) = {j \<in> L. hash_index (he_code (ents ! j)) (int (length lookup) - 1) = int b}"
        using B b(2) unfolding buckets_ok_def by (metis Cons)
      ultimately show ?thesis using True dist nh unfolding codes by auto
    next
      case False
      have "h \<notin> set (C c)" using buckets_disjoint [OF B b(2) c] False Cons by auto
      moreover have "n \<notin> set (C c)" using buckets_in [OF B c] n(2) by auto
      ultimately have "chain ents' (lookup ! c) (C c)"
        using B c by (simp add: ents'_def chain_update_other buckets_ok_def)
      then show ?thesis using False B c unfolding codes by (auto simp: buckets_ok_def)
    qed
  qed
  then show ?thesis using r len pay by (intro that) auto
qed

text \<open>Unlinking the entry at position \<open>i\<close> of its list.\<close>

definition unlink :: "('k, 'v) htable_entry list \<Rightarrow> int list \<Rightarrow> nat \<Rightarrow> nat \<Rightarrow> int option \<Rightarrow>
    ('k, 'v) htable_entry list \<times> int list" where
  "unlink ents lookup b j prev =
     (case prev of
        Some p \<Rightarrow> (ents[nat p := (ents ! nat p)\<lparr>he_next := he_next (ents ! j)\<rparr>], lookup)
      | None \<Rightarrow> (ents, lookup[b := he_next (ents ! j)]))"

lemma unlink_ok:
  assumes B: "buckets_ok ents lookup L C" and L: "\<forall>j \<in> L. j < length ents"
    and b: "b < length lookup" and i: "i < length (C b)"
    and prev: "prev = (if i = 0 then None else Some (int (C b ! (i - 1))))"
  obtains C' where
    "buckets_ok (fst (unlink ents lookup b (C b ! i) prev))
       (snd (unlink ents lookup b (C b ! i) prev)) (L - {C b ! i}) C'"
    "map payload (fst (unlink ents lookup b (C b ! i) prev)) = map payload ents"
    "length (snd (unlink ents lookup b (C b ! i) prev)) = length lookup"
proof -
  define j where "j = C b ! i"
  define pre post where "pre = take i (C b)" and "post = drop (Suc i) (C b)"
  have cb: "C b = pre @ j # post" using i by (simp add: pre_def post_def j_def id_take_nth_drop)
  have ch: "chain ents (lookup ! b) (pre @ j # post)" "distinct (pre @ j # post)"
    "set (pre @ j # post) = {j \<in> L. hash_index (he_code (ents ! j)) (int (length lookup) - 1) = int b}"
    using B b by (simp_all add: buckets_ok_def flip: cb)
  let ?r = "unlink ents lookup b j prev"
  have pay: "map payload (fst ?r) = map payload ents"
    by (auto simp: unlink_def map_update list_update_same_conv split: option.splits)
      (metis list_update_beyond list_update_id map_update not_less nth_map)
  have len: "length (fst ?r) = length ents" "length (snd ?r) = length lookup"
    by (auto simp: unlink_def split: option.splits)
  have code: "he_code (fst ?r ! x) = he_code (ents ! x)" if "x < length ents" for x
    using that pay len by (metis nth_map payload_code)
  have own: "chain (fst ?r) (snd ?r ! b) (pre @ post)"
  proof (cases "i = 0")
    case True
    then have "pre = []" "prev = None" using prev by (simp_all add: pre_def)
    then show ?thesis using ch(1) b by (simp add: unlink_def)
  next
    case False
    then obtain pr p where pp: "pre = pr @ [p]" using i
      by (metis append_butlast_last_id length_0_conv length_take min.absorb4 pre_def)
    have "C b ! (i - 1) = p"
      using False i cb pp by (metis append_assoc append_Cons length_append_singleton length_take
          min.absorb4 nth_append_length pre_def diff_Suc_1)
    then have "prev = Some (int p)" using prev False by simp
    with chain_bypass [of ents "lookup ! b" pr p j post] ch(1,2) pp show ?thesis
      by (simp add: unlink_def)
  qed
  have other: "chain (fst ?r) (snd ?r ! c) (C c)" if c: "c < length lookup" "c \<noteq> b" for c
  proof -
    have "chain ents (lookup ! c) (C c)" using B c by (simp add: buckets_ok_def)
    moreover have "C b ! (i - 1) \<notin> set (C c)"
      using buckets_disjoint [OF B b c(1)] c(2) i by simp
    ultimately show ?thesis
      using c prev by (auto simp: unlink_def chain_update_other)
  qed
  have "buckets_ok (fst ?r) (snd ?r) (L - {j}) (C(b := pre @ post))"
    unfolding buckets_ok_def
  proof (intro allI impI)
    fix c assume c: "c < length (snd ?r)"
    have sets: "{x \<in> L - {j}. hash_index (he_code (fst ?r ! x)) (int (length (snd ?r)) - 1) = int c}
      = {x \<in> L. hash_index (he_code (ents ! x)) (int (length lookup) - 1) = int c} - {j}"
      using code L by (auto simp: len)
    show "chain (fst ?r) (snd ?r ! c) ((C(b := pre @ post)) c)
      \<and> distinct ((C(b := pre @ post)) c)
      \<and> set ((C(b := pre @ post)) c) = {x \<in> L - {j}.
          hash_index (he_code (fst ?r ! x)) (int (length (snd ?r)) - 1) = int c}"
    proof (cases "c = b")
      case True
      have "set (pre @ post) = set (pre @ j # post) - {j}" using ch(2) by auto
      then show ?thesis 
        using own ch(2) unfolding sets unfolding True ch(3) [symmetric] by simp
    next
      case False
      have "j \<notin> set (C c)"
        using buckets_disjoint [OF B b, of c j] c False cb by (simp add: len)
      then show ?thesis using False other c B unfolding sets
        by (auto simp: buckets_ok_def len)
    qed
  qed
  then show ?thesis using pay len(2) by (rule that [folded j_def])
qed

section \<open>The ordered association list\<close>

text \<open>The abstract value of a table: its keys with their values, in insertion order. Deleted
  entries do not count.\<close>

fun live_pairs :: "('k option \<times> 'v \<times> 'x) list \<Rightarrow> ('k \<times> 'v) list" where
  "live_pairs [] = []"
| "live_pairs ((ko, v, _) # xs) =
     (case ko of Some k \<Rightarrow> (k, v) # live_pairs xs | None \<Rightarrow> live_pairs xs)"

definition ht_alist :: "('k, 'v, 'c) pcl_htable \<Rightarrow> ('k \<times> 'v option) list" where
  "ht_alist ht = live_pairs (map payload (take (nat (ht_count_used ht)) (ht_entries ht)))"

definition al_get :: "('k \<Rightarrow> 'k \<Rightarrow> bool) \<Rightarrow> 'k \<Rightarrow> ('k \<times> 'v) list \<Rightarrow> 'v option" where
  "al_get eq key al = map_option snd (List.find (\<lambda>(k, _). eq k key) al)"

definition al_put :: "('k \<Rightarrow> 'k \<Rightarrow> bool) \<Rightarrow> 'k \<Rightarrow> 'v \<Rightarrow> ('k \<times> 'v) list \<Rightarrow> ('k \<times> 'v) list" where
  "al_put eq key v al =
     (if \<exists>p \<in> set al. eq (fst p) key
      then map (\<lambda>p. if eq (fst p) key then (key, v) else p) al
      else al @ [(key, v)])"

definition al_remove :: "('k \<Rightarrow> 'k \<Rightarrow> bool) \<Rightarrow> 'k \<Rightarrow> ('k \<times> 'v) list \<Rightarrow> ('k \<times> 'v) list" where
  "al_remove eq key al = filter (\<lambda>p. \<not> eq (fst p) key) al"

definition al_distinct :: "('k \<Rightarrow> 'k \<Rightarrow> bool) \<Rightarrow> ('k \<times> 'v) list \<Rightarrow> bool" where
  "al_distinct eq al \<longleftrightarrow> sorted_wrt (\<lambda>p q. \<not> eq (fst p) (fst q)) al"

lemma live_pairs_append [simp]: "live_pairs (xs @ ys) = live_pairs xs @ live_pairs ys"
  by (induction xs rule: live_pairs.induct) (auto split: option.splits)

lemma live_pairs_length: "length (live_pairs xs) \<le> length xs"
  by (induction xs rule: live_pairs.induct) (auto split: option.splits)

lemma live_pairs_replicate [simp]: "live_pairs (replicate n (None, v, x)) = []"
  by (induction n) auto

lemma set_live_pairs: "set (live_pairs xs) = {(k, v). \<exists>x. (Some k, v, x) \<in> set xs}"
  by (induction xs rule: live_pairs.induct) (auto split: option.splits)

lemma live_pairs_map_upd:
  assumes "j < length xs" "xs ! j = (Some k0, v0, x0)"
  shows "live_pairs xs = live_pairs (take j xs) @ (k0, v0) # live_pairs (drop (Suc j) xs)"
    and "live_pairs (xs[j := (Some k, v, x)])
      = live_pairs (take j xs) @ (k, v) # live_pairs (drop (Suc j) xs)"
    and "live_pairs (xs[j := (None, v, x)]) = live_pairs (take j xs) @ live_pairs (drop (Suc j) xs)"
proof -
  have "xs = take j xs @ xs ! j # drop (Suc j) xs" using assms(1) by (rule id_take_nth_drop)
  with assms(2) have "live_pairs xs = live_pairs (take j xs @ (Some k0, v0, x0) # drop (Suc j) xs)"
    by simp
  then show "live_pairs xs = live_pairs (take j xs) @ (k0, v0) # live_pairs (drop (Suc j) xs)"
    by simp
qed (use assms(1) in \<open>simp_all add: upd_conv_take_nth_drop\<close>)

text \<open>A distinguished pair in a list with distinct keys.\<close>

lemma al_distinct_split:
  assumes "al_distinct eq (xs @ (k0, v0) # ys)" "eq k0 key" "equivp eq"
  shows "\<forall>p \<in> set (xs @ ys). \<not> eq (fst p) key"
proof
  fix p assume "p \<in> set (xs @ ys)"
  then have "\<not> eq (fst p) k0 \<or> \<not> eq k0 (fst p)"
    using assms(1) by (auto simp: al_distinct_def sorted_wrt_append)
  with assms(2,3) show "\<not> eq (fst p) key"
    by (meson equivp_symp equivp_transp)
qed

lemma al_put_replace:
  assumes "al_distinct eq (xs @ (k0, v0) # ys)" "eq k0 key" "equivp eq"
  shows "al_put eq key v (xs @ (k0, v0) # ys) = xs @ (key, v) # ys"
proof -
  have "map (\<lambda>p. if eq (fst p) key then (key, v) else p) zs = zs" if "set zs \<subseteq> set (xs @ ys)" for zs
    using al_distinct_split [OF assms] that by (intro map_idI) (meson subsetD)
  then show ?thesis using assms(2) by (simp add: al_put_def)
qed

lemma al_remove_one:
  assumes "al_distinct eq (xs @ (k0, v0) # ys)" "eq k0 key" "equivp eq"
  shows "al_remove eq key (xs @ (k0, v0) # ys) = xs @ ys"
  using al_distinct_split [OF assms] assms(2)
  by (auto simp: al_remove_def filter_id_conv)

lemma al_get_one:
  assumes "al_distinct eq (xs @ (k0, v0) # ys)" "eq k0 key" "equivp eq"
  shows "al_get eq key (xs @ (k0, v0) # ys) = Some v0"
proof -
  have "List.find (\<lambda>(k, _). eq k key) (xs @ (k0, v0) # ys) = Some (k0, v0)"
    using al_distinct_split [OF assms] assms(2) by (induction xs) auto
  then show ?thesis by (simp add: al_get_def)
qed

lemma al_get_None: "\<forall>p \<in> set al. \<not> eq (fst p) key \<Longrightarrow> al_get eq key al = None"
  by (auto simp: al_get_def find_None_iff)

lemma al_distinct_put:
  assumes "al_distinct eq al" "equivp eq"
  shows "al_distinct eq (al_put eq key v al)"
proof (cases "\<exists>p \<in> set al. eq (fst p) key")
  case True
  then obtain xs k0 v0 ys where al: "al = xs @ (k0, v0) # ys" "eq k0 key"
    by (metis prod.collapse split_list)
  from al_distinct_split [of eq xs k0 v0 ys key] assms al
  have "\<forall>p \<in> set (xs @ ys). \<not> eq (fst p) key" by simp
  moreover have "al_put eq key v al = xs @ (key, v) # ys"
    using assms al by (simp add: al_put_replace)
  ultimately show ?thesis
    using assms al by (auto simp: al_distinct_def sorted_wrt_append dest: equivp_symp)
next
  case False
  with assms show ?thesis by (auto simp: al_put_def al_distinct_def sorted_wrt_append)
qed

lemma al_distinct_remove: "al_distinct eq al \<Longrightarrow> al_distinct eq (al_remove eq key al)"
  by (simp add: al_distinct_def al_remove_def sorted_wrt_filter)

section \<open>The invariant\<close>

definition live_index :: "nat \<Rightarrow> ('k, 'v) htable_entry list \<Rightarrow> nat set" where
  "live_index used ents = {j. j < used \<and> he_key (ents ! j) \<noteq> None}"

text \<open>What the callbacks must satisfy: the comparison is an equivalence and the hash respects it.\<close>

definition callbacks_ok :: "('k, 'v, 'c) pcl_htable \<Rightarrow> bool" where
  "callbacks_ok ht \<longleftrightarrow> equivp (ht_eq ht) \<and> (\<forall>a b. ht_eq ht a b \<longrightarrow> ht_hash ht a = ht_hash ht b)"

definition ht_wf :: "('k, 'v, 'c) pcl_htable \<Rightarrow> bool" where
  "ht_wf ht \<longleftrightarrow>
     (\<exists>k. 3 \<le> k \<and> k \<le> 30 \<and> ht_capacity ht = 2 ^ k) \<and> ht_table_mask ht = ht_capacity ht - 1
     \<and> length (ht_entries ht) = nat (ht_capacity ht)
     \<and> length (ht_entry_lookup ht) = nat (ht_capacity ht)
     \<and> 0 \<le> ht_count_used ht \<and> ht_count_used ht \<le> ht_capacity ht
     \<and> (\<exists>C. buckets_ok (ht_entries ht) (ht_entry_lookup ht)
             (live_index (nat (ht_count_used ht)) (ht_entries ht)) C)
     \<and> ht_count ht = int (length (ht_alist ht))
     \<and> al_distinct (ht_eq ht) (ht_alist ht)
     \<and> (\<forall>j \<in> live_index (nat (ht_count_used ht)) (ht_entries ht).
           he_code (ht_entries ht ! j) = ht_hash ht (the (he_key (ht_entries ht ! j))))
     \<and> ht_max_loadfac ht = MAX_LOADFAC \<and> ht_min_loadfac ht = MIN_LOADFAC
     \<and> callbacks_ok ht"

lemma ht_wf_capacity:
  assumes "ht_wf ht"
  obtains k where "3 \<le> k" "k \<le> 30" "ht_capacity ht = 2 ^ k" "length (ht_entries ht) = 2 ^ k"
    "length (ht_entry_lookup ht) = 2 ^ k" "ht_table_mask ht = 2 ^ k - 1"
    "int (length (ht_entry_lookup ht)) - 1 = ht_table_mask ht"
  using assms by (auto simp: ht_wf_def nat_power_eq)

lemma live_index_bound: "used \<le> length ents \<Longrightarrow> \<forall>j \<in> live_index used ents. j < length ents"
  by (auto simp: live_index_def)

lemma live_pairs_payload:
  "live_pairs (map payload es)
     = map (\<lambda>e. (the (he_key e), he_value e)) (filter (\<lambda>e. he_key e \<noteq> None) es)"
  by (induction es) (auto simp: payload_def)

lemma ht_alist_set:
  assumes "ht_wf ht"
  shows "set (ht_alist ht) = (\<lambda>j. (the (he_key (ht_entries ht ! j)), he_value (ht_entries ht ! j)))
    ` live_index (nat (ht_count_used ht)) (ht_entries ht)"
proof -
  have "nat (ht_count_used ht) \<le> length (ht_entries ht)"
    using assms by (auto simp: ht_wf_def)
  then have "set (take (nat (ht_count_used ht)) (ht_entries ht))
      = (\<lambda>j. ht_entries ht ! j) ` {..< nat (ht_count_used ht)}"
    by (metis nth_image atLeast0LessThan)
  moreover have "{e \<in> (\<lambda>j. ht_entries ht ! j) ` {..< n}. he_key e \<noteq> None}
      = (\<lambda>j. ht_entries ht ! j) ` live_index n (ht_entries ht)" for n
    by (auto simp: live_index_def)
  ultimately show ?thesis
    by (simp add: ht_alist_def live_pairs_payload image_image)
qed

text \<open>A live entry splits the association list at its place.\<close>

lemma ht_alist_split:
  assumes "ht_wf ht" "j \<in> live_index (nat (ht_count_used ht)) (ht_entries ht)"
  defines "ps \<equiv> map payload (take (nat (ht_count_used ht)) (ht_entries ht))"
  shows "ht_alist ht = live_pairs (take j ps)
    @ (the (he_key (ht_entries ht ! j)), he_value (ht_entries ht ! j)) # live_pairs (drop (Suc j) ps)"
    and "live_pairs (ps[j := (Some k, v, x)])
      = live_pairs (take j ps) @ (k, v) # live_pairs (drop (Suc j) ps)"
    and "live_pairs (ps[j := (None, v, x)]) = live_pairs (take j ps) @ live_pairs (drop (Suc j) ps)"
proof -
  have "nat (ht_count_used ht) \<le> length (ht_entries ht)"
    using assms by (auto simp: ht_wf_def)
  then have "j < length ps" "ps ! j = (Some (the (he_key (ht_entries ht ! j))),
      he_value (ht_entries ht ! j), he_code (ht_entries ht ! j))"
    using assms(2) by (auto simp: ps_def live_index_def payload_def)
  note * = live_pairs_map_upd [OF this]
  show "ht_alist ht = live_pairs (take j ps)
    @ (the (he_key (ht_entries ht ! j)), he_value (ht_entries ht ! j)) # live_pairs (drop (Suc j) ps)"
    unfolding ht_alist_def ps_def [symmetric] by (rule *(1))
  show "live_pairs (ps[j := (Some k, v, x)])
      = live_pairs (take j ps) @ (k, v) # live_pairs (drop (Suc j) ps)"
    by (rule *(2))
  show "live_pairs (ps[j := (None, v, x)]) = live_pairs (take j ps) @ live_pairs (drop (Suc j) ps)"
    by (rule *(3))
qed

text \<open>The lookup finds the live entry whose key is equal, or there is none.\<close>

lemma chain_lookup:
  assumes "ht_wf ht"
  obtains (found) C b n where
    "buckets_ok (ht_entries ht) (ht_entry_lookup ht)
       (live_index (nat (ht_count_used ht)) (ht_entries ht)) C"
    "b < length (ht_entry_lookup ht)" "hash_index (ht_hash ht key) (ht_table_mask ht) = int b"
    "n < length (C b)" "C b ! n \<in> live_index (nat (ht_count_used ht)) (ht_entries ht)"
    "ht_eq ht (the (he_key (ht_entries ht ! (C b ! n)))) key"
    "chain_find (ht_eq ht) (ht_entries ht) (ht_hash ht key) key None (ht_entry_lookup ht ! b)
      = Some (Some (int (C b ! n), if n = 0 then None else Some (int (C b ! (n - 1)))))"
  | (missing) C b where
    "buckets_ok (ht_entries ht) (ht_entry_lookup ht)
       (live_index (nat (ht_count_used ht)) (ht_entries ht)) C"
    "b < length (ht_entry_lookup ht)" "hash_index (ht_hash ht key) (ht_table_mask ht) = int b"
    "\<forall>p \<in> set (ht_alist ht). \<not> ht_eq ht (fst p) key"
    "chain_find (ht_eq ht) (ht_entries ht) (ht_hash ht key) key None (ht_entry_lookup ht ! b)
      = Some None"
proof -
  let ?L = "live_index (nat (ht_count_used ht)) (ht_entries ht)"
  let ?P = "\<lambda>j. he_code (ht_entries ht ! j) = ht_hash ht key
          \<and> ht_eq ht (the (he_key (ht_entries ht ! j))) key"
  obtain C where C: "buckets_ok (ht_entries ht) (ht_entry_lookup ht) ?L C"
    using assms by (auto simp: ht_wf_def)
  from assms(1) obtain k where k: "k \<le> 30" "length (ht_entry_lookup ht) = 2 ^ k"
    "ht_table_mask ht = 2 ^ k - 1" "int (length (ht_entry_lookup ht)) - 1 = ht_table_mask ht"
    by (rule ht_wf_capacity)
  obtain b where b: "hash_index (ht_hash ht key) (ht_table_mask ht) = int b"
    "b < length (ht_entry_lookup ht)"
  proof -
    have "0 \<le> hash_index (ht_hash ht key) (ht_table_mask ht)"
      "hash_index (ht_hash ht key) (ht_table_mask ht) < 2 ^ k"
      using hash_index_range [OF k(1) refl, of "ht_hash ht key"] k(3) by simp_all
    then obtain b where "hash_index (ht_hash ht key) (ht_table_mask ht) = int b" "int b < int (2 ^ k)"
      by (metis nonneg_int_cases of_nat_numeral of_nat_power)
    then show ?thesis using that [of b] k(2) by (simp only: of_nat_less_iff)
  qed
  have set: "set (C b) = {j \<in> ?L. hash_index (he_code (ht_entries ht ! j)) (ht_table_mask ht) = int b}"
    using C b(2) k(4) by (auto simp: buckets_ok_def)
  have key: "\<forall>j \<in> set (C b). he_key (ht_entries ht ! j) \<noteq> None"
    unfolding set by (auto simp: live_index_def)
  have "chain (ht_entries ht) (ht_entry_lookup ht ! b) (C b)"
    using C b(2) by (auto simp: buckets_ok_def)
  note find = chain_find_ok [OF this key, of "ht_eq ht" "ht_hash ht key" key None]
  show ?thesis
  proof (cases "find_index ?P (C b)")
    case (Some n)
    from find_index_SomeD [OF Some] have n: "n < length (C b)" "?P (C b ! n)" by auto
    then have "C b ! n \<in> ?L" using nth_mem [OF n(1)] unfolding set by simp
    then show ?thesis using C b n find Some by (intro found [of C b n]) auto
  next
    case None
    have "\<forall>p \<in> set (ht_alist ht). \<not> ht_eq ht (fst p) key"
    proof
      fix p assume "p \<in> set (ht_alist ht)"
      then obtain j where j: "j \<in> ?L" "fst p = the (he_key (ht_entries ht ! j))"
        using ht_alist_set [OF assms(1)] by auto
      show "\<not> ht_eq ht (fst p) key"
      proof
        assume eq: "ht_eq ht (fst p) key"
        with assms(1) j have "he_code (ht_entries ht ! j) = ht_hash ht key"
          by (auto simp: ht_wf_def callbacks_ok_def)
        moreover from this j(1) b(1) have "j \<in> set (C b)" unfolding set by simp
        ultimately show False using None eq j(2) by (auto simp: find_index_None)
      qed
    qed
    then show ?thesis using C b find None by (intro missing [of C b]) auto
  qed
qed

text \<open>\<open>ipcl_htable_lookup\<close> on a well-formed table.\<close>

lemma htable_lookup_cases:
  assumes "ht_wf ht"
  obtains (found) j b where "j \<in> live_index (nat (ht_count_used ht)) (ht_entries ht)"
    "ht_eq ht (the (he_key (ht_entries ht ! j))) key"
    "ipcl_htable_lookup ht key w = Some (Some (int j), ht_hash ht key, int b, w)"
  | (missing) b where "\<forall>p \<in> set (ht_alist ht). \<not> ht_eq ht (fst p) key"
    "b < length (ht_entry_lookup ht)" "hash_index (ht_hash ht key) (ht_table_mask ht) = int b"
    "ipcl_htable_lookup ht key w = Some (None, ht_hash ht key, int b,
        snd (SETERR (''htable_lookup.c'', ''ipcl_htable_lookup'', 71) PCL_ENOTFOUND w))"
  using assms
proof (cases rule: chain_lookup [of ht key])
  case (found C b n)
  then show ?thesis
    by (intro that(1) [of "C b ! n" b]) (auto simp: ipcl_htable_lookup_def rd_int Let_def)
next
  case (missing C b)
  then show ?thesis
    by (intro that(2) [of b]) (auto simp: ipcl_htable_lookup_def rd_int Let_def)
qed

section \<open>Getting\<close>

lemma htable_get_ok:
  assumes "ht_wf ht"
  shows "pcl_htable_get (Some ht) (Some key) w = Some (case al_get (ht_eq ht) key (ht_alist ht) of
      Some v \<Rightarrow> (v, snd (pcl_err_clear w))
    | None \<Rightarrow> R_TRC None (''htable_get.c'', ''pcl_htable_get'', 41)
        (snd (R_TRC (None :: ('k, 'v) htable_entry option)
           (''htable_lookup.c'', ''pcl_htable_lookup'', 43)
           (snd (SETERR (''htable_lookup.c'', ''ipcl_htable_lookup'', 71) PCL_ENOTFOUND w)))))"
  using assms
proof (cases rule: htable_lookup_cases [of ht key w])
  case (found j b)
  then have "j < length (ht_entries ht)" using assms by (auto simp: live_index_def ht_wf_def)
  moreover have "al_get (ht_eq ht) key (ht_alist ht) = Some (he_value (ht_entries ht ! j))"
    using assms found(2) unfolding ht_alist_split(1) [OF assms found(1)]
    by (intro al_get_one)
      (auto simp: ht_wf_def callbacks_ok_def simp flip: ht_alist_split(1) [OF assms found(1)])
  ultimately show ?thesis
    using found(3) by (simp add: pcl_htable_get_def pcl_htable_lookup_def rd_int)
next
  case (missing b)
  then show ?thesis
    using missing(4)
    by (simp add: pcl_htable_get_def pcl_htable_lookup_def al_get_None R_TRC_def)
qed

end
