(* ===== verification/PclHtableOk.thy ===== *)
theory PclHtableOk imports PclHtableInv begin

text \<open>
  Correctness of the operations that change a hash table: each one implements the matching
  operation on the ordered association list and keeps \<open>ht_wf\<close>. The table is an interpretation of
  the interface \<open>dictionary\<close>.
\<close>

section \<open>Rehashing\<close>

lemma live_pairs_all: "\<forall>e \<in> set es. he_key e \<noteq> None \<Longrightarrow> length (live_pairs (map payload es)) = length es"
  by (simp add: live_pairs_payload filter_id_conv)

text \<open>The loop copies the live entries from \<open>i\<close> on behind the \<open>m\<close> entries already copied.\<close>

lemma rehash_loop_ok:
  assumes "i + n \<le> length old" "length lookup = 2 ^ k" "k \<le> 30" "length ents = 2 ^ k"
    "m + length (live_pairs (map payload (take n (drop i old)))) \<le> 2 ^ k"
    "buckets_ok ents lookup {..< m} C"
  shows "\<exists>ents' lookup' C'. rehash_loop old (2 ^ k - 1) i n (int m) ents lookup = Some (ents', lookup')
    \<and> length ents' = 2 ^ k \<and> length lookup' = 2 ^ k
    \<and> buckets_ok ents' lookup' {..< m + length (live_pairs (map payload (take n (drop i old))))} C'
    \<and> map payload (take (m + length (live_pairs (map payload (take n (drop i old))))) ents')
       = map payload (take m ents)
         @ map payload (filter (\<lambda>e. he_key e \<noteq> None) (take n (drop i old)))"
  using assms
proof (induction n arbitrary: i m ents lookup C)
  case (Suc n)
  have dr: "take (Suc n) (drop i old) = old ! i # take n (drop (Suc i) old)"
    using Suc.prems(1) by (simp add: Cons_nth_drop_Suc [symmetric])
  have rd: "rd old (int i) = Some (old ! i)" using Suc.prems(1) by (simp add: rd_int)
  show ?case
  proof (cases "he_key (old ! i)")
    case None
    then have "payload (old ! i) = (None, he_value (old ! i), he_code (old ! i))"
      by (simp add: payload_def)
    with Suc.IH [of "Suc i" lookup ents m C] Suc.prems None show ?thesis
      by (simp add: dr rd)
  next
    case (Some key)
    define rest where "rest = take n (drop (Suc i) old)"
    define l where "l = length (live_pairs (map payload rest))"
    have pay: "payload (old ! i) = (Some key, he_value (old ! i), he_code (old ! i))"
      using Some by (simp add: payload_def)
    have m: "m + Suc l \<le> 2 ^ k" using Suc.prems(5) by (simp add: dr pay rest_def l_def)
    define hi where "hi = hash_index (he_code (old ! i)) (2 ^ k - 1)"
    have "0 \<le> hi" "hi < 2 ^ k"
      using hash_index_range [OF Suc.prems(3) refl, of "he_code (old ! i)"] by (simp_all add: hi_def)
    then obtain b where b: "hi = int b" "b < 2 ^ k"
      by (metis nonneg_int_cases of_nat_less_iff of_nat_numeral of_nat_power)
    have L: "\<forall>j \<in> {..< m}. j < length ents" "m < length ents" "m \<notin> {..< m}"
      using m Suc.prems(4) by auto
    have hb: "hash_index (he_code (old ! i)) (int (length lookup) - 1) = int b" "b < length lookup"
      using b Suc.prems(2) by (simp_all add: hi_def)
    from entry_link_ok [OF Suc.prems(6) L hb, of "Some key" "he_value (old ! i)"]
    obtain ents1 lookup1 C1 where link:
      "entry_link (Some key) (he_value (old ! i)) (he_code (old ! i)) (int b) (int m) ents lookup
         = Some (ents1, lookup1)"
      "length ents1 = length ents" "length lookup1 = length lookup"
      "buckets_ok ents1 lookup1 (insert m {..< m}) C1"
      "map payload ents1 = (map payload ents)[m := (Some key, he_value (old ! i), he_code (old ! i))]"
      by blast
    have "insert m {..< m} = {..< Suc m}" by auto
    then have B1: "buckets_ok ents1 lookup1 {..< Suc m} C1" using link(4) by simp
    have "i + Suc n \<le> length old" by (rule Suc.prems(1))
    then obtain ents' lookup' C' where
      r: "rehash_loop old (2 ^ k - 1) (Suc i) n (int (Suc m)) ents1 lookup1 = Some (ents', lookup')"
      "length ents' = 2 ^ k" "length lookup' = 2 ^ k"
      "buckets_ok ents' lookup' {..< Suc m + l} C'"
      "map payload (take (Suc m + l) ents')
        = map payload (take (Suc m) ents1) @ map payload (filter (\<lambda>e. he_key e \<noteq> None) rest)"
      using Suc.IH [of "Suc i" lookup1 ents1 "Suc m" C1] B1 m link(2,3) Suc.prems(2,3,4)
      unfolding rest_def [symmetric] l_def [symmetric] by auto
    have "map payload (take (Suc m) ents1) = map payload (take m ents) @ [payload (old ! i)]"
      using L(2) by (simp add: take_map [symmetric] link(5) pay del: take_map)
    moreover have len: "m + length (live_pairs (map payload (take (Suc n) (drop i old)))) = Suc m + l"
      by (simp add: dr pay rest_def l_def)
    moreover have "filter (\<lambda>e. he_key e \<noteq> None) (take (Suc n) (drop i old))
        = old ! i # filter (\<lambda>e. he_key e \<noteq> None) rest"
      using Some by (simp add: dr rest_def)
    moreover have "rehash_loop old (2 ^ k - 1) i (Suc n) (int m) ents lookup = Some (ents', lookup')"
      using link(1) b(1) Some r(1) by (simp add: rd hi_def add.commute)
    ultimately show ?thesis
      using r(2-5) unfolding len
      by (intro exI [of _ ents'] exI [of _ lookup'] exI [of _ C']) (simp del: rehash_loop.simps)
  qed
qed auto

lemma ht_fun_upd [simp]:
  "ht_eq (ht_entries_update f ht) = ht_eq ht" "ht_hash (ht_entries_update f ht) = ht_hash ht"
  "ht_eq (ht_entry_lookup_update g ht) = ht_eq ht"
  "ht_hash (ht_entry_lookup_update g ht) = ht_hash ht"
  "ht_eq (ht_count_update h ht) = ht_eq ht" "ht_hash (ht_count_update h ht) = ht_hash ht"
  "ht_eq (ht_count_used_update h ht) = ht_eq ht" "ht_hash (ht_count_used_update h ht) = ht_hash ht"
  "ht_eq (ht_capacity_update h ht) = ht_eq ht" "ht_hash (ht_capacity_update h ht) = ht_hash ht"
  "ht_eq (ht_table_mask_update h ht) = ht_eq ht" "ht_hash (ht_table_mask_update h ht) = ht_hash ht"
  by (simp_all add: ht_eq_def ht_hash_def fun_eq_iff)

lemma callbacks_ok_cong: "ht_eq h = ht_eq g \<Longrightarrow> ht_hash h = ht_hash g \<Longrightarrow> callbacks_ok h = callbacks_ok g"
  by (simp add: callbacks_ok_def)

text \<open>The entries of a table, as far as the invariant looks at them.\<close>

definition ht_payloads :: "('k, 'v, 'c) pcl_htable \<Rightarrow> ('k option \<times> 'v option \<times> 64 word) list" where
  "ht_payloads ht = map payload (take (nat (ht_count_used ht)) (ht_entries ht))"

definition codes_ok :: "('k \<Rightarrow> 64 word) \<Rightarrow> ('k option \<times> 'v option \<times> 64 word) list \<Rightarrow> bool" where
  "codes_ok hash ps \<longleftrightarrow> (\<forall>k v c. (Some k, v, c) \<in> set ps \<longrightarrow> c = hash k)"

lemma codes_ok_insert:
  assumes "set qs \<subseteq> insert (ko, v, c) (set ps)" "\<And>k. ko = Some k \<Longrightarrow> c = h k" "codes_ok g ps" "h = g"
  shows "codes_ok h qs"
  using assms by (auto simp: codes_ok_def)

lemma codes_ok_iff:
  assumes "nat (ht_count_used ht) \<le> length (ht_entries ht)"
  shows "codes_ok (ht_hash ht) (ht_payloads ht) \<longleftrightarrow>
    (\<forall>j \<in> live_index (nat (ht_count_used ht)) (ht_entries ht).
       he_code (ht_entries ht ! j) = ht_hash ht (the (he_key (ht_entries ht ! j))))"
proof -
  have "set (ht_payloads ht) = (\<lambda>j. payload (ht_entries ht ! j)) ` {..< nat (ht_count_used ht)}"
    using assms by (simp add: ht_payloads_def image_image
        flip: nth_image [OF assms, unfolded atLeast0LessThan])
  then have mem: "p \<in> set (ht_payloads ht) \<longleftrightarrow>
      (\<exists>j < nat (ht_count_used ht). p = payload (ht_entries ht ! j))" for p by auto
  show ?thesis
  proof
    assume c: "codes_ok (ht_hash ht) (ht_payloads ht)"
    show "\<forall>j \<in> live_index (nat (ht_count_used ht)) (ht_entries ht).
       he_code (ht_entries ht ! j) = ht_hash ht (the (he_key (ht_entries ht ! j)))"
    proof
      fix j assume "j \<in> live_index (nat (ht_count_used ht)) (ht_entries ht)"
      then obtain k where j: "j < nat (ht_count_used ht)" "he_key (ht_entries ht ! j) = Some k"
        by (auto simp: live_index_def)
      then have "(Some k, he_value (ht_entries ht ! j), he_code (ht_entries ht ! j))
          \<in> set (ht_payloads ht)"
        unfolding mem by (intro exI [of _ j]) (simp add: payload_def)
      with c j show "he_code (ht_entries ht ! j) = ht_hash ht (the (he_key (ht_entries ht ! j)))"
        by (auto simp: codes_ok_def)
    qed
  next
    assume "\<forall>j \<in> live_index (nat (ht_count_used ht)) (ht_entries ht).
       he_code (ht_entries ht ! j) = ht_hash ht (the (he_key (ht_entries ht ! j)))"
    note live = this
    show "codes_ok (ht_hash ht) (ht_payloads ht)"
      unfolding codes_ok_def mem
    proof (intro allI impI)
      fix k v c
      assume "\<exists>j < nat (ht_count_used ht). (Some k, v, c) = payload (ht_entries ht ! j)"
      then obtain j where j: "j < nat (ht_count_used ht)" "he_key (ht_entries ht ! j) = Some k"
        "he_code (ht_entries ht ! j) = c"
        by (auto simp: payload_def)
      then have "j \<in> live_index (nat (ht_count_used ht)) (ht_entries ht)"
        by (simp add: live_index_def)
      with live j show "c = ht_hash ht k" by auto
    qed
  qed
qed

lemma ht_alist_payloads: "ht_alist ht = live_pairs (ht_payloads ht)"
  by (simp add: ht_alist_def ht_payloads_def)

text \<open>Building the invariant from its parts.\<close>

lemma ht_wfI:
  assumes "3 \<le> k" "k \<le> 30" "ht_capacity ht = 2 ^ k" "ht_table_mask ht = 2 ^ k - 1"
    "length (ht_entries ht) = 2 ^ k" "length (ht_entry_lookup ht) = 2 ^ k"
    "ht_count_used ht = int used" "used \<le> 2 ^ k"
    "buckets_ok (ht_entries ht) (ht_entry_lookup ht) (live_index used (ht_entries ht)) C"
    "ht_count ht = int (length (ht_alist ht))" "al_distinct (ht_eq ht) (ht_alist ht)"
    "codes_ok (ht_hash ht) (ht_payloads ht)"
    "ht_max_loadfac ht = MAX_LOADFAC" "ht_min_loadfac ht = MIN_LOADFAC" "callbacks_ok ht"
  shows "ht_wf ht"
proof -
  have "int used \<le> int (2 ^ k)" using assms(8) by (simp only: of_nat_le_iff)
  then have "int used \<le> 2 ^ k" by simp
  moreover have u: "nat (ht_count_used ht) = used" using assms(7) by simp
  moreover from this have "nat (ht_count_used ht) \<le> length (ht_entries ht)" using assms(5,8) by simp
  note codes_ok_iff [OF this, THEN iffD1, OF assms(12)]
  ultimately show ?thesis
    unfolding ht_wf_def u using assms(1-11,13-15) by (intro conjI) (auto simp: nat_power_eq)
qed

lemma ht_wfE:
  assumes "ht_wf ht"
  obtains k used C where "3 \<le> k" "k \<le> 30" "ht_capacity ht = 2 ^ k" "ht_table_mask ht = 2 ^ k - 1"
    "length (ht_entries ht) = 2 ^ k" "length (ht_entry_lookup ht) = 2 ^ k"
    "ht_count_used ht = int used" "used \<le> 2 ^ k"
    "buckets_ok (ht_entries ht) (ht_entry_lookup ht) (live_index used (ht_entries ht)) C"
    "ht_count ht = int (length (ht_alist ht))" "al_distinct (ht_eq ht) (ht_alist ht)"
    "codes_ok (ht_hash ht) (ht_payloads ht)"
    "ht_max_loadfac ht = MAX_LOADFAC" "ht_min_loadfac ht = MIN_LOADFAC" "callbacks_ok ht"
proof -
  obtain k C where k: "3 \<le> k" "k \<le> 30" "ht_capacity ht = 2 ^ k"
    "buckets_ok (ht_entries ht) (ht_entry_lookup ht)
       (live_index (nat (ht_count_used ht)) (ht_entries ht)) C"
    using assms by (auto simp: ht_wf_def)
  have "nat (ht_count_used ht) \<le> 2 ^ k"
    using assms k(3) by (simp add: ht_wf_def nat_le_iff)
  moreover from this have "nat (ht_count_used ht) \<le> length (ht_entries ht)"
    using assms k(3) by (simp add: ht_wf_def nat_power_eq)
  ultimately show ?thesis
    using assms k by (intro that [of k "nat (ht_count_used ht)" C])
      (auto simp: ht_wf_def codes_ok_iff nat_power_eq)
qed

lemma rehash_ok:
  assumes "ht_wf ht" "ht_capacity ht = 2 ^ k"
    "if grow then k < 30 \<and> k' = Suc k else 3 < k \<and> k = Suc k'" "ht_count ht \<le> 2 ^ k'"
  obtains ht' where "ipcl_htable_rehash ht grow w = Some (0, ht', w)" "ht_wf ht'"
    "ht_alist ht' = ht_alist ht" "ht_count ht' = ht_count ht" "ht_count_used ht' = ht_count ht"
    "ht_capacity ht' = 2 ^ k'" "ht_eq ht' = ht_eq ht" "ht_hash ht' = ht_hash ht"
    "ht_remove_entry ht' = ht_remove_entry ht"
proof -
  from assms(1) obtain k0 used C where wf: "3 \<le> k0" "k0 \<le> 30" "ht_capacity ht = 2 ^ k0"
    "length (ht_entries ht) = 2 ^ k0" "ht_count_used ht = int used" "used \<le> 2 ^ k0"
    "ht_count ht = int (length (ht_alist ht))" "al_distinct (ht_eq ht) (ht_alist ht)"
    "codes_ok (ht_hash ht) (ht_payloads ht)" "ht_max_loadfac ht = MAX_LOADFAC"
    "ht_min_loadfac ht = MIN_LOADFAC" "callbacks_ok ht"
    by (rule ht_wfE)
  have k0: "k0 = k" using wf(3) assms(2) by simp
  have k': "3 \<le> k'" "k' \<le> 30" using assms(3) wf(1,2) k0 by (auto split: if_splits)
  have cap: "(if grow then push_bit 1 (word_of_int (2 ^ k)) else drop_bit 1 (word_of_int (2 ^ k)))
      = (2 ^ k' :: 64 word)"
  proof (cases grow)
    case True
    with assms(3) show ?thesis by (simp add: push_bit_eq_mult)
  next
    case False
    with assms(3) k'(2) have "drop_bit 1 (2 ^ Suc k' :: 64 word) = 2 ^ k'"
      by (intro bit_word_eqI) (auto simp: bit_drop_bit_eq bit_exp_iff simp del: power_Suc)
    with False assms(3) show ?thesis by simp
  qed
  define es where "es = take used (ht_entries ht)"
  define c where "c = length (live_pairs (map payload es))"
  have c1: "ht_count ht = int c" using wf(5,7) by (simp add: c_def es_def ht_alist_def)
  then have "int c \<le> int (2 ^ k')" using assms(4) by simp
  then have c: "ht_count ht = int c" "c \<le> 2 ^ k'" using c1 by (simp_all only: of_nat_le_iff)
  have "buckets_ok (replicate (2 ^ k') zero_entry) (replicate (2 ^ k') (- 1))
      {..< 0} (\<lambda>_. [])"
    by (simp add: buckets_ok_def)
  with rehash_loop_ok [of 0 used "ht_entries ht" "replicate (2 ^ k') (-1)" k'
      "replicate (2 ^ k') zero_entry" 0 "\<lambda>_. []"] k'(2) wf(4,6) c(2)
  obtain ents lookup C' where r:
    "rehash_loop (ht_entries ht) (2 ^ k' - 1) 0 used 0 (replicate (2 ^ k') zero_entry)
      (replicate (2 ^ k') (- 1)) = Some (ents, lookup)"
    "length ents = 2 ^ k'" "length lookup = 2 ^ k'" "buckets_ok ents lookup {..< c} C'"
    "map payload (take c ents) = map payload (filter (\<lambda>e. he_key e \<noteq> None) es)"
    unfolding es_def [symmetric] by (auto simp: es_def c_def)
  define ht' where "ht' = ht\<lparr>ht_capacity := 2 ^ k', ht_table_mask := 2 ^ k' - 1,
    ht_entries := ents, ht_entry_lookup := lookup, ht_count_used := ht_count ht\<rparr>"
  have "ipcl_htable_rehash ht grow w = Some (0, ht', w)"
    using r(1)
    by (simp only: ipcl_htable_rehash_def assms(2) Let_def cap chkcapacity_pow [OF k', of w] prod.case)
      (simp add: ipcl_htable_init_def nat_power_eq ht'_def not_less wf(5))
  moreover have pl: "ht_payloads ht' = map payload (filter (\<lambda>e. he_key e \<noteq> None) es)"
    using r(5) c(1) by (simp add: ht_payloads_def ht'_def)
  moreover have al: "ht_alist ht' = ht_alist ht"
    unfolding ht_alist_payloads pl by (simp add: live_pairs_payload ht_payloads_def es_def wf(5))
  moreover have "ht_wf ht'"
  proof (rule ht_wfI [of k' _ c C'])
    have "set (ht_payloads ht') \<subseteq> set (ht_payloads ht)"
      unfolding pl by (auto simp: ht_payloads_def es_def wf(5))
    then show "codes_ok (ht_hash ht') (ht_payloads ht')"
      using wf(9) by (auto simp: codes_ok_def ht'_def)
    have "\<forall>j < c. he_key (ents ! j) \<noteq> None"
    proof (intro allI impI)
      fix j assume j: "j < c"
      then have "payload (ents ! j) = map payload (take c ents) ! j" using r(2) c(2) by simp
      also have "\<dots> \<in> set (map payload (take c ents))" using j r(2) c(2) by (intro nth_mem) simp
      finally show "he_key (ents ! j) \<noteq> None" unfolding r(5) by (auto simp: payload_def)
    qed
    then have "live_index c ents = {..< c}" by (auto simp: live_index_def)
    then show "buckets_ok (ht_entries ht') (ht_entry_lookup ht') (live_index c (ht_entries ht')) C'"
      using r(4) by (simp add: ht'_def)
    show "callbacks_ok ht'" using wf(12) by (simp add: ht'_def callbacks_ok_def)
    show "ht_count ht' = int (length (ht_alist ht'))" using wf(7) by (simp add: al) (simp add: ht'_def)
    show "al_distinct (ht_eq ht') (ht_alist ht')" using wf(8) by (simp add: al) (simp add: ht'_def)
  qed (use k' c r wf in \<open>simp_all add: ht'_def\<close>)
  ultimately show ?thesis by (intro that [of ht']) (simp_all add: ht'_def)
qed

section \<open>Putting\<close>

lemma buckets_cong:
  assumes "buckets_ok ents lookup L C" "length ents' = length ents"
    "\<And>j. j \<in> L \<Longrightarrow> he_next (ents' ! j) = he_next (ents ! j) \<and> he_code (ents' ! j) = he_code (ents ! j)"
  shows "buckets_ok ents' lookup L C"
  unfolding buckets_ok_def
proof (intro allI impI)
  fix b assume b: "b < length lookup"
  then have C: "chain ents (lookup ! b) (C b)" "distinct (C b)"
    "set (C b) = {j \<in> L. hash_index (he_code (ents ! j)) (int (length lookup) - 1) = int b}"
    using assms(1) by (auto simp: buckets_ok_def)
  moreover have "chain ents' (lookup ! b) (C b) = chain ents (lookup ! b) (C b)"
    using assms(2,3) C(3) by (intro chain_cong) auto
  moreover have "{j \<in> L. hash_index (he_code (ents' ! j)) (int (length lookup) - 1) = int b}
      = {j \<in> L. hash_index (he_code (ents ! j)) (int (length lookup) - 1) = int b}"
    using assms(3) by auto
  ultimately show "chain ents' (lookup ! b) (C b) \<and> distinct (C b)
      \<and> set (C b) = {j \<in> L. hash_index (he_code (ents' ! j)) (int (length lookup) - 1) = int b}"
    by simp
qed

lemma al_put_split:
  assumes "ht_wf ht" "j \<in> live_index (nat (ht_count_used ht)) (ht_entries ht)"
    "ht_eq ht (the (he_key (ht_entries ht ! j))) key"
  shows "al_put (ht_eq ht) key v (ht_alist ht)
      = live_pairs ((ht_payloads ht)[j := (Some key, v, x)])"
    and "al_remove (ht_eq ht) key (ht_alist ht) = live_pairs ((ht_payloads ht)[j := (None, v, x)])"
    and "al_get (ht_eq ht) key (ht_alist ht) = Some (he_value (ht_entries ht ! j))"
proof -
  have d: "al_distinct (ht_eq ht) (ht_alist ht)" "equivp (ht_eq ht)"
    using assms(1) by (auto simp: ht_wf_def callbacks_ok_def)
  note sp = ht_alist_split [OF assms(1,2), folded ht_payloads_def]
  note d' = d(1) [unfolded sp(1)]
  show "al_put (ht_eq ht) key v (ht_alist ht)
      = live_pairs ((ht_payloads ht)[j := (Some key, v, x)])"
    unfolding sp by (rule al_put_replace [OF d' assms(3) d(2)])
  show "al_remove (ht_eq ht) key (ht_alist ht) = live_pairs ((ht_payloads ht)[j := (None, v, x)])"
    unfolding sp by (rule al_remove_one [OF d' assms(3) d(2)])
  show "al_get (ht_eq ht) key (ht_alist ht) = Some (he_value (ht_entries ht ! j))"
    unfolding sp by (rule al_get_one [OF d' assms(3) d(2)])
qed

lemma al_put_length:
  assumes "al_distinct eq al" "\<exists>p \<in> set al. eq (fst p) key"
  shows "length (al_put eq key v al) = length al"
  using assms by (simp add: al_put_def)

text \<open>Replacing key and value of a live entry.\<close>

lemma entry_replace_ok:
  fixes v :: "'v option"
  assumes "ht_wf ht" and j: "j \<in> live_index (nat (ht_count_used ht)) (ht_entries ht)"
    and eq: "ht_eq ht (the (he_key (ht_entries ht ! j))) key"
  defines "ht' \<equiv> ht\<lparr>ht_entries := (ht_entries ht)[j := (ht_entries ht ! j)\<lparr>he_key := Some key, he_value := v\<rparr>]\<rparr>"
  shows "ht_wf ht'" "ht_alist ht' = al_put (ht_eq ht) key v (ht_alist ht)"
proof -
  from assms(1) obtain k used C where wf: "3 \<le> k" "k \<le> 30" "ht_capacity ht = 2 ^ k"
    "ht_table_mask ht = 2 ^ k - 1" "length (ht_entries ht) = 2 ^ k"
    "length (ht_entry_lookup ht) = 2 ^ k" "ht_count_used ht = int used" "used \<le> 2 ^ k"
    "buckets_ok (ht_entries ht) (ht_entry_lookup ht) (live_index used (ht_entries ht)) C"
    "ht_count ht = int (length (ht_alist ht))" "al_distinct (ht_eq ht) (ht_alist ht)"
    "codes_ok (ht_hash ht) (ht_payloads ht)"
    "ht_max_loadfac ht = MAX_LOADFAC" "ht_min_loadfac ht = MIN_LOADFAC" "callbacks_ok ht"
    by (rule ht_wfE)
  have jl: "j < used" "j < length (ht_entries ht)" using j wf(5,7,8) by (auto simp: live_index_def)
  have code: "he_code (ht_entries ht ! j) = ht_hash ht key"
    using assms(1) j eq by (auto simp: ht_wf_def callbacks_ok_def)
  have pl: "ht_payloads ht' = (ht_payloads ht)[j := (Some key, v, ht_hash ht key)]"
    using jl code by (simp add: ht_payloads_def ht'_def wf(7) take_update_swap map_update payload_def)
  then show al: "ht_alist ht' = al_put (ht_eq ht) key v (ht_alist ht)"
    using al_put_split(1) [OF assms(1) j eq] by (simp add: ht_alist_payloads)
  have live: "live_index used (ht_entries ht') = live_index used (ht_entries ht)"
    using j wf(7) jl(2) by (auto simp: live_index_def ht'_def nth_list_update)
  have jp: "j < length (ht_payloads ht)" using jl by (simp add: ht_payloads_def wf(7))
  have ex: "\<exists>p \<in> set (ht_alist ht). ht_eq ht (fst p) key"
    using ht_alist_split(1) [OF assms(1) j] eq by auto
  show "ht_wf ht'"
  proof (rule ht_wfI [of k _ used C])
    show "buckets_ok (ht_entries ht') (ht_entry_lookup ht') (live_index used (ht_entries ht')) C"
    proof -
      have "ht_entry_lookup ht' = ht_entry_lookup ht" by (simp add: ht'_def)
      then show ?thesis
        unfolding live using buckets_cong [OF wf(9), of "ht_entries ht'"] jl(2)
        by (simp add: ht'_def nth_list_update)
    qed
    show "codes_ok (ht_hash ht') (ht_payloads ht')"
      unfolding pl
      by (rule codes_ok_insert [OF set_update_subset_insert _ wf(12)]) (auto simp: ht'_def)
    show "al_distinct (ht_eq ht') (ht_alist ht')"
      using wf(11,15) unfolding al by (simp add: ht'_def callbacks_ok_def al_distinct_put)
    show "ht_count ht' = int (length (ht_alist ht'))"
      using wf(10) unfolding al by (simp add: al_put_length [OF wf(11) ex]) (simp add: ht'_def)
    show "callbacks_ok ht'" using wf(15) by (simp add: ht'_def callbacks_ok_def)
  qed (use wf in \<open>simp_all add: ht'_def\<close>)
qed

text \<open>Filling the next free entry.\<close>

lemma entry_new_ok:
  assumes "ht_wf ht" "ht_count_used ht < ht_capacity ht"
    "\<forall>p \<in> set (ht_alist ht). \<not> ht_eq ht (fst p) key"
  obtains ents lookup where
    "entry_link (Some key) v (ht_hash ht key) (hash_index (ht_hash ht key) (ht_table_mask ht))
       (ht_count_used ht) (ht_entries ht) (ht_entry_lookup ht) = Some (ents, lookup)"
    "ht_wf (ht\<lparr>ht_entries := ents, ht_entry_lookup := lookup, ht_count := ht_count ht + 1,
        ht_count_used := ht_count_used ht + 1\<rparr>)"
    "ht_alist (ht\<lparr>ht_entries := ents, ht_entry_lookup := lookup, ht_count := ht_count ht + 1,
        ht_count_used := ht_count_used ht + 1\<rparr>) = ht_alist ht @ [(key, v)]"
proof -
  from assms(1) obtain k used C where wf: "3 \<le> k" "k \<le> 30" "ht_capacity ht = 2 ^ k"
    "ht_table_mask ht = 2 ^ k - 1" "length (ht_entries ht) = 2 ^ k"
    "length (ht_entry_lookup ht) = 2 ^ k" "ht_count_used ht = int used" "used \<le> 2 ^ k"
    "buckets_ok (ht_entries ht) (ht_entry_lookup ht) (live_index used (ht_entries ht)) C"
    "ht_count ht = int (length (ht_alist ht))" "al_distinct (ht_eq ht) (ht_alist ht)"
    "codes_ok (ht_hash ht) (ht_payloads ht)"
    "ht_max_loadfac ht = MAX_LOADFAC" "ht_min_loadfac ht = MIN_LOADFAC" "callbacks_ok ht"
    by (rule ht_wfE)
  have "int used < int (2 ^ k)" using assms(2) wf(3,7) by simp
  then have used: "used < 2 ^ k" by (simp only: of_nat_less_iff)
  define hi where "hi = hash_index (ht_hash ht key) (2 ^ k - 1)"
  have "0 \<le> hi" "hi < 2 ^ k"
    using hash_index_range [OF wf(2) refl, of "ht_hash ht key"] by (simp_all add: hi_def)
  then obtain b where b: "hi = int b" "b < 2 ^ k"
    by (metis nonneg_int_cases of_nat_less_iff of_nat_numeral of_nat_power)
  have L: "\<forall>j \<in> live_index used (ht_entries ht). j < length (ht_entries ht)"
    "used < length (ht_entries ht)" "used \<notin> live_index used (ht_entries ht)"
    using used wf(5) by (auto simp: live_index_def)
  have hb: "hash_index (ht_hash ht key) (int (length (ht_entry_lookup ht)) - 1) = int b"
    "b < length (ht_entry_lookup ht)"
    using b wf(6) by (simp_all add: hi_def)
  from entry_link_ok [OF wf(9) L hb, of "Some key" v]
  obtain ents lookup C1 where link:
    "entry_link (Some key) v (ht_hash ht key) (int b) (int used) (ht_entries ht) (ht_entry_lookup ht)
       = Some (ents, lookup)"
    "length ents = length (ht_entries ht)" "length lookup = length (ht_entry_lookup ht)"
    "buckets_ok ents lookup (insert used (live_index used (ht_entries ht))) C1"
    "map payload ents = (map payload (ht_entries ht))[used := (Some key, v, ht_hash ht key)]"
    by blast
  define ht' where "ht' = ht\<lparr>ht_entries := ents, ht_entry_lookup := lookup,
    ht_count := ht_count ht + 1, ht_count_used := ht_count_used ht + 1\<rparr>"
  have pn: "payload (ents ! j) = (if j = used then (Some key, v, ht_hash ht key)
      else payload (ht_entries ht ! j))" if "j < length ents" for j
    using that link(2,5) by (metis nth_list_update_eq nth_list_update_neq nth_map length_map)
  have live: "live_index (Suc used) ents = insert used (live_index used (ht_entries ht))"
  proof -
    have "he_key (ents ! j) = (if j = used then Some key else he_key (ht_entries ht ! j))"
      if "j < length ents" for j
      using pn [OF that] by (simp add: payload_def split: if_splits)
    then show ?thesis
      using L(2) link(2) by (auto simp: live_index_def less_Suc_eq)
  qed
  have nu: "nat (int used + 1) = Suc used" by simp
  have pl: "ht_payloads ht' = ht_payloads ht @ [(Some key, v, ht_hash ht key)]"
    using L(2) by (simp add: ht_payloads_def ht'_def wf(7) nu take_map [symmetric] link(5)
        del: take_map)
  then have al: "ht_alist ht' = ht_alist ht @ [(key, v)]"
    by (simp add: ht_alist_payloads)
  have "ht_wf ht'"
  proof (rule ht_wfI [of k _ "Suc used" C1])
    show "buckets_ok (ht_entries ht') (ht_entry_lookup ht') (live_index (Suc used) (ht_entries ht')) C1"
      using link(4) live by (simp add: ht'_def)
    show "codes_ok (ht_hash ht') (ht_payloads ht')"
      unfolding pl
      by (rule codes_ok_insert [where v = v and ko = "Some key" and c = "ht_hash ht key", OF _ _ wf(12)])
        (auto simp: ht'_def)
    show "al_distinct (ht_eq ht') (ht_alist ht')"
      using wf(11) assms(3) unfolding al by (auto simp: ht'_def al_distinct_def sorted_wrt_append)
    show "ht_count ht' = int (length (ht_alist ht'))"
      using wf(10) unfolding al by (simp add: ht'_def)
    show "callbacks_ok ht'" using wf(15) by (simp add: ht'_def callbacks_ok_def)
  qed (use wf link used in \<open>simp_all add: ht'_def\<close>)
  with al show ?thesis
    using link(1) b(1) by (intro that [of ents lookup]) (simp_all add: ht'_def wf(4,7) hi_def)
qed

text \<open>What \<open>pcl_htable_put\<close> needs: a free entry, or a rehash that makes room for one.\<close>

definition ht_room :: "('k, 'v, 'c) pcl_htable \<Rightarrow> bool" where
  "ht_room ht \<longleftrightarrow> ht_count_used ht < ht_capacity ht
     \<or> load_limit (ht_max_loadfac ht) (ht_capacity ht) \<le> ht_count ht"

definition ht_growable :: "('k, 'v, 'c) pcl_htable \<Rightarrow> bool" where
  "ht_growable ht \<longleftrightarrow> ht_capacity ht < 2 ^ 30
     \<or> ht_count ht < load_limit (ht_max_loadfac ht) (ht_capacity ht)"

text \<open>The call of the replaced entry's handler.\<close>

definition drop_pair ::
  "('c \<Rightarrow> 'k option \<Rightarrow> 'v option \<Rightarrow> 'w \<Rightarrow> 'w option) \<Rightarrow> 'c option \<Rightarrow> 'k option \<Rightarrow> 'v option \<Rightarrow>
     'w \<Rightarrow> 'w option" where
  "drop_pair call handler k v w = (case handler of Some c \<Rightarrow> call c k v w | None \<Rightarrow> Some w)"

lemma lookup_frozen_thaw:
  "pcl_err_freeze False (snd (SETERR l e (pcl_err_freeze True w))) = pcl_err_freeze False w"
  by (simp add: pcl_err_freeze_def macros_frozen)

lemma freeze_thaw: "pcl_err_freeze False (pcl_err_freeze True w) = pcl_err_freeze False w"
  by (simp add: pcl_err_freeze_def)

lemma ht_count_le_used: "ht_wf ht \<Longrightarrow> ht_count ht \<le> ht_count_used ht"
proof -
  assume wf: "ht_wf ht"
  have "length (ht_alist ht) \<le> length (ht_payloads ht)"
    unfolding ht_alist_payloads by (rule live_pairs_length)
  also have "\<dots> \<le> nat (ht_count_used ht)" by (simp add: ht_payloads_def)
  finally show ?thesis using wf by (auto simp: ht_wf_def)
qed

text \<open>A key that is not in the table is appended, whether or not the table is rehashed first.\<close>

lemma htable_put_new:
  assumes "ht_wf ht" "ht_room ht" "ht_growable ht"
    "\<forall>p \<in> set (ht_alist ht). \<not> ht_eq ht (fst p) key"
  obtains ht' where
    "pcl_htable_put call (Some ht) (Some key) v unique w = Some (0, Some ht', pcl_err_freeze False w)"
    "ht_wf ht'" "ht_alist ht' = ht_alist ht @ [(key, v)]"
    "ht_eq ht' = ht_eq ht" "ht_remove_entry ht' = ht_remove_entry ht"
    "ht_count_used ht' = (if load_limit (ht_max_loadfac ht) (ht_capacity ht) \<le> ht_count ht
       then ht_count ht + 1 else ht_count_used ht + 1)"
    "ht_count ht < load_limit (ht_max_loadfac ht) (ht_capacity ht) \<Longrightarrow> ht_capacity ht' = ht_capacity ht"
  using assms(1)
proof (cases rule: htable_lookup_cases [where ht = ht and w = "pcl_err_freeze True w" and key = key])
  case (found j b)
  then have "\<exists>p \<in> set (ht_alist ht). ht_eq ht (fst p) key"
    unfolding ht_alist_set [OF assms(1)] by auto
  with assms(4) show ?thesis by auto
next
  case (missing b)
  obtain ht1 where h1:
    "(if ht_count ht \<ge> load_limit (ht_max_loadfac ht) (ht_capacity ht)
      then do { (r, ht1, w2) \<leftarrow> ipcl_htable_rehash ht True (pcl_err_freeze False w);
                Some (r, ht1, hash_index (ht_hash ht key) (ht_table_mask ht1), w2) }
      else Some (0, ht, int b, pcl_err_freeze False w))
     = Some (0, ht1, hash_index (ht_hash ht key) (ht_table_mask ht1), pcl_err_freeze False w)"
    "ht_wf ht1" "ht_alist ht1 = ht_alist ht" "ht_eq ht1 = ht_eq ht" "ht_hash ht1 = ht_hash ht"
    "ht_remove_entry ht1 = ht_remove_entry ht" "ht_count_used ht1 < ht_capacity ht1"
    "ht_count_used ht1 = (if load_limit (ht_max_loadfac ht) (ht_capacity ht) \<le> ht_count ht
       then ht_count ht else ht_count_used ht)"
    "ht_count ht < load_limit (ht_max_loadfac ht) (ht_capacity ht) \<Longrightarrow> ht_capacity ht1 = ht_capacity ht"
  proof (cases "load_limit (ht_max_loadfac ht) (ht_capacity ht) \<le> ht_count ht")
    case True
    from assms(1) obtain k where k: "3 \<le> k" "k \<le> 30" "ht_capacity ht = 2 ^ k"
      by (rule ht_wf_capacity)
    have "(2::int) ^ k < 2 ^ 30" using assms(3) True k by (simp add: ht_growable_def)
    then have k30: "k < 30" by (auto intro: power_less_imp_less_exp [of "2::int"])
    have cnt: "ht_count ht \<le> 2 ^ k"
    proof (rule order_trans [OF ht_count_le_used [OF assms(1)]])
      show "ht_count_used ht \<le> 2 ^ k" using assms(1) k(3) by (simp add: ht_wf_def)
    qed
    then have "ht_count ht \<le> 2 ^ Suc k" by (rule order_trans) simp
    with rehash_ok [of ht k True "Suc k" "pcl_err_freeze False w"] assms(1) k k30
    obtain ht1 where r: "ipcl_htable_rehash ht True (pcl_err_freeze False w)
        = Some (0, ht1, pcl_err_freeze False w)" "ht_wf ht1"
      "ht_alist ht1 = ht_alist ht" "ht_count ht1 = ht_count ht" "ht_count_used ht1 = ht_count ht"
      "ht_capacity ht1 = 2 ^ Suc k" "ht_eq ht1 = ht_eq ht" "ht_hash ht1 = ht_hash ht"
      "ht_remove_entry ht1 = ht_remove_entry ht"
      by (auto simp del: power_Suc)
    moreover have "ht_count ht < 2 ^ Suc k"
      using cnt by (rule order_le_less_trans) simp
    ultimately show ?thesis using True by (intro that [of ht1]) (simp_all del: power_Suc)
  next
    case False
    with assms(1,2) missing(3) show ?thesis
      by (intro that [of ht]) (simp_all add: ht_room_def)
  qed
  have "\<forall>p \<in> set (ht_alist ht1). \<not> ht_eq ht1 (fst p) key" using missing(1) h1(3,4) by simp
  from entry_new_ok [OF h1(2,7) this, of v] obtain ents lookup where
    link: "entry_link (Some key) v (ht_hash ht1 key) (hash_index (ht_hash ht1 key) (ht_table_mask ht1))
       (ht_count_used ht1) (ht_entries ht1) (ht_entry_lookup ht1) = Some (ents, lookup)"
    "ht_wf (ht1\<lparr>ht_entries := ents, ht_entry_lookup := lookup, ht_count := ht_count ht1 + 1,
        ht_count_used := ht_count_used ht1 + 1\<rparr>)"
    "ht_alist (ht1\<lparr>ht_entries := ents, ht_entry_lookup := lookup, ht_count := ht_count ht1 + 1,
        ht_count_used := ht_count_used ht1 + 1\<rparr>) = ht_alist ht1 @ [(key, v)]"
    by blast
  have "pcl_htable_put call (Some ht) (Some key) v unique w
    = Some (0, Some (ht1\<lparr>ht_entries := ents, ht_entry_lookup := lookup,
        ht_count := ht_count ht1 + 1, ht_count_used := ht_count_used ht1 + 1\<rparr>),
        pcl_err_freeze False w)"
    using missing(4) h1(1) link(1) h1(5)
    by (simp add: pcl_htable_put_def lookup_frozen_thaw)
  then show ?thesis
    using link(2,3) h1(3,4,6,8,9)
    by (intro that [of "ht1\<lparr>ht_entries := ents, ht_entry_lookup := lookup,
        ht_count := ht_count ht1 + 1, ht_count_used := ht_count_used ht1 + 1\<rparr>"]) simp_all
qed

text \<open>A key that is there has its value and its key pointer replaced in place.\<close>

lemma htable_put_replace:
  assumes "ht_wf ht" "al_get (ht_eq ht) key (ht_alist ht) = Some v0"
    "\<exists>k0. drop_pair call (ht_remove_entry ht) (Some k0) v0 (pcl_err_freeze False w) = Some w'
       \<and> (k0, v0) \<in> set (ht_alist ht) \<and> ht_eq ht k0 key"
    "\<And>k. (k, v0) \<in> set (ht_alist ht) \<Longrightarrow> ht_eq ht k key \<Longrightarrow>
       drop_pair call (ht_remove_entry ht) (Some k) v0 (pcl_err_freeze False w) = Some w'"
  obtains ht' where "pcl_htable_put call (Some ht) (Some key) v False w = Some (0, Some ht', w')"
    "ht_wf ht'" "ht_alist ht' = al_put (ht_eq ht) key v (ht_alist ht)"
    "ht_eq ht' = ht_eq ht" "ht_remove_entry ht' = ht_remove_entry ht"
    "ht_count_used ht' = ht_count_used ht"
  using assms(1)
proof (cases rule: htable_lookup_cases [where ht = ht and w = "pcl_err_freeze True w" and key = key])
  case (found j b)
  define ht' where "ht' = ht\<lparr>ht_entries := (ht_entries ht)[j := (ht_entries ht ! j)
    \<lparr>he_key := Some key, he_value := v\<rparr>]\<rparr>"
  have j: "j < length (ht_entries ht)" "he_key (ht_entries ht ! j) \<noteq> None"
    using assms(1) found(1) by (auto simp: live_index_def ht_wf_def)
  have v0: "he_value (ht_entries ht ! j) = v0"
    using al_put_split(3) [OF assms(1) found(1,2)] assms(2) by simp
  have "(the (he_key (ht_entries ht ! j)), v0) \<in> set (ht_alist ht)"
    using found(1) v0 unfolding ht_alist_set [OF assms(1)] by auto
  then have "drop_pair call (ht_remove_entry ht) (he_key (ht_entries ht ! j)) v0
      (pcl_err_freeze False w) = Some w'"
    using assms(4) found(2) j(2) by auto
  then have "pcl_htable_put call (Some ht) (Some key) v False w = Some (0, Some ht', w')"
    using found(3) j v0
    by (cases "ht_remove_entry ht")
      (auto simp: pcl_htable_put_def rd_int wr_int freeze_thaw drop_pair_def ht'_def Let_def)
  then show ?thesis
    using entry_replace_ok [OF assms(1) found(1,2), of v, folded ht'_def]
    by (intro that [of ht']) (simp_all add: ht'_def)
next
  case (missing b)
  with assms(3) show ?thesis by auto
qed

lemma htable_put_unique_exists:
  assumes "ht_wf ht" "al_get (ht_eq ht) key (ht_alist ht) \<noteq> None"
  shows "pcl_htable_put call (Some ht) (Some key) v True w =
    Some (-1, Some ht, raised (''htable_put.c'', ''pcl_htable_put'', 53) PCL_EEXIST 0 None
      (pcl_err_freeze False w))"
  using assms(1)
proof (cases rule: htable_lookup_cases [where ht = ht and w = "pcl_err_freeze True w" and key = key])
  case (found j b)
  then show ?thesis
    by (simp add: pcl_htable_put_def freeze_thaw macros_thawed pcl_err_freeze_def)
next
  case (missing b)
  then show ?thesis using assms(2) by (simp add: al_get_None)
qed

section \<open>Removing\<close>

lemma entry_unlink_eq:
  assumes "j < length (ht_entries ht)" "b < length (ht_entry_lookup ht)"
    "\<And>p. prev = Some p \<Longrightarrow> 0 \<le> p \<and> nat p < length (ht_entries ht)"
  shows "entry_unlink ht (int b) (int j) prev
    = Some (ht\<lparr>ht_entries := fst (unlink (ht_entries ht) (ht_entry_lookup ht) b j prev),
               ht_entry_lookup := snd (unlink (ht_entries ht) (ht_entry_lookup ht) b j prev)\<rparr>)"
  using assms
  by (cases prev) (auto simp: entry_unlink_def unlink_def rd_def wr_def)

lemma shrink_bound: "x < load_limit MIN_LOADFAC (2 ^ Suc k) \<Longrightarrow> x \<le> 2 ^ k"
proof -
  assume "x < load_limit MIN_LOADFAC (2 ^ Suc k)"
  then have "x < 13421773 * (2 * 2 ^ k) div 67108864"
    by (simp add: load_limit_def MIN_LOADFAC_def)
  moreover have "(0::int) < 2 ^ k" by simp
  ultimately show "x \<le> 2 ^ k" by linarith
qed

text \<open>The table after the entry was unlinked and cleared, before a possible shrink.\<close>

lemma entry_delete_ok:
  assumes wf: "ht_wf ht"
    and B: "buckets_ok (ht_entries ht) (ht_entry_lookup ht)
       (live_index (nat (ht_count_used ht)) (ht_entries ht)) C"
    and b: "b < length (ht_entry_lookup ht)" and n: "n < length (C b)"
    and j: "C b ! n \<in> live_index (nat (ht_count_used ht)) (ht_entries ht)"
    and eq: "ht_eq ht (the (he_key (ht_entries ht ! (C b ! n)))) key"
    and prev: "prev = (if n = 0 then None else Some (int (C b ! (n - 1))))"
  obtains ht1 where "entry_unlink ht (int b) (int (C b ! n)) prev = Some ht1"
    "C b ! n < length (ht_entries ht1)"
    "payload (ht_entries ht1 ! (C b ! n)) = payload (ht_entries ht ! (C b ! n))"
    "ht_remove_entry ht1 = ht_remove_entry ht" "ht_count ht1 = ht_count ht"
    "ht_wf (ht1\<lparr>ht_entries := (ht_entries ht1)[C b ! n := deleted_entry (ht_entries ht1 ! (C b ! n))],
        ht_count := ht_count ht1 - 1\<rparr>)"
    "ht_alist (ht1\<lparr>ht_entries := (ht_entries ht1)[C b ! n := deleted_entry (ht_entries ht1 ! (C b ! n))],
        ht_count := ht_count ht1 - 1\<rparr>) = al_remove (ht_eq ht) key (ht_alist ht)"
    "ht_eq ht1 = ht_eq ht" "ht_count_used ht1 = ht_count_used ht" "ht_capacity ht1 = ht_capacity ht"
proof -
  from wf obtain k used C0 where w: "3 \<le> k" "k \<le> 30" "ht_capacity ht = 2 ^ k"
    "ht_table_mask ht = 2 ^ k - 1" "length (ht_entries ht) = 2 ^ k"
    "length (ht_entry_lookup ht) = 2 ^ k" "ht_count_used ht = int used" "used \<le> 2 ^ k"
    "buckets_ok (ht_entries ht) (ht_entry_lookup ht) (live_index used (ht_entries ht)) C0"
    "ht_count ht = int (length (ht_alist ht))" "al_distinct (ht_eq ht) (ht_alist ht)"
    "codes_ok (ht_hash ht) (ht_payloads ht)"
    "ht_max_loadfac ht = MAX_LOADFAC" "ht_min_loadfac ht = MIN_LOADFAC" "callbacks_ok ht"
    by (rule ht_wfE)
  define L where "L = live_index used (ht_entries ht)"
  define j where "j = C b ! n"
  have used: "nat (ht_count_used ht) = used" by (simp add: w(7))
  have jL: "j \<in> L" "j < used" "j < length (ht_entries ht)"
    using j w(5,8) by (auto simp: L_def used j_def live_index_def)
  have Lb: "\<forall>i \<in> L. i < length (ht_entries ht)" using w(5,8) by (auto simp: L_def live_index_def)
  have prevb: "0 \<le> p \<and> nat p < length (ht_entries ht)" if "prev = Some p" for p
  proof -
    from that prev have "p = int (C b ! (n - 1))" by (simp split: if_splits)
    moreover have "C b ! (n - 1) \<in> L"
      using buckets_in [OF B b, of "C b ! (n - 1)"] n by (simp add: L_def used)
    ultimately show ?thesis using Lb by simp
  qed
  define u where "u = unlink (ht_entries ht) (ht_entry_lookup ht) b j prev"
  obtain C' where u: "buckets_ok (fst u) (snd u) (L - {j}) C'"
    "map payload (fst u) = map payload (ht_entries ht)"
    "length (snd u) = length (ht_entry_lookup ht)"
    using unlink_ok [OF B [unfolded used, folded L_def] Lb b n prev] unfolding u_def j_def by blast
  have lu: "length (fst u) = length (ht_entries ht)" using u(2) by (metis length_map)
  have pu: "payload (fst u ! i) = payload (ht_entries ht ! i)" if "i < length (ht_entries ht)" for i
    using that u(2) lu by (metis nth_map)
  define ht1 where "ht1 = ht\<lparr>ht_entries := fst u, ht_entry_lookup := snd u\<rparr>"
  define ht2 where "ht2 = ht1\<lparr>ht_entries := (fst u)[j := deleted_entry (fst u ! j)],
    ht_count := ht_count ht1 - 1\<rparr>"
  have ents2: "ht_entries ht2 = (fst u)[j := deleted_entry (fst u ! j)]" by (simp add: ht2_def)
  have live: "live_index used (ht_entries ht2) = L - {j}"
  proof -
    have "he_key (fst u ! i) = he_key (ht_entries ht ! i)" if "i < used" for i
      using pu [of i] that w(5,8) by (simp add: payload_def)
    then show ?thesis
      using w(5,8) lu jL(3) by (auto simp: live_index_def L_def ents2 nth_list_update deleted_entry_def
          split: if_splits)
  qed
  have pl: "ht_payloads ht2 = (ht_payloads ht)[j := (None, None, 0)]"
    by (simp add: ht_payloads_def ents2 ht2_def ht1_def w(7) take_update_swap map_update
        deleted_entry_def payload_def)
      (metis (no_types, lifting) payload_def take_map u(2) map_eq_conv)
  have al: "ht_alist ht2 = al_remove (ht_eq ht) key (ht_alist ht)"
    using al_put_split(2) [OF wf j [folded j_def] eq [folded j_def], of None 0] pl
    by (simp add: ht_alist_payloads)
  have len: "length (ht_alist ht2) = length (ht_alist ht) - 1" "length (ht_alist ht) > 0"
  proof -
    note sp = ht_alist_split [OF wf j [folded j_def], folded ht_payloads_def]
    show "length (ht_alist ht2) = length (ht_alist ht) - 1" "length (ht_alist ht) > 0"
      unfolding ht_alist_payloads [of ht2] pl sp(3) sp(1) by simp_all
  qed
  have "ht_wf ht2"
  proof (rule ht_wfI [of k _ used C'])
    have "buckets_ok (ht_entries ht2) (snd u) (L - {j}) C'"
      by (rule buckets_cong [OF u(1)]) (auto simp: ents2 lu)
    then show "buckets_ok (ht_entries ht2) (ht_entry_lookup ht2) (live_index used (ht_entries ht2)) C'"
      unfolding live by (simp add: ht2_def ht1_def)
    show "codes_ok (ht_hash ht2) (ht_payloads ht2)"
      unfolding pl by (rule codes_ok_insert [OF set_update_subset_insert _ w(12)])
        (auto simp: ht2_def ht1_def)
    show "al_distinct (ht_eq ht2) (ht_alist ht2)"
      using w(11) unfolding al by (simp add: ht2_def ht1_def al_distinct_remove)
    show "ht_count ht2 = int (length (ht_alist ht2))"
    proof -
      have "int (length (ht_alist ht2)) = int (length (ht_alist ht)) - 1" using len by linarith
      then show ?thesis using w(10) by (simp add: ht2_def ht1_def)
    qed
    show "callbacks_ok ht2" using w(15) by (simp add: ht2_def ht1_def callbacks_ok_def)
  qed (use w u(3) lu in \<open>simp_all add: ht2_def ht1_def\<close>)
  moreover have "entry_unlink ht (int b) (int j) prev = Some ht1"
    using entry_unlink_eq [OF jL(3) b prevb] by (simp add: ht1_def u_def)
  ultimately show ?thesis
    using al jL(3) lu pu [OF jL(3)]
    by (intro that [of ht1]) (simp_all add: j_def [symmetric] ht2_def ht1_def)
qed

text \<open>Removing a key that is there: the handler runs on the pair, the entry disappears, and the
  table may shrink.\<close>

lemma htable_remove_ok:
  assumes "ht_wf ht" "al_get (ht_eq ht) key (ht_alist ht) = Some v0"
    "\<And>k. (k, v0) \<in> set (ht_alist ht) \<Longrightarrow> ht_eq ht k key \<Longrightarrow>
       drop_pair call (ht_remove_entry ht) (Some k) v0 w = Some w'"
  obtains ht' where
    "pcl_htable_remove call (Some ht) (Some key) w = Some (ht_count ht - 1, Some ht', w')"
    "ht_wf ht'" "ht_alist ht' = al_remove (ht_eq ht) key (ht_alist ht)"
    "ht_count ht' = ht_count ht - 1" "ht_eq ht' = ht_eq ht"
    "ht_remove_entry ht' = ht_remove_entry ht"
    "ht_capacity ht = 8 \<Longrightarrow> ht_capacity ht' = 8 \<and> ht_count_used ht' = ht_count_used ht"
  using assms(1)
proof (cases rule: chain_lookup [where ht = ht and key = key])
  case (found C b n)
  define j where "j = C b ! n"
  define prev where "prev = (if n = 0 then None else Some (int (C b ! (n - 1))))"
  obtain ht1 where h1: "entry_unlink ht (int b) (int j) prev = Some ht1"
    "j < length (ht_entries ht1)"
    "payload (ht_entries ht1 ! j) = payload (ht_entries ht ! j)"
    "ht_remove_entry ht1 = ht_remove_entry ht" "ht_count ht1 = ht_count ht"
    "ht_wf (ht1\<lparr>ht_entries := (ht_entries ht1)[j := deleted_entry (ht_entries ht1 ! j)],
        ht_count := ht_count ht1 - 1\<rparr>)"
    "ht_alist (ht1\<lparr>ht_entries := (ht_entries ht1)[j := deleted_entry (ht_entries ht1 ! j)],
        ht_count := ht_count ht1 - 1\<rparr>) = al_remove (ht_eq ht) key (ht_alist ht)"
    "ht_eq ht1 = ht_eq ht" "ht_count_used ht1 = ht_count_used ht" "ht_capacity ht1 = ht_capacity ht"
    using entry_delete_ok [OF assms(1) found(1,2,4,5,6) prev_def] unfolding j_def by blast
  define ht2 where "ht2 = ht1\<lparr>ht_entries := (ht_entries ht1)[j := deleted_entry (ht_entries ht1 ! j)],
        ht_count := ht_count ht1 - 1\<rparr>"
  have v0: "he_value (ht_entries ht ! j) = v0"
    using al_put_split(3) [OF assms(1) found(5,6)] assms(2) by (simp add: j_def)
  obtain k0 where k0: "he_key (ht_entries ht ! j) = Some k0"
    using found(5) by (auto simp: live_index_def j_def)
  have "(k0, v0) \<in> set (ht_alist ht)"
    using found(5) v0 k0 unfolding ht_alist_set [OF assms(1)] by (force simp: j_def)
  then have drop: "drop_pair call (ht_remove_entry ht) (Some k0) v0 w = Some w'"
    using assms(3) found(6) k0 by (simp add: j_def)
  have ent: "he_key (ht_entries ht1 ! j) = Some k0" "he_value (ht_entries ht1 ! j) = v0"
    using h1(3) k0 v0 by (simp_all add: payload_def)
  have call: "(case ht_remove_entry ht1 of
      Some c \<Rightarrow> call c (he_key (ht_entries ht1 ! j)) (he_value (ht_entries ht1 ! j)) w
    | None \<Rightarrow> Some w) = Some w'"
    using drop h1(4) ent by (cases "ht_remove_entry ht") (simp_all add: drop_pair_def)
  have rm: "pcl_htable_remove call (Some ht) (Some key) w =
      (if ht_capacity ht2 \<noteq> MINTBLSIZE
          \<and> ht_count ht2 < load_limit (ht_min_loadfac ht2) (ht_capacity ht2)
       then do { (rr, ht3, w2) \<leftarrow> ipcl_htable_rehash ht2 False w';
                 if rr < 0
                 then (let (r1, w3) = TRC (''htable_remove.c'', ''pcl_htable_remove'', 68) w2
                       in Some (r1, Some ht3, w3))
                 else Some (ht_count ht3, Some ht3, w2) }
       else Some (ht_count ht2, Some ht2, w'))"
    using found(2,3,7) h1(1,2) call
    by (simp add: pcl_htable_remove_def Let_def rd_int wr_int prev_def [symmetric]
        j_def [symmetric] ht2_def)
  have cnt: "ht_count ht2 = ht_count ht - 1" by (simp add: ht2_def h1(5))
  note wf2 = h1(6) [folded ht2_def] and al2 = h1(7) [folded ht2_def]
  have eq2: "ht_eq ht2 = ht_eq ht" "ht_remove_entry ht2 = ht_remove_entry ht"
    using h1(4,8) by (simp_all add: ht2_def)
  have used2: "ht_count_used ht2 = ht_count_used ht" "ht_capacity ht2 = ht_capacity ht"
    using h1(9,10) by (simp_all add: ht2_def)
  show ?thesis
  proof (cases "ht_capacity ht2 \<noteq> MINTBLSIZE
      \<and> ht_count ht2 < load_limit (ht_min_loadfac ht2) (ht_capacity ht2)")
    case True
    from wf2 obtain k where k: "3 \<le> k" "k \<le> 30" "ht_capacity ht2 = 2 ^ k"
      by (rule ht_wf_capacity)
    have "k \<noteq> 3" using True k(3) by (auto simp: MINTBLSIZE_def)
    with k(1) obtain k' where k': "k = Suc k'" "3 < k" by (cases k) auto
    have "ht_min_loadfac ht2 = MIN_LOADFAC" using wf2 by (simp add: ht_wf_def)
    then have "ht_count ht2 \<le> 2 ^ k'" using True k(3) k'(1) by (intro shrink_bound) simp
    with rehash_ok [of ht2 k False k' w'] wf2 k(3) k'
    obtain ht3 where r: "ipcl_htable_rehash ht2 False w' = Some (0, ht3, w')" "ht_wf ht3"
      "ht_alist ht3 = ht_alist ht2" "ht_count ht3 = ht_count ht2" "ht_eq ht3 = ht_eq ht2"
      "ht_remove_entry ht3 = ht_remove_entry ht2"
      by auto
    then show ?thesis
      using True rm al2 cnt eq2 used2
      by (intro that [of ht3]) (simp_all add: MINTBLSIZE_def)
  next
    case False
    then have "pcl_htable_remove call (Some ht) (Some key) w = Some (ht_count ht2, Some ht2, w')"
      unfolding rm by (rule if_not_P)
    then show ?thesis using wf2 al2 cnt eq2 used2 by (intro that [of ht2]) simp_all
  qed
next
  case (missing C b)
  then show ?thesis using assms(2) by (simp add: al_get_None)
qed

lemma htable_remove_missing:
  assumes "ht_wf ht" "al_get (ht_eq ht) key (ht_alist ht) = None"
  shows "pcl_htable_remove call (Some ht) (Some key) w = Some (ht_count ht, Some ht, w)"
  using assms(1)
proof (cases rule: chain_lookup [where ht = ht and key = key])
  case (found C b n)
  then show ?thesis using al_put_split(3) [OF assms(1) found(5,6)] assms(2) by simp
next
  case (missing C b)
  then show ?thesis by (simp add: pcl_htable_remove_def Let_def rd_int)
qed

section \<open>Iteration, keys, clearing\<close>

text \<open>One step of an iteration from index \<open>i\<close>: the first live entry at or behind \<open>i\<close>.\<close>

lemma htable_iter_step:
  assumes "ht_wf ht" "0 \<le> i" "i < ht_count_used ht"
  shows "pcl_htable_iter (Some ht) (Some i) = Some
    (case find_index (\<lambda>e. he_key e \<noteq> None) (drop (nat i) (take (nat (ht_count_used ht)) (ht_entries ht))) of
       None \<Rightarrow> (None, Some (-1))
     | Some d \<Rightarrow> (Some (ht_entries ht ! (nat i + d)), Some (i + int d + 1)))"
proof -
  define u where "u = nat (ht_count_used ht)"
  have u: "u \<le> length (ht_entries ht)" "nat i < u" "nat (ht_count_used ht - i) = u - nat i"
    using assms by (auto simp: u_def ht_wf_def nat_diff_distrib)
  have "scan_from (\<lambda>e. he_key e \<noteq> None) (ht_entries ht) (nat i) (u - nat i)
      = Some (case find_index (\<lambda>e. he_key e \<noteq> None) (take (u - nat i) (drop (nat i) (ht_entries ht))) of
                None \<Rightarrow> -1 | Some k \<Rightarrow> int (nat i + k))"
    using u by (intro scan_from_find) simp
  moreover have "take (u - nat i) (drop (nat i) (ht_entries ht)) = drop (nat i) (take u (ht_entries ht))"
    by (simp add: drop_take)
  ultimately show ?thesis
    using assms(2,3) u find_index_SomeD [of "\<lambda>e. he_key e \<noteq> None" "drop (nat i) (take u (ht_entries ht))"]
    by (auto simp: pcl_htable_iter_def u(3) u_def [symmetric] rd_def nat_add_distrib
        split: option.splits)
qed

text \<open>The documented loop \<open>for(i = 0; e = pcl_htable_iter(ht, &i); )\<close> collects the pairs, with enough
  fuel for one call per entry and the last one.\<close>

fun iter_all :: "nat \<Rightarrow> ('k, 'v, 'c) pcl_htable \<Rightarrow> int \<Rightarrow> ('k \<times> 'v option) list option" where
  "iter_all 0 ht i = None"
| "iter_all (Suc fuel) ht i =
     do { (eo, io) \<leftarrow> pcl_htable_iter (Some ht) (Some i);
          case eo of
            None \<Rightarrow> Some []
          | Some e \<Rightarrow> do { k \<leftarrow> he_key e; i1 \<leftarrow> io; ps \<leftarrow> iter_all fuel ht i1;
                           Some ((k, he_value e) # ps) } }"

lemma find_index_split:
  "find_index P xs = Some d \<Longrightarrow> filter P xs = xs ! d # filter P (drop (Suc d) xs)"
proof (induction xs arbitrary: d)
  case (Cons x xs)
  then show ?case by (auto split: if_splits)
qed simp

lemma find_index_filter_None: "find_index P xs = None \<Longrightarrow> filter P xs = []"
  by (auto simp: find_index_None filter_empty_conv)

lemma iter_all_from:
  assumes "ht_wf ht" "nat (ht_count_used ht) - i < fuel"
  shows "iter_all fuel ht (int i)
    = Some (live_pairs (map payload (drop i (take (nat (ht_count_used ht)) (ht_entries ht)))))"
  using assms(2)
proof (induction fuel arbitrary: i)
  case (Suc fuel)
  define xs where "xs = take (nat (ht_count_used ht)) (ht_entries ht)"
  show ?case
  proof (cases "int i < ht_count_used ht")
    case False
    then have "drop i xs = []" by (simp add: xs_def)
    with False show ?thesis
      unfolding xs_def [symmetric] by (simp add: pcl_htable_iter_def)
  next
    case True
    note step = htable_iter_step [OF assms(1) _ True, folded xs_def, simplified]
    show ?thesis
    proof (cases "find_index (\<lambda>e. he_key e \<noteq> None) (drop i xs)")
      case None
      then show ?thesis
        unfolding xs_def [symmetric] using find_index_filter_None [OF None] step
        by (simp add: live_pairs_payload)
    next
      case (Some d)
      note fi = find_index_SomeD [OF Some] and fs = find_index_split [OF Some]
      have "d < length xs - i" using fi by simp
      then have "i + d < length xs" by linarith
      then have e: "drop i xs ! d = ht_entries ht ! (i + d)" "i + d < length (ht_entries ht)"
        by (simp_all add: xs_def)
      then obtain k where k: "he_key (ht_entries ht ! (i + d)) = Some k" using fi by auto
      have "nat (ht_count_used ht) - Suc (i + d) < fuel" using Suc.prems True by auto
      note IH = Suc.IH [OF this, folded xs_def]
      have "int i + int d + 1 = int (Suc (i + d))" by simp
      then have "iter_all (Suc fuel) ht (int i)
          = Some ((k, he_value (ht_entries ht ! (i + d))) # live_pairs (map payload (drop (Suc (i + d)) xs)))"
        using step Some IH k by (simp add: ac_simps)
      moreover have "live_pairs (map payload (drop i xs))
          = (k, he_value (ht_entries ht ! (i + d))) # live_pairs (map payload (drop (Suc (i + d)) xs))"
        unfolding live_pairs_payload fs using k by (simp add: e(1) add.commute)
      ultimately show ?thesis unfolding xs_def [symmetric] by simp
    qed
  qed
qed simp

lemma keys_loop_ok:
  assumes "i + n \<le> length ents" "arr_wf keys"
    "length (arr_seq keys) + length (filter (\<lambda>e. he_key e \<noteq> None) (take n (drop i ents))) \<le> 2 ^ 30"
  shows "\<exists>keys'. keys_loop ents i n keys w = Some (keys', w) \<and> arr_wf keys'
    \<and> arr_seq keys' = arr_seq keys
        @ map he_key (filter (\<lambda>e. he_key e \<noteq> None) (take n (drop i ents)))"
  using assms
proof (induction n arbitrary: i keys)
  case (Suc n)
  have dr: "take (Suc n) (drop i ents) = ents ! i # take n (drop (Suc i) ents)"
    using Suc.prems(1) by (simp add: Cons_nth_drop_Suc [symmetric])
  have rd: "rd ents (int i) = Some (ents ! i)" using Suc.prems(1) by (simp add: rd_int)
  show ?case
  proof (cases "he_key (ents ! i) = None")
    case True
    with Suc.IH [of "Suc i" keys] Suc.prems show ?thesis by (simp add: dr rd)
  next
    case False
    have "length (arr_seq keys) < 2 ^ 30" using Suc.prems(3) False by (simp add: dr)
    then have "int (length (arr_seq keys)) < 2 ^ 30"
      by (simp only: of_nat_less_numeral_power_cancel_iff)
    then have "arr_count keys < 2 ^ 30" using Suc.prems(2) by simp
    from array_append_ok [OF Suc.prems(2) this, of "he_key (ents ! i)" w]
    obtain keys1 where k1: "pcl_array_append (Some keys) (he_key (ents ! i)) w
        = Some (arr_count keys + 1, Some keys1, w)" "arr_wf keys1"
      "arr_seq keys1 = arr_seq keys @ [he_key (ents ! i)]" by metis
    with Suc.IH [of "Suc i" keys1] Suc.prems False show ?thesis by (simp add: dr rd)
  qed
qed simp

lemma htable_keys_ok:
  assumes "ht_wf ht"
  obtains keys where "pcl_htable_keys (Some ht) w = Some (keys, w)" "arr_wf keys"
    "arr_seq keys = map (\<lambda>p. Some (fst p)) (ht_alist ht)"
proof -
  from assms obtain k used where wf: "k \<le> 30" "length (ht_entries ht) = 2 ^ k"
    "ht_count_used ht = int used" "used \<le> 2 ^ k" "ht_count ht = int (length (ht_alist ht))"
    by (rule ht_wfE)
  define es where "es = take used (ht_entries ht)"
  have al: "ht_alist ht = map (\<lambda>e. (the (he_key e), he_value e)) (filter (\<lambda>e. he_key e \<noteq> None) es)"
    by (simp add: ht_alist_def live_pairs_payload es_def wf(3))
  have k30: "(2::nat) ^ k \<le> 2 ^ 30" using wf(1) by (intro power_increasing) auto
  have "length (filter (\<lambda>e. he_key e \<noteq> None) es) \<le> length es" by (rule length_filter_le)
  also have "\<dots> \<le> 2 ^ k" using wf(4) by (simp add: es_def)
  finally have le: "length (filter (\<lambda>e. he_key e \<noteq> None) es) \<le> 2 ^ 30" using k30 by linarith
  define keys0 :: "('a, 'c) pcl_array" where "keys0 = pcl_array_new (ht_count ht) None"
  have "int (length (ht_alist ht)) \<le> int (2 ^ 30)"
    using le al by (simp only: of_nat_le_iff length_map)
  then have w0: "arr_wf keys0" "arr_seq keys0 = []"
    using wf(5) by (simp_all add: keys0_def array_new_wf INT_MAX_def)
  have seq: "map he_key (filter (\<lambda>e. he_key e \<noteq> None) es) = map (\<lambda>p. Some (fst p)) (ht_alist ht)"
    by (auto simp: al)
  show ?thesis
  proof (cases "ht_count ht = 0")
    case True
    then have "ht_alist ht = []" using wf(5) by simp
    then show ?thesis
      using True w0 by (intro that [of keys0]) (simp_all add: pcl_htable_keys_def keys0_def)
  next
    case False
    from keys_loop_ok [of 0 used "ht_entries ht" keys0 w] wf(2,4) w0 le
    obtain keys where "keys_loop (ht_entries ht) 0 used keys0 w = Some (keys, w)" "arr_wf keys"
      "arr_seq keys = map he_key (filter (\<lambda>e. he_key e \<noteq> None) es)"
      by (auto simp: es_def)
    then show ?thesis
      using False seq wf(3) by (intro that [of keys]) (simp_all add: pcl_htable_keys_def keys0_def)
  qed
qed

text \<open>The handler sees every live pair once, in order, and the cleared table is empty.\<close>

lemma entry_drop_each:
  "seq_each (entry_drop call h) es w
     = seq_each (\<lambda>p w. drop_pair call h (Some (fst p)) (snd p) w) (live_pairs (map payload es)) w"
proof (induction es arbitrary: w)
  case (Cons e es)
  have "payload e = (he_key e, he_value e, he_code e)" by (simp add: payload_def)
  moreover have "entry_drop call h e w =
      (case he_key e of None \<Rightarrow> Some w | Some k \<Rightarrow> drop_pair call h (Some k) (he_value e) w)"
    by (cases h) (auto simp: entry_drop_def drop_pair_def split: option.splits)
  ultimately show ?case
    using Cons.IH by (cases "he_key e") (auto intro: Option.bind_cong)
qed simp

lemma htable_clear_ok:
  assumes "ht_wf ht"
    "seq_each (\<lambda>p w. drop_pair call (ht_remove_entry ht) (Some (fst p)) (snd p) w) (ht_alist ht) w = Some w'"
  obtains ht' where "pcl_htable_clear call (Some ht) shrink w = Some (Some ht', w')" "ht_wf ht'"
    "ht_alist ht' = []" "ht_capacity ht' = (if shrink then 8 else ht_capacity ht)"
proof -
  from assms(1) obtain k used where wf: "3 \<le> k" "k \<le> 30" "ht_capacity ht = 2 ^ k"
    "ht_table_mask ht = 2 ^ k - 1" "length (ht_entries ht) = 2 ^ k"
    "length (ht_entry_lookup ht) = 2 ^ k" "ht_count_used ht = int used" "used \<le> 2 ^ k"
    "ht_max_loadfac ht = MAX_LOADFAC" "ht_min_loadfac ht = MIN_LOADFAC" "callbacks_ok ht"
    by (rule ht_wfE)
  have each: "for_each (entry_drop call (ht_remove_entry ht)) (ht_entries ht) 0 used w = Some w'"
    using assms(2) wf(5,8) by (simp add: for_each_take entry_drop_each ht_alist_def wf(7))
  define k' where "k' = (if shrink then 3 else k)"
  have k': "3 \<le> k'" "k' \<le> 30" using wf(1,2) by (auto simp: k'_def)
  define ht' where "ht' = ht\<lparr>ht_capacity := 2 ^ k', ht_table_mask := 2 ^ k' - 1,
    ht_entries := replicate (2 ^ k') zero_entry, ht_entry_lookup := replicate (2 ^ k') (-1),
    ht_count := 0, ht_count_used := 0\<rparr>"
  have "mem_set (ht_entries ht) 0 zero_entry (2 ^ k) = Some (replicate (2 ^ k) zero_entry)"
    "mem_set (ht_entry_lookup ht) 0 (-1) (2 ^ k) = Some (replicate (2 ^ k) (-1))"
    using wf(5,6) by (simp_all add: mem_set_def nat_power_eq)
  moreover have "(2::int) ^ k = 8 \<longleftrightarrow> k = 3" using power_inject_exp [of "2::int" k 3] by simp
  ultimately have "pcl_htable_clear call (Some ht) shrink w = Some (Some ht', w')"
    using each wf(3,4,7) by (cases "k = 3") (auto simp: pcl_htable_clear_def ipcl_htable_init_def
        MINTBLSIZE_def ht'_def k'_def)
  moreover have al: "ht_alist ht' = []" by (simp add: ht_alist_def ht'_def)
  moreover have "ht_wf ht'"
  proof (rule ht_wfI [of k' _ 0 "\<lambda>_. []"])
    show "buckets_ok (ht_entries ht') (ht_entry_lookup ht') (live_index 0 (ht_entries ht')) (\<lambda>_. [])"
      by (simp add: buckets_ok_def ht'_def live_index_def)
    show "callbacks_ok ht'" using wf(11) by (simp add: ht'_def callbacks_ok_def)
  qed (use k' wf al in \<open>simp_all add: ht'_def al_distinct_def codes_ok_def ht_payloads_def\<close>)
  moreover have "ht_capacity ht' = (if shrink then 8 else ht_capacity ht)"
    using wf(3) by (simp add: ht'_def k'_def)
  ultimately show ?thesis by (intro that [of ht'])
qed

section \<open>The interface of the table\<close>

lemma al_get_None_iff: "al_get eq k al = None \<longleftrightarrow> (\<forall>p \<in> set al. \<not> eq (fst p) k)"
  by (auto simp: al_get_def find_None_iff)

lemma al_get_append:
  "al_get eq k (xs @ ys) = (case al_get eq k xs of Some v \<Rightarrow> Some v | None \<Rightarrow> al_get eq k ys)"
  by (induction xs) (auto simp: al_get_def)

lemma al_get_Cons: "al_get eq k (p # al) = (if eq (fst p) k then Some (snd p) else al_get eq k al)"
  by (cases p) (simp add: al_get_def)

lemma al_get_put:
  assumes "al_distinct eq al" "equivp eq"
  shows "al_get eq k' (al_put eq k v al) = (if eq k k' then Some v else al_get eq k' al)"
proof (cases "\<exists>p \<in> set al. eq (fst p) k")
  case True
  then obtain xs k0 v0 ys where al: "al = xs @ (k0, v0) # ys" "eq k0 k"
    by (metis prod.collapse split_list)
  have put: "al_put eq k v al = xs @ (k, v) # ys"
    using assms al by (simp add: al_put_replace)
  have "eq k k' \<longleftrightarrow> eq k0 k'" using al(2) assms(2) by (meson equivp_symp equivp_transp)
  moreover have "al_get eq k' xs = None" if "eq k k'"
  proof -
    have "\<forall>p \<in> set xs. \<not> eq (fst p) k"
      using al_distinct_split [of eq xs k0 v0 ys k] assms al by simp
    then have "\<forall>p \<in> set xs. \<not> eq (fst p) k'"
      using that assms(2) by (meson equivp_symp equivp_transp)
    then show ?thesis by (rule al_get_None)
  qed
  ultimately show ?thesis
    unfolding put by (auto simp: al(1) al_get_append al_get_Cons split: option.splits)
next
  case False
  have "al_get eq k' al = None" if "eq k k'"
  proof (rule al_get_None)
    show "\<forall>p \<in> set al. \<not> eq (fst p) k'"
      using False that assms(2) by (meson equivp_symp equivp_transp)
  qed
  moreover have "al_get eq k' [] = None" by (simp add: al_get_def)
  ultimately show ?thesis
    using False by (auto simp: al_put_def al_get_append al_get_Cons split: option.splits)
qed

lemma al_get_remove:
  assumes "equivp eq"
  shows "al_get eq k' (al_remove eq k al) = (if eq k k' then None else al_get eq k' al)"
proof (induction al)
  case Nil
  then show ?case by (simp add: al_remove_def al_get_def)
next
  case (Cons p al)
  have "eq (fst p) k \<Longrightarrow> eq k k' \<longleftrightarrow> eq (fst p) k'"
    using assms by (meson equivp_symp equivp_transp)
  moreover have "eq k k' \<Longrightarrow> eq (fst p) k' \<Longrightarrow> eq (fst p) k"
    using assms by (meson equivp_symp equivp_transp)
  ultimately show ?case using Cons by (auto simp: al_remove_def al_get_Cons)
qed

text \<open>What a client of the table relies on: JSON objects keep their members in it.\<close>

locale dictionary =
  fixes ok :: "'s \<Rightarrow> bool"
    and pairs :: "'s \<Rightarrow> ('k \<times> 'v) list"
    and eq :: "'k \<Rightarrow> 'k \<Rightarrow> bool"
    and room :: "'s \<Rightarrow> bool"
    and get :: "'s \<Rightarrow> 'k \<Rightarrow> 'v option"
    and put :: "'s \<Rightarrow> 'k \<Rightarrow> 'v \<Rightarrow> 's option"
    and delete :: "'s \<Rightarrow> 'k \<Rightarrow> 's option"
  assumes eq_equiv: "equivp eq"
    and distinct_law: "ok s \<Longrightarrow> al_distinct eq (pairs s)"
    and get_law: "ok s \<Longrightarrow> get s k = al_get eq k (pairs s)"
    and put_law: "ok s \<Longrightarrow> room s \<Longrightarrow>
      \<exists>s'. put s k v = Some s' \<and> ok s' \<and> pairs s' = al_put eq k v (pairs s)"
    and delete_law: "ok s \<Longrightarrow>
      \<exists>s'. delete s k = Some s' \<and> ok s' \<and> pairs s' = al_remove eq k (pairs s)"
begin

lemma get_put:
  assumes "ok s" "room s" "put s k v = Some s'"
  shows "get s' k' = (if eq k k' then Some v else get s k')"
proof -
  from put_law [OF assms(1,2), of k v] assms(3)
  have "ok s'" "pairs s' = al_put eq k v (pairs s)" by auto
  then show ?thesis
    using assms(1) by (simp add: get_law al_get_put [OF distinct_law eq_equiv])
qed

lemma get_delete:
  assumes "ok s" "delete s k = Some s'"
  shows "get s' k' = (if eq k k' then None else get s k')"
proof -
  from delete_law [OF assms(1), of k] assms(2)
  have "ok s'" "pairs s' = al_remove eq k (pairs s)" by auto
  then show ?thesis using assms(1) by (simp add: get_law al_get_remove [OF eq_equiv])
qed

end

text \<open>A dictionary that is only filled never runs out of room below its limit.\<close>

fun put_pairs :: "('s \<Rightarrow> 'k \<Rightarrow> 'v \<Rightarrow> 's option) \<Rightarrow> 's \<Rightarrow> ('k \<times> 'v) list \<Rightarrow> 's option" where
  "put_pairs put s [] = Some s"
| "put_pairs put s ((k, v) # ps) = do { s1 \<leftarrow> put s k v; put_pairs put s1 ps }"

lemma al_put_len: "length (al_put eq k v al) \<le> Suc (length al)"
  by (simp add: al_put_def)

locale filled_dictionary = dictionary ok pairs eq room get put delete
  for ok :: "'s \<Rightarrow> bool" and pairs :: "'s \<Rightarrow> ('k \<times> 'v) list" and eq room get put delete +
  fixes dense :: "'s \<Rightarrow> bool" and limit :: nat
  assumes dense_room: "ok s \<Longrightarrow> dense s \<Longrightarrow> length (pairs s) < limit \<Longrightarrow> room s"
    and dense_put: "ok s \<Longrightarrow> dense s \<Longrightarrow> length (pairs s) < limit \<Longrightarrow> put s k v = Some s' \<Longrightarrow> dense s'"
begin

lemma put_dense:
  assumes "ok s" "dense s" "length (pairs s) < limit"
  obtains s' where "put s k v = Some s'" "ok s'" "dense s'" "pairs s' = al_put eq k v (pairs s)"
  using put_law [OF assms(1) dense_room [OF assms], of k v] dense_put [OF assms, of k v] by blast

lemma put_pairs_ok:
  "ok s \<Longrightarrow> dense s \<Longrightarrow> length (pairs s) + length ps \<le> limit \<Longrightarrow>
     \<exists>s'. put_pairs put s ps = Some s' \<and> ok s' \<and> dense s'
       \<and> pairs s' = foldl (\<lambda>al (k, v). al_put eq k v al) (pairs s) ps"
proof (induction ps arbitrary: s)
  case (Cons p ps)
  obtain k v where p: "p = (k, v)" by fastforce
  have "length (pairs s) < limit" using Cons.prems by simp
  then obtain s1 where s1: "put s k v = Some s1" "ok s1" "dense s1"
    "pairs s1 = al_put eq k v (pairs s)"
    using put_dense Cons.prems(1,2) by metis
  moreover from this have "length (pairs s1) + length ps \<le> limit"
    using Cons.prems(3) al_put_len [of eq k v "pairs s"] by simp
  ultimately show ?case using Cons.IH [of s1] p by auto
qed simp

end

text \<open>Tables with string-like keys compared by value and no handler, as JSON objects use them.\<close>

definition plain_table :: "('k, 'v, 'c) pcl_htable \<Rightarrow> bool" where
  "plain_table ht \<longleftrightarrow> ht_wf ht \<and> ht_eq ht = (=) \<and> ht_remove_entry ht = None"

definition table_room :: "('k, 'v, 'c) pcl_htable \<Rightarrow> bool" where
  "table_room ht \<longleftrightarrow> ht_room ht \<and> ht_growable ht"

definition table_dense :: "('k, 'v, 'c) pcl_htable \<Rightarrow> bool" where
  "table_dense ht \<longleftrightarrow> ht_count_used ht = ht_count ht"

definition table_get :: "('k, 'v, 'c) pcl_htable \<Rightarrow> 'k \<Rightarrow> 'v option option" where
  "table_get ht k =
     (case pcl_htable_lookup (Some ht) (Some k) err_init of
        Some (Some e, _) \<Rightarrow> Some (he_value e) | _ \<Rightarrow> None)"

definition table_put :: "('k, 'v, 'c) pcl_htable \<Rightarrow> 'k \<Rightarrow> 'v option \<Rightarrow> ('k, 'v, 'c) pcl_htable option" where
  "table_put ht k v =
     (case pcl_htable_put (\<lambda>_ _ _. Some) (Some ht) (Some k) v False err_init of
        Some (r, ht', _) \<Rightarrow> if r = 0 then ht' else None | None \<Rightarrow> None)"

definition table_delete :: "('k, 'v, 'c) pcl_htable \<Rightarrow> 'k \<Rightarrow> ('k, 'v, 'c) pcl_htable option" where
  "table_delete ht k =
     (case pcl_htable_remove (\<lambda>_ _ _. Some) (Some ht) (Some k) err_init of
        Some (_, ht', _) \<Rightarrow> ht' | None \<Rightarrow> None)"

lemma table_get_ok: "plain_table s \<Longrightarrow> table_get s k = al_get (=) k (ht_alist s)"
proof -
  assume "plain_table s"
  then have s: "ht_wf s" "ht_eq s = (=)" by (simp_all add: plain_table_def)
  show ?thesis
    using s(1)
  proof (cases rule: htable_lookup_cases [where ht = s and key = k and w = err_init])
    case (found j b)
    then have "j < length (ht_entries s)" using s(1) by (auto simp: live_index_def ht_wf_def)
    then show ?thesis
      using found(3) al_put_split(3) [OF s(1) found(1,2)] s(2)
      by (simp add: table_get_def pcl_htable_lookup_def rd_int)
  next
    case (missing b)
    then show ?thesis
      using al_get_None [of "ht_alist s" "ht_eq s" k] s(2)
      by (simp add: table_get_def pcl_htable_lookup_def R_TRC_def)
  qed
qed

lemma table_put_ok:
  assumes "plain_table s" "table_room s"
  obtains s' where "table_put s k v = Some s'" "plain_table s'"
    "ht_alist s' = al_put (=) k v (ht_alist s)"
    "ht_count_used s' = (if al_get (=) k (ht_alist s) \<noteq> None then ht_count_used s
       else if load_limit (ht_max_loadfac s) (ht_capacity s) \<le> ht_count s
       then ht_count s + 1 else ht_count_used s + 1)"
    "al_get (=) k (ht_alist s) = None \<Longrightarrow>
       ht_count s < load_limit (ht_max_loadfac s) (ht_capacity s) \<Longrightarrow> ht_capacity s' = ht_capacity s"
proof (cases "al_get (=) k (ht_alist s)")
  case None
  have s: "ht_wf s" "ht_room s" "ht_growable s" "ht_eq s = (=)" "ht_remove_entry s = None"
    using assms by (simp_all add: plain_table_def table_room_def)
  have no: "\<forall>p \<in> set (ht_alist s). \<not> ht_eq s (fst p) k"
    using None by (auto simp: al_get_def find_None_iff s(4))
  from htable_put_new [OF s(1-3) no, of "\<lambda>_ _ _. Some" v False err_init]
  obtain ht' where "pcl_htable_put (\<lambda>_ _ _. Some) (Some s) (Some k) v False err_init
      = Some (0, Some ht', pcl_err_freeze False err_init)"
    "ht_wf ht'" "ht_alist ht' = ht_alist s @ [(k, v)]"
    "ht_eq ht' = ht_eq s" "ht_remove_entry ht' = ht_remove_entry s"
    "ht_count_used ht' = (if load_limit (ht_max_loadfac s) (ht_capacity s) \<le> ht_count s
       then ht_count s + 1 else ht_count_used s + 1)"
    "ht_count s < load_limit (ht_max_loadfac s) (ht_capacity s) \<Longrightarrow> ht_capacity ht' = ht_capacity s"
    by metis
  moreover have "al_put (=) k v (ht_alist s) = ht_alist s @ [(k, v)]"
    using no by (auto simp: al_put_def s(4))
  ultimately show ?thesis
    using s None by (intro that [of ht']) (simp_all add: table_put_def plain_table_def)
next
  case (Some v0)
  have s: "ht_wf s" "ht_eq s = (=)" "ht_remove_entry s = None"
    using assms by (simp_all add: plain_table_def)
  have drop: "drop_pair (\<lambda>_ _ _. Some) (ht_remove_entry s) ko vo w = Some w" for ko vo and w :: pcl_err
    by (simp add: drop_pair_def s(3))
  have "(k, v0) \<in> set (ht_alist s)"
    using Some by (auto simp: al_get_def find_Some_iff in_set_conv_nth)
  then have "\<exists>k0. drop_pair (\<lambda>_ _ _. Some) (ht_remove_entry s) (Some k0) v0
      (pcl_err_freeze False err_init) = Some (pcl_err_freeze False err_init)
      \<and> (k0, v0) \<in> set (ht_alist s) \<and> ht_eq s k0 k"
    using drop s(2) by auto
  from htable_put_replace [OF s(1) _ this drop, of v] Some s(2)
  obtain ht' where "pcl_htable_put (\<lambda>_ _ _. Some) (Some s) (Some k) v False err_init
      = Some (0, Some ht', pcl_err_freeze False err_init)" "ht_wf ht'"
    "ht_alist ht' = al_put (ht_eq s) k v (ht_alist s)" "ht_eq ht' = ht_eq s"
    "ht_remove_entry ht' = ht_remove_entry s" "ht_count_used ht' = ht_count_used s"
    by metis
  then show ?thesis
    using s Some by (intro that [of ht']) (simp_all add: table_put_def plain_table_def)
qed

lemma table_delete_ok:
  assumes "plain_table s"
  obtains s' where "table_delete s k = Some s'" "plain_table s'"
    "ht_alist s' = al_remove (=) k (ht_alist s)"
    "ht_capacity s = 8 \<Longrightarrow> ht_capacity s' = 8 \<and> ht_count_used s' = ht_count_used s"
proof (cases "al_get (=) k (ht_alist s)")
  case None
  have s: "ht_wf s" "ht_eq s = (=)" using assms by (simp_all add: plain_table_def)
  have "al_remove (=) k (ht_alist s) = ht_alist s"
    using None by (auto simp: al_get_def find_None_iff al_remove_def filter_id_conv)
  then show ?thesis
    using htable_remove_missing [OF s(1), of k "\<lambda>_ _ _. Some" err_init] None s(2) assms
    by (intro that [of s]) (simp_all add: table_delete_def)
next
  case (Some v0)
  have s: "ht_wf s" "ht_eq s = (=)" "ht_remove_entry s = None"
    using assms by (simp_all add: plain_table_def)
  have drop: "drop_pair (\<lambda>_ _ _. Some) (ht_remove_entry s) ko vo w = Some w" for ko vo and w :: pcl_err
    by (simp add: drop_pair_def s(3))
  from htable_remove_ok [OF s(1) _ drop, of k] Some s(2)
  obtain ht' where "pcl_htable_remove (\<lambda>_ _ _. Some) (Some s) (Some k) err_init
      = Some (ht_count s - 1, Some ht', err_init)" "ht_wf ht'"
    "ht_alist ht' = al_remove (ht_eq s) k (ht_alist s)" "ht_eq ht' = ht_eq s"
    "ht_remove_entry ht' = ht_remove_entry s"
    "ht_capacity s = 8 \<Longrightarrow> ht_capacity ht' = 8 \<and> ht_count_used ht' = ht_count_used s"
    by metis
  then show ?thesis
    using s by (intro that [of ht']) (simp_all add: table_delete_def plain_table_def)
qed

lemma table_dense_room:
  assumes "plain_table s" "table_dense s" "length (ht_alist s) < 2 ^ 29"
  shows "table_room s"
proof -
  from assms(1) have "ht_wf s" by (simp add: plain_table_def)
  then obtain k used where k: "k \<le> 30" "ht_capacity s = 2 ^ k" "ht_count_used s = int used"
    "used \<le> 2 ^ k" "ht_count s = int (length (ht_alist s))" "ht_max_loadfac s = MAX_LOADFAC"
    by (rule ht_wfE)
  have "3 * (2::int) ^ k div 4 \<le> int used" if "\<not> int used < 2 ^ k"
  proof -
    have "0 < (2::int) ^ k" by simp
    with that show ?thesis by linarith
  qed
  then have "int used < 2 ^ k \<or> 3 * (2::int) ^ k div 4 \<le> int used" by blast
  then have "ht_room s"
    using assms(2) unfolding ht_room_def table_dense_def k(2,3,6) load_limit_def MAX_LOADFAC_def
    by (auto simp del: of_nat_less_iff of_nat_le_iff)
  moreover have "ht_growable s"
  proof (cases "k = 30")
    case True
    have "int (length (ht_alist s)) < 2 ^ 29" using assms(3)
      by (simp only: of_nat_less_numeral_power_cancel_iff)
    with True k show ?thesis by (simp add: ht_growable_def load_limit_def MAX_LOADFAC_def)
  next
    case False
    with k(1) have "(2::int) ^ k < 2 ^ 30" by (intro power_strict_increasing) auto
    with k(2) show ?thesis by (simp add: ht_growable_def)
  qed
  ultimately show ?thesis by (simp add: table_room_def)
qed

interpretation table: filled_dictionary plain_table ht_alist "(=)" table_room table_get table_put
    table_delete table_dense "2 ^ 29"
proof
  show "equivp ((=) :: 'a \<Rightarrow> 'a \<Rightarrow> bool)" by (rule identity_equivp)
next
  fix s :: "('a, 'b, 'c) pcl_htable"
  assume "plain_table s"
  then show "al_distinct (=) (ht_alist s)" by (simp add: plain_table_def ht_wf_def) (metis)
next
  fix s :: "('a, 'b, 'c) pcl_htable" and k
  assume "plain_table s"
  then show "table_get s k = al_get (=) k (ht_alist s)" by (rule table_get_ok)
next
  fix s :: "('a, 'b, 'c) pcl_htable" and k v
  assume "plain_table s" "table_room s"
  then show "\<exists>s'. table_put s k v = Some s' \<and> plain_table s' \<and> ht_alist s' = al_put (=) k v (ht_alist s)"
    by (rule table_put_ok) blast
next
  fix s :: "('a, 'b, 'c) pcl_htable" and k
  assume "plain_table s"
  then show "\<exists>s'. table_delete s k = Some s' \<and> plain_table s' \<and> ht_alist s' = al_remove (=) k (ht_alist s)"
    by (rule table_delete_ok) blast
next
  fix s :: "('a, 'b, 'c) pcl_htable"
  assume "plain_table s" "table_dense s" "length (ht_alist s) < 2 ^ 29"
  then show "table_room s" by (rule table_dense_room)
next
  fix s s' :: "('a, 'b, 'c) pcl_htable" and k v
  assume a: "plain_table s" "table_dense s" "length (ht_alist s) < 2 ^ 29" "table_put s k v = Some s'"
  have cnt: "ht_count s = int (length (ht_alist s))" using a(1) by (simp add: plain_table_def ht_wf_def)
  from table_put_ok [OF a(1) table_dense_room [OF a(1-3)], of k v]
  obtain t where t: "table_put s k v = Some t" "plain_table t" "ht_alist t = al_put (=) k v (ht_alist s)"
    "ht_count_used t = (if al_get (=) k (ht_alist s) \<noteq> None then ht_count_used s
       else if load_limit (ht_max_loadfac s) (ht_capacity s) \<le> ht_count s
       then ht_count s + 1 else ht_count_used s + 1)" by metis
  have "ht_count t = int (length (ht_alist t))" using t(2) by (simp add: plain_table_def ht_wf_def)
  moreover have "length (al_put (=) k v (ht_alist s))
      = length (ht_alist s) + (if al_get (=) k (ht_alist s) \<noteq> None then 0 else 1)"
    by (auto simp: al_put_def al_get_None_iff)
  ultimately show "table_dense s'"
    using a(2,4) t cnt by (auto simp: table_dense_def)
qed

text \<open>A new table is empty and in order.\<close>

lemma htable_new_ok:
  assumes "capacity \<le> 2 ^ 30"
  obtains ht :: "(string, 'v, 'c) pcl_htable" where "pcl_htable_new fh capacity w = (Some ht, w)" "plain_table ht" "ht_alist ht = []"
    "table_dense ht" "capacity \<le> 8 \<Longrightarrow> ht_capacity ht = 8"
proof -
  define n where "n = (if capacity < 8 then 8 else nat capacity)"
  have n: "8 \<le> n" "n \<le> 2 ^ 30" using assms by (auto simp: n_def nat_le_iff)
  obtain k where k: "ipcl_htable_chkcapacity (word_of_nat n) w = (2 ^ k, w)" "3 \<le> k" "k \<le> 30"
    using chkcapacity_round [OF n, of w] by metis
  define c where "c = nat (if capacity < 0 then 0 else capacity)"
  have wc: "word_of_int (if capacity < 0 then 0 else capacity) = (word_of_nat c :: 64 word)"
    by (simp add: c_def)
  have "max (word_of_nat c) 8 = (word_of_nat n :: 64 word)"
  proof -
    have "c \<le> 2 ^ 30" using assms by (simp add: c_def nat_le_iff)
    then have "(word_of_nat c :: 64 word) \<le> word_of_nat 8 \<longleftrightarrow> c \<le> 8"
      by (simp only: word_of_nat_less_eq_iff) (simp add: take_bit_nat_eq_self)
    moreover have "n = max c 8" by (auto simp: n_def c_def)
    ultimately show ?thesis by (auto simp: max_def)
  qed
  moreover from this have "max (word_of_nat n) 8 = (word_of_nat n :: 64 word)"
    by (metis max.right_idem)
  ultimately have "ipcl_htable_chkcapacity (word_of_nat c) w = ipcl_htable_chkcapacity (word_of_nat n) w"
    by (simp only: ipcl_htable_chkcapacity_def)
  then have chk: "ipcl_htable_chkcapacity (word_of_int (if capacity < 0 then 0 else capacity)) w
      = (2 ^ k, w)"
    using k(1) wc by simp
  define ht :: "(string, 'v, 'c) pcl_htable" where "ht = \<lparr>ht_count = 0, ht_count_used = 0,
    ht_capacity = 2 ^ k, ht_table_mask = 2 ^ k - 1, ht_entries = replicate (2 ^ k) zero_entry,
    ht_entry_lookup = replicate (2 ^ k) (-1), ht_key_len = 0, ht_min_loadfac = MIN_LOADFAC,
    ht_max_loadfac = MAX_LOADFAC, ht_key_equals = default_key_equals,
    ht_hashcode = default_hashcode fh, ht_remove_entry = None\<rparr>"
  have "pcl_htable_new fh capacity w = (Some ht, w)"
    unfolding pcl_htable_new_def chk
    by (simp add: ipcl_htable_init_def nat_power_eq ht_def)
  moreover have eq: "ht_eq ht = (=)"
    by (simp add: ht_def ht_eq_def default_key_equals_def fun_eq_iff)
  moreover have al: "ht_alist ht = []" by (simp add: ht_def ht_alist_def)
  moreover have "ht_wf ht"
  proof (rule ht_wfI [of k _ 0 "\<lambda>_. []"])
    show "buckets_ok (ht_entries ht) (ht_entry_lookup ht) (live_index 0 (ht_entries ht)) (\<lambda>_. [])"
      by (simp add: buckets_ok_def ht_def live_index_def)
    show "callbacks_ok ht" by (simp add: callbacks_ok_def eq identity_equivp)
  qed (use k al in \<open>simp_all add: ht_def al_distinct_def codes_ok_def ht_payloads_def\<close>)
  moreover have "ht_capacity ht = 8" if "capacity \<le> 8"
  proof -
    have "n = 8" using that by (auto simp: n_def)
    with k(1) chkcapacity_pow [of 3 w] show ?thesis by (simp add: ht_def)
  qed
  ultimately show ?thesis
    by (intro that [of ht]) (simp_all add: plain_table_def ht_def table_dense_def)
qed

section \<open>Churning a small table\<close>

text \<open>Every put of a new key uses the next entry and a removal gives none back before a rehash;
  the load check looks at \<open>count\<close>, not at \<open>count_used\<close>.\<close>

fun table_churn :: "nat \<Rightarrow> 'k \<Rightarrow> 'v option \<Rightarrow> ('k, 'v, 'c) pcl_htable \<Rightarrow> ('k, 'v, 'c) pcl_htable option" where
  "table_churn 0 k v ht = Some ht"
| "table_churn (Suc n) k v ht =
     do { ht1 \<leftarrow> table_put ht k v; ht2 \<leftarrow> table_delete ht1 k; table_churn n k v ht2 }"

lemma table_churn_ok:
  assumes "plain_table s" "ht_alist s = []" "ht_capacity s = 8" "ht_count_used s + int n \<le> 8"
  shows "\<exists>s'. table_churn n k v s = Some s' \<and> plain_table s' \<and> ht_alist s' = []
    \<and> ht_capacity s' = 8 \<and> ht_count_used s' = ht_count_used s + int n"
  using assms
proof (induction n arbitrary: s)
  case (Suc n)
  have cnt: "ht_count s = 0" "ht_max_loadfac s = MAX_LOADFAC"
    using Suc.prems(1,2) by (simp_all add: plain_table_def ht_wf_def)
  have lim: "load_limit MAX_LOADFAC 8 = 6" by (simp add: load_limit_def MAX_LOADFAC_def)
  have "table_room s"
    using Suc.prems(3,4) cnt lim by (simp add: table_room_def ht_room_def ht_growable_def)
  from table_put_ok [OF Suc.prems(1) this, of k v]
  obtain s1 where s1: "table_put s k v = Some s1" "plain_table s1" "ht_alist s1 = [(k, v)]"
    "ht_count_used s1 = ht_count_used s + 1" "ht_capacity s1 = 8"
    using Suc.prems(2,3) cnt lim by (auto simp: al_put_def al_get_def)
  from table_delete_ok [OF s1(2), of k]
  obtain s2 where s2: "table_delete s1 k = Some s2" "plain_table s2" "ht_alist s2 = []"
    "ht_count_used s2 = ht_count_used s + 1" "ht_capacity s2 = 8"
    using s1(3-5) by (auto simp: al_remove_def)
  from Suc.IH [OF s2(2,3,5)] Suc.prems(4) s1(1) s2(1,4) show ?case by auto
qed simp

lemma table_put_full:
  assumes "plain_table s" "ht_count_used s = ht_capacity s"
    "ht_count s < load_limit (ht_max_loadfac s) (ht_capacity s)" "al_get (=) k (ht_alist s) = None"
  shows "table_put s k v = None"
proof -
  have s: "ht_wf s" "ht_eq s = (=)" using assms by (simp_all add: plain_table_def)
  have len: "int (length (ht_entries s)) = ht_capacity s"
    using s(1) by (auto simp: ht_wf_def)
  show ?thesis
    using s(1)
  proof (cases rule: htable_lookup_cases [where ht = s and key = k and w = "pcl_err_freeze True err_init"])
    case (found j b)
    then show ?thesis using al_put_split(3) [OF s(1) found(1,2)] s(2) assms(4) by simp
  next
    case (missing b)
    then show ?thesis
      using assms(2,3) len
      by (simp add: table_put_def pcl_htable_put_def entry_link_def rd_def lookup_frozen_thaw)
  qed
qed

section \<open>Properties\<close>

text \<open>A new table has the smallest power of two of buckets that is at least 8 and at least the
  requested capacity.\<close>

theorem htable_new_capacity:
  assumes "8 \<le> n" "n \<le> 2 ^ 30"
  shows "\<exists>k ht. pcl_htable_new fh (int n) w = (Some (ht :: (string, 'v, 'c) pcl_htable), w)
    \<and> ht_wf ht \<and> ht_alist ht = [] \<and> ht_capacity ht = 2 ^ k \<and> n \<le> 2 ^ k \<and> 2 ^ k < 2 * n"
proof -
  obtain k where k: "ipcl_htable_chkcapacity (word_of_nat n) w = (2 ^ k, w)" "n \<le> 2 ^ k" "2 ^ k < 2 * n"
    using chkcapacity_round [OF assms, of w] by metis
  have "int n \<le> int (2 ^ 30)" using assms(2) by (simp only: of_nat_le_iff)
  then obtain ht :: "(string, 'v, 'c) pcl_htable" where
    ht: "pcl_htable_new fh (int n) w = (Some ht, w)" "plain_table ht" "ht_alist ht = []"
    using htable_new_ok [of "int n" fh w] by auto
  have "ht_capacity ht = 2 ^ k"
    using ht(1) k(1) by (auto simp: pcl_htable_new_def split: if_splits prod.splits)
  then show ?thesis using ht k by (auto simp: plain_table_def)
qed

theorem htable_new_capacity_witness:
  "\<exists>k ht. pcl_htable_new (\<lambda>_ _ _. 0) (int 100) err_init
      = (Some (ht :: (string, nat, nat) pcl_htable), err_init)
    \<and> ht_wf ht \<and> ht_alist ht = [] \<and> ht_capacity ht = 2 ^ k \<and> (100::nat) \<le> 2 ^ k \<and> 2 ^ k < 2 * (100::nat)"
  by (rule htable_new_capacity) simp_all

text \<open>A fresh small table, for the witnesses: no key, eight buckets.\<close>

definition small_table :: "(string, nat, nat) pcl_htable" where
  "small_table = \<lparr>ht_count = 0, ht_count_used = 0, ht_capacity = 8, ht_table_mask = 7,
     ht_entries = replicate 8 zero_entry, ht_entry_lookup = replicate 8 (-1), ht_key_len = 0,
     ht_min_loadfac = MIN_LOADFAC, ht_max_loadfac = MAX_LOADFAC,
     ht_key_equals = default_key_equals, ht_hashcode = default_hashcode (\<lambda>s n seed. of_nat n),
     ht_remove_entry = None\<rparr>"

lemma small_table_plain: "plain_table small_table" "ht_alist small_table = []"
proof -
  have eq: "ht_eq small_table = (=)"
    by (simp add: small_table_def ht_eq_def default_key_equals_def fun_eq_iff)
  show al: "ht_alist small_table = []" by (simp add: small_table_def ht_alist_def)
  have "ht_wf small_table"
  proof (rule ht_wfI [of 3 _ 0 "\<lambda>_. []"])
    show "buckets_ok (ht_entries small_table) (ht_entry_lookup small_table)
        (live_index 0 (ht_entries small_table)) (\<lambda>_. [])"
      by (simp add: buckets_ok_def small_table_def live_index_def)
    show "callbacks_ok small_table" by (simp add: callbacks_ok_def eq identity_equivp)
  qed (use al in \<open>simp_all add: small_table_def al_distinct_def codes_ok_def ht_payloads_def\<close>)
  with eq show "plain_table small_table" by (simp add: plain_table_def small_table_def)
qed

lemma small_table_room: "table_room small_table" "table_dense small_table"
  by (simp_all add: small_table_def table_room_def ht_room_def ht_growable_def table_dense_def)

text \<open>C28: a put into a table with room maps the key to the value and every other key to what it had;
  the association list changes only at that key and a new key goes to its end, also when the put
  rehashed the table. Room (\<open>table_room\<close>) means that the entries have a free slot, or the put will
  rehash, and that the table can still double. A table without it is not refused by the code: removals
  leave their slots used, the load check counts live entries only, and the put then writes behind the
  entries (theorem \<open>htable_churn_overflow\<close>).\<close>

theorem htable_put_refines:
  assumes "plain_table ht" "table_room ht"
  shows "\<exists>ht'. table_put ht k v = Some ht' \<and> plain_table ht'
    \<and> ht_alist ht' = al_put (=) k v (ht_alist ht)
    \<and> (\<forall>k'. table_get ht' k' = (if k = k' then Some v else table_get ht k'))"
proof -
  from table.put_law [OF assms, of k v] obtain ht' where
    "table_put ht k v = Some ht'" "plain_table ht'" "ht_alist ht' = al_put (=) k v (ht_alist ht)"
    by blast
  moreover from this(1) have "\<forall>k'. table_get ht' k' = (if k = k' then Some v else table_get ht k')"
    using table.get_put [OF assms] by blast
  ultimately show ?thesis by blast
qed

theorem htable_put_refines_witness:
  "\<exists>ht'. table_put small_table ''a'' (Some 1) = Some ht' \<and> plain_table ht'
    \<and> ht_alist ht' = al_put (=) ''a'' (Some 1) (ht_alist small_table)
    \<and> (\<forall>k'. table_get ht' k' = (if ''a'' = k' then Some (Some 1) else table_get small_table k'))"
  by (rule htable_put_refines [OF small_table_plain(1) small_table_room(1)])

text \<open>C29: after a removal the key is gone, every other key keeps its value, and the order of the
  others is kept, also when the removal shrank the table.\<close>

theorem htable_remove_refines:
  assumes "plain_table ht"
  shows "\<exists>ht'. table_delete ht k = Some ht' \<and> plain_table ht'
    \<and> ht_alist ht' = al_remove (=) k (ht_alist ht)
    \<and> (\<forall>k'. table_get ht' k' = (if k = k' then None else table_get ht k'))"
proof -
  from table.delete_law [OF assms, of k] obtain ht' where
    "table_delete ht k = Some ht'" "plain_table ht'" "ht_alist ht' = al_remove (=) k (ht_alist ht)"
    by blast
  moreover from this(1) have "\<forall>k'. table_get ht' k' = (if k = k' then None else table_get ht k')"
    using table.get_delete [OF assms] by blast
  ultimately show ?thesis by blast
qed

theorem htable_remove_refines_witness:
  "\<exists>ht'. table_delete small_table ''a'' = Some ht' \<and> plain_table ht'
    \<and> ht_alist ht' = al_remove (=) ''a'' (ht_alist small_table)
    \<and> (\<forall>k'. table_get ht' k' = (if ''a'' = k' then None else table_get small_table k'))"
  by (rule htable_remove_refines [OF small_table_plain(1)])

text \<open>C30: filling a new table of any capacity with pairs succeeds, and iterating over it terminates
  and yields the keys in the order of their first insertion, each with its last value.\<close>

theorem htable_fill_iterate:
  assumes "capacity \<le> 2 ^ 30" "length ps \<le> 2 ^ 29"
  shows "\<exists>ht ht'. pcl_htable_new fh capacity w = (Some (ht :: (string, 'v, 'c) pcl_htable), w)
    \<and> put_pairs table_put ht ps = Some ht'
    \<and> iter_all (Suc (nat (ht_count_used ht'))) ht' 0
       = Some (foldl (\<lambda>al (k, v). al_put (=) k v al) [] ps)"
proof -
  obtain ht :: "(string, 'v, 'c) pcl_htable" where ht: "pcl_htable_new fh capacity w = (Some ht, w)"
    "plain_table ht" "ht_alist ht = []" "table_dense ht"
    using htable_new_ok [OF assms(1), of fh w] by metis
  from table.put_pairs_ok [OF ht(2,4), of ps] ht(3) assms(2) obtain ht' where
    ht': "put_pairs table_put ht ps = Some ht'" "plain_table ht'"
    "ht_alist ht' = foldl (\<lambda>al (k, v). al_put (=) k v al) [] ps" by auto
  have "iter_all (Suc (nat (ht_count_used ht'))) ht' (int 0) = Some (ht_alist ht')"
    using ht'(2) iter_all_from [of ht' 0 "Suc (nat (ht_count_used ht'))"]
    by (simp add: plain_table_def ht_alist_def)
  with ht(1) ht'(1,3) show ?thesis by auto
qed

theorem htable_fill_iterate_witness:
  "\<exists>ht ht'. pcl_htable_new (\<lambda>_ _ _. 0) 0 err_init = (Some (ht :: (string, nat, nat) pcl_htable), err_init)
    \<and> put_pairs table_put ht [(''b'', Some 1), (''a'', None), (''b'', Some 2)] = Some ht'
    \<and> iter_all (Suc (nat (ht_count_used ht'))) ht' 0
       = Some (foldl (\<lambda>al (k, v). al_put (=) k v al) [] [(''b'', Some 1), (''a'', None), (''b'', Some 2)])"
  by (rule htable_fill_iterate) simp_all

text \<open>Eight times putting and removing one key fills all eight entries of a small table although
  it is empty; the next put does not rehash, because the load check counts live entries, and writes
  behind the entries.\<close>

theorem htable_churn_overflow:
  assumes "capacity \<le> 8"
  shows "\<exists>ht ht'. pcl_htable_new fh capacity w = (Some (ht :: (string, 'v, 'c) pcl_htable), w)
    \<and> table_churn 8 k v ht = Some ht' \<and> ht_count ht' = 0 \<and> table_put ht' k v = None"
proof -
  have "capacity \<le> 2 ^ 30" using assms by simp
  then obtain ht :: "(string, 'v, 'c) pcl_htable" where
    ht: "pcl_htable_new fh capacity w = (Some ht, w)" "plain_table ht" "ht_alist ht = []"
    "table_dense ht" "ht_capacity ht = 8"
    using htable_new_ok [of capacity fh w] assms by metis
  have cnt: "ht_count s = 0" if "plain_table s" "ht_alist s = []" for s :: "(string, 'v, 'c) pcl_htable"
    using that by (simp add: plain_table_def ht_wf_def)
  have "ht_count_used ht + int 8 \<le> 8" using ht(4) cnt [OF ht(2,3)] by (simp add: table_dense_def)
  from table_churn_ok [OF ht(2,3,5) this, of k v] obtain ht' where
    ht': "table_churn 8 k v ht = Some ht'" "plain_table ht'" "ht_alist ht' = []" "ht_capacity ht' = 8"
    "ht_count_used ht' = 8"
    using ht(4) cnt [OF ht(2,3)] by (auto simp: table_dense_def)
  have "ht_max_loadfac ht' = MAX_LOADFAC" using ht'(2) by (simp add: plain_table_def ht_wf_def)
  then have "table_put ht' k v = None"
    using cnt [OF ht'(2,3)] ht'(3-5)
    by (intro table_put_full [OF ht'(2)]) (simp_all add: load_limit_def MAX_LOADFAC_def al_get_def)
  with ht(1) ht'(1) cnt [OF ht'(2,3)] show ?thesis by blast
qed

theorem htable_churn_overflow_witness:
  "\<exists>ht ht'. pcl_htable_new (\<lambda>_ _ _. 0) 0 err_init = (Some (ht :: (string, nat, nat) pcl_htable), err_init)
    \<and> table_churn 8 ''key'' (Some 1) ht = Some ht' \<and> ht_count ht' = 0
    \<and> table_put ht' ''key'' (Some 1) = None"
  by (rule htable_churn_overflow) simp

text \<open>\<open>pcl_htable_put\<close> with the unique flag on a key that is there changes nothing in the table and
  sets \<open>PCL_EEXIST\<close>; it also thaws an error that the caller had frozen.\<close>

theorem htable_put_unique:
  assumes "ht_wf ht" "al_get (ht_eq ht) key (ht_alist ht) \<noteq> None"
  shows "\<exists>w'. pcl_htable_put call (Some ht) (Some key) v True w = Some (-1, Some ht, w')
    \<and> err w' = PCL_EEXIST \<and> \<not> frozen w'"
  using htable_put_unique_exists [OF assms, of call v w]
  by (intro exI [of _ "raised (''htable_put.c'', ''pcl_htable_put'', 53) PCL_EEXIST 0 None
      (pcl_err_freeze False w)"]) (simp add: pcl_err_freeze_def)

definition one_table :: "(string, nat, nat) pcl_htable" where
  "one_table = the (table_put small_table ''a'' (Some 1))"

lemma one_table_plain: "plain_table one_table" "ht_alist one_table = [(''a'', Some 1)]"
proof -
  from table.put_law [OF small_table_plain(1) small_table_room(1), of "''a''" "Some 1"]
  obtain t where "table_put small_table ''a'' (Some 1) = Some t" "plain_table t"
    "ht_alist t = al_put (=) ''a'' (Some 1) []"
    by (auto simp: small_table_plain(2))
  then show "plain_table one_table" "ht_alist one_table = [(''a'', Some 1)]"
    by (simp_all add: one_table_def al_put_def)
qed

theorem htable_put_unique_witness:
  "\<exists>w'. pcl_htable_put (\<lambda>_ _ _. Some) (Some one_table) (Some ''a'') None True (pcl_err_freeze True err_init)
      = Some (-1, Some one_table, w')
    \<and> err w' = PCL_EEXIST \<and> \<not> frozen w'"
proof (rule htable_put_unique)
  show "ht_wf one_table" using one_table_plain(1) by (simp add: plain_table_def)
  show "al_get (ht_eq one_table) ''a'' (ht_alist one_table) \<noteq> None"
    using one_table_plain by (simp add: plain_table_def al_get_def)
qed

text \<open>The keys of a table, as a pointer table, are the keys of its pairs in insertion order.\<close>

theorem htable_keys_in_order:
  assumes "ht_wf ht"
  shows "\<exists>keys :: ('k, 'd) pcl_array. pcl_htable_keys (Some ht) w = Some (keys, w) \<and> arr_wf keys
    \<and> arr_seq keys = map (\<lambda>p. Some (fst p)) (ht_alist ht)"
  by (rule htable_keys_ok [OF assms, of w]) blast

theorem htable_keys_in_order_witness:
  "\<exists>keys :: (string, nat) pcl_array. pcl_htable_keys (Some one_table) err_init = Some (keys, err_init)
    \<and> arr_wf keys \<and> arr_seq keys = map (\<lambda>p. Some (fst p)) (ht_alist one_table)"
  by (rule htable_keys_in_order) (use one_table_plain(1) in \<open>simp add: plain_table_def\<close>)

end
