(* ===== verification/PclJsonTree.thy ===== *)
theory PclJsonTree imports PclJsonParse PclJsonEncode PclHtableOk begin

text \<open>
  JSON documents as trees: what a node of the store represents, which trees the codec handles, and
  the text of a tree. The text is the reference for both the encoder and the decoder.
\<close>

section \<open>Trees and what represents them\<close>

datatype 'r jtree =
    TNull
  | TBool bool
  | TInt int
  | TReal 'r
  | TStr "byte list"
  | TArr "'r jtree list"
  | TObj "(string \<times> 'r jtree) list"

text \<open>The static nodes are where they belong.\<close>

definition statics_ok :: "'r jworld \<Rightarrow> bool" where
  "statics_ok w \<longleftrightarrow> 3 \<le> jw_next w
     \<and> jw_mem w pcl_json_null = Some \<lparr>js_nrefs = 0, js_val = JNull\<rparr>
     \<and> jw_mem w pcl_json_true = Some \<lparr>js_nrefs = 0, js_val = JBool True\<rparr>
     \<and> jw_mem w pcl_json_false = Some \<lparr>js_nrefs = 0, js_val = JBool False\<rparr>"

text \<open>Node \<open>p\<close> represents a tree; every node of it that is not static is in \<open>[lo, jw_next)\<close> and has a
  reference count that satisfies \<open>R\<close>.\<close>

definition node_at :: "(int \<Rightarrow> bool) \<Rightarrow> 'r jworld \<Rightarrow> nat \<Rightarrow> nat \<Rightarrow> 'r json_val \<Rightarrow> bool" where
  "node_at R w lo p v \<longleftrightarrow> 3 \<le> p \<and> lo \<le> p \<and> p < jw_next w
     \<and> (\<exists>nd. jw_mem w p = Some nd \<and> R (js_nrefs nd) \<and> js_val nd = v)"

fun rep :: "(int \<Rightarrow> bool) \<Rightarrow> 'r jworld \<Rightarrow> nat \<Rightarrow> nat \<Rightarrow> 'r jtree \<Rightarrow> bool"
  and rep_list :: "(int \<Rightarrow> bool) \<Rightarrow> 'r jworld \<Rightarrow> nat \<Rightarrow> nat option list \<Rightarrow> 'r jtree list \<Rightarrow> bool"
  and rep_pairs :: "(int \<Rightarrow> bool) \<Rightarrow> 'r jworld \<Rightarrow> nat \<Rightarrow> (string \<times> nat option) list \<Rightarrow>
        (string \<times> 'r jtree) list \<Rightarrow> bool"
where
  "rep R w lo p TNull \<longleftrightarrow> p = pcl_json_null"
| "rep R w lo p (TBool b) \<longleftrightarrow> p = pcl_json_bool b"
| "rep R w lo p (TInt i) \<longleftrightarrow> node_at R w lo p (JInt i)"
| "rep R w lo p (TReal r) \<longleftrightarrow> node_at R w lo p (JReal r)"
| "rep R w lo p (TStr s) \<longleftrightarrow> (\<exists>r. node_at R w lo p (JStr (s @ 0 # r)))"
| "rep R w lo p (TArr ts) \<longleftrightarrow>
     (\<exists>a. node_at R w lo p (JArr (Some a)) \<and> arr_wf a \<and> arr_cleanup a = Some ArrayCleanup
        \<and> rep_list R w lo (arr_seq a) ts)"
| "rep R w lo p (TObj kvs) \<longleftrightarrow>
     (\<exists>t. node_at R w lo p (JObj t) \<and> ht_wf t \<and> ht_eq t = (=) \<and> ht_remove_entry t = Some RemoveEntry
        \<and> rep_pairs R w lo (ht_alist t) kvs)"
| "rep_list R w lo ps [] \<longleftrightarrow> ps = []"
| "rep_list R w lo ps (t # ts) \<longleftrightarrow>
     (\<exists>p ps'. ps = Some p # ps' \<and> rep R w lo p t \<and> rep_list R w lo ps' ts)"
| "rep_pairs R w lo al [] \<longleftrightarrow> al = []"
| "rep_pairs R w lo al (kv # kvs) \<longleftrightarrow>
     (\<exists>p al'. al = (fst kv, Some p) # al' \<and> rep R w lo p (snd kv) \<and> rep_pairs R w lo al' kvs)"

lemma rep_list_length: "rep_list R w lo ps ts \<Longrightarrow> length ps = length ts"
  by (induction ts arbitrary: ps) auto

lemma rep_pairs_length: "rep_pairs R w lo al kvs \<Longrightarrow> length al = length kvs"
  by (induction kvs arbitrary: al) auto

lemma rep_pairs_keys: "rep_pairs R w lo al kvs \<Longrightarrow> map fst al = map fst kvs"
  by (induction kvs arbitrary: al) auto

lemma rep_list_append:
  "rep_list R w lo ps (ts @ us) \<longleftrightarrow>
     (\<exists>ps1 ps2. ps = ps1 @ ps2 \<and> rep_list R w lo ps1 ts \<and> rep_list R w lo ps2 us)"
proof (induction ts arbitrary: ps)
  case (Cons t ts)
  show ?case by (simp add: Cons.IH) (metis append_Cons)
qed simp

lemma rep_pairs_append:
  "rep_pairs R w lo al (kvs @ kus) \<longleftrightarrow>
     (\<exists>al1 al2. al = al1 @ al2 \<and> rep_pairs R w lo al1 kvs \<and> rep_pairs R w lo al2 kus)"
proof (induction kvs arbitrary: al)
  case (Cons kv kvs)
  show ?case by (simp add: Cons.IH) (metis append_Cons)
qed simp

text \<open>What a tree's nodes are made of is kept by every change outside of them.\<close>

definition same_from :: "nat \<Rightarrow> 'r jworld \<Rightarrow> 'r jworld \<Rightarrow> bool" where
  "same_from lo w w' \<longleftrightarrow> jw_next w \<le> jw_next w'
     \<and> (\<forall>q. lo \<le> q \<and> q < jw_next w \<longrightarrow> jw_mem w' q = jw_mem w q)"

lemma node_at_frame: "node_at R w lo p v \<Longrightarrow> same_from lo w w' \<Longrightarrow> node_at R w' lo p v"
  by (auto simp: node_at_def same_from_def)

lemma node_at_weaken:
  "node_at R w lo p v \<Longrightarrow> lo' \<le> lo \<Longrightarrow> (\<And>n. R n \<Longrightarrow> S n) \<Longrightarrow> node_at S w lo' p v"
  by (auto simp: node_at_def)

lemma rep_frame:
  shows "rep R w lo p t \<Longrightarrow> same_from lo w w' \<Longrightarrow> rep R w' lo p t"
    and "rep_list R w lo ps ts \<Longrightarrow> same_from lo w w' \<Longrightarrow> rep_list R w' lo ps ts"
    and "rep_pairs R w lo al kvs \<Longrightarrow> same_from lo w w' \<Longrightarrow> rep_pairs R w' lo al kvs"
proof (induction R w lo p t and R w lo ps ts and R w lo al kvs rule: rep_rep_list_rep_pairs.induct)
qed (auto intro: node_at_frame)

lemma rep_weaken:
  assumes "\<And>n. R n \<Longrightarrow> S n"
  shows "rep R w lo p t \<Longrightarrow> lo' \<le> lo \<Longrightarrow> rep S w lo' p t"
    and "rep_list R w lo ps ts \<Longrightarrow> lo' \<le> lo \<Longrightarrow> rep_list S w lo' ps ts"
    and "rep_pairs R w lo al kvs \<Longrightarrow> lo' \<le> lo \<Longrightarrow> rep_pairs S w lo' al kvs"
  using assms
proof (induction R w lo p t and R w lo ps ts and R w lo al kvs rule: rep_rep_list_rep_pairs.induct)
qed (auto intro: node_at_weaken)

section \<open>The text of a tree\<close>

definition u_escape :: "byte \<Rightarrow> byte list" where
  "u_escape c = str_bytes ([CHR 0x5C] @ ''u00'' @ hh c)"

definition char_text :: "byte \<Rightarrow> byte list" where
  "char_text c = (case string_escape c of Some e \<Rightarrow> e | None \<Rightarrow> if c < 0x20 then u_escape c else [c])"

definition string_text :: "byte list \<Rightarrow> byte list" where
  "string_text s = 34 # concat (map char_text s) @ [34]"

text \<open>The line breaks and tabs of a formatted text.\<close>

definition indent :: "bool \<Rightarrow> nat \<Rightarrow> byte list" where
  "indent fmt k = (if fmt then replicate k 9 else [])"

definition line_break :: "bool \<Rightarrow> byte list" where
  "line_break fmt = (if fmt then [10] else [])"

fun json_text :: "'r json_lib \<Rightarrow> bool \<Rightarrow> nat \<Rightarrow> 'r jtree \<Rightarrow> byte list"
  and items_text :: "'r json_lib \<Rightarrow> bool \<Rightarrow> nat \<Rightarrow> 'r jtree list \<Rightarrow> byte list"
  and pairs_text :: "'r json_lib \<Rightarrow> bool \<Rightarrow> nat \<Rightarrow> (string \<times> 'r jtree) list \<Rightarrow> byte list"
where
  "json_text L fmt k TNull = str_bytes ''null''"
| "json_text L fmt k (TBool b) = str_bytes (if b then ''true'' else ''false'')"
| "json_text L fmt k (TInt i) = str_bytes (int_dec i)"
| "json_text L fmt k (TReal r) = jl_format L r"
| "json_text L fmt k (TStr s) = string_text s"
| "json_text L fmt k (TArr ts) =
     91 # line_break (fmt \<and> ts \<noteq> []) @ items_text L fmt (k + 1) ts @ indent (fmt \<and> ts \<noteq> []) k @ [93]"
| "json_text L fmt k (TObj kvs) =
     123 # line_break (fmt \<and> kvs \<noteq> []) @ pairs_text L fmt (k + 1) kvs @ indent (fmt \<and> kvs \<noteq> []) k @ [125]"
| "items_text L fmt k [] = []"
| "items_text L fmt k (t # ts) =
     indent fmt k @ json_text L fmt k t @ (if ts = [] then [] else [44]) @ line_break fmt
       @ items_text L fmt k ts"
| "pairs_text L fmt k [] = []"
| "pairs_text L fmt k (kv # kvs) =
     indent fmt k @ string_text (str_bytes (fst kv)) @ 58 # (if fmt then [32] else [])
       @ json_text L fmt k (snd kv) @ (if kvs = [] then [] else [44]) @ line_break fmt
       @ pairs_text L fmt k kvs"

text \<open>Items one after the other, and the depth of a tree.\<close>

fun seq_text :: "bool \<Rightarrow> nat \<Rightarrow> byte list list \<Rightarrow> byte list" where
  "seq_text fmt k [] = []"
| "seq_text fmt k (x # xs) =
     indent fmt k @ x @ (if xs = [] then [] else [44]) @ line_break fmt @ seq_text fmt k xs"

definition pair_text :: "bool \<Rightarrow> string \<Rightarrow> byte list \<Rightarrow> byte list" where
  "pair_text fmt key x = string_text (str_bytes key) @ 58 # (if fmt then [32] else []) @ x"

lemma items_text_seq: "items_text L fmt k ts = seq_text fmt k (map (json_text L fmt k) ts)"
  by (induction ts) auto

lemma pairs_text_seq:
  "pairs_text L fmt k kvs = seq_text fmt k (map (\<lambda>kv. pair_text fmt (fst kv) (json_text L fmt k (snd kv))) kvs)"
  by (induction kvs) (auto simp: pair_text_def)

fun tree_depth :: "'r jtree \<Rightarrow> nat"
  and list_depth :: "'r jtree list \<Rightarrow> nat"
  and pairs_depth :: "(string \<times> 'r jtree) list \<Rightarrow> nat"
where
  "tree_depth (TArr ts) = list_depth ts"
| "tree_depth (TObj kvs) = pairs_depth kvs"
| "tree_depth TNull = 0"
| "tree_depth (TBool b) = 0"
| "tree_depth (TInt i) = 0"
| "tree_depth (TReal r) = 0"
| "tree_depth (TStr s) = 0"
| "list_depth [] = 0"
| "list_depth (t # ts) = max (Suc (tree_depth t)) (list_depth ts)"
| "pairs_depth [] = 0"
| "pairs_depth (kv # kvs) = max (Suc (tree_depth (snd kv))) (pairs_depth kvs)"

text \<open>Trees whose text has no byte 0 and whose reals are numbers.\<close>

fun tree_ok :: "'r json_lib \<Rightarrow> 'r jtree \<Rightarrow> bool"
  and list_ok :: "'r json_lib \<Rightarrow> 'r jtree list \<Rightarrow> bool"
  and pairs_ok :: "'r json_lib \<Rightarrow> (string \<times> 'r jtree) list \<Rightarrow> bool"
where
  "tree_ok L TNull \<longleftrightarrow> True"
| "tree_ok L (TBool b) \<longleftrightarrow> True"
| "tree_ok L (TInt i) \<longleftrightarrow> True"
| "tree_ok L (TReal r) \<longleftrightarrow> \<not> jl_isnan L r \<and> \<not> jl_isinf L r"
| "tree_ok L (TStr s) \<longleftrightarrow> 0 \<notin> set s"
| "tree_ok L (TArr ts) \<longleftrightarrow> list_ok L ts"
| "tree_ok L (TObj kvs) \<longleftrightarrow> pairs_ok L kvs"
| "list_ok L [] \<longleftrightarrow> True"
| "list_ok L (t # ts) \<longleftrightarrow> tree_ok L t \<and> list_ok L ts"
| "pairs_ok L [] \<longleftrightarrow> True"
| "pairs_ok L (kv # kvs) \<longleftrightarrow> 0 \<notin> set (str_bytes (fst kv)) \<and> tree_ok L (snd kv) \<and> pairs_ok L kvs"

end
