(* ===== verification/PclJsonQuery.thy ===== *)
theory PclJsonQuery imports PclJsonPathOk PclJsonTree begin

text \<open>
  The language of paths: its segments, their text, what a compiled node stands for, and which
  subtrees a path selects. The compiler builds the nodes of a path's text.
\<close>

section \<open>Segments\<close>

datatype seg =
    Name string
  | Quoted string
  | AnyMember
  | Descend
  | Elem int
  | AnyElem
  | Elems "int list"
  | Slice int int int

definition dec :: "int \<Rightarrow> byte list" where "dec i = str_bytes (int_dec i)"

fun seg_text :: "seg \<Rightarrow> byte list" where
  "seg_text (Name k) = 46 # str_bytes k"
| "seg_text (Quoted k) = 91 # 39 # str_bytes k @ [39, 93]"
| "seg_text AnyMember = [46, 42]"
| "seg_text Descend = [46]"
| "seg_text (Elem i) = 91 # dec i @ [93]"
| "seg_text AnyElem = [91, 42, 93]"
| "seg_text (Elems js) = 91 # dec (hd js) @ concat (map (\<lambda>j. 44 # dec j) (tl js)) @ [93]"
| "seg_text (Slice a b c) = 91 # dec a @ 58 # dec b @ 58 # dec c @ [93]"

definition path_text :: "seg list \<Rightarrow> byte list" where
  "path_text segs = 36 # concat (map seg_text segs)"

definition int_ok :: "int \<Rightarrow> bool" where "int_ok i \<longleftrightarrow> INT_MIN \<le> i \<and> i \<le> INT_MAX"

text \<open>A name runs up to the next dot or bracket, a quoted one up to the first \<open>']\<close>.\<close>

fun seg_ok :: "seg \<Rightarrow> bool" where
  "seg_ok (Name k) \<longleftrightarrow> k \<noteq> [] \<and> list_all (\<lambda>c. c \<notin> {0, 46, 91}) (str_bytes k) \<and> hd (str_bytes k) \<noteq> 42"
| "seg_ok (Quoted k) \<longleftrightarrow> k \<noteq> [] \<and> 0 \<notin> set (str_bytes k) \<and> str_bytes k \<noteq> [42]
     \<and> str_find [39, 93] (str_bytes k @ [39, 93]) = Some (length k)"
| "seg_ok AnyMember \<longleftrightarrow> True"
| "seg_ok Descend \<longleftrightarrow> True"
| "seg_ok (Elem i) \<longleftrightarrow> int_ok i"
| "seg_ok AnyElem \<longleftrightarrow> True"
| "seg_ok (Elems js) \<longleftrightarrow> 2 \<le> length js \<and> length js \<le> 2 ^ 30 \<and> list_all int_ok js"
| "seg_ok (Slice a b c) \<longleftrightarrow> int_ok a \<and> int_ok b \<and> int_ok c"

text \<open>Recursive descent is written as one dot, in front of the dot of what follows.\<close>

fun dotted :: "seg list \<Rightarrow> bool" where
  "dotted (Name k # ss) \<longleftrightarrow> True"
| "dotted (AnyMember # ss) \<longleftrightarrow> True"
| "dotted (Descend # ss) \<longleftrightarrow> True"
| "dotted ss \<longleftrightarrow> False"

fun segs_ok :: "seg list \<Rightarrow> bool" where
  "segs_ok [] \<longleftrightarrow> True"
| "segs_ok (s # ss) \<longleftrightarrow> seg_ok s \<and> (s = Descend \<longrightarrow> dotted ss) \<and> segs_ok ss"

fun denotes :: "seg \<Rightarrow> path_node \<Rightarrow> bool" where
  "denotes (Name k) nd \<longleftrightarrow> nd = PathMember (str_bytes k @ [0]) \<and> 0 \<notin> set (str_bytes k)"
| "denotes (Quoted k) nd \<longleftrightarrow> nd = PathMember (str_bytes k @ [0]) \<and> 0 \<notin> set (str_bytes k)"
| "denotes AnyMember nd \<longleftrightarrow> nd = PathWildcardMember"
| "denotes Descend nd \<longleftrightarrow> nd = PathRecursiveDescent"
| "denotes (Elem i) nd \<longleftrightarrow> nd = PathElement i"
| "denotes AnyElem nd \<longleftrightarrow> nd = PathWildcardElement"
| "denotes (Elems js) nd \<longleftrightarrow>
     (\<exists>v. nd = PathElementList v \<and> index_vec v \<and> vec_seq v = map int_bytes js \<and> list_all int_ok js)"
| "denotes (Slice a b c) nd \<longleftrightarrow> nd = PathElementSlice a b c"

section \<open>Compiling the text of a path\<close>

lemma number_dec:
  assumes "base_digit 10 e = None" "int_ok i" "\<not> frozen w"
  shows "number_at (dec i @ e # r) w = Some (Some (i, e # r), w\<lparr>c_errno := 0\<rparr>)"
proof -
  have "\<not> i < LLONG_MIN" "\<not> LLONG_MAX < i"
    using assms(2) by (auto simp: int_ok_def INT_MIN_def INT_MAX_def LLONG_MIN_def LLONG_MAX_def)
  then have "pcl_strtoi (Some (dec i @ e # r)) 10 w
      = Some (0, Some (Some (length (int_dec i))), Some i, w\<lparr>c_errno := 0\<rparr>)"
    using strtoll_int_dec [OF assms(1), of i r] strempty_int_dec [of i "e # r"] assms(2)
    by (simp add: pcl_strtoi_def pcl_strtol_def stores_def dec_def int_ok_def)
  then show ?thesis by (simp add: number_at_def dec_def)
qed

lemma name_end_at:
  "list_all (\<lambda>c. c \<notin> {0, 46, 91}) s \<Longrightarrow> c \<in> {0, 46, 91} \<Longrightarrow> name_end (s @ c # q) = Some (length s)"
  by (induction s) auto

lemma strndup_front: "s \<noteq> [] \<Longrightarrow> pcl_strndup (Some (s @ q)) (length s) = Some (s @ [0])"
  by (simp add: pcl_strndup_def mem_read_def)

lemma match_at_take: "match_at p cs = Some True \<Longrightarrow> take (length cs) p = cs"
proof (induction cs arbitrary: p)
  case (Cons c cs)
  obtain x where x: "rd p 0 = Some x" "x = c" "match_at (tl p) cs = Some True"
    using Cons.prems by (auto split: if_splits simp: bind_simps)
  moreover from x(1) obtain p' where "p = x # p'" by (cases p) (auto simp: rd_def)
  ultimately show ?case using Cons.IH by simp
qed simp

lemma dec_hd:
  obtains c cs where "dec i = c # cs" "c = 45 \<or> base_digit 10 c \<noteq> None"
proof -
  obtain c cs where c: "dec i = c # cs" using int_dec_nonempty by (cases "dec i") (auto simp: dec_def str_bytes_def)
  have "c = 45 \<or> c \<in> set (str_bytes (nat_dec (nat i)))"
    using c by (cases "i < 0") (auto simp: dec_def int_dec_def)
  then show ?thesis using that c nat_dec_digits by blast
qed

lemma not_digit: "base_digit 10 44 = None" "base_digit 10 58 = None" "base_digit 10 93 = None"
  by (simp_all add: base_digit_def digit_val_def)

text \<open>The text behind a segment starts with a dot, a bracket or the end.\<close>

definition follows :: "seg \<Rightarrow> byte list \<Rightarrow> bool" where
  "follows s q \<longleftrightarrow> (\<exists>c q'. q = c # q' \<and> c \<in> {0, 46, 91} \<and> (s = Descend \<longrightarrow> c = 46))"

lemma quoted_text:
  assumes "seg_ok (Quoted k)" "c_strlen q = Some n"
  shows "compile_quote root (seg_text (Quoted k) @ q) w = Some (Some (PathMember (str_bytes k @ [0]), q), w)"
proof -
  define s where "s = str_bytes k"
  have s: "s \<noteq> []" "0 \<notin> set s" "s \<noteq> [42]" "str_find [39, 93] (s @ [39, 93]) = Some (length s)"
    using assms(1) by (auto simp: s_def str_bytes_def simp del: str_find.simps)
  have sl: "c_strlen (s @ 39 # 93 # q) = Some (length s + 2 + n)"
    using s(2) assms(2) by (induction s) auto
  obtain b where b: "match_at (s @ 39 # 93 # q) [42, 39, 93] = Some b"
    using match_at_total [OF sl, of "[42, 39, 93]"] by auto
  have "\<not> b"
  proof
    assume b
    then have t: "take 3 (s @ 39 # 93 # q) = [42, 39, 93]" using match_at_take [of "s @ 39 # 93 # q" "[42, 39, 93]"] b
      by (simp add: numeral_3_eq_3 del: match_at.simps)
    obtain s1 where s1: "s = 42 # s1" "s1 \<noteq> []" using t s(1,3) by (cases s) auto
    then obtain s2 where s2: "s1 = 39 # s2" using t by (cases s1) auto
    then obtain s3 where "s2 = 93 # s3" using t s1 by (cases s2) auto
    then have "str_find [39, 93] (s @ [39, 93]) = Some 1" using s1 s2 by simp
    then show False using s(4) s1 by (simp del: str_find.simps)
  qed
  have "take (length s + 2 + n) (s @ 39 # 93 # q) = s @ [39, 93] @ take n q" by simp
  then have "c_strstr (s @ 39 # 93 # q) [39, 93, 0] = Some (Some (length s))"
    using sl str_find_append [OF s(4), of "take n q"] by (simp add: c_strstr_def del: str_find.simps)
  then show ?thesis
    using b \<open>\<not> b\<close> strndup_front [OF s(1), of "39 # 93 # q"]
    by (simp add: compile_quote_def s_def [symmetric] Let_def)
qed

text \<open>One segment; an \<open>int\<close> conversion leaves \<open>errno\<close> at 0.\<close>

definition compiles :: "('x, 'z) path_step \<Rightarrow> 'x \<Rightarrow> 'z pcl_err_scheme \<Rightarrow> bool" where
  "compiles st x w \<longleftrightarrow> (\<exists>e. st = Some (Some x, w\<lparr>c_errno := e\<rparr>))"

lemma compilesI: "st = Some (Some x, w) \<Longrightarrow> compiles st x w"
  by (auto simp: compiles_def intro: exI [of _ "c_errno w"])

lemma list_loop_text:
  assumes "list_all int_ok js"
  shows "index_vec v \<Longrightarrow> vec_count v + int (length js) \<le> 2 ^ 30 \<Longrightarrow> \<not> frozen w \<Longrightarrow>
    \<exists>v'. index_vec v' \<and> vec_seq v' = vec_seq v @ map int_bytes js
      \<and> compiles (compile_list_loop junk root v (concat (map (\<lambda>j. 44 # dec j) js) @ 93 # q) w) (v', 93 # q) w"
  using assms
proof (induction js arbitrary: v w)
  case Nil
  then show ?case by (auto simp: compile_list_loop.simps rd_def intro!: compilesI)
next
  case (Cons j js)
  define tl where "tl = concat (map (\<lambda>j. 44 # dec j) js) @ 93 # q"
  obtain e t where t: "tl = e # t" "e = 44 \<or> e = 93" by (cases js) (auto simp: tl_def)
  then have n: "number_at (dec j @ tl) w = Some (Some (j, tl), w\<lparr>c_errno := 0\<rparr>)"
    using number_dec [of e j w t] not_digit Cons.prems by auto
  have "vec_count v < 2 ^ 30" using Cons.prems(2) by simp
  then obtain v1 where v1: "append_index junk v j = Some v1" "index_vec v1"
    "vec_seq v1 = vec_seq v @ [int_bytes j]" "vec_count v1 = vec_count v + 1"
    by (rule append_index_ok [OF Cons.prems(1)])
  obtain v' e' where v': "index_vec v'" "vec_seq v' = vec_seq v1 @ map int_bytes js"
    "compile_list_loop junk root v1 tl (w\<lparr>c_errno := 0\<rparr>) = Some (Some (v', 93 # q), w\<lparr>c_errno := e'\<rparr>)"
    using Cons.IH [OF v1(2), of "w\<lparr>c_errno := 0\<rparr>"] Cons.prems v1(4) by (auto simp: compiles_def tl_def)
  have "rd tl 0 = Some e" using t(1) by (simp add: rd_def)
  then have "compile_list_loop junk root v (44 # dec j @ tl) w = Some (Some (v', 93 # q), w\<lparr>c_errno := e'\<rparr>)"
    using n v1(1) v'(3) t(2) by (subst compile_list_loop.simps) (auto simp: rd_def)
  then show ?case using v'(1,2) v1(3) by (auto simp: tl_def compiles_def)
qed

lemma list_text:
  assumes "list_all int_ok js" "2 \<le> length js" "length js \<le> 2 ^ 30" "\<not> frozen w"
  shows "\<exists>v. index_vec v \<and> vec_seq v = map int_bytes js
    \<and> compiles (compile_list junk root (hd js) (concat (map (\<lambda>j. 44 # dec j) (tl js)) @ 93 # q) w)
        (PathElementList v, q) w"
proof -
  obtain j ks where js: "js = j # ks" using assms(2) by (cases js) auto
  obtain v0 v where v: "pcl_vector_new () junk 4 4 None w = (Some v0, w)"
    "append_index junk v0 j = Some v" "index_vec v" "vec_seq v = [int_bytes j]" "vec_count v = 1"
    by (rule first_index)
  have "vec_count v + int (length ks) \<le> 2 ^ 30" using v(5) assms(3) js by simp
  from list_loop_text [OF _ v(3) this assms(4)] assms(1) js v(4) obtain v' e where v':
    "index_vec v'" "vec_seq v' = map int_bytes js"
    "compile_list_loop junk root v (concat (map (\<lambda>j. 44 # dec j) ks) @ 93 # q) w
       = Some (Some (v', 93 # q), w\<lparr>c_errno := e\<rparr>)"
    by (fastforce simp: compiles_def)
  then show ?thesis using v(1,2) js by (auto simp: compile_list_def compiles_def)
qed

lemma bracket_number:
  assumes "\<not> frozen w" "int_ok i" "base_digit 10 e = None"
  shows "compile_node junk root (91 # dec i @ e # q) w
    = (if e = 44 then compile_list junk root i (e # q) (w\<lparr>c_errno := 0\<rparr>)
       else if e = 58 then compile_index_slice root i (e # q) (w\<lparr>c_errno := 0\<rparr>)
       else if e = 93 then Some (Some (PathElement i, q), w\<lparr>c_errno := 0\<rparr>)
       else path_fail root (''json_compile.c'', ''pcl_json_compile'', 274)
              ''invalid subscript expression'' (w\<lparr>c_errno := 0\<rparr>))"
proof -
  obtain c cs where c: "dec i = c # cs" "c = 45 \<or> base_digit 10 c \<noteq> None" by (rule dec_hd)
  then have "c \<noteq> 42" "c \<noteq> 39" "c \<noteq> 58" by (auto simp: base_digit_def digit_val_def)
  then have "compile_node junk root (91 # dec i @ e # q) w = compile_index junk root (91 # dec i @ e # q) w"
    by (simp add: compile_node_def compile_bracket_def rd_def c(1))
  then show ?thesis
    using number_dec [OF assms(3,2,1)] by (simp add: compile_index_def rd_def)
qed

lemma index_slice_text:
  assumes "\<not> frozen w" "int_ok b" "int_ok c"
  shows "compile_index_slice root a (58 # dec b @ 58 # dec c @ 93 # q) w
    = Some (Some (PathElementSlice a b c, q), w\<lparr>c_errno := 0\<rparr>)"
proof -
  obtain d ds where d: "dec b = d # ds" "d = 45 \<or> base_digit 10 d \<noteq> None" by (rule dec_hd)
  then have "d \<noteq> 93 \<and> d \<noteq> 58" by (auto simp: base_digit_def digit_val_def)
  then have "rd (dec b @ 58 # dec c @ 93 # q) 0 = Some d" "d \<noteq> 93 \<and> d \<noteq> 58"
    using d(1) by (simp_all add: rd_def)
  then show ?thesis
    using number_dec [OF not_digit(2) assms(2,1)] number_dec [OF not_digit(3) assms(3), of "w\<lparr>c_errno := 0\<rparr>"]
      assms(1)
    by (simp add: compile_index_slice_def compile_stride_def Let_def rd_def)
qed

lemma node_text:
  assumes "seg_ok s" "follows s q" "c_strlen q = Some n" "\<not> frozen w"
  shows "\<exists>nd. denotes s nd \<and> compiles (compile_node junk root (seg_text s @ q) w) (nd, q) w"
proof (cases s)
  case (Name k)
  obtain c q' where q: "q = c # q'" "c \<in> {0, 46, 91}" using assms(2) by (auto simp: follows_def)
  define m where "m = str_bytes k"
  have m: "m \<noteq> []" "list_all (\<lambda>c. c \<notin> {0, 46, 91}) m" "hd m \<noteq> 42" "0 \<notin> set m"
    using assms(1) Name by (auto simp: m_def str_bytes_def list_all_iff)
  then obtain d ds where d: "m = d # ds" "d \<noteq> 42" "d \<noteq> 46" by (cases m) auto
  have "compile_node junk root (46 # m @ q) w = Some (Some (PathMember (m @ [0]), q), w)"
    using d strndup_front [OF m(1), of q] name_end_at [OF m(2) q(2), of q']
    by (simp add: compile_node_def compile_dot_def rd_def q(1) Let_def)
  then show ?thesis using Name m(4) by (auto simp: m_def intro!: compilesI)
next
  case (Quoted k)
  have z: "0 \<notin> set (str_bytes k)" using assms(1) Quoted by simp
  obtain c q' where "str_bytes k @ [39, 93] @ q = c # q'" by (cases "str_bytes k") auto
  then have "compile_node junk root (seg_text s @ q) w = compile_quote root (seg_text s @ q) w"
    using Quoted by (simp add: compile_node_def compile_bracket_def rd_def)
  then show ?thesis
    using quoted_text [of k q n root w] assms(1,3) Quoted z by (auto intro!: compilesI simp del: seg_ok.simps)
next
  case Descend
  then obtain q' where "q = 46 # q'" using assms(2) by (auto simp: follows_def)
  then show ?thesis
    using Descend by (auto simp: compile_node_def compile_dot_def rd_def intro!: compilesI)
next
  case (Elems js)
  then have js: "list_all int_ok js" "2 \<le> length js" "length js \<le> 2 ^ 30" using assms(1) by simp_all
  then obtain j1 j2 ks where j: "js = j1 # j2 # ks" "int_ok j1" by (cases js; cases "tl js") auto
  obtain v e where v: "index_vec v" "vec_seq v = map int_bytes js"
    "compile_list junk root j1 (44 # dec j2 @ concat (map (\<lambda>j. 44 # dec j) ks) @ 93 # q) (w\<lparr>c_errno := 0\<rparr>)
      = Some (Some (PathElementList v, q), w\<lparr>c_errno := e\<rparr>)"
    using list_text [OF js, of "w\<lparr>c_errno := 0\<rparr>" junk root q] assms(4) j by (auto simp: compiles_def)
  have "compile_node junk root (seg_text s @ q) w = Some (Some (PathElementList v, q), w\<lparr>c_errno := e\<rparr>)"
    using bracket_number [OF assms(4) j(2) not_digit(1)] v(3) Elems j(1) by simp
  then show ?thesis using Elems v(1,2) js(1) by (auto simp: compiles_def)
next
  case (Slice a b c)
  then have i: "int_ok a" "int_ok b" "int_ok c" using assms(1) by simp_all
  have "compile_node junk root (seg_text s @ q) w = Some (Some (PathElementSlice a b c, q), w\<lparr>c_errno := 0\<rparr>)"
    using bracket_number [OF assms(4) i(1) not_digit(2)] index_slice_text [OF _ i(2,3), of "w\<lparr>c_errno := 0\<rparr>"]
      assms(4) Slice by simp
  then show ?thesis using Slice by (auto simp: compiles_def)
next
  case (Elem i)
  then have "compile_node junk root (seg_text s @ q) w = Some (Some (PathElement i, q), w\<lparr>c_errno := 0\<rparr>)"
    using bracket_number [OF assms(4) _ not_digit(3)] assms(1) by simp
  then show ?thesis using Elem by (auto simp: compiles_def)
qed (auto simp: compile_node_def compile_dot_def compile_bracket_def rd_def intro!: compilesI)

section \<open>Whole paths\<close>

lemma text_follows:
  assumes "segs_ok (s # ss)"
  shows "follows s (concat (map seg_text ss) @ 0 # r)"
proof (cases ss)
  case Nil
  then show ?thesis using assms by (auto simp: follows_def)
next
  case (Cons s' ss')
  then show ?thesis using assms by (cases s') (auto simp: follows_def)
qed

lemma dec_nz: "0 \<notin> set (dec i)"
proof -
  have "base_digit 10 0 = None" by (simp add: base_digit_def digit_val_def)
  then show ?thesis
    using nat_dec_digits [of 0 "nat i"] nat_dec_digits [of 0 "nat (- i)"]
    by (auto simp: dec_def int_dec_def)
qed

lemma seg_text_nz: "seg_ok s \<Longrightarrow> 0 \<notin> set (seg_text s)"
  by (cases s) (auto simp: dec_nz list_all_iff)

lemma segs_text_nz: "segs_ok ss \<Longrightarrow> 0 \<notin> set (concat (map seg_text ss))"
  by (induction ss) (auto simp: seg_text_nz)

lemma segs_strlen: "segs_ok ss \<Longrightarrow> \<exists>n. c_strlen (concat (map seg_text ss) @ 0 # r) = Some n"
  using strlen_nul [OF segs_text_nz] by blast

lemma compile_loop_text:
  "segs_ok ss \<Longrightarrow> \<not> frozen w \<Longrightarrow>
   \<exists>nds. list_all2 denotes ss nds
     \<and> compiles (compile_loop junk root (concat (map seg_text ss) @ 0 # r) w) (rev nds @ root) w"
proof (induction ss arbitrary: root w)
  case Nil
  have "compile_loop junk root (0 # r) w = Some (Some root, w)"
    by (simp add: compile_loop.simps rd_def)
  then show ?case by (auto intro: compilesI)
next
  case (Cons s ss)
  define q where "q = concat (map seg_text ss) @ 0 # r"
  obtain n where n: "c_strlen q = Some n" using segs_strlen Cons.prems(1) unfolding q_def by auto
  have ok: "seg_ok s" "segs_ok ss" using Cons.prems(1) by simp_all
  have f: "follows s q" unfolding q_def by (rule text_follows [OF Cons.prems(1)])
  obtain nd e where nd: "denotes s nd"
    "compile_node junk root (seg_text s @ q) w = Some (Some (nd, q), w\<lparr>c_errno := e\<rparr>)"
    using node_text [OF ok(1) f n Cons.prems(2), of junk root] by (auto simp: compiles_def)
  obtain nds e' where nds: "list_all2 denotes ss nds"
    "compile_loop junk (nd # root) q (w\<lparr>c_errno := e\<rparr>) = Some (Some (rev nds @ nd # root), w\<lparr>c_errno := e'\<rparr>)"
    using Cons.IH [OF ok(2), of "w\<lparr>c_errno := e\<rparr>" "nd # root"] Cons.prems(2) by (auto simp: compiles_def q_def)
  obtain c t where c: "seg_text s = c # t" "c \<noteq> 0" by (cases s) auto
  have "compile_loop junk root (seg_text s @ q) w = Some (Some (rev nds @ nd # root), w\<lparr>c_errno := e'\<rparr>)"
    using nd(2) nds(2) c by (subst compile_loop.simps) (simp add: rd_def)
  then show ?case
    using nd(1) nds(1) by (intro exI [of _ "nd # nds"]) (auto simp: compiles_def q_def)
qed

lemma compile_text:
  assumes "segs_ok ss" "ss \<noteq> []" "\<not> frozen w"
  shows "\<exists>nds. list_all2 denotes ss nds
    \<and> compiles (pcl_json_compile junk (Some (path_text ss @ 0 # r)) w) (PathRoot # nds) w"
proof -
  obtain nds e where nds: "list_all2 denotes ss nds"
    "compile_loop junk [PathRoot] (concat (map seg_text ss) @ 0 # r) w = Some (Some (rev nds @ [PathRoot]), w\<lparr>c_errno := e\<rparr>)"
    using compile_loop_text [OF assms(1,3), of junk "[PathRoot]" r] by (auto simp: compiles_def)
  obtain s ss' where ss: "ss = s # ss'" using assms(2) by (cases ss) auto
  obtain c t where c: "concat (map seg_text ss) @ 0 # r = c # t" "c = 46 \<or> c = 91" by (cases s) (auto simp: ss)
  have p: "path_text ss @ 0 # r = 36 # concat (map seg_text ss) @ 0 # r" by (simp add: path_text_def)
  have "pcl_strskipws c_isspace (36 # c # t) = Some 0" by (simp add: c_isspace_def)
  then have "pcl_json_compile junk (Some (path_text ss @ 0 # r)) w = Some (Some (PathRoot # nds), w\<lparr>c_errno := e\<rparr>)"
    using nds(2) c(2) unfolding p c(1)
    by (auto simp: pcl_json_compile_def rd_def reverse_loop_rev simp del: reverse_loop.simps pcl_strskipws.simps)
  then show ?thesis using nds(1) by (auto simp: compiles_def)
qed

end
