(* ===== verification/PclJsonEncodeOk.thy ===== *)
theory PclJsonEncodeOk imports PclJsonTree begin

text \<open>
  The encoder writes the text of the tree a node represents. A writing step is described by the
  bytes it appends to the buffer; the steps compose.
\<close>

section \<open>Writing steps\<close>

definition en_ok :: "json_encode \<Rightarrow> nat \<Rightarrow> bool" where
  "en_ok enc k \<longleftrightarrow> buf_cap (en_b enc) k \<and> nat (bf_pos (en_b enc)) = length (bf_content (en_b enc))
     \<and> bf_mode (en_b enc) = PclBufText \<and> bf_data (en_b enc) \<noteq> Null"

text \<open>In the state \<open>w\<close>, from \<open>t\<close> tabs in the mode \<open>m\<close>, the step appends \<open>bs\<close> and leaves \<open>t'\<close> tabs.\<close>

definition puts ::
  "'r jworld \<Rightarrow> nat \<Rightarrow> nat \<Rightarrow> bool \<Rightarrow> (json_encode \<Rightarrow> 'r jworld \<Rightarrow> (json_encode \<times> 'r jworld) option) \<Rightarrow>
     byte list \<Rightarrow> bool" where
  "puts w t t' m f bs \<longleftrightarrow>
     (\<forall>enc k. en_ok enc (length bs + k) \<and> en_tabs enc = int t \<and> en_format enc = m \<longrightarrow>
       (\<exists>enc'. f enc w = Some (enc', w) \<and> en_ok enc' k
          \<and> bf_content (en_b enc') = bf_content (en_b enc) @ bs
          \<and> en_tabs enc' = int t' \<and> en_format enc' = m))"

definition writes ::
  "'r jworld \<Rightarrow> nat \<Rightarrow> nat \<Rightarrow> bool \<Rightarrow> (json_encode \<Rightarrow> 'r jworld \<Rightarrow> 'r encoded) \<Rightarrow> byte list \<Rightarrow> bool" where
  "writes w t t' m f bs \<longleftrightarrow>
     (\<forall>enc k. en_ok enc (length bs + k) \<and> en_tabs enc = int t \<and> en_format enc = m \<longrightarrow>
       (\<exists>enc'. f enc w = Some (True, enc', w) \<and> en_ok enc' k
          \<and> bf_content (en_b enc') = bf_content (en_b enc) @ bs
          \<and> en_tabs enc' = int t' \<and> en_format enc' = m))"

lemma puts_seq:
  "puts w t t1 m f a \<Longrightarrow> puts w t1 t2 m g b \<Longrightarrow>
   puts w t t2 m (\<lambda>enc w. Option.bind (f enc w) (\<lambda>(enc1, w1). g enc1 w1)) (a @ b)"
  by (fastforce simp: puts_def add.assoc)

lemma puts_writes:
  "puts w t t1 m f a \<Longrightarrow> writes w t1 t2 m g b \<Longrightarrow>
   writes w t t2 m (\<lambda>enc w. Option.bind (f enc w) (\<lambda>(enc1, w1). g enc1 w1)) (a @ b)"
  by (fastforce simp: puts_def writes_def add.assoc)

lemma writes_seq:
  "writes w t t1 m f a \<Longrightarrow> writes w t1 t2 m g b \<Longrightarrow>
   writes w t t2 m (\<lambda>enc w. Option.bind (f enc w) (\<lambda>(good, enc1, w1).
     if \<not> good then Some (False, enc1, w1) else g enc1 w1)) (a @ b)"
  by (fastforce simp: writes_def add.assoc)

lemma puts_done: "puts w t t' m f a \<Longrightarrow> writes w t t' m (\<lambda>enc w. put_done (f enc w)) a"
  by (fastforce simp: puts_def writes_def put_done_def)

lemma writes_end: "writes w t t m (\<lambda>enc w. Some (True, enc, w)) []"
  by (simp add: writes_def)

lemma puts_finish: "puts w t t' m f a \<Longrightarrow>
   writes w t t' m (\<lambda>enc w. Option.bind (f enc w) (\<lambda>(enc1, w1). Some (True, enc1, w1))) a"
  using puts_writes [OF _ writes_end, of w t t' m f a] by simp

lemma puts_when:
  "(c \<Longrightarrow> puts w t t m f a) \<Longrightarrow> puts w t t m (enc_when c f) (if c then a else [])"
  by (auto simp: puts_def enc_when_def)

lemma puts_when_format:
  "(m \<and> c \<Longrightarrow> puts w t t m f a) \<Longrightarrow>
   puts w t t m (\<lambda>enc. enc_when (en_format enc \<and> c) f enc) (if m \<and> c then a else [])"
  by (auto simp: puts_def enc_when_def)

lemma puts_when_only_format:
  "(m \<Longrightarrow> puts w t t m f a) \<Longrightarrow>
   puts w t t m (\<lambda>enc. enc_when (en_format enc) f enc) (if m then a else [])"
  by (auto simp: puts_def enc_when_def)

section \<open>Characters and texts\<close>

lemma puts_bufI:
  assumes "\<And>b k. buf_cap b (length bs + k) \<Longrightarrow> nat (bf_pos b) = length (bf_content b) \<Longrightarrow>
       bf_mode b = PclBufText \<Longrightarrow> bf_data b \<noteq> Null \<Longrightarrow>
       \<exists>r b'. put (Some b) w = Some (r, Some b', w) \<and> buf_cap b' k
         \<and> bf_content b' = bf_content b @ bs \<and> nat (bf_pos b') = length (bf_content b')
         \<and> bf_mode b' = PclBufText \<and> bf_data b' \<noteq> Null"
  shows "puts w t t m (enc_buf put) bs"
  unfolding puts_def
proof (intro allI impI, elim conjE)
  fix enc k
  assume enc: "en_ok enc (length bs + k)" "en_tabs enc = int t" "en_format enc = m"
  then obtain r b' where
    "put (Some (en_b enc)) w = Some (r, Some b', w)" "buf_cap b' k"
    "bf_content b' = bf_content (en_b enc) @ bs" "nat (bf_pos b') = length (bf_content b')"
    "bf_mode b' = PclBufText" "bf_data b' \<noteq> Null"
    using assms [of "en_b enc" k] unfolding en_ok_def by blast
  with enc(2,3) show "\<exists>enc'. enc_buf put enc w = Some (enc', w) \<and> en_ok enc' k
      \<and> bf_content (en_b enc') = bf_content (en_b enc) @ bs
      \<and> en_tabs enc' = int t \<and> en_format enc' = m"
    by (simp add: enc_buf_def en_ok_def)
qed

lemma puts_char:
  assumes "word_bytes c = x # bs" shows "puts w t t m (enc_char L c) [x]"
  unfolding enc_char_def
proof (rule puts_bufI, goal_cases)
  case (1 b k)
  obtain b' where b': "pcl_buf_put (jl_junk L) (Some b) (Some (x # bs)) (int 1) w = Some (int 1, Some b', w)"
    "buf_cap b' (length [x] + k - 1)" "bf_content b' = bf_content b @ take 1 (x # bs)"
    "nat (bf_pos b') = length (bf_content b')" "bf_mode b' = bf_mode b" "bf_data b' \<noteq> Null"
    by (rule put_end [OF 1(1,2), of 1 "x # bs" "jl_junk L" w]) auto
  then show ?case using 1 assms by (simp add: pcl_buf_putchar_def)
qed

lemma cap_to_int: "buf_cap b (n + k) \<Longrightarrow> to_int n = int n"
proof -
  assume "buf_cap b (n + k)"
  then have "2 * (max (bf_size b) (2 * (nat (bf_len b) + (n + k) + 1)) + (n + k) + 2) \<le> nat INT_MAX"
    by (simp add: buf_cap_def)
  moreover have "n \<le> 2 * (max (bf_size b) (2 * (nat (bf_len b) + (n + k) + 1)) + (n + k) + 2)"
    by simp
  ultimately have "n \<le> nat INT_MAX" by (rule order_trans [rotated])
  then show ?thesis by (simp add: INT_MAX_def)
qed

lemma puts_text:
  assumes "0 \<notin> set s" "s \<noteq> []" shows "puts w t t m (enc_text L s) s"
  unfolding enc_text_def
proof (rule puts_bufI, goal_cases)
  case (1 b k)
  obtain b' where b': "pcl_buf_put (jl_junk L) (Some b) (Some (s @ [0])) (int (length s)) w
      = Some (int (length s), Some b', w)"
    "buf_cap b' (length s + k - length s)" "bf_content b' = bf_content b @ take (length s) (s @ [0])"
    "nat (bf_pos b') = length (bf_content b')" "bf_mode b' = bf_mode b" "bf_data b' \<noteq> Null"
    by (rule put_end [OF 1(1,2), of "length s" "s @ [0]" "jl_junk L" w]) (use assms in auto)
  then show ?case
    using 1 strlen_nul [OF assms(1), of "[]"] cap_to_int [OF 1(1)]
    by (simp add: pcl_buf_putstr_def buf_cap_def)
qed

lemma puts_format: "puts w t t m (enc_format L s) s"
  unfolding enc_format_def
proof (rule puts_bufI, goal_cases)
  case (1 b k)
  obtain b' where
    "pcl_buf_vputf (jl_junk L) (Some b) (Inr (map (\<lambda>x. [x]) s)) w = Some (int (length s), Some b', w)"
    "buf_cap b' (length s + k - length s)" "bf_content b' = bf_content b @ s"
    "nat (bf_pos b') = length (bf_content b')" "bf_mode b' = bf_mode b" "bf_data b' \<noteq> Null"
    by (rule vputf_end [OF 1(1-4), of s "jl_junk L" w]) auto
  then show ?case using 1 by auto
qed

lemma word_bytes_ucast: "\<exists>bs. word_bytes (ucast c :: 32 word) = (c :: byte) # bs"
proof -
  have "(ucast (ucast c :: 32 word) :: byte) = c" by transfer simp
  then have "(of_nat (unat (ucast c :: 32 word)) :: byte) = c" by simp
  moreover have e: "LENGTH(32) div 8 = Suc 3" by simp
  ultimately show ?thesis unfolding word_bytes_def e le_bytes.simps(2) by simp
qed

lemma puts_tabs: "puts w t t m (print_tabs L n) (replicate n 9)"
proof (induction n)
  case 0
  then show ?case by (simp add: puts_def)
next
  case (Suc n)
  obtain bs where "word_bytes (9 :: 32 word) = (9 :: byte) # bs"
    using word_bytes_ucast [of 9] by auto
  from puts_seq [OF puts_char [OF this] Suc.IH, of L]
  show ?case by (simp add: puts_def)
qed

section \<open>Strings\<close>

lemma puts_encode_char: "puts w t t m (encode_char L c) (char_text c)"
proof (cases "string_escape c")
  case (Some e)
  then have "0 \<notin> set e" "e \<noteq> []" by (auto simp: string_escape_def split: if_splits)
  then show ?thesis
    using puts_text [of e w t m L] Some by (simp add: puts_def encode_char_def char_text_def)
next
  case None
  obtain bs where "word_bytes (ucast c :: 32 word) = c # bs" using word_bytes_ucast by blast
  then show ?thesis
    using puts_format [of w t m L "u_escape c"] puts_char [of "ucast c" c bs w t m L] None
    by (simp add: puts_def encode_char_def char_text_def u_escape_def)
qed

lemma puts_encode_chars:
  "0 \<notin> set s \<Longrightarrow> puts w t t m (encode_chars L (s @ 0 # r)) (concat (map char_text s))"
proof (induction s)
  case Nil
  then show ?case by (simp add: puts_def)
next
  case (Cons c s)
  from Cons.prems have "0 \<notin> set s" by simp
  from puts_seq [OF puts_encode_char Cons.IH [OF this], of L c] Cons.prems
  show ?case by (simp add: puts_def)
qed

lemma puts_byte: "puts w t t m (enc_char L (ucast c)) [c]"
  using word_bytes_ucast [of c] puts_char by metis

lemma puts_ascii [simp]:
  "puts w t t m (enc_char L 34) [34]" "puts w t t m (enc_char L 44) [44]"
  "puts w t t m (enc_char L 58) [58]" "puts w t t m (enc_char L 91) [91]"
  "puts w t t m (enc_char L 93) [93]" "puts w t t m (enc_char L 123) [123]"
  "puts w t t m (enc_char L 125) [125]" "puts w t t m (enc_char L 10) [10]"
  "puts w t t m (enc_char L 32) [32]"
  using puts_byte [of w t m L 34] puts_byte [of w t m L 44] puts_byte [of w t m L 58]
    puts_byte [of w t m L 91] puts_byte [of w t m L 93] puts_byte [of w t m L 123]
    puts_byte [of w t m L 125] puts_byte [of w t m L 10] puts_byte [of w t m L 32]
  by simp_all

lemma writes_string:
  assumes "0 \<notin> set s"
  shows "writes w t t m (ipcl_json_encode_string L (s @ 0 # r)) (string_text s)"
proof -
  have "writes w t t m (\<lambda>enc w. Option.bind (enc_char L 34 enc w) (\<lambda>(enc1, w1).
      (\<lambda>enc w. Option.bind (encode_chars L (s @ 0 # r) enc w) (\<lambda>(enc1, w1).
        (\<lambda>enc w. Option.bind (enc_char L 34 enc w) (\<lambda>(enc1, w1). Some (True, enc1, w1))) enc1 w1)) enc1 w1))
      ([34] @ concat (map char_text s) @ [34])"
    by (intro puts_writes [where ?t1.0 = t] puts_finish puts_ascii puts_encode_chars assms)
  then show ?thesis by (simp add: ipcl_json_encode_string_def [abs_def] string_text_def)
qed

section \<open>Arrays and objects\<close>

lemma puts_indent:
  "puts w t t m (\<lambda>enc. enc_when (en_format enc) (print_tabs L (nat (en_tabs enc))) enc) (indent m t)"
  using puts_tabs [of w t m L t] by (fastforce simp: puts_def enc_when_def indent_def)

lemma en_ok_tabs [simp]: "en_ok (enc\<lparr>en_tabs := x\<rparr>) k = en_ok enc k"
  by (simp add: en_ok_def)

lemma puts_tabs_up:
  assumes "puts w (t + 1) t' m f bs"
  shows "puts w t t' m (\<lambda>enc w. f (enc\<lparr>en_tabs := en_tabs enc + 1\<rparr>) w) bs"
  unfolding puts_def
proof (intro allI impI, elim conjE)
  fix enc k
  assume "en_ok enc (length bs + k)" "en_tabs enc = int t" "en_format enc = m"
  then show "\<exists>enc'. f (enc\<lparr>en_tabs := en_tabs enc + 1\<rparr>) w = Some (enc', w) \<and> en_ok enc' k
      \<and> bf_content (en_b enc') = bf_content (en_b enc) @ bs \<and> en_tabs enc' = int t' \<and> en_format enc' = m"
    using assms [unfolded puts_def, rule_format, of "enc\<lparr>en_tabs := en_tabs enc + 1\<rparr>" k] by simp
qed

lemma writes_tabs_down:
  assumes "writes w t t' m f bs"
  shows "writes w (t + 1) t' m (\<lambda>enc w. f (enc\<lparr>en_tabs := en_tabs enc - 1\<rparr>) w) bs"
  unfolding writes_def
proof (intro allI impI, elim conjE)
  fix enc k
  assume "en_ok enc (length bs + k)" "en_tabs enc = int (t + 1)" "en_format enc = m"
  then show "\<exists>enc'. f (enc\<lparr>en_tabs := en_tabs enc - 1\<rparr>) w = Some (True, enc', w) \<and> en_ok enc' k
      \<and> bf_content (en_b enc') = bf_content (en_b enc) @ bs \<and> en_tabs enc' = int t' \<and> en_format enc' = m"
    using assms [unfolded writes_def, rule_format, of "enc\<lparr>en_tabs := en_tabs enc - 1\<rparr>" k] by simp
qed

lemma puts_open:
  assumes "puts w (t + 1) (t + 1) m (enc_char L b) [x]"
  shows "puts w t (t + 1) m (enc_open L b cnt) (x # line_break (m \<and> cnt \<noteq> 0))"
proof -
  have "puts w (t + 1) (t + 1) m (\<lambda>enc w. Option.bind (enc_char L b enc w) (\<lambda>(enc1, w1).
      (\<lambda>enc. enc_when (en_format enc \<and> cnt \<noteq> 0) (enc_char L 10) enc) enc1 w1))
      ([x] @ (if m \<and> cnt \<noteq> 0 then [10] else []))"
    by (rule puts_seq [OF assms puts_when_format]) simp
  from puts_tabs_up [OF this] show ?thesis
    by (simp add: enc_open_def [abs_def] line_break_def)
qed

lemma writes_close:
  assumes "puts w t t m (enc_char L b) [x]"
  shows "writes w (t + 1) t m (enc_close L b cnt) (indent (m \<and> cnt \<noteq> 0) t @ [x])"
proof -
  have tabs: "puts w t t m (\<lambda>enc. enc_when (en_format enc \<and> cnt \<noteq> 0)
      (print_tabs L (nat (en_tabs enc))) enc) (indent (m \<and> cnt \<noteq> 0) t)"
    using puts_tabs [of w t m L t] by (fastforce simp: puts_def enc_when_def indent_def)
  have "writes w t t m (\<lambda>enc w. Option.bind (enc_when (en_format enc \<and> cnt \<noteq> 0)
      (print_tabs L (nat (en_tabs enc))) enc w) (\<lambda>(enc1, w1).
        (\<lambda>enc w. Option.bind (enc_char L b enc w) (\<lambda>(enc2, w2). Some (True, enc2, w2))) enc1 w1))
      (indent (m \<and> cnt \<noteq> 0) t @ [x])"
    by (rule puts_writes [OF tabs puts_finish [OF assms]])
  from writes_tabs_down [OF this] show ?thesis
    by (simp add: enc_close_def [abs_def])
qed

lemma writes_elems:
  assumes "arr_wf a"
  shows "drop i (arr_seq a) = ps \<Longrightarrow> list_all2 (\<lambda>po x. writes w t t m (value po) x) ps xs \<Longrightarrow>
    writes w t t m (array_elems value L a i (length ps)) (seq_text m t xs)"
proof (induction ps arbitrary: i xs)
  case Nil
  then show ?case by (simp add: writes_end)
next
  case (Cons po ps)
  then obtain x xs' where xs: "xs = x # xs'" "writes w t t m (value po) x"
    "list_all2 (\<lambda>po x. writes w t t m (value po) x) ps xs'"
    by (auto simp: list_all2_Cons1)
  have i: "i < length (arr_seq a)" using Cons.prems(1) by (cases "i < length (arr_seq a)") auto
  have nx: "drop (Suc i) (arr_seq a) = ps" "arr_seq a ! i = po"
    using Cons.prems(1) i by (simp_all add: Cons_nth_drop_Suc [symmetric])
  have ct: "arr_count a = int (length (arr_seq a))" using assms by simp
  from assms i have "i < length (arr_elements a)" by (simp add: arr_wf_def arr_seq_def)
  then have e: "rd (arr_elements a) (int i) = Some po"
    using nx(2) arr_seq_nth [OF assms i] by (simp add: rd_int)
  have last: "int i + 1 < arr_count a \<longleftrightarrow> ps \<noteq> []"
    unfolding ct nx(1) [symmetric] by auto
  have len: "length ps = length xs'" using xs(3) by (rule list_all2_lengthD)
  let ?f = "\<lambda>enc w. Option.bind (enc_when (en_format enc) (print_tabs L (nat (en_tabs enc))) enc w)
      (\<lambda>(enc1, w1). (\<lambda>enc w. Option.bind (value po enc w) (\<lambda>(good, enc1, w1).
        if \<not> good then Some (False, enc1, w1) else (\<lambda>enc w.
          Option.bind (enc_when (ps \<noteq> []) (enc_char L 44) enc w) (\<lambda>(enc1, w1). (\<lambda>enc w.
            Option.bind (enc_when (en_format enc) (enc_char L 10) enc w) (\<lambda>(enc1, w1).
              array_elems value L a (i + 1) (length ps) enc1 w1)) enc1 w1)) enc1 w1)) enc1 w1)"
  have step: "array_elems value L a i (length (po # ps)) = ?f"
    by (intro ext) (simp add: e last cong: if_cong)
  have bytes: "seq_text m t xs = indent m t @ x @ (if ps \<noteq> [] then [44] else [])
      @ (if m then [10] else []) @ seq_text m t xs'"
    using len by (auto simp: xs(1) line_break_def)
  show ?case
    unfolding step bytes using Cons.IH [of "i + 1" xs'] nx(1) xs(3)
    by (intro puts_writes [OF puts_indent] writes_seq [OF xs(2)] puts_writes [OF puts_when]
        puts_writes [OF puts_when_only_format] puts_ascii) simp
qed

lemma writes_array:
  assumes "arr_wf a" "list_all2 (\<lambda>po x. writes w (t + 1) (t + 1) m (value po) x) (arr_seq a) xs"
  shows "writes w t t m (ipcl_json_encode_array value L a)
    (91 # line_break (m \<and> xs \<noteq> []) @ seq_text m (t + 1) xs @ indent (m \<and> xs \<noteq> []) t @ [93])"
proof -
  have c: "arr_count a = int (length (arr_seq a))" using assms(1) by simp
  then have n: "nat (arr_count a) = length (arr_seq a)" "(arr_count a \<noteq> 0) = (xs \<noteq> [])"
    using list_all2_lengthD [OF assms(2)] by auto
  have "writes w t t m (\<lambda>enc w. Option.bind (enc_open L 91 (arr_count a) enc w) (\<lambda>(enc1, w1).
      (\<lambda>enc w. Option.bind (array_elems value L a 0 (length (arr_seq a)) enc w) (\<lambda>(good, enc1, w1).
        if \<not> good then Some (False, enc1, w1) else enc_close L 93 (arr_count a) enc1 w1)) enc1 w1))
      ((91 # line_break (m \<and> arr_count a \<noteq> 0)) @ seq_text m (t + 1) xs
        @ indent (m \<and> arr_count a \<noteq> 0) t @ [93])"
    by (intro puts_writes [OF puts_open] writes_seq [OF writes_elems [OF assms(1)]] writes_close
        puts_ascii assms(2)) simp
  then show ?thesis by (simp add: ipcl_json_encode_array_def [abs_def] n)
qed

lemma writes_entries:
  "iter_all fuel tb i = Some al \<Longrightarrow>
   list_all2 (\<lambda>(k, v) x. 0 \<notin> set (str_bytes k) \<and> (\<exists>y. x = pair_text m k y \<and> writes w t t m (value v) y)) al xs \<Longrightarrow>
   writes w t t m (object_entries value L tb fuel (Some i) (int (length al))) (seq_text m t xs)"
proof (induction fuel arbitrary: i al xs)
  case (Suc fuel)
  obtain eo io where it: "pcl_htable_iter (Some tb) (Some i) = Some (eo, io)"
    using Suc.prems(1) by (auto simp: bind_simps)
  show ?case
  proof (cases eo)
    case None
    then show ?thesis using Suc.prems it by (auto simp: writes_end)
  next
    case (Some e)
    then obtain k i1 al' where e: "he_key e = Some k" "io = Some i1" "iter_all fuel tb i1 = Some al'"
      "al = (k, he_value e) # al'"
      using Suc.prems(1) it by (auto simp: bind_simps)
    then obtain y xs' where xs: "xs = pair_text m k y # xs'" "writes w t t m (value (he_value e)) y"
      "0 \<notin> set (str_bytes k)"
      "list_all2 (\<lambda>(k, v) x. 0 \<notin> set (str_bytes k) \<and> (\<exists>y. x = pair_text m k y \<and> writes w t t m (value v) y)) al' xs'"
      using Suc.prems(2) by (auto simp: list_all2_Cons1)
    have last: "xs' = [] \<longleftrightarrow> al' = []" using list_all2_lengthD [OF xs(4)] by auto
    let ?f = "\<lambda>enc w. Option.bind (enc_when (en_format enc) (print_tabs L (nat (en_tabs enc))) enc w)
        (\<lambda>(enc1, w1). (\<lambda>enc w. Option.bind (ipcl_json_encode_string L (str_bytes k @ 0 # []) enc w) (\<lambda>(good, enc1, w1).
          if \<not> good then Some (False, enc1, w1) else (\<lambda>enc w.
            Option.bind (enc_char L 58 enc w) (\<lambda>(enc1, w1). (\<lambda>enc w.
              Option.bind (enc_when (en_format enc) (enc_char L 32) enc w) (\<lambda>(enc1, w1). (\<lambda>enc w.
                Option.bind (value (he_value e) enc w) (\<lambda>(good, enc1, w1).
                  if \<not> good then Some (False, enc1, w1) else (\<lambda>enc w.
                    Option.bind (enc_when (al' \<noteq> []) (enc_char L 44) enc w) (\<lambda>(enc1, w1). (\<lambda>enc w.
                      Option.bind (enc_when (en_format enc) (enc_char L 10) enc w) (\<lambda>(enc1, w1).
                        object_entries value L tb fuel (Some i1) (int (length al')) enc1 w1)) enc1 w1)) enc1 w1)) enc1 w1)) enc1 w1)) enc1 w1)) enc1 w1)"
    have step: "object_entries value L tb (Suc fuel) (Some i) (int (length al)) = ?f"
      by (intro ext) (simp add: it e(1,2,4) Some cong: if_cong)
    have bytes: "seq_text m t xs = indent m t @ string_text (str_bytes k) @ [58] @ (if m then [32] else []) @ y
          @ (if al' \<noteq> [] then [44] else []) @ (if m then [10] else []) @ seq_text m t xs'"
      using last by (auto simp: xs(1) line_break_def pair_text_def)
    show ?thesis
      unfolding step bytes using Suc.IH [OF e(3) xs(4)]
      by (intro puts_writes [OF puts_indent] writes_seq [OF writes_string [OF xs(3)]]
          puts_writes [OF puts_ascii(3)] writes_seq [OF xs(2)] puts_writes [OF puts_when]
          puts_writes [OF puts_when_only_format] puts_ascii) simp
  qed
qed simp

lemma writes_object:
  assumes "ht_wf tb"
    "list_all2 (\<lambda>(k, v) x. 0 \<notin> set (str_bytes k)
       \<and> (\<exists>y. x = pair_text m k y \<and> writes w (t + 1) (t + 1) m (value v) y)) (ht_alist tb) xs"
  shows "writes w t t m (ipcl_json_encode_object value L tb)
    (123 # line_break (m \<and> xs \<noteq> []) @ seq_text m (t + 1) xs @ indent (m \<and> xs \<noteq> []) t @ [125])"
proof -
  have c: "ht_count tb = int (length (ht_alist tb))" using assms(1) by (simp add: ht_wf_def)
  then have n: "(ht_count tb \<noteq> 0) = (xs \<noteq> [])"
    using list_all2_lengthD [OF assms(2)] by auto
  have it: "iter_all (Suc (nat (ht_count_used tb))) tb 0 = Some (ht_alist tb)"
    using iter_all_from [OF assms(1), of 0 "Suc (nat (ht_count_used tb))"]
    by (simp add: ht_alist_def del: iter_all.simps)
  have "writes w t t m (\<lambda>enc w. Option.bind (enc_open L 123 (ht_count tb) enc w) (\<lambda>(enc1, w1).
      (\<lambda>enc w. Option.bind (object_entries value L tb (Suc (nat (ht_count_used tb))) (Some 0)
          (int (length (ht_alist tb))) enc w) (\<lambda>(good, enc1, w1).
        if \<not> good then Some (False, enc1, w1) else enc_close L 125 (ht_count tb) enc1 w1)) enc1 w1))
      ((123 # line_break (m \<and> ht_count tb \<noteq> 0)) @ seq_text m (t + 1) xs
        @ indent (m \<and> ht_count tb \<noteq> 0) t @ [125])"
    by (intro puts_writes [OF puts_open] writes_seq [OF writes_entries [OF it]] writes_close
        puts_ascii assms(2))
  then show ?thesis
    unfolding n by (simp add: ipcl_json_encode_object_def [abs_def] c del: object_entries.simps cong: if_cong)
qed

section \<open>Values\<close>

lemma writes_load:
  assumes "jw_mem w p = Some nd"
  shows "writes w t t' m (ipcl_json_encode_value (Suc n) L (Some p)) bs \<longleftrightarrow>
    writes w t t' m (case js_val nd of
        JNull \<Rightarrow> (\<lambda>enc w. put_done (enc_text L (str_bytes ''null'') enc w))
      | JObj tb \<Rightarrow> ipcl_json_encode_object (ipcl_json_encode_value n L) L tb
      | JArr ar \<Rightarrow> (\<lambda>enc w. Option.bind ar (\<lambda>a. ipcl_json_encode_array (ipcl_json_encode_value n L) L a enc w))
      | JBool b \<Rightarrow> (\<lambda>enc w. put_done (enc_text L (str_bytes (if b then ''true'' else ''false'')) enc w))
      | JStr s \<Rightarrow> ipcl_json_encode_string L s
      | JInt i \<Rightarrow> (\<lambda>enc w. put_done (enc_format L (str_bytes (int_dec i)) enc w))
      | JReal r \<Rightarrow> (\<lambda>enc w.
          if jl_isnan L r \<or> jl_isinf L r then put_done (enc_text L (str_bytes ''null'') enc w)
          else put_done (enc_format L (jl_format L r) enc w))) bs"
  using assms by (cases "js_val nd") (simp_all add: writes_def json_load_def)

lemma writes_word:
  "writes w t t m (\<lambda>enc w. put_done (enc_text L (str_bytes ''null'') enc w)) (str_bytes ''null'')"
  "writes w t t m (\<lambda>enc w. put_done (enc_text L (str_bytes (if b then ''true'' else ''false'')) enc w))
     (str_bytes (if b then ''true'' else ''false''))"
  by (rule puts_done [OF puts_text]; simp add: str_bytes_def)+

lemma writes_value:
  shows "rep R w lo p t \<Longrightarrow> statics_ok w \<Longrightarrow> tree_ok L t \<Longrightarrow> tree_depth t < n \<Longrightarrow>
      writes w k k m (ipcl_json_encode_value n L (Some p)) (json_text L m k t)"
    and "rep_list R w lo ps ts \<Longrightarrow> statics_ok w \<Longrightarrow> list_ok L ts \<Longrightarrow> list_depth ts \<le> n \<Longrightarrow>
      list_all2 (\<lambda>po x. writes w k k m (ipcl_json_encode_value n L po) x) ps (map (json_text L m k) ts)"
    and "rep_pairs R w lo al kvs \<Longrightarrow> statics_ok w \<Longrightarrow> pairs_ok L kvs \<Longrightarrow> pairs_depth kvs \<le> n \<Longrightarrow>
      list_all2 (\<lambda>(key, v) x. 0 \<notin> set (str_bytes key)
        \<and> (\<exists>y. x = pair_text m key y \<and> writes w k k m (ipcl_json_encode_value n L v) y)) al
        (map (\<lambda>kv. pair_text m (fst kv) (json_text L m k (snd kv))) kvs)"
proof (induction R w lo p t and R w lo ps ts and R w lo al kvs arbitrary: n k and n k and n k
    rule: rep_rep_list_rep_pairs.induct)
  case (1 R w lo p)
  then obtain n' where "n = Suc n'" by (cases n) auto
  then show ?case using 1 writes_word(1) [of w k m L]
    by (simp add: statics_ok_def writes_load del: ipcl_json_encode_value.simps)
next
  case (2 R w lo p b)
  then obtain n' where n: "n = Suc n'" by (cases n) auto
  have "jw_mem w p = Some \<lparr>js_nrefs = 0, js_val = JBool b\<rparr>"
    using 2 by (cases b) (simp_all add: statics_ok_def pcl_json_bool_def)
  then show ?case using n writes_word(2) [of w k m L b]
    by (simp add: writes_load del: ipcl_json_encode_value.simps)
next
  case (3 R w lo p i)
  then obtain n' nd where n: "n = Suc n'" "jw_mem w p = Some nd" "js_val nd = JInt i"
    by (cases n) (auto simp: node_at_def)
  then show ?case using puts_done [OF puts_format]
    by (simp add: writes_load del: ipcl_json_encode_value.simps)
next
  case (4 R w lo p r)
  then obtain n' nd where n: "n = Suc n'" "jw_mem w p = Some nd" "js_val nd = JReal r"
    by (cases n) (auto simp: node_at_def)
  then show ?case using 4 puts_done [OF puts_format]
    by (simp add: writes_load del: ipcl_json_encode_value.simps)
next
  case (5 R w lo p s)
  then obtain n' nd r where n: "n = Suc n'" "jw_mem w p = Some nd" "js_val nd = JStr (s @ 0 # r)"
    by (cases n) (auto simp: node_at_def)
  then show ?case using 5 writes_string
    by (simp add: writes_load del: ipcl_json_encode_value.simps)
next
  case (6 R w lo p ts)
  then obtain n' nd a where n: "n = Suc n'" "jw_mem w p = Some nd" "js_val nd = JArr (Some a)"
    "arr_wf a" "rep_list R w lo (arr_seq a) ts"
    by (cases n) (auto simp: node_at_def)
  have "list_depth ts \<le> n'" "list_ok L ts" using 6 n(1) by auto
  from writes_array [OF n(4) "6.IH" [OF n(5) "6.prems"(2) this(2,1), of "k + 1"]]
  show ?case using n
    by (simp add: writes_load items_text_seq del: ipcl_json_encode_value.simps)
next
  case (7 R w lo p kvs)
  then obtain n' nd tb where n: "n = Suc n'" "jw_mem w p = Some nd" "js_val nd = JObj tb"
    "ht_wf tb" "rep_pairs R w lo (ht_alist tb) kvs"
    by (cases n) (auto simp: node_at_def)
  have "pairs_depth kvs \<le> n'" "pairs_ok L kvs" using 7 n(1) by auto
  from writes_object [OF n(4) "7.IH" [OF n(5) "7.prems"(2) this(2,1), of "k + 1"]]
  show ?case using n
    by (simp add: writes_load pairs_text_seq del: ipcl_json_encode_value.simps)
next
  case (8 R w lo ps) then show ?case by simp
next
  case (9 R w lo ps t ts) then show ?case by auto
next
  case (10 R w lo al) then show ?case by simp
next
  case (11 R w lo al kv kvs) then show ?case by auto
qed

section \<open>The text\<close>

lemma buf_text_block:
  assumes "bf_wf b" "bf_mode b = PclBufText" "bf_data b \<noteq> Null"
  obtains r where "bf_data b = Blk (bf_content b @ 0 # r)"
proof -
  from assms obtain bs where bs: "bf_data b = Blk bs" "bf_len b < int (bf_size b)"
    "length bs = bf_size b" "take 1 (drop (nat (bf_len b)) bs) = [0]" "bf_chrsize b = 1" "0 \<le> bf_len b"
    by (cases "bf_data b") (auto simp: bf_wf_def mode_chrsize_def)
  define n where "n = nat (bf_len b)"
  have "n < length bs" using bs by (simp add: n_def)
  moreover from this have "bs ! n = 0"
    using bs(4) by (simp add: n_def [symmetric] Cons_nth_drop_Suc [symmetric])
  ultimately have "bs = take n bs @ 0 # drop (Suc n) bs" by (metis id_take_nth_drop)
  moreover have "bf_content b = take n bs" using bs by (simp add: bf_content_def n_def)
  ultimately show ?thesis using bs(1) that by metis
qed

lemma json_encode_ok:
  assumes "rep R w lo p t" "statics_ok w" "tree_ok L t" "tree_depth t < fuel"
    "length (json_text L fmt 0 t) \<le> 2 ^ 28"
  shows "\<exists>r. pcl_json_encode fuel L (Some p) fmt w = Some (Blk (json_text L fmt 0 t @ 0 # r), w)"
proof -
  obtain b where b: "pcl_buf_init (jl_junk L) None 256 (buf_mode_code PclBufText) w = Some (Some b, w)"
    "bf_wf b" "bf_mode b = PclBufText" "bf_pos b = 0" "bf_len b = 0" "bf_size b = 256"
    "bf_content b = []" "bf_chrsize b = mode_chrsize PclBufText"
    by (rule init_ok [of 256 PclBufText "jl_junk L" None w]) (auto simp: mode_chrsize_def INT_MAX_def)
  have "max 256 (2 * (length (json_text L fmt 0 t) + 1)) \<le> 2 * (2 ^ 28 + 1)" using assms(5) by simp
  then have "buf_cap b (length (json_text L fmt 0 t))"
    using b(2,3,5,6,8) assms(5) by (simp add: buf_cap_def mode_chrsize_def INT_MAX_def)
  moreover have "bf_data b \<noteq> Null" using b(2,6) by (auto simp: bf_wf_def)
  ultimately have "en_ok \<lparr>en_tabs = 0, en_format = fmt, en_b = b\<rparr> (length (json_text L fmt 0 t) + 0)"
    using b by (simp add: en_ok_def)
  then obtain enc where enc:
    "ipcl_json_encode_value fuel L (Some p) \<lparr>en_tabs = 0, en_format = fmt, en_b = b\<rparr> w = Some (True, enc, w)"
    "en_ok enc 0" "bf_content (en_b enc) = json_text L fmt 0 t"
    using writes_value(1) [OF assms(1-4), of 0 fmt] b(7) unfolding writes_def by fastforce
  obtain r where "bf_data (en_b enc) = Blk (bf_content (en_b enc) @ 0 # r)"
    using enc(2) by (auto simp: en_ok_def buf_cap_def elim: buf_text_block)
  then show ?thesis using b(1) enc by (simp add: pcl_json_encode_def del: ipcl_json_encode_value.simps)
qed

end
