(* ===== verification/PclJsonParseOk.thy ===== *)
theory PclJsonParseOk imports PclJsonEncodeOk begin

text \<open>
  The decoder rebuilds a tree from its text: for each function of the parser, what it does on a text
  that starts with what it parses. The state of the parser is described by the text that remains.
\<close>

section \<open>The remaining text\<close>

definition remains :: "byte list \<Rightarrow> int \<Rightarrow> json_state \<Rightarrow> byte list \<Rightarrow> bool" where
  "remains tx E st bs \<longleftrightarrow> jp_end st = E \<and> 0 \<le> jp_next st \<and> jp_end st = jp_next st + int (length bs)
     \<and> (\<exists>post. drop (nat (jp_next st)) tx = bs @ post)"

lemma remains_ctx [simp]:
  "remains tx E (st\<lparr>jp_ctx := x\<rparr>) bs = remains tx E st bs"
  "remains tx E (st\<lparr>jp_line := x\<rparr>) bs = remains tx E st bs"
  by (simp_all add: remains_def)

lemma remains_line [simp]:
  "remains tx E (advance n st\<lparr>jp_line := x\<rparr>) bs = remains tx E (advance n st) bs"
  by (simp add: remains_def)

lemma drop_append_length:
  assumes "drop n xs = ys @ zs" shows "drop (n + length ys) xs = zs"
proof -
  have "drop (length ys) (drop n xs) = zs" by (simp add: assms)
  then show ?thesis by (simp add: add.commute)
qed

lemma remains_advance:
  assumes "remains tx E st (xs @ bs)" "n = int (length xs)"
  shows "remains tx E (advance n st) bs"
proof -
  obtain post where p: "jp_end st = E" "0 \<le> jp_next st" "jp_end st = jp_next st + int (length (xs @ bs))"
    "drop (nat (jp_next st)) tx = xs @ bs @ post"
    using assms(1) by (auto simp: remains_def)
  from drop_append_length [OF p(4)] have "drop (nat (jp_next st + n)) tx = bs @ post"
    using p(2) assms(2) by (simp add: nat_add_distrib)
  then show ?thesis using p(1-3) assms(2) by (simp add: remains_def advance_def)
qed

lemma remains_next [simp]: "remains tx E st (c # bs) \<Longrightarrow> remains tx E (advance 1 st) bs"
  using remains_advance [of tx E st "[c]" bs 1] by simp

lemma remains_rd:
  assumes "remains tx E st (xs @ c # bs)"
  shows "rd tx (jp_next st + int (length xs)) = Some c" "jp_next st + int (length xs) < jp_end st"
proof -
  obtain post where p: "0 \<le> jp_next st" "drop (nat (jp_next st)) tx = xs @ c # bs @ post"
    using assms by (auto simp: remains_def)
  have l: "length tx - nat (jp_next st) = length xs + Suc (length bs + length post)"
    using arg_cong [OF p(2), of length] by simp
  have "tx ! (nat (jp_next st) + length xs) = (drop (nat (jp_next st)) tx) ! length xs"
    using l by simp
  then show "rd tx (jp_next st + int (length xs)) = Some c"
    using p l by (simp add: rd_def nat_add_distrib)
  show "jp_next st + int (length xs) < jp_end st" using assms by (simp add: remains_def)
qed

lemma remains_hd [simp]:
  "remains tx E st (c # bs) \<Longrightarrow> rd tx (jp_next st) = Some c"
  "remains tx E st (c # bs) \<Longrightarrow> jp_next st < jp_end st"
  using remains_rd [of tx E st "[]" c bs] by simp_all

lemma remains_hd2: "remains tx E st (c # d # bs) \<Longrightarrow> rd tx (jp_next st + 1) = Some d"
  using remains_rd(1) [of tx E st "[c]" d bs] by simp

section \<open>White space\<close>

definition blank :: "byte list \<Rightarrow> bool" where
  "blank ws \<longleftrightarrow> (\<forall>c \<in> set ws. c = 9 \<or> c = 10 \<or> c = 32)"

lemma blank_simps [simp]:
  "blank []" "blank (c # ws) \<longleftrightarrow> (c = 9 \<or> c = 10 \<or> c = 32) \<and> blank ws"
  "blank (vs @ ws) \<longleftrightarrow> blank vs \<and> blank ws" "blank (indent m k)" "blank (line_break m)"
  by (auto simp: blank_def indent_def line_break_def)

lemma skipws_blank:
  "remains tx E st (ws @ c # bs) \<Longrightarrow> blank ws \<Longrightarrow> \<not> c_isspace c \<Longrightarrow>
   \<exists>st1. ipcl_json_skipws tx st w = Some (True, st1, w) \<and> remains tx E st1 (c # bs)"
proof (induction ws arbitrary: st)
  case Nil
  then show ?case
    by (simp add: ipcl_json_skipws_def skipws_loop.simps)
next
  case (Cons x ws)
  have sp: "c_isspace x" "x \<noteq> 13" using Cons.prems(2) by (auto simp: c_isspace_def)
  define st1 where "st1 = (if x = 10 then (advance 1 st)\<lparr>jp_line := jp_line st + 1\<rparr> else advance 1 st)"
  have "remains tx E st1 (ws @ c # bs)" using Cons.prems(1) by (simp add: st1_def)
  from Cons.IH [OF this] Cons.prems(2,3) obtain st2 where
    "ipcl_json_skipws tx st1 w = Some (True, st2, w)" "remains tx E st2 (c # bs)" by auto
  moreover have "skipws_loop tx st = skipws_loop tx st1"
    using Cons.prems(1) sp by (subst skipws_loop.simps) (simp add: st1_def)
  ultimately show ?case by (simp add: ipcl_json_skipws_def)
qed

section \<open>Literals\<close>

lemma strn_equal_self: "0 \<notin> set x \<Longrightarrow> strn_equal (\<lambda>c. c) (x @ r) (x @ [0]) (length x) = Some True"
  by (induction x) auto

lemma parse_literal_ok:
  assumes "remains tx E st (c # x @ bs)" "0 \<notin> set x"
  shows "parse_literal tx st x line val w = Some (Some val, advance (int (length x) + 1) st, w)"
    "remains tx E (advance (int (length x) + 1) st) bs"
proof -
  from assms(1) have "remains tx E (advance 1 st) (x @ bs)" by simp
  then obtain post where "drop (nat (jp_next st + 1)) tx = x @ bs @ post"
    by (auto simp: remains_def advance_def)
  moreover have "jp_end st - jp_next st = int (length x) + 1 + int (length bs)"
    using assms(1) by (simp add: remains_def)
  ultimately have "json_literal tx st x = Some True"
    using strn_equal_self [OF assms(2)] by (simp add: json_literal_def)
  then show "parse_literal tx st x line val w = Some (Some val, advance (int (length x) + 1) st, w)"
    by (simp add: parse_literal_def)
  show "remains tx E (advance (int (length x) + 1) st) bs"
    by (rule remains_advance [of _ _ _ "c # x"]) (use assms(1) in simp_all)
qed

section \<open>Numbers\<close>

lemma base10_digit: "base_digit 10 c \<noteq> None \<longleftrightarrow> \<not> (c < 48 \<or> c > 57)"
  unfolding base_digit_range by auto

lemma num_scan_digits:
  assumes "\<forall>c \<in> set ds. base_digit 10 c \<noteq> None" "base_digit 10 e = None" "e \<notin> {43, 45, 46, 69, 101}"
  shows "remains tx E st (xs @ ds @ e # bs) \<Longrightarrow>
    num_scan tx (jp_end st) (jp_next st + int (length xs)) False False False
      = Some (Inr (jp_next st + int (length xs) + int (length ds), False, False))"
  using assms(1)
proof (induction ds arbitrary: xs)
  case Nil
  then have "rd tx (jp_next st + int (length xs)) = Some e"
    "jp_next st + int (length xs) < jp_end st"
    using remains_rd [of tx E st xs e bs] by simp_all
  then show ?case using assms(2,3) base10_digit [of e] by (subst num_scan.simps) auto
next
  case (Cons d ds)
  then have rd: "rd tx (jp_next st + int (length xs)) = Some d"
    "jp_next st + int (length xs) < jp_end st"
    using remains_rd [of tx E st xs d "ds @ e # bs"] by simp_all
  have d: "\<not> (d < 48 \<or> d > 57)" "d \<notin> {43, 45, 46, 69, 101}"
    using Cons.prems(2) base10_digit [of d] by auto
  have "num_scan tx (jp_end st) (jp_next st + int (length (xs @ [d]))) False False False
      = Some (Inr (jp_next st + int (length (xs @ [d])) + int (length ds), False, False))"
    by (rule Cons.IH) (use Cons.prems in auto)
  then show ?case using rd d by (subst num_scan.simps) (simp add: ac_simps)
qed

lemma nat_dec_zero: "str_bytes (nat_dec n) = 48 # ds \<Longrightarrow> n = 0"
proof (induction n arbitrary: ds rule: nat_dec.induct)
  case (1 n)
  have d: "n mod 10 < 10" by simp
  have z: "base_digit 10 48 = Some 0" by (simp add: base_digit_def digit_val_def)
  show ?case
  proof (cases "n div 10 = 0")
    case True
    then have "of_nat (of_char (dec_digit (n mod 10))) = (48 :: byte)"
      using 1(2) by (subst (asm) nat_dec.simps) (simp add: Let_def)
    then have "n mod 10 = 0" using digit_byte [OF d] z by simp
    then show ?thesis using True by presburger
  next
    case False
    obtain c t where t: "str_bytes (nat_dec (n div 10)) = c # t"
      by (cases "nat_dec (n div 10)") (auto simp: str_bytes_def)
    moreover have "c = 48" using 1(2) False t by (subst (asm) nat_dec.simps) (simp add: Let_def)
    ultimately show ?thesis using 1(1) [OF refl refl False] False by auto
  qed
qed

lemma strtoll_in_range:
  assumes "base_digit 10 e = None" "LLONG_MIN \<le> i" "i \<le> LLONG_MAX"
  shows "pcl_strtoll (Some (str_bytes (int_dec i) @ e # r)) 10 w =
    Some (0, Some (Some (length (int_dec i))), Some i, w\<lparr>c_errno := 0\<rparr>)"
  using strtoll_int_dec [OF assms(1), of i r] strempty_int_dec [of i "e # r"] assms(2,3)
  by (simp add: pcl_strtoll_def stores_def)

text \<open>What the decoder made: new nodes that represent the tree, each with one reference, and the old
  nodes as they were.\<close>

definition built :: "'r jworld \<Rightarrow> 'r jworld \<Rightarrow> nat \<Rightarrow> 'r jtree \<Rightarrow> bool" where
  "built w w1 p t \<longleftrightarrow> same_from 0 w w1 \<and> rep (\<lambda>n. n = 1) w1 (jw_next w) p t"

definition same_store :: "'r jworld \<Rightarrow> 'r jworld \<Rightarrow> bool" where
  "same_store w w' \<longleftrightarrow> jw_mem w' = jw_mem w \<and> jw_next w' = jw_next w"

lemma same_store_simps [simp]: "same_store w w" "same_store w (w\<lparr>c_errno := n\<rparr>)"
  by (simp_all add: same_store_def)

lemma made_node:
  assumes "statics_ok w" "same_store w w1"
  obtains w2 where "made v w1 = Some (Some (jw_next w), w2)" "same_from 0 w w2"
    "node_at (\<lambda>n. n = 1) w2 (jw_next w) (jw_next w) v" "jw_next w2 = jw_next w + 1"
  using assms
  by (auto simp: made_def json_alloc_def same_from_def node_at_def statics_ok_def same_store_def)

lemma int_dec_zero:
  assumes "str_bytes (int_dec i) = 48 # ds" shows "ds = []"
proof (cases "i < 0")
  case False
  then have "str_bytes (nat_dec (nat i)) = 48 # ds" using assms by (simp add: int_dec_def)
  then have "nat i = 0" by (rule nat_dec_zero)
  then show ?thesis using assms False
    by (simp add: int_dec_def nat_dec.simps dec_digit_def str_bytes_def)
qed (use assms in \<open>simp add: int_dec_def\<close>)

lemma str_bytes_length [simp]: "length (str_bytes s) = length s"
  by (simp add: str_bytes_def)

lemma parse_number_ok:
  assumes r: "remains tx E st (str_bytes (int_dec i) @ e # bs)" and w: "statics_ok w"
    and i: "LLONG_MIN < i" "i \<le> LLONG_MAX" and e: "base_digit 10 e = None" "e \<notin> {43, 45, 46, 69, 101}"
  obtains st1 w1 p where "ipcl_json_parse_number L tx st w = Some (Some p, st1, w1)"
    "remains tx E st1 (e # bs)" "built w w1 p (TInt i)"
proof -
  define sg where "sg = (if i < 0 then [45 :: byte] else [])"
  define ds where "ds = str_bytes (nat_dec (nat \<bar>i\<bar>))"
  have sd: "str_bytes (int_dec i) = sg @ ds" by (simp add: sg_def ds_def int_dec_def)
  have dd: "\<forall>c \<in> set ds. base_digit 10 c \<noteq> None" unfolding ds_def using nat_dec_digits by blast
  have "ds \<noteq> []" using nat_dec_nonempty by (simp add: ds_def str_bytes_def)
  then obtain d ds' where ds: "ds = d # ds'" by (cases ds) auto
  have "d \<noteq> 45" using dd digit_not_special ds by auto
  define c where "c = (if i < 0 then 45 else d)"
  have "c = hd (sg @ ds)" by (simp add: c_def sg_def ds)
  then obtain t where t: "sg @ ds = c # t" by (cases "sg @ ds") (auto simp: ds)
  have c0: "rd tx (jp_next st) = Some c" using r unfolding sd t by simp
  have sg: "(if c = 45 then 1 else 0) = int (length sg)" using \<open>d \<noteq> 45\<close> by (simp add: c_def sg_def)
  have scan: "num_scan tx (jp_end st) (jp_next st + int (length sg)) False False False
      = Some (Inr (jp_next st + int (length sg) + int (length ds), False, False))"
    by (rule num_scan_digits [OF dd e]) (use r sd in simp)
  have len: "int (length sg) + int (length ds) = int (length (int_dec i))"
    using arg_cong [OF sd, of length] by simp
  have "jp_next st + int (length sg) + int (length ds) < jp_end st"
    using remains_rd(2) [OF r] len by simp
  moreover have "(if c = 48 then map_option c_isdigit (rd tx (jp_next st + 1)) else Some False) = Some False"
  proof (cases "c = 48")
    case True
    then have "sg @ ds = [48]" using t sd int_dec_zero [of i t] by simp
    then have "rd tx (jp_next st + 1) = Some e" using r sd by (simp add: remains_hd2)
    moreover have "\<not> c_isdigit e" using e(1) base10_digit [of e] by (auto simp: c_isdigit_def)
    ultimately show ?thesis by simp
  qed simp
  moreover obtain post where "drop (nat (jp_next st)) tx = str_bytes (int_dec i) @ e # bs @ post"
    using r by (auto simp: remains_def)
  moreover obtain w2 where w2: "made (JInt i) (w\<lparr>c_errno := 0\<rparr>) = Some (Some (jw_next w), w2)"
    "same_from 0 w w2" "node_at (\<lambda>n. n = 1) w2 (jw_next w) (jw_next w) (JInt i)"
    using made_node [OF w same_store_simps(2)] by blast
  ultimately have "ipcl_json_parse_number L tx st w
      = Some (Some (jw_next w), advance (int (length (int_dec i))) st, w2)"
    using c0 scan i strtoll_in_range [OF e(1), of i "bs @ post" w]
    by (simp add: ipcl_json_parse_number_def sg pcl_json_int_def PCL_JSON_INVINT_def)
  moreover have "remains tx E (advance (int (length (int_dec i))) st) (e # bs)"
    by (rule remains_advance [OF r]) simp
  moreover have "built w w2 (jw_next w) (TInt i)" using w2 by (simp add: built_def)
  ultimately show ?thesis by (rule that)
qed

end
