(* ===== verification/PclJsonStringOk.thy ===== *)
theory PclJsonStringOk imports PclJsonParseOk begin

text \<open>
  Parsing the text of a string. After a \<open>\u\<close> escape the buffer of the parser has no NUL behind its
  content, so it is described by its content alone, with the NUL as a property of its own.
\<close>

section \<open>The buffer of the parser\<close>

definition holds :: "pcl_buf \<Rightarrow> byte list \<Rightarrow> nat \<Rightarrow> bool" where
  "holds b cont k \<longleftrightarrow> bf_chrsize b = 1 \<and> bf_pos b = int (length cont) \<and> bf_len b = int (length cont)
     \<and> bf_size b \<le> 2 ^ 30 \<and> length cont + k \<le> 2 ^ 28
     \<and> (\<exists>bs. bf_data b = Blk bs \<and> length bs = bf_size b \<and> take (length cont) bs = cont
          \<and> length cont < bf_size b)"

definition closed :: "pcl_buf \<Rightarrow> bool" where
  "closed b \<longleftrightarrow> (\<exists>bs. bf_data b = Blk bs \<and> rd bs (bf_len b) = Some 0)"

lemma holds_grow:
  assumes "holds b cont k" "0 < n" "n \<le> 4"
  obtains s bs where
    "pcl_buf_grow junk (Some b) (int n) w = Some (Some (b\<lparr>bf_size := s, bf_data := Blk bs\<rparr>), w)"
    "length bs = s" "take (length cont) bs = cont" "length cont + n < s" "s \<le> 2 ^ 30"
proof -
  obtain bs where b: "bf_chrsize b = 1" "bf_pos b = int (length cont)" "bf_size b \<le> 2 ^ 30"
    "length cont \<le> 2 ^ 28" "bf_data b = Blk bs" "length bs = bf_size b" "take (length cont) bs = cont"
    "length cont < bf_size b"
    using assms(1) by (auto simp: holds_def)
  have av: "cint (to_int (bf_size b) - bf_pos b) = Some (int (bf_size b) - int (length cont))"
    using b(2-4) by (simp add: cint_def INT_MIN_def INT_MAX_def to_int_def)
  show ?thesis
  proof (cases "int n \<ge> int (bf_size b) - int (length cont)")
    case False
    then have "pcl_buf_grow junk (Some b) (int n) w
        = Some (Some (b\<lparr>bf_size := bf_size b, bf_data := Blk bs\<rparr>), w)"
      using av b(5) by (simp add: pcl_buf_grow_def)
    then show ?thesis by (rule that) (use False b in auto)
  next
    case True
    define s where "s = 2 * (length cont + n)"
    have s: "bf_size b \<le> s" "length cont + n < s" "s \<le> 2 ^ 30"
      using True assms(2,3) b(4) by (auto simp: s_def)
    have mo: "cint (int n - (int (bf_size b) - int (length cont)))
        = Some (int n - (int (bf_size b) - int (length cont)))"
      using assms(3) b(3,4) by (simp add: cint_def INT_MIN_def INT_MAX_def)
    have sz: "to_size ((int (bf_size b) + (int n - (int (bf_size b) - int (length cont)))) * 2) = s"
      using assms(3) b(4) by (simp add: s_def to_size_def nat_add_distrib)
    have sc: "to_size (int s * bf_chrsize b) = s"
      using s(3) b(1) by (simp add: to_size_def)
    obtain bs' where bs': "blk_realloc junk (bf_data b) s = Some (Blk bs')" "length bs' = s"
      "take (length cont) bs' = cont"
      using b s(1) by (auto simp: blk_realloc_def pcl_realloc_def mem_resize_def)
    have "pcl_buf_grow junk (Some b) (int n) w = Some (Some (b\<lparr>bf_size := s, bf_data := Blk bs'\<rparr>), w)"
      using True av mo sz sc bs'(1) by (simp add: pcl_buf_grow_def Let_def)
    then show ?thesis by (rule that) (use bs' s in auto)
  qed
qed

lemma word_bytes_scast: "\<exists>bs. word_bytes (scast c :: 32 word) = (c :: byte) # bs"
proof -
  have "(ucast (scast c :: 32 word) :: byte) = c" by transfer (simp add: take_bit_signed_take_bit)
  then have "(of_nat (unat (scast c :: 32 word)) :: byte) = c" by simp
  moreover have e: "LENGTH(32) div 8 = Suc 3" by simp
  ultimately show ?thesis unfolding word_bytes_def e le_bytes.simps(2) by simp
qed

lemma holds_putchar:
  assumes "holds b cont (Suc k)"
  obtains r b' where "pcl_buf_putchar junk (Some b) (scast c) w = Some (r, Some b', w)"
    "holds b' (cont @ [c]) k" "closed b'"
proof -
  obtain rest where wb: "word_bytes (scast c :: 32 word) = c # rest" using word_bytes_scast by blast
  obtain s bs where g:
    "pcl_buf_grow junk (Some b) (int 2) w = Some (Some (b\<lparr>bf_size := s, bf_data := Blk bs\<rparr>), w)"
    "length bs = s" "take (length cont) bs = cont" "length cont + 2 < s" "s \<le> 2 ^ 30"
    by (rule holds_grow [OF assms, of 2]) auto
  have b: "bf_chrsize b = 1" "bf_pos b = int (length cont)" "bf_len b = int (length cont)"
    "length cont + k < 2 ^ 28"
    using assms by (auto simp: holds_def)
  define n where "n = length cont"
  define b' where "b' = b\<lparr>bf_size := s, bf_pos := int (n + 1), bf_len := int (n + 1),
      bf_data := Blk (cont @ [c, 0] @ drop (n + 2) bs)\<rparr>"
  have ci: "cint (int n) = Some (int n)" "cint (int n + 1) = Some (int n + 1)"
    using b(4) by (simp_all add: n_def cint_def INT_MIN_def INT_MAX_def)
  have ln: "n + 2 \<le> length bs" using g(2,4) by (simp add: n_def)
  have wr: "blk_write (Blk bs) (int n) [c] = Some (Blk (cont @ [c] @ drop (n + 1) bs))"
    using blk_write_at [of n "[c]" bs] ln g(3) by (simp add: n_def)
  have "blk_set (Blk (cont @ [c] @ drop (n + 1) bs)) (int (n + 1)) 0 (int 1)
      = Some (Blk (cont @ [c, 0] @ drop (n + 2) bs))"
    using blk_set_at [of "n + 1" 1 "cont @ [c] @ drop (n + 1) bs" 0] ln by (simp add: n_def)
  then have "buf_store (b\<lparr>bf_size := s, bf_data := Blk bs\<rparr>) (Some (c # rest)) 1 = Some b'"
    using wr b(1-3) ci blk_read_prefix [of 1 "c # rest"]
    by (simp add: buf_store_def b'_def n_def [symmetric] cint_def INT_MIN_def INT_MAX_def add.commute)
  then have "pcl_buf_putchar junk (Some b) (scast c) w = Some (1, Some b', w)"
    using g(1) wb by (simp add: pcl_buf_putchar_def pcl_buf_put_def cint_def INT_MIN_def INT_MAX_def)
  moreover have "holds b' (cont @ [c]) k"
    using b g ln by (auto simp: holds_def b'_def n_def)
  moreover have "closed b'" by (simp add: closed_def b'_def rd_def n_def nth_append nat_add_distrib)
  ultimately show ?thesis by (rule that)
qed

section \<open>Escapes\<close>

text \<open>The characters that only \<open>\u\<close> can write.\<close>

definition needs_u :: "byte \<Rightarrow> bool" where
  "needs_u c \<longleftrightarrow> string_escape c = None \<and> c < 0x20"

definition u_digits :: "byte \<Rightarrow> byte list" where
  "u_digits c = str_bytes (''00'' @ hh c)"

definition u_digits_ok :: "nat \<Rightarrow> bool" where
  "u_digits_ok n \<longleftrightarrow>
     c_strtoll (u_digits (of_nat n) @ [0]) 16 = Some (int n, Some 4, 0)
     \<and> 0 \<notin> set (u_digits (of_nat n)) \<and> length (u_digits (of_nat n)) = 4"

lemma u_digits_ok_upt: "list_all u_digits_ok [0..<32]"
  by code_simp

lemma u_digits_small:
  assumes "c < 0x20"
  shows "c_strtoll (u_digits c @ [0]) 16 = Some (uint c, Some 4, 0)"
    "0 \<notin> set (u_digits c)" "length (u_digits c) = 4"
proof -
  have "unat c < 32" using assms by (simp add: word_less_nat_alt)
  then have "u_digits_ok (unat c)" using u_digits_ok_upt by (simp add: list_all_iff)
  then show "c_strtoll (u_digits c @ [0]) 16 = Some (uint c, Some 4, 0)"
    "0 \<notin> set (u_digits c)" "length (u_digits c) = 4"
    by (simp_all add: u_digits_ok_def)
qed

lemma hex2num_ok:
  assumes "remains tx E st (u_digits c @ bs)" "c < 0x20"
  shows "hex2num tx st w = Some (Some (ucast c), advance 4 st, w\<lparr>c_errno := 0\<rparr>)"
    "remains tx E (advance 4 st) bs"
proof -
  note u = u_digits_small [OF assms(2)]
  obtain post where p: "0 \<le> jp_next st" "drop (nat (jp_next st)) tx = u_digits c @ bs @ post"
    using assms(1) by (auto simp: remains_def)
  have l: "length tx - nat (jp_next st) = 4 + length bs + length post"
    using arg_cong [OF p(2), of length] u by simp
  then have rd: "mem_read tx (jp_next st) 4 = Some (u_digits c)"
    using p u by (auto simp: mem_read_def)
  obtain x xs where x: "u_digits c = x # xs" "x \<noteq> 0" using u by (cases "u_digits c") auto
  have "uint c \<le> INT_MAX" using assms(2) by (simp add: INT_MAX_def word_less_def)
  moreover have "INT_MIN \<le> uint c" by (rule order_trans [OF _ uint_ge_0]) (simp add: INT_MIN_def)
  ultimately have "pcl_strtoi (Some (u_digits c @ [0])) 16 w
      = Some (0, Some (Some 4), Some (uint c), w\<lparr>c_errno := 0\<rparr>)"
    using u x by (simp add: pcl_strtoi_def pcl_strtol_def strempty_def rd_def stores_def)
  then show "hex2num tx st w = Some (Some (ucast c), advance 4 st, w\<lparr>c_errno := 0\<rparr>)"
    using u rd by (simp add: hex2num_def rd_def nth_append)
  show "remains tx E (advance 4 st) bs" by (rule remains_advance [OF assms(1)]) (use u in simp)
qed

lemma small_code:
  assumes "c < 0x20"
  shows "\<not> (0xD800 \<le> (ucast c :: 32 word) \<and> (ucast c :: 32 word) \<le> 0xDBFF)"
    "(ucast c :: 32 word) \<le> 0x10FFFF" "utf8_bytes (unat (ucast c :: 32 word)) = [c]"
proof -
  have l: "unat c < 32" using assms by (simp add: word_less_nat_alt)
  then have "unat (ucast c :: 32 word) = unat c"
    by (simp add: unsigned_ucast_eq take_bit_nat_eq_self)
  with l show "\<not> (0xD800 \<le> (ucast c :: 32 word) \<and> (ucast c :: 32 word) \<le> 0xDBFF)"
    "(ucast c :: 32 word) \<le> 0x10FFFF" "utf8_bytes (unat (ucast c :: 32 word)) = [c]"
    by (simp_all add: word_le_nat_alt utf8_bytes_def)
qed

lemma holds_put_code:
  assumes "holds b cont (Suc k)" "c < 0x20"
  obtains b' where "buf_put_code L (ucast c) b w = Some (1, b', w)" "holds b' (cont @ [c]) k"
proof -
  obtain s bs where g:
    "pcl_buf_grow (jl_junk L) (Some b) (int 4) w = Some (Some (b\<lparr>bf_size := s, bf_data := Blk bs\<rparr>), w)"
    "length bs = s" "take (length cont) bs = cont" "length cont + 4 < s" "s \<le> 2 ^ 30"
    by (rule holds_grow [OF assms(1), of 4]) auto
  have b: "bf_chrsize b = 1" "bf_pos b = int (length cont)" "bf_len b = int (length cont)"
    "length cont + k < 2 ^ 28"
    using assms(1) by (auto simp: holds_def)
  define n where "n = length cont"
  define b' where "b' = b\<lparr>bf_size := s, bf_pos := int (n + 1), bf_len := int (n + 1),
      bf_data := Blk (cont @ [c] @ drop (n + 1) bs)\<rparr>"
  have ci: "cint (int n + 1) = Some (int n + 1)"
    using b(4) by (simp add: n_def cint_def INT_MIN_def INT_MAX_def)
  have "4 \<le> length (drop n bs)" using g(2,4) by (simp add: n_def)
  from encode_reference [OF small_code(2) [OF assms(2)] this, of w]
  have enc: "pcl_utf8_encode (ucast c) (Some (drop n bs)) w = Some (1, Some (c # drop (n + 1) bs), w)"
    using small_code(3) [OF assms(2)] by (simp add: add.commute)
  have "mem_read bs 0 n = Some cont" using g by (simp add: mem_read_def n_def)
  then have "buf_put_code L (ucast c) b w = Some (1, b', w)"
    using g(1) enc b(2,3) ci by (simp add: buf_put_code_def b'_def n_def [symmetric] add.commute)
  moreover have "holds b' (cont @ [c]) k" using b g by (auto simp: holds_def b'_def n_def)
  ultimately show ?thesis by (rule that)
qed

lemma utf16_put:
  assumes "remains tx E st (u_digits c @ bs)" "c < 0x20"
    "buf_put_code L (ucast c) b (w\<lparr>c_errno := 0\<rparr>) = Some (1, b', w\<lparr>c_errno := 0\<rparr>)"
  shows "utf16_to_utf8 L tx st b w = Some (True, advance 4 st, b', w\<lparr>c_errno := 0\<rparr>)"
proof -
  have "\<not> jp_end st - jp_next st < 4"
    using assms(1) u_digits_small [OF assms(2)] by (simp add: remains_def)
  then show ?thesis
    using hex2num_ok(1) [OF assms(1,2), of w] assms(3)
    by (simp add: utf16_to_utf8_def small_code(1) [OF assms(2)])
qed

lemma utf16_small:
  assumes "remains tx E st (u_digits c @ bs)" "c < 0x20" "holds b cont (Suc k)"
  obtains b' where "utf16_to_utf8 L tx st b w = Some (True, advance 4 st, b', w\<lparr>c_errno := 0\<rparr>)"
    "holds b' (cont @ [c]) k" "remains tx E (advance 4 st) bs"
proof -
  obtain b' where b': "buf_put_code L (ucast c) b (w\<lparr>c_errno := 0\<rparr>) = Some (1, b', w\<lparr>c_errno := 0\<rparr>)"
    "holds b' (cont @ [c]) k"
    by (rule holds_put_code [OF assms(3,2)])
  show ?thesis
    by (rule that [OF utf16_put [OF assms(1,2) b'(1)] b'(2) hex2num_ok(2) [OF assms(1,2)]])
qed

section \<open>The characters of a string\<close>

lemma simple_escape_of:
  assumes "string_escape c = Some e" shows "\<exists>x. e = [92, x] \<and> simple_escape x = Some c"
proof -
  have "c = 92 \<or> c = 47 \<or> c = 34 \<or> c = 8 \<or> c = 9 \<or> c = 10 \<or> c = 12 \<or> c = 13"
    by (rule ccontr) (use assms in \<open>simp add: string_escape_def\<close>)
  then have "e = [92, e ! 1] \<and> simple_escape (e ! 1) = Some c"
    using assms by (elim disjE) (auto simp: string_escape_def simple_escape_def)
  then show ?thesis by blast
qed

lemma char_text_plain:
  assumes "string_escape c = None" "\<not> c < 0x20"
  shows "char_text c = [c]" "c \<noteq> 0" "c \<noteq> 34" "c \<noteq> 92"
proof -
  show "char_text c = [c]" using assms by (simp add: char_text_def)
  show "c \<noteq> 0" using assms(2) by (rule contrapos_nn) simp
  show "c \<noteq> 34" "c \<noteq> 92" using assms(1) by (rule contrapos_pn, simp add: string_escape_def)+
qed

lemma char_text_u:
  assumes "needs_u c" shows "char_text c = 92 # 117 # u_digits c"
  using assms by (simp add: char_text_def needs_u_def u_escape_def u_digits_def str_bytes_def)

lemma remains_next2: "remains tx E st (c # d # bs) \<Longrightarrow> remains tx E (advance 2 st) bs"
  using remains_advance [of tx E st "[c, d]" bs 2] by simp

text \<open>One character: where the loop goes on.\<close>

lemma str_loop_char:
  assumes r: "remains tx E st (char_text c @ bs)" and c: "c \<noteq> 0" and h: "holds b cont (Suc k)"
  obtains st1 b1 w1 where "str_loop L tx st b w = str_loop L tx st1 b1 w1" "remains tx E st1 bs"
    "holds b1 (cont @ [c]) k" "needs_u c \<or> closed b1" "same_store w w1"
proof -
  consider (simple) x where "char_text c = [92, x]" "simple_escape x = Some c" "\<not> needs_u c"
    | (plain) "char_text c = [c]" "c \<noteq> 34" "c \<noteq> 92" "\<not> needs_u c" | (u) "needs_u c"
  proof (cases "string_escape c")
    case (Some e)
    then show ?thesis using simple_escape_of [OF Some] that(1) by (auto simp: char_text_def needs_u_def)
  next
    case None
    then show ?thesis using char_text_plain [OF None] that(2,3) by (auto simp: needs_u_def)
  qed
  then show ?thesis
  proof cases
    case simple
    then have "rd tx (jp_next st) = Some 92" "rd tx (jp_next st + 1) = Some x"
      "remains tx E (advance 2 st) bs"
      using r by (simp_all add: remains_hd2 remains_next2)
    moreover obtain q b1 where
      "pcl_buf_putchar (jl_junk L) (Some b) (scast c) w = Some (q, Some b1, w)"
      "holds b1 (cont @ [c]) k" "closed b1"
      by (rule holds_putchar [OF h])
    ultimately show ?thesis
      by (intro that [of "advance 2 st" b1 w]) (simp_all add: str_loop.simps [of L tx st] simple(2))
  next
    case plain
    then have "rd tx (jp_next st) = Some c" "remains tx E (advance 1 st) bs"
      using r by simp_all
    moreover obtain q b1 where
      "pcl_buf_putchar (jl_junk L) (Some b) (scast c) w = Some (q, Some b1, w)"
      "holds b1 (cont @ [c]) k" "closed b1"
      by (rule holds_putchar [OF h])
    ultimately show ?thesis
      using plain c by (intro that [of "advance 1 st" b1 w]) (simp_all add: str_loop.simps [of L tx st])
  next
    case u
    then have t: "rd tx (jp_next st) = Some 92" "rd tx (jp_next st + 1) = Some 117"
      "remains tx E (advance 2 st) (u_digits c @ bs)"
      using r by (simp_all add: char_text_u remains_hd2 remains_next2)
    have "c < 0x20" using u by (simp add: needs_u_def)
    from utf16_small [OF t(3) this h, of L w] obtain b1 where
      "utf16_to_utf8 L tx (advance 2 st) b w = Some (True, advance 4 (advance 2 st), b1, w\<lparr>c_errno := 0\<rparr>)"
      "holds b1 (cont @ [c]) k" "remains tx E (advance 4 (advance 2 st)) bs" by blast
    then show ?thesis
      using t(1,2) u by (intro that [of "advance 4 (advance 2 st)" b1 "w\<lparr>c_errno := 0\<rparr>"])
        (simp_all add: str_loop.simps [of L tx st] simple_escape_def)
  qed
qed

lemma same_store_trans: "same_store w w1 \<Longrightarrow> same_store w1 w2 \<Longrightarrow> same_store w w2"
  by (simp add: same_store_def)

lemma str_loop_ok:
  "remains tx E st (concat (map char_text s) @ 34 # bs) \<Longrightarrow> 0 \<notin> set s \<Longrightarrow>
   holds b cont (length s + k) \<Longrightarrow>
   \<exists>st1 b1 w1. str_loop L tx st b w = Some (True, st1, b1, w1) \<and> remains tx E st1 (34 # bs)
     \<and> holds b1 (cont @ s) k \<and> same_store w w1
     \<and> (if s = [] then closed b1 = closed b else \<not> needs_u (last s) \<longrightarrow> closed b1)"
proof (induction s arbitrary: st b cont w)
  case Nil
  then show ?case by (simp add: str_loop.simps [of L tx st])
next
  case (Cons c s)
  obtain st1 b1 w1 where c: "str_loop L tx st b w = str_loop L tx st1 b1 w1"
    "remains tx E st1 (concat (map char_text s) @ 34 # bs)" "holds b1 (cont @ [c]) (length s + k)"
    "needs_u c \<or> closed b1" "same_store w w1"
    by (rule str_loop_char [of tx E st c "concat (map char_text s) @ 34 # bs" b cont "length s + k" L w])
      (use Cons.prems in auto)
  from Cons.IH [OF c(2) _ c(3), of w1] Cons.prems(2) obtain st2 b2 w2 where
    "str_loop L tx st1 b1 w1 = Some (True, st2, b2, w2)" "remains tx E st2 (34 # bs)"
    "holds b2 (cont @ c # s) k" "same_store w1 w2"
    "if s = [] then closed b2 = closed b1 else \<not> needs_u (last s) \<longrightarrow> closed b2" by auto
  with c(1,4,5) show ?case by (auto intro: same_store_trans split: if_splits)
qed

section \<open>A string\<close>

text \<open>The strings that survive: no byte 0, valid UTF-8, and no \<open>\u\<close> escape at the end.\<close>

definition str_ok :: "byte list \<Rightarrow> bool" where
  "str_ok s \<longleftrightarrow> 0 \<notin> set s \<and> utf8_text s \<and> (s \<noteq> [] \<longrightarrow> \<not> needs_u (last s))"

lemma utf8_check_block:
  assumes "utf8_text s" "0 \<notin> set s"
  shows "pcl_utf8_check (s @ 0 # r) (length s) w = Some (0, w)"
  using assms check_iff [of s]
  by (auto simp: pcl_utf8_check_def mem_read_def strlen_nul [of "[]", simplified])

lemma holds_closed_block:
  assumes "holds b s k" "closed b" obtains r where "bf_data b = Blk (s @ 0 # r)"
proof -
  obtain bs where b: "bf_data b = Blk bs" "take (length s) bs = s" "length s < length bs"
    using assms(1) by (auto simp: holds_def)
  have "bs ! length s = 0"
    using assms b by (auto simp: holds_def closed_def rd_def)
  then have "bs = s @ 0 # drop (Suc (length s)) bs"
    using id_take_nth_drop [OF b(3)] b(2) by simp
  then show ?thesis using that b(1) by metis
qed

text \<open>The buffer that the parser starts with.\<close>

definition fresh_buf :: "byte \<Rightarrow> pcl_buf" where
  "fresh_buf junk = \<lparr>bf_mode = PclBufText, bf_chrsize = 1, bf_pos = 0, bf_len = 0, bf_size = 32,
     bf_data = Blk (0 # replicate 31 junk)\<rparr>"

lemma fresh_buf_init:
  "pcl_buf_init junk None 32 (buf_mode_code PclBufText) w = Some (Some (fresh_buf junk), w)"
  by (simp add: pcl_buf_init_def mode_chrsize_def buf_setup_def blk_set_def mem_set_def fresh_buf_def
      numeral_eq_Suc)

lemma parse_string_ok:
  assumes r: "remains tx E st (string_text s @ bs)" and s: "str_ok s" "length s \<le> 2 ^ 28"
  obtains st1 w1 q where "ipcl_json_parse_string L tx st w = Some (Some (s @ 0 # q), st1, w1)"
    "remains tx E st1 bs" "same_store w w1"
proof -
  define b where "b = fresh_buf (jl_junk L)"
  note bi = fresh_buf_init [of "jl_junk L" w, folded b_def]
  have h: "holds b [] (length s + 0)" using s(2) by (simp add: holds_def b_def fresh_buf_def)
  have cl: "closed b" by (simp add: closed_def b_def fresh_buf_def rd_def)
  have q: "rd tx (jp_next st) = Some 34"
    "remains tx E ((advance 1 st)\<lparr>jp_ctx := jp_next st\<rparr>) (concat (map char_text s) @ 34 # bs)"
    using r by (simp_all add: string_text_def)
  have nz: "0 \<notin> set s" using s(1) by (simp add: str_ok_def)
  from str_loop_ok [OF q(2) nz h, of L w] s(1) cl obtain st1 b1 w1 where l:
    "str_loop L tx ((advance 1 st)\<lparr>jp_ctx := jp_next st\<rparr>) b w = Some (True, st1, b1, w1)"
    "remains tx E st1 (34 # bs)" "holds b1 s 0" "same_store w w1" "closed b1"
    by (auto simp: str_ok_def split: if_splits)
  obtain rest where d: "bf_data b1 = Blk (s @ 0 # rest)" by (rule holds_closed_block [OF l(3,5)])
  have "nat (bf_len b1) = length s" using l(3) by (simp add: holds_def)
  then have "ipcl_json_parse_string L tx st w = Some (Some (s @ 0 # rest), advance 1 st1, w1)"
    using q(1) bi l(1,2) d utf8_check_block [of s rest w1] s(1)
    by (simp add: ipcl_json_parse_string_def str_ok_def)
  then show ?thesis by (rule that) (use l in simp_all)
qed

end
