(* ===== verification/PclJsonRoundtrip.thy ===== *)
theory PclJsonRoundtrip imports PclJsonStringOk begin

text \<open>
  Decoding the text of a tree builds the tree, and so decoding what was encoded: the parser's
  recursion, one lemma per constructor of a tree.
\<close>

section \<open>The trees that survive\<close>

text \<open>Integers that \<open>pcl_json_int\<close> accepts, strings that the parser terminates, objects with distinct
  keys, no reals (their text loses digits), and sizes for which no size of a buffer or table
  overflows.\<close>

fun fits :: "'r jtree \<Rightarrow> bool"
  and fits_list :: "'r jtree list \<Rightarrow> bool"
  and fits_pairs :: "(string \<times> 'r jtree) list \<Rightarrow> bool"
where
  "fits TNull \<longleftrightarrow> True"
| "fits (TBool b) \<longleftrightarrow> True"
| "fits (TInt i) \<longleftrightarrow> LLONG_MIN < i \<and> i \<le> LLONG_MAX"
| "fits (TReal r) \<longleftrightarrow> False"
| "fits (TStr s) \<longleftrightarrow> str_ok s \<and> length s \<le> 2 ^ 28"
| "fits (TArr ts) \<longleftrightarrow> length ts \<le> 2 ^ 28 \<and> fits_list ts"
| "fits (TObj kvs) \<longleftrightarrow> length kvs \<le> 2 ^ 28 \<and> distinct (map fst kvs) \<and> fits_pairs kvs"
| "fits_list [] \<longleftrightarrow> True"
| "fits_list (t # ts) \<longleftrightarrow> fits t \<and> fits_list ts"
| "fits_pairs [] \<longleftrightarrow> True"
| "fits_pairs (kv # kvs) \<longleftrightarrow>
     str_ok (str_bytes (fst kv)) \<and> length (fst kv) \<le> 2 ^ 28 \<and> fits (snd kv) \<and> fits_pairs kvs"

text \<open>The fuel that the recursion needs.\<close>

fun need :: "'r jtree \<Rightarrow> nat"
  and need_list :: "'r jtree list \<Rightarrow> nat"
  and need_pairs :: "(string \<times> 'r jtree) list \<Rightarrow> nat"
where
  "need (TArr ts) = 2 + need_list ts"
| "need (TObj kvs) = 2 + need_pairs kvs"
| "need TNull = 1"
| "need (TBool b) = 1"
| "need (TInt i) = 1"
| "need (TReal r) = 1"
| "need (TStr s) = 1"
| "need_list [] = 0"
| "need_list (t # ts) = Suc (max (need t) (need_list ts))"
| "need_pairs [] = 0"
| "need_pairs (kv # kvs) = Suc (max (need (snd kv)) (need_pairs kvs))"

text \<open>What may follow a number.\<close>

definition stop :: "byte list \<Rightarrow> bool" where
  "stop bs \<longleftrightarrow> (\<exists>e r. bs = e # r \<and> (e = 9 \<or> e = 10 \<or> e = 32 \<or> e = 44 \<or> e = 93 \<or> e = 125))"

lemma stop_simps [simp]:
  "stop (44 # r)" "stop (93 # r)" "stop (125 # r)"
  "blank ws \<Longrightarrow> stop bs \<Longrightarrow> stop (ws @ bs)"
  by (cases ws; auto simp: stop_def)+

text \<open>The parser builds \<open>t\<close> from its text, wherever the text is.\<close>

definition parses :: "'r json_lib \<Rightarrow> byte list \<Rightarrow> int \<Rightarrow> bool \<Rightarrow> 'r jtree \<Rightarrow> bool" where
  "parses L tx E m t \<longleftrightarrow> (\<forall>k n st w ws rest.
     statics_ok w \<and> need t \<le> n \<and> blank ws \<and> remains tx E st (ws @ json_text L m k t @ rest)
       \<and> ((\<exists>i. t = TInt i) \<longrightarrow> stop rest) \<longrightarrow>
     (\<exists>p st1 w1. json_parse n L tx JobValue st w = Some (Some p, st1, w1)
        \<and> remains tx E st1 rest \<and> built w w1 p t))"

definition dispatch ::
  "(json_state \<Rightarrow> 'r jworld \<Rightarrow> (nat option \<times> json_state \<times> 'r jworld) option) \<Rightarrow>
     (json_state \<Rightarrow> 'r jworld \<Rightarrow> (nat option \<times> json_state \<times> 'r jworld) option) \<Rightarrow> 'r json_lib \<Rightarrow> byte list \<Rightarrow> byte \<Rightarrow> json_state \<Rightarrow>
     'r jworld \<Rightarrow> (nat option \<times> json_state \<times> 'r jworld) option" where
  "dispatch object array L tx c st w =
     (if c = 123 then object st w
      else if c = 91 then array st w
      else if c = 34
      then do { (str, st3, w2) \<leftarrow> ipcl_json_parse_string L tx st w;
                if str = None then Some (None, st3, w2)
                else do { (val, w3) \<leftarrow> pcl_json_str str (PCL_JSON_SKIPUTF8CHK OR PCL_JSON_SHALLOW) w2;
                          Some (val, st3, w3) } }
      else if c = 116 then parse_literal tx st (str_bytes ''rue'') 79 pcl_json_true w
      else if c = 102 then parse_literal tx st (str_bytes ''alse'') 89 pcl_json_false w
      else if c = 110 then parse_literal tx st (str_bytes ''ull'') 99 pcl_json_null w
      else if c = 45 \<or> c_isdigit c then ipcl_json_parse_number L tx st w
      else json_throw (''json_parse_value.c'', ''ipcl_json_parse_value'', 124)
             ''expected json value'' st w)"

lemma value_dispatch:
  assumes "remains tx E st (ws @ c # bs)" "blank ws" "\<not> c_isspace c"
  obtains st1 where "remains tx E st1 (c # bs)"
    "parse_value_body object array L tx st w = dispatch object array L tx c st1 w"
proof -
  have "remains tx E (st\<lparr>jp_ctx := jp_next st\<rparr>) (ws @ c # bs)" using assms(1) by simp
  from skipws_blank [OF this assms(2,3), of w] obtain st1 where st1:
    "ipcl_json_skipws tx (st\<lparr>jp_ctx := jp_next st\<rparr>) w = Some (True, st1, w)"
    "remains tx E st1 (c # bs)" by blast
  define st2 where "st2 = st1\<lparr>jp_ctx := jp_next st1\<rparr>"
  have "remains tx E st2 (c # bs)" using st1(2) by (simp add: st2_def)
  moreover have "rd tx (jp_next st1) = Some c" using st1(2) by simp
  then have "parse_value_body object array L tx st w = dispatch object array L tx c st2 w"
    using st1(1) by (simp add: parse_value_body_def dispatch_def st2_def Let_def cong: if_cong)
  ultimately show ?thesis by (rule that)
qed

lemma parsesI:
  fixes L :: "'r json_lib"
  assumes "\<And>k n st w ws rest. statics_ok w \<Longrightarrow> need t \<le> Suc n \<Longrightarrow> blank ws \<Longrightarrow>
    remains tx E st (ws @ json_text L m k t @ rest) \<Longrightarrow> (\<exists>i. t = TInt i) \<longrightarrow> stop rest \<Longrightarrow>
    \<exists>p st1 w1. parse_value_body (json_parse n L tx JobObject) (json_parse n L tx JobArray) L tx st w
        = Some (Some p, st1, w1) \<and> remains tx E st1 rest \<and> built w w1 p t"
  shows "parses L tx E m t"
  unfolding parses_def
proof (intro allI impI, elim conjE)
  fix k n st ws rest and w :: "'r jworld"
  assume a: "statics_ok w" "need t \<le> n" "blank ws" "remains tx E st (ws @ json_text L m k t @ rest)"
    "(\<exists>i. t = TInt i) \<longrightarrow> stop rest"
  have "0 < need t" by (cases t) auto
  then obtain n' where n: "n = Suc n'" using a(2) by (cases n) auto
  show "\<exists>p st1 w1. json_parse n L tx JobValue st w = Some (Some p, st1, w1)
      \<and> remains tx E st1 rest \<and> built w w1 p t"
    using assms [OF a(1) _ a(3,4,5), of n'] a(2) n by simp
qed

section \<open>Scalars\<close>

lemma same_from_refl [simp]: "same_from lo w w" by (simp add: same_from_def)

lemma parses_literal:
  "parses L tx E m (TNull :: 'r jtree)" "parses L tx E m (TBool b :: 'r jtree)"
proof -
  have ns: "\<not> c_isspace 110" "\<not> c_isspace 116" "\<not> c_isspace 102" by (simp_all add: c_isspace_def)
  show "parses L tx E m (TNull :: 'r jtree)"
  proof (rule parsesI, goal_cases)
    case (1 k n st w ws rest)
    then have r: "remains tx E st (ws @ 110 # str_bytes ''ull'' @ rest)" by simp
    obtain st1 where st1: "remains tx E st1 (110 # str_bytes ''ull'' @ rest)"
      "parse_value_body (json_parse n L tx JobObject) (json_parse n L tx JobArray) L tx st w
        = dispatch (json_parse n L tx JobObject) (json_parse n L tx JobArray) L tx 110 st1 w"
      by (rule value_dispatch [OF r 1(3) ns(1)])
    show ?case
      using st1(2) parse_literal_ok(1) [OF st1(1), of 99 pcl_json_null w] parse_literal_ok(2) [OF st1(1)]
      by (simp add: dispatch_def built_def)
  qed
  show "parses L tx E m (TBool b :: 'r jtree)"
  proof (rule parsesI, goal_cases)
    case (1 k n st w ws rest)
    show ?case
    proof (cases b)
      case True
      then have r: "remains tx E st (ws @ 116 # str_bytes ''rue'' @ rest)" using 1(4) by simp
      obtain st1 where st1: "remains tx E st1 (116 # str_bytes ''rue'' @ rest)"
        "parse_value_body (json_parse n L tx JobObject) (json_parse n L tx JobArray) L tx st w
          = dispatch (json_parse n L tx JobObject) (json_parse n L tx JobArray) L tx 116 st1 w"
        by (rule value_dispatch [OF r 1(3) ns(2)])
      show ?thesis
        using st1(2) parse_literal_ok(1) [OF st1(1), of 79 pcl_json_true w] parse_literal_ok(2) [OF st1(1)] True
        by (simp add: dispatch_def built_def pcl_json_bool_def)
    next
      case False
      then have r: "remains tx E st (ws @ 102 # str_bytes ''alse'' @ rest)" using 1(4) by simp
      obtain st1 where st1: "remains tx E st1 (102 # str_bytes ''alse'' @ rest)"
        "parse_value_body (json_parse n L tx JobObject) (json_parse n L tx JobArray) L tx st w
          = dispatch (json_parse n L tx JobObject) (json_parse n L tx JobArray) L tx 102 st1 w"
        by (rule value_dispatch [OF r 1(3) ns(3)])
      show ?thesis
        using st1(2) parse_literal_ok(1) [OF st1(1), of 89 pcl_json_false w] parse_literal_ok(2) [OF st1(1)] False
        by (simp add: dispatch_def built_def pcl_json_bool_def)
    qed
  qed
qed

lemma parses_int:
  assumes "LLONG_MIN < i" "i \<le> LLONG_MAX" shows "parses L tx E m (TInt i)"
proof (rule parsesI, goal_cases)
  case (1 k n st w ws rest)
  obtain e r where e: "rest = e # r" "e = 9 \<or> e = 10 \<or> e = 32 \<or> e = 44 \<or> e = 93 \<or> e = 125"
    using 1(5) by (auto simp: stop_def)
  then have ne: "base_digit 10 e = None" "e \<notin> {43, 45, 46, 69, 101}"
    using base10_digit [of e] by (auto simp del: base_digit_def)
  obtain c cs where c: "str_bytes (int_dec i) = c # cs"
    by (cases "int_dec i") (auto simp: str_bytes_def)
  have cd: "c = 45 \<or> base_digit 10 c \<noteq> None"
    using c nat_dec_digits [of c "nat i"] by (auto simp: int_dec_def split: if_splits)
  then have "\<not> c_isspace c" using digit_not_special(1) by (auto simp: c_isspace_def)
  moreover from cd have "c \<noteq> 123" "c \<noteq> 91" "c \<noteq> 34" "c \<noteq> 116" "c \<noteq> 102" "c \<noteq> 110"
      "c = 45 \<or> c_isdigit c"
    unfolding base10_digit by (auto simp: c_isdigit_def)
  ultimately have nc: "\<not> c_isspace c" "c \<noteq> 123" "c \<noteq> 91" "c \<noteq> 34" "c \<noteq> 116" "c \<noteq> 102" "c \<noteq> 110"
      "c = 45 \<or> c_isdigit c" by simp_all
  have r: "remains tx E st (ws @ c # cs @ rest)" using 1(4) c by simp
  obtain st1 where st1: "remains tx E st1 (c # cs @ rest)"
    "parse_value_body (json_parse n L tx JobObject) (json_parse n L tx JobArray) L tx st w
        = dispatch (json_parse n L tx JobObject) (json_parse n L tx JobArray) L tx c st1 w"
    by (rule value_dispatch [OF r 1(3) nc(1)])
  have r1: "remains tx E st1 (str_bytes (int_dec i) @ e # r)" using st1(1) c e by simp
  obtain st2 w2 p where "ipcl_json_parse_number L tx st1 w = Some (Some p, st2, w2)"
    "remains tx E st2 (e # r)" "built w w2 p (TInt i)"
    by (rule parse_number_ok [OF r1 1(1) assms ne])
  then show ?case using st1(2) nc e by (simp add: dispatch_def)
qed

lemma parses_str:
  assumes "str_ok s" "length s \<le> 2 ^ 28" shows "parses L tx E m (TStr s)"
proof (rule parsesI, goal_cases)
  case (1 k n st w ws rest)
  define cs where "cs = concat (map char_text s) @ [34]"
  have c: "string_text s = 34 # cs" by (simp add: string_text_def cs_def)
  have r: "remains tx E st (ws @ 34 # cs @ rest)" using 1(4) c by simp
  have ns: "\<not> c_isspace 34" by (simp add: c_isspace_def)
  obtain st1 where st1: "remains tx E st1 (34 # cs @ rest)"
    "parse_value_body (json_parse n L tx JobObject) (json_parse n L tx JobArray) L tx st w
        = dispatch (json_parse n L tx JobObject) (json_parse n L tx JobArray) L tx 34 st1 w"
    by (rule value_dispatch [OF r 1(3) ns])
  have r1: "remains tx E st1 (string_text s @ rest)" using st1(1) c by simp
  obtain st2 w2 q where p: "ipcl_json_parse_string L tx st1 w = Some (Some (s @ 0 # q), st2, w2)"
    "remains tx E st2 rest" "same_store w w2"
    by (rule parse_string_ok [OF r1 assms])
  obtain w3 where w3: "made (JStr (s @ 0 # q)) w2 = Some (Some (jw_next w), w3)" "same_from 0 w w3"
    "node_at (\<lambda>n. n = 1) w3 (jw_next w) (jw_next w) (JStr (s @ 0 # q))"
    using made_node [OF 1(1) p(3)] by blast
  have "0 \<notin> set s" using assms(1) by (simp add: str_ok_def)
  then have "c_strlen (s @ 0 # q) = Some (length s)" by (rule strlen_nul)
  then have "pcl_json_str (Some (s @ 0 # q)) (PCL_JSON_SKIPUTF8CHK OR PCL_JSON_SHALLOW) w2
      = Some (Some (jw_next w), w3)"
    using w3(1) by (simp add: pcl_json_str_def has_flag_def PCL_JSON_SKIPUTF8CHK_def
        PCL_JSON_SHALLOW_def PCL_JSON_EMPTYASNULL_def)
  moreover have "built w w3 (jw_next w) (TStr s)" using w3(2,3) by (auto simp: built_def)
  ultimately show ?case using st1(2) p by (simp add: dispatch_def)
qed

section \<open>Arrays\<close>

text \<open>The node \<open>a\<close> of an array that holds the values so far, and a change of that node and of what is
  behind it only.\<close>

definition array_at :: "'r jworld \<Rightarrow> nat \<Rightarrow> 'r jtree list \<Rightarrow> bool" where
  "array_at w a us \<longleftrightarrow> (\<exists>arr. node_at (\<lambda>n. n = 1) w a a (JArr (Some arr)) \<and> arr_wf arr
     \<and> arr_cleanup arr = Some ArrayCleanup \<and> rep_list (\<lambda>n. n = 1) w (a + 1) (arr_seq arr) us)"

definition same_but :: "nat \<Rightarrow> 'r jworld \<Rightarrow> 'r jworld \<Rightarrow> bool" where
  "same_but a w w' \<longleftrightarrow> jw_next w \<le> jw_next w'
     \<and> (\<forall>q. q < jw_next w \<and> q \<noteq> a \<longrightarrow> jw_mem w' q = jw_mem w q)"

lemma same_but_trans: "same_but a w w1 \<Longrightarrow> same_but a w1 w2 \<Longrightarrow> same_but a w w2"
  by (auto simp: same_but_def)

lemma same_but_from: "same_but a w w' \<Longrightarrow> same_from (a + 1) w w'"
  by (auto simp: same_but_def same_from_def)

lemma same_from_but: "same_from 0 w w' \<Longrightarrow> same_but a w w'"
  by (auto simp: same_but_def same_from_def)

lemma statics_but: "statics_ok w \<Longrightarrow> same_but a w w' \<Longrightarrow> 3 \<le> a \<Longrightarrow> statics_ok w'"
  by (auto simp: statics_ok_def same_but_def pcl_json_null_def pcl_json_true_def pcl_json_false_def)

lemma same_from_less: "same_from lo w w' \<Longrightarrow> lo \<le> hi \<Longrightarrow> same_from hi w w'"
  by (auto simp: same_from_def)

lemma node_at_store:
  assumes "node_at R w p p v"
  shows "\<exists>w1. json_put_val p u w = Some w1 \<and> node_at R w1 p p u \<and> same_but p w w1 \<and> same_from (p + 1) w w1
    \<and> jw_next w1 = jw_next w"
  using assms
  by (auto simp: node_at_def json_put_val_def json_load_def json_store_def same_but_def same_from_def)

text \<open>The error is the same and not frozen.\<close>

definition same_error :: "'r jworld \<Rightarrow> 'r jworld \<Rightarrow> bool" where
  "same_error w w' \<longleftrightarrow> err w' = err w \<and> oserr w' = oserr w \<and> strace w' = strace w \<and> \<not> frozen w'"

lemma put_val_error: "json_put_val p v w = Some w' \<Longrightarrow> \<not> frozen w \<Longrightarrow> same_error w w'"
  by (auto simp: json_put_val_def json_store_def same_error_def bind_Some_iff split: if_splits)

lemma json_arradd_full:
  assumes "array_at w a us" "built w w1 p t" "length us < 2 ^ 28"
  obtains w2 where "pcl_json_arradd L (Some a) (Some p) flags w1 = Some (0, w2)"
    "array_at w2 a (us @ [t])" "same_but a w w2" "\<not> frozen w1 \<Longrightarrow> same_error w1 w2"
proof -
  obtain arr where arr: "node_at (\<lambda>n. n = 1) w a a (JArr (Some arr))" "arr_wf arr"
    "arr_cleanup arr = Some ArrayCleanup" "rep_list (\<lambda>n. n = 1) w (a + 1) (arr_seq arr) us"
    using assms(1) by (auto simp: array_at_def)
  have sf: "same_from 0 w w1" "rep (\<lambda>n. n = 1) w1 (jw_next w) p t" using assms(2) by (auto simp: built_def)
  have na: "node_at (\<lambda>n. n = 1) w1 a a (JArr (Some arr))"
    using node_at_frame [OF arr(1) same_from_less [OF sf(1)]] by simp
  obtain nd where nd: "json_load a w1 = Some nd" "js_val nd = JArr (Some arr)"
    using na by (auto simp: node_at_def json_load_def)
  have "int (length us) < 2 ^ 30" using assms(3) by simp
  then have "arr_count arr < 2 ^ 30"
    using arr_seq_length [OF arr(2)] rep_list_length [OF arr(4)] by simp
  from array_append_ok [OF arr(2) this, of "Some p" w1] obtain arr' where arr':
    "pcl_array_append (Some arr) (Some p) w1 = Some (arr_count arr + 1, Some arr', w1)"
    "arr_wf arr'" "arr_cleanup arr' = arr_cleanup arr" "arr_seq arr' = arr_seq arr @ [Some p]" by metis
  obtain w2 where w2: "json_put_val a (JArr (Some arr')) w1 = Some w2"
    "node_at (\<lambda>n. n = 1) w2 a a (JArr (Some arr'))" "same_but a w1 w2" "same_from (a + 1) w1 w2"
    using node_at_store [OF na] by blast
  have "0 \<le> arr_count arr" using arr(2) by (simp add: arr_wf_def)
  then have "pcl_json_arradd L (Some a) (Some p) flags w1 = Some (0, w2)"
    using nd arr'(1) w2(1) by (simp add: pcl_json_arradd_def)
  moreover have "same_but a w w2" by (rule same_but_trans [OF same_from_but [OF sf(1)] w2(3)])
  moreover have "array_at w2 a (us @ [t])"
  proof -
    have lt: "a + 1 \<le> jw_next w" using arr(1) by (simp add: node_at_def)
    have "rep_list (\<lambda>n. n = 1) w2 (a + 1) (arr_seq arr) us"
      by (rule rep_frame(2) [OF rep_frame(2) [OF arr(4) same_from_less [OF sf(1)]] w2(4)]) simp
    moreover have "rep (\<lambda>n. n = 1) w2 (jw_next w) p t"
      by (rule rep_frame(1) [OF sf(2) same_from_less [OF w2(4) lt]])
    then have "rep (\<lambda>n. n = 1) w2 (a + 1) p t" by (rule rep_weaken(1) [rotated]) (use lt in simp_all)
    ultimately show ?thesis
      unfolding array_at_def using w2(2) arr' arr(3) by (auto simp: rep_list_append)
  qed
  ultimately show ?thesis using that put_val_error [OF w2(1)] by blast
qed

lemma json_arradd_ok:
  assumes "array_at w a us" "built w w1 p t" "length us < 2 ^ 28"
  obtains w2 where "pcl_json_arradd L (Some a) (Some p) flags w1 = Some (0, w2)"
    "array_at w2 a (us @ [t])" "same_but a w w2"
  using json_arradd_full [OF assms, of L flags] by metis

text \<open>The text of a tree starts with a character that is neither white space nor a closing bracket.\<close>

lemma json_text_head:
  assumes "fits t" shows "\<exists>c cs. json_text L m k t = c # cs \<and> \<not> c_isspace c \<and> c \<noteq> 93"
proof (cases t)
  case (TInt i)
  obtain c cs where c: "str_bytes (int_dec i) = c # cs"
    by (cases "int_dec i") (auto simp: str_bytes_def)
  have "c = 45 \<or> base_digit 10 c \<noteq> None"
    using c nat_dec_digits [of c "nat i"] by (auto simp: int_dec_def split: if_splits)
  then have "\<not> c_isspace c" "c \<noteq> 93"
    using digit_not_special(1) base_digit_range [of c] by (auto simp: c_isspace_def)
  then show ?thesis using TInt c by simp
next
  case (TBool b)
  then show ?thesis by (cases b) (simp_all add: c_isspace_def)
qed (use assms in \<open>simp_all add: c_isspace_def string_text_def\<close>)

text \<open>The loop over the values: it is at the first of them, with what is left of the items' text.\<close>

definition fills :: "'r json_lib \<Rightarrow> byte list \<Rightarrow> int \<Rightarrow> bool \<Rightarrow> 'r jtree list \<Rightarrow> bool" where
  "fills L tx E m ts \<longleftrightarrow> (\<forall>k n st w a us bs ws rest.
     ts \<noteq> [] \<and> indent m k @ bs = items_text L m k ts @ ws @ 93 # rest \<and> blank ws \<and> remains tx E st bs
       \<and> statics_ok w \<and> array_at w a us \<and> length us + length ts \<le> 2 ^ 28 \<and> need_list ts \<le> n \<longrightarrow>
     (\<exists>st1 w1. json_parse n L tx (JobArrayLoop a) st w = Some (Some a, st1, w1)
        \<and> remains tx E st1 rest \<and> same_but a w w1 \<and> array_at w1 a (us @ ts)))"

lemma no_space [simp]: "\<not> c_isspace 44" "\<not> c_isspace 93" "\<not> c_isspace 91" "\<not> c_isspace 123"
    "\<not> c_isspace 125" "\<not> c_isspace 34" "\<not> c_isspace 58"
  by (simp_all add: c_isspace_def)

lemma fills_Cons:
  fixes L :: "'r json_lib"
  assumes t: "parses L tx E m t" and ts: "fits_list ts" "fills L tx E m ts"
  shows "fills L tx E m (t # ts)"
  unfolding fills_def
proof (intro allI impI, elim conjE)
  fix k n st a us bs ws rest and w :: "'r jworld"
  assume a: "indent m k @ bs = items_text L m k (t # ts) @ ws @ 93 # rest" "blank ws"
    "remains tx E st bs" "statics_ok w" "array_at w a us" "length us + length (t # ts) \<le> 2 ^ 28"
    "need_list (t # ts) \<le> n"
  obtain n' where n: "n = Suc n'" "need t \<le> n'" "need_list ts \<le> n'" using a(7) by (cases n) auto
  define r where "r = (if ts = [] then [] else [44]) @ line_break m @ items_text L m k ts @ ws @ 93 # rest"
  have "bs = json_text L m k t @ r" using a(1) by (simp add: r_def)
  then have r0: "remains tx E st ([] @ json_text L m k t @ r)" using a(3) by simp
  have "stop r" using a(2) by (auto simp: r_def)
  with t r0 n(2) a(4) obtain p st1 w1 where v:
    "json_parse n' L tx JobValue st w = Some (Some p, st1, w1)" "remains tx E st1 r" "built w w1 p t"
    unfolding parses_def by (metis blank_simps(1))
  obtain w2 where w2: "pcl_json_arradd L (Some a) (Some p) PCL_JSON_FREEVALONERR w1 = Some (0, w2)"
    "array_at w2 a (us @ [t])" "same_but a w w2"
    by (rule json_arradd_ok [OF a(5) v(3)]) (use a(6) in auto)
  have "3 \<le> a" using a(5) by (auto simp: array_at_def node_at_def)
  with a(4) w2(3) have st2: "statics_ok w2" by (rule statics_but)
  show "\<exists>st1 w1. json_parse n L tx (JobArrayLoop a) st w = Some (Some a, st1, w1)
        \<and> remains tx E st1 rest \<and> same_but a w w1 \<and> array_at w1 a (us @ t # ts)"
  proof (cases "ts = []")
    case True
    then have "remains tx E st1 ((line_break m @ ws) @ 93 # rest)" using v(2) by (simp add: r_def)
    from skipws_blank [OF this, of w2] a(2) obtain st2 where
      "ipcl_json_skipws tx st1 w2 = Some (True, st2, w2)" "remains tx E st2 (93 # rest)" by auto
    then have "json_parse n L tx (JobArrayLoop a) st w = Some (Some a, advance 1 st2, w2)"
      "remains tx E (advance 1 st2) rest"
      using n(1) v(1) w2(1) by (simp_all add: array_loop_body_def)
    then show ?thesis using w2(2,3) True by auto
  next
    case False
    then obtain u us' where u: "ts = u # us'" by (cases ts) auto
    define bs' where "bs' = json_text L m k u @ (if us' = [] then [] else [44]) @ line_break m
        @ items_text L m k us' @ ws @ 93 # rest"
    obtain c cs where c: "json_text L m k u = c # cs" "\<not> c_isspace c" "c \<noteq> 93"
      using json_text_head ts(1) u by (metis fits_list.simps(2))
    define cs' where "cs' = cs @ (if us' = [] then [] else [44]) @ line_break m
        @ items_text L m k us' @ ws @ 93 # rest"
    have bc: "bs' = c # cs'" by (simp add: bs'_def c cs'_def)
    have ib: "indent m k @ bs' = items_text L m k ts @ ws @ 93 # rest" by (simp add: bs'_def u)
    have "remains tx E st1 ([] @ 44 # line_break m @ indent m k @ bs')"
      using v(2) False unfolding r_def by (simp add: ib)
    from skipws_blank [OF this, of w2] obtain st2 where s2:
      "ipcl_json_skipws tx st1 w2 = Some (True, st2, w2)"
      "remains tx E st2 (44 # line_break m @ indent m k @ bs')" by auto
    then have "remains tx E (advance 1 st2) ((line_break m @ indent m k) @ c # cs')" by (simp add: bc)
    from skipws_blank [OF this, of w2] c(2) obtain st3 where s3:
      "ipcl_json_skipws tx (advance 1 st2) w2 = Some (True, st3, w2)" "remains tx E st3 bs'"
      by (auto simp: bc)
    have lt: "jp_next st3 < jp_end st3" using s3(2) bc by simp
    have "length (us @ [t]) + length ts \<le> 2 ^ 28" using a(6) by simp
    with ts(2) False ib a(2) s3(2) st2 w2(2) n(3) obtain st4 w3 where
      "json_parse n' L tx (JobArrayLoop a) st3 w2 = Some (Some a, st4, w3)" "remains tx E st4 rest"
      "same_but a w2 w3" "array_at w3 a ((us @ [t]) @ ts)"
      unfolding fills_def by blast
    then have "json_parse n L tx (JobArrayLoop a) st w = Some (Some a, st4, w3)"
      "remains tx E st4 rest" "same_but a w w3" "array_at w3 a (us @ t # ts)"
      using n(1) v(1) w2(1) s2 s3(1) lt same_but_trans [OF w2(3)] by (simp_all add: array_loop_body_def)
    then show ?thesis by blast
  qed
qed

lemma parses_arr:
  fixes L :: "'r json_lib"
  assumes ts: "fits_list ts" "fills L tx E m ts" "length ts \<le> 2 ^ 28"
  shows "parses L tx E m (TArr ts)"
proof (rule parsesI, goal_cases)
  case (1 k n st w ws rest)
  define r where "r = line_break (m \<and> ts \<noteq> []) @ items_text L m (k + 1) ts @ indent (m \<and> ts \<noteq> []) k @ 93 # rest"
  have r: "remains tx E st (ws @ 91 # r)" using 1(4) by (simp add: r_def)
  obtain st1 where st1: "remains tx E st1 (91 # r)"
    "parse_value_body (json_parse n L tx JobObject) (json_parse n L tx JobArray) L tx st w
        = dispatch (json_parse n L tx JobObject) (json_parse n L tx JobArray) L tx 91 st1 w"
    by (rule value_dispatch [OF r 1(3) no_space(3)])
  define a where "a = jw_next w"
  obtain w2 where w2: "pcl_json_arr w = Some (Some a, w2)" "same_from 0 w w2"
    "node_at (\<lambda>n. n = 1) w2 a a (JArr (Some (pcl_array_new 8 (Some ArrayCleanup))))"
    using made_node [OF 1(1) same_store_simps(1)] unfolding pcl_json_arr_def a_def by metis
  have at: "array_at w2 a []"
    using w2(3) by (auto simp: array_at_def pcl_array_new_def arr_seq_def arr_wf_def INT_MAX_def)
  have so: "statics_ok w2"
    by (rule statics_but [OF 1(1) same_from_but [OF w2(2), of "jw_next w"]])
      (use 1(1) in \<open>simp add: statics_ok_def\<close>)
  have c93: "json_parse n L tx JobArray st1 w = Some (Some a, advance 1 (st2\<lparr>jp_ctx := jp_next st2\<rparr>), w2)"
    if "ts = []" "n = Suc n'" "ipcl_json_skipws tx (advance 1 st1) w = Some (True, st2, w)"
      "remains tx E st2 (93 # rest)" for n' st2
    using that st1(1) w2(1) by (simp add: parse_array_body_def)
  have "2 \<le> Suc n" using 1(2) by simp
  then obtain n' where n: "n = Suc n'" by (cases n) auto
  have bu: "built w w3 a (TArr ts)" if b: "array_at w3 a ts" "same_but a w2 w3" for w3
  proof -
    have "same_from 0 w w3" using w2(2) b(2) by (auto simp: same_from_def same_but_def a_def)
    moreover obtain arr where "node_at (\<lambda>n. n = 1) w3 a a (JArr (Some arr))" "arr_wf arr"
      "arr_cleanup arr = Some ArrayCleanup" "rep_list (\<lambda>n. n = 1) w3 (a + 1) (arr_seq arr) ts"
      using b(1) by (auto simp: array_at_def)
    moreover from this(4) have "rep_list (\<lambda>n. n = 1) w3 a (arr_seq arr) ts"
      by (rule rep_weaken(2) [rotated]) auto
    ultimately show ?thesis by (auto simp: built_def a_def)
  qed
  show ?case
  proof (cases ts)
    case Nil
    then have "remains tx E (advance 1 st1) ([] @ 93 # rest)"
      using st1(1) by (simp add: r_def line_break_def indent_def)
    from skipws_blank [OF this, of w] obtain st2 where
      "ipcl_json_skipws tx (advance 1 st1) w = Some (True, st2, w)" "remains tx E st2 (93 # rest)" by auto
    with c93 [OF Nil n] have "json_parse n L tx JobArray st1 w
        = Some (Some a, advance 1 (st2\<lparr>jp_ctx := jp_next st2\<rparr>), w2)"
      "remains tx E (advance 1 (st2\<lparr>jp_ctx := jp_next st2\<rparr>)) rest" by simp_all
    moreover have "built w w2 a (TArr ts)" by (rule bu) (use at Nil in \<open>simp_all add: same_but_def\<close>)
    ultimately show ?thesis using st1(2) by (simp add: dispatch_def)
  next
    case (Cons u us')
    define bs' where "bs' = json_text L m (k + 1) u @ (if us' = [] then [] else [44]) @ line_break m
        @ items_text L m (k + 1) us' @ indent m k @ 93 # rest"
    have ib: "indent m (k + 1) @ bs' = items_text L m (k + 1) ts @ indent m k @ 93 # rest"
      by (simp add: bs'_def Cons)
    have "fits u" using ts(1) Cons by simp
    from json_text_head [OF this, of L m "k + 1"] obtain c cs where
      c: "json_text L m (k + 1) u = c # cs" "\<not> c_isspace c" "c \<noteq> 93" by blast
    define cs' where "cs' = cs @ (if us' = [] then [] else [44]) @ line_break m
        @ items_text L m (k + 1) us' @ indent m k @ 93 # rest"
    have bc: "bs' = c # cs'" unfolding bs'_def cs'_def c by simp
    have "r = line_break m @ indent m (k + 1) @ c # cs'"
      unfolding ib [unfolded bc] r_def using Cons by simp
    then have "remains tx E (advance 1 st1) ((line_break m @ indent m (k + 1)) @ c # cs')"
      using remains_next [OF st1(1)] by simp
    from skipws_blank [OF this, of w] c(2) obtain st2 where s2:
      "ipcl_json_skipws tx (advance 1 st1) w = Some (True, st2, w)" "remains tx E st2 (c # cs')" by auto
    define st3 where "st3 = st2\<lparr>jp_ctx := jp_next st2\<rparr>"
    have s3: "remains tx E st3 bs'" using s2(2) bc by (simp add: st3_def)
    have "length ([] :: 'r jtree list) + length ts \<le> 2 ^ 28" "need_list ts \<le> n'"
      using ts(3) 1(2) n by simp_all
    with ts(2) Cons ib s3 so at obtain st4 w3 where l:
      "json_parse n' L tx (JobArrayLoop a) st3 w2 = Some (Some a, st4, w3)" "remains tx E st4 rest"
      "same_but a w2 w3" "array_at w3 a ([] @ ts)"
      unfolding fills_def by (metis blank_simps(4) list.discI)
    have "json_parse n L tx JobArray st1 w = json_parse n' L tx (JobArrayLoop a) st3 w2"
      using n st1(1) s2 w2(1) c(3) by (simp add: parse_array_body_def st3_def)
    moreover have "built w w3 a (TArr ts)" using bu l(3,4) by simp
    ultimately show ?thesis using st1(2) l(1,2) by (simp add: dispatch_def)
  qed
qed

section \<open>Objects\<close>

definition table_at :: "'r jworld \<Rightarrow> nat \<Rightarrow> (string, nat, json_handler) pcl_htable \<Rightarrow> bool" where
  "table_at w a tb \<longleftrightarrow> node_at (\<lambda>n. n = 1) w a a (JObj tb) \<and> ht_wf tb \<and> ht_eq tb = (=)
     \<and> ht_remove_entry tb = Some RemoveEntry \<and> table_dense tb"

definition object_at :: "'r jworld \<Rightarrow> nat \<Rightarrow> (string \<times> 'r jtree) list \<Rightarrow> bool" where
  "object_at w a us \<longleftrightarrow>
     (\<exists>tb. table_at w a tb \<and> rep_pairs (\<lambda>n. n = 1) w (a + 1) (ht_alist tb) us)"

lemma ht_fun_handler [simp]:
  "ht_eq (t\<lparr>ht_remove_entry := f\<rparr>) = ht_eq t" "ht_hash (t\<lparr>ht_remove_entry := f\<rparr>) = ht_hash t"
  by (simp_all add: ht_eq_def ht_hash_def fun_eq_iff)

lemma ht_wf_handler [simp]: "ht_wf (t\<lparr>ht_remove_entry := f\<rparr>) = ht_wf t"
  by (simp add: ht_wf_def ht_alist_def callbacks_ok_def)

lemma ht_alist_handler [simp]: "ht_alist (t\<lparr>ht_remove_entry := f\<rparr>) = ht_alist t"
  by (simp add: ht_alist_def)

lemma dense_room:
  assumes "ht_wf t" "ht_eq t = (=)" "table_dense t" "length (ht_alist t) < 2 ^ 29"
  shows "ht_room t" "ht_growable t"
proof -
  have "table_room (t\<lparr>ht_remove_entry := None\<rparr>)"
    by (rule table_dense_room) (use assms in \<open>simp_all add: plain_table_def table_dense_def\<close>)
  then show "ht_room t" "ht_growable t" by (simp_all add: table_room_def ht_room_def ht_growable_def)
qed

lemma char_byte: "char_of (unat (of_nat (of_char c) :: byte)) = c"
proof -
  have "of_char c < (256 :: nat)" by simp
  then have "unat (of_nat (of_char c) :: byte) = of_char c" by (simp add: unat_byte)
  then show ?thesis by simp
qed

lemma c_string_bytes:
  assumes "0 \<notin> set (str_bytes k)" shows "c_string (str_bytes k @ 0 # q) = Some k"
proof -
  have "map (\<lambda>b. char_of (unat b)) (str_bytes k) = k"
    by (simp add: str_bytes_def o_def char_byte)
  then show ?thesis using strlen_nul [OF assms, of q] by (simp add: c_string_def)
qed

lemma json_objput_table:
  assumes "table_at w a tb" "length (ht_alist tb) < 2 ^ 29" "k \<notin> fst ` set (ht_alist tb)"
    "0 \<notin> set (str_bytes k)" "has_flag flags PCL_JSON_SKIPUTF8CHK"
  obtains w2 tb' where
    "pcl_json_objput L (Some a) (Some (str_bytes k @ 0 # q)) (Some p) flags w = Some (0, w2)"
    "table_at w2 a tb'" "ht_alist tb' = ht_alist tb @ [(k, Some p)]"
    "same_but a w w2" "same_from (a + 1) w w2" "jw_next w2 = jw_next w" "same_error w w2"
proof -
  have tb: "node_at (\<lambda>n. n = 1) w a a (JObj tb)" "ht_wf tb" "ht_eq tb = (=)"
    "ht_remove_entry tb = Some RemoveEntry" "table_dense tb"
    using assms(1) by (auto simp: table_at_def)
  obtain nd where nd: "json_load a w = Some nd" "js_val nd = JObj tb"
    using tb(1) by (auto simp: node_at_def json_load_def)
  note room = dense_room [OF tb(2,3,5) assms(2)]
  have new: "\<forall>q \<in> set (ht_alist tb). \<not> ht_eq tb (fst q) k" using assms(3) tb(3) by auto
  define wf where "wf = pcl_err_freeze False w"
  obtain tb' where tb': "pcl_htable_put (remove_entry L) (Some tb) (Some k) (Some p) True w
      = Some (0, Some tb', wf)" "ht_wf tb'" "ht_alist tb' = ht_alist tb @ [(k, Some p)]"
    "ht_eq tb' = ht_eq tb" "ht_remove_entry tb' = ht_remove_entry tb"
    "ht_count_used tb' = (if load_limit (ht_max_loadfac tb) (ht_capacity tb) \<le> ht_count tb
       then ht_count tb + 1 else ht_count_used tb + 1)"
    using htable_put_new [OF tb(2) room new, of "remove_entry L" "Some p" True w] unfolding wf_def by metis
  have fr: "jw_mem wf = jw_mem w" "jw_next wf = jw_next w" by (simp_all add: wf_def pcl_err_freeze_def)
  have "node_at (\<lambda>n. n = 1) wf a a (JObj tb)" using tb(1) by (simp add: node_at_def fr)
  from node_at_store [OF this] obtain w2 where w2: "json_put_val a (JObj tb') wf = Some w2"
    "node_at (\<lambda>n. n = 1) w2 a a (JObj tb')" "same_but a wf w2" "same_from (a + 1) wf w2" "jw_next w2 = jw_next wf"
    by blast
  have "pcl_json_objput L (Some a) (Some (str_bytes k @ 0 # q)) (Some p) flags w = Some (0, w2)"
    using nd tb'(1) w2(1) assms(5) c_string_bytes [OF assms(4), of q] by (simp add: pcl_json_objput_def)
  moreover have "table_dense tb'"
  proof -
    have "ht_count tb' = int (length (ht_alist tb'))" "ht_count tb = int (length (ht_alist tb))"
      using tb'(2) tb(2) by (simp_all add: ht_wf_def)
    then show ?thesis using tb(5) tb'(3,6) by (simp add: table_dense_def)
  qed
  then have "table_at w2 a tb'" using w2(2) tb' tb(3,4) by (simp add: table_at_def)
  moreover have "same_error w w2"
    using put_val_error [OF w2(1)] by (simp add: wf_def pcl_err_freeze_def same_error_def)
  ultimately show ?thesis
    using that [of w2 tb'] tb'(3) w2(3-5) by (simp add: same_but_def same_from_def fr)
qed

lemma json_objput_full:
  assumes "object_at w a us" "built w w1 p t" "length us < 2 ^ 28" "k \<notin> fst ` set us"
    "0 \<notin> set (str_bytes k)" "has_flag flags PCL_JSON_SKIPUTF8CHK"
  obtains w2 where
    "pcl_json_objput L (Some a) (Some (str_bytes k @ 0 # q)) (Some p) flags w1 = Some (0, w2)"
    "object_at w2 a (us @ [(k, t)])" "same_but a w w2" "same_error w1 w2"
proof -
  obtain tb where tb: "table_at w a tb" "rep_pairs (\<lambda>n. n = 1) w (a + 1) (ht_alist tb) us"
    using assms(1) by (auto simp: object_at_def)
  have sf: "same_from 0 w w1" "rep (\<lambda>n. n = 1) w1 (jw_next w) p t" using assms(2) by (auto simp: built_def)
  have t1: "table_at w1 a tb"
    using tb(1) node_at_frame [OF _ same_from_less [OF sf(1)]] by (auto simp: table_at_def)
  have "length (ht_alist tb) < 2 ^ 29" using rep_pairs_length [OF tb(2)] assms(3) by simp
  moreover have "k \<notin> fst ` set (ht_alist tb)"
    using rep_pairs_keys [OF tb(2)] assms(4) by (metis set_map)
  ultimately obtain w2 tb' where
    w2: "pcl_json_objput L (Some a) (Some (str_bytes k @ 0 # q)) (Some p) flags w1 = Some (0, w2)"
    "table_at w2 a tb'" "ht_alist tb' = ht_alist tb @ [(k, Some p)]"
    "same_but a w1 w2" "same_from (a + 1) w1 w2" "same_error w1 w2"
    using json_objput_table [OF t1 _ _ assms(5,6), of L q p] by metis
  have "same_but a w w2" by (rule same_but_trans [OF same_from_but [OF sf(1)] w2(4)])
  moreover have "object_at w2 a (us @ [(k, t)])"
  proof -
    have lt: "a + 1 \<le> jw_next w" using tb(1) by (simp add: table_at_def node_at_def)
    have "rep_pairs (\<lambda>n. n = 1) w2 (a + 1) (ht_alist tb) us"
      by (rule rep_frame(3) [OF rep_frame(3) [OF tb(2) same_from_less [OF sf(1)]] w2(5)]) simp
    moreover have "rep (\<lambda>n. n = 1) w2 (jw_next w) p t"
      by (rule rep_frame(1) [OF sf(2) same_from_less [OF w2(5) lt]])
    then have "rep (\<lambda>n. n = 1) w2 (a + 1) p t" by (rule rep_weaken(1) [rotated]) (use lt in simp_all)
    ultimately show ?thesis unfolding object_at_def using w2(2,3) by (auto simp: rep_pairs_append)
  qed
  ultimately show ?thesis using that w2(1,6) by blast
qed

lemma json_objput_ok:
  assumes "object_at w a us" "built w w1 p t" "length us < 2 ^ 28" "k \<notin> fst ` set us"
    "0 \<notin> set (str_bytes k)" "has_flag flags PCL_JSON_SKIPUTF8CHK"
  obtains w2 where
    "pcl_json_objput L (Some a) (Some (str_bytes k @ 0 # q)) (Some p) flags w1 = Some (0, w2)"
    "object_at w2 a (us @ [(k, t)])" "same_but a w w2"
  using json_objput_full [OF assms, of L q] by metis

lemma object_built:
  assumes "a = jw_next w" "same_from 0 w w2" "same_but a w2 w3" "object_at w3 a kvs"
  shows "built w w3 a (TObj kvs)"
proof -
  have "same_from 0 w w3" using assms(1-3) by (auto simp: same_from_def same_but_def)
  moreover obtain t where "node_at (\<lambda>n. n = 1) w3 a a (JObj t)" "ht_wf t" "ht_eq t = (=)"
    "ht_remove_entry t = Some RemoveEntry" "rep_pairs (\<lambda>n. n = 1) w3 (a + 1) (ht_alist t) kvs"
    using assms(4) by (auto simp: object_at_def table_at_def)
  moreover from this(5) have "rep_pairs (\<lambda>n. n = 1) w3 a (ht_alist t) kvs"
    by (rule rep_weaken(3) [rotated]) auto
  ultimately show ?thesis using assms(1) by (auto simp: built_def)
qed

text \<open>A new object and a new array.\<close>

lemma json_obj_new:
  assumes "statics_ok w"
  obtains w2 where "pcl_json_obj L w = Some (Some (jw_next w), w2)" "same_from 0 w w2"
    "object_at w2 (jw_next w) []" "statics_ok w2" "\<not> frozen w \<Longrightarrow> same_error w w2"
proof -
  obtain tb :: "(string, nat, json_handler) pcl_htable" where
    tb: "pcl_htable_new (jl_farmhash L) 0 w = (Some tb, w)" "plain_table tb" "ht_alist tb = []" "table_dense tb"
    by (rule htable_new_ok [of 0 "jl_farmhash L" w]) auto
  define tb1 where "tb1 = tb\<lparr>ht_remove_entry := Some RemoveEntry\<rparr>"
  obtain w2 where w2: "made (JObj tb1) w = Some (Some (jw_next w), w2)" "same_from 0 w w2"
    "node_at (\<lambda>n. n = 1) w2 (jw_next w) (jw_next w) (JObj tb1)"
    using made_node [OF assms same_store_simps(1)] by metis
  have "pcl_json_obj L w = Some (Some (jw_next w), w2)"
    using w2(1) tb(1) by (simp add: pcl_json_obj_def tb1_def)
  moreover have "object_at w2 (jw_next w) []"
    using w2(3) tb(2-4) by (auto simp: object_at_def table_at_def tb1_def plain_table_def table_dense_def)
  moreover have "statics_ok w2"
    by (rule statics_but [OF assms same_from_but [OF w2(2), of "jw_next w"]])
      (use assms in \<open>simp add: statics_ok_def\<close>)
  moreover have "\<not> frozen w \<Longrightarrow> same_error w w2"
    using w2(1) by (auto simp: made_def json_alloc_def same_error_def)
  ultimately show ?thesis using that w2(2) by blast
qed

definition fills_obj :: "'r json_lib \<Rightarrow> byte list \<Rightarrow> int \<Rightarrow> bool \<Rightarrow> (string \<times> 'r jtree) list \<Rightarrow> bool" where
  "fills_obj L tx E m kvs \<longleftrightarrow> (\<forall>k n st w a us bs ws rest.
     kvs \<noteq> [] \<and> indent m k @ bs = pairs_text L m k kvs @ ws @ 125 # rest \<and> blank ws \<and> remains tx E st bs
       \<and> statics_ok w \<and> object_at w a us \<and> length us + length kvs \<le> 2 ^ 28
       \<and> distinct (map fst (us @ kvs)) \<and> need_pairs kvs \<le> n \<longrightarrow>
     (\<exists>st1 w1. json_parse n L tx (JobObjectLoop a) st w = Some (Some a, st1, w1)
        \<and> remains tx E st1 rest \<and> same_but a w w1 \<and> object_at w1 a (us @ kvs)))"

lemma same_store_from: "same_store w w1 \<Longrightarrow> same_from lo w w1"
  by (simp add: same_store_def same_from_def)

lemma object_at_store: "same_store w w1 \<Longrightarrow> object_at w a us \<Longrightarrow> object_at w1 a us"
  unfolding object_at_def table_at_def by (meson node_at_frame rep_frame(3) same_store_from)

lemma statics_store: "same_store w w1 \<Longrightarrow> statics_ok w \<Longrightarrow> statics_ok w1"
  by (simp add: same_store_def statics_ok_def)

lemma same_but_store: "same_store w w1 \<Longrightarrow> same_but a w1 w2 \<Longrightarrow> same_but a w w2"
  by (simp add: same_store_def same_but_def)

lemma fills_obj_Cons:
  fixes L :: "'r json_lib"
  assumes t: "parses L tx E m t" and k: "str_ok (str_bytes key)" "length key \<le> 2 ^ 28"
    and ts: "fills_obj L tx E m kvs"
  shows "fills_obj L tx E m ((key, t) # kvs)"
  unfolding fills_obj_def
proof (intro allI impI, elim conjE)
  fix k n st a us bs ws rest and w :: "'r jworld"
  assume a: "indent m k @ bs = pairs_text L m k ((key, t) # kvs) @ ws @ 125 # rest" "blank ws"
    "remains tx E st bs" "statics_ok w" "object_at w a us" "length us + length ((key, t) # kvs) \<le> 2 ^ 28"
    "distinct (map fst (us @ (key, t) # kvs))" "need_pairs ((key, t) # kvs) \<le> n"
  obtain n' where n: "n = Suc n'" "need t \<le> n'" "need_pairs kvs \<le> n'" using a(8) by (cases n) auto
  define r where "r = (if kvs = [] then [] else [44]) @ line_break m @ pairs_text L m k kvs @ ws @ 125 # rest"
  have "bs = string_text (str_bytes key) @ 58 # (if m then [32] else []) @ json_text L m k t @ r"
    using a(1) by (simp add: r_def)
  then have r0: "remains tx E st (string_text (str_bytes key)
      @ 58 # (if m then [32] else []) @ json_text L m k t @ r)" using a(3) by simp
  have lk: "length (str_bytes key) \<le> 2 ^ 28" using k(2) by simp
  obtain st0 w0 q where s0: "ipcl_json_parse_string L tx st w = Some (Some (str_bytes key @ 0 # q), st0, w0)"
    "remains tx E st0 (58 # (if m then [32] else []) @ json_text L m k t @ r)" "same_store w w0"
    by (rule parse_string_ok [OF r0 k(1) lk])
  have "remains tx E st0 ([] @ 58 # (if m then [32] else []) @ json_text L m k t @ r)" using s0(2) by simp
  from skipws_blank [OF this, of w0] obtain stc where sc:
    "ipcl_json_skipws tx st0 w0 = Some (True, stc, w0)"
    "remains tx E stc (58 # (if m then [32] else []) @ json_text L m k t @ r)" by auto
  then have rv: "remains tx E (advance 1 stc) ((if m then [32] else []) @ json_text L m k t @ r)" by simp
  have "stop r" using a(2) by (auto simp: r_def)
  moreover have "blank (if m then [32] else [])" by simp
  ultimately obtain p st1 w1 where v:
    "json_parse n' L tx JobValue (advance 1 stc) w0 = Some (Some p, st1, w1)" "remains tx E st1 r"
    "built w0 w1 p t"
    using t rv n(2) statics_store [OF s0(3) a(4)] unfolding parses_def by blast
  have ob: "object_at w0 a us" by (rule object_at_store [OF s0(3) a(5)])
  have fl: "has_flag (PCL_JSON_SKIPUTF8CHK OR PCL_JSON_SHALLOW OR PCL_JSON_FREEVALONERR) PCL_JSON_SKIPUTF8CHK"
    by (simp add: has_flag_def PCL_JSON_SKIPUTF8CHK_def PCL_JSON_SHALLOW_def PCL_JSON_FREEVALONERR_def)
  have nz: "0 \<notin> set (str_bytes key)" using k(1) by (simp add: str_ok_def)
  obtain w2 where w2: "pcl_json_objput L (Some a) (Some (str_bytes key @ 0 # q)) (Some p)
      (PCL_JSON_SKIPUTF8CHK OR PCL_JSON_SHALLOW OR PCL_JSON_FREEVALONERR) w1 = Some (0, w2)"
    "object_at w2 a (us @ [(key, t)])" "same_but a w0 w2"
    by (rule json_objput_ok [OF ob v(3) _ _ nz fl]) (use a(6,7) in auto)
  have "3 \<le> a" using a(5) by (auto simp: object_at_def table_at_def node_at_def)
  with statics_store [OF s0(3) a(4)] w2(3) have so: "statics_ok w2" by (rule statics_but)
  have step: "json_parse n L tx (JobObjectLoop a) st w =
      Option.bind (ipcl_json_skipws tx st1 w2) (\<lambda>(found1, st4, w5).
        if \<not> found1 then drop_container L a (Some (None, st4, w5))
        else object_rest_body (\<lambda>ob. json_parse n' L tx (JobObjectLoop ob)) L tx a st4 w5)"
    using n(1) s0(1) sc v(1) w2(1) by (simp add: object_loop_body_def cong: if_cong)
  show "\<exists>st1 w1. json_parse n L tx (JobObjectLoop a) st w = Some (Some a, st1, w1)
        \<and> remains tx E st1 rest \<and> same_but a w w1 \<and> object_at w1 a (us @ (key, t) # kvs)"
  proof (cases "kvs = []")
    case True
    then have "remains tx E st1 ((line_break m @ ws) @ 125 # rest)" using v(2) by (simp add: r_def)
    from skipws_blank [OF this, of w2] a(2) obtain st2 where
      "ipcl_json_skipws tx st1 w2 = Some (True, st2, w2)" "remains tx E st2 (125 # rest)" by auto
    then have "json_parse n L tx (JobObjectLoop a) st w = Some (Some a, advance 1 st2, w2)"
      "remains tx E (advance 1 st2) rest"
      unfolding step by (simp_all add: object_rest_body_def)
    then show ?thesis using w2(2) same_but_store [OF s0(3) w2(3)] True by auto
  next
    case False
    then obtain kv us' where u: "kvs = kv # us'" by (cases kvs) auto
    define cs' where "cs' = concat (map char_text (str_bytes (fst kv))) @ 34 # 58 # (if m then [32] else [])
        @ json_text L m k (snd kv) @ (if us' = [] then [] else [44]) @ line_break m
        @ pairs_text L m k us' @ ws @ 125 # rest"
    have ib: "indent m k @ 34 # cs' = pairs_text L m k kvs @ ws @ 125 # rest"
      by (simp add: cs'_def u string_text_def)
    have "remains tx E st1 ([] @ 44 # line_break m @ indent m k @ 34 # cs')"
      using v(2) False unfolding r_def by (simp add: ib)
    from skipws_blank [OF this, of w2] obtain st2 where s2:
      "ipcl_json_skipws tx st1 w2 = Some (True, st2, w2)"
      "remains tx E st2 (44 # line_break m @ indent m k @ 34 # cs')" by auto
    then have "remains tx E (advance 1 st2) ((line_break m @ indent m k) @ 34 # cs')" by simp
    from skipws_blank [OF this, of w2] obtain st3 where s3:
      "ipcl_json_skipws tx (advance 1 st2) w2 = Some (True, st3, w2)" "remains tx E st3 (34 # cs')" by auto
    have lt: "jp_next st3 < jp_end st3" using s3(2) by simp
    have "length (us @ [(key, t)]) + length kvs \<le> 2 ^ 28" using a(6) by simp
    moreover have "distinct (map fst ((us @ [(key, t)]) @ kvs))" using a(7) by simp
    ultimately obtain st4 w3 where
      "json_parse n' L tx (JobObjectLoop a) st3 w2 = Some (Some a, st4, w3)" "remains tx E st4 rest"
      "same_but a w2 w3" "object_at w3 a ((us @ [(key, t)]) @ kvs)"
      using ts False ib a(2) s3(2) so w2(2) n(3) unfolding fills_obj_def by blast
    then have "json_parse n L tx (JobObjectLoop a) st w = Some (Some a, st4, w3)"
      "remains tx E st4 rest" "same_but a w w3" "object_at w3 a (us @ (key, t) # kvs)"
      unfolding step using s2 s3(1) lt same_but_trans [OF same_but_store [OF s0(3) w2(3)]]
      by (simp_all add: object_rest_body_def)
    then show ?thesis by blast
  qed
qed

lemma parses_obj:
  fixes L :: "'r json_lib"
  assumes kvs: "fills_obj L tx E m kvs" "length kvs \<le> 2 ^ 28" "distinct (map fst kvs)"
  shows "parses L tx E m (TObj kvs)"
proof (rule parsesI, goal_cases)
  case (1 k n st w ws rest)
  define r where "r = line_break (m \<and> kvs \<noteq> []) @ pairs_text L m (k + 1) kvs
      @ indent (m \<and> kvs \<noteq> []) k @ 125 # rest"
  have r: "remains tx E st (ws @ 123 # r)" using 1(4) by (simp add: r_def)
  obtain st1 where st1: "remains tx E st1 (123 # r)"
    "parse_value_body (json_parse n L tx JobObject) (json_parse n L tx JobArray) L tx st w
        = dispatch (json_parse n L tx JobObject) (json_parse n L tx JobArray) L tx 123 st1 w"
    by (rule value_dispatch [OF r 1(3) no_space(4)])
  define a where "a = jw_next w"
  obtain w2 where w2: "pcl_json_obj L w = Some (Some a, w2)" "same_from 0 w w2" "object_at w2 a []" "statics_ok w2"
    using json_obj_new [OF 1(1), of L] unfolding a_def by metis
  note at = w2(3) and so = w2(4)
  have "2 \<le> Suc n" using 1(2) by simp
  then obtain n' where n: "n = Suc n'" by (cases n) auto
  have bu: "built w w3 a (TObj kvs)" if b: "object_at w3 a kvs" "same_but a w2 w3" for w3
    by (rule object_built [OF a_def w2(2) b(2,1)])
  show ?case
  proof (cases kvs)
    case Nil
    then have "remains tx E (advance 1 st1) ([] @ 125 # rest)"
      using st1(1) by (simp add: r_def line_break_def indent_def)
    from skipws_blank [OF this, of w] obtain st2 where s2:
      "ipcl_json_skipws tx (advance 1 st1) w = Some (True, st2, w)" "remains tx E st2 (125 # rest)" by auto
    then have "json_parse n L tx JobObject st1 w
        = Some (Some a, advance 1 (st2\<lparr>jp_ctx := jp_next st2\<rparr>), w2)"
      "remains tx E (advance 1 (st2\<lparr>jp_ctx := jp_next st2\<rparr>)) rest"
      using st1(1) w2(1) n by (simp_all add: parse_object_body_def)
    moreover have "built w w2 a (TObj kvs)" by (rule bu) (use at Nil in \<open>simp_all add: same_but_def\<close>)
    ultimately show ?thesis using st1(2) by (simp add: dispatch_def)
  next
    case (Cons kv us')
    define cs' where "cs' = concat (map char_text (str_bytes (fst kv))) @ 34 # 58 # (if m then [32] else [])
        @ json_text L m (k + 1) (snd kv) @ (if us' = [] then [] else [44]) @ line_break m
        @ pairs_text L m (k + 1) us' @ indent m k @ 125 # rest"
    have ib: "indent m (k + 1) @ 34 # cs' = pairs_text L m (k + 1) kvs @ indent m k @ 125 # rest"
      by (simp add: cs'_def Cons string_text_def)
    have "r = line_break m @ indent m (k + 1) @ 34 # cs'"
      unfolding ib r_def using Cons by simp
    then have "remains tx E (advance 1 st1) ((line_break m @ indent m (k + 1)) @ 34 # cs')"
      using remains_next [OF st1(1)] by simp
    from skipws_blank [OF this, of w] obtain st2 where s2:
      "ipcl_json_skipws tx (advance 1 st1) w = Some (True, st2, w)" "remains tx E st2 (34 # cs')" by auto
    define st3 where "st3 = st2\<lparr>jp_ctx := jp_next st2\<rparr>"
    have s3: "remains tx E st3 (34 # cs')" using s2(2) by (simp add: st3_def)
    have "length ([] :: (string \<times> 'r jtree) list) + length kvs \<le> 2 ^ 28" "need_pairs kvs \<le> n'"
      "distinct (map fst ([] @ kvs))"
      using kvs(2,3) 1(2) n by simp_all
    with kvs(1) Cons ib s3 so at obtain st4 w3 where l:
      "json_parse n' L tx (JobObjectLoop a) st3 w2 = Some (Some a, st4, w3)" "remains tx E st4 rest"
      "same_but a w2 w3" "object_at w3 a ([] @ kvs)"
      unfolding fills_obj_def by (metis blank_simps(4) list.discI)
    have "json_parse n L tx JobObject st1 w = json_parse n' L tx (JobObjectLoop a) st3 w2"
      using n st1(1) s2 w2(1) by (simp add: parse_object_body_def st3_def)
    moreover have "built w w3 a (TObj kvs)" using bu l(3,4) by simp
    ultimately show ?thesis using st1(2) l(1,2) by (simp add: dispatch_def)
  qed
qed

section \<open>Every tree\<close>

lemma fills_Nil: "fills L tx E m []" "fills_obj L tx E m []"
  by (simp_all add: fills_def fills_obj_def)

lemma parses_tree:
  shows "fits t \<Longrightarrow> parses L tx E m t"
    and "fits_list ts \<Longrightarrow> fills L tx E m ts"
    and "fits_pairs kvs \<Longrightarrow> fills_obj L tx E m kvs"
proof (induction t and ts and kvs rule: fits_fits_list_fits_pairs.induct)
  case (11 kv kvs)
  then show ?case using fills_obj_Cons by (cases kv) auto
qed (simp_all add: parses_literal parses_int parses_str parses_arr parses_obj fills_Cons fills_Nil)

text \<open>The text has no byte 0, and does not start with a byte order mark.\<close>

lemma char_text_nz: "c \<noteq> 0 \<Longrightarrow> 0 \<notin> set (char_text c)"
proof (cases "string_escape c")
  case (Some e)
  then show ?thesis using simple_escape_of [OF Some]
    by (auto simp: char_text_def simple_escape_def)
next
  case None
  assume "c \<noteq> 0"
  with None show ?thesis
    using char_text_u [of c] u_digits_small(2) [of c] char_text_plain(1) [of c]
    by (cases "c < 0x20") (auto simp: needs_u_def)
qed

lemma string_text_nz:
  assumes "0 \<notin> set s" shows "0 \<notin> set (string_text s)"
proof -
  have "\<forall>x \<in> set s. 0 \<notin> set (char_text x)" using assms char_text_nz by metis
  then show ?thesis by (auto simp: string_text_def)
qed

lemma int_dec_nz: "0 \<notin> set (str_bytes (int_dec i))"
  using digit_not_special(4) [OF nat_dec_digits] by (auto simp: int_dec_def)

lemma layout_nz [simp]: "0 \<notin> set (indent m k)" "0 \<notin> set (line_break m)"
  by (auto simp: indent_def line_break_def)

lemma json_text_nz:
  shows "fits t \<Longrightarrow> 0 \<notin> set (json_text L m k t)"
    and "fits_list ts \<Longrightarrow> 0 \<notin> set (items_text L m k ts)"
    and "fits_pairs kvs \<Longrightarrow> 0 \<notin> set (pairs_text L m k kvs)"
proof (induction t and ts and kvs arbitrary: k and k and k rule: fits_fits_list_fits_pairs.induct)
qed (simp_all add: string_text_nz int_dec_nz str_ok_def)

lemma json_text_no_mark:
  assumes "fits t" shows "\<exists>c cs. json_text L m k t = c # cs \<and> c \<noteq> 0xEF"
proof (cases t)
  case (TInt i)
  obtain c cs where c: "str_bytes (int_dec i) = c # cs"
    by (cases "int_dec i") (auto simp: str_bytes_def)
  have "c = 45 \<or> base_digit 10 c \<noteq> None"
    using c nat_dec_digits [of c "nat i"] by (auto simp: int_dec_def split: if_splits)
  then have "c \<noteq> 0xEF" using base_digit_range [of c] by auto
  then show ?thesis using TInt c by simp
next
  case (TBool b)
  then show ?thesis by (cases b) simp_all
qed (use assms in \<open>simp_all add: string_text_def\<close>)

section \<open>Decoding\<close>

text \<open>Where the parser of \<open>pcl_json_decode\<close> starts, and what the function does around it.\<close>

definition start_state :: "byte list \<Rightarrow> json_state" where
  "start_state bs = \<lparr>jp_next = 0, jp_end = int (length bs), jp_ctx = 0, jp_line = 1\<rparr>"

lemma start_remains: "remains (bs @ 0 # r) (int (length bs)) (start_state bs) bs"
  by (simp add: remains_def start_state_def)

lemma decode_run:
  assumes "bs = c # cs" "c \<noteq> 0xEF" "0 \<notin> set bs" "len = 0 \<or> len = length bs"
  shows "pcl_json_decode fuel L (Some (bs @ 0 # r)) len w
    = Option.bind (ipcl_json_parse_value fuel L (bs @ 0 # r) (start_state bs) w) (\<lambda>(val, st, w1).
        if val \<noteq> None then Some (val, Some (jp_next st), w1)
        else Option.bind (mem_read (bs @ 0 # r) (jp_ctx st)
               (if jp_ctx st \<le> jp_end st then min (nat (jp_end st - jp_ctx st)) 20 else 20)) (\<lambda>ctx.
          Some (None, None, snd (R_TRCMSG () (''json_decode.c'', ''pcl_json_decode'', 119)
            (''line='' @ int_dec (jp_line st) @ '', context='' @ printed (concat (map ctx_escape ctx))) w1))))"
proof -
  have len: "(if len = 0 then c_strlen (bs @ 0 # r) else Some len) = Some (length bs)"
    using assms(4) strlen_nul [OF assms(3)] by auto
  have mark: "(if length bs \<ge> 3 then map_option (\<lambda>b. b = [0xEF, 0xBB, 0xBF]) (mem_read (bs @ 0 # r) 0 3)
      else Some False) = Some False"
    using assms(1,2) by (simp add: mem_read_def numeral_eq_Suc)
  have ne: "(length bs = 0) = False" "bs \<noteq> []" using assms(1) by simp_all
  show ?thesis
    by (simp only: pcl_json_decode_def Let_def option.case len bind.bind_lunit mark ne(1) if_False)
      (simp add: start_state_def ne cong: if_cong)
qed

lemma json_decode_ok:
  assumes "fits t" "\<And>i. t \<noteq> TInt i" "statics_ok w" "need t \<le> fuel"
    "len = 0 \<or> len = length (json_text L fmt 0 t)"
  shows "\<exists>p w1. pcl_json_decode fuel L (Some (json_text L fmt 0 t @ 0 # r)) len w
      = Some (Some p, Some (int (length (json_text L fmt 0 t))), w1) \<and> built w w1 p t"
proof -
  define bs where "bs = json_text L fmt 0 t"
  obtain c cs where c: "bs = c # cs" "c \<noteq> 0xEF" using json_text_no_mark [OF assms(1)] bs_def by metis
  have nz: "0 \<notin> set bs" using json_text_nz(1) [OF assms(1)] by (simp add: bs_def)
  have "remains (bs @ 0 # r) (int (length bs)) (start_state bs) ([] @ json_text L fmt 0 t @ [])"
    using start_remains by (simp add: bs_def)
  then obtain p st1 w1 where
    p: "json_parse fuel L (bs @ 0 # r) JobValue (start_state bs) w = Some (Some p, st1, w1)"
    "remains (bs @ 0 # r) (int (length bs)) st1 []" "built w w1 p t"
    using parses_tree(1) [OF assms(1), of L "bs @ 0 # r" "int (length bs)" fmt] assms(2-4)
    unfolding parses_def by (metis blank_simps(1))
  have "jp_next st1 = int (length bs)" using p(2) by (simp add: remains_def)
  then show ?thesis
    using decode_run [OF c nz assms(5) [folded bs_def], of fuel L r w] p(1,3)
    by (simp add: ipcl_json_parse_value_def bs_def)
qed

end
