(* ===== verification/PclJsonMatchOk.thy ===== *)
theory PclJsonMatchOk imports PclJsonQuery PclJsonRoundtrip begin

text \<open>
  What the matcher selects. The reference is a function on trees; the matcher, run on the nodes that
  represent a tree, appends the nodes of the selected subtrees in order and gives each of them one
  more reference for every time it was selected.
\<close>

section \<open>The subtrees a path selects\<close>

definition nth_tree :: "'r jtree list \<Rightarrow> int \<Rightarrow> 'r jtree list" where
  "nth_tree ts i = (if 0 \<le> i \<and> i < int (length ts) then [ts ! nat i] else [])"

text \<open>A slice counts from the end where it is negative; its end 0 is the length of the array.\<close>

definition slice_indices :: "int \<Rightarrow> int \<Rightarrow> int \<Rightarrow> int \<Rightarrow> int list" where
  "slice_indices len a b c =
     (let start = (if a < 0 then len + a else a);
          lim = (if b = 0 then len else if b < 0 then len + b else b)
      in filter (\<lambda>i. (i - start) mod c = 0) [start..lim - 1])"

text \<open>Recursive descent goes down from each member that is not the one looked for.\<close>

fun descend :: "(string \<Rightarrow> bool) \<Rightarrow> ('r jtree \<Rightarrow> 'r jtree list) \<Rightarrow> 'r jtree \<Rightarrow> 'r jtree list"
  and descend_list :: "(string \<Rightarrow> bool) \<Rightarrow> ('r jtree \<Rightarrow> 'r jtree list) \<Rightarrow> 'r jtree list \<Rightarrow> 'r jtree list"
  and descend_pairs :: "(string \<Rightarrow> bool) \<Rightarrow> ('r jtree \<Rightarrow> 'r jtree list) \<Rightarrow> 'r jtree list \<Rightarrow>
        (string \<times> 'r jtree) list \<Rightarrow> 'r jtree list"
where
  "descend hit sel (TObj kvs) = descend_pairs hit sel (sel (TObj kvs)) kvs"
| "descend hit sel (TArr ts) = descend_list hit sel ts"
| "descend hit sel TNull = []"
| "descend hit sel (TBool b) = []"
| "descend hit sel (TInt i) = []"
| "descend hit sel (TReal r) = []"
| "descend hit sel (TStr s) = []"
| "descend_list hit sel [] = []"
| "descend_list hit sel (t # ts) = descend hit sel t @ descend_list hit sel ts"
| "descend_pairs hit sel own [] = []"
| "descend_pairs hit sel own (kv # kvs) =
     (if hit (fst kv) then own else descend hit sel (snd kv)) @ descend_pairs hit sel own kvs"

lemma descend_list_concat: "descend_list hit sel ts = concat (map (descend hit sel) ts)"
  by (induction ts) auto

lemma descend_pairs_concat:
  "descend_pairs hit sel own kvs = concat (map (\<lambda>kv. if hit (fst kv) then own else descend hit sel (snd kv)) kvs)"
  by (induction kvs) auto

text \<open>One segment, given what the rest of the path selects. A wildcard takes a value that has no
  members or elements as it is.\<close>

fun pick :: "seg \<Rightarrow> (string \<Rightarrow> bool) \<Rightarrow> ('r jtree \<Rightarrow> 'r jtree list) \<Rightarrow> 'r jtree \<Rightarrow> 'r jtree list" where
  "pick (Name k) hit sel t =
     (case t of TObj kvs \<Rightarrow> (case map_of kvs k of Some u \<Rightarrow> sel u | None \<Rightarrow> []) | _ \<Rightarrow> [])"
| "pick (Quoted k) hit sel t =
     (case t of TObj kvs \<Rightarrow> (case map_of kvs k of Some u \<Rightarrow> sel u | None \<Rightarrow> []) | _ \<Rightarrow> [])"
| "pick AnyMember hit sel t = (case t of TObj kvs \<Rightarrow> concat (map (\<lambda>kv. sel (snd kv)) kvs) | _ \<Rightarrow> [t])"
| "pick Descend hit sel t = descend hit sel t"
| "pick (Elem i) hit sel t = (case t of TArr ts \<Rightarrow> concat (map sel (nth_tree ts i)) | _ \<Rightarrow> [])"
| "pick AnyElem hit sel t = (case t of TArr ts \<Rightarrow> concat (map sel ts) | _ \<Rightarrow> [t])"
| "pick (Elems js) hit sel t =
     (case t of TArr ts \<Rightarrow> concat (map (\<lambda>j. concat (map sel (nth_tree ts j))) js) | _ \<Rightarrow> [])"
| "pick (Slice a b c) hit sel t =
     (case t of
        TArr ts \<Rightarrow> concat (map (\<lambda>j. concat (map sel (nth_tree ts j))) (slice_indices (int (length ts)) a b c))
      | _ \<Rightarrow> [])"

definition next_name :: "seg list \<Rightarrow> string \<Rightarrow> bool" where
  "next_name ss k = (case ss of Name k' # _ \<Rightarrow> k' = k | _ \<Rightarrow> False)"

primrec select :: "seg list \<Rightarrow> 'r jtree \<Rightarrow> 'r jtree list" where
  "select [] = (\<lambda>t. [t])"
| "select (s # ss) = pick s (next_name ss) (select ss)"

text \<open>Bounds that keep the index of a slice an \<open>int\<close>: the step is positive.\<close>

fun stride_fits :: "seg \<Rightarrow> bool" where
  "stride_fits (Slice a b c) \<longleftrightarrow> 0 < c \<and> c \<le> 2 ^ 29 \<and> b \<le> 2 ^ 29"
| "stride_fits s \<longleftrightarrow> True"

fun narrow :: "'r jtree \<Rightarrow> bool"
  and narrow_list :: "'r jtree list \<Rightarrow> bool"
  and narrow_pairs :: "(string \<times> 'r jtree) list \<Rightarrow> bool"
where
  "narrow (TArr ts) \<longleftrightarrow> length ts \<le> 2 ^ 29 \<and> narrow_list ts"
| "narrow (TObj kvs) \<longleftrightarrow> narrow_pairs kvs"
| "narrow TNull \<longleftrightarrow> True"
| "narrow (TBool b) \<longleftrightarrow> True"
| "narrow (TInt i) \<longleftrightarrow> True"
| "narrow (TReal r) \<longleftrightarrow> True"
| "narrow (TStr s) \<longleftrightarrow> True"
| "narrow_list [] \<longleftrightarrow> True"
| "narrow_list (t # ts) \<longleftrightarrow> narrow t \<and> narrow_list ts"
| "narrow_pairs [] \<longleftrightarrow> True"
| "narrow_pairs (kv # kvs) \<longleftrightarrow> narrow (snd kv) \<and> narrow_pairs kvs"

lemma narrow_list_all: "narrow_list ts \<longleftrightarrow> (\<forall>t \<in> set ts. narrow t)"
  by (induction ts) auto

lemma narrow_pairs_all: "narrow_pairs kvs \<longleftrightarrow> (\<forall>kv \<in> set kvs. narrow (snd kv))"
  by (induction kvs) auto

lemma list_depth_elem: "t \<in> set ts \<Longrightarrow> tree_depth t < list_depth ts"
  by (induction ts) auto

lemma pairs_depth_elem: "kv \<in> set kvs \<Longrightarrow> tree_depth (snd kv) < pairs_depth kvs"
  by (induction kvs) auto

section \<open>References\<close>

text \<open>The store after the nodes of a list got one reference per occurrence.\<close>

definition refs_added :: "nat option list \<Rightarrow> 'r jworld \<Rightarrow> 'r jworld \<Rightarrow> bool" where
  "refs_added ps w w' \<longleftrightarrow> jw_next w' = jw_next w
     \<and> (\<forall>q. jw_mem w' q = map_option (\<lambda>nd. if json_static q then nd
          else nd\<lparr>js_nrefs := js_nrefs nd + int (count_list ps (Some q))\<rparr>) (jw_mem w q))"

lemma refs_none:
  assumes "same_store w w'" shows "refs_added [] w w'"
proof -
  have "jw_mem w' q = map_option (\<lambda>nd. if json_static q then nd
      else nd\<lparr>js_nrefs := js_nrefs nd + int (count_list [] (Some q))\<rparr>) (jw_mem w q)" for q
    using assms by (cases "jw_mem w q") (simp_all add: same_store_def)
  then show ?thesis using assms by (simp add: refs_added_def same_store_def)
qed

lemma refs_trans: "refs_added ps w w1 \<Longrightarrow> refs_added qs w1 w2 \<Longrightarrow> refs_added (ps @ qs) w w2"
  by (auto simp: refs_added_def option.map_comp o_def intro!: option.map_cong0)

lemma same_store_more: "pcl_err.more w' = pcl_err.more w \<Longrightarrow> same_store w (w' :: 'r jworld)"
  by (cases w; cases w') (simp add: same_store_def)

lemma refs_statics: "refs_added ps w w' \<Longrightarrow> statics_ok w \<Longrightarrow> statics_ok w'"
  by (simp add: refs_added_def statics_ok_def json_static_def)

lemma count_list_le: "count_list xs x \<le> length xs"
  by (induction xs) auto

lemma rep_nodes:
  assumes "\<And>p v. node_at R w lo p v \<Longrightarrow> node_at S w' lo p v"
  shows "rep R w lo p t \<Longrightarrow> rep S w' lo p t"
    and "rep_list R w lo qs ts \<Longrightarrow> rep_list S w' lo qs ts"
    and "rep_pairs R w lo al kvs \<Longrightarrow> rep_pairs S w' lo al kvs"
  using assms
proof (induction R w lo p t and R w lo qs ts and R w lo al kvs rule: rep_rep_list_rep_pairs.induct)
qed auto

lemma rep_counted:
  assumes "refs_added ps w w'" "\<And>n k. R n \<Longrightarrow> k \<le> length ps \<Longrightarrow> S (n + int k)"
  shows "rep R w lo p t \<Longrightarrow> rep S w' lo p t"
    and "rep_list R w lo qs ts \<Longrightarrow> rep_list S w' lo qs ts"
    and "rep_pairs R w lo al kvs \<Longrightarrow> rep_pairs S w' lo al kvs"
proof -
  have nd: "node_at R w lo p v \<Longrightarrow> node_at S w' lo p v" for p v
    using assms count_list_le [of ps "Some p"]
    by (auto simp: node_at_def refs_added_def json_static_def pcl_json_null_def pcl_json_true_def
        pcl_json_false_def)
  note rep_nodes [OF nd]
  then show "rep R w lo p t \<Longrightarrow> rep S w' lo p t" "rep_list R w lo qs ts \<Longrightarrow> rep_list S w' lo qs ts"
    "rep_pairs R w lo al kvs \<Longrightarrow> rep_pairs S w' lo al kvs" by blast+
qed

section \<open>Selecting runs\<close>

definition room :: "nat \<Rightarrow> int \<Rightarrow> bool" where "room m n \<longleftrightarrow> 0 \<le> n \<and> n + int m \<le> INT_MAX"

text \<open>A run appends the nodes of some trees and counts the references; \<open>P m w\<close> says that there is
  room for \<open>m\<close> more of them in every node the run may meet.\<close>

definition outcome ::
  "nat \<Rightarrow> 'r jtree list \<Rightarrow> results \<Rightarrow> 'r jworld \<Rightarrow> 'r walked \<Rightarrow> bool" where
  "outcome lo us res w r \<longleftrightarrow>
     (\<exists>ps res' w'. r = Some (res', w') \<and> arr_wf res' \<and> arr_seq res' = arr_seq res @ ps
        \<and> refs_added ps w w' \<and> \<not> frozen w' \<and> rep_list (\<lambda>_. True) w' lo ps us)"

definition runs ::
  "(nat \<Rightarrow> 'r jworld \<Rightarrow> bool) \<Rightarrow> nat \<Rightarrow> 'r jtree list \<Rightarrow> (results \<Rightarrow> 'r jworld \<Rightarrow> 'r walked) \<Rightarrow> bool" where
  "runs P lo us f \<longleftrightarrow>
     (\<forall>m w res. P m w \<and> statics_ok w \<and> \<not> frozen w \<and> length us \<le> m \<and> arr_wf res
        \<and> length (arr_seq res) + length us \<le> 2 ^ 30 \<longrightarrow> outcome lo us res w (f res w))"

definition stable :: "(nat \<Rightarrow> 'r jworld \<Rightarrow> bool) \<Rightarrow> bool" where
  "stable P \<longleftrightarrow> (\<forall>m w w' ps. P m w \<and> refs_added ps w w' \<and> length ps \<le> m \<longrightarrow> P (m - length ps) w')"

lemma stableD: "stable P \<Longrightarrow> P m w \<Longrightarrow> refs_added ps w w' \<Longrightarrow> length ps \<le> m \<Longrightarrow> P (m - length ps) w'"
  unfolding stable_def by blast

lemma runsI:
  assumes "\<And>m w res. P m w \<Longrightarrow> statics_ok w \<Longrightarrow> \<not> frozen w \<Longrightarrow> length us \<le> m \<Longrightarrow> arr_wf res \<Longrightarrow>
    length (arr_seq res) + length us \<le> 2 ^ 30 \<Longrightarrow> outcome lo us res w (f res w)"
  shows "runs P lo us f"
  using assms unfolding runs_def by blast

lemma runsD:
  "runs P lo us f \<Longrightarrow> P m w \<Longrightarrow> statics_ok w \<Longrightarrow> \<not> frozen w \<Longrightarrow> length us \<le> m \<Longrightarrow> arr_wf res \<Longrightarrow>
    length (arr_seq res) + length us \<le> 2 ^ 30 \<Longrightarrow> outcome lo us res w (f res w)"
  by (simp add: runs_def)

lemma runs_mono: "runs P lo us f \<Longrightarrow> (\<And>m w. Q m w \<Longrightarrow> P m w) \<Longrightarrow> runs Q lo us f"
  unfolding runs_def by blast

lemma runs_cong: "runs P lo us f \<Longrightarrow> (\<And>res w. \<not> frozen w \<Longrightarrow> g res w = f res w) \<Longrightarrow> runs P lo us g"
  by (simp add: runs_def)

lemma runs_ex: "(\<And>m w. P m w \<Longrightarrow> runs P lo us f) \<Longrightarrow> runs P lo us f"
  unfolding runs_def by blast

lemma room_less: "room m n \<Longrightarrow> k \<le> l \<Longrightarrow> l \<le> m \<Longrightarrow> room (m - l) (n + int k)"
  by (simp add: room_def)

lemma stable_rep: "stable (\<lambda>m w. rep (room m) w lo p t)"
  unfolding stable_def by (blast intro: rep_counted(1) room_less)

lemma stable_list: "stable (\<lambda>m w. rep_list (room m) w lo qs ts)"
  unfolding stable_def by (blast intro: rep_counted(2) room_less)

lemma stable_pairs: "stable (\<lambda>m w. rep_pairs (room m) w lo al kvs)"
  unfolding stable_def by (blast intro: rep_counted(3) room_less)

lemma runs_nil: "runs P lo [] (\<lambda>res w. Some (res, w))"
  by (rule runsI) (simp add: outcome_def refs_none)

lemma rep_list_kept:
  "rep_list (\<lambda>_. True) w lo ps us \<Longrightarrow> refs_added qs w w' \<Longrightarrow> rep_list (\<lambda>_. True) w' lo ps us"
  by (rule rep_counted(2))

lemma runs_seq:
  assumes "stable P" "runs P lo us f" "runs P lo vs g"
  shows "runs P lo (us @ vs) (\<lambda>res w. Option.bind (f res w) (\<lambda>(res1, w1). g res1 w1))"
proof (rule runsI)
  fix m w and res :: results
  assume a: "P m w" "statics_ok w" "\<not> frozen w" "length (us @ vs) \<le> m" "arr_wf res"
    "length (arr_seq res) + length (us @ vs) \<le> 2 ^ 30"
  then have "outcome lo us res w (f res w)" by (intro runsD [OF assms(2), of m]) simp_all
  then obtain ps res1 w1 where r1: "f res w = Some (res1, w1)" "arr_wf res1" "arr_seq res1 = arr_seq res @ ps"
    "refs_added ps w w1" "\<not> frozen w1" "rep_list (\<lambda>_. True) w1 lo ps us"
    by (auto simp: outcome_def)
  have len: "length ps = length us" using rep_list_length [OF r1(6)] .
  have "P (m - length ps) w1" using a(4) len by (intro stableD [OF assms(1) a(1) r1(4)]) simp
  then have "outcome lo vs res1 w1 (g res1 w1)"
    using a(4,6) r1 len refs_statics [OF r1(4) a(2)] by (intro runsD [OF assms(3), of "m - length ps"]) simp_all
  then obtain qs res2 w2 where r2: "g res1 w1 = Some (res2, w2)" "arr_wf res2" "arr_seq res2 = arr_seq res1 @ qs"
    "refs_added qs w1 w2" "\<not> frozen w2" "rep_list (\<lambda>_. True) w2 lo qs vs"
    by (auto simp: outcome_def)
  have "rep_list (\<lambda>_. True) w2 lo (ps @ qs) (us @ vs)"
    unfolding rep_list_append using rep_list_kept [OF r1(6) r2(4)] r2(6) by blast
  then show "outcome lo (us @ vs) res w (Option.bind (f res w) (\<lambda>(res1, w1). g res1 w1))"
    using r1 r2 refs_trans [OF r1(4) r2(4)] by (auto simp: outcome_def)
qed

text \<open>A step before a run that changes the error only.\<close>

lemma runs_quiet:
  assumes "stable P" "runs P lo us f" "\<And>w. \<not> frozen w \<Longrightarrow> same_store w (h w) \<and> \<not> frozen (h w)"
  shows "runs P lo us (\<lambda>res w. f res (h w))"
proof -
  have "runs P lo [] (\<lambda>res w. Some (res, h w))"
    by (rule runsI) (use assms(3) in \<open>auto simp: outcome_def refs_none\<close>)
  from runs_seq [OF assms(1) this assms(2)] show ?thesis by simp
qed

section \<open>One node\<close>

definition visits :: "nat \<Rightarrow> (nat option \<Rightarrow> results \<Rightarrow> 'r jworld \<Rightarrow> 'r walked) \<Rightarrow> 'r jtree \<Rightarrow> 'r jtree list \<Rightarrow> bool" where
  "visits lo f t us \<longleftrightarrow> (\<forall>p. runs (\<lambda>m w. rep (room m) w lo p t) lo us (f (Some p)))"

lemma visitsI: "(\<And>p. runs (\<lambda>m w. rep (room m) w lo p t) lo us (f (Some p))) \<Longrightarrow> visits lo f t us"
  by (simp add: visits_def)

lemma visitsD: "visits lo f t us \<Longrightarrow> runs (\<lambda>m w. rep (room m) w lo p t) lo us (f (Some p))"
  by (simp add: visits_def)

lemma rep_node:
  assumes "rep R w lo p t" "statics_ok w"
  shows "json_static p \<or> (\<exists>nd. jw_mem w p = Some nd \<and> R (js_nrefs nd))"
  using assms by (cases t) (auto simp: json_static_def pcl_json_bool_def node_at_def)

lemma ref_ok:
  assumes "rep (room m) w lo p t" "statics_ok w" "0 < m"
  obtains w1 where "pcl_json_ref (Some p) 1 w = Some w1" "refs_added [Some p] w w1"
    "frozen w1 = frozen w"
proof (cases "json_static p")
  case True
  have "refs_added [Some p] w w"
    unfolding refs_added_def
  proof (intro conjI allI)
    fix q
    show "jw_mem w q = map_option (\<lambda>nd. if json_static q then nd
        else nd\<lparr>js_nrefs := js_nrefs nd + int (count_list [Some p] (Some q))\<rparr>) (jw_mem w q)"
      using True by (cases "jw_mem w q") auto
  qed simp
  then show ?thesis using that [of w] True by (simp add: pcl_json_ref_def)
next
  case False
  then obtain nd where nd: "jw_mem w p = Some nd" "room m (js_nrefs nd)" using rep_node [OF assms(1,2)] by blast
  define w1 where "w1 = json_store p (nd\<lparr>js_nrefs := js_nrefs nd + 1\<rparr>) w"
  have "cint (js_nrefs nd + 1) = Some (js_nrefs nd + 1)"
    using nd(2) assms(3) by (intro cint_ok) (auto simp: room_def INT_MIN_def)
  then have "pcl_json_ref (Some p) 1 w = Some w1"
    using False nd(1) by (simp add: pcl_json_ref_def json_load_def w1_def)
  moreover have "refs_added [Some p] w w1"
    unfolding refs_added_def
  proof (intro conjI allI)
    fix q
    show "jw_mem w1 q = map_option (\<lambda>nd. if json_static q then nd
        else nd\<lparr>js_nrefs := js_nrefs nd + int (count_list [Some p] (Some q))\<rparr>) (jw_mem w q)"
      using False nd(1) by (cases "jw_mem w q") (auto simp: w1_def json_store_def)
  qed (simp add: w1_def json_store_def)
  ultimately show ?thesis by (rule that) (simp add: w1_def json_store_def)
qed

lemma add_match_visits: "visits lo add_match t [t]"
proof (intro visitsI runsI)
  fix p m w and res :: results
  assume a: "rep (room m) w lo p t" "statics_ok w" "\<not> frozen w" "length [t] \<le> m" "arr_wf res"
    "length (arr_seq res) + length [t] \<le> 2 ^ 30"
  then have "0 < m" by simp
  then obtain w1 where w1: "pcl_json_ref (Some p) 1 w = Some w1" "refs_added [Some p] w w1"
    "frozen w1 = frozen w"
    by (rule ref_ok [OF a(1,2)])
  have "arr_count res < 2 ^ 30" using a(6) arr_seq_length [OF a(5)] by simp
  then obtain res' where r: "pcl_array_append (Some res) (Some p) w1 = Some (arr_count res + 1, Some res', w1)"
    "arr_wf res'" "arr_seq res' = arr_seq res @ [Some p]"
    by (rule array_append_ok [OF a(5)])
  have "rep (\<lambda>_. True) w1 lo p t" using rep_counted(1) [OF w1(2) _ a(1), of "\<lambda>_. True"] by simp
  then show "outcome lo [t] res w (add_match (Some p) res w)"
    using w1 r a(3) by (auto simp: outcome_def add_match_def)
qed

lemma add_or_walk_visits:
  assumes "next \<noteq> [] \<Longrightarrow> visits lo (\<lambda>node. walk node next) t us" "next = [] \<Longrightarrow> us = [t]"
  shows "visits lo (\<lambda>node. add_or_walk walk node next) t us"
  using assms add_match_visits by (cases "next = []") (auto simp: add_or_walk_def [abs_def])

section \<open>Loops\<close>

text \<open>The pointers of an array that represents trees.\<close>

lemma rep_list_ptrs:
  "rep_list R w lo qs ts \<Longrightarrow> \<exists>ps. qs = map Some ps"
proof (induction ts arbitrary: qs)
  case (Cons t ts)
  then obtain p qs' where "qs = Some p # qs'" "rep_list R w lo qs' ts" by auto
  with Cons.IH show ?case by (metis list.simps(9))
qed simp

lemma rep_list_nth: "rep_list R w lo (map Some ps) ts \<Longrightarrow> i < length ts \<Longrightarrow> rep R w lo (ps ! i) (ts ! i)"
proof (induction ts arbitrary: ps i)
  case (Cons t ts)
  then obtain p ps' where "ps = p # ps'" "rep R w lo p t" "rep_list R w lo (map Some ps') ts" by auto
  with Cons show ?case by (cases i) auto
qed simp

lemma elem_runs:
  assumes "visits lo f (ts ! i) us" "i < length ts"
  shows "runs (\<lambda>m w. rep_list (room m) w lo (map Some ps) ts) lo us (f (Some (ps ! i)))"
  by (rule runs_mono [OF visitsD [OF assms(1)]]) (rule rep_list_nth [OF _ assms(2)])

lemma arr_rd:
  assumes "arr_wf a" "arr_seq a = map Some ps" "i < length ps"
  shows "rd (arr_elements a) (int i) = Some (Some (ps ! i))"
proof -
  have "i < length (arr_seq a)" using assms by simp
  moreover from this have "i < length (arr_elements a)" by (simp add: arr_seq_def)
  ultimately show ?thesis using arr_seq_nth [OF assms(1)] assms(2,3) by (simp add: rd_int)
qed

lemma elems_runs:
  assumes "arr_wf a" "arr_seq a = map Some ps" "length ps = length ts"
    "\<And>i. i < length ts \<Longrightarrow> visits lo (visit (int i)) (ts ! i) (g (ts ! i))"
  shows "n + i = length ts \<Longrightarrow>
    runs (\<lambda>m w. rep_list (room m) w lo (map Some ps) ts) lo (concat (map g (drop i ts))) (walk_elems visit a (int i) n)"
proof (induction n arbitrary: i)
  case 0
  then show ?case using runs_nil by (simp add: walk_elems.simps [abs_def])
next
  case (Suc n)
  then have i: "i < length ts" by simp
  have "walk_elems visit a (int i) (Suc n) = (\<lambda>res w. Option.bind (visit (int i) (Some (ps ! i)) res w)
      (\<lambda>(res1, w1). walk_elems visit a (int (Suc i)) n res1 w1))"
    using arr_rd [OF assms(1,2), of i] i assms(3) by (intro ext) (simp add: ac_simps)
  moreover have "concat (map g (drop i ts)) = g (ts ! i) @ concat (map g (drop (Suc i) ts))"
    using Cons_nth_drop_Suc [OF i] by (metis concat.simps(2) list.simps(9))
  ultimately show ?case
    using Suc.IH [of "Suc i"] Suc.prems elem_runs [OF assms(4) [OF i] i]
    by (auto intro: runs_seq [OF stable_list])
qed

definition owned :: "(string \<times> nat) list \<Rightarrow> (string \<times> nat option) list" where
  "owned al = map (\<lambda>kp. (fst kp, Some (snd kp))) al"

lemma rep_pairs_ptrs:
  "rep_pairs R w lo qs kvs \<Longrightarrow> \<exists>al. qs = owned al \<and> map fst al = map fst kvs"
proof (induction kvs arbitrary: qs)
  case (Cons kv kvs)
  then obtain p qs' where q: "qs = (fst kv, Some p) # qs'" "rep_pairs R w lo qs' kvs" by auto
  with Cons.IH obtain al where "qs' = owned al" "map fst al = map fst kvs" by blast
  then show ?case using q(1) by (intro exI [of _ "(fst kv, p) # al"]) (simp add: owned_def)
qed (simp add: owned_def)

lemma rep_pairs_nth:
  "rep_pairs R w lo (owned al) kvs \<Longrightarrow> i < length kvs \<Longrightarrow> rep R w lo (snd (al ! i)) (snd (kvs ! i))"
proof (induction kvs arbitrary: al i)
  case (Cons kv kvs)
  then obtain p al' where "al = (fst kv, p) # al'" "rep R w lo p (snd kv)" "rep_pairs R w lo (owned al') kvs"
    by (cases al) (auto simp: owned_def)
  with Cons show ?case by (cases i) auto
qed simp

lemma entries_runs:
  assumes "stable P"
  shows "iter_all fuel tb i = Some (owned al) \<Longrightarrow>
    list_all2 (\<lambda>kp kv. runs P lo (g kv) (visit (fst kp) (Some (snd kp)))) al kvs \<Longrightarrow>
    runs P lo (concat (map g kvs)) (walk_entries visit tb fuel (Some i))"
proof (induction fuel arbitrary: i al kvs)
  case (Suc fuel)
  obtain eo io where it: "pcl_htable_iter (Some tb) (Some i) = Some (eo, io)"
    using Suc.prems(1) by (auto simp: bind_simps)
  show ?case
  proof (cases eo)
    case None
    then have "al = []" using Suc.prems(1) it by (simp add: owned_def)
    then have "kvs = []" using Suc.prems(2) by simp
    moreover have "walk_entries visit tb (Suc fuel) (Some i) = (\<lambda>res w. Some (res, w))"
      using it None by (intro ext) simp
    ultimately show ?thesis using runs_nil by simp
  next
    case (Some e)
    then obtain k i1 rest where e: "he_key e = Some k" "io = Some i1" "iter_all fuel tb i1 = Some rest"
      "owned al = (k, he_value e) # rest"
      using Suc.prems(1) it by (auto simp: bind_simps)
    then obtain p al' where al: "al = (k, p) # al'" "he_value e = Some p" "rest = owned al'"
      by (cases al) (auto simp: owned_def)
    obtain kv kvs' where kvs: "kvs = kv # kvs'" "runs P lo (g kv) (visit k (Some p))"
      "list_all2 (\<lambda>kp kv. runs P lo (g kv) (visit (fst kp) (Some (snd kp)))) al' kvs'"
      using Suc.prems(2) al(1) by (auto simp: list_all2_Cons1)
    have step: "walk_entries visit tb (Suc fuel) (Some i) = (\<lambda>res w. Option.bind (visit k (Some p) res w)
        (\<lambda>(res1, w1). walk_entries visit tb fuel (Some i1) res1 w1))"
      using it Some e(1,2) al(2) by (intro ext) simp
    have "runs P lo (concat (map g kvs')) (walk_entries visit tb fuel (Some i1))"
      using Suc.IH e(3) al(3) kvs(3) by blast
    then show ?thesis
      unfolding step kvs(1) list.map concat.simps by (rule runs_seq [OF assms kvs(2)])
  qed
qed simp

text \<open>A lookup by index leaves the error as it was.\<close>

lemma get_frozen_ok:
  assumes "arr_wf a" "\<not> frozen w"
  shows "get_frozen (Some a) i w
    = Some (if 0 \<le> i \<and> i < int (length (arr_seq a)) then arr_seq a ! nat i else None, w)"
proof -
  have "pcl_err_freeze False (pcl_err_freeze True w) = w" using assms(2) by (simp add: pcl_err_freeze_def)
  moreover have "frozen (pcl_err_freeze True w)" by (simp add: pcl_err_freeze_def)
  ultimately show ?thesis
    using array_get_in [OF assms(1), of "nat i" "pcl_err_freeze True w"]
      array_get_out [OF assms(1), of i "pcl_err_freeze True w"]
    by (auto simp: get_frozen_def macros_frozen)
qed

lemma index_runs:
  assumes "arr_wf a" "arr_seq a = map Some ps" "length ps = length ts"
    "\<And>u. u \<in> set ts \<Longrightarrow> visits lo (\<lambda>node. add_or_walk walk node next) u (sel u)"
  shows "runs (\<lambda>m w. rep_list (room m) w lo (map Some ps) ts) lo (concat (map sel (nth_tree ts i)))
    (walk_index walk (Some a) i next)"
proof (cases "0 \<le> i \<and> i < int (length ts)")
  case True
  then have n: "nat i < length ts" by auto
  have "runs (\<lambda>m w. rep_list (room m) w lo (map Some ps) ts) lo (sel (ts ! nat i))
      (add_or_walk walk (Some (ps ! nat i)) next)"
    by (rule elem_runs [OF assms(4) n]) (use n in simp)
  then have "runs (\<lambda>m w. rep_list (room m) w lo (map Some ps) ts) lo (sel (ts ! nat i))
      (walk_index walk (Some a) i next)"
    by (rule runs_cong) (use assms(2,3) True n in \<open>simp add: walk_index_def get_frozen_ok [OF assms(1)]\<close>)
  then show ?thesis using True by (simp add: nth_tree_def)
next
  case False
  have "runs (\<lambda>m w. rep_list (room m) w lo (map Some ps) ts) lo [] (walk_index walk (Some a) i next)"
    by (rule runs_cong [OF runs_nil])
      (use assms(2,3) False in \<open>auto simp: walk_index_def get_frozen_ok [OF assms(1)]\<close>)
  then show ?thesis using False by (auto simp: nth_tree_def)
qed

lemma index_at_ok:
  assumes "index_vec v" "vec_seq v = map int_bytes js" "list_all int_ok js" "i < length js"
  shows "index_at v (int i) = Some (js ! i)"
proof -
  have w: "vec_wf v" "vec_size v = 4" using assms(1) by (simp_all add: index_vec_def)
  have j: "int_ok (js ! i)" using assms(3,4) by (simp add: list_all_length)
  have "Option.bind (vec_elems v) (\<lambda>els. mem_read els (pcl_vector_get v (int i)) 4) = Some (int_bytes (js ! i))"
    using vector_get_ok [OF w(1), of i] w(2) assms(2,4) by simp
  moreover have "bytes_word (int_bytes (js ! i)) = (word_of_int (js ! i) :: 32 word)"
    unfolding int_bytes_def by (rule bytes_word_bytes) simp
  moreover have "sint (word_of_int (js ! i) :: 32 word) = js ! i"
    using j by (intro signed_take_bit_int_eq_self [folded sint_sbintrunc'] | simp add: int_ok_def INT_MIN_def INT_MAX_def sint_sbintrunc' signed_take_bit_int_eq_self)+
  ultimately show ?thesis by (auto simp: index_at_def bind_simps)
qed

lemma list_runs:
  assumes "index_vec v" "vec_seq v = map int_bytes js" "list_all int_ok js" "stable P"
    "\<And>j. runs P lo (g j) (visit j)"
  shows "n + i = length js \<Longrightarrow> runs P lo (concat (map g (drop i js))) (walk_list visit v (int i) n)"
proof (induction n arbitrary: i)
  case 0
  then show ?case using runs_nil by (simp add: walk_list.simps [abs_def])
next
  case (Suc n)
  then have i: "i < length js" by simp
  have "walk_list visit v (int i) (Suc n) = (\<lambda>res w. Option.bind (visit (js ! i) res w)
      (\<lambda>(res1, w1). walk_list visit v (int (Suc i)) n res1 w1))"
    using index_at_ok [OF assms(1-3) i] by (intro ext) (simp add: ac_simps)
  moreover have "concat (map g (drop i js)) = g (js ! i) @ concat (map g (drop (Suc i) js))"
    using Cons_nth_drop_Suc [OF i] by (metis concat.simps(2) list.simps(9))
  ultimately show ?case
    using Suc.IH [of "Suc i"] Suc.prems assms(5) by (auto intro: runs_seq [OF assms(4)])
qed

text \<open>The indices from \<open>i\<close> on in steps of \<open>c\<close>.\<close>

lemma filter_stride:
  assumes "0 < c" "i < lim"
  shows "filter (\<lambda>j. (j - i) mod c = 0) [i..lim - 1]
    = i # filter (\<lambda>j. (j - (i + c)) mod c = 0) [i + c..lim - 1]"
proof -
  have 1: "[i..lim - 1] = i # [i + 1..lim - 1]" using assms(2) by (simp add: upto_rec1)
  have m: "(j - (i + c)) mod c = (j - i) mod c" for j
    by (metis diff_diff_eq minus_mod_self2)
  have no: "filter (\<lambda>j. (j - i) mod c = 0) [i + 1..k] = []" if "k < i + c" for k
    using that assms(1) by (auto simp: filter_empty_conv mod_pos_pos_trivial)
  show ?thesis
  proof (cases "i + c \<le> lim - 1")
    case True
    then have "[i + 1..lim - 1] = [i + 1..i + c - 1] @ [i + c..lim - 1]"
      using assms(1) by (intro upto_split1) simp_all
    then show ?thesis using no [of "i + c - 1"] by (simp add: 1 m)
  next
    case False
    then show ?thesis using no [of "lim - 1"] by (simp add: 1)
  qed
qed

lemma slice_runs:
  assumes "0 < c" "lim + c \<le> INT_MAX + 1" "stable P" "\<And>j. runs P lo (g j) (visit j)"
  shows "INT_MIN \<le> i \<Longrightarrow>
    runs P lo (concat (map g (filter (\<lambda>j. (j - i) mod c = 0) [i..lim - 1]))) (walk_slice visit c i lim)"
proof (induction "nat (lim - i)" arbitrary: i rule: less_induct)
  case less
  show ?case
  proof (cases "i < lim")
    case True
    have "cint (i + c) = Some (i + c)" using True less.prems assms(1,2) by (intro cint_ok) simp_all
    then have "walk_slice visit c i lim = (\<lambda>res w. Option.bind (visit i res w)
        (\<lambda>(res1, w1). walk_slice visit c (i + c) lim res1 w1))"
      using True by (intro ext, subst walk_slice.simps) (simp add: case_prod_unfold)
    moreover have "runs P lo (concat (map g (filter (\<lambda>j. (j - (i + c)) mod c = 0) [i + c..lim - 1])))
        (walk_slice visit c (i + c) lim)"
      using True assms(1) less.prems by (intro less.hyps) simp_all
    ultimately show ?thesis
      unfolding filter_stride [OF assms(1) True] list.map concat.simps
      by (auto intro: runs_seq [OF assms(3)] assms(4))
  next
    case False
    then have "walk_slice visit c i lim = (\<lambda>res w. Some (res, w))"
      by (intro ext, subst walk_slice.simps) simp
    then show ?thesis using False runs_nil by simp
  qed
qed

section \<open>The steps of the matcher\<close>

lemma runs_local:
  assumes "\<And>m w. P m w \<Longrightarrow> statics_ok w \<Longrightarrow> \<not> frozen w \<Longrightarrow>
    \<exists>Q g. Q m w \<and> runs Q lo us g \<and> (\<forall>res. f res w = g res w)"
  shows "runs P lo us f"
proof (rule runsI)
  fix m w and res :: results
  assume a: "P m w" "statics_ok w" "\<not> frozen w" "length us \<le> m" "arr_wf res"
    "length (arr_seq res) + length us \<le> 2 ^ 30"
  then obtain Q g where "Q m w" "runs Q lo us g" "f res w = g res w" using assms by blast
  then show "outcome lo us res w (f res w)" using runsD [of Q lo us g m w res] a(2-) by simp
qed

lemma runs_local_ex:
  "runs Q lo us g \<Longrightarrow> Q m w \<Longrightarrow> (\<And>res. f res w = g res w) \<Longrightarrow>
   \<exists>Q g. Q m w \<and> runs Q lo us g \<and> (\<forall>res. f res w = g res w)"
  by (rule exI [of _ Q], rule exI [of _ g]) simp

text \<open>The value of the node that represents a tree.\<close>

definition no_container :: "'r json_val \<Rightarrow> bool" where
  "no_container v \<longleftrightarrow> (\<forall>a. v \<noteq> JArr a) \<and> (\<forall>tb. v \<noteq> JObj tb)"

lemma rep_val:
  assumes "rep R w lo p t" "statics_ok w"
  obtains (obj) kvs tb where "t = TObj kvs" "node_val (Some p) w = Some (JObj tb)" "ht_wf tb" "ht_eq tb = (=)"
      "rep_pairs R w lo (ht_alist tb) kvs"
  | (arr) ts a where "t = TArr ts" "node_val (Some p) w = Some (JArr (Some a))" "arr_wf a"
      "rep_list R w lo (arr_seq a) ts"
  | (other) v where "\<And>kvs. t \<noteq> TObj kvs" "\<And>ts. t \<noteq> TArr ts" "node_val (Some p) w = Some v" "no_container v"
proof (cases t)
  case (TObj kvs)
  then show ?thesis using assms(1) obj by (auto simp: node_at_def node_val_def json_load_def)
next
  case (TArr ts)
  then show ?thesis using assms(1) arr by (auto simp: node_at_def node_val_def json_load_def)
qed (use assms other in \<open>auto simp: node_at_def node_val_def json_load_def statics_ok_def no_container_def
      pcl_json_bool_def split: if_splits\<close>)

lemma no_container_case:
  "no_container v \<Longrightarrow> (case v of JObj tb \<Rightarrow> f tb | JArr a \<Rightarrow> g a | _ \<Rightarrow> d) = d"
  "no_container v \<Longrightarrow> (case v of JObj tb \<Rightarrow> f tb | _ \<Rightarrow> d) = d"
  "no_container v \<Longrightarrow> (case v of JArr a \<Rightarrow> g a | _ \<Rightarrow> d) = d"
  by (cases v; simp add: no_container_def)+

text \<open>What a walk does at an array, at an object and elsewhere.\<close>

lemma visits_array:
  assumes "\<And>p res w a. node_val (Some p) w = Some (JArr (Some a)) \<Longrightarrow> f (Some p) res w = g a res w"
    "\<And>a ps. arr_wf a \<Longrightarrow> arr_seq a = map Some ps \<Longrightarrow> length ps = length ts \<Longrightarrow>
       runs (\<lambda>m w. rep_list (room m) w lo (map Some ps) ts) lo us (g a)"
  shows "visits lo f (TArr ts) us"
proof (intro visitsI runs_local)
  fix p m w
  assume a: "rep (room m) w lo p (TArr ts)" "statics_ok (w :: 'a jworld)"
  then show "\<exists>Q g'. Q m w \<and> runs Q lo us g' \<and> (\<forall>res. f (Some p) res w = g' res w)"
  proof (cases rule: rep_val)
    case (arr ts' a)
    obtain ps where ps: "arr_seq a = map Some ps" using rep_list_ptrs [OF arr(4)] by blast
    then have "length ps = length ts" using rep_list_length [OF arr(4)] arr(1) by simp
    note r = assms(2) [OF arr(3) ps this]
    have "rep_list (room m) w lo (map Some ps) ts" using arr(1,4) ps by simp
    with r show ?thesis by (rule runs_local_ex) (rule assms(1) [OF arr(2)])
  next
    case (obj kvs tb)
    then show ?thesis by simp
  next
    case (other v)
    then show ?thesis using other(2) [of ts] by simp
  qed
qed

lemma stable_conj: "stable P \<Longrightarrow> stable Q \<Longrightarrow> stable (\<lambda>m w. P m w \<and> Q m w)"
  unfolding stable_def by blast

lemma table_iter: "ht_wf tb \<Longrightarrow> iter_all (Suc (nat (ht_count_used tb))) tb 0 = Some (ht_alist tb)"
  using iter_all_from [of tb 0 "Suc (nat (ht_count_used tb))"] by (simp add: ht_alist_def del: iter_all.simps)

lemma visits_object:
  assumes "\<And>p res w tb. node_val (Some p) w = Some (JObj tb) \<Longrightarrow> f (Some p) res w
      = walk_entries (visit p) tb (Suc (nat (ht_count_used tb))) (Some 0) res w"
    "\<And>p q k t. (k, t) \<in> set kvs \<Longrightarrow>
       runs (\<lambda>m w. rep (room m) w lo p (TObj kvs) \<and> rep (room m) w lo q t) lo (g (k, t)) (visit p k (Some q))"
  shows "visits lo f (TObj kvs) (concat (map g kvs))"
proof (intro visitsI runs_local)
  fix p m w
  assume a: "rep (room m) w lo p (TObj kvs)" "statics_ok (w :: 'a jworld)"
  then show "\<exists>Q g'. Q m w \<and> runs Q lo (concat (map g kvs)) g' \<and> (\<forall>res. f (Some p) res w = g' res w)"
  proof (cases rule: rep_val)
    case (obj kvs' tb)
    obtain al where al: "ht_alist tb = owned al" "map fst al = map fst kvs"
      using rep_pairs_ptrs [OF obj(5)] obj(1) by auto
    define Q where "Q = (\<lambda>m w. rep (room m) w lo p (TObj kvs) \<and> rep_pairs (room m) w lo (owned al) kvs)"
    have st: "stable Q" unfolding Q_def by (intro stable_conj stable_rep stable_pairs)
    have len: "length al = length kvs" using al(2) by (rule map_eq_imp_length_eq)
    have "runs Q lo (g (kvs ! i)) (visit p (fst (al ! i)) (Some (snd (al ! i))))" if i: "i < length kvs" for i
    proof -
      have "fst (al ! i) = fst (kvs ! i)" using al(2) i len by (metis nth_map)
      then have "(fst (al ! i), snd (kvs ! i)) = kvs ! i" by simp
      then have "(fst (al ! i), snd (kvs ! i)) \<in> set kvs" using i by simp
      from runs_mono [OF assms(2) [OF this, where p = p and q = "snd (al ! i)"], of Q]
      show ?thesis
        using rep_pairs_nth [OF _ i] \<open>(fst (al ! i), snd (kvs ! i)) = kvs ! i\<close> by (simp add: Q_def)
    qed
    then have "list_all2 (\<lambda>kp kv. runs Q lo (g kv) (visit p (fst kp) (Some (snd kp)))) al kvs"
      using len by (simp add: list_all2_conv_all_nth)
    then have "runs Q lo (concat (map g kvs)) (walk_entries (visit p) tb (Suc (nat (ht_count_used tb))) (Some 0))"
      by (intro entries_runs [OF st, where al = al]) (simp add: table_iter [OF obj(3)] al(1) del: iter_all.simps)
    moreover have "Q m w" using a(1) obj(1,5) al(1) by (simp add: Q_def)
    ultimately show ?thesis by (rule runs_local_ex) (rule assms(1) [OF obj(2)])
  next
    case (arr ts a)
    then show ?thesis by simp
  next
    case (other v)
    then show ?thesis using other(1) [of kvs] by simp
  qed
qed

text \<open>A walk that ignores what is not the container it looks for, or takes it as it is.\<close>

fun looks :: "'r json_val \<Rightarrow> 'r jtree \<Rightarrow> bool" where
  "looks v (TObj kvs) \<longleftrightarrow> (\<exists>tb. v = JObj tb)"
| "looks v (TArr ts) \<longleftrightarrow> (\<exists>a. v = JArr (Some a))"
| "looks v t \<longleftrightarrow> no_container v"

lemma rep_looks:
  assumes "rep R w lo p t" "statics_ok w"
  shows "\<exists>v. node_val (Some p) w = Some v \<and> looks v t"
  using assms
proof (cases rule: rep_val)
  case (other v)
  then have "looks v t" by (cases t) auto
  then show ?thesis using other(3) by blast
qed auto

lemma visits_as:
  assumes "\<And>p res w v. node_val (Some p) w = Some v \<Longrightarrow> looks v t \<Longrightarrow> f (Some p) res w = h (Some p) res w"
    "visits lo h t us"
  shows "visits lo f t us"
proof (intro visitsI runs_local)
  fix p m w
  assume a: "rep (room m) w lo p t" "statics_ok (w :: 'a jworld)"
  then obtain v where "node_val (Some p) w = Some v" "looks v t" using rep_looks by blast
  then have "\<forall>res. f (Some p) res w = h (Some p) res w" using assms(1) by blast
  then show "\<exists>Q g. Q m w \<and> runs Q lo us g \<and> (\<forall>res. f (Some p) res w = g res w)"
    by (intro runs_local_ex [OF visitsD [OF assms(2), of p] a(1)]) simp
qed

lemma visits_nothing: "visits lo (\<lambda>_ res w. Some (res, w)) t []"
  by (rule visitsI) (rule runs_nil)

lemma isobj_val: "node_val (Some p) w = Some v \<Longrightarrow> pcl_json_isobj (Some p) w = Some (json_type v = CHR ''o'')"
  by (cases "json_load p w") (auto simp: node_val_def pcl_json_isobj_def json_is_def)

lemma rep_pairs_get:
  "rep_pairs R w lo al kvs \<Longrightarrow>
   case map_of kvs k of
     None \<Rightarrow> al_get (=) k al = None
   | Some u \<Rightarrow> \<exists>q. al_get (=) k al = Some (Some q) \<and> rep R w lo q u"
proof (induction kvs arbitrary: al)
  case (Cons kv kvs)
  then obtain p al' where al: "al = (fst kv, Some p) # al'" "rep R w lo p (snd kv)" "rep_pairs R w lo al' kvs"
    by auto
  show ?case
  proof (cases "fst kv = k")
    case True
    then show ?thesis using al by (cases kv) (simp add: al_get_Cons)
  next
    case False
    then have "al_get (=) k al = al_get (=) k al'" "map_of (kv # kvs) k = map_of kvs k"
      using al(1) by (simp_all add: al_get_Cons)
    then show ?thesis using Cons.IH [OF al(3)] False by (cases "map_of kvs k") auto
  qed
qed (simp add: al_get_def)

text \<open>Looking up a member changes nothing but the error.\<close>

lemma objget_tree:
  assumes "node_val (Some p) w = Some (JObj tb)" "ht_wf tb" "ht_eq tb = (=)" "0 \<notin> set (str_bytes k)"
    "\<not> frozen w" "al_get (=) k (ht_alist tb) \<noteq> Some None"
  obtains w1 where "pcl_json_objget (Some p) (Some (str_bytes k @ [0])) w
      = Some (case al_get (=) k (ht_alist tb) of Some v \<Rightarrow> v | None \<Rightarrow> None, w1)" "same_store w w1" "\<not> frozen w1"
proof -
  obtain nd where nd: "json_load p w = Some nd" "js_val nd = JObj tb"
    using assms(1) by (auto simp: node_val_def)
  have c: "c_string (str_bytes k @ [0]) = Some k" by (rule c_string_bytes [OF assms(4)])
  show ?thesis
  proof (cases "al_get (=) k (ht_alist tb)")
    case None
    define w2 where "w2 = snd (R_TRC (None :: nat option) (''htable_get.c'', ''pcl_htable_get'', 41)
      (snd (R_TRC (None :: (string, nat) htable_entry option) (''htable_lookup.c'', ''pcl_htable_lookup'', 43)
        (snd (SETERR (''htable_lookup.c'', ''ipcl_htable_lookup'', 71) PCL_ENOTFOUND w)))))"
    define w1 where "w1 = snd (if pcl_err_last w2 \<noteq> 0
      then R_TRC (None :: nat option) (''json_objget.c'', ''pcl_json_objget'', 47) w2
      else R_SETERR None (''json_objget.c'', ''pcl_json_objget'', 47) PCL_ENOTFOUND w2)"
    have "pcl_htable_get (Some tb) (Some k) w = Some (None, w2)"
      using htable_get_ok [OF assms(2), of k w] None assms(3) by (simp add: w2_def R_TRC_def)
    then have "pcl_json_objget (Some p) (Some (str_bytes k @ [0])) w = Some (None, w1)"
      using nd c by (simp add: pcl_json_objget_def w1_def R_TRC_def R_SETERR_def)
    moreover have "same_store w w1" by (rule same_store_more) (simp add: w1_def w2_def)
    moreover have "\<not> frozen w1" using assms(5) by (simp add: w1_def w2_def)
    ultimately show ?thesis using that None by simp
  next
    case (Some v)
    then obtain q where v: "v = Some q" using assms(6) by (cases v) auto
    have "pcl_htable_get (Some tb) (Some k) w = Some (Some q, snd (pcl_err_clear w))"
      using htable_get_ok [OF assms(2), of k w] Some v assms(3) by simp
    then have "pcl_json_objget (Some p) (Some (str_bytes k @ [0])) w = Some (Some q, snd (pcl_err_clear w))"
      using nd c by (simp add: pcl_json_objget_def)
    moreover have "same_store w (snd (pcl_err_clear w))" by (rule same_store_more) simp
    ultimately show ?thesis using that Some v assms(5) by simp
  qed
qed

lemma runs_start:
  assumes "same_store w w1" "\<not> frozen w1" "runs P lo us g" "stable P"
    "\<And>res. f res w = g res w1" "P m w"
  shows "\<exists>Q g. Q m w \<and> runs Q lo us g \<and> (\<forall>res. f res w = g res w)"
proof -
  have main: "runs P lo us (\<lambda>res v. if v = w then f res w else g res v)"
  proof (rule runsI)
    fix m' v and res :: results
    assume a: "P m' v" "statics_ok v" "\<not> frozen v" "length us \<le> m'" "arr_wf res"
      "length (arr_seq res) + length us \<le> 2 ^ 30"
    show "outcome lo us res v (if v = w then f res w else g res v)"
    proof (cases "v = w")
      case True
      have r: "refs_added [] w w1" by (rule refs_none [OF assms(1)])
      have "P m' w1" using stableD [OF assms(4) a(1) r [folded True]] by simp
      moreover have "statics_ok w1" using refs_statics [OF r] a(2) True by simp
      ultimately have "outcome lo us res w1 (g res w1)" using a assms(2) by (intro runsD [OF assms(3)]) simp_all
      then obtain ps res' w' where o: "g res w1 = Some (res', w')" "arr_wf res'" "arr_seq res' = arr_seq res @ ps"
        "refs_added ps w1 w'" "\<not> frozen w'" "rep_list (\<lambda>_. True) w' lo ps us"
        by (auto simp: outcome_def)
      then have "refs_added ps w w'" using refs_trans [OF r o(4)] by simp
      then show ?thesis using o assms(5) True by (auto simp: outcome_def)
    next
      case False
      then show ?thesis using runsD [OF assms(3) a] by simp
    qed
  qed
  show ?thesis by (rule runs_local_ex [where Q = P, OF main assms(6)]) simp
qed

lemma member_visits:
  assumes "0 \<notin> set (str_bytes k)"
    "\<And>kvs u. t = TObj kvs \<Longrightarrow> map_of kvs k = Some u \<Longrightarrow> visits lo (\<lambda>node. add_or_walk walk node next) u (sel u)"
  shows "visits lo (\<lambda>node. walk_member walk (str_bytes k @ [0]) node next) t
    (case t of TObj kvs \<Rightarrow> (case map_of kvs k of Some u \<Rightarrow> sel u | None \<Rightarrow> []) | _ \<Rightarrow> [])" (is "visits _ ?f _ ?us")
proof (intro visitsI runs_local)
  fix p m w
  assume a: "rep (room m) w lo p t" "statics_ok (w :: 'a jworld)" "\<not> frozen w"
  show "\<exists>Q g. Q m w \<and> runs Q lo ?us g \<and> (\<forall>res. ?f (Some p) res w = g res w)"
    using a(1,2)
  proof (cases rule: rep_val)
    case (obj kvs tb)
    have isobj: "pcl_json_isobj (Some p) w = Some True" using isobj_val [OF obj(2)] by (simp add: json_type_def)
    note get = rep_pairs_get [OF obj(5), of k]
    then have "al_get (=) k (ht_alist tb) \<noteq> Some None" by (auto split: option.splits)
    then obtain w1 where w1: "pcl_json_objget (Some p) (Some (str_bytes k @ [0])) w
      = Some (case al_get (=) k (ht_alist tb) of Some v \<Rightarrow> v | None \<Rightarrow> None, w1)" "same_store w w1" "\<not> frozen w1"
      by (rule objget_tree [OF obj(2-4) assms(1) a(3)])
    show ?thesis
    proof (cases "map_of kvs k")
      case None
      have "runs (\<lambda>m w. rep (room m) w lo p t) lo [] (\<lambda>res w. Some (res, w))" by (rule runs_nil)
      then have "\<exists>Q g. Q m w \<and> runs Q lo [] g \<and> (\<forall>res. ?f (Some p) res w = g res w)"
        by (rule runs_start [OF w1(2,3) _ stable_rep]) (use isobj w1(1) None get a(1) in \<open>simp_all add: walk_member_def\<close>)
      then show ?thesis using None obj(1) by simp
    next
      case (Some u)
      then obtain q where q: "al_get (=) k (ht_alist tb) = Some (Some q)" "rep (room m) w lo q u" using get by auto
      have "\<exists>Q g. Q m w \<and> runs Q lo (sel u) g \<and> (\<forall>res. ?f (Some p) res w = g res w)"
        by (rule runs_start [OF w1(2,3) visitsD [OF assms(2) [OF obj(1) Some], of q] stable_rep])
          (use isobj w1(1) q in \<open>simp_all add: walk_member_def\<close>)
      then show ?thesis using Some obj(1) by simp
    qed
  next
    case (arr ts ar)
    have "?f (Some p) res w = Some (res, w)" for res
      using isobj_val [OF arr(2)] by (simp add: walk_member_def json_type_def)
    then have "\<exists>Q g. Q m w \<and> runs Q lo [] g \<and> (\<forall>res. ?f (Some p) res w = g res w)"
      by (rule runs_local_ex [where Q = "\<lambda>m w. rep (room m) w lo p t", OF runs_nil a(1)])
    then show ?thesis using arr(1) by simp
  next
    case (other v)
    have "json_type v \<noteq> CHR ''o''" using other(4) by (cases v) (simp_all add: no_container_def json_type_def)
    then have "?f (Some p) res w = Some (res, w)" for res
      using isobj_val [OF other(3)] by (simp add: walk_member_def)
    then have "\<exists>Q g. Q m w \<and> runs Q lo [] g \<and> (\<forall>res. ?f (Some p) res w = g res w)"
      by (rule runs_local_ex [where Q = "\<lambda>m w. rep (room m) w lo p t", OF runs_nil a(1)])
    moreover have "?us = []" using other(1) by (cases t) auto
    ultimately show ?thesis by simp
  qed
qed

lemma array_or:
  assumes "\<And>p res w a. node_val (Some p) w = Some (JArr (Some a)) \<Longrightarrow> f (Some p) res w = g a res w"
    "\<And>p res w v. node_val (Some p) w = Some v \<Longrightarrow> (\<And>a. v \<noteq> JArr a) \<Longrightarrow> f (Some p) res w = h (Some p) res w"
    "\<And>ts a ps. t = TArr ts \<Longrightarrow> arr_wf a \<Longrightarrow> arr_seq a = map Some ps \<Longrightarrow> length ps = length ts \<Longrightarrow>
       runs (\<lambda>m w. rep_list (room m) w lo (map Some ps) ts) lo (us ts) (g a)"
    "visits lo h t vs"
  shows "visits lo f t (case t of TArr ts \<Rightarrow> us ts | _ \<Rightarrow> vs)"
proof (cases "\<exists>ts. t = TArr ts")
  case True
  then obtain ts where t: "t = TArr ts" by blast
  have "visits lo f (TArr ts) (us ts)"
    by (rule visits_array [where g = g]) (use assms(1) assms(3) [OF t] in blast)+
  then show ?thesis using t by simp
next
  case False
  have "(\<forall>a. v \<noteq> JArr a)" if "looks v t" for v :: "'a json_val"
    using that False by (cases t) (auto simp: no_container_def)
  then have "visits lo f t vs" using assms(2) by (intro visits_as [OF _ assms(4)]) blast
  then show ?thesis using False by (cases t) auto
qed

lemma object_or:
  assumes "\<And>p res w tb. node_val (Some p) w = Some (JObj tb) \<Longrightarrow> f (Some p) res w
      = walk_entries (visit p) tb (Suc (nat (ht_count_used tb))) (Some 0) res w"
    "\<And>p res w v. node_val (Some p) w = Some v \<Longrightarrow> (\<And>tb. v \<noteq> JObj tb) \<Longrightarrow> f (Some p) res w = h (Some p) res w"
    "\<And>kvs p q k u. t = TObj kvs \<Longrightarrow> (k, u) \<in> set kvs \<Longrightarrow>
       runs (\<lambda>m w. rep (room m) w lo p t \<and> rep (room m) w lo q u) lo (g (k, u)) (visit p k (Some q))"
    "visits lo h t vs"
  shows "visits lo f t (case t of TObj kvs \<Rightarrow> concat (map g kvs) | _ \<Rightarrow> vs)"
proof (cases "\<exists>kvs. t = TObj kvs")
  case True
  then obtain kvs where t: "t = TObj kvs" by blast
  have "visits lo f (TObj kvs) (concat (map g kvs))"
    by (rule visits_object [where visit = visit]) (use assms(1) assms(3) [OF t] t in blast)+
  then show ?thesis using t by simp
next
  case False
  have "(\<forall>tb. v \<noteq> JObj tb)" if "looks v t" for v :: "'a json_val"
    using that False by (cases t) (auto simp: no_container_def)
  then have "visits lo f t vs" using assms(2) by (intro visits_as [OF _ assms(4)]) blast
  then show ?thesis using False by (cases t) auto
qed

lemma skip_case:
  "\<forall>a. v \<noteq> JArr a \<Longrightarrow> (case v of JArr a \<Rightarrow> f a | _ \<Rightarrow> d) = d"
  "\<forall>tb. v \<noteq> JObj tb \<Longrightarrow> (case v of JObj tb \<Rightarrow> g tb | _ \<Rightarrow> d) = d"
  by (cases v, auto)+

lemma element_visits:
  assumes "\<And>ts u. t = TArr ts \<Longrightarrow> u \<in> set ts \<Longrightarrow> visits lo (\<lambda>node. add_or_walk walk node next) u (sel u)"
  shows "visits lo (\<lambda>node. walk_element walk i node next) t
    (case t of TArr ts \<Rightarrow> concat (map sel (nth_tree ts i)) | _ \<Rightarrow> [])"
  by (rule array_or [where g = "\<lambda>a. walk_index walk (Some a) i next", OF _ _ _ visits_nothing])
    (simp_all add: walk_element_def skip_case index_runs assms)

lemma element_list_visits:
  assumes "\<And>ts u. t = TArr ts \<Longrightarrow> u \<in> set ts \<Longrightarrow> visits lo (\<lambda>node. add_or_walk walk node next) u (sel u)"
    "index_vec v" "vec_seq v = map int_bytes js" "list_all int_ok js"
  shows "visits lo (\<lambda>node. walk_element_list walk v node next) t
    (case t of TArr ts \<Rightarrow> concat (map (\<lambda>j. concat (map sel (nth_tree ts j))) js) | _ \<Rightarrow> [])"
proof (rule array_or [where g = "\<lambda>a. walk_list (\<lambda>j. walk_index walk (Some a) j next) v 0 (nat (vec_count v))",
      OF _ _ _ visits_nothing], goal_cases)
  case (3 ts a ps)
  have "vec_count v = int (length js)"
    using assms(2,3) by (auto simp: index_vec_def elim!: vec_wfE)
  moreover have "runs (\<lambda>m w. rep_list (room m) w lo (map Some ps) ts) lo
      (concat (map (\<lambda>j. concat (map sel (nth_tree ts j))) (drop 0 js)))
      (walk_list (\<lambda>j. walk_index walk (Some a) j next) v (int 0) (length js))"
    by (rule list_runs [OF assms(2-4) stable_list index_runs [OF 3(2-4) assms(1) [OF 3(1)]]]) simp_all
  ultimately show ?case by simp
qed (simp_all add: walk_element_list_def skip_case)

lemma wildcard_element_visits:
  assumes "\<And>ts u. t = TArr ts \<Longrightarrow> u \<in> set ts \<Longrightarrow> visits lo (\<lambda>node. add_or_walk walk node next) u (sel u)"
  shows "visits lo (\<lambda>node. walk_wildcard_element walk node next) t
    (case t of TArr ts \<Rightarrow> concat (map sel ts) | _ \<Rightarrow> [t])"
proof (rule array_or [where g = "\<lambda>a. walk_elems (\<lambda>_ elem. add_or_walk walk elem next) a 0 (nat (arr_count a))",
      OF _ _ _ add_match_visits], goal_cases)
  case (3 ts a ps)
  have "arr_count a = int (length ts)" using arr_seq_length [OF 3(2)] 3(3,4) by simp
  then show ?case
    using elems_runs [OF 3(2-4), of lo "\<lambda>_ elem. add_or_walk walk elem next" sel "length ts" 0] assms [OF 3(1)]
    by simp
qed (simp_all add: walk_wildcard_element_def skip_case)

lemma element_slice_visits:
  assumes "\<And>ts u. t = TArr ts \<Longrightarrow> u \<in> set ts \<Longrightarrow> visits lo (\<lambda>node. add_or_walk walk node next) u (sel u)"
    "int_ok a" "int_ok b" "0 < c" "c \<le> 2 ^ 29" "b \<le> 2 ^ 29" "narrow t"
  shows "visits lo (\<lambda>node. walk_element_slice walk a b c node next) t
    (case t of
       TArr ts \<Rightarrow> concat (map (\<lambda>j. concat (map sel (nth_tree ts j))) (slice_indices (int (length ts)) a b c))
     | _ \<Rightarrow> [])"
proof (rule array_or [where g = "\<lambda>ar res w. do { i \<leftarrow> slice_from (arr_count ar) a; e \<leftarrow> slice_stop (arr_count ar) b;
      walk_slice (\<lambda>i. walk_index walk (Some ar) i next) c i e res w }", OF _ _ _ visits_nothing], goal_cases)
  case (3 ts ar ps)
  define n where "n = int (length ts)"
  have n: "arr_count ar = n" "0 \<le> n" "n \<le> 2 ^ 29"
    using arr_seq_length [OF 3(2)] 3(1,3,4) assms(7) by (simp_all add: n_def)
  define i where "i = (if a < 0 then n + a else a)"
  define e where "e = (if b = 0 then n else if b < 0 then n + b else b)"
  have i: "slice_from n a = Some i" "INT_MIN \<le> i"
    using n assms(2) by (auto simp: slice_from_def i_def int_ok_def INT_MAX_def INT_MIN_def intro!: cint_ok)
  have e: "slice_stop n b = Some e" "e + c \<le> INT_MAX + 1"
    using n assms(3-6) by (auto simp: slice_stop_def e_def int_ok_def INT_MAX_def INT_MIN_def Let_def intro!: cint_ok)
  have r: "runs (\<lambda>m w. rep_list (room m) w lo (map Some ps) ts) lo (concat (map sel (nth_tree ts j)))
      (walk_index walk (Some ar) j next)" for j
    by (rule index_runs [OF 3(2-4) assms(1) [OF 3(1)]])
  have "slice_indices n a b c = filter (\<lambda>j. (j - i) mod c = 0) [i..e - 1]"
    by (simp add: slice_indices_def i_def e_def Let_def)
  then show ?case
    using slice_runs [OF assms(4) e(2) stable_list r i(2)] i(1) e(1) n(1) by (simp add: n_def [symmetric])
qed (simp_all add: walk_element_slice_def skip_case)

lemma wildcard_member_visits:
  assumes "\<And>kvs kv. t = TObj kvs \<Longrightarrow> kv \<in> set kvs \<Longrightarrow> visits lo (\<lambda>node. add_or_walk walk node next) (snd kv) (sel (snd kv))"
  shows "visits lo (\<lambda>node. walk_wildcard_member walk node next) t
    (case t of TObj kvs \<Rightarrow> concat (map (\<lambda>kv. sel (snd kv)) kvs) | _ \<Rightarrow> [t])"
proof (rule object_or [where visit = "\<lambda>_ _ value. add_or_walk walk value next", OF _ _ _ add_match_visits], goal_cases)
  case (3 kvs p q k u)
  show ?case
    using visitsD [OF assms [OF 3(1,2)], of q] by (rule runs_mono) simp
qed (simp_all add: walk_wildcard_member_def skip_case)

definition descent_object ::
  "'r walker \<Rightarrow> nat option \<Rightarrow> pcl_json_path \<Rightarrow> results \<Rightarrow> 'r jworld \<Rightarrow> 'r walked" where
  "descent_object walk node next results w =
     do { v \<leftarrow> node_val node w;
          case v of
            JObj t \<Rightarrow>
              walk_entries (\<lambda>key value res w1.
                do { hit \<leftarrow> next_is_key next key;
                     if hit then walk node next res w1
                     else walk value (PathRecursiveDescent # next) res w1 })
                t (Suc (nat (ht_count_used t))) (Some 0) results w
          | _ \<Rightarrow> Some (results, w) }"

lemma descent_visits:
  assumes "\<And>k. next_is_key next k = Some (hit k)" "\<And>i. next_is_index next i = Some False"
    "visits lo (\<lambda>node. walk node next) t (sel t)"
    "\<And>kvs kv. t = TObj kvs \<Longrightarrow> kv \<in> set kvs \<Longrightarrow>
       visits lo (\<lambda>node. walk node (PathRecursiveDescent # next)) (snd kv) (descend hit sel (snd kv))"
    "\<And>ts u. t = TArr ts \<Longrightarrow> u \<in> set ts \<Longrightarrow>
       visits lo (\<lambda>node. walk node (PathRecursiveDescent # next)) u (descend hit sel u)"
  shows "visits lo (\<lambda>node. walk_descent walk node next) t (descend hit sel t)"
proof -
  have obj: "visits lo (\<lambda>node. descent_object walk node next) t
    (case t of TObj kvs \<Rightarrow> concat (map (\<lambda>kv. if hit (fst kv) then sel t else descend hit sel (snd kv)) kvs)
     | _ \<Rightarrow> [])"
  proof (rule object_or [where visit = "\<lambda>p key value res w1. if hit key then walk (Some p) next res w1
        else walk value (PathRecursiveDescent # next) res w1", OF _ _ _ visits_nothing], goal_cases)
    case (3 kvs p q k u)
    show ?case
    proof (cases "hit k")
      case True
      have "runs (\<lambda>m w. rep (room m) w lo p t \<and> rep (room m) w lo q u) lo (sel t) (walk (Some p) next)"
        by (rule runs_mono [OF visitsD [OF assms(3)]]) simp
      then show ?thesis using True by simp
    next
      case False
      have "runs (\<lambda>m w. rep (room m) w lo p t \<and> rep (room m) w lo q u) lo (descend hit sel u)
          (walk (Some q) (PathRecursiveDescent # next))"
        using visitsD [OF assms(4) [OF 3(1,2)], of q] unfolding fst_conv snd_conv by (rule runs_mono) simp
      then show ?thesis using False by simp
    qed
  qed (simp_all add: descent_object_def skip_case assms(1))
  have "visits lo (\<lambda>node. walk_descent walk node next) t
    (case t of TArr ts \<Rightarrow> concat (map (descend hit sel) ts)
     | _ \<Rightarrow> (case t of TObj kvs \<Rightarrow> concat (map (\<lambda>kv. if hit (fst kv) then sel t else descend hit sel (snd kv)) kvs)
            | _ \<Rightarrow> []))"
  proof (rule array_or [where g = "\<lambda>a. walk_elems (\<lambda>_ elem. walk elem (PathRecursiveDescent # next)) a 0 (nat (arr_count a))",
        OF _ _ _ obj], goal_cases)
    case (2 p res w v)
    then show ?case by (cases v) (auto simp: walk_descent_def descent_object_def)
  next
    case (3 ts a ps)
    have "arr_count a = int (length ts)" using arr_seq_length [OF 3(2)] 3(3,4) by simp
    then show ?case
      using elems_runs [OF 3(2-4), of lo "\<lambda>_ elem. walk elem (PathRecursiveDescent # next)" "descend hit sel" "length ts" 0]
        assms(5) [OF 3(1)] by simp
  qed (simp add: walk_descent_def assms(2))
  then show ?thesis by (cases t) (auto simp: descend_list_concat descend_pairs_concat)
qed

section \<open>Walking a path\<close>

lemma next_hit:
  assumes "list_all2 denotes ss path" "dotted ss"
  shows "next_is_key path k = Some (next_name ss k)" "next_is_index path i = Some False" "path \<noteq> []"
proof -
  obtain s ss' where ss: "ss = s # ss'" using assms(2) by (cases ss) auto
  then obtain nd path' where p: "path = nd # path'" "denotes s nd" using assms(1) by (auto simp: list_all2_Cons1)
  show "next_is_key path k = Some (next_name ss k)"
    using ss p assms(2) c_string_bytes [of _ "[]"]
    by (cases s) (auto simp: next_is_key_def next_name_def)
  show "next_is_index path i = Some False"
    using ss p assms(2) by (cases s) (auto simp: next_is_index_def)
  show "path \<noteq> []" using p by simp
qed

lemma walk_path_visits:
  fixes t :: "'r jtree"
  shows "list_all2 denotes ss path \<Longrightarrow> ss \<noteq> [] \<Longrightarrow> segs_ok ss \<Longrightarrow> list_all stride_fits ss \<Longrightarrow> narrow t \<Longrightarrow>
   tree_depth t + length ss < fuel \<Longrightarrow> visits lo (\<lambda>node. walk_path fuel node path) t (select ss t)"
proof (induction fuel arbitrary: ss path t)
  case (Suc fuel)
  obtain s ss' where ss: "ss = s # ss'" using Suc.prems(2) by (cases ss) auto
  then obtain nd nx where p: "path = nd # nx" "denotes s nd" "list_all2 denotes ss' nx"
    using Suc.prems(1) by (auto simp: list_all2_Cons1)
  have ok: "segs_ok ss'" "list_all stride_fits ss'" "seg_ok s" "stride_fits s" "s = Descend \<Longrightarrow> dotted ss'"
    using Suc.prems(3,4) ss by simp_all
  define sel :: "'r jtree \<Rightarrow> 'r jtree list" where "sel = select ss'"
  have kid: "visits lo (\<lambda>node. add_or_walk (walk_path fuel) node nx) u (sel u)"
    if "narrow u" "tree_depth u + length ss' < fuel" for u
  proof (rule add_or_walk_visits)
    assume "nx \<noteq> []"
    then have "ss' \<noteq> []" using p(3) by auto
    then show "visits lo (\<lambda>node. walk_path fuel node nx) u (sel u)"
      unfolding sel_def by (rule Suc.IH [OF p(3) _ ok(1,2) that])
  next
    assume "nx = []"
    then show "sel u = [u]" using p(3) by (simp add: sel_def)
  qed
  have arr: "visits lo (\<lambda>node. add_or_walk (walk_path fuel) node nx) u (sel u)" if "t = TArr ts" "u \<in> set ts" for ts u
    using that Suc.prems(5,6) ss list_depth_elem [OF that(2)] by (intro kid) (auto simp: narrow_list_all)
  have obj: "visits lo (\<lambda>node. add_or_walk (walk_path fuel) node nx) (snd kv) (sel (snd kv))"
    if "t = TObj kvs" "kv \<in> set kvs" for kvs kv
    using that Suc.prems(5,6) ss pairs_depth_elem [OF that(2)] by (intro kid) (auto simp: narrow_pairs_all)
  have mbr: "visits lo (\<lambda>node. walk_member (walk_path fuel) (str_bytes k @ [0]) node nx) t
      (case t of TObj kvs \<Rightarrow> (case map_of kvs k of Some u \<Rightarrow> sel u | None \<Rightarrow> []) | _ \<Rightarrow> [])"
    if "0 \<notin> set (str_bytes k)" for k
    by (rule member_visits [OF that]) (use obj map_of_SomeD in fastforce)
  have step: "walk_path (Suc fuel) node path = walk_body (walk_path fuel) node path" for node by simp
  have goal: "select ss t = pick s (next_name ss') sel t" by (simp add: ss sel_def)
  show ?case
    unfolding step goal
  proof (cases s)
    case (Elems js)
    then obtain v where v: "nd = PathElementList v" "index_vec v" "vec_seq v = map int_bytes js" "list_all int_ok js"
      using p(2) by auto
    show "visits lo (\<lambda>node. walk_body (walk_path fuel) node path) t (pick s (next_name ss') sel t)"
      using element_list_visits [of t lo "walk_path fuel" nx sel, OF _ v(2-4)] arr Elems p(1) v(1)
      by (simp add: walk_body_def [abs_def])
  next
    case (Slice a b c)
    then have "int_ok a" "int_ok b" "0 < c" "c \<le> 2 ^ 29" "b \<le> 2 ^ 29" using ok(3,4) by simp_all
    then show "visits lo (\<lambda>node. walk_body (walk_path fuel) node path) t (pick s (next_name ss') sel t)"
      using element_slice_visits [of t lo "walk_path fuel" nx sel, OF _ _ _ _ _ _ Suc.prems(5)] arr Slice p(1,2)
      by (simp add: walk_body_def [abs_def])
  next
    case Descend
    note hit = next_hit [OF p(3) ok(5) [OF Descend]]
    have ne: "ss' \<noteq> []" using hit(3) p(3) by auto
    have self: "visits lo (\<lambda>node. walk_path fuel node nx) t (sel t)"
      unfolding sel_def using Suc.prems(5,6) ss by (intro Suc.IH [OF p(3) ne ok(1,2)]) simp_all
    have down: "visits lo (\<lambda>node. walk_path fuel node (PathRecursiveDescent # nx)) u (descend (next_name ss') sel u)"
      if "narrow u" "tree_depth u < tree_depth t" for u
      using Suc.IH [of ss path u] Suc.prems(1-4,6) that ss p(1,2) Descend by (simp add: sel_def)
    have "visits lo (\<lambda>node. walk_descent (walk_path fuel) node nx) t (descend (next_name ss') sel t)"
    proof (rule descent_visits [of nx "next_name ss'" lo "walk_path fuel" t sel, OF hit(1,2) self])
      fix kvs kv
      assume "t = TObj kvs" "kv \<in> set kvs"
      then show "visits lo (\<lambda>node. walk_path fuel node (PathRecursiveDescent # nx)) (snd kv)
          (descend (next_name ss') sel (snd kv))"
        using Suc.prems(5) pairs_depth_elem [of kv kvs] by (intro down) (auto simp: narrow_pairs_all)
    next
      fix ts u
      assume "t = TArr ts" "u \<in> set ts"
      then show "visits lo (\<lambda>node. walk_path fuel node (PathRecursiveDescent # nx)) u
          (descend (next_name ss') sel u)"
        using Suc.prems(5) list_depth_elem [of u ts] by (intro down) (auto simp: narrow_list_all)
    qed
    then show "visits lo (\<lambda>node. walk_body (walk_path fuel) node path) t (pick s (next_name ss') sel t)"
      using Descend p(1,2) by (simp add: walk_body_def [abs_def])
  qed (use p mbr element_visits [of t lo "walk_path fuel" nx sel] arr
        wildcard_element_visits [of t lo "walk_path fuel" nx sel]
        wildcard_member_visits [of t lo "walk_path fuel" nx sel] obj
      in \<open>auto simp: walk_body_def [abs_def]\<close>)
qed simp

section \<open>The matcher and the query\<close>

text \<open>The nodes that were there keep their values and got one reference per occurrence in the
  results.\<close>

definition referenced :: "nat option list \<Rightarrow> 'r jworld \<Rightarrow> 'r jworld \<Rightarrow> bool" where
  "referenced ps w w' \<longleftrightarrow>
     (\<forall>q < jw_next w. jw_mem w' q = map_option (\<lambda>nd. if json_static q then nd
          else nd\<lparr>js_nrefs := js_nrefs nd + int (count_list ps (Some q))\<rparr>) (jw_mem w q))"

text \<open>The array of the results starts as the member of a value that is freed again.\<close>

lemma match_start:
  assumes "statics_ok w" "0 < jl_depth L"
  obtains w3 where "pcl_json_match fuel L root path w
      = walk_path fuel root path (pcl_array_new 8 (Some ArrayCleanup)) w3"
    "\<forall>q < jw_next w. jw_mem w3 q = jw_mem w q" "jw_next w3 = jw_next w + 1" "frozen w3 = frozen w"
proof -
  define j where "j = jw_next w"
  have j: "3 \<le> j" using assms(1) by (simp add: j_def statics_ok_def)
  define w2 where "w2 = w\<lparr>jw_next := j + 1, jw_mem := (jw_mem w)(j \<mapsto> \<lparr>js_nrefs = 1, js_val = JArr None\<rparr>)\<rparr>"
  obtain d where d: "jl_depth L = Suc d" using assms(2) by (cases "jl_depth L") auto
  have ns: "\<not> json_static j"
    using j by (auto simp: json_static_def pcl_json_null_def pcl_json_true_def pcl_json_false_def)
  define w3 where "w3 = w2\<lparr>jw_mem := (jw_mem w2)(j := None)\<rparr>"
  have "pcl_json_free (jl_depth L) (Some j) w2 = Some w3"
    unfolding d using ns
    by (simp add: pcl_json_ref_def json_load_def json_store_def w2_def w3_def cint_def INT_MIN_def INT_MAX_def
        pcl_array_free_def)
  then have "pcl_json_match fuel L root path w
      = walk_path fuel root path (pcl_array_new 8 (Some ArrayCleanup)) w3"
    by (simp add: pcl_json_match_def pcl_json_arr_def made_def json_alloc_def json_load_def json_put_val_def
        json_store_def w2_def j_def)
  then show ?thesis by (rule that) (simp_all add: w3_def w2_def j_def)
qed

lemma json_match_ok:
  fixes t :: "'r jtree"
  assumes "rep (room (length (select ss t))) w lo p t" "statics_ok w" "\<not> frozen w" "0 < jl_depth L"
    "list_all2 denotes ss nds" "segs_ok ss" "list_all stride_fits ss" "narrow t"
    "tree_depth t + length ss + 1 < fuel" "length (select ss t) \<le> 2 ^ 30"
  shows "\<exists>arr w'. pcl_json_match fuel L (Some p) (PathRoot # nds) w = Some (arr, w')
    \<and> arr_wf arr \<and> rep_list (\<lambda>_. True) w' lo (arr_seq arr) (select ss t)
    \<and> referenced (arr_seq arr) w w' \<and> \<not> frozen w'"
proof -
  obtain w3 where w3: "pcl_json_match fuel L (Some p) (PathRoot # nds) w
      = walk_path fuel (Some p) (PathRoot # nds) (pcl_array_new 8 (Some ArrayCleanup)) w3"
    "\<forall>q < jw_next w. jw_mem w3 q = jw_mem w q" "jw_next w3 = jw_next w + 1" "frozen w3 = frozen w"
    by (rule match_start [OF assms(2,4), of fuel "Some p" "PathRoot # nds"])
  obtain f where f: "fuel = Suc f" using assms(9) by (cases fuel) auto
  have v: "visits lo (\<lambda>node. add_or_walk (walk_path f) node nds) t (select ss t)"
  proof (rule add_or_walk_visits)
    assume "nds \<noteq> []"
    then have "ss \<noteq> []" using assms(5) by auto
    then show "visits lo (\<lambda>node. walk_path f node nds) t (select ss t)"
      by (rule walk_path_visits [OF assms(5) _ assms(6-8)]) (use assms(9) f in simp)
  next
    assume "nds = []"
    then show "select ss t = [t]" using assms(5) by simp
  qed
  have "same_from lo w w3" using w3(2,3) by (simp add: same_from_def)
  then have r3: "rep (room (length (select ss t))) w3 lo p t" by (rule rep_frame(1) [OF assms(1)])
  have st: "statics_ok w3"
    using assms(2) w3(2,3) by (simp add: statics_ok_def pcl_json_null_def pcl_json_true_def pcl_json_false_def)
  have "outcome lo (select ss t) (pcl_array_new 8 (Some ArrayCleanup)) w3
      (add_or_walk (walk_path f) (Some p) nds (pcl_array_new 8 (Some ArrayCleanup)) w3)"
    using assms(3,10) w3(4) by (intro runsD [OF visitsD [OF v] r3 st]) (simp_all add: array_new_wf INT_MAX_def)
  then obtain ps arr w' where o: "walk_path fuel (Some p) (PathRoot # nds) (pcl_array_new 8 (Some ArrayCleanup)) w3
      = Some (arr, w')" "arr_wf arr" "arr_seq arr = ps" "refs_added ps w3 w'" "\<not> frozen w'"
    "rep_list (\<lambda>_. True) w' lo ps (select ss t)"
    by (auto simp: outcome_def f walk_body_def)
  have "referenced ps w w'" using o(4) w3(2) by (simp add: referenced_def refs_added_def)
  then show ?thesis using w3(1) o by auto
qed

lemma json_query_ok:
  fixes t :: "'r jtree"
  assumes "rep (room (length (select ss t))) w lo p t" "statics_ok w" "\<not> frozen w" "0 < jl_depth L"
    "segs_ok ss" "ss \<noteq> []" "list_all stride_fits ss" "narrow t"
    "tree_depth t + length ss + 1 < fuel" "length (select ss t) \<le> 2 ^ 30"
  shows "\<exists>arr w'. pcl_json_query fuel L (Some p) (Some (path_text ss @ 0 # r)) w = Some (Some arr, w')
    \<and> arr_wf arr \<and> rep_list (\<lambda>_. True) w' lo (arr_seq arr) (select ss t)
    \<and> referenced (arr_seq arr) w w' \<and> \<not> frozen w'"
proof -
  obtain nds e where nds: "list_all2 denotes ss nds"
    "pcl_json_compile (jl_junk L) (Some (path_text ss @ 0 # r)) w = Some (Some (PathRoot # nds), w\<lparr>c_errno := e\<rparr>)"
    using compile_text [OF assms(5,6,3), of "jl_junk L" r] by (auto simp: compiles_def)
  define w1 where "w1 = w\<lparr>c_errno := e\<rparr>"
  have w1: "rep (room (length (select ss t))) w1 lo p t" "statics_ok w1" "\<not> frozen w1"
  proof -
    have "same_from lo w w1" by (simp add: w1_def same_from_def)
    then show "rep (room (length (select ss t))) w1 lo p t" by (rule rep_frame(1) [OF assms(1)])
  qed (use assms(2,3) in \<open>simp_all add: w1_def statics_ok_def\<close>)
  obtain arr w' where m: "pcl_json_match fuel L (Some p) (PathRoot # nds) w1 = Some (arr, w')"
    "arr_wf arr" "rep_list (\<lambda>_. True) w' lo (arr_seq arr) (select ss t)" "referenced (arr_seq arr) w1 w'"
    "\<not> frozen w'"
    using json_match_ok [OF w1 assms(4) nds(1) assms(5,7-10)] by blast
  have "list_all node_ok (PathRoot # nds)"
  proof -
    have "node_ok nd" if "denotes s nd" for s nd
      using that by (cases s) (auto simp: strlen_nul)
    then have "list_all node_ok nds"
      using nds(1) by (metis list_all2_conv_all_nth list_all_length)
    then show ?thesis by simp
  qed
  then have "pcl_json_freepath (PathRoot # nds) w' = Some w'" by (rule freepath_ok)
  then have "pcl_json_query fuel L (Some p) (Some (path_text ss @ 0 # r)) w = Some (Some arr, w')"
    using nds(2) m(1) by (simp add: pcl_json_query_def w1_def [symmetric])
  then show ?thesis using m by (auto simp: referenced_def w1_def)
qed

end
