(* ===== verification/PclJsonOk.thy ===== *)
theory PclJsonOk imports PclJsonRoundtrip begin

text \<open>
  What the JSON codec promises, and where it does not keep it.
\<close>

section \<open>A sample\<close>

text \<open>An instance of the parameters, with the natural numbers for the floating-point type, and a store
  with the document \<open>[5, true, {"k": "a/b"}]\<close>.\<close>

definition sample_lib :: "byte \<Rightarrow> nat json_lib" where
  "sample_lib junk = \<lparr>jl_farmhash = (\<lambda>_ _ _. 0), jl_junk = junk, jl_depth = 8,
     jl_strtod = (\<lambda>_. Some (0, 0, 0)), jl_zero = (\<lambda>r. r = 0), jl_isnan = (\<lambda>_. False),
     jl_isinf = (\<lambda>_. False), jl_invreal = 0, jl_format = (\<lambda>_. [48, 46, 48])\<rparr>"

definition sample_tree :: "nat jtree" where
  "sample_tree = TArr [TInt 5, TBool True, TStr (str_bytes ''a/b'')]"

definition sample_world :: "nat jworld" where
  "sample_world =
     (let w0 = json_init;
          w1 = snd (json_alloc \<lparr>js_nrefs = 1, js_val = JInt 5\<rparr> w0);
          w2 = snd (json_alloc \<lparr>js_nrefs = 1, js_val = JStr (str_bytes ''a/b'' @ [0])\<rparr> w1);
          a = (pcl_array_new 3 (Some ArrayCleanup))\<lparr>arr_count := 3,
                arr_elements := [Some 3, Some pcl_json_true, Some 4]\<rparr>
      in snd (json_alloc \<lparr>js_nrefs = 1, js_val = JArr (Some a)\<rparr> w2))"

lemma sample_statics: "statics_ok sample_world"
  by (simp add: sample_world_def statics_ok_def json_init_def json_alloc_def Let_def
      pcl_json_null_def pcl_json_true_def pcl_json_false_def pcl_err.defs)

lemma sample_rep: "rep (\<lambda>n. n = 1) sample_world 0 5 sample_tree"
  by (simp add: sample_world_def sample_tree_def json_init_def json_alloc_def Let_def node_at_def
      pcl_json_true_def pcl_json_bool_def arr_wf_def arr_seq_def pcl_array_new_def INT_MAX_def
      pcl_err.defs numeral_eq_Suc)

lemma sample_fits: "fits sample_tree"
proof -
  have "utf8_text (str_bytes ''a/b'')" by (simp add: check_iff [symmetric])
  then show ?thesis
    by (simp add: sample_tree_def str_ok_def LLONG_MIN_def LLONG_MAX_def needs_u_def)
qed

section \<open>Encoding and decoding\<close>

lemma fits_tree_ok:
  shows "fits t \<Longrightarrow> tree_ok L t"
    and "fits_list ts \<Longrightarrow> list_ok L ts"
    and "fits_pairs kvs \<Longrightarrow> pairs_ok L kvs"
  by (induction t and ts and kvs rule: fits_fits_list_fits_pairs.induct) (simp_all add: str_ok_def)

lemma depth_need:
  fixes t :: "'r jtree" and ts :: "'r jtree list" and kvs :: "(string \<times> 'r jtree) list"
  shows "fits t \<Longrightarrow> tree_depth t < need t"
    and "fits_list ts \<Longrightarrow> list_depth ts \<le> need_list ts"
    and "fits_pairs kvs \<Longrightarrow> pairs_depth kvs \<le> need_pairs kvs"
  by (induction t and ts and kvs rule: fits_fits_list_fits_pairs.induct) auto

text \<open>C2: \<open>pcl_json_encode\<close> (json_encode.c) returns the text of the tree that the value represents,
  terminated, and changes no state: every scalar, escape, separator, line break and tab of the
  reference text, in both formats, whatever the shape of the tree.\<close>

theorem json_encode_text:
  assumes "rep R w lo p t" "statics_ok w" "tree_ok L t" "tree_depth t < fuel"
    "length (json_text L fmt 0 t) \<le> 2 ^ 28"
  shows "\<exists>r. pcl_json_encode fuel L (Some p) fmt w = Some (Blk (json_text L fmt 0 t @ 0 # r), w)"
  by (rule json_encode_ok [OF assms])

theorem json_encode_text_witness:
  "\<exists>r. pcl_json_encode 6 (sample_lib 7) (Some 5) True sample_world
     = Some (Blk (json_text (sample_lib 7) True 0 sample_tree @ 0 # r), sample_world)"
  by (rule json_encode_text [OF sample_rep sample_statics])
    (use sample_fits fits_tree_ok in \<open>auto simp: sample_tree_def string_text_def char_text_def
      string_escape_def indent_def line_break_def int_dec_def nat_dec.simps dec_digit_def\<close>)

text \<open>C1: \<open>pcl_json_decode\<close> undoes \<open>pcl_json_encode\<close>: decoding the text of a value, with the
  length of the text or with the length 0 (then the text ends at its NUL), builds new nodes that
  represent the same tree, each with one reference, reads exactly the text, and leaves every node
  that was there as it was. It holds in both formats for every tree of arrays, objects with distinct
  keys, literals, integers above \<open>LLONG_MIN\<close> and strings of UTF-8 whose code points are below
  U+40000 (the decoder refuses the valid ones above) and whose last character needs no \<open>\u\<close> escape;
  the tree itself is not a bare integer, and its text has at most \<open>2 ^ 28\<close> bytes.\<close>

theorem json_roundtrip:
  assumes "rep R w lo p t" "statics_ok w" "fits t" "\<And>i. t \<noteq> TInt i" "need t \<le> fuel"
    "length (json_text L fmt 0 t) \<le> 2 ^ 28"
    "len = 0 \<or> len = length (json_text L fmt 0 t)"
  shows "\<exists>r p' w'. pcl_json_encode fuel L (Some p) fmt w = Some (Blk (json_text L fmt 0 t @ 0 # r), w)
    \<and> pcl_json_decode fuel L (Some (json_text L fmt 0 t @ 0 # r)) len w
        = Some (Some p', Some (int (length (json_text L fmt 0 t))), w')
    \<and> built w w' p' t"
proof -
  have "tree_depth t < fuel" using depth_need(1) [OF assms(3)] assms(5) by simp
  from json_encode_ok [OF assms(1,2) fits_tree_ok(1) [OF assms(3)] this assms(6)] obtain r where
    "pcl_json_encode fuel L (Some p) fmt w = Some (Blk (json_text L fmt 0 t @ 0 # r), w)" by blast
  then show ?thesis
    using json_decode_ok [OF assms(3,4,2,5), where len = len and r = r and L = L and fmt = fmt] assms(7)
    by blast
qed

theorem json_roundtrip_witness:
  "\<exists>r p' w'. pcl_json_encode 6 (sample_lib 7) (Some 5) True sample_world
        = Some (Blk (json_text (sample_lib 7) True 0 sample_tree @ 0 # r), sample_world)
    \<and> pcl_json_decode 6 (sample_lib 7) (Some (json_text (sample_lib 7) True 0 sample_tree @ 0 # r))
        (length (json_text (sample_lib 7) True 0 sample_tree)) sample_world
        = Some (Some p', Some (int (length (json_text (sample_lib 7) True 0 sample_tree))), w')
    \<and> built sample_world w' p' sample_tree"
  by (rule json_roundtrip [OF sample_rep sample_statics sample_fits _ _ _ disjI2 [OF refl]])
    (auto simp: sample_tree_def string_text_def char_text_def
      string_escape_def indent_def line_break_def int_dec_def nat_dec.simps dec_digit_def)

section \<open>Numbers and the end of the text\<close>

lemma num_scan_to_end:
  assumes "\<forall>c \<in> set ds. base_digit 10 c \<noteq> None"
  shows "remains tx E st (xs @ ds) \<Longrightarrow>
    num_scan tx (jp_end st) (jp_next st + int (length xs)) False False False
      = Some (Inr (jp_end st, False, False))"
  using assms
proof (induction ds arbitrary: xs)
  case Nil
  then show ?case by (subst num_scan.simps) (simp add: remains_def)
next
  case (Cons d ds)
  then have rd: "rd tx (jp_next st + int (length xs)) = Some d"
    "jp_next st + int (length xs) < jp_end st"
    using remains_rd [of tx E st xs d ds] by simp_all
  have d: "\<not> (d < 48 \<or> d > 57)" "d \<notin> {43, 45, 46, 69, 101}"
    using Cons.prems(2) base10_digit [of d] by auto
  have "num_scan tx (jp_end st) (jp_next st + int (length (xs @ [d]))) False False False
      = Some (Inr (jp_end st, False, False))"
    by (rule Cons.IH) (use Cons.prems in auto)
  then show ?case using rd d by (subst num_scan.simps) (simp add: ac_simps)
qed

text \<open>A number that ends with the text is refused, so that the text \<open>pcl_json_encode\<close> writes for an
  integer cannot be decoded: \<open>ipcl_json_parse_number\<close> (json_parse_number.c) reports \<open>PCL_ESYNTAX\<close> when
  its scan reaches the end.\<close>

theorem json_decode_bare_int:
  assumes "\<not> frozen w" "0 < fuel" "len = 0 \<or> len = length (int_dec i)"
  shows "\<exists>w'. pcl_json_decode fuel L (Some (json_text L fmt 0 (TInt i) @ 0 # r)) len w = Some (None, None, w')
    \<and> err w' = PCL_ESYNTAX"
proof -
  define bs where "bs = str_bytes (int_dec i)"
  define tx where "tx = bs @ 0 # r"
  define sg where "sg = (if i < 0 then [45 :: byte] else [])"
  define ds where "ds = str_bytes (nat_dec (nat \<bar>i\<bar>))"
  have sd: "bs = sg @ ds" by (simp add: bs_def sg_def ds_def int_dec_def)
  have dd: "\<forall>c \<in> set ds. base_digit 10 c \<noteq> None" unfolding ds_def using nat_dec_digits by blast
  have "ds \<noteq> []" using nat_dec_nonempty by (simp add: ds_def str_bytes_def)
  then obtain d ds' where ds: "ds = d # ds'" by (cases ds) auto
  define c where "c = (if i < 0 then 45 else d)"
  obtain cs where bs: "bs = c # cs" by (cases "i < 0") (auto simp: sd sg_def c_def ds)
  have cd: "c = 45 \<or> base_digit 10 c \<noteq> None" using dd ds by (auto simp: c_def)
  then have nc: "\<not> c_isspace c" using digit_not_special(1) by (auto simp: c_isspace_def)
  have ne: "c \<noteq> 123" "c \<noteq> 91" "c \<noteq> 34" "c \<noteq> 116" "c \<noteq> 102" "c \<noteq> 110" "c \<noteq> 0xEF" "c = 45 \<or> c_isdigit c"
    using cd unfolding base10_digit by (auto simp: c_isdigit_def)
  define st where "st = start_state bs"
  have r0: "remains tx (int (length bs)) st ([] @ c # cs)"
    using start_remains [of bs r] by (simp add: st_def tx_def bs)
  then have rd: "rd tx (jp_next st) = Some c" "jp_next st < jp_end st"
    using remains_hd [of tx "int (length bs)" st c cs] by simp_all
  have sk: "ipcl_json_skipws tx st w = Some (True, st, w)"
    using rd nc by (simp add: ipcl_json_skipws_def skipws_loop.simps)
  have ctx: "st\<lparr>jp_ctx := jp_next st\<rparr> = st" by (simp add: st_def start_state_def)
  have "d \<noteq> 45" using dd digit_not_special ds by auto
  then have sg: "(if c = 45 then 1 else 0) = int (length sg)" by (simp add: c_def sg_def)
  have "remains tx (int (length bs)) st (sg @ ds)" using r0 bs sd by simp
  note scan = num_scan_to_end [OF dd this]
  define w1 where "w1 = raised (''json_parse_number.c'', ''ipcl_json_parse_number'', 84) PCL_ESYNTAX 0
      (Some ''unexpected end of input parsing number'') w"
  have num: "ipcl_json_parse_number L tx st w = Some (None, st, w1)"
    using rd(1) scan by (simp add: ipcl_json_parse_number_def sg json_throw_def
        macros_thawed(4) [OF assms(1)] w1_def)
  obtain n where n: "fuel = Suc n" using assms(2) by (cases fuel) auto
  have val: "ipcl_json_parse_value fuel L tx st w = Some (None, st, w1)"
    using num sk rd(1) ne by (simp add: ipcl_json_parse_value_def n parse_value_body_def Let_def ctx)
  have z: "0 \<notin> set bs" unfolding bs_def by (rule int_dec_nz)
  have ln: "len = 0 \<or> len = length bs" using assms(3) by (simp add: bs_def)
  have "int (min (length bs) 20) \<le> 1 + (int (length bs) + int (length r))" by (simp add: min_def)
  then obtain cx where cx: "mem_read tx (jp_ctx st) (if jp_ctx st \<le> jp_end st
      then min (nat (jp_end st - jp_ctx st)) 20 else 20) = Some cx"
    by (simp add: st_def start_state_def mem_read_def tx_def)
  have fr: "\<not> frozen w1" "err w1 = PCL_ESYNTAX" using assms(1) by (simp_all add: w1_def)
  have "\<exists>w'. pcl_json_decode fuel L (Some tx) len w = Some (None, None, w') \<and> err w' = PCL_ESYNTAX"
    using decode_run [OF bs ne(7) z ln, of fuel L r w] val cx fr
    by (simp add: tx_def [symmetric] st_def [symmetric] R_TRCMSG_def TRCMSG_thawed)
  then show ?thesis by (simp add: tx_def bs_def)
qed

theorem json_decode_bare_int_witness:
  "\<exists>w'. pcl_json_decode 1 (sample_lib 7) (Some (json_text (sample_lib 7) False 0 (TInt 42) @ 0 # [])) 0 json_init
      = Some (None, None, w') \<and> err w' = PCL_ESYNTAX"
  by (rule json_decode_bare_int) (simp_all add: json_init_def err_init_def pcl_err.defs)

section \<open>A string that ends in an escape\<close>

lemma put_code_fresh:
  assumes "c < 0x20"
  shows "buf_put_code L (ucast c) (fresh_buf (jl_junk L)) w
    = Some (1, (fresh_buf (jl_junk L))\<lparr>bf_data := Blk (c # replicate 31 (jl_junk L)), bf_pos := 1,
        bf_len := 1\<rparr>, w)"
proof -
  have g: "pcl_buf_grow (jl_junk L) (Some (fresh_buf (jl_junk L))) 4 w = Some (Some (fresh_buf (jl_junk L)), w)"
    by (simp add: pcl_buf_grow_def fresh_buf_def to_int_def cint_def INT_MIN_def INT_MAX_def)
  have "pcl_utf8_encode (ucast c) (Some (0 # replicate 31 (jl_junk L))) w
      = Some (1, Some (c # replicate 31 (jl_junk L)), w)"
    using encode_reference [OF small_code(2) [OF assms], of "0 # replicate 31 (jl_junk L)" w]
      small_code(3) [OF assms] by simp
  then show ?thesis
    by (simp add: buf_put_code_def g) (simp add: fresh_buf_def mem_read_def cint_def INT_MIN_def INT_MAX_def)
qed

text \<open>\<open>utf16_to_utf8\<close> (json_parse_string.c) stores a code point without a NUL behind it. A string
  that ends with a \<open>\u\<close> escape is therefore not terminated, and \<open>pcl_json_str\<close> runs off the block when
  the fresh memory holds no byte 0: so does decoding what the encoder writes for a string of one
  control character.\<close>

theorem json_decode_escape_end:
  assumes "needs_u c" "c \<noteq> 0" "jl_junk L \<noteq> 0" "0 < fuel"
  shows "pcl_json_decode fuel L (Some (json_text L fmt 0 (TStr [c]) @ 0 # r)) 0 w = None"
proof -
  define bs where "bs = string_text [c]"
  define tx where "tx = bs @ 0 # r"
  have small: "c < 0x20" using assms(1) by (simp add: needs_u_def)
  have bs: "bs = 34 # 92 # 117 # u_digits c @ [34]"
    by (simp add: bs_def string_text_def char_text_u [OF assms(1)])
  define E st where "E = int (length bs)" and "st = start_state bs"
  have r0: "remains tx E st (34 # 92 # 117 # u_digits c @ [34])"
    using start_remains [of bs r] by (simp add: st_def tx_def E_def bs)
  have ctx: "st\<lparr>jp_ctx := jp_next st\<rparr> = st" by (simp add: st_def start_state_def)
  have sk: "ipcl_json_skipws tx st w = Some (True, st, w)"
    using r0 by (simp add: ipcl_json_skipws_def skipws_loop.simps)
  define st1 where "st1 = (advance 1 st)\<lparr>jp_ctx := jp_next st\<rparr>"
  have r1: "remains tx E st1 (92 # 117 # u_digits c @ [34])" using r0 by (simp add: st1_def)
  then have r2: "remains tx E (advance 2 st1) (u_digits c @ [34])" by (rule remains_next2)
  define b where "b = (fresh_buf (jl_junk L))\<lparr>bf_data := Blk (c # replicate 31 (jl_junk L)), bf_pos := 1,
        bf_len := 1\<rparr>"
  note u = utf16_put [OF r2 small put_code_fresh [OF small, of L "w\<lparr>c_errno := 0\<rparr>", folded b_def]]
  have r3: "remains tx E (advance 4 (advance 2 st1)) ([] @ 34 # [])"
    using hex2num_ok(2) [OF r2 small] by simp
  then have "str_loop L tx (advance 4 (advance 2 st1)) b (w\<lparr>c_errno := 0\<rparr>)
      = Some (True, advance 4 (advance 2 st1), b, w\<lparr>c_errno := 0\<rparr>)"
    by (simp add: str_loop.simps [of L tx "advance 4 (advance 2 st1)"])
  then have loop: "str_loop L tx st1 (fresh_buf (jl_junk L)) w
      = Some (True, advance 4 (advance 2 st1), b, w\<lparr>c_errno := 0\<rparr>)"
    using u r1 by (simp add: str_loop.simps [of L tx st1] simple_escape_def remains_hd2)
  have "c \<le> 0x7F" using small by (simp add: word_less_nat_alt word_le_nat_alt)
  then have chk: "pcl_utf8_check (c # replicate 31 (jl_junk L)) 1 v = Some (0, v)" for v :: "'a jworld"
    by (simp add: pcl_utf8_check_def mem_read_def)
  have str: "ipcl_json_parse_string L tx st w
      = Some (Some (c # replicate 31 (jl_junk L)), advance 1 (advance 4 (advance 2 st1)), w\<lparr>c_errno := 0\<rparr>)"
    using r0 r3 loop chk
    by (simp add: ipcl_json_parse_string_def fresh_buf_init st1_def [symmetric] b_def fresh_buf_def)
  have "c_strlen (replicate n (jl_junk L)) = None" for n by (induction n) (simp_all add: assms(3))
  then have off: "c_strlen (c # replicate 31 (jl_junk L)) = None" using assms(2) by simp
  obtain n where n: "fuel = Suc n" using assms(4) by (cases fuel) auto
  have val: "ipcl_json_parse_value fuel L tx st w = None"
    using str sk r0 off
    by (simp add: ipcl_json_parse_value_def n parse_value_body_def Let_def ctx pcl_json_str_def)
  have z: "0 \<notin> set bs" unfolding bs_def by (rule string_text_nz) (use assms(2) in simp)
  have "pcl_json_decode fuel L (Some tx) 0 w = None"
    using decode_run [OF bs _ z, of 0 fuel L r w] val by (simp add: tx_def st_def)
  then show ?thesis by (simp add: tx_def bs_def)
qed

theorem json_decode_escape_end_witness:
  "pcl_json_decode 1 (sample_lib 7) (Some (json_text (sample_lib 7) False 0 (TStr [1]) @ 0 # [])) 0 json_init = None"
  by (rule json_decode_escape_end) (simp_all add: needs_u_def string_escape_def sample_lib_def)

end
