(* ===== verification/PclJsonQueryOk.thy ===== *)
theory PclJsonQueryOk imports PclJsonMatchOk PclJsonOk begin

text \<open>
  What JSON path queries promise, and where the code falls short of its documentation.
\<close>

section \<open>Compiling any string\<close>

text \<open>C4: \<open>pcl_json_compile\<close> (json_compile.c) returns for every terminated string below \<open>2 ^ 30\<close>
  characters: it never reads behind the NUL, its loops end, and it answers either \<open>NULL\<close> with the
  error set or a well-formed path: one root, terminated member names, index vectors of \<open>int\<close>s and a
  node behind every recursive descent, which the matcher dereferences without a check.\<close>

theorem json_compile_total:
  assumes "c_strlen path = Some n" "n < 2 ^ 30" "\<not> frozen w"
  shows "\<exists>r w'. pcl_json_compile junk (Some path) w = Some (r, w') \<and> \<not> frozen w'
    \<and> (case r of None \<Rightarrow> err w' \<noteq> PCL_EOKAY | Some ns \<Rightarrow> err w' = err w \<and> path_ok ns)"
  using compile_total [OF assms, of junk] by (auto simp: step_ok_def split: option.splits prod.splits)

theorem json_compile_total_witness:
  "\<exists>r w'. pcl_json_compile 7 (Some (str_bytes ''$.a[1,2]..b[:3'' @ [0])) err_init = Some (r, w') \<and> \<not> frozen w'
    \<and> (case r of None \<Rightarrow> err w' \<noteq> PCL_EOKAY | Some ns \<Rightarrow> err w' = err err_init \<and> path_ok ns)"
  by (rule json_compile_total [where n = 14]) (simp_all add: err_init_def)

section \<open>Queries\<close>

text \<open>C3: \<open>pcl_json_query\<close> (json_query.c) on a value that represents a tree, with the text of a path,
  answers an array of exactly the nodes that represent the subtrees the path selects, in order and
  with repetitions. Every one of them got one more reference per occurrence, no other node changed.
  It holds for names in both notations, wildcards, recursive descent, indices, lists of indices and
  slices with a positive step, and composes the compiler, the matcher, the hash table, the pointer
  table and the vector.\<close>

theorem json_query_selects:
  fixes t :: "'r jtree"
  assumes "rep (room (length (select ss t))) w lo p t" "statics_ok w" "\<not> frozen w" "0 < jl_depth L"
    "segs_ok ss" "ss \<noteq> []" "list_all stride_fits ss" "narrow t"
    "tree_depth t + length ss + 1 < fuel" "length (select ss t) \<le> 2 ^ 30"
  shows "\<exists>arr w'. pcl_json_query fuel L (Some p) (Some (path_text ss @ 0 # r)) w = Some (Some arr, w')
    \<and> arr_wf arr \<and> rep_list (\<lambda>_. True) w' lo (arr_seq arr) (select ss t)
    \<and> referenced (arr_seq arr) w w' \<and> \<not> frozen w'"
  by (rule json_query_ok [OF assms])

theorem json_query_selects_witness:
  "\<exists>arr w'. pcl_json_query 8 (sample_lib 7) (Some 5) (Some (path_text [Elems [2, 0]] @ 0 # [])) sample_world
      = Some (Some arr, w')
    \<and> arr_wf arr \<and> rep_list (\<lambda>_. True) w' 0 (arr_seq arr) [TStr (str_bytes ''a/b''), TInt 5]
    \<and> referenced (arr_seq arr) sample_world w' \<and> \<not> frozen w'"
proof -
  have s: "select [Elems [2, 0]] sample_tree = [TStr (str_bytes ''a/b''), TInt 5]"
    by (simp add: sample_tree_def nth_tree_def)
  have "rep (room (length (select [Elems [2, 0]] sample_tree))) sample_world 0 5 sample_tree"
    unfolding s by (rule rep_weaken(1) [OF _ sample_rep]) (simp_all add: room_def INT_MAX_def)
  moreover have "\<not> frozen sample_world"
    by (simp add: sample_world_def json_init_def json_alloc_def Let_def err_init_def pcl_err.defs)
  ultimately show ?thesis
    using json_query_selects [of "[Elems [2, 0]]" sample_tree sample_world 0 5 "sample_lib 7" 8 "[]"] sample_statics
    unfolding s by (simp add: sample_lib_def sample_tree_def int_ok_def INT_MIN_def INT_MAX_def)
qed

section \<open>Slices with a step of 0\<close>

text \<open>The loop of a slice whose step is 0 does not end.\<close>

lemma slice_returns: "walk_slice visit c i e res w = Some r \<Longrightarrow> \<not> (c = 0 \<and> i < e)"
  by (erule walk_slice.raw_induct [where P = "\<lambda>visit c i e res w r. \<not> (c = 0 \<and> i < e)", rotated])
    (auto simp: bind_simps split: if_splits dest!: cint_SomeD)

lemma slice_forever: "i < e \<Longrightarrow> walk_slice visit 0 i e res w = None"
  using slice_returns [of visit 0 i e res w] by (cases "walk_slice visit 0 i e res w") auto

text \<open>A query with a slice whose step is 0 never returns on an array that has an element at its
  start: \<open>walk_path\<close> (json_match.c) adds the step to the index and compares, for ever, appending the
  element each time. The compiler accepts such a path.\<close>

theorem json_query_step_zero:
  fixes ts :: "'r jtree list"
  assumes "rep R w lo p (TArr ts)" "statics_ok w" "\<not> frozen w" "0 < jl_depth L"
    "0 \<le> a" "a < int (length ts)" "int (length ts) \<le> INT_MAX"
  shows "pcl_json_query fuel L (Some p) (Some (path_text [Slice a 0 0] @ 0 # r)) w = None"
proof -
  have "segs_ok [Slice a 0 0]" using assms(5-7) by (simp add: int_ok_def INT_MIN_def INT_MAX_def)
  from compile_text [OF this _ assms(3), of "jl_junk L" r] obtain c where c:
    "pcl_json_compile (jl_junk L) (Some (path_text [Slice a 0 0] @ 0 # r)) w
       = Some (Some [PathRoot, PathElementSlice a 0 0], w\<lparr>c_errno := c\<rparr>)"
    by (auto simp: compiles_def list_all2_Cons1)
  define w1 where "w1 = w\<lparr>c_errno := c\<rparr>"
  have "statics_ok w1" using assms(2) by (simp add: w1_def statics_ok_def)
  then obtain w3 where w3: "pcl_json_match fuel L (Some p) [PathRoot, PathElementSlice a 0 0] w1
      = walk_path fuel (Some p) [PathRoot, PathElementSlice a 0 0] (pcl_array_new 8 (Some ArrayCleanup)) w3"
    "\<forall>q < jw_next w1. jw_mem w3 q = jw_mem w1 q" "jw_next w3 = jw_next w1 + 1" "frozen w3 = frozen w1"
    by (rule match_start [OF _ assms(4), of w1 fuel "Some p" "[PathRoot, PathElementSlice a 0 0]"])
  have "same_from lo w w3" using w3(2,3) by (simp add: same_from_def w1_def)
  then have "rep R w3 lo p (TArr ts)" by (rule rep_frame(1) [OF assms(1)])
  then obtain ar where ar: "node_val (Some p) w3 = Some (JArr (Some ar))" "arr_wf ar" "rep_list R w3 lo (arr_seq ar) ts"
    by (auto simp: node_at_def node_val_def json_load_def)
  have "arr_count ar = int (length ts)" using arr_seq_length [OF ar(2)] rep_list_length [OF ar(3)] by simp
  then have "walk_element_slice walk a 0 0 (Some p) [] res w3 = None" for walk res
    using ar(1) slice_forever [of a "int (length ts)"] assms(5,6)
    by (simp add: walk_element_slice_def slice_from_def slice_stop_def)
  then have "walk_path fuel (Some p) [PathRoot, PathElementSlice a 0 0] res w3 = None" for res
    by (cases fuel; cases "fuel - 1") (simp_all add: walk_body_def add_or_walk_def)
  then show ?thesis using c w3(1) by (simp add: pcl_json_query_def w1_def)
qed

theorem json_query_step_zero_witness:
  "pcl_json_query 8 (sample_lib 7) (Some 5) (Some (path_text [Slice 1 0 0] @ 0 # [])) sample_world = None"
proof -
  have "\<not> frozen sample_world"
    by (simp add: sample_world_def json_init_def json_alloc_def Let_def err_init_def pcl_err.defs)
  then show ?thesis
    using json_query_step_zero [OF sample_rep [unfolded sample_tree_def] sample_statics, of "sample_lib 7" 1 8 "[]"]
    by (simp add: sample_lib_def INT_MAX_def)
qed

section \<open>Other divergences\<close>

text \<open>An empty quoted name is duplicated with length 0, which \<open>pcl_strndup\<close> reads as the rest of the
  path: the member looked for is \<open>']\<close>, and whatever follows.\<close>

lemma empty_member:
  "\<exists>w'. pcl_json_compile junk (Some (str_bytes [CHR ''$'', CHR ''['', CHR 0x27, CHR 0x27, CHR '']''] @ [0])) w
     = Some (Some [PathRoot, PathMember [39, 93, 0]], w')"
  by (simp add: pcl_json_compile_def c_isspace_def rd_def compile_loop.simps compile_node_def
      compile_bracket_def compile_quote_def c_strstr_def pcl_strndup_def mem_read_def)

text \<open>Recursive descent stops at a member that it finds: the second \<open>b\<close> of \<open>{"b": {"b": 1}}\<close> is not
  selected.\<close>

lemma descent_stops:
  "select [Descend, Name ''b''] (TObj [(''b'', TObj [(''b'', TInt 1)])]) = [TObj [(''b'', TInt 1)]]"
  by (simp add: next_name_def)

text \<open>In front of a wildcard it selects nothing, and a wildcard takes a scalar as it is and ends the
  path there.\<close>

lemma descent_wildcard: "select (Descend # AnyMember # ss) t = []"
proof -
  have "descend (\<lambda>_. False) sel t = []" "descend_list (\<lambda>_. False) sel ts = []"
    "descend_pairs (\<lambda>_. False) sel own kvs = []"
    for sel :: "'a jtree \<Rightarrow> 'a jtree list" and t ts own kvs
    by (induction "\<lambda>_ :: string. False" sel t and "\<lambda>_ :: string. False" sel ts
        and "\<lambda>_ :: string. False" sel own kvs rule: descend_descend_list_descend_pairs.induct) auto
  then show ?thesis by (simp add: next_name_def [abs_def])
qed

lemma wildcard_scalar: "select (AnyMember # Name k # ss) (TInt i) = [TInt i]"
  by simp

end
