(* ===== verification/PclGetopt.thy ===== *)
theory PclGetopt imports PclBytes PclError PclStrint begin

text \<open>
  The option parser (\<open>include/pcl/init.h\<close>, \<open>src/init/_init.h\<close>, \<open>initopt.c\<close>, \<open>getopt.c\<close>) of the
  \<open>char\<close> build: a state machine over \<open>argv\<close>. The state holds the index of the current argument
  and, inside of a group of short options, a pointer to the next letter. Pointers into \<open>argv\<close> are
  pairs of an argument's index and an offset; a pointer to an option is its index.

  The equals sign that the parser overwrites for a comparison is put back at once, so the
  arguments themselves do not change.
\<close>

section \<open>State\<close>

datatype pcl_optpolicy = PclNoArg | PclReqArg | PclOptArg

record pcl_option =
  po_name :: "byte list option"
  po_policy :: pcl_optpolicy
  po_val :: int

type_synonym argptr = "int \<times> nat"

record pcl_optstate =
  os_argidx :: int
  os_next_optstr :: "argptr option"
  os_argc :: int
  os_argv :: "byte list list"
  os_optstr :: "byte list option"
  os_options :: "pcl_option list option"
  os_num_options :: int

definition pcl_initopt ::
  "int \<Rightarrow> byte list list option \<Rightarrow> byte list option \<Rightarrow> pcl_option list option \<Rightarrow> int \<Rightarrow>
     'z pcl_err_scheme \<Rightarrow> pcl_optstate option \<times> 'z pcl_err_scheme" where
  "pcl_initopt argc argvo optstr options num_options w =
     (case argvo of
        Some argv \<Rightarrow>
          if argc = 0 \<or> (optstr = None \<and> options = None)
          then R_SETERR None (''initopt.c'', ''pcl_initopt'', 40) PCL_EINVAL w
          else (Some \<lparr>os_argidx = 1, os_next_optstr = None, os_argc = argc, os_argv = argv,
                      os_optstr = optstr, os_options = options, os_num_options = num_options\<rparr>, w)
      | None \<Rightarrow> R_SETERR None (''initopt.c'', ''pcl_initopt'', 40) PCL_EINVAL w)"

section \<open>Strings\<close>

text \<open>The equality test \<open>!strcmp\<close> of the C library.\<close>

definition c_streq :: "byte list \<Rightarrow> byte list \<Rightarrow> bool option" where
  "c_streq a b = do { n \<leftarrow> c_strlen a; m \<leftarrow> c_strlen b; Some (take n a = take m b) }"

text \<open>The message \<open>opt[%d] what 'arg'\<close>.\<close>

definition opt_msg :: "int \<Rightarrow> string \<Rightarrow> string \<Rightarrow> string" where
  "opt_msg idx what arg = ''opt['' @ int_dec idx @ ''] '' @ what @ '' '' @ [CHR 0x27] @ arg @ [CHR 0x27]"

definition arg_string :: "byte list \<Rightarrow> string option" where
  "arg_string s = do { n \<leftarrow> c_strlen s; Some (map (\<lambda>b. char_of (unat b)) (take n s)) }"

text \<open>What a call answers: the option, what it stores through \<open>value\<close>, through \<open>longopt\<close> (\<open>None\<close>
  when it stores nothing), the state and the error.\<close>

type_synonym 'z opt_result =
  "(int \<times> argptr option \<times> nat option option \<times> pcl_optstate \<times> 'z pcl_err_scheme) option"

definition opt_fail :: "loc \<Rightarrow> string \<Rightarrow> pcl_optstate \<Rightarrow> 'z pcl_err_scheme \<Rightarrow> 'z opt_result" where
  "opt_fail l msg st w = (case SETERRMSG l PCL_EINVAL msg w of (r, w1) \<Rightarrow> Some (r, None, None, st, w1))"

text \<open>The test \<open>argidx + 1 < argc && *argv[argidx + 1] != '-'\<close> of an optional value.\<close>

definition value_follows :: "pcl_optstate \<Rightarrow> bool option" where
  "value_follows st =
     (if os_argidx st + 1 < os_argc st
      then do { a \<leftarrow> rd (os_argv st) (os_argidx st + 1); c \<leftarrow> rd a 0; Some (c \<noteq> 45) }
      else Some False)"

definition take_next :: "pcl_optstate \<Rightarrow> argptr option \<times> pcl_optstate" where
  "take_next st = (Some (os_argidx st + 1, 0), st\<lparr>os_argidx := os_argidx st + 1\<rparr>)"

section \<open>Long options\<close>

text \<open>The search for the name.\<close>

fun find_long :: "pcl_option list \<Rightarrow> byte list \<Rightarrow> nat \<Rightarrow> nat \<Rightarrow> nat option option" where
  "find_long opts arg i 0 = Some None"
| "find_long opts arg i (Suc n) =
     do { lopt \<leftarrow> rd opts (int i);
          name \<leftarrow> po_name lopt;
          same \<leftarrow> c_streq name arg;
          if same then Some (Some i) else find_long opts arg (Suc i) n }"

text \<open>The value of a long option, or the line of the error when a required one is missing. \<open>arg\<close> is
  the argument behind the dashes and \<open>eq\<close> the position of the equals sign in it.\<close>

definition long_value ::
  "pcl_optpolicy \<Rightarrow> byte list \<Rightarrow> nat option \<Rightarrow> pcl_optstate \<Rightarrow>
     (int + argptr option \<times> pcl_optstate) option" where
  "long_value policy arg eq st =
     (case policy of
        PclReqArg \<Rightarrow>
          (case eq of
             Some k \<Rightarrow> do { c \<leftarrow> rd arg (int k + 1);
                            Some (if c = 0 then Inl 100 else Inr (Some (os_argidx st, k + 3), st)) }
           | None \<Rightarrow> Some (if os_argidx st + 1 \<ge> os_argc st then Inl 107 else Inr (take_next st)))
      | PclOptArg \<Rightarrow>
          (case eq of
             Some k \<Rightarrow> do { c \<leftarrow> rd arg (int k + 1);
                            Some (Inr (if c \<noteq> 0 then Some (os_argidx st, k + 3) else None, st)) }
           | None \<Rightarrow> do { b \<leftarrow> value_follows st; Some (Inr (if b then take_next st else (None, st))) })
      | PclNoArg \<Rightarrow> Some (Inr (None, st)))"

definition getopt_long ::
  "bool \<Rightarrow> byte list \<Rightarrow> pcl_optstate \<Rightarrow> 'z pcl_err_scheme \<Rightarrow> 'z opt_result" where
  "getopt_long want arg0 st w =
     (let fail = (\<lambda>line what arg.
            do { s \<leftarrow> arg_string arg;
                 opt_fail (''getopt.c'', ''pcl_getopt'', line) (opt_msg (os_argidx st) what s) st w })
      in case os_options st of
           None \<Rightarrow> fail 66 ''missing options[] for long options'' arg0
         | Some opts \<Rightarrow>
             do { c \<leftarrow> rd arg0 3;
                  if c = 0 then fail 70 ''stray dash found'' arg0
                  else do { let arg = drop 2 arg0;
                            eq \<leftarrow> c_strchr 61 arg;
                            let cut = (case eq of Some k \<Rightarrow> arg[k := 0] | None \<Rightarrow> arg);
                            io \<leftarrow> find_long opts cut 0 (nat (os_num_options st));
                            case io of
                              None \<Rightarrow> fail 92 ''unknown option'' arg
                            | Some i \<Rightarrow>
                                do { lopt \<leftarrow> rd opts (int i);
                                     r \<leftarrow> long_value (po_policy lopt) arg eq st;
                                     case r of
                                       Inl line \<Rightarrow> fail line ''missing required argument'' arg
                                     | Inr (val, st1) \<Rightarrow>
                                         Some (po_val lopt, val, if want then Some (Some i) else None,
                                           st1\<lparr>os_argidx := os_argidx st1 + 1\<rparr>, w) } } })"

section \<open>Short options\<close>

definition policy_at :: "byte list \<Rightarrow> nat \<Rightarrow> pcl_optpolicy option" where
  "policy_at optstr k =
     do { c \<leftarrow> rd optstr (int k + 1);
          if c \<noteq> 58 then Some PclNoArg
          else do { d \<leftarrow> rd optstr (int k + 2); Some (if d = 58 then PclOptArg else PclReqArg) } }"

text \<open>The value of a short option and the offset of the next letter, or the line of the error. \<open>arg\<close>
  is the argument, \<open>off\<close> the offset behind the letter and \<open>eq\<close> the distance of the first equals sign
  from there.\<close>

definition short_value ::
  "pcl_optpolicy \<Rightarrow> byte list \<Rightarrow> nat \<Rightarrow> nat option \<Rightarrow> pcl_optstate \<Rightarrow>
     (int + argptr option \<times> nat \<times> pcl_optstate) option" where
  "short_value policy arg off eq st =
     (let attached = do { n \<leftarrow> c_strlen (drop off arg); Some (Inr (Some (os_argidx st, off), off + n, st)) };
          next = (case take_next st of (v, st1) \<Rightarrow> Inr (v, off, st1))
      in case policy of
           PclNoArg \<Rightarrow> Some (Inr (None, off, st))
         | PclReqArg \<Rightarrow>
             (case eq of
                Some k \<Rightarrow> do { d \<leftarrow> rd arg (int (off + k) + 1);
                               n \<leftarrow> c_strlen (drop (off + k) arg);
                               Some (if d = 0 then Inl 179
                                     else Inr (Some (os_argidx st, off + k + 1), off + k + n, st)) }
              | None \<Rightarrow> do { c \<leftarrow> rd arg (int off);
                            if c = 0
                            then Some (if os_argidx st + 1 \<ge> os_argc st then Inl 188 else next)
                            else attached })
         | PclOptArg \<Rightarrow>
             (case eq of
                Some k \<Rightarrow> do { d \<leftarrow> rd arg (int (off + k) + 1);
                               n \<leftarrow> c_strlen (drop (off + k) arg);
                               Some (Inr (if d \<noteq> 0 then Some (os_argidx st, off + k + 1) else None,
                                          off + k + n, st)) }
              | None \<Rightarrow> do { c \<leftarrow> rd arg (int off);
                            if c \<noteq> 0 then attached
                            else do { b \<leftarrow> value_follows st;
                                      Some (if b then next else Inr (None, off, st)) } }))"

text \<open>The last loop: the long option with the value of the letter, a signed \<open>char\<close>.\<close>

fun find_val :: "pcl_option list \<Rightarrow> int \<Rightarrow> nat \<Rightarrow> nat \<Rightarrow> nat option option" where
  "find_val opts v i 0 = Some None"
| "find_val opts v i (Suc n) =
     do { lopt \<leftarrow> rd opts (int i); if po_val lopt = v then Some (Some i) else find_val opts v (Suc i) n }"

definition map_long :: "bool \<Rightarrow> int \<Rightarrow> pcl_optstate \<Rightarrow> nat option option option" where
  "map_long want v st =
     (if \<not> want then Some None
      else case os_options st of
             None \<Rightarrow> Some (Some None)
           | Some opts \<Rightarrow> map_option Some (find_val opts v 0 (nat (os_num_options st))))"

definition getopt_short ::
  "bool \<Rightarrow> argptr \<Rightarrow> pcl_optstate \<Rightarrow> 'z pcl_err_scheme \<Rightarrow> 'z opt_result" where
  "getopt_short want ptr st0 w =
     do { arg \<leftarrow> rd (os_argv st0) (fst ptr);
          opt \<leftarrow> rd arg (int (snd ptr));
          let off = snd ptr + 1;
          let st = st0\<lparr>os_next_optstr := Some (fst ptr, off)\<rparr>;
          let fail = (\<lambda>line what. opt_fail (''getopt.c'', ''pcl_getopt'', line)
                        (opt_msg (os_argidx st) what [char_of (unat opt)]) st w);
          optstr \<leftarrow> os_optstr st;
          ko \<leftarrow> c_strchr opt optstr;
          case ko of
            None \<Rightarrow> fail 162 ''unknown option''
          | Some k \<Rightarrow>
              do { policy \<leftarrow> policy_at optstr k;
                   eq \<leftarrow> (if policy = PclNoArg then Some None else c_strchr 61 (drop off arg));
                   r \<leftarrow> short_value policy arg off eq st;
                   case r of
                     Inl line \<Rightarrow> fail line ''missing required argument''
                   | Inr (val, off1, st1) \<Rightarrow>
                       do { c \<leftarrow> rd arg (int off1);
                            let st2 = (if c = 0
                                       then st1\<lparr>os_argidx := os_argidx st1 + 1, os_next_optstr := None\<rparr>
                                       else st1\<lparr>os_next_optstr := Some (fst ptr, off1)\<rparr>);
                            lopt \<leftarrow> map_long want (sint opt) st2;
                            Some (sint opt, val, lopt, st2, w) } } }"

section \<open>The parser\<close>

definition pcl_getopt ::
  "bool \<Rightarrow> pcl_optstate option \<Rightarrow> 'z pcl_err_scheme \<Rightarrow>
     (int \<times> argptr option \<times> nat option option \<times> pcl_optstate option \<times> 'z pcl_err_scheme) option" where
  "pcl_getopt want sto w =
     (case sto of
        None \<Rightarrow> (case BADARG (''getopt.c'', ''pcl_getopt'', 41) w of (r, w1) \<Rightarrow> Some (r, None, None, None, w1))
      | Some st \<Rightarrow>
          do { (r, val, lopt, st1, w1) \<leftarrow>
                 (case os_next_optstr st of
                    Some ptr \<Rightarrow> getopt_short want ptr st w
                  | None \<Rightarrow>
                      if os_argc st = os_argidx st then Some (0, None, None, st, w)
                      else do { arg \<leftarrow> rd (os_argv st) (os_argidx st);
                                head \<leftarrow> mem_read arg 0 2;
                                let fail = (\<lambda>line what.
                                  do { s \<leftarrow> arg_string arg;
                                       opt_fail (''getopt.c'', ''pcl_getopt'', line)
                                         (opt_msg (os_argidx st) what s) st w });
                                if head = [45, 45] then getopt_long want arg st w
                                else if hd head \<noteq> 45 then fail 140 ''stray characters found''
                                else if os_optstr st = None then fail 147 ''missing optstr for short options''
                                else if head ! 1 = 0 then fail 151 ''stray dash found''
                                else getopt_short want (os_argidx st, 1) st w });
               Some (r, val, lopt, Some st1, w1) })"

end
