(* ===== verification/PclGetoptOk.thy ===== *)
theory PclGetoptOk imports PclGetopt begin

text \<open>
  What the option parser promises: a command line that is written from a list of options, in any of
  the documented forms, is parsed back into that list by calling \<open>pcl_getopt\<close> until it answers 0.
\<close>

section \<open>Command lines\<close>

text \<open>The letters of the option string with their policies, and its text.\<close>

fun colons :: "pcl_optpolicy \<Rightarrow> byte list" where
  "colons PclNoArg = []"
| "colons PclReqArg = [58]"
| "colons PclOptArg = [58, 58]"

definition letters_text :: "(byte \<times> pcl_optpolicy) list \<Rightarrow> byte list" where
  "letters_text ls = concat (map (\<lambda>(c, p). c # colons p) ls)"

definition letter_ok :: "byte \<Rightarrow> bool" where
  "letter_ok c \<longleftrightarrow> 0 < c \<and> c < 128 \<and> c \<noteq> 58"

text \<open>A group of short options ends with an option that may have a value, in one of the three
  forms, or without one.\<close>

datatype group_end =
    Done
  | Bare byte
  | Attached byte "byte list"
  | Equals byte "byte list"
  | Separate byte "byte list"

datatype item =
    LongBare nat
  | LongEquals nat "byte list"
  | LongSeparate nat "byte list"
  | Group "byte list" group_end

definition name_of :: "pcl_option list \<Rightarrow> nat \<Rightarrow> byte list" where
  "name_of opts i = (case po_name (opts ! i) of Some nm \<Rightarrow> take (the (c_strlen nm)) nm | None \<Rightarrow> [])"

fun end_text :: "group_end \<Rightarrow> byte list \<times> byte list list" where
  "end_text Done = ([], [])"
| "end_text (Bare c) = ([c], [])"
| "end_text (Attached c v) = (c # v, [])"
| "end_text (Equals c v) = (c # 61 # v, [])"
| "end_text (Separate c v) = ([c], [v])"

fun render :: "pcl_option list \<Rightarrow> item \<Rightarrow> byte list list" where
  "render opts (LongBare i) = [45 # 45 # name_of opts i]"
| "render opts (LongEquals i v) = [45 # 45 # name_of opts i @ 61 # v]"
| "render opts (LongSeparate i v) = [45 # 45 # name_of opts i, v]"
| "render opts (Group cs e) = (45 # cs @ fst (end_text e)) # snd (end_text e)"

type_synonym given = "int \<times> byte list option"

fun end_given :: "group_end \<Rightarrow> given list" where
  "end_given Done = []"
| "end_given (Bare c) = [(sint c, None)]"
| "end_given (Attached c v) = [(sint c, Some v)]"
| "end_given (Equals c v) = [(sint c, Some v)]"
| "end_given (Separate c v) = [(sint c, Some v)]"

fun given :: "pcl_option list \<Rightarrow> item \<Rightarrow> given list" where
  "given opts (LongBare i) = [(po_val (opts ! i), None)]"
| "given opts (LongEquals i v) = [(po_val (opts ! i), Some v)]"
| "given opts (LongSeparate i v) = [(po_val (opts ! i), Some v)]"
| "given opts (Group cs e) = map (\<lambda>c. (sint c, None)) cs @ end_given e"

text \<open>When an item can be written: a value in an argument of its own must not look like an option
  where it is optional, and one that is attached to its letter must not contain an equals sign.\<close>

definition free_value :: "pcl_optpolicy \<Rightarrow> byte list \<Rightarrow> bool" where
  "free_value p v \<longleftrightarrow> 0 \<notin> set v \<and> (p = PclReqArg \<or> p = PclOptArg \<and> (v = [] \<or> hd v \<noteq> 45))"

definition bound_value :: "pcl_optpolicy \<Rightarrow> byte list \<Rightarrow> bool" where
  "bound_value p v \<longleftrightarrow> 0 \<notin> set v \<and> v \<noteq> [] \<and> p \<noteq> PclNoArg"

fun end_ok :: "(byte \<times> pcl_optpolicy) list \<Rightarrow> group_end \<Rightarrow> bool" where
  "end_ok ls Done \<longleftrightarrow> True"
| "end_ok ls (Bare c) \<longleftrightarrow> map_of ls c = Some PclOptArg"
| "end_ok ls (Attached c v) \<longleftrightarrow> 61 \<notin> set v \<and> (\<exists>p. map_of ls c = Some p \<and> bound_value p v)"
| "end_ok ls (Equals c v) \<longleftrightarrow> (\<exists>p. map_of ls c = Some p \<and> bound_value p v)"
| "end_ok ls (Separate c v) \<longleftrightarrow> (\<exists>p. map_of ls c = Some p \<and> free_value p v)"

fun item_ok :: "(byte \<times> pcl_optpolicy) list \<Rightarrow> pcl_option list \<Rightarrow> item \<Rightarrow> bool" where
  "item_ok ls opts (LongBare i) \<longleftrightarrow> i < length opts \<and> po_policy (opts ! i) \<noteq> PclReqArg"
| "item_ok ls opts (LongEquals i v) \<longleftrightarrow> i < length opts \<and> bound_value (po_policy (opts ! i)) v"
| "item_ok ls opts (LongSeparate i v) \<longleftrightarrow> i < length opts \<and> free_value (po_policy (opts ! i)) v"
| "item_ok ls opts (Group cs e) \<longleftrightarrow>
     cs @ fst (end_text e) \<noteq> [] \<and> hd (cs @ fst (end_text e)) \<noteq> 45
     \<and> list_all (\<lambda>c. map_of ls c = Some PclNoArg) cs \<and> end_ok ls e"

text \<open>The tables: letters and names are different, names have two characters at least and no equals
  sign, and no option answers 0 or -1.\<close>

definition option_ok :: "pcl_option \<Rightarrow> bool" where
  "option_ok lopt \<longleftrightarrow> 0 < po_val lopt
     \<and> (case po_name lopt of
          Some nm \<Rightarrow> (case c_strlen nm of Some n \<Rightarrow> 2 \<le> n \<and> 61 \<notin> set (take n nm) | None \<Rightarrow> False)
        | None \<Rightarrow> False)"

definition tables_ok :: "(byte \<times> pcl_optpolicy) list \<Rightarrow> pcl_option list \<Rightarrow> bool" where
  "tables_ok ls opts \<longleftrightarrow> list_all letter_ok (map fst ls) \<and> distinct (map fst ls)
     \<and> list_all option_ok opts \<and> distinct (map (name_of opts) [0..<length opts])"

section \<open>Running the parser\<close>

text \<open>The documented loop \<open>while((opt = pcl_getopt(state, &value, &longopt)) > 0)\<close>, with the
  strings its value pointers stand for.\<close>

definition value_at :: "pcl_optstate \<Rightarrow> argptr option \<Rightarrow> byte list option option" where
  "value_at st po =
     (case po of
        None \<Rightarrow> Some None
      | Some p \<Rightarrow> do { arg \<leftarrow> rd (os_argv st) (fst p);
                      n \<leftarrow> c_strlen (drop (snd p) arg);
                      Some (Some (take n (drop (snd p) arg))) })"

fun getopt_all :: "nat \<Rightarrow> pcl_optstate \<Rightarrow> 'z pcl_err_scheme \<Rightarrow> (given list \<times> int \<times> 'z pcl_err_scheme) option" where
  "getopt_all 0 st w = None"
| "getopt_all (Suc n) st w =
     do { (r, val, lopt, sto, w1) \<leftarrow> pcl_getopt True (Some st) w;
          st1 \<leftarrow> sto;
          if r > 0
          then do { v \<leftarrow> value_at st1 val;
                    (rs, e, w2) \<leftarrow> getopt_all n st1 w1;
                    Some ((r, v) # rs, e, w2) }
          else Some ([], r, w1) }"

text \<open>A run that answers some options and goes on in another state.\<close>

definition goes :: "pcl_optstate \<Rightarrow> 'z pcl_err_scheme \<Rightarrow> given list \<Rightarrow> pcl_optstate \<Rightarrow> bool" where
  "goes st w rs st' \<longleftrightarrow>
     (\<forall>n. getopt_all (length rs + n) st w = map_option (\<lambda>(qs, e, v). (rs @ qs, e, v)) (getopt_all n st' w))"

lemma goes_nil: "goes st w [] st"
  by (simp add: goes_def option.map_ident case_prod_unfold)

lemma goes_trans: "goes st w rs st1 \<Longrightarrow> goes st1 w qs st2 \<Longrightarrow> goes st w (rs @ qs) st2"
  by (simp add: goes_def add.assoc option.map_comp o_def case_prod_unfold)

lemma goes_step:
  assumes "pcl_getopt True (Some st) w = Some (r, val, lopt, Some st1, w)" "0 < r" "value_at st1 val = Some v"
  shows "goes st w [(r, v)] st1"
proof -
  have "getopt_all (Suc n) st w = map_option (\<lambda>(qs, e, v'). ((r, v) # qs, e, v')) (getopt_all n st1 w)" for n
    using assms by (cases "getopt_all n st1 w") auto
  then show ?thesis by (simp add: goes_def)
qed

section \<open>The tables\<close>

lemma policy_at_behind: "policy_at (s @ r) (length s + k) = policy_at r k"
proof -
  have rd: "rd (s @ r) (int (length s + k) + j) = rd r (int k + j)" if "0 \<le> j" for j
    using that by (auto simp: rd_def nth_append nat_add_distrib)
  have one: "rd (s @ r) (int (length s + k) + 1) = rd r (int k + 1)" by (rule rd) simp
  have two: "rd (s @ r) (int (length s + k) + 2) = rd r (int k + 2)" by (rule rd) simp
  show ?thesis unfolding policy_at_def one two by (rule refl)
qed

lemma colons_facts: "c \<noteq> 58 \<Longrightarrow> c \<notin> set (colons p)" "0 \<notin> set (colons p)"
  by (cases p; simp)+

lemma policy_at_start:
  assumes "case r of [] \<Rightarrow> False | d # _ \<Rightarrow> d \<noteq> 58"
  shows "policy_at (c # colons p @ r) 0 = Some p"
  using assms by (cases p; cases r) (auto simp: policy_at_def rd_def)

lemma letters_start:
  assumes "list_all letter_ok (map fst ls)"
  shows "case letters_text ls @ 0 # r of [] \<Rightarrow> False | d # _ \<Rightarrow> d \<noteq> 58"
  using assms by (cases ls) (auto simp: letters_text_def letter_ok_def)

lemma letter_of_map: "list_all letter_ok (map fst ls) \<Longrightarrow> map_of ls c = Some p \<Longrightarrow> letter_ok c"
  by (induction ls) (auto split: if_splits)

lemma letters_lookup:
  assumes "list_all letter_ok (map fst ls)" "map_of ls c = Some p"
  shows "\<exists>k. c_strchr c (letters_text ls @ 0 # r) = Some (Some k)
    \<and> policy_at (letters_text ls @ 0 # r) k = Some p"
  using assms
proof (induction ls)
  case (Cons q ls)
  obtain d p' where q: "q = (d, p')" by fastforce
  from Cons.prems q have ok: "letter_ok d" "list_all letter_ok (map fst ls)" by auto
  have tx: "letters_text (q # ls) @ 0 # r = d # colons p' @ letters_text ls @ 0 # r"
    by (simp add: letters_text_def q)
  show ?case
  proof (cases "c = d")
    case True
    with Cons.prems q have "p = p'" by simp
    with True show ?thesis
      using policy_at_start [OF letters_start [OF ok(2), of r], of d p'] tx by auto
  next
    case False
    with Cons.prems q have m: "map_of ls c = Some p" by simp
    from Cons.IH [OF ok(2) m] obtain k where
      k: "c_strchr c (letters_text ls @ 0 # r) = Some (Some k)" "policy_at (letters_text ls @ 0 # r) k = Some p"
      by blast
    have c: "c \<noteq> 58" using letter_of_map [OF ok(2) m] by (simp add: letter_ok_def)
    have d: "d \<noteq> 0" "c \<notin> set (d # colons p')" "0 \<notin> set (d # colons p')"
      using ok(1) c False colons_facts by (auto simp: letter_ok_def)
    have "c_strchr c (letters_text (q # ls) @ 0 # r) = Some (Some (length (d # colons p') + k))"
      using strchr_behind [OF d(2,3), of "letters_text ls @ 0 # r"] k(1) by (simp add: tx)
    moreover have "policy_at (letters_text (q # ls) @ 0 # r) (length (d # colons p') + k) = Some p"
      using policy_at_behind [of "d # colons p'" "letters_text ls @ 0 # r" k] k(2) by (simp add: tx)
    ultimately show ?thesis by blast
  qed
qed simp

lemma map_of_letter:
  assumes "list_all letter_ok (map fst ls)" "map_of ls c = Some p"
  shows "0 < sint c" "c \<noteq> 0"
proof -
  have c: "0 < c" "c < 128" using letter_of_map [OF assms] by (simp_all add: letter_ok_def)
  then have "uint c < 128" "0 < uint c" by (simp_all add: word_less_def)
  then show "0 < sint c" "c \<noteq> 0"
    by (auto simp: sint_uint signed_take_bit_int_eq_self)
qed

lemma option_name:
  assumes "list_all option_ok opts" "i < length opts"
  obtains nm n where "po_name (opts ! i) = Some nm" "c_strlen nm = Some n" "2 \<le> n"
    "name_of opts i = take n nm" "61 \<notin> set (name_of opts i)" "0 \<notin> set (name_of opts i)"
    "2 \<le> length (name_of opts i)" "0 < po_val (opts ! i)"
proof -
  from assms have ok: "option_ok (opts ! i)" by (simp add: list_all_length)
  then obtain nm n where n: "po_name (opts ! i) = Some nm" "c_strlen nm = Some n" "2 \<le> n" "61 \<notin> set (take n nm)"
    by (auto simp: option_ok_def split: option.splits)
  from strlen_SomeD [OF n(2)] n ok show thesis
    by (intro that [of nm n]) (auto simp: name_of_def option_ok_def)
qed

lemma find_long_at:
  assumes "list_all option_ok opts" "distinct (map (name_of opts) [0..<length opts])"
    and "i < length opts" "j \<le> i"
  shows "find_long opts (name_of opts i @ 0 # r) j (length opts - j) = Some (Some i)"
  using assms(3-)
proof (induction "i - j" arbitrary: j)
  case 0
  then have "j = i" by simp
  obtain nm n where n: "po_name (opts ! i) = Some nm" "c_strlen nm = Some n" "name_of opts i = take n nm"
    "0 \<notin> set (name_of opts i)"
    using option_name [OF assms(1) \<open>i < length opts\<close>] by metis
  have "length (take n nm) = n" using strlen_SomeD [OF n(2)] by blast
  then have "c_streq nm (name_of opts i @ 0 # r) = Some True"
    using n by (simp add: c_streq_def strlen_nul)
  moreover have "length opts - j = Suc (length opts - Suc j)" using 0 \<open>j = i\<close> by simp
  ultimately show ?case using 0 \<open>j = i\<close> n by (simp add: rd_int)
next
  case (Suc d)
  then have j: "j < i" "j < length opts" "d = i - Suc j" "Suc j \<le> i" by auto
  obtain nm n where n: "po_name (opts ! j) = Some nm" "c_strlen nm = Some n" "name_of opts j = take n nm"
    using option_name [OF assms(1) j(2)] by metis
  have zi: "0 \<notin> set (name_of opts i)"
    using option_name [OF assms(1) \<open>i < length opts\<close>] by metis
  have "name_of opts j \<noteq> name_of opts i"
    using assms(2) j Suc.prems(1) by (auto simp: distinct_conv_nth)
  then have "c_streq nm (name_of opts i @ 0 # r) = Some False"
    using n zi by (simp add: c_streq_def strlen_nul)
  moreover have "length opts - j = Suc (length opts - Suc j)" using j by simp
  ultimately show ?case
    using n j Suc.hyps(1) [OF j(3) Suc.prems(1) j(4)] by (simp add: rd_int)
qed

lemma find_val_total: "i + n \<le> length opts \<Longrightarrow> \<exists>r. find_val opts v i n = Some r"
  by (induction n arbitrary: i) (auto simp: rd_int)

section \<open>States of a run\<close>

definition at_arg :: "(byte \<times> pcl_optpolicy) list \<Rightarrow> pcl_option list \<Rightarrow> byte list list \<Rightarrow> nat \<Rightarrow> pcl_optstate" where
  "at_arg ls opts args i =
     \<lparr>os_argidx = int i, os_next_optstr = None, os_argc = int (length args),
      os_argv = map (\<lambda>t. t @ [0]) args, os_optstr = Some (letters_text ls @ [0]),
      os_options = Some opts, os_num_options = int (length opts)\<rparr>"

definition in_group ::
  "(byte \<times> pcl_optpolicy) list \<Rightarrow> pcl_option list \<Rightarrow> byte list list \<Rightarrow> nat \<Rightarrow> nat \<Rightarrow> pcl_optstate" where
  "in_group ls opts args i off = (at_arg ls opts args i)\<lparr>os_next_optstr := Some (int i, off)\<rparr>"

lemma rd_argv: "i < length args \<Longrightarrow> rd (map (\<lambda>t. t @ [0]) args) (int i) = Some (args ! i @ [0])"
  by (simp add: rd_int)

lemma rd_argv_next: "Suc i < length args \<Longrightarrow> rd (map (\<lambda>t. t @ [0]) args) (int i + 1) = Some (args ! Suc i @ [0])"
  using rd_argv [of "Suc i" args] by (simp add: add.commute)

lemma value_at_text:
  assumes "os_argv st = map (\<lambda>t. t @ [0]) args" "i < length args" "args ! i = s @ v" "0 \<notin> set v"
  shows "value_at st (Some (int i, length s)) = Some (Some v)"
  using assms by (simp add: value_at_def rd_argv strlen_nul)

lemma value_at_next:
  assumes "os_argv st = map (\<lambda>t. t @ [0]) args" "Suc i < length args" "0 \<notin> set (args ! Suc i)"
  shows "value_at st (Some (int i + 1, 0)) = Some (Some (args ! Suc i))"
  using value_at_text [of st args "Suc i" "[]" "args ! Suc i"] assms by (simp add: add.commute)

lemma value_follows_at:
  assumes "os_argidx st = int i" "os_argc st = int (length args)" "os_argv st = map (\<lambda>t. t @ [0]) args"
  shows "value_follows st = Some (Suc i < length args \<and> hd (args ! Suc i @ [0]) \<noteq> 45)"
proof (cases "Suc i < length args")
  case True
  have "rd (args ! Suc i @ [0]) 0 = Some (hd (args ! Suc i @ [0]))"
    by (cases "args ! Suc i") (auto simp: rd_def)
  with True assms show ?thesis by (simp add: value_follows_def rd_argv_next)
next
  case False
  with assms show ?thesis by (simp add: value_follows_def)
qed

section \<open>Long options\<close>

lemma long_at:
  assumes "tables_ok ls opts" "k < length opts"
    and "os_options st = Some opts" "os_num_options st = int (length opts)"
    and "t = [] \<and> eq = None \<or> (\<exists>v. t = 61 # v) \<and> eq = Some (length (name_of opts k))"
    and "long_value (po_policy (opts ! k)) (name_of opts k @ t @ [0]) eq st = Some (Inr (val, st1))"
  shows "getopt_long True (45 # 45 # name_of opts k @ t @ [0]) st w
    = Some (po_val (opts ! k), val, Some (Some k), st1\<lparr>os_argidx := os_argidx st1 + 1\<rparr>, w)"
proof -
  let ?nm = "name_of opts k"
  from assms(1) have tab: "list_all option_ok opts" "distinct (map (name_of opts) [0..<length opts])"
    by (simp_all add: tables_ok_def)
  from option_name [OF tab(1) assms(2)] have nm: "61 \<notin> set ?nm" "0 \<notin> set ?nm" "2 \<le> length ?nm"
    by metis+
  then obtain a b s where s: "?nm = a # b # s" by (cases ?nm; cases "tl ?nm") auto
  have r: "rd (45 # 45 # ?nm @ t @ [0]) 3 = Some b" "b \<noteq> 0" using s nm(2) by (auto simp: rd_def)
  have eq: "c_strchr 61 (?nm @ t @ [0]) = Some eq"
    using assms(5) strchr_absent [OF nm(1,2), of "[]"] strchr_behind [OF nm(1,2), of "t @ [0]"] by auto
  define cut where "cut = (case eq of Some k \<Rightarrow> (?nm @ t @ [0])[k := 0] | None \<Rightarrow> ?nm @ t @ [0])"
  from assms(5) obtain q where cut: "cut = ?nm @ 0 # q" by (auto simp: cut_def)
  have found: "find_long opts cut 0 (length opts) = Some (Some k)"
    using find_long_at [OF tab assms(2), of 0 q] by (simp add: cut)
  have "rd opts (int k) = Some (opts ! k)" using assms(2) by (simp add: rd_int)
  with found r eq assms(3,4,6) show ?thesis by (simp add: getopt_long_def cut_def)
qed

lemma enter_long:
  assumes "os_next_optstr st = None" "os_argidx st \<noteq> os_argc st"
    and "rd (os_argv st) (os_argidx st) = Some (45 # 45 # s)"
    and "getopt_long True (45 # 45 # s) st w = Some (r, val, lopt, st1, w1)"
  shows "pcl_getopt True (Some st) w = Some (r, val, lopt, Some st1, w1)"
  using assms by (simp add: pcl_getopt_def mem_read_def)

lemma goes_long:
  assumes tab: "tables_ok ls opts" and k: "k < length opts"
    and i: "i < length args" "args ! i = 45 # 45 # name_of opts k @ t"
    and t: "t = [] \<and> eq = None \<or> (\<exists>v. t = 61 # v) \<and> eq = Some (length (name_of opts k))"
    and val: "long_value (po_policy (opts ! k)) (name_of opts k @ t @ [0]) eq (at_arg ls opts args i)
      = Some (Inr (val, (at_arg ls opts args i)\<lparr>os_argidx := int j\<rparr>))"
    and v: "value_at (at_arg ls opts args (Suc j)) val = Some v"
  shows "goes (at_arg ls opts args i) w [(po_val (opts ! k), v)] (at_arg ls opts args (Suc j))"
proof (rule goes_step)
  let ?st = "at_arg ls opts args i"
  have "getopt_long True (45 # 45 # name_of opts k @ t @ [0]) ?st w
    = Some (po_val (opts ! k), val, Some (Some k), at_arg ls opts args (Suc j), w)"
    using long_at [OF tab k _ _ t val] by (simp add: at_arg_def add.commute)
  moreover have "rd (os_argv ?st) (os_argidx ?st) = Some (45 # 45 # name_of opts k @ t @ [0])"
    using i by (simp add: at_arg_def rd_argv)
  ultimately show "pcl_getopt True (Some ?st) w
    = Some (po_val (opts ! k), val, Some (Some k), Some (at_arg ls opts args (Suc j)), w)"
    using i by (intro enter_long) (auto simp: at_arg_def)
  from tab have "list_all option_ok opts" by (simp add: tables_ok_def)
  from option_name [OF this k] show "0 < po_val (opts ! k)" by metis
qed (rule v)

text \<open>The argument after an option that takes no value there: the end, or an option.\<close>

definition no_value :: "byte list list \<Rightarrow> bool" where
  "no_value rest \<longleftrightarrow> (case rest of [] \<Rightarrow> True | a # _ \<Rightarrow> a \<noteq> [] \<and> hd a = 45)"

lemma long_bare:
  assumes "tables_ok ls opts" "k < length opts" "po_policy (opts ! k) \<noteq> PclReqArg"
    and "i < length args" "args ! i = 45 # 45 # name_of opts k" "no_value (drop (Suc i) args)"
  shows "goes (at_arg ls opts args i) w [(po_val (opts ! k), None)] (at_arg ls opts args (Suc i))"
proof -
  let ?st = "at_arg ls opts args i"
  have "value_follows ?st = Some False"
  proof (cases "Suc i < length args")
    case True
    then have "drop (Suc i) args = args ! Suc i # drop (Suc (Suc i)) args" by (simp add: Cons_nth_drop_Suc)
    with assms(6) show ?thesis
      by (subst value_follows_at [of _ i args]) (auto simp: at_arg_def no_value_def)
  qed (auto simp: value_follows_def at_arg_def)
  then have "long_value (po_policy (opts ! k)) (name_of opts k @ [] @ [0]) None ?st
    = Some (Inr (None, ?st\<lparr>os_argidx := int i\<rparr>))"
    using assms(3) by (cases "po_policy (opts ! k)") (simp_all add: long_value_def at_arg_def)
  then show ?thesis
    using assms by (intro goes_long [where t = "[]" and eq = None]) (auto simp: value_at_def)
qed

lemma long_equals:
  assumes "tables_ok ls opts" "k < length opts" "bound_value (po_policy (opts ! k)) v"
    and "i < length args" "args ! i = 45 # 45 # name_of opts k @ 61 # v"
  shows "goes (at_arg ls opts args i) w [(po_val (opts ! k), Some v)] (at_arg ls opts args (Suc i))"
proof -
  let ?st = "at_arg ls opts args i" and ?nm = "name_of opts k"
  from assms(3) have v: "0 \<notin> set v" "v \<noteq> []" "po_policy (opts ! k) \<noteq> PclNoArg"
    by (simp_all add: bound_value_def)
  have "rd (?nm @ (61 # v) @ [0]) (int (length ?nm) + 1) = Some (hd v)"
    using v(2) by (cases v) (auto simp: rd_def nth_append nat_add_distrib)
  moreover have "hd v \<noteq> 0" using v by (cases v) auto
  ultimately have "long_value (po_policy (opts ! k)) (?nm @ (61 # v) @ [0]) (Some (length ?nm)) ?st
    = Some (Inr (Some (int i, length ?nm + 3), ?st\<lparr>os_argidx := int i\<rparr>))"
    using v(3) by (cases "po_policy (opts ! k)") (simp_all add: long_value_def at_arg_def)
  moreover have "value_at (at_arg ls opts args (Suc i)) (Some (int i, length ?nm + 3)) = Some (Some v)"
    using value_at_text [of "at_arg ls opts args (Suc i)" args i "45 # 45 # ?nm @ [61]" v] assms(4,5) v(1)
    by (simp add: at_arg_def numeral_3_eq_3)
  ultimately show ?thesis
    using assms by (intro goes_long [where t = "61 # v" and eq = "Some (length ?nm)"]) auto
qed

lemma long_separate:
  assumes "tables_ok ls opts" "k < length opts" "free_value (po_policy (opts ! k)) v"
    and "Suc i < length args" "args ! i = 45 # 45 # name_of opts k" "args ! Suc i = v"
  shows "goes (at_arg ls opts args i) w [(po_val (opts ! k), Some v)] (at_arg ls opts args (Suc (Suc i)))"
proof -
  let ?st = "at_arg ls opts args i"
  from assms(3) have v: "0 \<notin> set v" "po_policy (opts ! k) = PclReqArg
      \<or> po_policy (opts ! k) = PclOptArg \<and> hd (v @ [0]) \<noteq> 45"
    by (auto simp: free_value_def hd_append)
  have "value_follows ?st = Some (hd (v @ [0]) \<noteq> 45)"
    using assms(4,6) by (subst value_follows_at [of _ i args]) (auto simp: at_arg_def)
  with v(2) assms(4) have "long_value (po_policy (opts ! k)) (name_of opts k @ [] @ [0]) None ?st
    = Some (Inr (Some (int i + 1, 0), ?st\<lparr>os_argidx := int (Suc i)\<rparr>))"
    by (auto simp: long_value_def take_next_def at_arg_def)
  moreover have "value_at (at_arg ls opts args (Suc (Suc i))) (Some (int i + 1, 0)) = Some (Some v)"
    using value_at_next [of "at_arg ls opts args (Suc (Suc i))" args i] assms(4,6) v(1)
    by (simp add: at_arg_def)
  ultimately show ?thesis
    using assms by (intro goes_long [where t = "[]" and eq = None and j = "Suc i"]) auto
qed

section \<open>Groups of short options\<close>

lemma short_at:
  assumes tab: "tables_ok ls opts" and c: "map_of ls c = Some p"
    and i: "i < length args" "args ! i = s @ c # u"
    and eq: "eq = (if p = PclNoArg then None else the (c_strchr 61 (u @ [0])))" "0 \<notin> set u"
    and val: "short_value p (args ! i @ [0]) (Suc (length s)) eq (in_group ls opts args i (Suc (length s)))
      = Some (Inr (val, off1, st1))"
    and opts: "os_options st1 = Some opts" "os_num_options st1 = int (length opts)"
    and d: "rd (args ! i @ [0]) (int off1) = Some d"
  shows "\<exists>lopt. pcl_getopt True (Some (in_group ls opts args i (length s))) w = Some (sint c, val, lopt,
    Some (if d = 0 then st1\<lparr>os_argidx := os_argidx st1 + 1, os_next_optstr := None\<rparr>
          else st1\<lparr>os_next_optstr := Some (int i, off1)\<rparr>), w)"
proof -
  let ?st = "in_group ls opts args i (length s)"
  define st2 where "st2 = (if d = 0 then st1\<lparr>os_argidx := os_argidx st1 + 1, os_next_optstr := None\<rparr>
    else st1\<lparr>os_next_optstr := Some (int i, off1)\<rparr>)"
  have letters: "list_all letter_ok (map fst ls)" using tab by (simp add: tables_ok_def)
  from letters_lookup [OF this c, of "[]"] obtain k where
    k: "c_strchr c (letters_text ls @ [0]) = Some (Some k)" "policy_at (letters_text ls @ [0]) k = Some p" by blast
  from find_val_total [of 0 "length opts" opts "sint c"] opts obtain lopt where
    lopt: "map_long True (sint c) st2 = Some (Some lopt)" by (auto simp: map_long_def st2_def)
  have "\<exists>e. c_strchr 61 (u @ [0]) = Some e" using eq(2) by (induction u) auto
  then have e: "(if p = PclNoArg then Some None else c_strchr 61 (u @ [0])) = Some eq" using eq(1) by auto
  have arg: "rd (os_argv ?st) (int i) = Some (args ! i @ [0])"
    using i by (simp add: in_group_def at_arg_def rd_argv)
  have opt: "rd (args ! i @ [0]) (int (length s)) = Some c" using i(2) by (simp add: rd_int nth_append)
  have rest: "drop (length s + 1) (args ! i @ [0]) = u @ [0]" using i(2) by simp
  have nx: "?st\<lparr>os_next_optstr := Some (int i, length s + 1)\<rparr> = in_group ls opts args i (Suc (length s))"
    by (simp add: in_group_def)
  have "getopt_short True (int i, length s) ?st w = Some (sint c, val, Some lopt, st2, w)"
    unfolding getopt_short_def Let_def fst_conv snd_conv arg opt rest nx Option.bind.bind_lunit
    using k e val d lopt by (simp add: in_group_def at_arg_def st2_def)
  then show ?thesis unfolding st2_def
    by (intro exI [of _ "Some lopt"]) (simp add: pcl_getopt_def in_group_def at_arg_def)
qed

lemma letter_step:
  assumes "tables_ok ls opts" "map_of ls c = Some PclNoArg" "i < length args" "args ! i = s @ c # u" "0 \<notin> set u"
  obtains lopt where "pcl_getopt True (Some (in_group ls opts args i (length s))) w = Some (sint c, None, lopt,
      Some (if u = [] then at_arg ls opts args (Suc i) else in_group ls opts args i (length s + 1)), w)"
proof -
  let ?st = "in_group ls opts args i (Suc (length s))"
  have val: "short_value PclNoArg (args ! i @ [0]) (Suc (length s)) None ?st = Some (Inr (None, Suc (length s), ?st))"
    by (simp add: short_value_def)
  have d: "rd (args ! i @ [0]) (int (Suc (length s))) = Some (hd (u @ [0]))"
    using assms(4) by (cases u) (simp_all add: rd_def nth_append nat_add_distrib)
  have next_state: "(if hd (u @ [0]) = 0 then ?st\<lparr>os_argidx := os_argidx ?st + 1, os_next_optstr := None\<rparr>
    else ?st\<lparr>os_next_optstr := Some (int i, Suc (length s))\<rparr>)
    = (if u = [] then at_arg ls opts args (Suc i) else in_group ls opts args i (length s + 1))"
    using assms(5) by (cases u) (auto simp: in_group_def at_arg_def)
  from short_at [OF assms(1-4) _ assms(5) val _ _ d, of w] show ?thesis
    unfolding next_state by (auto simp: in_group_def at_arg_def intro: that)
qed

lemma goes_letter:
  assumes "tables_ok ls opts" "map_of ls c = Some PclNoArg" "i < length args" "args ! i = s @ c # u" "0 \<notin> set u"
  shows "goes (in_group ls opts args i (length s)) w [(sint c, None)]
    (if u = [] then at_arg ls opts args (Suc i) else in_group ls opts args i (length s + 1))"
proof -
  have letters: "list_all letter_ok (map fst ls)" using assms(1) by (simp add: tables_ok_def)
  obtain lopt where "pcl_getopt True (Some (in_group ls opts args i (length s))) w = Some (sint c, None, lopt,
      Some (if u = [] then at_arg ls opts args (Suc i) else in_group ls opts args i (length s + 1)), w)"
    by (rule letter_step [OF assms])
  then show ?thesis
    by (rule goes_step) (use map_of_letter [OF letters assms(2)] in \<open>simp_all add: value_at_def\<close>)
qed

lemma goes_valued:
  assumes tab: "tables_ok ls opts" and c: "map_of ls c = Some p"
    and i: "i < length args" "args ! i = s @ c # u" "0 \<notin> set u"
    and eq: "eq = (if p = PclNoArg then None else the (c_strchr 61 (u @ [0])))"
    and val: "short_value p (args ! i @ [0]) (Suc (length s)) eq (in_group ls opts args i (Suc (length s)))
      = Some (Inr (val, length (args ! i), (in_group ls opts args i (Suc (length s)))\<lparr>os_argidx := int j\<rparr>))"
    and v: "value_at (at_arg ls opts args (Suc j)) val = Some v"
  shows "goes (in_group ls opts args i (length s)) w [(sint c, v)] (at_arg ls opts args (Suc j))"
proof -
  have d: "rd (args ! i @ [0]) (int (length (args ! i))) = Some 0" by (simp add: rd_int nth_append)
  have letters: "list_all letter_ok (map fst ls)" using tab by (simp add: tables_ok_def)
  from short_at [OF tab c i(1,2) eq i(3) val _ _ d, of w] obtain lopt where
    "pcl_getopt True (Some (in_group ls opts args i (length s))) w
      = Some (sint c, val, lopt, Some (at_arg ls opts args (Suc j)), w)"
    by (auto simp: in_group_def at_arg_def add.commute)
  then show ?thesis
    using map_of_letter [OF letters c] v by (intro goes_step) auto
qed

lemma group_value_follows:
  "value_follows (in_group ls opts args i off) = Some (Suc i < length args \<and> hd (args ! Suc i @ [0]) \<noteq> 45)"
  by (subst value_follows_at [of _ i args]) (auto simp: in_group_def at_arg_def)

lemma group_done_at: "rd (s @ [c] @ [0]) (int (Suc (length s))) = Some (0 :: byte)"
  by (simp add: rd_def nth_append nat_add_distrib)

lemma goes_bare:
  assumes "tables_ok ls opts" "map_of ls c = Some PclOptArg" "i < length args" "args ! i = s @ [c]"
    and "no_value (drop (Suc i) args)"
  shows "goes (in_group ls opts args i (length s)) w [(sint c, None)] (at_arg ls opts args (Suc i))"
proof -
  let ?st = "in_group ls opts args i (Suc (length s))"
  have "value_follows ?st = Some False"
  proof (cases "Suc i < length args")
    case True
    then have "drop (Suc i) args = args ! Suc i # drop (Suc (Suc i)) args" by (simp add: Cons_nth_drop_Suc)
    with assms(5) show ?thesis by (subst group_value_follows) (auto simp: no_value_def)
  qed (simp add: group_value_follows)
  then have "short_value PclOptArg (args ! i @ [0]) (Suc (length s)) None ?st
    = Some (Inr (None, length (args ! i), ?st\<lparr>os_argidx := int i\<rparr>))"
    using group_done_at [of s c] assms(4) by (simp add: short_value_def in_group_def at_arg_def)
  then show ?thesis
    using assms by (intro goes_valued [where u = "[]" and eq = None]) (auto simp: value_at_def)
qed

lemma goes_attached:
  assumes "tables_ok ls opts" "map_of ls c = Some p" "bound_value p v" "61 \<notin> set v"
    and "i < length args" "args ! i = s @ c # v"
  shows "goes (in_group ls opts args i (length s)) w [(sint c, Some v)] (at_arg ls opts args (Suc i))"
proof -
  let ?st = "in_group ls opts args i (Suc (length s))"
  from assms(3) have v: "0 \<notin> set v" "v \<noteq> []" "p \<noteq> PclNoArg" by (simp_all add: bound_value_def)
  have "rd (args ! i @ [0]) (int (Suc (length s))) = Some (hd v)" "hd v \<noteq> 0"
    using v assms(6) by (cases v; simp add: rd_def nth_append nat_add_distrib)+
  moreover have "c_strlen (drop (Suc (length s)) (args ! i @ [0])) = Some (length v)"
    using assms(6) v(1) by (simp add: strlen_nul)
  ultimately have "short_value p (args ! i @ [0]) (Suc (length s)) None ?st
    = Some (Inr (Some (int i, Suc (length s)), length (args ! i), ?st\<lparr>os_argidx := int i\<rparr>))"
    using v(3) assms(6) by (cases p) (simp_all add: short_value_def in_group_def at_arg_def)
  moreover have "value_at (at_arg ls opts args (Suc i)) (Some (int i, Suc (length s))) = Some (Some v)"
    using value_at_text [of "at_arg ls opts args (Suc i)" args i "s @ [c]" v] assms(5,6) v(1)
    by (simp add: at_arg_def)
  ultimately show ?thesis
    using assms v strchr_absent [of 61 v "[]"] by (intro goes_valued [where u = v and eq = None]) auto
qed

lemma goes_equals:
  assumes "tables_ok ls opts" "map_of ls c = Some p" "bound_value p v"
    and "i < length args" "args ! i = s @ c # 61 # v"
  shows "goes (in_group ls opts args i (length s)) w [(sint c, Some v)] (at_arg ls opts args (Suc i))"
proof -
  let ?st = "in_group ls opts args i (Suc (length s))"
  from assms(3) have v: "0 \<notin> set v" "v \<noteq> []" "p \<noteq> PclNoArg" by (simp_all add: bound_value_def)
  have "rd (args ! i @ [0]) (int (Suc (length s)) + 1) = Some (hd v)" "hd v \<noteq> 0"
    using v assms(5) by (cases v; simp add: rd_def nth_append nat_add_distrib)+
  moreover have "c_strlen (drop (Suc (length s)) (args ! i @ [0])) = Some (Suc (length v))"
    using assms(5) v(1) by (simp add: strlen_nul)
  ultimately have "short_value p (args ! i @ [0]) (Suc (length s)) (Some 0) ?st
    = Some (Inr (Some (int i, Suc (Suc (length s))), length (args ! i), ?st\<lparr>os_argidx := int i\<rparr>))"
    using v(3) assms(5) by (cases p) (simp_all add: short_value_def in_group_def at_arg_def)
  moreover have "value_at (at_arg ls opts args (Suc i)) (Some (int i, Suc (Suc (length s)))) = Some (Some v)"
    using value_at_text [of "at_arg ls opts args (Suc i)" args i "s @ [c, 61]" v] assms(4,5) v(1)
    by (simp add: at_arg_def)
  ultimately show ?thesis
    using assms v by (intro goes_valued [where u = "61 # v" and eq = "Some 0"]) auto
qed

lemma goes_separate:
  assumes "tables_ok ls opts" "map_of ls c = Some p" "free_value p v"
    and "Suc i < length args" "args ! i = s @ [c]" "args ! Suc i = v"
  shows "goes (in_group ls opts args i (length s)) w [(sint c, Some v)] (at_arg ls opts args (Suc (Suc i)))"
proof -
  let ?st = "in_group ls opts args i (Suc (length s))"
  from assms(3) have v: "0 \<notin> set v" "p = PclReqArg \<or> p = PclOptArg \<and> hd (v @ [0]) \<noteq> 45"
    by (auto simp: free_value_def hd_append)
  have "value_follows ?st = Some (hd (v @ [0]) \<noteq> 45)"
    using assms(4,6) by (subst group_value_follows) simp
  with v(2) have "short_value p (args ! i @ [0]) (Suc (length s)) None ?st
    = Some (Inr (Some (int i + 1, 0), length (args ! i), ?st\<lparr>os_argidx := int (Suc i)\<rparr>))"
    using group_done_at [of s c] assms(4,5)
    by (auto simp: short_value_def take_next_def in_group_def at_arg_def)
  moreover have "value_at (at_arg ls opts args (Suc (Suc i))) (Some (int i + 1, 0)) = Some (Some v)"
    using value_at_next [of "at_arg ls opts args (Suc (Suc i))" args i] assms(4,6) v(1)
    by (simp add: at_arg_def)
  ultimately show ?thesis
    using assms v by (intro goes_valued [where u = "[]" and eq = None and j = "Suc i"]) auto
qed

lemma goes_end:
  assumes "tables_ok ls opts" "end_ok ls e" "e \<noteq> Done"
    and "i < length args" "args ! i = s @ fst (end_text e)"
    and "drop (Suc i) args = snd (end_text e) @ rest" "no_value rest"
  shows "goes (in_group ls opts args i (length s)) w (end_given e)
    (at_arg ls opts args (Suc i + length (snd (end_text e))))"
proof (cases e)
  case (Bare c)
  with assms show ?thesis using goes_bare [of ls opts c i args s w] by simp
next
  case (Attached c v)
  with assms show ?thesis using goes_attached [of ls opts c _ v i args s w] by auto
next
  case (Equals c v)
  with assms show ?thesis using goes_equals [of ls opts c _ v i args s w] by auto
next
  case (Separate c v)
  with assms(6) have d: "drop (Suc i) args = v # rest" by simp
  then have "Suc i < length args" by (cases "Suc i < length args") auto
  moreover from d this have "args ! Suc i = v" by (metis nth_via_drop)
  ultimately show ?thesis using assms Separate goes_separate [of ls opts c _ v i args s w] by auto
qed (use assms in simp)

lemma group_nul:
  assumes "tables_ok ls opts" "list_all (\<lambda>c. map_of ls c = Some PclNoArg) cs" "end_ok ls e"
  shows "0 \<notin> set (cs @ fst (end_text e))"
proof -
  from assms(1) have letters: "list_all letter_ok (map fst ls)" by (simp add: tables_ok_def)
  have "0 \<notin> set cs" using assms(2) map_of_letter(2) [OF letters] by (fastforce simp: list_all_iff)
  moreover have "0 \<notin> set (fst (end_text e))"
    using assms(3) map_of_letter(2) [OF letters] by (cases e) (fastforce simp: bound_value_def)+
  ultimately show ?thesis by simp
qed

lemma goes_group:
  assumes "tables_ok ls opts" "list_all (\<lambda>c. map_of ls c = Some PclNoArg) cs" "end_ok ls e"
    and "i < length args" "args ! i = s @ cs @ fst (end_text e)" "cs @ fst (end_text e) \<noteq> []"
    and "drop (Suc i) args = snd (end_text e) @ rest" "no_value rest"
  shows "goes (in_group ls opts args i (length s)) w (map (\<lambda>c. (sint c, None)) cs @ end_given e)
    (at_arg ls opts args (Suc i + length (snd (end_text e))))"
  using assms(2,5,6)
proof (induction cs arbitrary: s)
  case Nil
  then have "e \<noteq> Done" by auto
  with Nil show ?case using goes_end [OF assms(1,3) _ assms(4) _ assms(7,8), of s w] by simp
next
  case (Cons c cs)
  let ?u = "cs @ fst (end_text e)"
  from Cons.prems have c: "map_of ls c = Some PclNoArg" "args ! i = s @ c # ?u" by simp_all
  have "0 \<notin> set ?u" using Cons.prems(1) assms by (intro group_nul) auto
  from goes_letter [OF assms(1) c(1) assms(4) c(2) this, of w] have one:
    "goes (in_group ls opts args i (length s)) w [(sint c, None)]
      (if ?u = [] then at_arg ls opts args (Suc i) else in_group ls opts args i (length s + 1))" .
  show ?case
  proof (cases "?u = []")
    case True
    then have "e = Done" by (cases e) auto
    with True one show ?thesis by simp
  next
    case False
    from False one have
      "goes (in_group ls opts args i (length s)) w [(sint c, None)] (in_group ls opts args i (length (s @ [c])))"
      by (auto split: if_splits)
    moreover have "goes (in_group ls opts args i (length (s @ [c]))) w (map (\<lambda>c. (sint c, None)) cs @ end_given e)
      (at_arg ls opts args (Suc i + length (snd (end_text e))))"
      using Cons.prems False by (intro Cons.IH) auto
    ultimately have "goes (in_group ls opts args i (length s)) w
      ([(sint c, None)] @ map (\<lambda>c. (sint c, None)) cs @ end_given e)
      (at_arg ls opts args (Suc i + length (snd (end_text e))))"
      by (rule goes_trans)
    then show ?thesis by simp
  qed
qed

text \<open>The first letter of a group is reached from the argument.\<close>

lemma enter_first:
  assumes "i < length args" "args ! i = 45 # x # t" "x \<noteq> 45" "x \<noteq> 0"
  shows "pcl_getopt True (Some (at_arg ls opts args i)) w = pcl_getopt True (Some (in_group ls opts args i 1)) w"
  using assms by (simp add: pcl_getopt_def at_arg_def in_group_def rd_argv mem_read_def getopt_short_def)

lemma enter_group:
  assumes "i < length args" "args ! i = 45 # x # t" "x \<noteq> 45" "x \<noteq> 0" "rs \<noteq> []"
    and "goes (in_group ls opts args i 1) w rs st"
  shows "goes (at_arg ls opts args i) w rs st"
proof -
  from assms(5) obtain m where "length rs = Suc m" by (cases rs) auto
  then show ?thesis
    using assms(6) by (simp add: goes_def enter_first [OF assms(1-4)])
qed

section \<open>Whole command lines\<close>

lemma render_head: "item_ok ls opts it \<Longrightarrow> \<exists>t r. render opts it = (45 # t) # r"
  by (cases it) auto

lemma no_value_items: "list_all (item_ok ls opts) its \<Longrightarrow> no_value (concat (map (render opts) its))"
  using render_head [of ls opts] by (cases its) (fastforce simp: no_value_def)+

lemma goes_item:
  assumes "tables_ok ls opts" "item_ok ls opts it" "args = pre @ render opts it @ rest" "no_value rest"
  shows "goes (at_arg ls opts args (length pre)) w (given opts it)
    (at_arg ls opts args (length pre + length (render opts it)))"
proof (cases it)
  case (LongBare k)
  with assms show ?thesis using long_bare [of ls opts k "length pre" args w] by (simp add: nth_append)
next
  case (LongEquals k v)
  with assms show ?thesis using long_equals [of ls opts k v "length pre" args w] by (simp add: nth_append)
next
  case (LongSeparate k v)
  with assms show ?thesis using long_separate [of ls opts k v "length pre" args w] by (simp add: nth_append)
next
  case (Group cs e)
  let ?t = "cs @ fst (end_text e)"
  from assms(2) Group have ok: "?t \<noteq> []" "hd ?t \<noteq> 45" "list_all (\<lambda>c. map_of ls c = Some PclNoArg) cs" "end_ok ls e"
    by simp_all
  from ok(1) obtain x t where t: "?t = x # t" by (cases ?t) auto
  have x: "x \<noteq> 45" "x \<noteq> 0" using group_nul [OF assms(1) ok(3,4)] ok(2) t by auto
  have i: "length pre < length args" "args ! length pre = [45] @ ?t" "drop (Suc (length pre)) args = snd (end_text e) @ rest"
    using assms(3) Group by (simp_all add: nth_append)
  have rs: "map (\<lambda>c. (sint c, None)) cs @ end_given e \<noteq> []" using ok(1) by (cases e) auto
  have "goes (at_arg ls opts args (length pre)) w (map (\<lambda>c. (sint c, None)) cs @ end_given e)
    (at_arg ls opts args (Suc (length pre) + length (snd (end_text e))))"
    using goes_group [OF assms(1) ok(3,4) i(1,2) ok(1) i(3) assms(4), of w] i(1,2) t x rs
    by (intro enter_group) auto
  then show ?thesis by (simp add: Group)
qed

lemma goes_items:
  assumes "tables_ok ls opts" "list_all (item_ok ls opts) its" "args = pre @ concat (map (render opts) its)"
  shows "goes (at_arg ls opts args (length pre)) w (concat (map (given opts) its)) (at_arg ls opts args (length args))"
  using assms(2,3)
proof (induction its arbitrary: pre)
  case Nil
  then show ?case by (simp add: goes_nil)
next
  case (Cons it its)
  let ?rest = "concat (map (render opts) its)"
  from Cons.prems have "goes (at_arg ls opts args (length pre)) w (given opts it)
      (at_arg ls opts args (length pre + length (render opts it)))"
    using no_value_items [of ls opts its] by (intro goes_item [OF assms(1), where rest = ?rest]) auto
  moreover have "goes (at_arg ls opts args (length (pre @ render opts it))) w (concat (map (given opts) its))
      (at_arg ls opts args (length args))"
    using Cons.prems by (intro Cons.IH) auto
  ultimately show ?case using goes_trans by fastforce
qed

text \<open>The state that \<open>pcl_initopt\<close> returns.\<close>

lemma initopt_at_arg:
  "args \<noteq> [] \<Longrightarrow> pcl_initopt (int (length args)) (Some (map (\<lambda>t. t @ [0]) args)) (Some (letters_text ls @ [0]))
     (Some opts) (int (length opts)) w = (Some (at_arg ls opts args 1), w)"
  by (simp add: pcl_initopt_def at_arg_def)

lemma getopt_end: "getopt_all (Suc n) (at_arg ls opts args (length args)) w = Some ([], 0, w)"
  by (simp add: pcl_getopt_def at_arg_def)

text \<open>C5: the option parser reads back a command line that is written from a list of options in the
  forms \<open>--name\<close>, \<open>--name=value\<close>, \<open>--name value\<close>, and groups of letters \<open>-abc\<close> that may end with a
  letter and its value as \<open>-ovalue\<close>, \<open>-o=value\<close> or \<open>-o value\<close>: called until it answers 0, it returns
  exactly these options with exactly their values, in their order, touches no memory outside of the
  arguments and tables, and reports no error. The hypotheses \<open>tables_ok\<close> and \<open>item_ok\<close> mean: the
  letters are distinct 7-bit characters, neither NUL nor colon; the long names are distinct, without
  \<open>=\<close>, and have at least two characters (getopt.c:69 refuses a name of one character); the values
  that options return are positive; a value is not empty when it is bound to its option by \<open>=\<close> or
  attached to the letter; an attached value \<open>-ovalue\<close> holds no \<open>=\<close> (getopt.c:169 cuts it there); the
  separate value of an option whose value is optional does not begin with a dash; a group does not
  begin with a dash; and an option that takes an optional value and is written without one is
  followed by another option or by the end of the line.\<close>

theorem getopt_roundtrip:
  assumes "tables_ok ls opts" "list_all (item_ok ls opts) its"
    and "args = prog # concat (map (render opts) its)" "length (concat (map (given opts) its)) < fuel"
  shows "\<exists>st. pcl_initopt (int (length args)) (Some (map (\<lambda>t. t @ [0]) args)) (Some (letters_text ls @ [0]))
      (Some opts) (int (length opts)) w = (Some st, w)
    \<and> getopt_all fuel st w = Some (concat (map (given opts) its), 0, w)"
proof (intro exI conjI)
  let ?rs = "concat (map (given opts) its)"
  show "pcl_initopt (int (length args)) (Some (map (\<lambda>t. t @ [0]) args)) (Some (letters_text ls @ [0]))
      (Some opts) (int (length opts)) w = (Some (at_arg ls opts args 1), w)"
    using assms(3) by (intro initopt_at_arg) simp
  obtain n where n: "fuel = length ?rs + Suc n" using assms(4) by (metis add_Suc_right less_imp_Suc_add)
  from goes_items [OF assms(1,2), of args "[prog]" w] assms(3)
  have "goes (at_arg ls opts args 1) w ?rs (at_arg ls opts args (length args))" by simp
  then show "getopt_all fuel (at_arg ls opts args 1) w = Some (?rs, 0, w)"
    unfolding n by (simp add: goes_def getopt_end del: getopt_all.simps add_Suc_right)
qed

text \<open>A command line with every form: \<open>-cd -ofile --board --apple=pie -b no -dax\<close>.\<close>

definition demo_letters :: "(byte \<times> pcl_optpolicy) list" where
  "demo_letters = [(97, PclReqArg), (98, PclOptArg), (99, PclNoArg), (100, PclNoArg), (111, PclReqArg)]"

definition demo_options :: "pcl_option list" where
  "demo_options = [\<lparr>po_name = Some (str_bytes ''apple'' @ [0]), po_policy = PclReqArg, po_val = 97\<rparr>,
     \<lparr>po_name = Some (str_bytes ''board'' @ [0]), po_policy = PclOptArg, po_val = 98\<rparr>]"

definition demo_items :: "item list" where
  "demo_items = [Group [99, 100] Done, Group [] (Attached 111 (str_bytes ''file'')), LongBare 1,
     LongEquals 0 (str_bytes ''pie''), Group [] (Separate 98 (str_bytes ''no'')), Group [100] (Attached 97 (str_bytes ''x''))]"

definition demo_fits :: bool where
  "demo_fits \<longleftrightarrow> tables_ok demo_letters demo_options
     \<and> concat (map (render demo_options) demo_items) = map str_bytes
         [''-cd'', ''-ofile'', ''--board'', ''--apple=pie'', ''-b'', ''no'', ''-dax'']
     \<and> concat (map (given demo_options) demo_items) =
         [(99, None), (100, None), (111, Some (str_bytes ''file'')), (98, None), (97, Some (str_bytes ''pie'')),
          (98, Some (str_bytes ''no'')), (100, None), (97, Some (str_bytes ''x''))]"

lemma demo_fits_holds: demo_fits
  by code_simp

lemma demo_items_ok: "list_all (item_ok demo_letters demo_options) demo_items"
  by (simp add: demo_letters_def demo_options_def demo_items_def bound_value_def free_value_def str_bytes_def)

lemma getopt_roundtrip_witness:
  "\<exists>st. pcl_initopt 8 (Some (map (\<lambda>t. str_bytes t @ [0])
        [''prog'', ''-cd'', ''-ofile'', ''--board'', ''--apple=pie'', ''-b'', ''no'', ''-dax'']))
      (Some (letters_text demo_letters @ [0])) (Some demo_options) 2 err_init = (Some st, err_init)
    \<and> getopt_all 9 st err_init = Some ([(99, None), (100, None), (111, Some (str_bytes ''file'')), (98, None),
          (97, Some (str_bytes ''pie'')), (98, Some (str_bytes ''no'')), (100, None), (97, Some (str_bytes ''x''))], 0, err_init)"
  using getopt_roundtrip [OF _ demo_items_ok refl, of 9 "str_bytes ''prog''" err_init] demo_fits_holds
  by (simp add: demo_fits_def demo_options_def)

section \<open>After an error\<close>

text \<open>A number of calls in a row, whatever they answer.\<close>

fun getopt_times ::
  "nat \<Rightarrow> pcl_optstate \<Rightarrow> 'z pcl_err_scheme \<Rightarrow> (given list \<times> pcl_optstate \<times> 'z pcl_err_scheme) option" where
  "getopt_times 0 st w = Some ([], st, w)"
| "getopt_times (Suc n) st w =
     do { (r, val, lopt, sto, w1) \<leftarrow> pcl_getopt True (Some st) w;
          st1 \<leftarrow> sto;
          v \<leftarrow> value_at st1 val;
          (rs, st2, w2) \<leftarrow> getopt_times n st1 w1;
          Some ((r, v) # rs, st2, w2) }"

text \<open>The error that an unknown letter raises.\<close>

definition unknown_letter :: "nat \<Rightarrow> byte \<Rightarrow> 'z pcl_err_scheme \<Rightarrow> 'z pcl_err_scheme" where
  "unknown_letter i c w =
     raised (''getopt.c'', ''pcl_getopt'', 162) PCL_EINVAL 0
       (Some (opt_msg (int i) ''unknown option'' [char_of (unat c)])) w"

lemma letters_nul: "list_all letter_ok (map fst ls) \<Longrightarrow> 0 \<notin> set (letters_text ls)"
  using colons_facts(2) by (auto simp: letters_text_def list_all_iff letter_ok_def)

lemma unknown_step:
  assumes "list_all letter_ok (map fst ls)" "c \<notin> set (letters_text ls)" "c \<noteq> 0"
    and "i < length args" "args ! i = s @ [c]" "\<not> frozen w"
  shows "pcl_getopt True (Some (in_group ls opts args i (length s))) w
    = Some (-1, None, None, Some (in_group ls opts args i (length s + 1)), unknown_letter i c w)"
proof -
  have arg: "rd (os_argv (at_arg ls opts args i)) (int i) = Some (s @ [c, 0])"
    using assms(4,5) by (simp add: at_arg_def rd_argv)
  have "rd (s @ [c, 0]) (int (length s)) = Some c" by (simp add: rd_int nth_append)
  moreover have "c_strchr c (letters_text ls @ [0]) = Some None"
    using strchr_absent [OF assms(2) letters_nul [OF assms(1)] assms(3), of "[]"] .
  ultimately have "getopt_short True (int i, length s) (in_group ls opts args i (length s)) w
    = opt_fail (''getopt.c'', ''pcl_getopt'', 162) (opt_msg (int i) ''unknown option'' [char_of (unat c)])
        (in_group ls opts args i (length s + 1)) w"
    using arg by (simp add: getopt_short_def at_arg_def in_group_def)
  then show ?thesis
    using assms(6) by (simp add: pcl_getopt_def in_group_def opt_fail_def macros_thawed unknown_letter_def)
qed

lemma times_group:
  assumes "tables_ok ls opts" "list_all (\<lambda>c. map_of ls c = Some PclNoArg) cs"
    and "c \<notin> set (letters_text ls)" "c \<noteq> 0" "i < length args" "args ! i = s @ cs @ [c]" "\<not> frozen w"
  shows "getopt_times (Suc (length cs)) (in_group ls opts args i (length s)) w
    = Some (map (\<lambda>c. (sint c, None)) cs @ [(-1, None)],
        in_group ls opts args i (length s + length cs + 1), unknown_letter i c w)"
  using assms(2,6)
proof (induction cs arbitrary: s)
  case Nil
  have "list_all letter_ok (map fst ls)" using assms(1) by (simp add: tables_ok_def)
  from unknown_step [OF this assms(3-5) _ assms(7), of s opts] Nil show ?case
    by (simp add: value_at_def)
next
  case (Cons d cs)
  have "0 \<notin> set (cs @ [c])"
    using group_nul [OF assms(1), of cs Done] Cons.prems(1) assms(4) by auto
  with Cons.prems obtain lopt where
    "pcl_getopt True (Some (in_group ls opts args i (length s))) w
      = Some (sint d, None, lopt, Some (in_group ls opts args i (length s + 1)), w)"
    using letter_step [OF assms(1) _ assms(5), of d s "cs @ [c]" w] by auto
  then show ?case
    using Cons.IH [of "s @ [d]"] Cons.prems
    by (simp add: getopt_times.simps(2) [of "Suc (length cs)"] value_at_def del: getopt_times.simps)
qed

text \<open>C6: an unknown letter at the end of a group, behind any number of known letters without values,
  with the error not frozen. The calls answer the known letters; the call that meets the unknown one
  answers -1 and raises \<open>PCL_EINVAL\<close> with a message that names the argument and the letter, and
  leaves the state at the NUL behind it, still in the same argument. The next call takes this NUL for
  an option letter, finds it at the end of the option string and reads behind that end: undefined
  behaviour, whatever the program did to the error in between.\<close>

theorem getopt_unknown_last:
  assumes "tables_ok ls opts" "list_all (\<lambda>c. map_of ls c = Some PclNoArg) cs"
    and "c \<notin> set (letters_text ls)" "c \<noteq> 0" "hd (cs @ [c]) \<noteq> 45"
    and "i < length args" "args ! i = 45 # cs @ [c]" "\<not> frozen w"
  shows "getopt_times (length cs + 1) (at_arg ls opts args i) w
      = Some (map (\<lambda>c. (sint c, None)) cs @ [(-1, None)], in_group ls opts args i (length cs + 2),
          unknown_letter i c w)
    \<and> (\<forall>v :: 'z pcl_err_scheme. pcl_getopt True (Some (in_group ls opts args i (length cs + 2))) v = None)"
proof (intro conjI allI)
  let ?st = "in_group ls opts args i (length cs + 2)"
  have letters: "list_all letter_ok (map fst ls)" using assms(1) by (simp add: tables_ok_def)
  have nul: "0 \<notin> set (cs @ [c])"
    using group_nul [OF assms(1,2), of Done] assms(4) by auto
  obtain x t where x: "cs @ [c] = x # t" by (cases "cs @ [c]") auto
  then have "x \<noteq> 45" "x \<noteq> 0" using assms(5) nul by auto
  from enter_first [OF assms(6) _ this, of t ls opts w] x assms(7)
  have "pcl_getopt True (Some (at_arg ls opts args i)) w = pcl_getopt True (Some (in_group ls opts args i 1)) w"
    by simp
  then have "getopt_times (length cs + 1) (at_arg ls opts args i) w
      = getopt_times (length cs + 1) (in_group ls opts args i 1) w" by simp
  with times_group [OF assms(1-4,6) _ assms(8), of "[45]"] assms(7) show
    "getopt_times (length cs + 1) (at_arg ls opts args i) w
      = Some (map (\<lambda>c. (sint c, None)) cs @ [(-1, None)], ?st, unknown_letter i c w)"
    by (simp del: getopt_times.simps)
  fix v :: "'z pcl_err_scheme"
  have "rd (os_argv (at_arg ls opts args i)) (int i) = Some (45 # cs @ [c, 0])"
    using assms(6,7) by (simp add: at_arg_def rd_argv)
  moreover have "rd (45 # cs @ [c, 0]) (int (length cs + 2)) = Some 0"
    by (subst rd_int) (simp_all add: nth_append nth_Cons')
  moreover have "c_strchr 0 (letters_text ls @ [0]) = Some (Some (length (letters_text ls)))"
    using strchr_behind [OF letters_nul [OF letters] letters_nul [OF letters], of "[0]"] by simp
  moreover have "policy_at (letters_text ls @ [0]) (length (letters_text ls)) = None"
    by (simp add: policy_at_def rd_def)
  ultimately have "getopt_short True (int i, length cs + 2) ?st v = None"
    by (simp add: getopt_short_def at_arg_def in_group_def)
  then show "pcl_getopt True (Some ?st) v = None" by (simp add: pcl_getopt_def in_group_def)
qed

lemma demo_tables_ok: "tables_ok demo_letters demo_options"
  using demo_fits_holds by (simp add: demo_fits_def)

lemma getopt_unknown_last_witness:
  "getopt_times 3 (at_arg demo_letters demo_options [str_bytes ''prog'', str_bytes ''-cdz''] 1) err_init
      = Some ([(99, None), (100, None), (-1, None)],
          in_group demo_letters demo_options [str_bytes ''prog'', str_bytes ''-cdz''] 1 4,
          unknown_letter 1 122 err_init)
    \<and> (\<forall>v :: pcl_err. pcl_getopt True (Some (in_group demo_letters demo_options
          [str_bytes ''prog'', str_bytes ''-cdz''] 1 4)) v = None)"
proof -
  have len: "length [99, 100 :: byte] + 1 = 3" "length [99, 100 :: byte] + 2 = 4"
    "map (\<lambda>c. (sint c, None)) [99, 100 :: byte] @ [(-1, None)]
      = [(99, None), (100, None), (-1, None :: byte list option)]"
    by simp_all
  show ?thesis
    by (rule getopt_unknown_last [OF demo_tables_ok, of "[99, 100]" 122 1, unfolded len])
      (simp_all add: demo_letters_def letters_text_def str_bytes_def err_init_def)
qed

text \<open>A long option whose name has one character is reported as a stray dash.\<close>

lemma getopt_long_one_character:
  assumes "i < length args" "args ! i = [45, 45, c]" "c \<noteq> 0"
  shows "\<exists>r w1. pcl_getopt True (Some (at_arg ls opts args i)) w = Some (r, None, None, Some (at_arg ls opts args i), w1) \<and> r \<le> 0"
proof -
  have "rd (os_argv (at_arg ls opts args i)) (int i) = Some [45, 45, c, 0]"
    using assms(1,2) by (simp add: at_arg_def rd_argv)
  then show ?thesis
    using assms(1,3) SETERR_fst [of PCL_EINVAL]
    by (cases "frozen w") (simp_all add: pcl_getopt_def getopt_long_def at_arg_def mem_read_def rd_def arg_string_def opt_fail_def
        macros_frozen macros_thawed)
qed

end
