(* ===== verification/PclFmtconv.thy ===== *)
theory PclFmtconv imports PclString begin

text \<open>
  The conversion of format strings (\<open>src/io/fmtconv.c\<close>, the \<open>char\<close> build on Unix): the
  library's extensions \<open>%/\<close>, \<open>%Ps\<close> and \<open>%Pc\<close> become what the platform's \<open>printf\<close> understands.
  \<open>pcl_format\<close> is the rest of its block from the pointer on; the output is a block, its fill level
  an offset.
\<close>

section \<open>One specifier\<close>

text \<open>The flags, field widths and length modifiers that the inner loop copies: h, l, the digits but
  3, \<open>- + ' * .\<close>, the space, L, q, j and z.\<close>

definition fmt_flags :: "byte list" where
  "fmt_flags = [104, 108, 48, 49, 50, 52, 53, 54, 55, 56, 57, 45, 32, 43, 39, 42, 46, 76, 113, 106, 122]"

text \<open>The inner loop. \<open>prev\<close> is the character in front of the pointer.\<close>

fun fmt_spec :: "byte \<Rightarrow> byte list \<Rightarrow> byte list \<Rightarrow> nat \<Rightarrow> (byte list \<times> byte list \<times> nat) option" where
  "fmt_spec prev [] blk out = None"
| "fmt_spec prev (c # s) blk out =
     (if c = 0 \<or> c = 37 then Some (c # s, blk, out)
      else if c = 47
      then (if prev = 37
            then do { blk1 \<leftarrow> wr blk (int out - 1) 47; fmt_spec c s blk1 out }
            else do { blk1 \<leftarrow> wr blk (int out) c; Some (s, blk1, out + 1) })
      else if c = 80
      then do { d \<leftarrow> rd s 0;
                if d = 115 \<or> d = 99
                then do { blk1 \<leftarrow> wr blk (int out) d; Some (drop 1 s, blk1, out + 1) }
                else do { blk1 \<leftarrow> wr blk (int out) 80; Some (s, blk1, out + 1) } }
      else if c \<in> set fmt_flags
      then do { blk1 \<leftarrow> wr blk (int out) c; fmt_spec c s blk1 (out + 1) }
      else do { blk1 \<leftarrow> wr blk (int out) c; Some (s, blk1, out + 1) })"

lemma fmt_spec_shrinks: "fmt_spec prev f blk out = Some (f', blk', out') \<Longrightarrow> length f' \<le> length f"
  by (induction prev f blk out rule: fmt_spec.induct)
    (auto simp: bind_Some_iff le_SucI split: if_splits)

section \<open>The conversion\<close>

text \<open>\<open>xstrncpy(out, siz, src, n)\<close> into the output block.\<close>

definition fmt_copy ::
  "byte list \<Rightarrow> nat \<Rightarrow> nat \<Rightarrow> byte list \<Rightarrow> nat \<Rightarrow> 'z pcl_err_scheme \<Rightarrow> (byte list \<times> 'z pcl_err_scheme) option" where
  "fmt_copy blk out siz src n w =
     do { (ok, d, w1) \<leftarrow> pcl_strncpy (Some (drop out blk)) siz (Some src) n w;
          d1 \<leftarrow> d;
          Some (take out blk @ d1, w1) }"

function fmt_loop ::
  "nat \<Rightarrow> byte list \<Rightarrow> byte list \<Rightarrow> nat \<Rightarrow> 'z pcl_err_scheme \<Rightarrow> (byte list \<times> nat \<times> 'z pcl_err_scheme) option" where
  "fmt_loop len fmt blk out w =
     do { c \<leftarrow> rd fmt 0;
          if c = 0 then Some (blk, out, w)
          else do { p \<leftarrow> c_strchr 37 fmt;
                    case p of
                      None \<Rightarrow> do { n \<leftarrow> c_strlen fmt;
                                   (blk1, w1) \<leftarrow> fmt_copy blk out (len - out) fmt n w;
                                   Some (blk1, out + n, w1) }
                    | Some k \<Rightarrow>
                        do { (blk1, w1) \<leftarrow> fmt_copy blk out (len - out) fmt (k + 1) w;
                             d \<leftarrow> rd (drop (k + 1) fmt) 0;
                             if d = 37 then fmt_loop len (drop (k + 2) fmt) blk1 (out + k + 1) w1
                             else do { (fmt1, blk2, out1) \<leftarrow> fmt_spec 37 (drop (k + 1) fmt) blk1 (out + k + 1);
                                       fmt_loop len fmt1 blk2 out1 w1 } } } }"
  by pat_completeness auto
termination
  by (relation "measure (\<lambda>(len, fmt, blk, out, w). length fmt)")
    (auto simp: rd_def split: if_splits dest!: fmt_spec_shrinks)

declare fmt_loop.simps [simp del]

text \<open>The result is the caller's buffer or, when that is too small, a new block.\<close>

definition pcl_strfmtconv ::
  "byte \<Rightarrow> byte list \<Rightarrow> nat \<Rightarrow> byte list \<Rightarrow> 'z pcl_err_scheme \<Rightarrow> (bool \<times> byte list \<times> 'z pcl_err_scheme) option" where
  "pcl_strfmtconv junk buf bufsz pcl_format w =
     do { n \<leftarrow> c_strlen pcl_format;
          let len = n + 1;
          let fresh = len > bufsz;
          (blk, out, w1) \<leftarrow> fmt_loop len pcl_format (if fresh then replicate len junk else buf) 0 w;
          blk1 \<leftarrow> wr blk (int out) 0;
          Some (fresh, blk1, w1) }"

end
