(* ===== verification/PclFmtconvOk.thy ===== *)
theory PclFmtconvOk imports PclFmtconv PclStrint begin

text \<open>
  What the conversion of format strings promises: it stays inside its buffer, and a format that is
  written from plain text, \<open>%/\<close>, \<open>%Ps\<close>, \<open>%Pc\<close> and standard specifiers is converted piece by piece.
\<close>

section \<open>The conversion without buffers\<close>

fun flags_ref :: "byte list \<Rightarrow> byte list \<times> byte list" where
  "flags_ref [] = ([], [])"
| "flags_ref (c # s) =
     (if c = 37 then ([], c # s)
      else if c = 47 then ([c], s)
      else if c = 80
      then (case s of d # t \<Rightarrow> if d = 115 \<or> d = 99 then ([d], t) else ([80], s) | [] \<Rightarrow> ([80], []))
      else if c \<in> set fmt_flags then (case flags_ref s of (t, r) \<Rightarrow> (c # t, r))
      else ([c], s))"

definition percent_ref :: "byte list \<Rightarrow> byte list \<times> byte list" where
  "percent_ref s =
     (case s of
        c # t \<Rightarrow> if c = 47 then (case flags_ref t of (u, r) \<Rightarrow> (47 # u, r))
                 else (case flags_ref s of (u, r) \<Rightarrow> (37 # u, r))
      | [] \<Rightarrow> ([37], []))"

declare flags_ref.simps(2) [simp del]

lemma flags_ref_eqs:
  "flags_ref (37 # s) = ([], 37 # s)" "flags_ref (47 # s) = ([47], s)" "flags_ref [80] = ([80], [])"
  "flags_ref (80 # d # t) = (if d = 115 \<or> d = 99 then ([d], t) else ([80], d # t))"
  "c \<noteq> 37 \<Longrightarrow> c \<noteq> 47 \<Longrightarrow> c \<noteq> 80 \<Longrightarrow> flags_ref (c # s) =
     (if c \<in> set fmt_flags then (c # fst (flags_ref s), snd (flags_ref s)) else ([c], s))"
  by (simp_all add: flags_ref.simps(2) split_beta)

lemma flags_ref_cases:
  obtains "s = []" | t where "s = 37 # t" | t where "s = 47 # t" | "s = [80]" | d t where "s = 80 # d # t"
    | c t where "s = c # t" "c \<noteq> 37" "c \<noteq> 47" "c \<noteq> 80"
proof (cases s)
  case (Cons c t)
  note that = that
  show thesis
  proof (cases "c = 37 \<or> c = 47 \<or> c = 80")
    case True
    with Cons show thesis using that(2,3,4,5) by (cases t) auto
  qed (use that(6) Cons in blast)
qed (rule that(1))

lemma flags_ref_length: "length (fst (flags_ref s)) + length (snd (flags_ref s)) \<le> length s"
proof (induction s)
  case (Cons c s)
  show ?case by (rule flags_ref_cases [of "c # s"]) (use Cons in \<open>auto simp: flags_ref_eqs\<close>)
qed simp

lemma percent_ref_eqs:
  "percent_ref [] = ([37], [])" "percent_ref (47 # t) = (47 # fst (flags_ref t), snd (flags_ref t))"
  "c \<noteq> 47 \<Longrightarrow> percent_ref (c # t) = (37 # fst (flags_ref (c # t)), snd (flags_ref (c # t)))"
  by (simp_all add: percent_ref_def split_beta)

lemma percent_ref_cases:
  obtains "s = []" | t where "s = 47 # t" | c t where "s = c # t" "c \<noteq> 47"
  by (cases s) auto

lemma percent_ref_length: "length (fst (percent_ref s)) + length (snd (percent_ref s)) \<le> Suc (length s)"
proof (rule percent_ref_cases [of s])
  fix t assume "s = 47 # t"
  then show ?thesis using flags_ref_length [of t] by (simp add: percent_ref_eqs)
next
  fix c t assume "s = c # t" "c \<noteq> 47"
  then show ?thesis using flags_ref_length [of "c # t"] by (simp add: percent_ref_eqs)
qed (simp add: percent_ref_eqs)

lemma percent_ref_shrinks: "percent_ref s = (u, r) \<Longrightarrow> length r \<le> length s"
proof -
  assume "percent_ref s = (u, r)"
  moreover from this have "u \<noteq> []" by (cases s rule: percent_ref_cases) (auto simp: percent_ref_eqs)
  ultimately show ?thesis using percent_ref_length [of s] by (cases u) auto
qed

function conv_ref :: "byte list \<Rightarrow> byte list" where
  "conv_ref [] = []"
| "conv_ref (c # s) =
     (if c \<noteq> 37 then c # conv_ref s
      else if s \<noteq> [] \<and> hd s = 37 then 37 # conv_ref (tl s)
      else (case percent_ref s of (u, r) \<Rightarrow> u @ conv_ref r))"
  by pat_completeness auto
termination
  by (relation "measure length") (auto dest: percent_ref_shrinks [OF sym])

declare conv_ref.simps(2) [simp del]

lemma conv_ref_plain: "37 \<notin> set s \<Longrightarrow> conv_ref (s @ t) = s @ conv_ref t"
  by (induction s) (auto simp: conv_ref.simps(2))

lemma conv_ref_percent: "conv_ref (37 # 37 # t) = 37 # conv_ref t"
  by (simp add: conv_ref.simps(2))

lemma conv_ref_spec: "s = [] \<or> hd s \<noteq> 37 \<Longrightarrow> conv_ref (37 # s) = fst (percent_ref s) @ conv_ref (snd (percent_ref s))"
  by (auto simp: conv_ref.simps(2) split_beta)

lemma flags_ref_no_nul: "0 \<notin> set s \<Longrightarrow> 0 \<notin> set (fst (flags_ref s)) \<and> 0 \<notin> set (snd (flags_ref s))"
proof (induction s)
  case (Cons c s)
  show ?case by (rule flags_ref_cases [of "c # s"]) (use Cons in \<open>auto simp: flags_ref_eqs\<close>)
qed simp

lemma percent_ref_no_nul: "0 \<notin> set s \<Longrightarrow> 0 \<notin> set (snd (percent_ref s))"
proof (rule percent_ref_cases [of s])
  fix t assume "0 \<notin> set s" "s = 47 # t"
  then show ?thesis using flags_ref_no_nul [of t] by (simp add: percent_ref_eqs)
next
  fix c t assume "0 \<notin> set s" "s = c # t" "c \<noteq> 47"
  then show ?thesis using flags_ref_no_nul [of "c # t"] by (simp add: percent_ref_eqs)
qed (simp add: percent_ref_eqs)

section \<open>The code writes what the reference says\<close>

lemma wr_take:
  assumes "out < length blk"
  shows "\<exists>blk1. wr blk (int out) c = Some blk1 \<and> take (Suc out) blk1 = take out blk @ [c] \<and> length blk1 = length blk"
  using assms by (intro exI [of _ "blk[out := c]"]) (simp add: wr_int)

lemma spec_run:
  assumes "0 \<notin> set s" "prev \<noteq> 37" "out + length s < length blk"
  shows "\<exists>blk1. fmt_spec prev (s @ 0 # r) blk out
      = Some (snd (flags_ref s) @ 0 # r, blk1, out + length (fst (flags_ref s)))
    \<and> take (out + length (fst (flags_ref s))) blk1 = take out blk @ fst (flags_ref s)
    \<and> length blk1 = length blk"
  using assms
proof (induction s arbitrary: prev blk out)
  case (Cons c s)
  from Cons.prems have out: "out < length blk" "c \<noteq> 0" "0 \<notin> set s" by auto
  from wr_take [OF out(1)] obtain blk1 where
    w: "wr blk (int out) c = Some blk1" "take (Suc out) blk1 = take out blk @ [c]" "length blk1 = length blk" by blast
  consider "c = 37" | "c = 80" | "c \<noteq> 37" "c \<noteq> 80" "c \<noteq> 47" "c \<in> set fmt_flags"
    | "c = 47" | "c \<noteq> 37" "c \<noteq> 80" "c \<noteq> 47" "c \<notin> set fmt_flags" by blast
  then show ?case
  proof cases
    case 1
    with out show ?thesis by (simp add: flags_ref_eqs)
  next
    case 2
    show ?thesis
    proof (cases s)
      case Nil
      with 2 out w show ?thesis by (simp add: rd_def flags_ref_eqs)
    next
      case (Cons d t)
      from wr_take [OF out(1), of d] obtain blk2 where
        "wr blk (int out) d = Some blk2" "take (Suc out) blk2 = take out blk @ [d]" "length blk2 = length blk" by blast
      with 2 out w Cons show ?thesis by (cases "d = 115 \<or> d = 99") (simp_all add: rd_def flags_ref_eqs)
    qed
  next
    case 3
    have "Suc out + length s < length blk1" using Cons.prems(3) w(3) by simp
    from Cons.IH [OF out(3) 3(1) this] 3 out w show ?thesis by (auto simp: flags_ref_eqs)
  next
    case 4
    with out w Cons.prems(2) show ?thesis by (simp add: flags_ref_eqs)
  next
    case 5
    with out w show ?thesis by (simp add: flags_ref_eqs)
  qed
qed simp

lemma percent_run:
  assumes "0 \<notin> set s" "out + length s < length blk" "0 < out" "take out blk = pre @ [37]"
  shows "\<exists>blk1. fmt_spec 37 (s @ 0 # r) blk out
      = Some (snd (percent_ref s) @ 0 # r, blk1, length pre + length (fst (percent_ref s)))
    \<and> take (length pre + length (fst (percent_ref s))) blk1 = pre @ fst (percent_ref s)
    \<and> length blk1 = length blk"
proof -
  have pre: "out = Suc (length pre)" using arg_cong [OF assms(4), of length] assms(2) by simp
  show ?thesis
  proof (cases "s \<noteq> [] \<and> hd s = 47")
    case True
    then obtain t where t: "s = 47 # t" by (cases s) auto
    define blk1 where "blk1 = blk[length pre := 47]"
    have "take (length pre) blk = pre" using arg_cong [OF assms(4), of "take (length pre)"] pre by simp
    then have b: "wr blk (int out - 1) 47 = Some blk1" "take out blk1 = pre @ [47]" "length blk1 = length blk"
      using pre assms(2) by (auto simp: blk1_def wr_def)
    have "0 \<notin> set t" "out + length t < length blk1" using assms(1,2) t b(3) by auto
    from spec_run [OF this(1) _ this(2), of 47 r] b t pre show ?thesis
      by (auto simp: percent_ref_eqs)
  next
    case False
    have "fmt_spec 37 (s @ 0 # r) blk out = fmt_spec 0 (s @ 0 # r) blk out"
      using False by (cases s) simp_all
    moreover have "percent_ref s = (37 # fst (flags_ref s), snd (flags_ref s))"
      using False by (cases s) (simp_all add: percent_ref_eqs)
    ultimately show ?thesis
      using spec_run [OF assms(1) _ assms(2), of 0 r] assms(4) pre by auto
  qed
qed

lemma copy_run:
  assumes "n < siz" "out + n < length blk" "n \<le> length src" "0 < n"
  shows "\<exists>blk1. fmt_copy blk out siz src n w = Some (blk1, w)
    \<and> take (out + n) blk1 = take out blk @ take n src \<and> length blk1 = length blk"
proof -
  obtain c d where d: "drop out blk = c # d" using assms(2) by (cases "drop out blk") auto
  have len: "length (drop out blk) = length blk - out" by simp
  then have l: "length d = length blk - out - 1" "n < length blk - out" using assms(2) unfolding d by simp_all
  have "fmt_copy blk out siz src n w
    = Some (take out blk @ (take n src @ drop n (0 # d))[n := 0], w)"
    using assms d l
    by (simp add: fmt_copy_def pcl_strncpy_def wr_def mem_read_def mem_copy_def)
  moreover have "take (out + n) (take out blk @ (take n src @ drop n (0 # d))[n := 0]) = take out blk @ take n src"
    using assms by (simp add: min_def)
  moreover have "length (take out blk @ (take n src @ drop n (0 # d))[n := 0]) = length blk"
    using assms l by simp
  ultimately show ?thesis by blast
qed

lemma conv_ref_length: "length (conv_ref s) \<le> length s"
proof (induction s rule: conv_ref.induct)
  case (2 c s)
  consider "c \<noteq> 37" | t where "c = 37" "s = 37 # t" | "c = 37" "s = [] \<or> hd s \<noteq> 37"
    by (cases s) auto
  then show ?case
  proof cases
    case 1
    with 2(1) show ?thesis by (simp add: conv_ref.simps(2))
  next
    case 2
    with "2.IH"(2) show ?thesis by (simp add: conv_ref_percent)
  next
    case 3
    then have "length (conv_ref (snd (percent_ref s))) \<le> length (snd (percent_ref s))"
      using "2.IH"(3) by (cases "percent_ref s") auto
    with 3 percent_ref_length [of s] show ?thesis by (simp add: conv_ref_spec)
  qed
qed simp

text \<open>The loop over a format \<open>s\<close> in front of its NUL, when what is written so far has left room
  for all of it.\<close>

lemma loop_run:
  assumes "0 \<notin> set s" "out + length s < len" "len \<le> length blk"
  shows "\<exists>blk1. fmt_loop len (s @ 0 # r) blk out w = Some (blk1, out + length (conv_ref s), w)
    \<and> take (out + length (conv_ref s)) blk1 = take out blk @ conv_ref s \<and> length blk1 = length blk"
  using assms
proof (induction "length s" arbitrary: s out blk rule: less_induct)
  case less
  show ?case
  proof (cases "s = []")
    case True
    then show ?thesis by (simp add: fmt_loop.simps rd_def)
  next
    case ne: False
    then have c: "rd (s @ 0 # r) 0 = Some (hd s)" "hd s \<noteq> 0"
      using less.prems(1) by (cases s; force simp: rd_def)+
    show ?thesis
    proof (cases "37 \<in> set s")
      case False
      have len: "length s < len - out" using less.prems by simp
      have "c_strchr 37 (s @ 0 # r) = Some None" using False less.prems(1) by (simp add: strchr_absent)
      moreover have "c_strlen (s @ 0 # r) = Some (length s)" using less.prems(1) by (rule strlen_nul)
      moreover obtain blk1 where
        "fmt_copy blk out (len - out) (s @ 0 # r) (length s) w = Some (blk1, w)"
        "take (out + length s) blk1 = take out blk @ s" "length blk1 = length blk"
        using copy_run [OF len, of out blk "s @ 0 # r" w] less.prems ne by auto
      ultimately show ?thesis
        using c conv_ref_plain [OF False, of "[]"] by (simp add: fmt_loop.simps)
    next
      case True
      then obtain p t where s: "s = p @ 37 # t" "37 \<notin> set p" by (meson split_list_first)
      with less.prems(1) have nul: "0 \<notin> set p" "0 \<notin> set t" by auto
      have k: "c_strchr 37 (s @ 0 # r) = Some (Some (length p))"
        using strchr_behind [OF s(2) nul(1), of "37 # t @ 0 # r"] s(1) by simp
      have len: "length p + 1 < len - out" "out + (length p + 1) < length blk"
        using less.prems(2,3) s(1) by simp_all
      obtain blk1 where b1: "fmt_copy blk out (len - out) (s @ 0 # r) (length p + 1) w = Some (blk1, w)"
        "take (out + (length p + 1)) blk1 = take out blk @ p @ [37]" "length blk1 = length blk"
        using copy_run [OF len, of "s @ 0 # r" w] s(1) by auto
      have rest: "drop (length p + 1) (s @ 0 # r) = t @ 0 # r" "drop (length p + 2) (s @ 0 # r) = tl (t @ 0 # r)"
        using s(1) by (cases t; simp)+
      have d: "rd (t @ 0 # r) 0 = Some (if t = [] then 0 else hd t)" by (cases t) (simp_all add: rd_def)
      have t: "length t < length s" "out + (length p + 1) + length t < len" using s(1) less.prems(2) by simp_all
      show ?thesis
      proof (cases "t \<noteq> [] \<and> hd t = 37")
        case True
        then obtain u where u: "t = 37 # u" by (cases t) auto
        have "fmt_loop len (s @ 0 # r) blk out w = fmt_loop len (u @ 0 # r) blk1 (out + (length p + 1)) w"
          using c k b1(1) rest d u by (subst fmt_loop.simps) simp
        moreover have "conv_ref s = p @ 37 # conv_ref u"
          using conv_ref_plain [OF s(2)] conv_ref_percent s(1) u by simp
        moreover have "length u < length s" "0 \<notin> set u" "out + (length p + 1) + length u < len" "len \<le> length blk1"
          using u t nul less.prems b1(3) by simp_all
        ultimately show ?thesis
          using less.hyps [of u "out + (length p + 1)" blk1] b1(2,3) by (auto simp: add.assoc)
      next
        case False
        let ?q = "fst (percent_ref t)" and ?u = "snd (percent_ref t)"
        have "out + (length p + 1) + length t < length blk1" using t(2) less.prems(3) b1(3) by simp
        from percent_run [OF nul(2) this, of "take out blk @ p" r] b1(2) obtain blk2 where
          b2: "fmt_spec 37 (t @ 0 # r) blk1 (out + (length p + 1))
            = Some (?u @ 0 # r, blk2, length (take out blk @ p) + length ?q)"
          "take (length (take out blk @ p) + length ?q) blk2 = (take out blk @ p) @ ?q" "length blk2 = length blk1"
          by auto
        let ?out2 = "length (take out blk @ p) + length ?q"
        have out2: "?out2 = out + length p + length ?q" using less.prems(2,3) by simp
        have "fmt_loop len (s @ 0 # r) blk out w = fmt_loop len (?u @ 0 # r) blk2 ?out2 w"
          using c k b1(1) rest d b2(1) False by (subst fmt_loop.simps) (auto simp: add.assoc)
        moreover have "conv_ref s = p @ ?q @ conv_ref ?u"
          using conv_ref_plain [OF s(2)] conv_ref_spec [of t] s(1) False by auto
        moreover have "length ?u < length s" "0 \<notin> set ?u" "?out2 + length ?u < len" "len \<le> length blk2"
          using percent_ref_shrinks [of t ?q ?u] percent_ref_length [of t] percent_ref_no_nul [OF nul(2)]
            t less.prems(3) b1(3) b2(3) out2 by auto
        ultimately show ?thesis
          using less.hyps [of ?u ?out2 blk2] b1(3) b2(2,3) out2 by (auto simp: add.assoc)
      qed
    qed
  qed
qed

lemma strfmtconv_ok:
  assumes "0 \<notin> set s" "bufsz \<le> length buf"
  shows "\<exists>u. pcl_strfmtconv junk buf bufsz (s @ 0 # r) w
      = Some (bufsz \<le> length s, conv_ref s @ 0 # u, w)
    \<and> length (conv_ref s @ 0 # u) = (if bufsz \<le> length s then length s + 1 else length buf)"
proof -
  let ?blk = "if length s + 1 > bufsz then replicate (length s + 1) junk else buf"
  have "length s + 1 \<le> length ?blk" using assms(2) by simp
  from loop_run [OF assms(1) _ this, of 0 r w] obtain blk1 where
    b: "fmt_loop (length s + 1) (s @ 0 # r) ?blk 0 w = Some (blk1, length (conv_ref s), w)"
    "take (length (conv_ref s)) blk1 = conv_ref s" "length blk1 = length ?blk"
    by auto
  have room: "length (conv_ref s) < length blk1" using conv_ref_length [of s] b(3) assms(2) by auto
  then have "blk1[length (conv_ref s) := 0] = conv_ref s @ 0 # drop (Suc (length (conv_ref s))) blk1"
    using b(2) by (simp add: upd_conv_take_nth_drop)
  moreover have "c_strlen (s @ 0 # r) = Some (length s)" using assms(1) by (rule strlen_nul)
  ultimately have "pcl_strfmtconv junk buf bufsz (s @ 0 # r) w
      = Some (bufsz \<le> length s, conv_ref s @ 0 # drop (Suc (length (conv_ref s))) blk1, w)"
    using b(1) room by (cases "bufsz \<le> length s") (simp_all add: pcl_strfmtconv_def wr_int Let_def less_Suc_eq_le)
  moreover have "length (conv_ref s @ 0 # drop (Suc (length (conv_ref s))) blk1) = length blk1"
    using room by simp
  ultimately show ?thesis using b(3) by (intro exI [of _ "drop (Suc (length (conv_ref s))) blk1"]) auto
qed

section \<open>Formats by pieces\<close>

text \<open>What a format is written from: plain text, two percent signs, the path separator, a portable
  string or character, and a standard specifier.\<close>

datatype fmt_piece =
    Plain "byte list"
  | Percent
  | Separator
  | Portable "byte list" byte
  | Standard "byte list" byte

fun piece_text :: "fmt_piece \<Rightarrow> byte list" where
  "piece_text (Plain t) = t"
| "piece_text Percent = [37, 37]"
| "piece_text Separator = [37, 47]"
| "piece_text (Portable fl c) = 37 # fl @ [80, c]"
| "piece_text (Standard fl c) = 37 # fl @ [c]"

fun piece_conv :: "fmt_piece \<Rightarrow> byte list" where
  "piece_conv (Plain t) = t"
| "piece_conv Percent = [37]"
| "piece_conv Separator = [47]"
| "piece_conv (Portable fl c) = 37 # fl @ [c]"
| "piece_conv (Standard fl c) = 37 # fl @ [c]"

definition texts :: "fmt_piece list \<Rightarrow> byte list" where
  "texts ps = concat (map piece_text ps)"

text \<open>The scan goes on behind a path separator as if it were a flag; text that it would take for
  flags and a portable string must not follow.\<close>

definition calm :: "byte list \<Rightarrow> bool" where
  "calm t \<longleftrightarrow> (case dropWhile (\<lambda>c. c \<in> set fmt_flags) t of
     c # d # _ \<Rightarrow> \<not> (c = 80 \<and> (d = 115 \<or> d = 99)) | _ \<Rightarrow> True)"

fun pieces_ok :: "fmt_piece list \<Rightarrow> bool" where
  "pieces_ok [] \<longleftrightarrow> True"
| "pieces_ok (Plain t # ps) \<longleftrightarrow> 0 \<notin> set t \<and> 37 \<notin> set t \<and> pieces_ok ps"
| "pieces_ok (Percent # ps) \<longleftrightarrow> pieces_ok ps"
| "pieces_ok (Separator # ps) \<longleftrightarrow> calm (texts ps) \<and> pieces_ok ps"
| "pieces_ok (Portable fl c # ps) \<longleftrightarrow> set fl \<subseteq> set fmt_flags \<and> (c = 115 \<or> c = 99) \<and> pieces_ok ps"
| "pieces_ok (Standard fl c # ps) \<longleftrightarrow>
     set fl \<subseteq> set fmt_flags \<and> c \<notin> {0, 37, 47, 80} \<and> c \<notin> set fmt_flags \<and> pieces_ok ps"

lemma fmt_flags_special: "0 \<notin> set fmt_flags" "37 \<notin> set fmt_flags" "47 \<notin> set fmt_flags" "80 \<notin> set fmt_flags"
  by (simp_all add: fmt_flags_def)

lemma flags_ref_flags:
  "set fl \<subseteq> set fmt_flags \<Longrightarrow> flags_ref (fl @ s) = (fl @ fst (flags_ref s), snd (flags_ref s))"
proof (induction fl)
  case (Cons c fl)
  then have "c \<in> set fmt_flags" by simp
  moreover from this have "c \<noteq> 37" "c \<noteq> 47" "c \<noteq> 80" using fmt_flags_special by blast+
  ultimately show ?case using Cons by (simp add: flags_ref_eqs)
qed simp

lemma flags_ref_calm: "calm s \<Longrightarrow> fst (flags_ref s) @ snd (flags_ref s) = s \<and> 37 \<notin> set (fst (flags_ref s))"
proof (induction s)
  case (Cons c s)
  show ?case
  proof (rule flags_ref_cases [of "c # s"])
    fix d t assume "c # s = d # t" "d \<noteq> 37" "d \<noteq> 47" "d \<noteq> 80"
    moreover have "calm s" if "c \<in> set fmt_flags" using Cons.prems that by (simp add: calm_def)
    ultimately show ?thesis using Cons.IH by (auto simp: flags_ref_eqs)
  next
    fix d t assume "c # s = 80 # d # t"
    with Cons.prems show ?thesis by (auto simp: flags_ref_eqs calm_def fmt_flags_special)
  qed (auto simp: flags_ref_eqs)
qed simp

lemma percent_ref_flags:
  assumes "set fl \<subseteq> set fmt_flags" "fl \<noteq> [] \<or> s \<noteq> [] \<and> hd s \<noteq> 47"
  shows "percent_ref (fl @ s) = (37 # fl @ fst (flags_ref s), snd (flags_ref s))"
proof -
  obtain c t where c: "fl @ s = c # t" using assms(2) by (cases "fl @ s") auto
  have "c \<noteq> 47" using assms c fmt_flags_special(3) by (cases fl) auto
  then show ?thesis
    using percent_ref_eqs(3) [of c t] flags_ref_flags [OF assms(1), of s] c by simp
qed

lemma conv_ref_flags:
  assumes "set fl \<subseteq> set fmt_flags" "s \<noteq> []" "hd s \<noteq> 47" "hd s \<noteq> 37"
  shows "conv_ref (37 # fl @ s) = 37 # fl @ fst (flags_ref s) @ conv_ref (snd (flags_ref s))"
proof -
  have "hd (fl @ s) \<noteq> 37" using assms fmt_flags_special(2) by (cases fl) auto
  then show ?thesis using percent_ref_flags [OF assms(1), of s] assms by (simp add: conv_ref_spec)
qed

lemma conv_pieces: "pieces_ok ps \<Longrightarrow> conv_ref (texts ps) = concat (map piece_conv ps)"
proof (induction ps)
  case (Cons p ps)
  have tx: "texts (p # ps) = piece_text p @ texts ps" by (simp add: texts_def)
  show ?case
  proof (cases p)
    case (Plain t)
    with Cons tx show ?thesis by (simp add: conv_ref_plain)
  next
    case Percent
    with Cons tx show ?thesis by (simp add: conv_ref_percent)
  next
    case Separator
    with Cons.prems have calm: "calm (texts ps)" by simp
    have "conv_ref (texts (p # ps)) = 47 # fst (flags_ref (texts ps)) @ conv_ref (snd (flags_ref (texts ps)))"
      using Separator tx by (simp add: conv_ref_spec percent_ref_eqs)
    also have "\<dots> = 47 # conv_ref (texts ps)"
      using flags_ref_calm [OF calm] conv_ref_plain by metis
    finally show ?thesis using Cons Separator by simp
  next
    case (Portable fl c)
    with Cons show ?thesis
      using conv_ref_flags [of fl "80 # c # texts ps"] tx by (auto simp: flags_ref_eqs)
  next
    case (Standard fl c)
    with Cons show ?thesis
      using conv_ref_flags [of fl "c # texts ps"] tx by (auto simp: flags_ref_eqs)
  qed
qed (simp add: texts_def)

lemma texts_no_nul: "pieces_ok ps \<Longrightarrow> 0 \<notin> set (texts ps)"
proof (induction ps)
  case (Cons p ps)
  then show ?case using fmt_flags_special(1) by (cases p) (auto simp: texts_def)
qed (simp add: texts_def)

text \<open>C7: a format that is written from pieces is converted piece by piece into a terminated format
  of the platform: plain text stays, \<open>%%\<close> becomes one percent sign, \<open>%/\<close> the path separator,
  \<open>%Ps\<close> and \<open>%Pc\<close> lose the \<open>P\<close> and keep their flags, a standard specifier stays. The result is
  inside of the caller's buffer when the format fits there and inside of a new block of the right
  size when it does not. The hypothesis \<open>pieces_ok\<close> means: plain text holds no percent sign and no
  NUL; flags are those that the code knows, the digits but 3, \<open>h l L q j z\<close>, \<open>- + ' * .\<close> and blank
  (a 3 or a \<open>#\<close> counts as the letter that ends a specifier); that letter is no flag, no \<open>P\<close>, \<open>%\<close> or
  \<open>/\<close>; and the text behind \<open>%/\<close> does not begin with flags and then \<open>Ps\<close> or \<open>Pc\<close>, which the code
  would convert as if it belonged to the percent sign (lemma \<open>fmtconv_separator_p\<close>).\<close>

theorem fmtconv_pieces:
  assumes "pieces_ok ps" "bufsz \<le> length buf"
  shows "\<exists>u. pcl_strfmtconv junk buf bufsz (texts ps @ 0 # r) w
      = Some (bufsz \<le> length (texts ps), concat (map piece_conv ps) @ 0 # u, w)
    \<and> length (concat (map piece_conv ps) @ 0 # u)
      = (if bufsz \<le> length (texts ps) then length (texts ps) + 1 else length buf)"
  using strfmtconv_ok [OF texts_no_nul [OF assms(1)] assms(2), of junk r w]
  unfolding conv_pieces [OF assms(1)] .

definition demo_pieces :: "fmt_piece list" where
  "demo_pieces = [Plain (str_bytes ''cannot open ''), Portable [45, 53] 115, Separator,
     Standard [48, 56, 108] 120, Plain (str_bytes '' of ''), Portable [] 99]"

lemma demo_pieces_ok: "pieces_ok demo_pieces"
  by (simp add: demo_pieces_def str_bytes_def texts_def calm_def fmt_flags_def)

lemma demo_pieces_texts:
  "texts demo_pieces = str_bytes ''cannot open %-5Ps%/%08lx of %Pc''"
  "concat (map piece_conv demo_pieces) = str_bytes ''cannot open %-5s/%08lx of %c''"
  by (simp_all add: demo_pieces_def str_bytes_def texts_def)

lemma fmtconv_pieces_witness:
  "\<exists>u. pcl_strfmtconv 0 (replicate 64 1) 64 (str_bytes ''cannot open %-5Ps%/%08lx of %Pc'' @ [0]) err_init
      = Some (False, str_bytes ''cannot open %-5s/%08lx of %c'' @ 0 # u, err_init)
    \<and> length (str_bytes ''cannot open %-5s/%08lx of %c'' @ 0 # u) = 64"
  using fmtconv_pieces [OF demo_pieces_ok, of 64 "replicate 64 1" 0 "[]" err_init]
  by (simp add: demo_pieces_texts str_bytes_def)

text \<open>Where the conversion loses text: two percent signs become one, which the platform's \<open>printf\<close>
  takes for a specifier; a capital P behind a path separator disappears; a field width with a 3 ends
  the specifier.\<close>

lemma fmtconv_percent:
  "conv_ref (str_bytes ''100%% sure'') = str_bytes ''100% sure''"
  by code_simp

lemma fmtconv_separator_p:
  "conv_ref (str_bytes ''dir%/Pcl'') = str_bytes ''dir/cl''"
  by code_simp

lemma fmtconv_width_3:
  "conv_ref (str_bytes ''%3Ps'') = str_bytes ''%3Ps''"
  by code_simp

end
