(* ===== verification/PclParsecmd.thy ===== *)
theory PclParsecmd imports PclArray PclString PclStrint begin

text \<open>
  The splitting of a command line into arguments (\<open>src/process/proc_parsecmd.c\<close>, the \<open>char\<close>
  build). \<open>start\<close> is the rest of the block from the beginning of the current argument on and \<open>k\<close>
  the distance of \<open>shell_cmd\<close> from it. The arguments are duplicates in a pointer table.
\<close>

section \<open>The scan\<close>

text \<open>\<open>pcl_array_free(arr)\<close> in front of an error: the cleanup handler frees the duplicates.\<close>

definition parse_fail ::
  "(byte list, 'c) pcl_array option \<Rightarrow> int \<Rightarrow> string \<Rightarrow> 'z pcl_err_scheme \<Rightarrow>
     ((byte list, 'c) pcl_array option \<times> 'z pcl_err_scheme) option" where
  "parse_fail arr line msg w =
     do { w1 \<leftarrow> pcl_array_free (\<lambda>_ _ w. Some w) arr w;
          Some (R_SETERRMSG None (''proc_parsecmd.c'', ''pcl_proc_parsecmd'', line) PCL_ESYNTAX msg w1) }"

text \<open>Behind the label \<open>finish\<close>: the \<open>NULL\<close> at the end is not counted.\<close>

definition parse_finish ::
  "(byte list, 'c) pcl_array option \<Rightarrow> 'z pcl_err_scheme \<Rightarrow>
     ((byte list, 'c) pcl_array option \<times> 'z pcl_err_scheme) option" where
  "parse_finish arr w =
     do { (n, arr1, w1) \<leftarrow> pcl_array_append arr None w;
          a \<leftarrow> arr1;
          Some (Some (a\<lparr>arr_count := arr_count a - 1\<rparr>), w1) }"

text \<open>An argument of \<open>k\<close> characters is added unless it is empty.\<close>

definition parse_add ::
  "byte list \<Rightarrow> nat \<Rightarrow> (byte list, 'c) pcl_array option \<Rightarrow> 'z pcl_err_scheme \<Rightarrow>
     ((byte list, 'c) pcl_array option \<times> 'z pcl_err_scheme) option" where
  "parse_add start k arr w =
     (if k = 0 then Some (arr, w)
      else do { elem \<leftarrow> pcl_strndup (Some start) k;
                (n, arr1, w1) \<leftarrow> pcl_array_append arr (Some elem) w;
                Some (arr1, w1) })"

text \<open>White space and an opening quote in front of an argument.\<close>

definition parse_open :: "byte list \<Rightarrow> (bool \<times> byte list) option" where
  "parse_open s =
     do { m \<leftarrow> pcl_strskipws c_isspace s;
          c \<leftarrow> rd (drop m s) 0;
          Some (if c = 34 then (True, drop (m + 1) s) else (False, drop m s)) }"

lemma parse_open_shrinks: "parse_open s = Some (q, t) \<Longrightarrow> length t \<le> length s"
  by (auto simp: parse_open_def bind_Some_iff split: if_splits)

function parse_loop ::
  "bool \<Rightarrow> byte list \<Rightarrow> nat \<Rightarrow> (byte list, 'c) pcl_array option \<Rightarrow> 'z pcl_err_scheme \<Rightarrow>
     ((byte list, 'c) pcl_array option \<times> 'z pcl_err_scheme) option" where
  "parse_loop in_quote start k arr w =
     do { c \<leftarrow> rd start (int k);
          if c = 92 then parse_loop in_quote start (k + 2) arr w
          else if c \<in> {0, 34, 32, 9}
          then (if c = 34 \<and> \<not> in_quote then parse_fail arr 77 ''unescaped quote'' w
                else if c \<noteq> 34 \<and> in_quote
                then (if c = 0 then parse_fail arr 87 ''unterminated quote'' w
                      else parse_loop in_quote start (k + 1) arr w)
                else do { (arr1, w1) \<leftarrow> parse_add start k arr w;
                          if c = 0 then parse_finish arr1 w1
                          else do { (q, s) \<leftarrow> parse_open (drop (k + 1) start);
                                    parse_loop q s 0 arr1 w1 } })
          else parse_loop in_quote start (k + 1) arr w }"
  by pat_completeness auto
termination
  by (relation "measure (\<lambda>(q, start, k, arr, w). length start - k)")
    (auto simp: rd_def split: if_splits dest!: parse_open_shrinks)

declare parse_loop.simps [simp del]

definition pcl_proc_parsecmd ::
  "'c \<Rightarrow> byte list option \<Rightarrow> 'z pcl_err_scheme \<Rightarrow>
     ((byte list, 'c) pcl_array option \<times> 'z pcl_err_scheme) option" where
  "pcl_proc_parsecmd pcl_cleanup_ptr shell_cmd w =
     (case shell_cmd of
        None \<Rightarrow> Some (R_SETERR None (''proc_parsecmd.c'', ''pcl_proc_parsecmd'', 45) PCL_EINVAL w)
      | Some s \<Rightarrow> do { (q, start) \<leftarrow> parse_open s;
                      parse_loop q start 0 (Some (pcl_array_new 4 (Some pcl_cleanup_ptr))) w })"

end
