(* ===== verification/PclParsecmdOk.thy ===== *)
theory PclParsecmdOk imports PclParsecmd PclStringOk begin

text \<open>
  What the splitting of command lines promises: a line that is written from words, quoted where they
  hold blanks, is split into exactly these words.
\<close>

section \<open>Lines\<close>

text \<open>The text of a word: a backslash protects the character behind it; otherwise neither a quote nor,
  outside of quotes, a blank or a tab.\<close>

fun body_ok :: "bool \<Rightarrow> byte list \<Rightarrow> bool" where
  "body_ok q [] \<longleftrightarrow> True"
| "body_ok q [c] \<longleftrightarrow> c \<notin> {0, 34, 92} \<and> (q \<or> c \<notin> {32, 9})"
| "body_ok q (c # d # t) \<longleftrightarrow>
     (if c = 92 then d \<noteq> 0 \<and> body_ok q t else c \<notin> {0, 34} \<and> (q \<or> c \<notin> {32, 9}) \<and> body_ok q (d # t))"

text \<open>A word is its text, whether it is quoted, and the white space behind it. A quoted word may be
  empty. An unquoted one does not begin with white space, and the white space behind it begins with a
  blank or a tab, which separates it; at the end of the line there may be none.\<close>

type_synonym cmd_word = "bool \<times> byte list \<times> byte list"

fun word_text :: "cmd_word \<Rightarrow> byte list" where
  "word_text (q, t, g) = (if q then 34 # t @ [34] else t) @ g"

fun word_ok :: "cmd_word \<Rightarrow> bool" where
  "word_ok (q, t, g) \<longleftrightarrow> body_ok q t \<and> (q \<or> t \<noteq> [] \<and> \<not> c_isspace (hd t)) \<and> list_all c_isspace g"

fun separated :: "cmd_word \<Rightarrow> bool" where
  "separated (q, t, g) \<longleftrightarrow> q \<or> g \<noteq> [] \<and> hd g \<in> {32, 9}"

fun words_ok :: "cmd_word list \<Rightarrow> bool" where
  "words_ok [] \<longleftrightarrow> True"
| "words_ok [(q, t, g)] \<longleftrightarrow> word_ok (q, t, g) \<and> (separated (q, t, g) \<or> g = [])"
| "words_ok (x # ws) \<longleftrightarrow> word_ok x \<and> separated x \<and> words_ok ws"

definition line :: "cmd_word list \<Rightarrow> byte list" where
  "line ws = concat (map word_text ws)"

text \<open>The arguments that the splitter keeps: those that are not empty.\<close>

definition kept :: "cmd_word list \<Rightarrow> byte list option list" where
  "kept ws = map (\<lambda>(q, t, g). Some (t @ [0])) (filter (\<lambda>(q, t, g). t \<noteq> []) ws)"

section \<open>Steps of the scan\<close>

lemma scan_char:
  assumes "rd start (int k) = Some c" "c \<notin> {0, 34, 92}" "q \<or> c \<notin> {32, 9}"
  shows "parse_loop q start k arr w = parse_loop q start (k + 1) arr w"
  using assms by (subst parse_loop.simps) auto

lemma scan_body:
  assumes "body_ok q t" "start = s @ t @ r" "length s = k"
  shows "parse_loop q start k arr w = parse_loop q start (k + length t) arr w"
  using assms
proof (induction q t arbitrary: s k rule: body_ok.induct)
  case (2 q c)
  then show ?case by (subst scan_char [of _ _ c]) (auto simp: rd_int nth_append)
next
  case (3 q c d t)
  have c: "rd start (int k) = Some c" using "3.prems"(2,3) by (auto simp: rd_int nth_append)
  show ?case
  proof (cases "c = 92")
    case True
    with "3.prems" have "parse_loop q start (k + 2) arr w = parse_loop q start (k + 2 + length t) arr w"
      by (intro "3.IH"(1) [OF True, of "s @ [c, d]"]) auto
    with c True show ?thesis by (subst parse_loop.simps) simp
  next
    case False
    with "3.prems" have "parse_loop q start (k + 1) arr w = parse_loop q start (k + 1 + length (d # t)) arr w"
      by (intro "3.IH"(2) [OF False, of "s @ [c]"]) auto
    moreover have "parse_loop q start k arr w = parse_loop q start (k + 1) arr w"
      using "3.prems"(1) c False by (intro scan_char [of _ _ c]) auto
    ultimately show ?thesis by simp
  qed
qed simp

lemma skipws_behind:
  "list_all c_isspace g \<Longrightarrow> s = [] \<or> \<not> c_isspace (hd s) \<Longrightarrow> s \<noteq> [] \<Longrightarrow> pcl_strskipws c_isspace (g @ s) = Some (length g)"
  by (induction g) (auto simp: neq_Nil_conv)

text \<open>What \<open>parse_open\<close> finds behind a gap: the next word, or what follows the words, which
  may begin with a quote.\<close>

fun tail_text :: "bool \<times> byte list \<Rightarrow> byte list" where
  "tail_text (q, z) = (if q then 34 # z else z)"

fun tail_ok :: "bool \<times> byte list \<Rightarrow> bool" where
  "tail_ok (q, z) \<longleftrightarrow> q \<or> z \<noteq> [] \<and> hd z \<noteq> 34 \<and> \<not> c_isspace (hd z)"

definition opened :: "cmd_word list \<Rightarrow> bool \<times> byte list \<Rightarrow> bool \<times> byte list" where
  "opened ws z = (case ws of [] \<Rightarrow> z
     | (True, t, g) # us \<Rightarrow> (True, t @ 34 # g @ line us @ tail_text z)
     | _ \<Rightarrow> (False, line ws @ tail_text z))"

lemma line_Cons: "line ((q, t, g) # ws) = (if q then 34 # t @ [34] else t) @ g @ line ws"
  by (simp add: line_def)

lemma not_space_quote: "\<not> c_isspace 34" "\<not> c_isspace 0" "\<not> c_isspace 92"
  by (simp_all add: c_isspace_def)

lemma open_line:
  assumes "list_all c_isspace g" "list_all word_ok ws" "tail_ok z"
  shows "parse_open (g @ line ws @ tail_text z) = Some (opened ws z)"
proof (cases ws)
  case Nil
  then show ?thesis
    using skipws_behind [OF assms(1), of "tail_text z"] assms(3) not_space_quote
    by (cases z; cases "snd z") (auto simp: parse_open_def opened_def line_def rd_def split: if_splits)
next
  case (Cons x us)
  obtain q t g' where x: "x = (q, t, g')" by (cases x) auto
  with assms(2) Cons have ok: "word_ok (q, t, g')" by simp
  show ?thesis
  proof (cases q)
    case True
    then show ?thesis
      using skipws_behind [OF assms(1), of "line ws @ tail_text z"] not_space_quote
      by (simp add: parse_open_def opened_def line_Cons rd_def Cons x)
  next
    case False
    with ok obtain c t' where t: "t = c # t'" by (cases t) auto
    moreover have "c \<noteq> 34" using ok t False by (cases t') (auto split: if_splits)
    ultimately show ?thesis
      using skipws_behind [OF assms(1), of "line ws @ tail_text z"] ok False
      by (simp add: parse_open_def opened_def line_Cons rd_def Cons x)
  qed
qed

section \<open>Words\<close>

lemma parse_add_ok:
  assumes "arr_wf a" "arr_count a < 2 ^ 30"
  obtains a1 where "parse_add (t @ r) (length t) (Some a) w = Some (Some a1, w)" "arr_wf a1"
    "arr_count a1 \<le> arr_count a + 1" "arr_seq a1 = arr_seq a @ kept [(q, t, g)]"
proof (cases "t = []")
  case True
  then show ?thesis using that [of a] assms(1) by (simp add: parse_add_def kept_def)
next
  case False
  obtain a1 where "pcl_array_append (Some a) (Some (t @ [0])) w = Some (arr_count a + 1, Some a1, w)"
    "arr_wf a1" "arr_count a1 = arr_count a + 1" "arr_seq a1 = arr_seq a @ [Some (t @ [0])]"
    by (rule array_append_ok [OF assms, of "Some (t @ [0])" w])
  moreover have "pcl_strndup (Some (t @ r)) (length t) = Some (t @ [0])"
    using False by (simp add: pcl_strndup_def mem_read_def)
  ultimately show ?thesis using False that [of a1] by (simp add: parse_add_def kept_def)
qed

lemma parse_finish_ok:
  assumes "arr_wf a" "arr_count a < 2 ^ 30"
  shows "\<exists>a1. parse_finish (Some a) w = Some (Some a1, w) \<and> arr_wf a1 \<and> arr_seq a1 = arr_seq a
    \<and> rd (arr_elements a1) (arr_count a1) = Some None"
proof -
  obtain a1 where a1: "pcl_array_append (Some a) None w = Some (arr_count a + 1, Some a1, w)"
    "arr_wf a1" "arr_count a1 = arr_count a + 1" "arr_seq a1 = arr_seq a @ [None]"
    by (rule array_append_ok [OF assms, of None w])
  let ?a2 = "a1\<lparr>arr_count := arr_count a1 - 1\<rparr>"
  have c: "0 \<le> arr_count a" using assms(1) by (simp add: arr_wf_def)
  have "arr_wf ?a2" using a1(2,3) c by (simp add: arr_wf_def)
  moreover have "arr_seq ?a2 = take (nat (arr_count a)) (arr_seq a1)"
    using a1(3) c by (simp add: arr_seq_def)
  moreover have "length (arr_seq a) = nat (arr_count a)" using arr_seq_length [OF assms(1)] by simp
  moreover have "arr_elements a1 ! nat (arr_count a) = arr_seq a1 ! nat (arr_count a)"
    using arr_seq_nth [OF a1(2), of "nat (arr_count a)"] a1(4) calculation(3) by simp
  moreover have "arr_count a < int (length (arr_elements a1))" using a1(2,3) by (simp add: arr_wf_def)
  ultimately show ?thesis using a1 c by (simp add: parse_finish_def rd_def nth_append)
qed

text \<open>The scan passes words that are separated and stands before what follows them.\<close>

lemma words_skip:
  assumes "list_all word_ok ws" "list_all separated ws" "tail_ok z"
    and "arr_wf a" "arr_count a + int (length ws) < 2 ^ 30"
  shows "\<exists>a1. parse_loop (fst (opened ws z)) (snd (opened ws z)) 0 (Some a) w
        = parse_loop (fst z) (snd z) 0 (Some a1) w
    \<and> arr_wf a1 \<and> arr_count a1 \<le> arr_count a + int (length ws) \<and> arr_seq a1 = arr_seq a @ kept ws"
  using assms(1,2,4,5)
proof (induction ws arbitrary: a)
  case Nil
  then show ?case by (intro exI [of _ a]) (simp add: opened_def kept_def)
next
  case (Cons x ws)
  obtain q t g where x: "x = (q, t, g)" by (cases x) auto
  have ok: "body_ok q t" "list_all c_isspace g" "list_all word_ok ws" "list_all separated ws"
    "q \<or> g \<noteq> [] \<and> hd g \<in> {32, 9}"
    using Cons.prems(1,2) by (simp_all add: x)
  define start where "start = snd (opened (x # ws) z)"
  have st: "start = t @ (if q then 34 # g @ line ws @ tail_text z else g @ line ws @ tail_text z)"
    "fst (opened (x # ws) z) = q"
    by (cases q; simp add: start_def opened_def x line_Cons)+
  have body: "parse_loop q start 0 (Some a) w = parse_loop q start (length t) (Some a) w"
    using scan_body [OF ok(1), of start "[]" _ 0 "Some a" w] st(1) by simp
  have wf: "arr_wf a" "arr_count a < 2 ^ 30" using Cons.prems(3,4) by simp_all
  from parse_add_ok [OF wf] st(1) obtain a1 where
    a1: "parse_add start (length t) (Some a) w = Some (Some a1, w)" "arr_wf a1"
    "arr_count a1 \<le> arr_count a + 1" "arr_seq a1 = arr_seq a @ kept [(q, t, g)]" by metis
  have "parse_loop q start (length t) (Some a) w
      = parse_loop (fst (opened ws z)) (snd (opened ws z)) 0 (Some a1) w"
  proof (cases q)
    case True
    have "parse_open (drop (length t + 1) start) = Some (opened ws z)"
      using open_line [OF ok(2,3) assms(3)] st(1) True by simp
    with True a1(1) st(1) show ?thesis
      by (subst parse_loop.simps) (auto simp: rd_int nth_append split_beta)
  next
    case False
    then obtain c g' where g: "g = c # g'" "c = 32 \<or> c = 9" using ok(5) by (cases g) auto
    have "parse_open (drop (length t + 1) start) = Some (opened ws z)"
      using open_line [of g' ws z] ok(2,3) assms(3) st(1) False g by simp
    with False g a1(1) st(1) show ?thesis
      by (subst parse_loop.simps) (auto simp: rd_int nth_append split_beta)
  qed
  with body have "parse_loop q start 0 (Some a) w
      = parse_loop (fst (opened ws z)) (snd (opened ws z)) 0 (Some a1) w" by simp
  moreover have "arr_count a1 + int (length ws) < 2 ^ 30" using Cons.prems(4) a1(3) by simp
  moreover have "kept (x # ws) = kept [(q, t, g)] @ kept ws" by (simp add: kept_def x)
  ultimately show ?case
    using Cons.IH [OF ok(3,4) a1(2)] a1(3,4) unfolding st(2) start_def [symmetric] by fastforce
qed

lemma words_okD: "words_ok ws \<Longrightarrow> list_all word_ok ws \<and>
  (list_all separated ws \<or> (\<exists>us t. ws = us @ [(False, t, [])] \<and> list_all separated us))"
proof (induction ws rule: words_ok.induct)
  case (2 q t g)
  then show ?case by (cases "separated (q, t, g)") auto
next
  case (3 x v va)
  from 3 have ok: "word_ok x" "separated x" "list_all word_ok (v # va)" by simp_all
  from 3 consider "list_all separated (v # va)"
    | us t where "v # va = us @ [(False, t, [])]" "list_all separated us" by auto
  then show ?case
  proof cases
    case (2 us t)
    then have "x # v # va = (x # us) @ [(False, t, [])] \<and> list_all separated (x # us)" using ok(2) by simp
    moreover have "list_all word_ok (x # v # va)" using ok by simp
    ultimately show ?thesis by blast
  qed (use ok in simp)
qed simp

lemma parse_words:
  assumes "list_all c_isspace g" "words_ok ws" "arr_wf a" "arr_count a + int (length ws) < 2 ^ 30"
  shows "\<exists>q start a1. parse_open (g @ line ws @ 0 # r) = Some (q, start)
    \<and> parse_loop q start 0 (Some a) w = Some (Some a1, w) \<and> arr_wf a1
    \<and> arr_seq a1 = arr_seq a @ kept ws \<and> rd (arr_elements a1) (arr_count a1) = Some None"
proof -
  from words_okD [OF assms(2)] have ok: "list_all word_ok ws" by blast
  from words_okD [OF assms(2)] consider "list_all separated ws"
    | us t where "ws = us @ [(False, t, [])]" "list_all separated us" by blast
  then show ?thesis
  proof cases
    case 1
    have z: "tail_ok (False, 0 # r)" by (simp add: not_space_quote)
    from words_skip [OF ok 1 z assms(3,4), of w] obtain a1 where a1:
      "parse_loop (fst (opened ws (False, 0 # r))) (snd (opened ws (False, 0 # r))) 0 (Some a) w
        = parse_loop False (0 # r) 0 (Some a1) w"
      "arr_wf a1" "arr_count a1 < 2 ^ 30" "arr_seq a1 = arr_seq a @ kept ws"
      using assms(4) by fastforce
    have "parse_loop False (0 # r) 0 (Some a1) w = parse_finish (Some a1) w"
      by (subst parse_loop.simps) (simp add: rd_def parse_add_def)
    with a1 parse_finish_ok [OF a1(2,3), of w] open_line [OF assms(1) ok z] show ?thesis
      by (cases "opened ws (False, 0 # r)") auto
  next
    case (2 us t)
    let ?z = "(False, t @ 0 # r)"
    from ok 2(1) have t: "list_all word_ok us" "t \<noteq> []" "body_ok False t" "\<not> c_isspace (hd t)" by simp_all
    then obtain c t' where c: "t = c # t'" by (cases t) auto
    have "c \<noteq> 34" using t(3) c by (cases t') (auto split: if_splits)
    with t c have z: "tail_ok ?z" by simp
    have "arr_count a + int (length us) < 2 ^ 30 - 1" using assms(4) 2(1) by simp
    then obtain a1 where a1:
      "parse_loop (fst (opened us ?z)) (snd (opened us ?z)) 0 (Some a) w = parse_loop False (t @ 0 # r) 0 (Some a1) w"
      "arr_wf a1" "arr_count a1 < 2 ^ 30 - 1" "arr_seq a1 = arr_seq a @ kept us"
      using words_skip [OF t(1) 2(2) z assms(3), of w] by fastforce
    have "arr_count a1 < 2 ^ 30" using a1(3) by simp
    from parse_add_ok [OF a1(2) this, of t "0 # r" w False "[]"] obtain a2 where
      a2: "parse_add (t @ 0 # r) (length t) (Some a1) w = Some (Some a2, w)" "arr_wf a2"
      "arr_count a2 \<le> arr_count a1 + 1" "arr_seq a2 = arr_seq a1 @ kept [(False, t, [])]" by metis
    have "parse_loop False (t @ 0 # r) 0 (Some a1) w = parse_loop False (t @ 0 # r) (length t) (Some a1) w"
      using scan_body [OF t(3), of "t @ 0 # r" "[]" "0 # r" 0 "Some a1" w] by simp
    also have "\<dots> = parse_finish (Some a2) w"
      using a2(1) by (subst parse_loop.simps) (simp add: rd_int nth_append)
    finally have "parse_loop False (t @ 0 # r) 0 (Some a1) w = parse_finish (Some a2) w" .
    moreover have "g @ line ws @ 0 # r = g @ line us @ tail_text ?z" by (simp add: 2(1) line_def)
    moreover have "kept ws = kept us @ kept [(False, t, [])]" by (simp add: 2(1) kept_def)
    moreover have "arr_count a2 < 2 ^ 30" using a1(3) a2(3) by simp
    ultimately show ?thesis
      using a1 a2 parse_finish_ok [OF a2(2), of w] open_line [OF assms(1) t(1) z]
      by (cases "opened us ?z") auto
  qed
qed

text \<open>C8: a command line made of words, each bare or quoted, is split into the texts of these words in
  their order, backslashes kept, in a table that holds a \<open>NULL\<close> behind the last one; the scan does
  not leave the line. Empty quoted words are dropped (proc_parsecmd.c adds no empty argument).
  White space of any kind may stand in front of a word and behind a quoted one; the white space
  behind a bare word begins with a blank or a tab (the only ones that end it) and may be missing
  behind the last one. The words hold no bare quote, and a backslash in one protects the character
  behind it.\<close>

theorem parsecmd_words:
  fixes cp :: 'c
  assumes "list_all c_isspace g" "words_ok ws" "int (length ws) < 2 ^ 30"
  shows "\<exists>a. pcl_proc_parsecmd cp (Some (g @ line ws @ 0 # r)) w = Some (Some a, w) \<and> arr_wf a
    \<and> arr_seq a = map (\<lambda>(q, t, g). Some (t @ [0])) (filter (\<lambda>(q, t, g). t \<noteq> []) ws)
    \<and> rd (arr_elements a) (arr_count a) = Some None"
proof -
  let ?a = "pcl_array_new 4 (Some cp) :: (byte list, 'c) pcl_array"
  have wf: "arr_wf ?a" by (rule array_new_wf) (simp add: INT_MAX_def)
  have "arr_count ?a + int (length ws) < 2 ^ 30" using assms(3) by (simp add: pcl_array_new_def Let_def)
  from parse_words [OF assms(1,2) wf this, of r w]
  show ?thesis by (fastforce simp: pcl_proc_parsecmd_def kept_def)
qed

definition demo_words :: "cmd_word list" where
  "demo_words = [(False, str_bytes ''cp'', [32]), (True, str_bytes ''My File'', []), (True, [], [10]),
     (False, [97, 92, 32, 98], [9, 32]), (True, [92, 34], [])]"

lemma demo_words_ok: "words_ok demo_words"
  by (simp add: demo_words_def str_bytes_def c_isspace_def)

lemma parsecmd_words_witness:
  "\<exists>a. pcl_proc_parsecmd (0 :: nat) (Some ([32] @ line demo_words @ 0 # [])) err_init = Some (Some a, err_init)
    \<and> arr_wf a
    \<and> arr_seq a = map (\<lambda>(q, t, g). Some (t @ [0])) (filter (\<lambda>(q, t, g). t \<noteq> []) demo_words)
    \<and> rd (arr_elements a) (arr_count a) = Some None"
  by (rule parsecmd_words [OF _ demo_words_ok]) (simp_all add: c_isspace_def demo_words_def)

section \<open>Beyond the line\<close>

lemma scan_leaves:
  assumes "body_ok q t"
  shows "parse_loop q (t @ [92, 0]) 0 arr w = None"
proof -
  have "parse_loop q (t @ [92, 0]) 0 arr w = parse_loop q (t @ [92, 0]) (length t) arr w"
    using scan_body [OF assms, of "t @ [92, 0]" "[]" "[92, 0]" 0 arr w] by simp
  moreover have "rd (t @ [92, 0]) (int (length t)) = Some 92" "rd (t @ [92, 0]) (int (length t + 2)) = None"
    by (simp_all add: rd_def nth_append)
  moreover have "parse_loop q (t @ [92, 0]) (length t + 2) arr w = None"
    using calculation(3) by (subst parse_loop.simps) simp
  ultimately show ?thesis by (subst (asm) (2) parse_loop.simps) simp
qed

text \<open>C9: a backslash at the end of the line, where it protects the terminating NUL, takes the scan
  behind the end of the string: an access outside of the line, so no result. It holds behind any
  leading white space, any words that are quoted or followed by a blank or a tab, and the text of a
  further word, which may be empty and stand behind an opening quote; in that text a backslash
  protects the character behind it, so the last backslash is not itself protected.\<close>

theorem parsecmd_trailing_backslash:
  fixes cp :: 'c
  assumes "list_all c_isspace g" "list_all word_ok ws" "list_all separated ws" "int (length ws) < 2 ^ 30"
    and "body_ok q t" "q \<or> t = [] \<or> \<not> c_isspace (hd t)"
  shows "pcl_proc_parsecmd cp (Some (g @ line ws @ (if q then 34 # t else t) @ [92, 0])) w = None"
proof -
  let ?a = "pcl_array_new 4 (Some cp) :: (byte list, 'c) pcl_array"
  let ?z = "(q, t @ [92, 0])"
  have wf: "arr_wf ?a" by (rule array_new_wf) (simp add: INT_MAX_def)
  have room: "arr_count ?a + int (length ws) < 2 ^ 30" using assms(4) by (simp add: pcl_array_new_def Let_def)
  have "hd (t @ [92, 0]) \<noteq> 34" if "\<not> q"
    using assms(5) that by (cases t; cases "tl t") (auto split: if_splits)
  then have z: "tail_ok ?z" using assms(6) not_space_quote by (cases t) auto
  have "parse_open (g @ line ws @ tail_text ?z) = Some (opened ws ?z)"
    by (rule open_line [OF assms(1,2) z])
  moreover have "parse_loop (fst (opened ws ?z)) (snd (opened ws ?z)) 0 (Some ?a) w = None"
    using words_skip [OF assms(2,3) z wf room, of w] scan_leaves [OF assms(5)] by auto
  moreover have "g @ line ws @ tail_text ?z = g @ line ws @ (if q then 34 # t else t) @ [92, 0]" by simp
  ultimately show ?thesis by (simp add: pcl_proc_parsecmd_def split_beta)
qed

lemma parsecmd_trailing_backslash_witness:
  "pcl_proc_parsecmd (0 :: nat) (Some ([32] @ line [(False, str_bytes ''dir'', [32])]
     @ (34 # str_bytes ''C:'') @ [92, 0])) err_init = None"
  using parsecmd_trailing_backslash [of "[32]" "[(False, str_bytes ''dir'', [32])]" True "str_bytes ''C:''"
      "0 :: nat" err_init]
  by (simp add: str_bytes_def c_isspace_def)

end
