(* ===== verification/PclErrJson.thy ===== *)
theory PclErrJson imports PclJsonDom begin

text \<open>
  The error of a thread as a JSON value (\<open>src/error/err_vjson.c\<close>, \<open>err_json.c\<close>) and back
  (\<open>err_setjson.c\<close>). The world of the JSON functions extends the error, so both are one state.
\<close>

section \<open>From the error to JSON\<close>

text \<open>A C string that may be \<open>NULL\<close>, and a key.\<close>

definition c_text :: "string option \<Rightarrow> byte list option" where
  "c_text so = map_option (\<lambda>s. str_bytes s @ [0]) so"

abbreviation key :: "string \<Rightarrow> byte list option" where "key k \<equiv> Some (str_bytes k @ [0])"

definition keyflags :: "32 word" where "keyflags = PCL_JSON_SKIPUTF8CHK"

definition strflags :: "32 word" where "strflags = PCL_JSON_EMPTYASNULL OR PCL_JSON_ALLOWNULL"

text \<open>The macro \<open>FAILED\<close>, and a call whose failure leads there.\<close>

definition vjson_fail :: "'r json_lib \<Rightarrow> nat option \<Rightarrow> int \<Rightarrow> 'r jworld \<Rightarrow> 'r made" where
  "vjson_fail L root line w =
     do { w1 \<leftarrow> pcl_json_free (jl_depth L) root w;
          Some (R_TRC None (''err_vjson.c'', ''pcl_err_vjson'', line) w1) }"

definition checked ::
  "(int \<times> 'r jworld) option \<Rightarrow> ('r jworld \<Rightarrow> 'r made) \<Rightarrow> ('r jworld \<Rightarrow> 'r made) \<Rightarrow> 'r made" where
  "checked res failed cont = do { (n, w) \<leftarrow> res; if n < 0 then failed w else cont w }"

text \<open>The object of one trace, or the line of the failure.\<close>

definition trace_failed ::
  "'r json_lib \<Rightarrow> nat option \<Rightarrow> nat option \<Rightarrow> int \<Rightarrow> 'r jworld \<Rightarrow> 'r made" where
  "trace_failed L root jtrace line w =
     do { w1 \<leftarrow> pcl_json_free (jl_depth L) jtrace w; vjson_fail L root line w1 }"

definition trace_json ::
  "'r json_lib \<Rightarrow> nat option \<Rightarrow> pcl_err_trace \<Rightarrow> (nat option \<Rightarrow> 'r jworld \<Rightarrow> 'r made) \<Rightarrow> 'r jworld \<Rightarrow> 'r made" where
  "trace_json L root t cont w =
     do { (jtrace, w1) \<leftarrow> pcl_json_obj L w;
          checked (pcl_json_objputstr L jtrace (key ''file'') (c_text (tr_file t)) (keyflags OR strflags) w1)
            (trace_failed L root jtrace 89) (\<lambda>w2.
          checked (pcl_json_objputstr L jtrace (key ''func'') (c_text (tr_func t)) (keyflags OR strflags) w2)
            (trace_failed L root jtrace 95) (\<lambda>w3.
          checked (pcl_json_objputint L jtrace (key ''line'') (tr_line t) keyflags w3)
            (trace_failed L root jtrace 101) (\<lambda>w4.
          checked (pcl_json_objputstr L jtrace (key ''msg'') (c_text (tr_msg t)) (keyflags OR strflags) w4)
            (trace_failed L root jtrace 107) (cont jtrace)))) }"

fun trace_loop :: "'r json_lib \<Rightarrow> nat option \<Rightarrow> nat option \<Rightarrow> pcl_err_trace list \<Rightarrow> 'r jworld \<Rightarrow> 'r made" where
  "trace_loop L root strc [] w = Some (root, w)"
| "trace_loop L root strc (t # ts) w =
     trace_json L root t (\<lambda>jtrace w5.
       checked (pcl_json_arradd L strc jtrace (keyflags OR PCL_JSON_FREEVALONERR) w5)
         (vjson_fail L root 111) (trace_loop L root strc ts)) w"

text \<open>\<open>msg\<close> is the text that \<open>pcl_vasprintf\<close> makes of the message, \<open>None\<close> when there is no message.\<close>

definition pcl_err_vjson :: "'r json_lib \<Rightarrow> byte list option \<Rightarrow> 'r jworld \<Rightarrow> 'r made" where
  "pcl_err_vjson L msg w0 =
     do { (root, w) \<leftarrow> pcl_json_obj L w0;
          checked (pcl_json_objputint L root (key ''err'') (err w) keyflags w) (vjson_fail L root 52) (\<lambda>w.
          checked (pcl_json_objputstr L root (key ''name'')
                     (c_text (if err w \<noteq> 0 then pcl_err_name (err w) else None)) (keyflags OR strflags) w)
            (vjson_fail L root 57) (\<lambda>w.
          checked (pcl_json_objputint L root (key ''oserr'') (oserr w) keyflags w) (vjson_fail L root 60) (\<lambda>w.
          checked (pcl_json_objputstr L root (key ''osname'')
                     (c_text (if oserr w \<noteq> 0 then Some (pcl_err_osname (oserr w)) else None))
                     (keyflags OR strflags) w)
            (vjson_fail L root 65) (\<lambda>w.
          do { (jmsg, w) \<leftarrow> pcl_json_str msg (strflags OR PCL_JSON_SHALLOW) w;
               checked (pcl_json_objput L root (key ''msg'') jmsg (keyflags OR PCL_JSON_FREEVALONERR) w)
                 (vjson_fail L root 75) (\<lambda>w.
               do { (strc, w) \<leftarrow> pcl_json_arr w;
                    checked (pcl_json_objput L root (key ''strace'') strc (keyflags OR PCL_JSON_FREEVALONERR) w)
                      (vjson_fail L root 80)
                      (\<lambda>w. trace_loop L root strc (strace w) w) }) })))) }"

definition pcl_err_json :: "'r json_lib \<Rightarrow> byte list option \<Rightarrow> 'r jworld \<Rightarrow> 'r made" where
  "pcl_err_json L msg w = pcl_err_vjson L msg w"

section \<open>From JSON to the error\<close>

text \<open>A \<open>char *\<close> argument of \<open>pcl_err_trace\<close>. The message is its format: \<open>text_of\<close> is what
  \<open>vasprintf\<close> makes of it without arguments.\<close>

definition c_arg :: "byte list option \<Rightarrow> string option option" where
  "c_arg bo = (case bo of None \<Rightarrow> Some None | Some b \<Rightarrow> map_option Some (c_string b))"

definition setjson_trace :: "(string \<Rightarrow> string) \<Rightarrow> nat option \<Rightarrow> 'r jworld \<Rightarrow> 'r jworld option" where
  "setjson_trace text_of trc w =
     do { (file, w1) \<leftarrow> pcl_json_objgetstr trc (key ''file'') w;
          (func, w2) \<leftarrow> pcl_json_objgetstr trc (key ''func'') w1;
          (line, w3) \<leftarrow> pcl_json_objgetint trc (key ''line'') w2;
          (msg, w4) \<leftarrow> pcl_json_objgetstr trc (key ''msg'') w3;
          file1 \<leftarrow> c_arg file;
          func1 \<leftarrow> c_arg func;
          msg1 \<leftarrow> c_arg msg;
          let line1 = (if line = PCL_JSON_INVINT then 0 else line);
          Some (snd (pcl_err_trace file1 func1 (signed_take_bit 31 line1) (map_option text_of msg1) w4)) }"

fun setjson_loop :: "(string \<Rightarrow> string) \<Rightarrow> nat option \<Rightarrow> nat \<Rightarrow> 'r jworld \<Rightarrow> 'r jworld option" where
  "setjson_loop text_of strc 0 w = Some w"
| "setjson_loop text_of strc (Suc i) w =
     do { (trc, w1) \<leftarrow> pcl_json_arrget strc (int i) w;
          isobj \<leftarrow> pcl_json_isobj trc w1;
          w2 \<leftarrow> (if isobj then setjson_trace text_of trc w1 else Some w1);
          setjson_loop text_of strc i w2 }"

definition pcl_err_setjson :: "(string \<Rightarrow> string) \<Rightarrow> nat option \<Rightarrow> 'r jworld \<Rightarrow> (int \<times> 'r jworld) option" where
  "pcl_err_setjson text_of error w =
     (if frozen w then Some (0, w)
      else do { isobj \<leftarrow> pcl_json_isobj error w;
                if \<not> isobj then Some (SETERR (''err_setjson.c'', ''pcl_err_setjson'', 47) PCL_ETYPE w)
                else do { (errcode, w1) \<leftarrow> pcl_json_objgetint error (key ''err'') w;
                          (oscode, w2) \<leftarrow> pcl_json_objgetint error (key ''oserr'') w1;
                          (strc, w3) \<leftarrow> pcl_json_objget error (key ''strace'') w2;
                          isarr \<leftarrow> pcl_json_isarr strc w3;
                          if errcode = PCL_JSON_INVINT \<or> oscode = PCL_JSON_INVINT \<or> \<not> isarr
                          then Some (SETERR (''err_setjson.c'', ''pcl_err_setjson'', 54) PCL_EFORMAT w3)
                          else do { let w4 = (snd (pcl_err_clear w3))\<lparr>frozen := True,
                                      err := signed_take_bit 31 errcode, oserr := oscode mod 2 ^ 32\<rparr>;
                                    (n, w5) \<leftarrow> pcl_json_count strc w4;
                                    w6 \<leftarrow> setjson_loop text_of strc (nat n) w5;
                                    Some (0, w6\<lparr>frozen := False\<rparr>) } } })"

end
