(* ===== verification/PclErrJsonOk.thy ===== *)
theory PclErrJsonOk imports PclErrJson PclJsonMatchOk PclJsonOk begin

text \<open>
  What the conversions between a thread's error and JSON promise: the value that \<open>pcl_err_vjson\<close>
  builds represents exactly the error, and \<open>pcl_err_setjson\<close> brings back the codes, without the
  traces.
\<close>

section \<open>The tree of an error\<close>

definition text_tree :: "byte list option \<Rightarrow> 'r jtree" where
  "text_tree so = (case so of None \<Rightarrow> TNull | Some s \<Rightarrow> if s = [] then TNull else TStr s)"

definition trace_tree :: "pcl_err_trace \<Rightarrow> 'r jtree" where
  "trace_tree t = TObj [(''file'', text_tree (map_option str_bytes (tr_file t))),
     (''func'', text_tree (map_option str_bytes (tr_func t))), (''line'', TInt (tr_line t)),
     (''msg'', text_tree (map_option str_bytes (tr_msg t)))]"

definition code_name :: "'z pcl_err_scheme \<Rightarrow> string option" where
  "code_name w = (if err w \<noteq> 0 then pcl_err_name (err w) else None)"

definition os_name :: "'z pcl_err_scheme \<Rightarrow> string option" where
  "os_name w = (if oserr w \<noteq> 0 then Some (pcl_err_osname (oserr w)) else None)"

definition err_head :: "'z pcl_err_scheme \<Rightarrow> byte list option \<Rightarrow> (string \<times> 'r jtree) list" where
  "err_head w msg = [(''err'', TInt (err w)), (''name'', text_tree (map_option str_bytes (code_name w))),
     (''oserr'', TInt (oserr w)), (''osname'', text_tree (map_option str_bytes (os_name w))),
     (''msg'', text_tree msg)]"

definition err_tree :: "'z pcl_err_scheme \<Rightarrow> byte list option \<Rightarrow> 'r jtree" where
  "err_tree w msg = TObj (err_head w msg @ [(''strace'', TArr (map trace_tree (strace w)))])"

text \<open>The texts are C strings and the numbers C integers.\<close>

definition no_nul :: "string option \<Rightarrow> bool" where
  "no_nul so \<longleftrightarrow> (case so of None \<Rightarrow> True | Some s \<Rightarrow> 0 \<notin> set (str_bytes s))"

definition trace_ok :: "pcl_err_trace \<Rightarrow> bool" where
  "trace_ok t \<longleftrightarrow> no_nul (tr_file t) \<and> no_nul (tr_func t) \<and> no_nul (tr_msg t)
     \<and> INT_MIN \<le> tr_line t \<and> tr_line t \<le> INT_MAX"

definition err_ok :: "'z pcl_err_scheme \<Rightarrow> bool" where
  "err_ok w \<longleftrightarrow> \<not> frozen w \<and> INT_MIN \<le> err w \<and> err w \<le> INT_MAX \<and> 0 \<le> oserr w \<and> oserr w < 2 ^ 32
     \<and> list_all trace_ok (strace w)
     \<and> length (strace w) \<le> 2 ^ 28"

text \<open>The tables of names hold C strings.\<close>

definition plain_name :: "string \<Rightarrow> bool" where "plain_name s \<longleftrightarrow> list_all (\<lambda>c. c \<noteq> CHR 0x00) s"

lemma char_byte_zero: "(of_nat (of_char c) :: byte) = 0 \<Longrightarrow> c = CHR 0x00"
proof -
  assume "(of_nat (of_char c) :: byte) = 0"
  then have "c = char_of (0 :: nat)" using char_byte [of c] by simp
  also have "\<dots> = CHR 0x00" by (simp add: char_of_def)
  finally show ?thesis .
qed

lemma image_absent: "\<forall>x \<in> set xs. f x \<noteq> z \<Longrightarrow> z \<notin> set (map f xs)"
  by auto

lemma plain_name_no_nul:
  assumes "plain_name s" shows "no_nul (Some s)"
proof -
  have "\<forall>c \<in> set s. (of_nat (of_char c) :: byte) \<noteq> 0"
  proof (rule ballI, rule notI)
    fix c assume "c \<in> set s" "(of_nat (of_char c) :: byte) = 0"
    then show False using assms char_byte_zero [of c] unfolding plain_name_def list_all_iff by blast
  qed
  then have "0 \<notin> set (str_bytes s)" unfolding str_bytes_def by (rule image_absent)
  then show ?thesis by (simp only: no_nul_def option.case not_False_eq_True)
qed

definition plain_opt :: "string option \<Rightarrow> bool" where
  "plain_opt so \<longleftrightarrow> (case so of None \<Rightarrow> True | Some s \<Rightarrow> plain_name s)"

lemma plain_opt_no_nul: "plain_opt so \<Longrightarrow> no_nul so"
  by (cases so) (simp_all add: plain_opt_def plain_name_no_nul no_nul_def [of None])

lemma names_plain: "list_all (\<lambda>(_, name, _). plain_opt name) error_msgmap"
  by (simp add: error_msgmap_def plain_opt_def plain_name_def)

lemma osnames_plain: "list_all (\<lambda>(_, _, name). plain_name name) error_map"
  by (simp add: error_map_def error_map_1_def error_map_2_def error_map_3_def error_map_4_def plain_name_def)

lemma find_mem: "List.find P xs = Some x \<Longrightarrow> x \<in> set xs"
  by (metis find_Some_iff nth_mem)

lemma code_name_no_nul: "no_nul (code_name w)"
proof -
  have "no_nul (pcl_err_name (err w))"
  proof (cases "List.find (\<lambda>(c, _, _). err w = c) error_msgmap")
    case None
    then show ?thesis by (simp add: pcl_err_name_def no_nul_def str_bytes_def)
  next
    case (Some x)
    then have "x \<in> set error_msgmap" by (rule find_mem)
    then show ?thesis using Some names_plain by (auto simp: pcl_err_name_def list_all_iff intro: plain_opt_no_nul)
  qed
  then show ?thesis by (simp add: code_name_def no_nul_def)
qed

lemma os_name_no_nul: "no_nul (os_name w)"
proof -
  have "no_nul (Some (pcl_err_osname (oserr w)))"
  proof (cases "List.find (\<lambda>(c, _, _). c = oserr w) error_map")
    case None
    then show ?thesis by (simp add: pcl_err_osname_def no_nul_def str_bytes_def)
  next
    case (Some x)
    then have "x \<in> set error_map" by (rule find_mem)
    then show ?thesis using Some osnames_plain by (auto simp: pcl_err_osname_def list_all_iff intro: plain_name_no_nul)
  qed
  then show ?thesis by (simp add: os_name_def no_nul_def)
qed

section \<open>Putting members\<close>

text \<open>The object at \<open>a\<close> has one member more; everything else is as it was.\<close>

definition grown :: "nat \<Rightarrow> (string \<times> 'r jtree) list \<Rightarrow> 'r jworld \<Rightarrow> 'r jworld \<Rightarrow> bool" where
  "grown a us w w' \<longleftrightarrow> object_at w' a us \<and> same_but a w w' \<and> statics_ok w' \<and> same_error w w'"

lemma same_error_trans: "same_error w w1 \<Longrightarrow> same_error w1 w2 \<Longrightarrow> same_error w w2"
  by (simp add: same_error_def)

lemma has_flag_or: "has_flag (x OR y) f \<longleftrightarrow> has_flag x f \<or> has_flag y f"
  by (simp add: has_flag_def bit.conj_disj_distrib2 or_eq_0_iff)

lemma flags_facts:
  "has_flag keyflags PCL_JSON_SKIPUTF8CHK" "\<not> has_flag strflags PCL_JSON_SKIPUTF8CHK"
  "has_flag strflags PCL_JSON_ALLOWNULL" "has_flag strflags PCL_JSON_EMPTYASNULL"
  "\<not> has_flag keyflags PCL_JSON_SHALLOW" "\<not> has_flag strflags PCL_JSON_SHALLOW"
  "\<not> has_flag PCL_JSON_SHALLOW PCL_JSON_SKIPUTF8CHK" "has_flag PCL_JSON_SHALLOW PCL_JSON_SHALLOW"
  by (simp_all add: has_flag_def keyflags_def strflags_def PCL_JSON_SKIPUTF8CHK_def PCL_JSON_ALLOWNULL_def
      PCL_JSON_EMPTYASNULL_def PCL_JSON_SHALLOW_def)

lemmas flag_simps = has_flag_or flags_facts

lemma made_full:
  assumes "statics_ok w" "\<not> frozen w"
  obtains w2 where "made v w = Some (Some (jw_next w), w2)" "same_from 0 w w2"
    "node_at (\<lambda>n. n = 1) w2 (jw_next w) (jw_next w) v" "same_error w w2"
  using made_node [OF assms(1) same_store_simps(1), of v] assms(2)
  by (auto simp: made_def json_alloc_def same_error_def)

lemma str_built:
  assumes "statics_ok w" "\<not> frozen w" "no_nul so"
  obtains p w1 where "pcl_json_str (c_text so) (keyflags OR strflags) w = Some (Some p, w1)"
    "built w w1 p (text_tree (map_option str_bytes so))" "same_error w w1"
proof (cases "so = None \<or> so = Some []")
  case True
  have "pcl_json_str (c_text so) (keyflags OR strflags) w = Some (Some pcl_json_null, w)"
    using True by (auto simp: c_text_def pcl_json_str_def flag_simps)
  moreover have "built w w pcl_json_null (text_tree (map_option str_bytes so))"
    using True by (auto simp: text_tree_def built_def)
  ultimately show ?thesis using that assms(2) by (simp add: same_error_def)
next
  case False
  then obtain s where s: "so = Some s" "str_bytes s \<noteq> []" "s \<noteq> []" by (cases so) (auto simp: str_bytes_def)
  then have nz: "0 \<notin> set (str_bytes s)" using assms(3) by (simp add: no_nul_def)
  obtain w2 where w2: "made (JStr (str_bytes s @ [0])) w = Some (Some (jw_next w), w2)" "same_from 0 w w2"
    "node_at (\<lambda>n. n = 1) w2 (jw_next w) (jw_next w) (JStr (str_bytes s @ [0]))" "same_error w w2"
    by (rule made_full [OF assms(1,2)])
  have "pcl_strndup (Some (str_bytes s @ [0])) (length (str_bytes s)) = Some (str_bytes s @ [0])"
    using strndup_some [of "length (str_bytes s)" "str_bytes s" "[0]"] s(3) by simp
  then have "pcl_json_str (c_text so) (keyflags OR strflags) w = Some (Some (jw_next w), w2)"
    using s w2(1) strlen_nul [OF nz, of "[]"] by (simp add: c_text_def pcl_json_str_def flag_simps)
  moreover have "built w w2 (jw_next w) (text_tree (map_option str_bytes so))"
    using s w2(2,3) by (auto simp: built_def text_tree_def)
  ultimately show ?thesis using that w2(4) by blast
qed

lemma int_built:
  assumes "statics_ok w" "\<not> frozen w" "INT_MIN \<le> i"
  obtains w1 where "pcl_json_int i w = Some (Some (jw_next w), w1)" "built w w1 (jw_next w) (TInt i)" "same_error w w1"
proof -
  obtain w2 where "made (JInt i) w = Some (Some (jw_next w), w2)" "same_from 0 w w2"
    "node_at (\<lambda>n. n = 1) w2 (jw_next w) (jw_next w) (JInt i)" "same_error w w2"
    by (rule made_full [OF assms(1,2)])
  moreover have "i \<noteq> PCL_JSON_INVINT" using assms(3) by (simp add: PCL_JSON_INVINT_def LLONG_MIN_def INT_MIN_def)
  ultimately show ?thesis using that by (simp add: pcl_json_int_def built_def)
qed

text \<open>A step of the builders: the world before it, with the object at \<open>a\<close>.\<close>

definition ready :: "nat \<Rightarrow> (string \<times> 'r jtree) list \<Rightarrow> 'r jworld \<Rightarrow> bool" where
  "ready a us w \<longleftrightarrow> object_at w a us \<and> statics_ok w \<and> \<not> frozen w"

lemma grown_ready: "grown a us w w' \<Longrightarrow> ready a us w'"
  by (simp add: grown_def ready_def same_error_def)

lemma put_built:
  assumes "ready a us w" "built w w1 p t" "same_error w w1" "length us < 2 ^ 28" "k \<notin> fst ` set us"
    "0 \<notin> set (str_bytes k)" "has_flag flags PCL_JSON_SKIPUTF8CHK"
  obtains w2 where "pcl_json_objput L (Some a) (key k) (Some p) flags w1 = Some (0, w2)"
    "grown a (us @ [(k, t)]) w w2"
proof -
  obtain w2 where w2: "pcl_json_objput L (Some a) (key k) (Some p) flags w1 = Some (0, w2)"
    "object_at w2 a (us @ [(k, t)])" "same_but a w w2" "same_error w1 w2"
    using json_objput_full [OF _ assms(2,4-7), of a L "[]"] assms(1) by (auto simp: ready_def)
  have "3 \<le> a" using assms(1) by (auto simp: ready_def object_at_def table_at_def node_at_def)
  then have "statics_ok w2" using assms(1) w2(3) by (auto simp: ready_def intro: statics_but)
  with w2 show ?thesis using that same_error_trans [OF assms(3)] by (auto simp: grown_def)
qed

lemma putstr_step:
  assumes "ready a us w" "length us < 2 ^ 28" "k \<notin> fst ` set us" "0 \<notin> set (str_bytes k)" "no_nul so"
  obtains w2 where "pcl_json_objputstr L (Some a) (key k) (c_text so) (keyflags OR strflags) w = Some (0, w2)"
    "grown a (us @ [(k, text_tree (map_option str_bytes so))]) w w2"
proof -
  have w: "statics_ok w" "\<not> frozen w" using assms(1) by (simp_all add: ready_def)
  obtain p w1 where w1: "pcl_json_str (c_text so) (keyflags OR strflags) w = Some (Some p, w1)"
    "built w w1 p (text_tree (map_option str_bytes so))" "same_error w w1"
    by (rule str_built [OF w assms(5)])
  have fl: "has_flag ((keyflags OR strflags) OR PCL_JSON_FREEVALONERR) PCL_JSON_SKIPUTF8CHK" by (simp add: flag_simps)
  obtain w2 where "pcl_json_objput L (Some a) (key k) (Some p) ((keyflags OR strflags) OR PCL_JSON_FREEVALONERR) w1 = Some (0, w2)"
    "grown a (us @ [(k, text_tree (map_option str_bytes so))]) w w2"
    by (rule put_built [OF assms(1) w1(2,3) assms(2-4) fl])
  with w1(1) show ?thesis using that by (simp add: pcl_json_objputstr_def)
qed

lemma putint_step:
  assumes "ready a us w" "length us < 2 ^ 28" "k \<notin> fst ` set us" "0 \<notin> set (str_bytes k)" "INT_MIN \<le> i"
  obtains w2 where "pcl_json_objputint L (Some a) (key k) i keyflags w = Some (0, w2)"
    "grown a (us @ [(k, TInt i)]) w w2"
proof -
  have w: "statics_ok w" "\<not> frozen w" using assms(1) by (simp_all add: ready_def)
  obtain w1 where w1: "pcl_json_int i w = Some (Some (jw_next w), w1)"
    "built w w1 (jw_next w) (TInt i)" "same_error w w1"
    by (rule int_built [OF w assms(5)])
  have fl: "has_flag (keyflags OR PCL_JSON_FREEVALONERR) PCL_JSON_SKIPUTF8CHK" by (simp add: flag_simps)
  obtain w2 where "pcl_json_objput L (Some a) (key k) (Some (jw_next w)) (keyflags OR PCL_JSON_FREEVALONERR) w1 = Some (0, w2)"
    "grown a (us @ [(k, TInt i)]) w w2"
    by (rule put_built [OF assms(1) w1(2,3) assms(2-4) fl])
  with w1(1) show ?thesis using that by (simp add: pcl_json_objputint_def)
qed

section \<open>The traces\<close>

text \<open>The array at \<open>b\<close> with its traces.\<close>

definition listed :: "nat \<Rightarrow> 'r jtree list \<Rightarrow> 'r jworld \<Rightarrow> 'r jworld \<Rightarrow> bool" where
  "listed b us w w' \<longleftrightarrow> array_at w' b us \<and> same_but b w w' \<and> statics_ok w' \<and> same_error w w'"

lemma key_texts:
  "0 \<notin> set (str_bytes ''file'')" "0 \<notin> set (str_bytes ''func'')" "0 \<notin> set (str_bytes ''line'')"
  "0 \<notin> set (str_bytes ''msg'')" "0 \<notin> set (str_bytes ''err'')" "0 \<notin> set (str_bytes ''name'')"
  "0 \<notin> set (str_bytes ''oserr'')" "0 \<notin> set (str_bytes ''osname'')" "0 \<notin> set (str_bytes ''strace'')"
  by (simp_all add: str_bytes_def)

lemma checked_ok [simp]: "checked (Some (0, w)) f g = g w"
  by (simp add: checked_def)

lemma grown_trans: "grown a us w w1 \<Longrightarrow> grown a vs w1 w2 \<Longrightarrow> grown a vs w w2"
  by (auto simp: grown_def intro: same_but_trans same_error_trans)

lemma trace_object:
  fixes w :: "'r jworld"
  assumes "statics_ok w" "\<not> frozen w" "trace_ok t"
  obtains w5 where
    "\<forall>cont. trace_json L root t cont w = cont (Some (jw_next w)) w5"
    "built w w5 (jw_next w) (trace_tree t)" "same_error w w5"
proof -
  let ?a = "jw_next w"
  obtain w1 where w1: "pcl_json_obj L w = Some (Some ?a, w1)" "same_from 0 w w1" "object_at w1 ?a []" "statics_ok w1"
    "same_error w w1"
    using json_obj_new [OF assms(1), of L] assms(2) by metis
  have r1: "ready ?a [] w1" using w1 by (simp add: ready_def same_error_def)
  have ok: "no_nul (tr_file t)" "no_nul (tr_func t)" "no_nul (tr_msg t)" "INT_MIN \<le> tr_line t"
    using assms(3) by (simp_all add: trace_ok_def)
  define m1 where "m1 = [(''file'', text_tree (map_option str_bytes (tr_file t)) :: 'r jtree)]"
  define m2 where "m2 = m1 @ [(''func'', text_tree (map_option str_bytes (tr_func t)))]"
  define m3 where "m3 = m2 @ [(''line'', TInt (tr_line t))]"
  define m4 where "m4 = m3 @ [(''msg'', text_tree (map_option str_bytes (tr_msg t)))]"
  note ms = m1_def m2_def m3_def m4_def
  obtain w2 where w2: "pcl_json_objputstr L (Some ?a) (key ''file'') (c_text (tr_file t)) (keyflags OR strflags) w1 = Some (0, w2)"
    "grown ?a m1 w1 w2"
    by (rule putstr_step [OF r1 _ _ key_texts(1) ok(1)]) (auto simp: m1_def)
  obtain w3 where w3: "pcl_json_objputstr L (Some ?a) (key ''func'') (c_text (tr_func t)) (keyflags OR strflags) w2 = Some (0, w3)"
    "grown ?a m2 w2 w3"
    by (rule putstr_step [OF grown_ready [OF w2(2)] _ _ key_texts(2) ok(2)]) (auto simp: ms)
  obtain w4 where w4: "pcl_json_objputint L (Some ?a) (key ''line'') (tr_line t) keyflags w3 = Some (0, w4)"
    "grown ?a m3 w3 w4"
    by (rule putint_step [OF grown_ready [OF w3(2)] _ _ key_texts(3) ok(4)]) (auto simp: ms)
  obtain w5 where w5: "pcl_json_objputstr L (Some ?a) (key ''msg'') (c_text (tr_msg t)) (keyflags OR strflags) w4 = Some (0, w5)"
    "grown ?a m4 w4 w5"
    by (rule putstr_step [OF grown_ready [OF w4(2)] _ _ key_texts(4) ok(3)]) (auto simp: ms)
  have g: "grown ?a m4 w1 w5"
    by (rule grown_trans [OF w2(2) grown_trans [OF w3(2) grown_trans [OF w4(2) w5(2)]]])
  have "trace_tree t = TObj m4" by (simp add: trace_tree_def ms)
  then have "built w w5 ?a (trace_tree t)"
    using object_built [OF refl w1(2), of w5 m4] g by (simp add: grown_def)
  moreover have "same_error w w5" using g same_error_trans [OF w1(5)] by (simp add: grown_def)
  moreover have "\<forall>cont. trace_json L root t cont w = cont (Some ?a) w5"
    using w1(1) w2(1) w3(1) w4(1) w5(1) by (simp add: trace_json_def)
  ultimately show ?thesis using that by blast
qed

lemma trace_loop_ok:
  assumes "listed b us w0 w" "list_all trace_ok ts" "length us + length ts \<le> 2 ^ 28"
  shows "\<exists>w'. trace_loop L root (Some b) ts w = Some (root, w') \<and> listed b (us @ map trace_tree ts) w0 w'"
  using assms
proof (induction ts arbitrary: us w)
  case (Cons t ts)
  from Cons.prems(1) have l: "array_at w b us" "same_but b w0 w" "statics_ok w" "same_error w0 w"
    by (simp_all add: listed_def)
  then have nf: "\<not> frozen w" by (simp add: same_error_def)
  have t: "trace_ok t" "list_all trace_ok ts" using Cons.prems(2) by simp_all
  obtain w5 where w5: "\<forall>cont. trace_json L root t cont w = cont (Some (jw_next w)) w5"
    "built w w5 (jw_next w) (trace_tree t)" "same_error w w5"
    by (rule trace_object [OF l(3) nf t(1)])
  have "length us < 2 ^ 28" using Cons.prems(3) by simp
  from json_arradd_full [OF l(1) w5(2) this] obtain w6 where
    w6: "pcl_json_arradd L (Some b) (Some (jw_next w)) (keyflags OR PCL_JSON_FREEVALONERR) w5 = Some (0, w6)"
    "array_at w6 b (us @ [trace_tree t])" "same_but b w w6" "\<not> frozen w5 \<Longrightarrow> same_error w5 w6"
    by blast
  have se: "same_error w5 w6" using w6(4) w5(3) by (simp add: same_error_def)
  have "3 \<le> b" using l(1) by (auto simp: array_at_def node_at_def)
  then have "listed b (us @ [trace_tree t]) w0 w6"
    using w6(2) statics_but [OF l(3) w6(3)] same_but_trans [OF l(2) w6(3)]
      same_error_trans [OF l(4) same_error_trans [OF w5(3) se]]
    by (simp add: listed_def)
  moreover have "trace_loop L root (Some b) (t # ts) w = trace_loop L root (Some b) ts w6"
    using w5(1) w6(1) by simp
  ultimately show ?case using Cons.IH [of "us @ [trace_tree t]" w6] t(2) Cons.prems(3) by simp
qed simp

section \<open>The whole value\<close>

text \<open>A change of the array at \<open>b\<close> leaves the scalars as they are.\<close>

definition scalar :: "'r jtree \<Rightarrow> bool" where
  "scalar t \<longleftrightarrow> (case t of TArr _ \<Rightarrow> False | TObj _ \<Rightarrow> False | _ \<Rightarrow> True)"

lemma scalar_node:
  "node_at R w lo p v \<Longrightarrow> node_at S w b b u \<Longrightarrow> u \<noteq> v \<Longrightarrow> same_but b w w' \<Longrightarrow> node_at R w' lo p v"
  by (auto simp: node_at_def same_but_def)

lemma scalar_frame:
  assumes "rep_pairs R w lo al kvs" "list_all (\<lambda>kv. scalar (snd kv)) kvs"
    and "node_at S w b b (JArr x)" "same_but b w w'"
  shows "rep_pairs R w' lo al kvs"
  using assms(1,2)
proof (induction kvs arbitrary: al)
  case (Cons kv kvs)
  then obtain p al' where al: "al = (fst kv, Some p) # al'" "rep R w lo p (snd kv)" "rep_pairs R w lo al' kvs"
    by auto
  have "rep R w' lo p (snd kv)"
    using al(2) Cons.prems(2) scalar_node [OF _ assms(3) _ assms(4), of R lo p]
    by (cases "snd kv") (auto simp: scalar_def)
  then show ?case using Cons al by auto
qed simp

definition msg_ok :: "byte list option \<Rightarrow> bool" where
  "msg_ok so \<longleftrightarrow> (case so of None \<Rightarrow> True | Some s \<Rightarrow> 0 \<notin> set s \<and> utf8_text s)"

lemma msg_built:
  assumes "statics_ok w" "\<not> frozen w" "msg_ok so"
  obtains p w1 where
    "pcl_json_str (map_option (\<lambda>s. s @ [0]) so) (strflags OR PCL_JSON_SHALLOW) w = Some (Some p, w1)"
    "built w w1 p (text_tree so)" "same_error w w1"
proof (cases "so = None \<or> so = Some []")
  case True
  have "pcl_json_str (map_option (\<lambda>s. s @ [0]) so) (strflags OR PCL_JSON_SHALLOW) w = Some (Some pcl_json_null, w)"
    using True utf8_check_block [of "[]" "[]" w] by (auto simp: pcl_json_str_def flag_simps check_iff [symmetric])
  moreover have "built w w pcl_json_null (text_tree so)" using True by (auto simp: text_tree_def built_def)
  ultimately show ?thesis using that assms(2) by (simp add: same_error_def)
next
  case False
  then obtain s where s: "so = Some s" "s \<noteq> []" by (cases so) auto
  then have u: "0 \<notin> set s" "utf8_text s" using assms(3) by (simp_all add: msg_ok_def)
  obtain w2 where w2: "made (JStr (s @ [0])) w = Some (Some (jw_next w), w2)" "same_from 0 w w2"
    "node_at (\<lambda>n. n = 1) w2 (jw_next w) (jw_next w) (JStr (s @ [0]))" "same_error w w2"
    by (rule made_full [OF assms(1,2)])
  have "pcl_json_str (map_option (\<lambda>s. s @ [0]) so) (strflags OR PCL_JSON_SHALLOW) w = Some (Some (jw_next w), w2)"
    using s w2(1) strlen_nul [OF u(1), of "[]"] utf8_check_block [OF u(2,1), of "[]" w]
    by (simp add: pcl_json_str_def flag_simps)
  moreover have "built w w2 (jw_next w) (text_tree so)" using s w2(2,3) by (auto simp: built_def text_tree_def)
  ultimately show ?thesis using that w2(4) by blast
qed

text \<open>The members in front of the traces.\<close>

lemma head_ok:
  fixes w :: "'r jworld"
  assumes "statics_ok w" "err_ok w" "msg_ok msg"
  obtains w7 where
    "pcl_err_vjson L (map_option (\<lambda>s. s @ [0]) msg) w
      = Option.bind (pcl_json_arr w7) (\<lambda>(strc, w8).
          checked (pcl_json_objput L (Some (jw_next w)) (key ''strace'') strc (keyflags OR PCL_JSON_FREEVALONERR) w8)
            (vjson_fail L (Some (jw_next w)) 80) (\<lambda>w9. trace_loop L (Some (jw_next w)) strc (strace w9) w9))"
    "object_at w7 (jw_next w) (err_head w msg)" "same_from 0 w w7" "statics_ok w7" "same_error w w7"
proof -
  let ?a = "jw_next w"
  have nf: "\<not> frozen w" using assms(2) by (simp add: err_ok_def)
  obtain w1 where w1: "pcl_json_obj L w = Some (Some ?a, w1)" "same_from 0 w w1" "object_at w1 ?a []" "statics_ok w1"
    "same_error w w1"
    using json_obj_new [OF assms(1), of L] nf by metis
  have r1: "ready ?a [] w1" using w1 by (simp add: ready_def same_error_def)
  have e: "INT_MIN \<le> err w" "INT_MIN \<le> oserr w" "no_nul (code_name w)" "no_nul (os_name w)"
    using assms(2) by (simp_all add: err_ok_def INT_MIN_def code_name_no_nul os_name_no_nul)
  define m1 where "m1 = [(''err'', TInt (err w) :: 'r jtree)]"
  define m2 where "m2 = m1 @ [(''name'', text_tree (map_option str_bytes (code_name w)))]"
  define m3 where "m3 = m2 @ [(''oserr'', TInt (oserr w))]"
  define m4 where "m4 = m3 @ [(''osname'', text_tree (map_option str_bytes (os_name w)))]"
  define m5 where "m5 = m4 @ [(''msg'', text_tree msg)]"
  note ms = m1_def m2_def m3_def m4_def m5_def
  obtain w2 where w2: "pcl_json_objputint L (Some ?a) (key ''err'') (err w) keyflags w1 = Some (0, w2)" "grown ?a m1 w1 w2"
    by (rule putint_step [OF r1 _ _ key_texts(5) e(1)]) (auto simp: m1_def)
  obtain w3 where w3: "pcl_json_objputstr L (Some ?a) (key ''name'') (c_text (code_name w)) (keyflags OR strflags) w2 = Some (0, w3)"
    "grown ?a m2 w2 w3"
    by (rule putstr_step [OF grown_ready [OF w2(2)] _ _ key_texts(6) e(3)]) (auto simp: ms)
  obtain w4 where w4: "pcl_json_objputint L (Some ?a) (key ''oserr'') (oserr w) keyflags w3 = Some (0, w4)" "grown ?a m3 w3 w4"
    by (rule putint_step [OF grown_ready [OF w3(2)] _ _ key_texts(7) e(2)]) (auto simp: ms)
  obtain w5 where w5: "pcl_json_objputstr L (Some ?a) (key ''osname'') (c_text (os_name w)) (keyflags OR strflags) w4 = Some (0, w5)"
    "grown ?a m4 w4 w5"
    by (rule putstr_step [OF grown_ready [OF w4(2)] _ _ key_texts(8) e(4)]) (auto simp: ms)
  have r5: "ready ?a m4 w5" by (rule grown_ready [OF w5(2)])
  then have st5: "statics_ok w5" "\<not> frozen w5" by (simp_all add: ready_def)
  obtain p w6 where w6: "pcl_json_str (map_option (\<lambda>s. s @ [0]) msg) (strflags OR PCL_JSON_SHALLOW) w5 = Some (Some p, w6)"
    "built w5 w6 p (text_tree msg)" "same_error w5 w6"
    by (rule msg_built [OF st5 assms(3)])
  have fl: "has_flag (keyflags OR PCL_JSON_FREEVALONERR) PCL_JSON_SKIPUTF8CHK" by (simp add: flag_simps)
  obtain w7 where w7: "pcl_json_objput L (Some ?a) (key ''msg'') (Some p) (keyflags OR PCL_JSON_FREEVALONERR) w6 = Some (0, w7)"
    "grown ?a m5 w5 w7"
    by (rule put_built [OF r5 w6(2,3) _ _ key_texts(4) fl]) (auto simp: ms)
  have g: "grown ?a m5 w1 w7"
    by (rule grown_trans [OF w2(2) grown_trans [OF w3(2) grown_trans [OF w4(2) grown_trans [OF w5(2) w7(2)]]]])
  have se: "same_error w w2" "same_error w w3" "same_error w w4"
    using w1(5) w2(2) w3(2) w4(2) by (simp_all add: grown_def same_error_def)
  have "same_from 0 w w7" using w1(2) g by (auto simp: grown_def same_from_def same_but_def)
  moreover have "same_error w w7" using same_error_trans [OF w1(5)] g by (simp add: grown_def)
  moreover have "object_at w7 ?a (err_head w msg)" using g by (simp add: grown_def ms err_head_def)
  moreover have "statics_ok w7" using g by (simp add: grown_def)
  moreover have ce: "err w1 = err w" "(if err w2 \<noteq> 0 then pcl_err_name (err w2) else None) = code_name w"
    "oserr w3 = oserr w" "(if oserr w4 \<noteq> 0 then Some (pcl_err_osname (oserr w4)) else None) = os_name w"
    using w1(5) se by (simp_all add: same_error_def code_name_def os_name_def)
  have "pcl_err_vjson L (map_option (\<lambda>s. s @ [0]) msg) w
      = Option.bind (pcl_json_arr w7) (\<lambda>(strc, w8).
          checked (pcl_json_objput L (Some ?a) (key ''strace'') strc (keyflags OR PCL_JSON_FREEVALONERR) w8)
            (vjson_fail L (Some ?a) 80) (\<lambda>w9. trace_loop L (Some ?a) strc (strace w9) w9))"
    unfolding pcl_err_vjson_def w1(1) Option.bind.bind_lunit prod.case ce(1) w2(1) checked_ok ce(2) w3(1) ce(3) w4(1)
      ce(4) w5(1) w6(1) w7(1) by (rule refl)
  ultimately show ?thesis using that by blast
qed

lemma err_vjson_ok:
  fixes w :: "'r jworld"
  assumes "statics_ok w" "err_ok w" "msg_ok msg"
  obtains w' where "pcl_err_vjson L (map_option (\<lambda>s. s @ [0]) msg) w = Some (Some (jw_next w), w')"
    "built w w' (jw_next w) (err_tree w msg)" "statics_ok w'" "same_error w w'"
proof -
  let ?a = "jw_next w"
  obtain w7 where w7: "pcl_err_vjson L (map_option (\<lambda>s. s @ [0]) msg) w
      = Option.bind (pcl_json_arr w7) (\<lambda>(strc, w8).
          checked (pcl_json_objput L (Some ?a) (key ''strace'') strc (keyflags OR PCL_JSON_FREEVALONERR) w8)
            (vjson_fail L (Some ?a) 80) (\<lambda>w9. trace_loop L (Some ?a) strc (strace w9) w9))"
    "object_at w7 ?a (err_head w msg)" "same_from 0 w w7" "statics_ok w7" "same_error w w7"
    by (rule head_ok [OF assms])
  let ?b = "jw_next w7"
  have nf7: "\<not> frozen w7" using w7(5) by (simp add: same_error_def)
  obtain w8 where w8: "pcl_json_arr w7 = Some (Some ?b, w8)" "same_from 0 w7 w8"
    "node_at (\<lambda>n. n = 1) w8 ?b ?b (JArr (Some (pcl_array_new 8 (Some ArrayCleanup))))" "same_error w7 w8"
    unfolding pcl_json_arr_def by (rule made_full [OF w7(4) nf7])
  obtain tb where tb: "table_at w7 ?a tb" "rep_pairs (\<lambda>n. n = 1) w7 (?a + 1) (ht_alist tb) (err_head w msg)"
    using w7(2) by (auto simp: object_at_def)
  have ab: "?a < ?b" using tb(1) by (simp add: table_at_def node_at_def)
  have t8: "table_at w8 ?a tb"
    using tb(1) node_at_frame [of "\<lambda>n. n = 1" w7 ?a ?a "JObj tb" w8, OF _ same_from_less [OF w8(2)]]
    by (simp add: table_at_def)
  have la: "length (ht_alist tb) < 2 ^ 29" using rep_pairs_length [OF tb(2)] by (simp add: err_head_def)
  have "fst ` set (ht_alist tb) = fst ` set (err_head w msg :: (string \<times> 'r jtree) list)" using arg_cong [OF rep_pairs_keys [OF tb(2)], of set] by simp
  then have new: "''strace'' \<notin> fst ` set (ht_alist tb)" by (simp add: err_head_def)
  have fl: "has_flag (keyflags OR PCL_JSON_FREEVALONERR) PCL_JSON_SKIPUTF8CHK" by (simp add: flag_simps)
  obtain w9 tb' where w9:
    "pcl_json_objput L (Some ?a) (key ''strace'') (Some ?b) (keyflags OR PCL_JSON_FREEVALONERR) w8 = Some (0, w9)"
    "table_at w9 ?a tb'" "ht_alist tb' = ht_alist tb @ [(''strace'', Some ?b)]"
    "same_but ?a w8 w9" "same_from (?a + 1) w8 w9" "jw_next w9 = jw_next w8" "same_error w8 w9"
    by (rule json_objput_table [OF t8 la new key_texts(9) fl])
  have n9: "node_at (\<lambda>n. n = 1) w9 ?b ?b (JArr (Some (pcl_array_new 8 (Some ArrayCleanup))))"
    using w8(3) w9(4,6) ab by (auto simp: node_at_def same_but_def)
  then have a9: "array_at w9 ?b []"
    by (auto simp: array_at_def pcl_array_new_def arr_seq_def arr_wf_def INT_MAX_def)
  have "3 \<le> ?a" using assms(1) by (simp add: statics_ok_def)
  then have s9: "statics_ok w9"
    using statics_but [OF statics_but [OF w7(4) same_from_but [OF w8(2), of ?a]] w9(4)] by simp
  have e9: "same_error w w9" by (rule same_error_trans [OF w7(5) same_error_trans [OF w8(4) w9(7)]])
  have l9: "listed ?b [] w9 w9" using a9 s9 e9 by (simp add: listed_def same_but_def same_error_def)
  have tr: "list_all trace_ok (strace w9)" "strace w9 = strace w" "length ([] :: 'r jtree list) + length (strace w9) \<le> 2 ^ 28"
    using assms(2) e9 by (simp_all add: err_ok_def same_error_def)
  from trace_loop_ok [OF l9 tr(1,3), of L "Some ?a"] obtain w' where
    w': "trace_loop L (Some ?a) (Some ?b) (strace w9) w9 = Some (Some ?a, w')"
    "listed ?b (map trace_tree (strace w)) w9 w'" using tr(2) by auto
  then have g: "array_at w' ?b (map trace_tree (strace w))" "same_but ?b w9 w'" "statics_ok w'" "same_error w9 w'"
    by (simp_all add: listed_def)
  have run: "pcl_err_vjson L (map_option (\<lambda>s. s @ [0]) msg) w = Some (Some ?a, w')"
    unfolding w7(1) w8(1) Option.bind.bind_lunit prod.case w9(1) checked_ok by (rule w'(1))
  have "rep_pairs (\<lambda>n. n = 1) w9 (?a + 1) (ht_alist tb) (err_head w msg)"
    by (rule rep_frame(3) [OF rep_frame(3) [OF tb(2) same_from_less [OF w8(2)]] w9(5)]) simp
  moreover have "list_all (\<lambda>kv. scalar (snd kv)) (err_head w msg :: (string \<times> 'r jtree) list)"
    by (auto simp: err_head_def scalar_def text_tree_def split: option.splits)
  ultimately have hd: "rep_pairs (\<lambda>n. n = 1) w' (?a + 1) (ht_alist tb) (err_head w msg)"
    using scalar_frame [OF _ _ n9 g(2)] by blast
  have "node_at (\<lambda>n. n = 1) w' ?a ?a (JObj tb')"
    using w9(2) g(2) ab by (auto simp: table_at_def node_at_def same_but_def)
  moreover have arr: "rep (\<lambda>n. n = 1) w' ?a ?b (TArr (map trace_tree (strace w)))"
  proof -
    obtain arr where arr: "node_at (\<lambda>n. n = 1) w' ?b ?b (JArr (Some arr))" "arr_wf arr"
      "arr_cleanup arr = Some ArrayCleanup" "rep_list (\<lambda>n. n = 1) w' (?b + 1) (arr_seq arr) (map trace_tree (strace w))"
      using g(1) by (auto simp: array_at_def)
    have "rep_list (\<lambda>n. n = 1) w' ?a (arr_seq arr) (map trace_tree (strace w))"
      by (rule rep_weaken(2) [OF _ arr(4)]) (use ab in simp_all)
    moreover have "node_at (\<lambda>n. n = 1) w' ?a ?b (JArr (Some arr))" using arr(1) ab by (simp add: node_at_def)
    ultimately show ?thesis using arr(2,3) by auto
  qed
  moreover have hd: "rep_pairs (\<lambda>n. n = 1) w' ?a (ht_alist tb) (err_head w msg)"
    by (rule rep_weaken(3) [OF _ hd]) simp_all
  have "rep_pairs (\<lambda>n. n = 1) w' ?a (ht_alist tb')
    (err_head w msg @ [(''strace'', TArr (map trace_tree (strace w)))])"
    unfolding rep_pairs_append w9(3)
    by (intro exI [of _ "ht_alist tb"] exI [of _ "[(''strace'', Some ?b)]"] conjI refl hd)
      (use arr in \<open>simp del: rep.simps\<close>)
  ultimately have "rep (\<lambda>n. n = 1) w' ?a ?a (err_tree w msg)"
    using w9(2) by (auto simp: err_tree_def table_at_def)
  moreover have "same_from 0 w w'"
    using w7(3) w8(2) w9(4) g(2) ab by (auto simp: same_from_def same_but_def)
  ultimately have "built w w' ?a (err_tree w msg)" by (simp add: built_def)
  with run g(3) same_error_trans [OF e9 g(4)] show ?thesis using that by blast
qed

section \<open>Reading an error back\<close>

text \<open>While the error is frozen, reading a member changes nothing and always succeeds in the sense of C.\<close>

lemma rep_loads:
  assumes "rep R w lo p t" "statics_ok w"
  obtains nd where "json_load p w = Some nd" "\<And>b. js_val nd = JStr b \<Longrightarrow> 0 \<in> set b"
    "\<And>i. t = TInt i \<Longrightarrow> js_val nd = JInt i"
  using assms
  by (cases t) (auto simp: node_at_def json_load_def statics_ok_def pcl_json_bool_def split: if_splits)

lemma same_store_rep: "same_store w w1 \<Longrightarrow> rep R w lo p t \<Longrightarrow> rep R w1 lo p t"
  by (rule rep_frame(1) [OF _ same_store_from])

lemma member_frozen:
  assumes "rep R w lo p (TObj kvs)" "frozen w" "0 \<notin> set (str_bytes k)"
  shows "pcl_json_objget (Some p) (key k) w = Some (None, w)
    \<or> (\<exists>q u. pcl_json_objget (Some p) (key k) w = Some (Some q, w) \<and> rep R w lo q u)"
proof -
  obtain tb where tb: "node_at R w lo p (JObj tb)" "ht_wf tb" "ht_eq tb = (=)" "rep_pairs R w lo (ht_alist tb) kvs"
    using assms(1) by auto
  obtain nd where nd: "json_load p w = Some nd" "js_val nd = JObj tb"
    using tb(1) by (auto simp: node_at_def json_load_def)
  have c: "c_string (str_bytes k @ [0]) = Some k" by (rule c_string_bytes [OF assms(3)])
  have cl: "snd (pcl_err_clear w) = w" using assms(2) by (simp add: pcl_err_clear_def)
  have "case map_of kvs k of None \<Rightarrow> al_get (=) k (ht_alist tb) = None
    | Some u \<Rightarrow> \<exists>q. al_get (=) k (ht_alist tb) = Some (Some q) \<and> rep R w lo q u"
    by (rule rep_pairs_get [OF tb(4)])
  then consider "al_get (=) k (ht_alist tb) = None"
    | q u where "al_get (=) k (ht_alist tb) = Some (Some q)" "rep R w lo q u"
    by (cases "map_of kvs k") auto
  then show ?thesis
  proof cases
    case 1
    then have "pcl_htable_get (Some tb) (Some k) w = Some (None, w)"
      using htable_get_ok [OF tb(2), of k w] tb(3) assms(2) by (simp add: macros_frozen)
    then show ?thesis using nd c assms(2) by (simp add: pcl_json_objget_def macros_frozen)
  next
    case 2
    then have "pcl_htable_get (Some tb) (Some k) w = Some (Some q, w)"
      using htable_get_ok [OF tb(2), of k w] tb(3) cl by simp
    then have "pcl_json_objget (Some p) (key k) w = Some (Some q, w)"
      using nd c by (simp add: pcl_json_objget_def)
    with 2(2) show ?thesis by blast
  qed
qed

lemma strlen_total: "0 \<in> set b \<Longrightarrow> \<exists>n. c_strlen b = Some n"
  by (induction b) auto

lemma getstr_frozen:
  assumes "rep R w lo p (TObj kvs)" "statics_ok w" "frozen w" "0 \<notin> set (str_bytes k)"
  obtains so a where "pcl_json_objgetstr (Some p) (key k) w = Some (so, w)" "c_arg so = Some a"
proof -
  consider "pcl_json_objget (Some p) (key k) w = Some (None, w)"
    | q u where "pcl_json_objget (Some p) (key k) w = Some (Some q, w)" "rep R w lo q u"
    using member_frozen [OF assms(1,3,4)] by blast
  then show ?thesis
  proof cases
    case 1
    then show ?thesis using that [of None None] assms(3)
      by (simp add: pcl_json_objgetstr_def macros_frozen c_arg_def)
  next
    case 2
    obtain nd where nd: "json_load q w = Some nd" "\<And>b. js_val nd = JStr b \<Longrightarrow> 0 \<in> set b"
      using rep_loads [OF 2(2) assms(2)] by metis
    show ?thesis
    proof (cases "\<exists>b. js_val nd = JStr b")
      case True
      then obtain b n where b: "js_val nd = JStr b" "c_strlen b = Some n" using nd(2) strlen_total by blast
      have "pcl_json_objgetstr (Some p) (key k) w = Some (Some b, w)"
        using 2 nd b by (simp add: pcl_json_objgetstr_def)
      moreover have "c_arg (Some b) = Some (Some (map (\<lambda>b. char_of (unat b)) (take n b)))"
        using b(2) by (simp add: c_arg_def c_string_def)
      ultimately show ?thesis by (rule that)
    next
      case False
      then have "pcl_json_objgetstr (Some p) (key k) w = Some (None, w)"
        using 2 nd assms(3) by (cases "js_val nd") (simp_all add: pcl_json_objgetstr_def macros_frozen)
      then show ?thesis using that [of None None] by (simp add: c_arg_def)
    qed
  qed
qed

lemma getint_frozen:
  assumes "rep R w lo p (TObj kvs)" "statics_ok w" "frozen w" "0 \<notin> set (str_bytes k)"
  obtains i where "pcl_json_objgetint (Some p) (key k) w = Some (i, w)"
proof -
  consider "pcl_json_objget (Some p) (key k) w = Some (None, w)"
    | q u where "pcl_json_objget (Some p) (key k) w = Some (Some q, w)" "rep R w lo q u"
    using member_frozen [OF assms(1,3,4)] by blast
  then show ?thesis
  proof cases
    case 1
    then show ?thesis using that assms(3) by (simp add: pcl_json_objgetint_def macros_frozen)
  next
    case 2
    obtain nd where "json_load q w = Some nd" using rep_loads [OF 2(2) assms(2)] by metis
    then show ?thesis using that 2 assms(3)
      by (cases "js_val nd") (simp_all add: pcl_json_objgetint_def macros_frozen)
  qed
qed

lemma setjson_trace_frozen:
  assumes "rep R w lo p (TObj kvs)" "statics_ok w" "frozen w"
  shows "setjson_trace text_of (Some p) w = Some w"
proof -
  obtain f fa where f: "pcl_json_objgetstr (Some p) (key ''file'') w = Some (f, w)" "c_arg f = Some fa"
    by (rule getstr_frozen [OF assms key_texts(1)])
  obtain g ga where g: "pcl_json_objgetstr (Some p) (key ''func'') w = Some (g, w)" "c_arg g = Some ga"
    by (rule getstr_frozen [OF assms key_texts(2)])
  obtain i where i: "pcl_json_objgetint (Some p) (key ''line'') w = Some (i, w)"
    by (rule getint_frozen [OF assms key_texts(3)])
  obtain m ma where m: "pcl_json_objgetstr (Some p) (key ''msg'') w = Some (m, w)" "c_arg m = Some ma"
    by (rule getstr_frozen [OF assms key_texts(4)])
  show ?thesis
    unfolding setjson_trace_def f(1) g(1) i m(1) Option.bind.bind_lunit prod.case f(2) g(2) m(2)
    using assms(3) by (simp add: Let_def pcl_err_trace_def vtrace_frozen)
qed

lemma setjson_loop_frozen:
  assumes "rep R w lo b (TArr ts)" "statics_ok w" "frozen w" "n \<le> length ts"
  shows "setjson_loop text_of (Some b) n w = Some w"
  using assms(4)
proof (induction n)
  case (Suc n)
  obtain a where a: "node_at R w lo b (JArr (Some a))" "arr_wf a" "rep_list R w lo (arr_seq a) ts"
    using assms(1) by auto
  from rep_list_ptrs [OF a(3)] obtain ps where "arr_seq a = map Some ps" by blast
  with rep_list_length [OF a(3)] have ps: "arr_seq a = map Some ps" "length ps = length ts" by simp_all
  have n: "n < length ts" using Suc.prems by simp
  have r: "rep R w lo (ps ! n) (ts ! n)" by (rule rep_list_nth [OF a(3) [unfolded ps(1)] n])
  have cl: "snd (pcl_err_clear w) = w" using assms(3) by (simp add: pcl_err_clear_def)
  have "pcl_array_get (Some a) (int n) w = Some (Some (ps ! n), w)"
    using array_get_in [OF a(2), of n w] ps n cl by simp
  then have get: "pcl_json_arrget (Some b) (int n) w = Some (Some (ps ! n), w)"
    using a(1) by (auto simp: pcl_json_arrget_def node_at_def json_load_def)
  obtain nd where nd: "json_load (ps ! n) w = Some nd" by (rule rep_loads [OF r assms(2)])
  show ?case
  proof (cases "\<exists>kvs. ts ! n = TObj kvs")
    case True
    then obtain kvs where kvs: "rep R w lo (ps ! n) (TObj kvs)" using r by metis
    have "pcl_json_isobj (Some (ps ! n)) w = Some True"
      using kvs by (auto simp: pcl_json_isobj_def json_is_def node_at_def json_load_def json_type_def)
    then show ?thesis using get Suc setjson_trace_frozen [OF kvs assms(2,3)] by simp
  next
    case False
    have "json_type (js_val nd) \<noteq> CHR ''o''"
      using r assms(2)
    proof (cases rule: rep_val)
      case (arr us a')
      then show ?thesis using nd by (simp add: node_val_def json_type_def)
    next
      case (other v)
      then show ?thesis using nd by (cases v) (auto simp: node_val_def json_type_def no_container_def)
    qed (use False in blast)
    then have "pcl_json_isobj (Some (ps ! n)) w = Some False"
      using nd by (simp add: pcl_json_isobj_def json_is_def)
    then show ?thesis using get Suc by simp
  qed
qed simp

text \<open>Reading a member of an object while the error is not frozen.\<close>

lemma member_read:
  assumes "rep R w lo p (TObj kvs)" "statics_ok w" "\<not> frozen w" "0 \<notin> set (str_bytes k)" "map_of kvs k = Some u"
  obtains q w1 where "pcl_json_objget (Some p) (key k) w = Some (Some q, w1)" "rep R w1 lo q u"
    "same_store w w1" "\<not> frozen w1"
proof -
  obtain tb where tb: "node_at R w lo p (JObj tb)" "ht_wf tb" "ht_eq tb = (=)" "rep_pairs R w lo (ht_alist tb) kvs"
    using assms(1) by auto
  obtain q where q: "al_get (=) k (ht_alist tb) = Some (Some q)" "rep R w lo q u"
    using rep_pairs_get [OF tb(4), of k] assms(5) by auto
  have v: "node_val (Some p) w = Some (JObj tb)" using tb(1) by (auto simp: node_val_def node_at_def json_load_def)
  obtain w1 where w1: "pcl_json_objget (Some p) (key k) w
      = Some (case al_get (=) k (ht_alist tb) of Some v \<Rightarrow> v | None \<Rightarrow> None, w1)" "same_store w w1" "\<not> frozen w1"
    by (rule objget_tree [OF v tb(2,3) assms(4,3)]) (use q in simp)
  then show ?thesis using that q same_store_rep [OF w1(2) q(2)] by simp
qed

lemma getint_read:
  assumes "rep R w lo p (TObj kvs)" "statics_ok w" "\<not> frozen w" "0 \<notin> set (str_bytes k)" "map_of kvs k = Some (TInt i)"
  obtains w1 where "pcl_json_objgetint (Some p) (key k) w = Some (i, w1)" "same_store w w1" "\<not> frozen w1"
proof -
  obtain q w1 where q: "pcl_json_objget (Some p) (key k) w = Some (Some q, w1)" "rep R w1 lo q (TInt i)"
    "same_store w w1" "\<not> frozen w1"
    by (rule member_read [OF assms])
  have "statics_ok w1" using q(3) assms(2) by (rule statics_store)
  then obtain nd where "json_load q w1 = Some nd" "js_val nd = JInt i"
    using rep_loads [OF q(2)] by metis
  then show ?thesis using that q by (simp add: pcl_json_objgetint_def)
qed

lemma setjson_ok:
  assumes "rep R w lo p (TObj kvs)" "statics_ok w" "\<not> frozen w"
    and "map_of kvs ''err'' = Some (TInt e)" "map_of kvs ''oserr'' = Some (TInt os)" "map_of kvs ''strace'' = Some (TArr ts)"
    and "e \<noteq> PCL_JSON_INVINT" "os \<noteq> PCL_JSON_INVINT"
  obtains w' where "pcl_err_setjson text_of (Some p) w = Some (0, w')"
    "err w' = signed_take_bit 31 e" "oserr w' = os mod 2 ^ 32" "strace w' = []" "\<not> frozen w'" "same_store w w'"
proof -
  have isobj: "pcl_json_isobj (Some p) w = Some True"
    using assms(1) by (auto simp: pcl_json_isobj_def json_is_def node_at_def json_load_def json_type_def)
  obtain w1 where w1: "pcl_json_objgetint (Some p) (key ''err'') w = Some (e, w1)" "same_store w w1" "\<not> frozen w1"
    by (rule getint_read [OF assms(1-3) key_texts(5) assms(4)])
  have s1: "rep R w1 lo p (TObj kvs)" "statics_ok w1"
    by (rule same_store_rep [OF w1(2) assms(1)], rule statics_store [OF w1(2) assms(2)])
  obtain w2 where w2: "pcl_json_objgetint (Some p) (key ''oserr'') w1 = Some (os, w2)" "same_store w1 w2" "\<not> frozen w2"
    by (rule getint_read [OF s1 w1(3) key_texts(7) assms(5)])
  have s2: "rep R w2 lo p (TObj kvs)" "statics_ok w2"
    by (rule same_store_rep [OF w2(2) s1(1)], rule statics_store [OF w2(2) s1(2)])
  obtain b w3 where w3: "pcl_json_objget (Some p) (key ''strace'') w2 = Some (Some b, w3)" "rep R w3 lo b (TArr ts)"
    "same_store w2 w3" "\<not> frozen w3"
    by (rule member_read [OF s2 w2(3) key_texts(9) assms(6)])
  have isarr: "pcl_json_isarr (Some b) w3 = Some True"
    using w3(2) by (auto simp: pcl_json_isarr_def json_is_def node_at_def json_load_def json_type_def)
  define w4 where "w4 = (snd (pcl_err_clear w3))\<lparr>frozen := True, err := signed_take_bit 31 e, oserr := os mod 2 ^ 32\<rparr>"
  have s4: "same_store w3 w4" "frozen w4" "err w4 = signed_take_bit 31 e" "oserr w4 = os mod 2 ^ 32" "strace w4 = []"
    using w3(4) by (simp_all add: w4_def pcl_err_clear_def pcl_err_osclear_def same_store_def)
  have r4: "rep R w4 lo b (TArr ts)" by (rule same_store_rep [OF s4(1) w3(2)])
  have st4: "statics_ok w4" by (rule statics_store [OF s4(1) statics_store [OF w3(3) s2(2)]])
  obtain a where a: "node_at R w4 lo b (JArr (Some a))" "arr_wf a" "rep_list R w4 lo (arr_seq a) ts" using r4 by auto
  have "arr_count a = int (length ts)" using arr_seq_length [OF a(2)] rep_list_length [OF a(3)] by simp
  then have n: "pcl_json_count (Some b) w4 = Some (int (length ts), w4)"
    using a(1) by (auto simp: pcl_json_count_def node_at_def json_load_def)
  have loop: "setjson_loop text_of (Some b) (length ts) w4 = Some w4"
    by (rule setjson_loop_frozen [OF r4 st4 s4(2)]) simp
  have "pcl_err_setjson text_of (Some p) w = Some (0, w4\<lparr>frozen := False\<rparr>)"
    unfolding pcl_err_setjson_def isobj w1(1) w2(1) w3(1) isarr Option.bind.bind_lunit prod.case Let_def
      w4_def [symmetric] n nat_int loop
    using assms(3,7,8) by simp
  moreover have "same_store w (w4\<lparr>frozen := False\<rparr>)"
    using w1(2) w2(2) w3(3) s4(1) by (simp add: same_store_def)
  ultimately show ?thesis using that s4 by simp
qed

section \<open>The properties\<close>

text \<open>C10: \<open>pcl_err_json\<close> turns the error of the thread into a new JSON object that represents
  exactly the error: both codes with their names, the message, and every trace with its file,
  function, line and message in stack order, an empty or missing text as \<open>null\<close>. The error itself
  stays as it was.\<close>

theorem err_json_value:
  assumes "statics_ok w" "err_ok w" "msg_ok msg"
  shows "\<exists>w'. pcl_err_json L (map_option (\<lambda>s. s @ [0]) msg) w = Some (Some (jw_next w), w')
    \<and> built w w' (jw_next w) (err_tree w msg) \<and> same_error w w'"
  using err_vjson_ok [OF assms, of L] unfolding pcl_err_json_def by metis

definition sample_error :: "nat jworld" where
  "sample_error = json_init\<lparr>err := PCL_EBUF, oserr := 0, strace :=
     [\<lparr>tr_file = Some ''query.c'', tr_func = Some ''select'', tr_line = 99, tr_msg = Some ''no rows'', tr_size = 0\<rparr>,
      \<lparr>tr_file = Some ''buf.c'', tr_func = None, tr_line = 7, tr_msg = None, tr_size = 0\<rparr>]\<rparr>"

lemma sample_error_ok: "statics_ok sample_error" "err_ok sample_error" "msg_ok (Some (str_bytes ''a''))"
  "statics_ok (json_init :: nat jworld)"
  by (simp_all add: sample_error_def statics_ok_def json_init_def err_ok_def trace_ok_def no_nul_def msg_ok_def
      check_iff [symmetric] str_bytes_def err_init_def INT_MIN_def INT_MAX_def pcl_err.defs
      pcl_json_null_def pcl_json_true_def pcl_json_false_def)

lemma err_json_value_witness:
  "\<exists>w'. pcl_err_json (sample_lib 7) (map_option (\<lambda>s. s @ [0]) (Some (str_bytes ''a''))) sample_error = Some (Some (jw_next sample_error), w')
    \<and> built sample_error w' (jw_next sample_error) (err_tree sample_error (Some (str_bytes ''a''))) \<and> same_error sample_error w'"
  by (rule err_json_value [OF sample_error_ok(1-3)])

definition sample_err_tree :: "nat jtree" where
  "sample_err_tree = TObj [(''err'', TInt PCL_EBUF), (''name'', TStr (str_bytes ''PCL_EBUF'')), (''oserr'', TInt 0),
     (''osname'', TNull), (''msg'', TStr (str_bytes ''a'')),
     (''strace'', TArr [TObj [(''file'', TStr (str_bytes ''query.c'')), (''func'', TStr (str_bytes ''select'')),
        (''line'', TInt 99), (''msg'', TStr (str_bytes ''no rows''))],
      TObj [(''file'', TStr (str_bytes ''buf.c'')), (''func'', TNull), (''line'', TInt 7), (''msg'', TNull)]])]"

lemma sample_err_tree: "err_tree sample_error (Some (str_bytes ''a'')) = sample_err_tree"
proof -
  have "pcl_err_name PCL_EBUF = Some ''PCL_EBUF''" by code_simp
  then show ?thesis
    by (simp add: err_tree_def err_head_def sample_error_def sample_err_tree_def code_name_def os_name_def
        text_tree_def trace_tree_def str_bytes_def)
qed

lemma sample_err_fits: "fits sample_err_tree"
proof -
  have "list_all utf8_text (map str_bytes [''PCL_EBUF'', ''a'', ''query.c'', ''select'', ''no rows'', ''buf.c'',
      ''err'', ''name'', ''oserr'', ''osname'', ''msg'', ''strace'', ''file'', ''func'', ''line''])"
    by (simp add: check_iff [symmetric])
  then show ?thesis
    by (simp add: sample_err_tree_def str_ok_def LLONG_MIN_def LLONG_MAX_def needs_u_def)
qed

lemma sample_err_size: "need sample_err_tree \<le> 100"
  "length (json_text (sample_lib 7) False 0 sample_err_tree) \<le> 2 ^ 28"
  by (simp_all add: sample_err_tree_def string_text_def char_text_def
      string_escape_def indent_def line_break_def int_dec_def nat_dec.simps dec_digit_def)

text \<open>C11: an error that one thread turns into JSON and into text, and that another thread decodes and
  sets as its own error, keeps its code and its system code; its traces are lost, because they are added
  while the error is frozen.\<close>

theorem err_json_transfer:
  fixes w v :: "'r jworld"
  assumes "statics_ok w" "err_ok w" "msg_ok msg" "fits (err_tree w msg :: 'r jtree)" "need (err_tree w msg :: 'r jtree) \<le> fuel"
    "length (json_text L fmt 0 (err_tree w msg)) \<le> 2 ^ 28" "statics_ok v"
  shows "\<exists>p w1 r q n v1 v2. pcl_err_json L (map_option (\<lambda>s. s @ [0]) msg) w = Some (Some p, w1)
    \<and> pcl_json_encode fuel L (Some p) fmt w1 = Some (Blk (json_text L fmt 0 (err_tree w msg) @ 0 # r), w1)
    \<and> pcl_json_decode fuel L (Some (json_text L fmt 0 (err_tree w msg) @ 0 # r)) 0 v = Some (Some q, n, v1)
    \<and> pcl_err_setjson text_of (Some q) (pcl_err_freeze False v1) = Some (0, v2)
    \<and> err v2 = err w \<and> oserr v2 = oserr w \<and> strace v2 = []"
proof -
  let ?t = "err_tree w msg :: 'r jtree"
  obtain w1 where w1: "pcl_err_vjson L (map_option (\<lambda>s. s @ [0]) msg) w = Some (Some (jw_next w), w1)"
    "built w w1 (jw_next w) ?t" "statics_ok w1" "same_error w w1"
    by (rule err_vjson_ok [OF assms(1-3)])
  have rep: "rep (\<lambda>n. n = 1) w1 (jw_next w) (jw_next w) ?t" using w1(2) by (simp add: built_def)
  have "tree_depth ?t < fuel" using depth_need(1) [OF assms(4)] assms(5) by simp
  from json_encode_ok [OF rep w1(3) fits_tree_ok(1) [OF assms(4)] this assms(6)] obtain r where
    r: "pcl_json_encode fuel L (Some (jw_next w)) fmt w1 = Some (Blk (json_text L fmt 0 ?t @ 0 # r), w1)" by blast
  have ni: "?t \<noteq> TInt i" for i by (simp add: err_tree_def)
  obtain q v1 where q: "pcl_json_decode fuel L (Some (json_text L fmt 0 ?t @ 0 # r)) 0 v
      = Some (Some q, Some (int (length (json_text L fmt 0 ?t))), v1)" "built v v1 q ?t"
    using json_decode_ok [OF assms(4) ni assms(7,5), where len = 0 and r = r and L = L and fmt = fmt] by blast
  let ?v = "pcl_err_freeze False v1"
  have ss: "same_store v1 ?v" by (simp add: same_store_def pcl_err_freeze_def)
  have "rep (\<lambda>n. n = 1) v1 (jw_next v) q ?t" using q(2) by (simp add: built_def)
  then have rv: "rep (\<lambda>n. n = 1) ?v (jw_next v) q (TObj (err_head w msg @ [(''strace'', TArr (map trace_tree (strace w)))]))"
    using same_store_rep [OF ss] by (simp add: err_tree_def del: rep.simps)
  have "3 \<le> jw_next v" using assms(7) by (simp add: statics_ok_def)
  then have sv: "statics_ok ?v"
    using statics_store [OF ss] statics_but [OF assms(7) same_from_but [of v v1 "jw_next v"]] q(2) by (simp add: built_def)
  have nf: "\<not> frozen ?v" by (simp add: pcl_err_freeze_def)
  have e: "LLONG_MIN < err w" "LLONG_MIN < oserr w" using assms(4) by (simp_all add: err_tree_def err_head_def)
  have inv: "err w \<noteq> PCL_JSON_INVINT" "oserr w \<noteq> PCL_JSON_INVINT" using e by (simp_all add: PCL_JSON_INVINT_def)
  have m: "map_of (err_head w msg @ [(''strace'', TArr (map trace_tree (strace w)))]) ''err'' = Some (TInt (err w) :: 'r jtree)"
    "map_of (err_head w msg @ [(''strace'', TArr (map trace_tree (strace w)))]) ''oserr'' = Some (TInt (oserr w) :: 'r jtree)"
    "map_of (err_head w msg @ [(''strace'', TArr (map trace_tree (strace w)))]) ''strace''
      = Some (TArr (map trace_tree (strace w)) :: 'r jtree)"
    by (simp_all add: err_head_def)
  obtain v2 where v2: "pcl_err_setjson text_of (Some q) ?v = Some (0, v2)"
    "err v2 = signed_take_bit 31 (err w)" "oserr v2 = oserr w mod 2 ^ 32" "strace v2 = []"
    by (rule setjson_ok [OF rv sv nf m inv])
  have "err v2 = err w" "oserr v2 = oserr w"
    using v2(2,3) assms(2) by (simp_all add: err_ok_def INT_MIN_def INT_MAX_def signed_take_bit_int_eq_self)
  with w1(1) r q(1) v2(1,4) show ?thesis unfolding pcl_err_json_def by blast
qed

lemma err_json_transfer_witness:
  "\<exists>p w1 r q n v1 v2. pcl_err_json (sample_lib 7) (map_option (\<lambda>s. s @ [0]) (Some (str_bytes ''a''))) sample_error = Some (Some p, w1)
    \<and> pcl_json_encode 100 (sample_lib 7) (Some p) False w1
        = Some (Blk (json_text (sample_lib 7) False 0 (err_tree sample_error (Some (str_bytes ''a''))) @ 0 # r), w1)
    \<and> pcl_json_decode 100 (sample_lib 7) (Some (json_text (sample_lib 7) False 0 (err_tree sample_error (Some (str_bytes ''a''))) @ 0 # r)) 0
        json_init = Some (Some q, n, v1)
    \<and> pcl_err_setjson id (Some q) (pcl_err_freeze False v1) = Some (0, v2)
    \<and> err v2 = err sample_error \<and> oserr v2 = oserr sample_error \<and> strace v2 = []"
  by (rule err_json_transfer [OF sample_error_ok(1-3) _ _ _ sample_error_ok(4)])
    (unfold sample_err_tree, rule sample_err_fits, rule sample_err_size(1), rule sample_err_size(2))

section \<open>Everything that can happen to an error\<close>

text \<open>The states that a thread's error can reach, by the calls of error.h that change it, an import from
  JSON included, and by steps of the program that leave the error as it is and change \<open>errno\<close>, the
  nodes or what else. The flag follows whether the error was imported: a call of \<open>pcl_err_setjson\<close>
  that answers 0 on an error that is not frozen makes it so, and a set or a clear that is not held
  up by a freeze makes an end of it.\<close>

definition error_kept :: "'z pcl_err_scheme \<Rightarrow> 'z pcl_err_scheme \<Rightarrow> bool" where
  "error_kept w w' \<longleftrightarrow> frozen w' = frozen w \<and> err w' = err w \<and> oserr w' = oserr w \<and> strace w' = strace w"

inductive err_api :: "(string \<Rightarrow> string) \<Rightarrow> bool \<Rightarrow> 'r jworld \<Rightarrow> bool" for text_of where
  api_start: "pcl_err.truncate w = err_init \<Longrightarrow> err_api text_of False w"
| api_set: "err_api text_of j w \<Longrightarrow> err_api text_of (j \<and> frozen w) (snd (pcl_err_set fname func ln e os msg w))"
| api_clear: "err_api text_of j w \<Longrightarrow> err_api text_of (j \<and> frozen w) (snd (pcl_err_clear w))"
| api_trace: "err_api text_of j w \<Longrightarrow> err_api text_of j (snd (pcl_err_trace fname func ln msg w))"
| api_freeze: "err_api text_of j w \<Longrightarrow> err_api text_of j (pcl_err_freeze b w)"
| api_setjson: "err_api text_of j w \<Longrightarrow> pcl_err_setjson text_of json w = Some (r, w')
    \<Longrightarrow> err_api text_of (if frozen w then j else r = 0) w'"
| api_other: "err_api text_of j w \<Longrightarrow> error_kept w w' \<Longrightarrow> err_api text_of j w'"

lemma err_inv_kept: "error_kept w w' \<Longrightarrow> err_inv w \<Longrightarrow> err_inv w'"
  by (simp add: error_kept_def err_inv_def)

lemma SETERR_inv: "SETERR l e w = (r, w') \<Longrightarrow> r \<noteq> 0 \<Longrightarrow> e \<noteq> 0 \<Longrightarrow> err_inv w'"
  by (cases "frozen w") (auto simp: macros_frozen macros_thawed err_inv_def raised_def)

text \<open>A refused import raises an error of its own.\<close>

lemma setjson_refused:
  "pcl_err_setjson text_of json w = Some (r, w') \<Longrightarrow> r \<noteq> 0 \<Longrightarrow> err_inv w'"
  by (auto simp: pcl_err_setjson_def bind_Some_iff Let_def elim: SETERR_inv split: if_splits prod.splits)

lemma setjson_frozen: "frozen w \<Longrightarrow> pcl_err_setjson text_of json w = Some (0, w)"
  by (simp add: pcl_err_setjson_def)

text \<open>C40: whatever sequence of calls a thread makes, as long as its error was not imported by
  \<open>pcl_err_setjson\<close> an error code is never without the trace of where it was set, and a system code
  never without an error code. A set or a clear ends the exception, and an import that is refused does
  not begin it. (An imported error has the codes of the text without a trace, as the
  property above shows.)\<close>

theorem err_code_traced:
  assumes "err_api text_of j w" "\<not> j"
  shows "err_inv w"
proof -
  have "\<not> j \<longrightarrow> err_inv w"
    using assms(1)
  proof (induction rule: err_api.induct)
    case (api_start w)
    then have "err w = 0" "oserr w = 0"
      by (cases w, simp add: pcl_err.truncate_def err_init_def)+
    then show ?case by (simp add: err_inv_def)
  next
    case (api_set j w fname func ln e os msg)
    then show ?case using err_inv_call [OF call_set] by (cases "frozen w") (auto simp: err_inv_def err_fun_defs Let_def)
  next
    case (api_clear j w)
    then show ?case by (cases "frozen w") (auto simp: err_inv_def err_fun_defs Let_def)
  next
    case (api_trace j w fname func ln msg)
    then show ?case using err_inv_call [OF call_trace] by blast
  next
    case (api_freeze j w b)
    then show ?case by (simp add: err_inv_def pcl_err_freeze_def)
  next
    case (api_setjson j w json r w')
    then show ?case using setjson_refused [OF api_setjson.hyps(2)] setjson_frozen [of w text_of json]
      by (cases "frozen w") auto
  next
    case (api_other j w w')
    then show ?case using err_inv_kept by blast
  qed
  then show ?thesis using assms(2) by blast
qed

text \<open>An import of something that is no object, refused; then an error of the thread itself.\<close>

definition demo_error :: "nat jworld" where
  "demo_error = \<lparr>frozen = False, err = 0, oserr = 0, strace = [], c_errno = 0, jw_mem = (\<lambda>_. None), jw_next = 3\<rparr>"

definition demo_refused :: "nat jworld" where
  "demo_refused = snd (SETERR (''err_setjson.c'', ''pcl_err_setjson'', 47) PCL_ETYPE demo_error)"

lemma demo_api: "err_api id False (snd (pcl_err_trace (Some ''f.c'') (Some ''f'') 7 None demo_refused))"
proof -
  have start: "err_api id False demo_error"
    by (rule api_start) (simp add: demo_error_def pcl_err.truncate_def err_init_def)
  have "pcl_err_setjson id None demo_error = Some (-1, demo_refused)"
    by (simp add: pcl_err_setjson_def demo_refused_def demo_error_def pcl_json_isobj_def json_is_def macros_thawed)
  from api_setjson [OF start this] have "err_api id False demo_refused"
    by (simp add: demo_error_def)
  then show ?thesis by (rule api_trace)
qed

lemma err_code_traced_witness:
  "err_inv (snd (pcl_err_trace (Some ''f.c'') (Some ''f'') 7 None demo_refused))"
  by (rule err_code_traced [OF demo_api]) simp

end
