(* ===== verification/PclErrText.thy ===== *)
theory PclErrText imports PclBuf PclString PclStrint begin

text \<open>
  The error of a thread as text for people (\<open>src/error/err_serialize.c\<close>, \<open>err_vsprintf.c\<close>,
  \<open>err_vfprintf.c\<close>, \<open>err_sprintf.c\<close>, \<open>err_fprintf.c\<close>, \<open>err_osmsg.c\<close>): the caller's message, one row
  per trace, and the row of the error itself. The text is made in a buffer that the error keeps for
  the next call. Signed arithmetic is checked with \<open>cint\<close>.
\<close>

section \<open>The rows\<close>

text \<open>The member \<open>buffer\<close> of \<open>struct tag_pcl_err\<close>.\<close>

record err_out = pcl_err +
  out_buffer :: "pcl_buf option"

definition c_str :: "string option \<Rightarrow> byte list" where
  "c_str so = (case so of None \<Rightarrow> [] | Some s \<Rightarrow> str_bytes s)"

definition strempty :: "string option \<Rightarrow> bool" where
  "strempty so \<longleftrightarrow> so = None \<or> so = Some []"

text \<open>\<open>%*s\<close> of a blank, or of nothing when the width is 0; the line number between parentheses.\<close>

definition indented :: "int \<Rightarrow> byte list" where
  "indented n = replicate (nat n) 32"

definition line_text :: "int \<Rightarrow> byte list" where
  "line_text n = (if n > 0 then str_bytes (''('' @ int_dec n @ '')'') else [])"

definition trace_site :: "pcl_err_trace \<Rightarrow> byte list" where
  "trace_site t =
     c_str (tr_file t)
     @ (if \<not> strempty (tr_file t) \<and> \<not> strempty (tr_func t) then str_bytes '':'' else [])
     @ c_str (tr_func t) @ line_text (tr_line t)"

definition trace_row :: "int \<Rightarrow> pcl_err_trace \<Rightarrow> byte list" where
  "trace_row indent t =
     indented indent @ trace_site t
     @ (if \<not> strempty (tr_msg t) then str_bytes '': '' @ c_str (tr_msg t) else []) @ [10]"

definition error_row :: "int \<Rightarrow> pcl_err_trace \<Rightarrow> string \<Rightarrow> string \<Rightarrow> byte list" where
  "error_row indent t name msg =
     indented indent @ trace_site t
     @ (if \<not> strempty (tr_file t) \<or> \<not> strempty (tr_func t) \<or> line_text (tr_line t) \<noteq> []
        then str_bytes '': '' else [])
     @ str_bytes name @ str_bytes '' - '' @ str_bytes msg @ [10]"

section \<open>Putting them into the buffer\<close>

type_synonym 'z out_step = "(pcl_buf option \<times> 'z err_out_scheme) option"

text \<open>\<open>pcl_buf_putf\<close> with a text, the result not looked at.\<close>

definition out_putf :: "byte \<Rightarrow> pcl_buf option \<Rightarrow> byte list \<Rightarrow> 'z err_out_scheme \<Rightarrow> 'z out_step" where
  "out_putf junk bo txt w = map_option snd (pcl_buf_vputf junk bo (Inr (map (\<lambda>x. [x]) txt)) w)"

text \<open>The buffer of the error, made at the first use.\<close>

definition out_begin :: "byte \<Rightarrow> 'z err_out_scheme \<Rightarrow> 'z out_step" where
  "out_begin junk w =
     (case out_buffer w of
        None \<Rightarrow> pcl_buf_init junk None 512 1 w
      | Some b \<Rightarrow> do { bo \<leftarrow> pcl_buf_reset (Some b); Some (bo, w) })"

text \<open>The message of the caller, with a line feed at its end.\<close>

definition out_message ::
  "byte \<Rightarrow> bool \<Rightarrow> int \<Rightarrow> formatted option \<Rightarrow> pcl_buf option \<Rightarrow> 'z err_out_scheme \<Rightarrow> 'z out_step" where
  "out_message junk panic indent format bo w =
     (case format of
        None \<Rightarrow> Some (bo, w)
      | Some msg \<Rightarrow>
          do { let prefix = (if panic then ''PANIC: '' else ''ERROR: '');
               (bo1, w1) \<leftarrow> out_putf junk bo (indented indent @ str_bytes prefix) w;
               (n, bo2, w2) \<leftarrow> pcl_buf_vputf junk bo1 msg w1;
               b \<leftarrow> bo2;
               c \<leftarrow> blk_read (bf_data b) (bf_len b - 1) 1;
               if c \<noteq> [10]
               then do { (m, bo3, w3) \<leftarrow> pcl_buf_putchar junk bo2 10 w2; Some (bo3, w3) }
               else Some (bo2, w2) })"

text \<open>The loop over the traces stops at the last one, the site of the error.\<close>

fun out_loop ::
  "byte \<Rightarrow> pcl_err_trace list \<Rightarrow> int \<Rightarrow> pcl_buf option \<Rightarrow> 'z err_out_scheme \<Rightarrow>
     (pcl_err_trace \<times> int \<times> pcl_buf option \<times> 'z err_out_scheme) option" where
  "out_loop junk [] indent bo w = None"
| "out_loop junk [t] indent bo w = Some (t, indent, bo, w)"
| "out_loop junk (t # u # ts) indent bo w =
     do { (bo1, w1) \<leftarrow> out_putf junk bo (trace_row indent t) w;
          indent1 \<leftarrow> cint (indent + 2);
          out_loop junk (u # ts) indent1 bo1 w1 }"

text \<open>The site of the error, and its message in a row of its own. A code whose name or message is \<open>NULL\<close>
  goes to \<open>%s\<close>: undefined behaviour.\<close>

definition out_tail ::
  "byte \<Rightarrow> pcl_err_trace \<Rightarrow> int \<Rightarrow> pcl_buf option \<Rightarrow> 'z err_out_scheme \<Rightarrow> 'z out_step" where
  "out_tail junk t indent bo w =
     do { name \<leftarrow> pcl_err_name (err w);
          msg \<leftarrow> pcl_err_msg (err w);
          (bo1, w1) \<leftarrow> out_putf junk bo (error_row indent t name msg) w;
          if strempty (tr_msg t) then Some (bo1, w1)
          else do { width \<leftarrow> cint (indent + 2);
                    out_putf junk bo1 (indented width @ str_bytes ''>'' @ c_str (tr_msg t) @ [10]) w1 } }"

definition ipcl_err_serialize :: "byte \<Rightarrow> int \<Rightarrow> formatted option \<Rightarrow> 'z err_out_scheme \<Rightarrow> 'z out_step" where
  "ipcl_err_serialize junk indent format w =
     (if strace w = [] \<or> err w = PCL_EOKAY then Some (None, w)
      else do { (bo, w1) \<leftarrow> out_begin junk w;
                let panic = (indent = -1);
                let indent1 = max 0 indent;
                (bo1, w2) \<leftarrow> out_message junk panic indent1 format bo w1;
                (t, indent2, bo2, w3) \<leftarrow> out_loop junk (strace w) indent1 bo1 w2;
                (bo3, w4) \<leftarrow> out_tail junk t indent2 bo2 w3;
                Some (bo3, w4\<lparr>out_buffer := bo3\<rparr>) })"

section \<open>The output functions\<close>

text \<open>Both freeze the error around the making of the text and put back the flag they found.\<close>

definition frozen_serialize ::
  "byte \<Rightarrow> int \<Rightarrow> formatted option \<Rightarrow> 'z err_out_scheme \<Rightarrow> 'z out_step" where
  "frozen_serialize junk indent format w =
     do { (bo, w1) \<leftarrow> ipcl_err_serialize junk indent format (w\<lparr>frozen := True\<rparr>);
          Some (bo, w1\<lparr>frozen := frozen w\<rparr>) }"

definition pcl_err_vsprintf ::
  "byte \<Rightarrow> byte list option \<Rightarrow> nat \<Rightarrow> int \<Rightarrow> formatted option \<Rightarrow> 'z err_out_scheme \<Rightarrow>
     (int \<times> byte list option \<times> 'z err_out_scheme) option" where
  "pcl_err_vsprintf junk buf sz indent format w =
     do { (bo, w1) \<leftarrow> frozen_serialize junk indent format w;
          case bo of
            None \<Rightarrow> Some (0, buf, w1)
          | Some b \<Rightarrow>
              do { let r = bf_len b;
                   if sz \<le> to_size r then Some (-1, buf, w1)
                   else do { bytes \<leftarrow> blk_read (bf_data b) 0 (r + 1);
                             d \<leftarrow> buf;
                             d1 \<leftarrow> mem_copy d 0 bytes;
                             Some (r, Some d1, w1) } } }"

definition pcl_err_sprintf ::
  "byte \<Rightarrow> byte list option \<Rightarrow> nat \<Rightarrow> int \<Rightarrow> formatted option \<Rightarrow> 'z err_out_scheme \<Rightarrow>
     (int \<times> byte list option \<times> 'z err_out_scheme) option" where
  "pcl_err_sprintf junk buf sz indent format w = pcl_err_vsprintf junk buf sz indent format w"

text \<open>A stream is a state that \<open>fwrite\<close> changes; it returns how many bytes it wrote.\<close>

definition pcl_err_vfprintf ::
  "(byte list \<Rightarrow> 's \<Rightarrow> nat \<times> 's) \<Rightarrow> byte \<Rightarrow> 's \<Rightarrow> int \<Rightarrow> formatted option \<Rightarrow> 'z err_out_scheme \<Rightarrow>
     (int \<times> 's \<times> 'z err_out_scheme) option" where
  "pcl_err_vfprintf fwrite junk stream indent format w =
     do { (bo, w1) \<leftarrow> frozen_serialize junk indent format w;
          case bo of
            None \<Rightarrow> Some (0, stream, w1)
          | Some b \<Rightarrow>
              do { let r = bf_len b;
                   bytes \<leftarrow> blk_read (bf_data b) 0 r;
                   let (n, stream1) = fwrite bytes stream;
                   Some (if n \<noteq> to_size r then -1 else r, stream1, w1) } }"

definition pcl_err_fprintf ::
  "(byte list \<Rightarrow> 's \<Rightarrow> nat \<times> 's) \<Rightarrow> byte \<Rightarrow> 's \<Rightarrow> int \<Rightarrow> formatted option \<Rightarrow> 'z err_out_scheme \<Rightarrow>
     (int \<times> 's \<times> 'z err_out_scheme) option" where
  "pcl_err_fprintf fwrite junk stream indent format w = pcl_err_vfprintf fwrite junk stream indent format w"

section \<open>The message of the system\<close>

text \<open>\<open>strerror_r\<close> of the GNU library writes the message into the block (the new block) or returns a
  static string; \<open>errno\<close> is put back behind it.\<close>

definition pcl_err_osmsg ::
  "(int \<Rightarrow> byte list \<Rightarrow> nat \<Rightarrow> byte list + byte list) \<Rightarrow> int \<Rightarrow> byte list option \<Rightarrow> nat \<Rightarrow> 'z pcl_err_scheme \<Rightarrow>
     (int \<times> byte list option \<times> 'z pcl_err_scheme) option" where
  "pcl_err_osmsg strerror_r os buf sz w =
     (case buf of
        None \<Rightarrow> Some (0, buf, w)
      | Some d \<Rightarrow>
          if sz = 0 then Some (0, buf, w)
          else do { d1 \<leftarrow> wr d 0 0;
                    if os = 0 then Some (0, Some d1, w)
                    else do { (bo, w1) \<leftarrow>
                                (case strerror_r os d1 sz of
                                   Inl d2 \<Rightarrow> Some (Some d2, w)
                                 | Inr x \<Rightarrow> do { (ok, bo, w1) \<leftarrow> pcl_strncpy (Some d1) sz (Some x) 0 w;
                                                 Some (bo, w1) });
                              d3 \<leftarrow> bo;
                              n \<leftarrow> c_strlen d3;
                              Some (to_int n, Some d3, w1\<lparr>c_errno := c_errno w\<rparr>) } })"

end
