(* ===== verification/PclErrTextOk.thy ===== *)
theory PclErrTextOk imports PclErrText PclBufOk begin

text \<open>
  What the printed form of an error is: the message, one row per trace with growing indentation, the
  row of the error itself. It is made whatever the buffer held before, and the error stays as it was.
\<close>

section \<open>The reference text\<close>

text \<open>The rows from the innermost-called trace (the head of the list) to the site of the error.\<close>

fun rows_text :: "string \<Rightarrow> string \<Rightarrow> int \<Rightarrow> pcl_err_trace list \<Rightarrow> byte list" where
  "rows_text name msg indent [] = []"
| "rows_text name msg indent [t] =
     error_row indent t name msg
     @ (if strempty (tr_msg t) then []
        else indented (indent + 2) @ str_bytes ''>'' @ c_str (tr_msg t) @ [10])"
| "rows_text name msg indent (t # u # ts) = trace_row indent t @ rows_text name msg (indent + 2) (u # ts)"

definition message_text :: "int \<Rightarrow> byte list option \<Rightarrow> byte list" where
  "message_text indent so =
     (case so of
        None \<Rightarrow> []
      | Some s \<Rightarrow>
          let row = indented (max 0 indent) @ str_bytes (if indent = -1 then ''PANIC: '' else ''ERROR: '') @ s
          in row @ (if List.last row = 10 then [] else [10]))"

definition err_text :: "int \<Rightarrow> byte list option \<Rightarrow> string \<Rightarrow> string \<Rightarrow> pcl_err_trace list \<Rightarrow> byte list" where
  "err_text indent so name msg ts = message_text indent so @ rows_text name msg (max 0 indent) ts"

section \<open>A text buffer with its content\<close>

definition text_at :: "byte list \<Rightarrow> pcl_buf \<Rightarrow> bool" where
  "text_at c b \<longleftrightarrow> bf_wf b \<and> bf_mode b = PclBufText \<and> bf_pos b = int (length c) \<and> bf_len b = int (length c)
     \<and> bf_content b = c \<and> bf_data b \<noteq> Null \<and> bf_size b \<le> 2 ^ 28 + 2"

definition out_ok :: "'z err_out_scheme \<Rightarrow> bool" where
  "out_ok w \<longleftrightarrow> (case out_buffer w of None \<Rightarrow> True | Some b \<Rightarrow> \<exists>c. text_at c b)"

lemma text_at_chrsize: "text_at c b \<Longrightarrow> bf_chrsize b = 1"
  by (simp add: text_at_def bf_wf_def mode_chrsize_def)

lemma text_at_room: "text_at c b \<Longrightarrow> n \<le> 2 ^ 27 \<Longrightarrow> bf_room b (n + 1)"
  using text_at_chrsize [of c b] by (simp add: text_at_def bf_room_def INT_MAX_def)

lemma text_at_block:
  assumes "text_at c b"
  obtains r where "bf_data b = Blk (c @ 0 # r)"
proof -
  have b: "bf_wf b" "bf_content b = c" "bf_chrsize b = 1" "bf_data b \<noteq> Null"
    using assms text_at_chrsize by (auto simp: text_at_def)
  then obtain bs where bs: "bf_data b = Blk bs" by (cases "bf_data b") (auto simp: bf_wf_def)
  obtain p l k r where "bf_shape b p l k (bf_content b) r" "bs = bf_content b @ replicate k 0 @ r" "0 < k"
    by (rule bf_wf_shape [OF b(1) bs])
  moreover from this(1) b(3) have "k = 1" by (simp add: bf_shape_def)
  ultimately show ?thesis using that bs b(2) by simp
qed

lemma vputf_text:
  assumes "text_at c b" "length c + length s \<le> 2 ^ 27"
  obtains b' where "pcl_buf_vputf junk (Some b) (Inr (map (\<lambda>x. [x]) s)) w = Some (int (length s), Some b', w)"
    "text_at (c @ s) b'"
proof -
  let ?cs = "map (\<lambda>x. [x]) s"
  note one = text_at_chrsize [OF assms(1)]
  have b: "bf_wf b" "bf_mode b = PclBufText" "bf_pos b = int (length c)" "bf_len b = int (length c)"
    "bf_content b = c" "bf_data b \<noteq> Null" "bf_size b \<le> 2 ^ 28 + 2"
    using assms(1) by (simp_all add: text_at_def)
  have tx: "text_chars b ?cs = length s" "text_bytes b ?cs = s"
    using b(2) by (simp_all add: text_chars_def text_bytes_def)
  have room: "bf_room b (length ?cs + 1)" using text_at_room [OF assms(1), of "length s"] assms(2) by simp
  obtain b' where b': "pcl_buf_vputf junk (Some b) (Inr ?cs) w = Some (int (length s), Some b', w)"
    "bf_wf b'" "bf_mode b' = bf_mode b" "bf_pos b' = bf_pos b + int (length s)"
    "bf_len b' = max (bf_len b) (bf_pos b + int (length s))"
    "bf_content b' = put_content (nat (bf_chrsize b)) (bf_content b) (nat (bf_pos b) * nat (bf_chrsize b)) s"
    "bf_size b' \<le> max (bf_size b) (2 * (nat (bf_pos b) + length s))" "bf_data b' \<noteq> Null"
    using vputf_ok [OF b(1) _ _ room, of junk w] b(6) one by (auto simp: list_all_iff tx)
  have "text_at (c @ s) b'"
    using b' b one assms(2) by (auto simp: text_at_def nat_add_distrib)
  then show ?thesis using that b'(1) by blast
qed

lemma putf_text:
  assumes "text_at c b" "length c + length s \<le> 2 ^ 27"
  obtains b' where "out_putf junk (Some b) s w = Some (Some b', w)" "text_at (c @ s) b'"
  using vputf_text [OF assms, of junk w] by (metis out_putf_def option.simps(9) snd_conv)

lemma putchar_text:
  assumes "text_at c b" "length c < 2 ^ 27"
  obtains b' n where "pcl_buf_putchar junk (Some b) 10 w = Some (n, Some b', w)" "text_at (c @ [10]) b'"
proof -
  note one = text_at_chrsize [OF assms(1)]
  have b: "bf_wf b" "bf_mode b = PclBufText" "bf_pos b = int (length c)" "bf_len b = int (length c)"
    "bf_content b = c" "bf_data b \<noteq> Null" "bf_size b \<le> 2 ^ 28 + 2"
    using assms(1) by (simp_all add: text_at_def)
  have wb: "word_bytes (10 :: 32 word) = [10, 0, 0, 0]" by code_simp
  obtain b' where b': "pcl_buf_put junk (Some b) (Some (word_bytes (10 :: 32 word))) (int 1) w = Some (int 1, Some b', w)"
    "bf_wf b'" "bf_mode b' = bf_mode b" "bf_pos b' = bf_pos b + int 1"
    "bf_len b' = max (bf_len b) (bf_pos b + int 1)" "bf_size b' \<le> max (bf_size b) (2 * (nat (bf_pos b) + 1 + 1))"
    "bf_data b' \<noteq> Null"
    "bf_content b' = put_content (nat (bf_chrsize b)) (bf_content b)
       (nat (bf_pos b) * nat (bf_chrsize b)) (take (1 * nat (bf_chrsize b)) (word_bytes (10 :: 32 word)))"
    using put_ok [OF b(1) _ text_at_room [OF assms(1)], of 1 "word_bytes (10 :: 32 word)" junk w] one by auto
  have "text_at (c @ [10]) b'"
    using b' b one assms(2) by (auto simp: text_at_def nat_add_distrib wb)
  then show ?thesis using that b'(1) by (simp add: pcl_buf_putchar_def)
qed

section \<open>The steps\<close>

lemma begin_ok:
  assumes "out_ok w"
  obtains b where "out_begin junk w = Some (Some b, w)" "text_at [] b"
proof (cases "out_buffer w")
  case None
  obtain b where "pcl_buf_init junk None 512 (buf_mode_code PclBufText) w = Some (Some b, w)" "bf_wf b"
    "bf_mode b = PclBufText" "bf_pos b = 0" "bf_len b = 0" "bf_size b = 512" "bf_content b = []"
    by (rule init_ok [of 512 PclBufText]) (simp_all add: mode_chrsize_def INT_MAX_def)
  moreover from this have "bf_data b \<noteq> Null" by (auto simp: bf_wf_def)
  ultimately show ?thesis using that None by (simp add: out_begin_def buf_mode_code_def text_at_def)
next
  case (Some b)
  then obtain c where c: "text_at c b" using assms by (auto simp: out_ok_def)
  obtain r where r: "bf_data b = Blk (c @ 0 # r)" by (rule text_at_block [OF c])
  have one: "bf_chrsize b = 1" by (rule text_at_chrsize [OF c])
  have b: "bf_wf b" "bf_mode b = PclBufText" "bf_size b \<le> 2 ^ 28 + 2" using c by (simp_all add: text_at_def)
  define d where "d = 0 # List.tl (c @ 0 # r)"
  have l: "length d = length (c @ 0 # r)" by (simp add: d_def)
  have set: "blk_set (bf_data b) 0 0 1 = Some (Blk d)"
    using blk_set_at [of 0 1 "c @ 0 # r" 0] by (cases c) (simp_all add: r d_def drop_Suc)
  let ?b = "b\<lparr>bf_pos := 0, bf_len := 0, bf_data := Blk d\<rparr>"
  have "pcl_buf_reset (Some b) = Some (Some ?b)" using set r one by (simp add: pcl_buf_reset_def)
  moreover have "text_at [] ?b"
    using b r one l by (auto simp: text_at_def bf_wf_def bf_content_def d_def mode_chrsize_def)
  ultimately show ?thesis using that Some by (simp add: out_begin_def)
qed

lemma message_ok:
  assumes "text_at [] b" "length (message_text indent so) \<le> 2 ^ 27"
  obtains b' where "out_message junk (indent = -1) (max 0 indent)
      (map_option (\<lambda>s. Inr (map (\<lambda>x. [x]) s)) so) (Some b) w = Some (Some b', w)"
    "text_at (message_text indent so) b'"
proof (cases so)
  case None
  then show ?thesis using that assms(1) by (simp add: out_message_def message_text_def)
next
  case (Some s)
  define pre where "pre = indented (max 0 indent) @ str_bytes (if indent = -1 then ''PANIC: '' else ''ERROR: '')"
  have ne: "pre \<noteq> []" by (simp add: pre_def)
  have msg: "message_text indent so = pre @ s @ (if List.last (pre @ s) = 10 then [] else [10])"
    using Some by (simp add: message_text_def pre_def Let_def)
  have l: "length pre + length s \<le> 2 ^ 27" using assms(2) by (simp add: msg)
  obtain b1 where b1: "out_putf junk (Some b) pre w = Some (Some b1, w)" "text_at pre b1"
    by (rule putf_text [OF assms(1), of pre junk w]) (use l in auto)
  obtain b2 where b2: "pcl_buf_vputf junk (Some b1) (Inr (map (\<lambda>x. [x]) s)) w = Some (int (length s), Some b2, w)"
    "text_at (pre @ s) b2"
    by (rule vputf_text [OF b1(2) l])
  obtain r where r: "bf_data b2 = Blk ((pre @ s) @ 0 # r)" by (rule text_at_block [OF b2(2)])
  have sp: "(pre @ s) @ 0 # r = butlast (pre @ s) @ [List.last (pre @ s)] @ 0 # r" using ne by simp
  have len: "bf_len b2 - 1 = int (length (butlast (pre @ s)))"
    using b2(2) ne by (simp add: text_at_def of_nat_diff Suc_le_eq)
  have rd: "blk_read (bf_data b2) (bf_len b2 - 1) 1 = Some [List.last (pre @ s)]"
    using blk_read_mid [of "butlast (pre @ s)" _ "[List.last (pre @ s)]" 1 "0 # r"] unfolding r sp len by simp
  have eq: "out_message junk (indent = -1) (max 0 indent) (map_option (\<lambda>s. Inr (map (\<lambda>x. [x]) s)) so) (Some b) w
    = do { (bo1, w1) \<leftarrow> out_putf junk (Some b) pre w;
           (n, bo2, w2) \<leftarrow> pcl_buf_vputf junk bo1 (Inr (map (\<lambda>x. [x]) s)) w1;
           b \<leftarrow> bo2;
           c \<leftarrow> blk_read (bf_data b) (bf_len b - 1) 1;
           if c \<noteq> [10] then do { (m, bo3, w3) \<leftarrow> pcl_buf_putchar junk bo2 10 w2; Some (bo3, w3) }
           else Some (bo2, w2) }"
    by (simp add: Some out_message_def pre_def)
  show ?thesis
  proof (cases "List.last (pre @ s) = 10")
    case True
    then have "message_text indent so = pre @ s" by (simp add: msg)
    then show ?thesis using that [of b2] b1(1) b2 rd True unfolding eq by simp
  next
    case False
    have "length (pre @ s) < 2 ^ 27" using assms(2) False by (simp add: msg)
    then obtain b3 n where "pcl_buf_putchar junk (Some b2) 10 w = Some (n, Some b3, w)" "text_at ((pre @ s) @ [10]) b3"
      by (rule putchar_text [OF b2(2)])
    moreover have "message_text indent so = (pre @ s) @ [10]" using False by (simp add: msg)
    ultimately show ?thesis using that [of b3] b1(1) b2(1) rd False unfolding eq by simp
  qed
qed

text \<open>The loop and the tail together make the rows.\<close>

definition rows_step ::
  "byte \<Rightarrow> pcl_err_trace list \<Rightarrow> int \<Rightarrow> pcl_buf option \<Rightarrow> 'z err_out_scheme \<Rightarrow> 'z out_step" where
  "rows_step junk ts indent bo w =
     do { (t, indent1, bo1, w1) \<leftarrow> out_loop junk ts indent bo w; out_tail junk t indent1 bo1 w1 }"

lemma rows_ok:
  assumes "text_at c b" "ts \<noteq> []" "0 \<le> indent" "indent + 2 * int (length ts) \<le> INT_MAX"
    and "pcl_err_name (err w) = Some name" "pcl_err_msg (err w) = Some msg"
    and "length c + length (rows_text name msg indent ts) \<le> 2 ^ 27"
  shows "\<exists>b'. rows_step junk ts indent (Some b) w = Some (Some b', w)
    \<and> text_at (c @ rows_text name msg indent ts) b'"
  using assms(1-4,7)
proof (induction ts arbitrary: c b indent rule: induct_list012)
  case (2 t)
  let ?row = "error_row indent t name msg"
  obtain b1 where b1: "out_putf junk (Some b) ?row w = Some (Some b1, w)" "text_at (c @ ?row) b1"
    by (rule putf_text [OF 2(1), of ?row junk w]) (use 2(5) in simp)
  show ?case
  proof (cases "strempty (tr_msg t)")
    case True
    then show ?thesis using b1 assms(5,6) by (simp add: rows_step_def out_tail_def)
  next
    case False
    let ?detail = "indented (indent + 2) @ str_bytes ''>'' @ c_str (tr_msg t) @ [10]"
    have "cint (indent + 2) = Some (indent + 2)" using 2(3,4) by (simp add: cint_def INT_MIN_def)
    moreover obtain b2 where "out_putf junk (Some b1) ?detail w = Some (Some b2, w)" "text_at ((c @ ?row) @ ?detail) b2"
      by (rule putf_text [OF b1(2), of ?detail junk w]) (use 2(5) False in simp)
    ultimately show ?thesis using b1 assms(5,6) False by (simp add: rows_step_def out_tail_def)
  qed
next
  case (3 t u ts)
  let ?row = "trace_row indent t"
  obtain b1 where b1: "out_putf junk (Some b) ?row w = Some (Some b1, w)" "text_at (c @ ?row) b1"
    by (rule putf_text [OF 3(3), of ?row junk w]) (use 3(7) in simp)
  have "cint (indent + 2) = Some (indent + 2)" using 3(5,6) by (simp add: cint_def INT_MIN_def)
  then have "rows_step junk (t # u # ts) indent (Some b) w = rows_step junk (u # ts) (indent + 2) (Some b1) w"
    using b1(1) by (simp add: rows_step_def)
  then show ?case using 3(2) [OF b1(2), of "indent + 2"] 3(5-7) by simp
qed simp

lemma serialize_ok:
  assumes "out_ok w" "strace w \<noteq> []" "err w \<noteq> 0" "pcl_err_name (err w) = Some name" "pcl_err_msg (err w) = Some msg"
    and "max 0 indent + 2 * int (length (strace w)) \<le> INT_MAX"
    and "length (err_text indent so name msg (strace w)) \<le> 2 ^ 27"
  obtains b where "ipcl_err_serialize junk indent (map_option (\<lambda>s. Inr (map (\<lambda>x. [x]) s)) so) w
      = Some (Some b, w\<lparr>out_buffer := Some b\<rparr>)"
    "text_at (err_text indent so name msg (strace w)) b"
proof -
  obtain b0 where b0: "out_begin junk w = Some (Some b0, w)" "text_at [] b0" by (rule begin_ok [OF assms(1)])
  obtain b1 where b1: "out_message junk (indent = -1) (max 0 indent)
      (map_option (\<lambda>s. Inr (map (\<lambda>x. [x]) s)) so) (Some b0) w = Some (Some b1, w)"
    "text_at (message_text indent so) b1"
    by (rule message_ok [OF b0(2), of indent so junk w]) (use assms(7) in \<open>simp add: err_text_def\<close>)
  from rows_ok [OF b1(2) assms(2) _ assms(6,4,5), of junk] assms(7)
  obtain b2 where b2: "rows_step junk (strace w) (max 0 indent) (Some b1) w = Some (Some b2, w)"
    "text_at (err_text indent so name msg (strace w)) b2"
    by (auto simp: err_text_def)
  have "ipcl_err_serialize junk indent (map_option (\<lambda>s. Inr (map (\<lambda>x. [x]) s)) so) w
      = Option.bind (rows_step junk (strace w) (max 0 indent) (Some b1) w) (\<lambda>(bo, w). Some (bo, w\<lparr>out_buffer := bo\<rparr>))"
    using assms(2,3) b0(1) b1(1)
    by (simp add: ipcl_err_serialize_def rows_step_def Let_def bind_assoc case_prod_unfold)
  with b2 show ?thesis using that by simp
qed

lemma vsprintf_ok:
  fixes so :: "byte list option"
  defines "format \<equiv> map_option (\<lambda>s. Inr (map (\<lambda>x. [x]) s)) so"
  assumes "out_ok w" "strace w \<noteq> []" "err w \<noteq> 0" "pcl_err_name (err w) = Some name" "pcl_err_msg (err w) = Some msg"
    and "max 0 indent + 2 * int (length (strace w)) \<le> INT_MAX"
    and "length (err_text indent so name msg (strace w)) \<le> 2 ^ 27" and "length d = sz"
  defines "txt \<equiv> err_text indent so name msg (strace w)"
  shows "\<exists>b. pcl_err_vsprintf junk (Some d) sz indent format w
      = Some (if length txt < sz then (int (length txt), Some (txt @ 0 # drop (length txt + 1) d), w\<lparr>out_buffer := Some b\<rparr>)
              else (-1, Some d, w\<lparr>out_buffer := Some b\<rparr>))
    \<and> out_ok (w\<lparr>out_buffer := Some b\<rparr>)"
proof -
  let ?w = "w\<lparr>frozen := True\<rparr>"
  have o: "out_ok ?w" using assms(2) by (simp add: out_ok_def)
  obtain b where b: "ipcl_err_serialize junk indent format ?w = Some (Some b, ?w\<lparr>out_buffer := Some b\<rparr>)" "text_at txt b"
    using serialize_ok [OF o, of name msg indent so junk] assms(3-8) by (auto simp: format_def txt_def)
  have fs: "frozen_serialize junk indent format w = Some (Some b, w\<lparr>out_buffer := Some b\<rparr>)"
    using b(1) by (simp add: frozen_serialize_def)
  obtain r where r: "bf_data b = Blk (txt @ 0 # r)" by (rule text_at_block [OF b(2)])
  have len: "bf_len b = int (length txt)" using b(2) by (simp add: text_at_def)
  have sm: "int (length txt) \<le> INT_MAX" using assms(8) by (simp add: txt_def INT_MAX_def)
  have rd: "blk_read (Blk (txt @ 0 # r)) 0 (int (length txt) + 1) = Some (txt @ [0])"
    using blk_read_prefix [of "length txt + 1" "txt @ 0 # r"] by (simp add: add.commute)
  have "out_ok (w\<lparr>out_buffer := Some b\<rparr>)" using b(2) by (auto simp: out_ok_def)
  moreover have "length txt < sz \<Longrightarrow> mem_copy d 0 (txt @ [0]) = Some (txt @ 0 # drop (length txt + 1) d)"
    using assms(9) by (simp add: mem_copy_def)
  ultimately show ?thesis
    using fs r len sm rd by (intro exI [of _ b]) (auto simp: pcl_err_vsprintf_def)
qed

section \<open>The property\<close>

text \<open>C12: \<open>pcl_err_vsprintf\<close> writes the text of the error and its NUL into a block that has room for
  both and returns the length, and returns -1 and leaves the block alone otherwise. The text is the
  message, one row per trace with two more blanks each, the row with the name and the message of the code,
  and the message of its site; it does not depend on what the buffer of the error held before, and
  nothing but that buffer changes: code, traces and freeze flag are as before.\<close>

theorem err_vsprintf_text:
  fixes so :: "byte list option"
  assumes "out_ok w" "strace w \<noteq> []" "err w \<noteq> 0" "pcl_err_name (err w) = Some name" "pcl_err_msg (err w) = Some msg"
    and "max 0 indent + 2 * int (length (strace w)) \<le> INT_MAX"
    and "length (err_text indent so name msg (strace w)) \<le> 2 ^ 27" and "length d = sz"
  shows "\<exists>b. pcl_err_vsprintf junk (Some d) sz indent (map_option (\<lambda>s. Inr (map (\<lambda>x. [x]) s)) so) w
      = Some (if length (err_text indent so name msg (strace w)) < sz
              then (int (length (err_text indent so name msg (strace w))),
                    Some (err_text indent so name msg (strace w)
                          @ 0 # drop (length (err_text indent so name msg (strace w)) + 1) d),
                    w\<lparr>out_buffer := Some b\<rparr>)
              else (-1, Some d, w\<lparr>out_buffer := Some b\<rparr>))
    \<and> out_ok (w\<lparr>out_buffer := Some b\<rparr>)"
  by (rule vsprintf_ok [OF assms])

definition shown_error :: err_out where
  "shown_error = \<lparr>frozen = False, err = PCL_EBUF, oserr = 0, strace =
     [\<lparr>tr_file = Some ''some.c'', tr_func = Some ''func'', tr_line = 463, tr_msg = Some ''trace'', tr_size = 0\<rparr>,
      \<lparr>tr_file = None, tr_func = Some ''select'', tr_line = 0, tr_msg = Some ''more'', tr_size = 0\<rparr>],
     c_errno = 0, out_buffer = Some \<lparr>bf_mode = PclBufText, bf_chrsize = 1, bf_pos = 2, bf_len = 2, bf_size = 4,
       bf_data = Blk [104, 105, 0, 9]\<rparr>\<rparr>"

definition shown_text :: "byte list" where
  "shown_text = str_bytes ''ERROR: oh'' @ [10] @ str_bytes ''some.c:func(463): trace'' @ [10]
     @ str_bytes ''  select: PCL_EBUF - Buffer too small.'' @ [10] @ str_bytes ''    >more'' @ [10]"

lemma shown_names: "pcl_err_name (err shown_error) = Some ''PCL_EBUF''" "pcl_err_msg (err shown_error) = Some ''Buffer too small.''"
  by code_simp+

lemma shown_text_made:
  "err_text 0 (Some (str_bytes ''oh'')) ''PCL_EBUF'' ''Buffer too small.'' (strace shown_error) = shown_text"
  by code_simp

lemma shown_ok: "out_ok shown_error"
proof -
  have "text_at [104, 105] \<lparr>bf_mode = PclBufText, bf_chrsize = 1, bf_pos = 2, bf_len = 2, bf_size = 4,
       bf_data = Blk [104, 105, 0, 9]\<rparr>"
    by (simp add: text_at_def bf_wf_def bf_content_def mode_chrsize_def INT_MAX_def)
  then show ?thesis by (auto simp: out_ok_def shown_error_def)
qed

lemma shown_length: "length shown_text = 83"
  by code_simp

lemma err_vsprintf_text_witness:
  "\<exists>b. pcl_err_vsprintf 7 (Some (replicate 90 (1 :: byte))) 90 0 (map_option (\<lambda>s. Inr (map (\<lambda>x. [x]) s)) (Some (str_bytes ''oh''))) shown_error
      = Some (if length shown_text < 90
              then (int (length shown_text), Some (shown_text @ 0 # drop (length shown_text + 1) (replicate 90 1)),
                    shown_error\<lparr>out_buffer := Some b\<rparr>)
              else (-1, Some (replicate 90 1), shown_error\<lparr>out_buffer := Some b\<rparr>))
    \<and> out_ok (shown_error\<lparr>out_buffer := Some b\<rparr>)"
  by (rule err_vsprintf_text [OF shown_ok _ _ shown_names, of 0 "Some (str_bytes ''oh'')" "replicate 90 1" 90 7,
        unfolded shown_text_made])
    (simp_all add: shown_length shown_error_def INT_MAX_def)

text \<open>Without an error, or without a trace, nothing is printed.\<close>

lemma nothing_printed:
  "strace w = [] \<or> err w = 0 \<Longrightarrow> pcl_err_vsprintf junk buf sz indent format w = Some (0, buf, w)"
  by (simp add: pcl_err_vsprintf_def frozen_serialize_def ipcl_err_serialize_def)

text \<open>A static message of the system that does not fit sets the error of the thread.\<close>

lemma osmsg_sets_error:
  assumes "\<not> frozen w" "strerror_r os (0 # d) (length d + 1) = Inr (x @ 0 # r)" "0 \<notin> set x" "length d < length x" "os \<noteq> 0"
  shows "\<exists>d' w'. pcl_err_osmsg strerror_r os (Some (c # d)) (length d + 1) w = Some (0, Some d', w') \<and> err w' = PCL_EBUF"
proof -
  have "x \<noteq> []" using assms(4) by auto
  then show ?thesis
    using assms strlen_nul [OF assms(3), of r]
    by (auto simp: pcl_err_osmsg_def wr_def pcl_strncpy_def Let_def macros_thawed to_int_def)
qed

end
