(* ===== verification/PclFile.thy ===== *)
theory PclFile imports PclBuf PclStrint begin

unbundle bit_operations_syntax

text \<open>
  Files on Unix (\<open>src/file\<close>: \<open>file_alloc.c\<close>, \<open>file_init.c\<close>, \<open>flagconv.c\<close>, \<open>unix_file_open.c\<close>,
  \<open>file_open.c\<close>, \<open>file_close.c\<close>, \<open>file_lock.c\<close>, \<open>file_seek.c\<close>, \<open>unix_read.c\<close>, \<open>unix_write.c\<close>,
  \<open>unix_tryread.c\<close>, \<open>unix_trywrite.c\<close>, \<open>unlink.c\<close>, \<open>remove.c\<close>, \<open>rename.c\<close>). The system calls are
  parameters on a state of the system, which is a part of the world; a failing call answers its
  \<open>errno\<close>. Flags are words; the constants of the system are those of Linux.
\<close>

section \<open>The system\<close>

record 's os_world = pcl_err +
  os :: 's

text \<open>A path is its characters without the NUL. A failing call is \<open>Inl\<close> its \<open>errno\<close>.\<close>

record 's sys_files =
  sys_read :: "int \<Rightarrow> nat \<Rightarrow> 's \<Rightarrow> (int + byte list) \<times> 's"
  sys_write :: "int \<Rightarrow> byte list \<Rightarrow> 's \<Rightarrow> (int + nat) \<times> 's"
  sys_poll :: "int \<Rightarrow> 32 word \<Rightarrow> int \<Rightarrow> 's \<Rightarrow> (int + nat \<times> 32 word) \<times> 's"
  sys_lseek :: "int \<Rightarrow> int \<Rightarrow> int \<Rightarrow> 's \<Rightarrow> (int + int) \<times> 's"
  sys_open :: "byte list \<Rightarrow> 32 word \<Rightarrow> 32 word \<Rightarrow> 's \<Rightarrow> (int + int) \<times> 's"
  sys_close :: "int \<Rightarrow> 's \<Rightarrow> (int + unit) \<times> 's"
  sys_setlk :: "int \<Rightarrow> bool \<Rightarrow> int \<Rightarrow> 's \<Rightarrow> (int + unit) \<times> 's"
  sys_unlink :: "byte list \<Rightarrow> 's \<Rightarrow> (int + unit) \<times> 's"
  sys_remove :: "byte list \<Rightarrow> 's \<Rightarrow> (int + unit) \<times> 's"
  sys_rename :: "byte list \<Rightarrow> byte list \<Rightarrow> 's \<Rightarrow> (int + unit) \<times> 's"

text \<open>A call in the world: a failure leaves its number in \<open>errno\<close>.\<close>

definition syscall ::
  "('s \<Rightarrow> (int + 'a) \<times> 's) \<Rightarrow> ('s, 'z) os_world_scheme \<Rightarrow> 'a option \<times> ('s, 'z) os_world_scheme" where
  "syscall f w =
     (case f (os w) of
        (Inl e, s) \<Rightarrow> (None, w\<lparr>c_errno := e, os := s\<rparr>)
      | (Inr a, s) \<Rightarrow> (Some a, w\<lparr>os := s\<rparr>))"

section \<open>Files and their flags\<close>

record pcl_file =
  fl_flags :: "32 word"
  fl_fd :: int

abbreviation (input) PCL_BADFD :: int where "PCL_BADFD \<equiv> -1"

definition PCL_FF_FLOCK :: "32 word" where "PCL_FF_FLOCK = 1"
definition PCL_FF_NONBLOCK :: "32 word" where "PCL_FF_NONBLOCK = 2"
definition PCL_FF_APPEND :: "32 word" where "PCL_FF_APPEND = 4"
definition PCL_FF_READ :: "32 word" where "PCL_FF_READ = 8"
definition PCL_FF_WRITE :: "32 word" where "PCL_FF_WRITE = 16"
definition PCL_FF_RDWR :: "32 word" where "PCL_FF_RDWR = PCL_FF_READ OR PCL_FF_WRITE"

definition PCL_O_RDONLY :: "32 word" where "PCL_O_RDONLY = 0"
definition PCL_O_WRONLY :: "32 word" where "PCL_O_WRONLY = 1"
definition PCL_O_RDWR :: "32 word" where "PCL_O_RDWR = 2"
definition PCL_O_CREAT :: "32 word" where "PCL_O_CREAT = 8"
definition PCL_O_APPEND :: "32 word" where "PCL_O_APPEND = 0x10"
definition PCL_O_TRUNC :: "32 word" where "PCL_O_TRUNC = 0x20"
definition PCL_O_EXCL :: "32 word" where "PCL_O_EXCL = 0x40"
definition PCL_O_NONBLOCK :: "32 word" where "PCL_O_NONBLOCK = 0x80"
definition PCL_O_CLOEXEC :: "32 word" where "PCL_O_CLOEXEC = 0x100"
definition PCL_O_DIRECTORY :: "32 word" where "PCL_O_DIRECTORY = 0x200"
definition PCL_O_NOFOLLOW :: "32 word" where "PCL_O_NOFOLLOW = 0x400"
definition PCL_O_SYNC :: "32 word" where "PCL_O_SYNC = 0x800"
definition PCL_O_SHLOCK :: "32 word" where "PCL_O_SHLOCK = 0x1000"
definition PCL_O_EXLOCK :: "32 word" where "PCL_O_EXLOCK = 0x2000"
definition PCL_O_NOATIME :: "32 word" where "PCL_O_NOATIME = 0x8000"
definition PCL_O_TEMP :: "32 word" where "PCL_O_TEMP = 0x10000"

lemmas file_flag_defs = PCL_FF_FLOCK_def PCL_FF_NONBLOCK_def PCL_FF_APPEND_def PCL_FF_READ_def PCL_FF_WRITE_def
  PCL_FF_RDWR_def

lemmas open_flag_defs = PCL_O_RDONLY_def PCL_O_WRONLY_def PCL_O_RDWR_def PCL_O_CREAT_def PCL_O_APPEND_def
  PCL_O_TRUNC_def PCL_O_EXCL_def PCL_O_NONBLOCK_def PCL_O_CLOEXEC_def PCL_O_DIRECTORY_def PCL_O_NOFOLLOW_def
  PCL_O_SYNC_def PCL_O_SHLOCK_def PCL_O_EXLOCK_def PCL_O_NOATIME_def PCL_O_TEMP_def

definition flag_in :: "32 word \<Rightarrow> 32 word \<Rightarrow> bool" where
  "flag_in x f \<longleftrightarrow> x AND f \<noteq> 0"

text \<open>\<open>flags |= bit\<close> when a flag is set.\<close>

definition carry_flag :: "32 word \<Rightarrow> 32 word \<Rightarrow> 32 word \<Rightarrow> 32 word \<Rightarrow> 32 word" where
  "carry_flag src f b dest = (if flag_in src f then dest OR b else dest)"

definition ipcl_oflags_to_fflags :: "32 word \<Rightarrow> 32 word" where
  "ipcl_oflags_to_fflags oflags =
     (let flags = (if flag_in oflags PCL_O_WRONLY then PCL_FF_WRITE
                   else if flag_in oflags PCL_O_RDWR then PCL_FF_RDWR
                   else PCL_FF_READ);
          flags = carry_flag oflags PCL_O_APPEND PCL_FF_APPEND flags
      in carry_flag oflags PCL_O_NONBLOCK PCL_FF_NONBLOCK flags)"

text \<open>The flags of Linux on x86; \<open>O_SHLOCK\<close> and \<open>O_EXLOCK\<close> do not exist there.\<close>

definition ipcl_sysoflags :: "32 word \<Rightarrow> 32 word" where
  "ipcl_sysoflags pcl_oflags =
     (let oflags = 0;
          oflags = carry_flag pcl_oflags PCL_O_RDONLY 0 oflags;
          oflags = carry_flag pcl_oflags PCL_O_WRONLY 1 oflags;
          oflags = carry_flag pcl_oflags PCL_O_RDWR 2 oflags;
          oflags = carry_flag pcl_oflags PCL_O_CREAT 0x40 oflags;
          oflags = carry_flag pcl_oflags PCL_O_APPEND 0x400 oflags;
          oflags = carry_flag pcl_oflags PCL_O_TRUNC 0x200 oflags;
          oflags = carry_flag pcl_oflags PCL_O_EXCL 0x80 oflags;
          oflags = carry_flag pcl_oflags PCL_O_NONBLOCK 0x800 oflags;
          oflags = carry_flag pcl_oflags PCL_O_CLOEXEC 0x80000 oflags;
          oflags = carry_flag pcl_oflags PCL_O_NOATIME 0x40000 oflags;
          oflags = carry_flag pcl_oflags PCL_O_DIRECTORY 0x10000 oflags;
          oflags = carry_flag pcl_oflags PCL_O_NOFOLLOW 0x20000 oflags
      in carry_flag pcl_oflags PCL_O_SYNC 0x101000 oflags)"

definition ipcl_file_alloc :: "int \<Rightarrow> 32 word \<Rightarrow> pcl_file" where
  "ipcl_file_alloc fd fflags = \<lparr>fl_flags = fflags, fl_fd = fd\<rparr>"

definition ipcl_file_init :: "pcl_file \<Rightarrow> 32 word \<Rightarrow> pcl_file" where
  "ipcl_file_init file oflags = file\<lparr>fl_flags := fl_flags file OR ipcl_oflags_to_fflags oflags\<rparr>"

section \<open>Reading and writing\<close>

text \<open>An interrupted call is made once more. \<open>left\<close> is the number of calls that are left, \<open>2 - eintr\<close>.\<close>

fun read_loop ::
  "'s sys_files \<Rightarrow> int \<Rightarrow> nat \<Rightarrow> nat \<Rightarrow> byte list \<Rightarrow> ('s, 'z) os_world_scheme \<Rightarrow>
     (int \<times> byte list \<times> ('s, 'z) os_world_scheme) option" where
  "read_loop S fd cnt 0 buf w =
     (let (r, w1) = SETLASTERR (''unix_read.c'', ''pcl_file_read'', 57) w in Some (r, buf, w1))"
| "read_loop S fd cnt (Suc left) buf w =
     do { let (res, w1) = syscall (sys_read S fd cnt) w;
          buf1 \<leftarrow> (case res of None \<Rightarrow> Some buf | Some bytes \<Rightarrow> mem_copy buf 0 bytes);
          let n = (case res of None \<Rightarrow> -1 | Some bytes \<Rightarrow> to_int (length bytes));
          if n \<noteq> -1 then Some (n, buf1, w1)
          else if c_errno w1 \<noteq> EINTR
          then (let (r, w2) = SETLASTERR (''unix_read.c'', ''pcl_file_read'', 53) w1 in Some (r, buf1, w2))
          else read_loop S fd cnt left buf1 w1 }"

definition pcl_file_read ::
  "'s sys_files \<Rightarrow> pcl_file option \<Rightarrow> byte list \<Rightarrow> nat \<Rightarrow> ('s, 'z) os_world_scheme \<Rightarrow>
     (int \<times> byte list \<times> ('s, 'z) os_world_scheme) option" where
  "pcl_file_read S file buf cnt w =
     (case file of
        None \<Rightarrow> (let (r, w1) = BADARG (''unix_read.c'', ''pcl_file_read'', 42) w in Some (r, buf, w1))
      | Some f \<Rightarrow>
          if \<not> flag_in (fl_flags f) PCL_FF_READ
          then (let (r, w1) = SETERRMSG (''unix_read.c'', ''pcl_file_read'', 45) PCL_ENOTSUP
                                ''file not opened for read operations'' w in Some (r, buf, w1))
          else read_loop S (fl_fd f) cnt 2 buf w)"

fun write_loop ::
  "'s sys_files \<Rightarrow> int \<Rightarrow> byte list \<Rightarrow> nat \<Rightarrow> ('s, 'z) os_world_scheme \<Rightarrow> int \<times> ('s, 'z) os_world_scheme" where
  "write_loop S fd data 0 w = SETLASTERR (''unix_write.c'', ''pcl_file_write'', 57) w"
| "write_loop S fd data (Suc left) w =
     (let (res, w1) = syscall (sys_write S fd data) w;
          n = (case res of None \<Rightarrow> -1 | Some k \<Rightarrow> to_int k)
      in if n \<noteq> -1 then (n, w1)
         else if c_errno w1 \<noteq> EINTR then SETLASTERR (''unix_write.c'', ''pcl_file_write'', 53) w1
         else write_loop S fd data left w1)"

text \<open>The data is the block that \<open>data\<close> and \<open>count\<close> describe.\<close>

definition pcl_file_write ::
  "'s sys_files \<Rightarrow> pcl_file option \<Rightarrow> byte list \<Rightarrow> ('s, 'z) os_world_scheme \<Rightarrow> int \<times> ('s, 'z) os_world_scheme" where
  "pcl_file_write S file data w =
     (case file of
        None \<Rightarrow> BADARG (''unix_write.c'', ''pcl_file_write'', 42) w
      | Some f \<Rightarrow>
          if \<not> flag_in (fl_flags f) PCL_FF_WRITE
          then SETERRMSG (''unix_write.c'', ''pcl_file_write'', 45) PCL_ENOTSUP
                 ''file not opened for write operations'' w
          else write_loop S (fl_fd f) data 2 w)"

section \<open>Waiting before a call\<close>

text \<open>\<open>poll\<close> with the flags of Linux; \<open>bad\<close> are the flags that mean a broken connection. \<open>Inr\<close> goes on
  to the call.\<close>

definition POLLIN :: "32 word" where "POLLIN = 1"
definition POLLOUT :: "32 word" where "POLLOUT = 4"
definition POLLERR :: "32 word" where "POLLERR = 8"
definition POLLHUP :: "32 word" where "POLLHUP = 16"
definition POLLNVAL :: "32 word" where "POLLNVAL = 32"

definition wait_for ::
  "'s sys_files \<Rightarrow> string \<Rightarrow> string \<Rightarrow> 32 word \<Rightarrow> 32 word \<Rightarrow> pcl_file \<Rightarrow> int \<Rightarrow> ('s, 'z) os_world_scheme \<Rightarrow>
     int option \<times> ('s, 'z) os_world_scheme" where
  "wait_for S fname func events bad f ms_timeout w =
     (let fail = (\<lambda>(r, w). (Some r, w))
      in if ms_timeout > 0
         then (case syscall (sys_poll S (fl_fd f) events ms_timeout) w of
                 (None, w1) \<Rightarrow> fail (SETLASTERR (fname, func, 58) w1)
               | (Some (r, revents), w1) \<Rightarrow>
                   if r = 0 then fail (SETERRMSG_OS (fname, func, 61) PCL_EAGAIN 110 None w1)
                   else if flag_in revents POLLNVAL
                   then fail (SETERRMSG (fname, func, 64) PCL_EBADF ''file descriptor is invalid or not open'' w1)
                   else if flag_in revents bad then fail (SETERR (fname, func, 67) PCL_ECONNRESET w1)
                   else (None, w1))
         else (None, w))"

definition try_guard ::
  "string \<Rightarrow> string \<Rightarrow> 32 word \<Rightarrow> string \<Rightarrow> pcl_file option \<Rightarrow> 'z pcl_err_scheme \<Rightarrow>
     int \<times> 'z pcl_err_scheme + pcl_file" where
  "try_guard fname func dir msg file w =
     (case file of
        None \<Rightarrow> Inl (BADARG (fname, func, 42) w)
      | Some f \<Rightarrow>
          if \<not> flag_in (fl_flags f) dir then Inl (SETERRMSG (fname, func, 45) PCL_ENOTSUP msg w)
          else if \<not> flag_in (fl_flags f) PCL_FF_NONBLOCK
          then Inl (SETERRMSG (fname, func, 48) PCL_ENOTSUP ''file not opened for async I/O'' w)
          else Inr f)"

definition pcl_file_tryread ::
  "'s sys_files \<Rightarrow> pcl_file option \<Rightarrow> byte list \<Rightarrow> nat \<Rightarrow> int \<Rightarrow> ('s, 'z) os_world_scheme \<Rightarrow>
     (int \<times> byte list \<times> ('s, 'z) os_world_scheme) option" where
  "pcl_file_tryread S file buf cnt ms_timeout w =
     (case try_guard ''unix_tryread.c'' ''pcl_file_tryread'' PCL_FF_READ ''file not opened for read operations'' file w of
        Inl (r, w1) \<Rightarrow> Some (r, buf, w1)
      | Inr f \<Rightarrow>
          (case wait_for S ''unix_tryread.c'' ''pcl_file_tryread'' POLLIN POLLERR f ms_timeout w of
             (Some r, w1) \<Rightarrow> Some (r, buf, w1)
           | (None, w1) \<Rightarrow>
               do { (r, buf1, w2) \<leftarrow> pcl_file_read S file buf cnt w1;
                    Some (r, buf1, if r = -1 then snd (TRC (''unix_tryread.c'', ''pcl_file_tryread'', 71) w2)
                                   else w2) }))"

definition pcl_file_trywrite ::
  "'s sys_files \<Rightarrow> pcl_file option \<Rightarrow> byte list \<Rightarrow> int \<Rightarrow> ('s, 'z) os_world_scheme \<Rightarrow> int \<times> ('s, 'z) os_world_scheme" where
  "pcl_file_trywrite S file data ms_timeout w =
     (case try_guard ''unix_trywrite.c'' ''pcl_file_trywrite'' PCL_FF_WRITE ''file not opened for write operations'' file w of
        Inl res \<Rightarrow> res
      | Inr f \<Rightarrow>
          (case wait_for S ''unix_trywrite.c'' ''pcl_file_trywrite'' POLLOUT (POLLHUP OR POLLERR) f ms_timeout w of
             (Some r, w1) \<Rightarrow> (r, w1)
           | (None, w1) \<Rightarrow>
               (let (r, w2) = pcl_file_write S file data w1
                in (r, if r = -1 then snd (TRC (''unix_trywrite.c'', ''pcl_file_trywrite'', 71) w2) else w2))))"

section \<open>Position and locks\<close>

fun seek_loop ::
  "'s sys_files \<Rightarrow> int \<Rightarrow> int \<Rightarrow> int \<Rightarrow> nat \<Rightarrow> ('s, 'z) os_world_scheme \<Rightarrow> int \<times> ('s, 'z) os_world_scheme" where
  "seek_loop S fd offset whence 0 w = (-1, w)"
| "seek_loop S fd offset whence (Suc left) w =
     (let (res, w1) = syscall (sys_lseek S fd offset whence) w;
          off = (case res of None \<Rightarrow> -1 | Some k \<Rightarrow> k)
      in if off \<noteq> -1 then (off, w1)
         else if c_errno w1 \<noteq> EINTR then SETLASTERR (''file_seek.c'', ''pcl_file_seek'', 56) w1
         else seek_loop S fd offset whence left w1)"

definition pcl_file_seek ::
  "'s sys_files \<Rightarrow> pcl_file option \<Rightarrow> int \<Rightarrow> int \<Rightarrow> ('s, 'z) os_world_scheme \<Rightarrow> int \<times> ('s, 'z) os_world_scheme" where
  "pcl_file_seek S file offset whence w =
     (case file of
        None \<Rightarrow> BADARG (''file_seek.c'', ''pcl_file_seek'', 41) w
      | Some f \<Rightarrow> seek_loop S (fl_fd f) offset whence 2 w)"

text \<open>The lock operations are \<open>F_RDLCK\<close>, \<open>F_WRLCK\<close> and \<open>F_UNLCK\<close> of Linux.\<close>

abbreviation (input) PCL_RDLOCK :: int where "PCL_RDLOCK \<equiv> 0"
abbreviation (input) PCL_WRLOCK :: int where "PCL_WRLOCK \<equiv> 1"
abbreviation (input) PCL_UNLOCK :: int where "PCL_UNLOCK \<equiv> 2"

definition pcl_file_lock ::
  "'s sys_files \<Rightarrow> pcl_file option \<Rightarrow> int \<Rightarrow> ('s, 'z) os_world_scheme \<Rightarrow>
     int \<times> pcl_file option \<times> ('s, 'z) os_world_scheme" where
  "pcl_file_lock S file operation w =
     (let fail = (\<lambda>(r, w). (r, file, w))
      in case file of
           None \<Rightarrow> fail (BADARG (''file_lock.c'', ''pcl_file_lock'', 39) w)
         | Some f \<Rightarrow>
             if fl_fd f = PCL_BADFD then fail (BADARG (''file_lock.c'', ''pcl_file_lock'', 39) w)
             else if operation \<notin> {PCL_RDLOCK, PCL_WRLOCK, PCL_UNLOCK}
             then fail (SETERRMSG (''file_lock.c'', ''pcl_file_lock'', 49) PCL_EINVAL
                          (''Unknown lock operation: '' @ int_dec operation) w)
             else (case syscall (sys_setlk S (fl_fd f) (\<not> flag_in (fl_flags f) PCL_FF_NONBLOCK) operation) w of
                     (None, w1) \<Rightarrow> fail (SETLASTERR (''file_lock.c'', ''pcl_file_lock'', 64) w1)
                   | (Some _, w1) \<Rightarrow>
                       (0, Some (f\<lparr>fl_flags := (if operation = PCL_UNLOCK
                                               then fl_flags f AND NOT PCL_FF_FLOCK
                                               else fl_flags f OR PCL_FF_FLOCK)\<rparr>), w1)))"

section \<open>Opening and closing\<close>

text \<open>The text of a path for a message.\<close>

definition path_text :: "byte list \<Rightarrow> string" where
  "path_text path = map (\<lambda>b. char_of (unat b)) path"

definition pcl_unlink ::
  "'s sys_files \<Rightarrow> byte list \<Rightarrow> ('s, 'z) os_world_scheme \<Rightarrow> int \<times> ('s, 'z) os_world_scheme" where
  "pcl_unlink S path w =
     (let w1 = pcl_err_osclear w
      in case syscall (sys_unlink S path) w1 of
           (None, w2) \<Rightarrow> SETLASTERR (''unlink.c'', ''pcl_unlink'', 60) w2
         | (Some _, w2) \<Rightarrow> (0, w2))"

definition pcl_remove ::
  "'s sys_files \<Rightarrow> byte list \<Rightarrow> ('s, 'z) os_world_scheme \<Rightarrow> int \<times> ('s, 'z) os_world_scheme" where
  "pcl_remove S path w =
     (if path = [] then BADARG (''remove.c'', ''pcl_remove'', 44) w
      else case syscall (sys_remove S path) w of
             (None, w1) \<Rightarrow> TRC (''remove.c'', ''pcl_remove'', 65) w1
           | (Some _, w1) \<Rightarrow> (0, w1))"

definition pcl_rename ::
  "'s sys_files \<Rightarrow> byte list \<Rightarrow> byte list \<Rightarrow> ('s, 'z) os_world_scheme \<Rightarrow> int \<times> ('s, 'z) os_world_scheme" where
  "pcl_rename S oldname newname w =
     (case syscall (sys_rename S oldname newname) (pcl_err_osclear w) of
        (None, w1) \<Rightarrow> SETLASTERR (''rename.c'', ''pcl_rename'', 51) w1
      | (Some _, w1) \<Rightarrow> (0, w1))"

text \<open>The lock that open flags ask for; the exclusive one wins.\<close>

definition open_lock ::
  "'s sys_files \<Rightarrow> pcl_file \<Rightarrow> byte list \<Rightarrow> 32 word \<Rightarrow> ('s, 'z) os_world_scheme \<Rightarrow>
     int option \<times> pcl_file \<times> ('s, 'z) os_world_scheme" where
  "open_lock S f path pcl_oflags w =
     (let lock = (\<lambda>operation line.
            (case pcl_file_lock S (Some f) operation w of
               (r, fo, w1) \<Rightarrow>
                 (let f1 = (case fo of Some f1 \<Rightarrow> f1 | None \<Rightarrow> f)
                  in if r \<noteq> 0
                     then (case TRCMSG (''unix_file_open.c'', ''ipcl_file_open'', line)
                                  (Some (''file open cannot aquire lock on '' @ [CHR 0x27] @ path_text path @ [CHR 0x27])) w1 of
                             (r1, w2) \<Rightarrow> (Some r1, f1, w2))
                     else (None, f1\<lparr>fl_flags := fl_flags f1 OR PCL_FF_FLOCK\<rparr>, w1))))
      in if flag_in pcl_oflags PCL_O_EXLOCK then lock PCL_WRLOCK 73
         else if flag_in pcl_oflags PCL_O_SHLOCK then lock PCL_RDLOCK 85
         else (None, f, w))"

definition ipcl_file_open ::
  "'s sys_files \<Rightarrow> pcl_file \<Rightarrow> byte list \<Rightarrow> 32 word \<Rightarrow> 32 word \<Rightarrow> ('s, 'z) os_world_scheme \<Rightarrow>
     int \<times> pcl_file \<times> ('s, 'z) os_world_scheme" where
  "ipcl_file_open S file path pcl_oflags mode w =
     (case syscall (sys_open S path (ipcl_sysoflags pcl_oflags) mode) w of
        (None, w1) \<Rightarrow> (case SETLASTERR (''unix_file_open.c'', ''ipcl_file_open'', 63) w1 of
                         (r, w2) \<Rightarrow> (r, file\<lparr>fl_fd := -1\<rparr>, w2))
      | (Some fd, w1) \<Rightarrow>
          (case open_lock S (file\<lparr>fl_fd := fd\<rparr>) path pcl_oflags w1 of
             (Some r, f1, w2) \<Rightarrow> (r, f1, w2)
           | (None, f1, w2) \<Rightarrow>
               (0, f1, if flag_in pcl_oflags PCL_O_TEMP then snd (pcl_unlink S path w2) else w2)))"

text \<open>Closing runs with the error frozen, and leaves it not frozen.\<close>

definition pcl_file_close ::
  "'s sys_files \<Rightarrow> pcl_file option \<Rightarrow> ('s, 'z) os_world_scheme \<Rightarrow> ('s, 'z) os_world_scheme" where
  "pcl_file_close S file w =
     (case file of
        None \<Rightarrow> w
      | Some f \<Rightarrow>
          (let w1 = pcl_err_freeze True w;
               w2 = (if flag_in (fl_flags f) PCL_FF_FLOCK
                     then (case pcl_file_lock S (Some f) PCL_UNLOCK w1 of (_, _, w2) \<Rightarrow> w2) else w1);
               w3 = (if fl_fd f \<noteq> PCL_BADFD then snd (syscall (sys_close S (fl_fd f)) w2) else w2)
           in pcl_err_freeze False w3))"

definition pcl_file_open ::
  "'s sys_files \<Rightarrow> byte list option \<Rightarrow> 32 word \<Rightarrow> 32 word \<Rightarrow> ('s, 'z) os_world_scheme \<Rightarrow>
     pcl_file option \<times> ('s, 'z) os_world_scheme" where
  "pcl_file_open S path oflags arg w =
     (case path of
        None \<Rightarrow> R_SETERR None (''file_open.c'', ''pcl_file_open'', 39) PCL_EINVAL w
      | Some p \<Rightarrow>
          if p = [] then R_SETERR None (''file_open.c'', ''pcl_file_open'', 39) PCL_EINVAL w
          else (let mode = (if flag_in oflags PCL_O_CREAT then arg else 0)
                in case ipcl_file_open S (ipcl_file_alloc PCL_BADFD 0) p oflags mode w of
                     (r, f, w1) \<Rightarrow>
                       if r \<noteq> 0
                       then R_TRCMSG None (''file_open.c'', ''pcl_file_open'', 56) (path_text p)
                              (pcl_file_close S (Some f) w1)
                       else (Some (ipcl_file_init f oflags), w1)))"

end
