(* ===== verification/PclDir.thy ===== *)
theory PclDir imports PclFile PclString begin

text \<open>
  Directories on Unix (\<open>src/dir\<close>: \<open>mkdir.c\<close>, \<open>mkdirs.c\<close>, \<open>rmdir.c\<close>, \<open>chdir.c\<close>). \<open>pcl_mkdirs\<close> works on a copy of
  the path: it cuts the copy at every separator in turn and makes the directory in front of it.
\<close>

section \<open>One directory\<close>

record 's sys_dirs =
  sys_mkdir :: "byte list \<Rightarrow> 32 word \<Rightarrow> 's \<Rightarrow> (int + unit) \<times> 's"
  sys_rmdir :: "byte list \<Rightarrow> 's \<Rightarrow> (int + unit) \<times> 's"
  sys_chdir :: "byte list \<Rightarrow> 's \<Rightarrow> (int + unit) \<times> 's"

definition mkdir_text :: "string \<Rightarrow> byte list \<Rightarrow> string" where
  "mkdir_text what path = ''failed to create '' @ what @ '': '' @ [CHR 0x27] @ path_text path @ [CHR 0x27]"

definition pcl_mkdir ::
  "'s sys_dirs \<Rightarrow> byte list \<Rightarrow> 32 word \<Rightarrow> ('s, 'z) os_world_scheme \<Rightarrow> int \<times> ('s, 'z) os_world_scheme" where
  "pcl_mkdir S path mode w =
     (case syscall (sys_mkdir S path mode) (pcl_err_osclear w) of
        (None, w1) \<Rightarrow> SETLASTERRMSG (''mkdir.c'', ''pcl_mkdir'', 65) (mkdir_text ''directory'' path) w1
      | (Some _, w1) \<Rightarrow> (0, w1))"

definition pcl_rmdir ::
  "'s sys_dirs \<Rightarrow> byte list \<Rightarrow> ('s, 'z) os_world_scheme \<Rightarrow> int \<times> ('s, 'z) os_world_scheme" where
  "pcl_rmdir S path w =
     (if path = [] then BADARG (''rmdir.c'', ''pcl_rmdir'', 39) w
      else case syscall (sys_rmdir S path) w of
             (None, w1) \<Rightarrow> SETLASTERR (''rmdir.c'', ''pcl_rmdir'', 56) w1
           | (Some _, w1) \<Rightarrow> (0, w1))"

definition pcl_chdir ::
  "'s sys_dirs \<Rightarrow> byte list \<Rightarrow> ('s, 'z) os_world_scheme \<Rightarrow> int \<times> ('s, 'z) os_world_scheme" where
  "pcl_chdir S path w =
     (case syscall (sys_chdir S path) w of
        (None, w1) \<Rightarrow> SETLASTERR (''chdir.c'', ''pcl_chdir'', 44) w1
      | (Some _, w1) \<Rightarrow> (0, w1))"

section \<open>All directories of a path\<close>

text \<open>\<open>path\<close> is the copy and \<open>pos\<close> the offset of \<open>path_pos\<close> in it; \<open>orig\<close> is the caller's path.
  At the end \<open>errno\<close> gets back the value \<open>save_err\<close> that it had at the beginning.\<close>

function mkdirs_loop ::
  "'s sys_dirs \<Rightarrow> byte list \<Rightarrow> 32 word \<Rightarrow> int \<Rightarrow> byte list \<Rightarrow> nat \<Rightarrow> ('s, 'z) os_world_scheme \<Rightarrow>
     (int \<times> ('s, 'z) os_world_scheme) option" where
  "mkdirs_loop S orig mode save_err path pos w =
     do { sep \<leftarrow> c_strchr 47 (drop pos path);
          path1 \<leftarrow> (case sep of None \<Rightarrow> Some path | Some k \<Rightarrow> wr path (int (pos + k)) 0);
          n \<leftarrow> c_strlen path1;
          case pcl_mkdir S (take n path1) mode w of
            (r, w1) \<Rightarrow>
              if r \<noteq> 0 \<and> pcl_err_last w1 \<noteq> PCL_EEXIST
              then Some (TRCMSG (''mkdirs.c'', ''pcl_mkdirs'', 77) (Some (mkdir_text ''directories'' orig)) w1)
              else (case sep of
                      None \<Rightarrow> Some (0, w1\<lparr>c_errno := save_err\<rparr>)
                    | Some k \<Rightarrow> do { path2 \<leftarrow> wr path1 (int (pos + k)) 47;
                                     mkdirs_loop S orig mode save_err path2 (pos + k + 1) w1 }) }"
  by pat_completeness auto
termination
  by (relation "measure (\<lambda>(S, orig, mode, save_err, path, pos, w). length path - pos)") (auto dest!: wr_SomeD)

declare mkdirs_loop.simps [simp del]

text \<open>The copy holds 16 * 1024 characters; a longer path makes \<open>path_pos\<close> a null pointer.\<close>

definition pcl_mkdirs ::
  "'s sys_dirs \<Rightarrow> byte \<Rightarrow> byte list \<Rightarrow> 32 word \<Rightarrow> ('s, 'z) os_world_scheme \<Rightarrow>
     (int \<times> ('s, 'z) os_world_scheme) option" where
  "pcl_mkdirs S junk path0 mode w =
     do { let save_err = c_errno w;
          (ok, copy, w1) \<leftarrow> pcl_strncpy (Some (replicate (16 * 1024) junk)) (16 * 1024) (Some path0) 0 w;
          path \<leftarrow> (if ok then copy else None);
          c \<leftarrow> rd path 0;
          n \<leftarrow> c_strlen path0;
          mkdirs_loop S (take n path0) mode save_err path (if c = 47 then 1 else 0) w1 }"

end
