(* ===== verification/PclSocket.thy ===== *)
theory PclSocket imports PclFile begin

text \<open>
  Pipes between processes (\<open>src/process/proc_pipe.c\<close>, Unix) and the transfer of data through sockets
  (\<open>src/socket\<close>: \<open>socket_isalive.c\<close>, \<open>recv.c\<close>, \<open>send.c\<close>, \<open>recvall.c\<close>, \<open>sendall.c\<close>).
\<close>

section \<open>Pipes\<close>

record 's sys_pipes = "'s sys_files" +
  sys_pipe :: "'s \<Rightarrow> (int + int \<times> int) \<times> 's"
  sys_fcntl :: "int \<Rightarrow> int \<Rightarrow> int \<Rightarrow> 's \<Rightarrow> (int + int) \<times> 's"

text \<open>A flag is added to those of a descriptor by a get and a set.\<close>

definition fd_add_flag ::
  "('s, 'y) sys_pipes_scheme \<Rightarrow> int \<Rightarrow> int \<Rightarrow> int \<Rightarrow> int \<Rightarrow> int \<Rightarrow> ('s, 'z) os_world_scheme \<Rightarrow>
     bool \<times> ('s, 'z) os_world_scheme" where
  "fd_add_flag S fd get_cmd set_cmd flag line w =
     (let loc = (\<lambda>k. (''proc_pipe.c'', ''pcl_proc_pipe'', line + k));
          result = (\<lambda>res. case res of None \<Rightarrow> -1 | Some n \<Rightarrow> n);
          (res, w1) = syscall (sys_fcntl S fd get_cmd 0) w;
          n = result res
      in if n < 0 then (False, snd (SETLASTERR (loc 0) w1))
         else (let (res1, w2) = syscall (sys_fcntl S fd set_cmd (or n flag)) w1
               in if result res1 < 0 then (False, snd (SETLASTERR (loc 2) w2)) else (True, w2)))"

definition pipe_flags ::
  "('s, 'y) sys_pipes_scheme \<Rightarrow> int \<Rightarrow> 32 word \<Rightarrow> ('s, 'z) os_world_scheme \<Rightarrow> bool \<times> ('s, 'z) os_world_scheme" where
  "pipe_flags S fd oflags w =
     (let (ok, w1) = (if flag_in oflags PCL_O_NONBLOCK then fd_add_flag S fd 3 4 0x800 97 w else (True, w))
      in if ok \<and> flag_in oflags PCL_O_CLOEXEC then fd_add_flag S fd 1 2 1 114 w1 else (ok, w1))"

definition pcl_proc_pipe ::
  "'s sys_pipes \<Rightarrow> 32 word \<Rightarrow> 32 word \<Rightarrow> ('s, 'z) os_world_scheme \<Rightarrow>
     int \<times> (pcl_file \<times> pcl_file) option \<times> ('s, 'z) os_world_scheme" where
  "pcl_proc_pipe S rd_oflags wr_oflags w =
     (case syscall (sys_pipe S) w of
        (None, w1) \<Rightarrow> (case SETLASTERR (''proc_pipe.c'', ''pcl_proc_pipe'', 86) w1 of (r, w2) \<Rightarrow> (r, None, w2))
      | (Some (fd0, fd1), w1) \<Rightarrow>
          (let failed = (\<lambda>w. (-1, None,
                 snd (syscall (sys_close S fd1)
                   (snd (syscall (sys_close S fd0) w)))));
               (ok0, w2) = pipe_flags S fd0 rd_oflags w1
           in if \<not> ok0 then failed w2
              else (let (ok1, w3) = pipe_flags S fd1 wr_oflags w2
                    in if \<not> ok1 then failed w3
                       else (let rd = rd_oflags AND NOT (PCL_O_WRONLY OR PCL_O_RDWR);
                                 pipe0 = ipcl_file_alloc fd0 0;
                                 pipe0 = ipcl_file_init pipe0 (rd OR PCL_O_RDONLY);
                                 wr = wr_oflags AND NOT (PCL_O_RDONLY OR PCL_O_RDWR);
                                 pipe1 = ipcl_file_alloc fd1 0;
                                 pipe0 = ipcl_file_init pipe0 (wr OR PCL_O_WRONLY)
                             in (0, Some (pipe0, pipe1), w3)))))"

section \<open>Sockets\<close>

record 's sys_sockets =
  sys_recv :: "int \<Rightarrow> nat \<Rightarrow> int \<Rightarrow> 's \<Rightarrow> (int + byte list) \<times> 's"
  sys_send :: "int \<Rightarrow> byte list \<Rightarrow> int \<Rightarrow> 's \<Rightarrow> (int + nat) \<times> 's"

record pcl_socket =
  sk_flags :: "32 word"
  sk_fd :: int

definition PCL_SOCK_CONNECTED :: "32 word" where "PCL_SOCK_CONNECTED = 2"

definition pcl_socket_isalive :: "pcl_socket option \<Rightarrow> bool" where
  "pcl_socket_isalive sock =
     (case sock of None \<Rightarrow> False | Some s \<Rightarrow> sk_fd s \<noteq> -1 \<and> flag_in (sk_flags s) PCL_SOCK_CONNECTED)"

text \<open>An interrupted call is made once more; the code of the error of the last call is set.\<close>

definition sock_retry ::
  "('s \<Rightarrow> (int + 'a) \<times> 's) \<Rightarrow> ('s, 'z) os_world_scheme \<Rightarrow> 'a option \<times> ('s, 'z) os_world_scheme" where
  "sock_retry call w =
     (case syscall call w of
        (None, w1) \<Rightarrow> if pcl_err_os2pcl (c_errno w1) = PCL_EINTR then syscall call w1 else (None, w1)
      | (Some r, w1) \<Rightarrow> (Some r, w1))"

definition pcl_recv ::
  "'s sys_sockets \<Rightarrow> pcl_socket option \<Rightarrow> nat \<Rightarrow> int \<Rightarrow> ('s, 'z) os_world_scheme \<Rightarrow>
     int \<times> byte list \<times> ('s, 'z) os_world_scheme" where
  "pcl_recv S sock cnt flags w =
     (case (pcl_socket_isalive sock, sock) of
        (True, Some s) \<Rightarrow>
          (case sock_retry (sys_recv S (sk_fd s) cnt flags) w of
             (Some bytes, w1) \<Rightarrow> (int (length bytes), bytes, w1)
           | (None, w1) \<Rightarrow>
               (let err = pcl_err_os2pcl (c_errno w1);
                    err = (if err = PCL_EWOULDBLOCK \<or> err = PCL_EAGAIN then PCL_EAGAIN else err)
                in case SETERR (''recv.c'', ''pcl_recv'', 66) err w1 of (r, w2) \<Rightarrow> (r, [], w2)))
      | _ \<Rightarrow> (case SETERR (''recv.c'', ''pcl_recv'', 47) PCL_EINVAL w of (r, w1) \<Rightarrow> (r, [], w1)))"

definition pcl_send ::
  "'s sys_sockets \<Rightarrow> pcl_socket option \<Rightarrow> byte list \<Rightarrow> int \<Rightarrow> ('s, 'z) os_world_scheme \<Rightarrow>
     int \<times> ('s, 'z) os_world_scheme" where
  "pcl_send S sock data flags w =
     (case (pcl_socket_isalive sock, sock) of
        (True, Some s) \<Rightarrow>
          (case sock_retry (sys_send S (sk_fd s) data flags) w of
             (Some n, w1) \<Rightarrow> (int n, w1)
           | (None, w1) \<Rightarrow>
               (let err = pcl_err_os2pcl (c_errno w1);
                    err = (if err = PCL_EWOULDBLOCK \<or> err = PCL_EINTR then PCL_EAGAIN else err)
                in SETERR (''send.c'', ''pcl_send'', 66) err w1))
      | _ \<Rightarrow> SETERR (''send.c'', ''pcl_send'', 47) PCL_EINVAL w)"

text \<open>The loops compare the lower 32 bits of the total and of the count. They may not end: the loop is
  a partial function, and not ending is \<open>None\<close>, as is a total of less than 0 or above the count.\<close>

definition low_less :: "nat \<Rightarrow> nat \<Rightarrow> bool" where
  "low_less tot cnt \<longleftrightarrow> tot mod 2 ^ 32 < cnt mod 2 ^ 32"

partial_function (option) recv_loop ::
  "'s sys_sockets \<Rightarrow> pcl_socket option \<Rightarrow> nat \<Rightarrow> nat \<Rightarrow> byte list \<Rightarrow> ('s, 'z) os_world_scheme \<Rightarrow>
     (bool \<times> byte list \<times> ('s, 'z) os_world_scheme) option" where
  "recv_loop S sock cnt tot buf w =
     (case pcl_recv S sock (cnt - tot) 0 w of
        (r, bytes, w1) \<Rightarrow>
          if r = -1 then Some (False, buf, snd (TRC (''recvall.c'', ''pcl_recvall'', 52) w1))
          else if r = 0 then Some (False, buf, snd (SETERR (''recvall.c'', ''pcl_recvall'', 62) PCL_ECONNRESET w1))
          else do { buf1 \<leftarrow> mem_copy buf (int tot) bytes;
                    let tot1 = tot + nat r;
                    if cnt < tot1 then None
                    else if low_less tot1 cnt then recv_loop S sock cnt tot1 buf1 w1
                    else Some (True, buf1, w1) })"

definition pcl_recvall ::
  "'s sys_sockets \<Rightarrow> pcl_socket option \<Rightarrow> byte list \<Rightarrow> nat \<Rightarrow> ('s, 'z) os_world_scheme \<Rightarrow>
     (bool \<times> byte list \<times> ('s, 'z) os_world_scheme) option" where
  "pcl_recvall S sock buf cnt w = recv_loop S sock cnt 0 buf w"

partial_function (option) send_loop ::
  "'s sys_sockets \<Rightarrow> pcl_socket option \<Rightarrow> byte list \<Rightarrow> nat \<Rightarrow> nat \<Rightarrow> ('s, 'z) os_world_scheme \<Rightarrow>
     (bool \<times> ('s, 'z) os_world_scheme) option" where
  "send_loop S sock data cnt tot w =
     (case pcl_send S sock (drop tot data) 0 w of
        (r, w1) \<Rightarrow>
          if r = -1 then Some (R_TRC False (''sendall.c'', ''pcl_sendall'', 51) w1)
          else do { let tot1 = tot + nat r;
                    if cnt < tot1 then None
                    else if low_less tot1 cnt then send_loop S sock data cnt tot1 w1
                    else Some (True, w1) })"

text \<open>The data is the block of \<open>count\<close> bytes.\<close>

definition pcl_sendall ::
  "'s sys_sockets \<Rightarrow> pcl_socket option \<Rightarrow> byte list \<Rightarrow> ('s, 'z) os_world_scheme \<Rightarrow>
     (bool \<times> ('s, 'z) os_world_scheme) option" where
  "pcl_sendall S sock data w = send_loop S sock data (length data) 0 w"

declare recv_loop.simps [code] send_loop.simps [code]

end
