(* ===== verification/PclFileOk.thy ===== *)
theory PclFileOk imports PclSocket begin

text \<open>
  What the file, pipe and socket functions promise of the system calls they are made of: which error
  is left, that no descriptor leaks, that the loops transfer everything, and where they do not.
\<close>

section \<open>Flags\<close>

lemma flag_in_or: "flag_in (a OR b) f \<longleftrightarrow> flag_in a f \<or> flag_in b f"
  by (simp add: flag_in_def bit.conj_disj_distrib2 or_eq_0_iff)

text \<open>The bit that a flag contributes.\<close>

definition flag_bit :: "32 word \<Rightarrow> 32 word \<Rightarrow> 32 word \<Rightarrow> 32 word" where
  "flag_bit src f b = (if flag_in src f then b else 0)"

lemma carry_flag_bit: "carry_flag src f b dest = dest OR flag_bit src f b"
  by (simp add: carry_flag_def flag_bit_def)

lemma flag_bit_or: "flag_bit (x OR y) f b = flag_bit x f b OR flag_bit y f b"
  by (simp add: flag_bit_def flag_in_or)

text \<open>The conversion works flag by flag.\<close>

lemma sysoflags_or: "ipcl_sysoflags (a OR b) = ipcl_sysoflags a OR ipcl_sysoflags b"
  unfolding ipcl_sysoflags_def Let_def carry_flag_bit flag_bit_or or.left_neutral
  by (simp only: or.assoc or.commute or.left_commute)

section \<open>Errors of the system\<close>

text \<open>A failing system call sets its own error.\<close>

lemma setlasterr_thawed:
  "\<not> frozen w \<Longrightarrow> pcl_err_os2pcl (c_errno w) \<noteq> 0 \<Longrightarrow>
     SETLASTERR l w = (-1, raised l (pcl_err_os2pcl (c_errno w)) (c_errno w) None w)"
  by (simp add: SETLASTERR_def SETOSERR_def SETERRMSG_OS_thawed)

lemma syscall_frozen [simp]: "frozen (snd (syscall f w)) = frozen w"
  by (auto simp: syscall_def split: prod.splits sum.splits)

lemma syscall_err [simp]: "err (snd (syscall f w)) = err w" "strace (snd (syscall f w)) = strace w"
  by (auto simp: syscall_def split: prod.splits sum.splits)

lemma os_raised [simp]: "os (raised l e n m w) = os w"
  by (simp add: raised_def)

lemma init_write: "flag_in (fl_flags (ipcl_file_init f (x OR PCL_O_WRONLY))) PCL_FF_WRITE"
proof -
  have "flag_in (x OR PCL_O_WRONLY) PCL_O_WRONLY" by (simp add: flag_in_or) (simp add: flag_in_def PCL_O_WRONLY_def)
  moreover have "flag_in PCL_FF_WRITE PCL_FF_WRITE" by (simp add: flag_in_def PCL_FF_WRITE_def)
  ultimately show ?thesis
    by (simp add: ipcl_file_init_def ipcl_oflags_to_fflags_def Let_def carry_flag_bit flag_in_or)
qed

section \<open>A system for the examples\<close>

text \<open>The state is the number of open descriptors. Nothing can be removed, read or locked.\<close>

definition demo_files :: "nat sys_files" where
  "demo_files = \<lparr>sys_read = (\<lambda>fd n s. (Inl 9, s)), sys_write = (\<lambda>fd d s. (Inr (length d), s)),
     sys_poll = (\<lambda>fd ev ms s. (Inr (0, 0), s)), sys_lseek = (\<lambda>fd off wh s. (Inr off, s)),
     sys_open = (\<lambda>p fl m s. (Inr 3, s + 1)), sys_close = (\<lambda>fd s. (Inr (), s - 1)),
     sys_setlk = (\<lambda>fd wait op s. (Inl 11, s)), sys_unlink = (\<lambda>p s. (Inl 2, s)),
     sys_remove = (\<lambda>p s. (Inl 2, s)), sys_rename = (\<lambda>p q s. (Inl 2, s))\<rparr>"

definition demo_os :: "'s \<Rightarrow> 's os_world" where
  "demo_os s = \<lparr>frozen = False, err = 0, oserr = 0, strace = [], c_errno = 0, os = s\<rparr>"

section \<open>Files\<close>

text \<open>C17: When \<open>remove\<close> fails, \<open>pcl_remove\<close> adds a trace line, records \<open>errno\<close> and leaves the error codes as
  they were: it never sets an error. Its result is that of the trace macro, which is -1 only when an
  error was pending before; otherwise the function reports success for a file that was not removed.\<close>

theorem remove_reports_success:
  assumes "path \<noteq> []" "\<not> frozen w" "sys_remove S path (os w) = (Inl e, s)"
  shows "pcl_remove S path w = (if err w = 0 then 0 else -1,
    w\<lparr>c_errno := e, os := s, strace := mk_trace (''remove.c'', ''pcl_remove'', 65) None # strace w\<rparr>)"
  using assms by (simp add: pcl_remove_def syscall_def TRC_def TRCMSG_thawed)

lemma remove_reports_success_witness:
  "pcl_remove demo_files [97] (demo_os 0) = (if err (demo_os (0 :: nat)) = 0 then 0 else -1,
    (demo_os 0)\<lparr>c_errno := 2, os := 0, strace := mk_trace (''remove.c'', ''pcl_remove'', 65) None # strace (demo_os (0 :: nat))\<rparr>)"
  by (rule remove_reports_success) (simp_all add: demo_os_def demo_files_def)

text \<open>C18: When the lock that the flags of \<open>pcl_file_open\<close> ask for is refused, the descriptor that was opened is
  closed again, the error of the lock is kept with its code of the system, and the result is \<open>NULL\<close>.
  The call waits for the lock even when the file is opened non-blocking, as the flags of the file are
  not set yet.\<close>

theorem file_open_lock_refused:
  assumes "p \<noteq> []" "\<not> frozen w" "fd \<noteq> -1"
    and "sys_open S p (ipcl_sysoflags fl) (if flag_in fl PCL_O_CREAT then arg else 0) (os w) = (Inr fd, s1)"
    and "flag_in fl PCL_O_EXLOCK \<or> flag_in fl PCL_O_SHLOCK"
    and "sys_setlk S fd True (if flag_in fl PCL_O_EXLOCK then PCL_WRLOCK else PCL_RDLOCK) s1 = (Inl e, s2)"
    and "pcl_err_os2pcl e \<noteq> 0" "sys_close S fd s2 = (res, s3)"
  shows "\<exists>w'. pcl_file_open S (Some p) fl arg w = (None, w') \<and> os w' = s3 \<and> err w' = pcl_err_os2pcl e
    \<and> oserr w' = e \<and> \<not> frozen w' \<and> length (strace w') = 3"
proof -
  let ?w1 = "w\<lparr>os := s1\<rparr>"
  let ?f = "\<lparr>fl_flags = 0, fl_fd = fd\<rparr>"
  let ?w2 = "?w1\<lparr>c_errno := e, os := s2\<rparr>"
  let ?w3 = "raised (''file_lock.c'', ''pcl_file_lock'', 64) (pcl_err_os2pcl e) e None ?w2"
  have op: "syscall (sys_open S p (ipcl_sysoflags fl) (if flag_in fl PCL_O_CREAT then arg else 0)) w = (Some fd, ?w1)"
    using assms(4) by (simp add: syscall_def)
  define k where "k = (if flag_in fl PCL_O_EXLOCK then PCL_WRLOCK else PCL_RDLOCK)"
  have k: "k \<in> {PCL_RDLOCK, PCL_WRLOCK, PCL_UNLOCK}" by (simp add: k_def)
  have nb: "\<not> flag_in 0 PCL_FF_NONBLOCK" "\<not> flag_in 0 PCL_FF_FLOCK" by (simp_all add: flag_in_def)
  have "syscall (sys_setlk S fd True k) ?w1 = (None, ?w2)"
    using assms(6) by (simp add: syscall_def k_def)
  then have lock: "pcl_file_lock S (Some ?f) k ?w1 = (-1, Some ?f, ?w3)"
    using assms(2,3,7) k nb(1) by (simp add: pcl_file_lock_def setlasterr_thawed Let_def)
  obtain f2 l where tr: "open_lock S ?f p fl ?w1 = (Some (-1), ?f, ?w3\<lparr>strace := l # strace ?w3\<rparr>)"
    using lock assms(2,5,7) unfolding open_lock_def Let_def k_def
    by (cases "flag_in fl PCL_O_EXLOCK") (simp_all add: TRCMSG_thawed)
  let ?w4 = "?w3\<lparr>strace := l # strace ?w3\<rparr>"
  have "ipcl_file_open S (ipcl_file_alloc PCL_BADFD 0) p fl (if flag_in fl PCL_O_CREAT then arg else 0) w = (-1, ?f, ?w4)"
    using op tr by (simp add: ipcl_file_open_def ipcl_file_alloc_def)
  moreover obtain w5 where "pcl_file_close S (Some ?f) ?w4 = w5" "os w5 = s3" "err w5 = pcl_err_os2pcl e" "oserr w5 = e"
    "\<not> frozen w5" "strace w5 = strace ?w4"
    using assms(3,8) nb(2) by (cases res) (simp_all add: pcl_file_close_def Let_def pcl_err_freeze_def syscall_def)
  ultimately show ?thesis
    using assms(1,7) by (simp add: pcl_file_open_def Let_def R_TRCMSG_def TRCMSG_thawed)
qed

lemma file_open_lock_refused_witness:
  "\<exists>w'. pcl_file_open demo_files (Some [97]) PCL_O_EXLOCK 0 (demo_os 0) = (None, w') \<and> os w' = 0
    \<and> err w' = pcl_err_os2pcl 11 \<and> oserr w' = 11 \<and> \<not> frozen w' \<and> length (strace w') = 3"
proof -
  have "pcl_err_os2pcl 11 = PCL_EAGAIN" by code_simp
  then show ?thesis
    by (intro file_open_lock_refused [where fd = 3 and ?s1.0 = 1 and ?s2.0 = 1 and res = "Inr ()"])
      (simp_all add: demo_os_def demo_files_def flag_in_def PCL_O_EXLOCK_def)
qed

section \<open>Pipes\<close>

text \<open>C13: \<open>pcl_proc_pipe\<close> initialises its first file twice and its second one never: whatever the flags,
  the write end of a new pipe has no flags at all, so \<open>pcl_file_write\<close> refuses to write to it, and
  the read end claims that it can be written.\<close>

theorem proc_pipe_write_end:
  assumes "pcl_proc_pipe S rd_oflags wr_oflags w = (r, Some (p0, p1), w1)" "\<not> frozen v"
  shows "fl_flags p1 = 0 \<and> flag_in (fl_flags p0) PCL_FF_WRITE
    \<and> pcl_file_write F (Some p1) data v
      = (-1, raised (''unix_write.c'', ''pcl_file_write'', 45) PCL_ENOTSUP 0
               (Some ''file not opened for write operations'') v)"
proof -
  have "fl_flags p1 = 0 \<and> flag_in (fl_flags p0) PCL_FF_WRITE"
    using assms(1)
    by (auto simp: pcl_proc_pipe_def Let_def ipcl_file_alloc_def init_write split: prod.splits option.splits if_splits)
  then show ?thesis
    using assms(2) by (simp add: pcl_file_write_def flag_in_def macros_thawed)
qed

definition demo_pipes :: "nat sys_pipes" where
  "demo_pipes = sys_files.extend demo_files
     \<lparr>sys_pipe = (\<lambda>s. (Inr (3, 4), s + 2)), sys_fcntl = (\<lambda>fd c x s. (Inr 0, s))\<rparr>"

lemma proc_pipe_write_end_witness:
  "\<exists>p0 p1 w1. pcl_proc_pipe demo_pipes 0 0 (demo_os 0) = (0, Some (p0, p1), w1)
    \<and> fl_flags p1 = 0 \<and> flag_in (fl_flags p0) PCL_FF_WRITE
    \<and> pcl_file_write demo_files (Some p1) [97] (demo_os (0 :: nat))
      = (-1, raised (''unix_write.c'', ''pcl_file_write'', 45) PCL_ENOTSUP 0
               (Some ''file not opened for write operations'') (demo_os 0))"
proof -
  have "\<exists>p0 p1 w1. pcl_proc_pipe demo_pipes 0 0 (demo_os 0) = (0, Some (p0, p1), w1)"
    by (simp add: pcl_proc_pipe_def syscall_def demo_pipes_def demo_os_def pipe_flags_def flag_in_def
        sys_files.defs Let_def)
  then obtain p0 p1 w1 where "pcl_proc_pipe demo_pipes 0 0 (demo_os 0) = (0, Some (p0, p1), w1)" by blast
  then show ?thesis
    using proc_pipe_write_end [of demo_pipes 0 0 "demo_os 0" 0 p0 p1 w1 "demo_os (0 :: nat)" demo_files "[97]"]
    by (auto simp: demo_os_def)
qed

section \<open>Receiving everything\<close>

text \<open>A connection whose stream is \<open>rest\<close>: every call takes some of it from its front, at least one byte
  while there is one.\<close>

definition streams :: "'s sys_sockets \<Rightarrow> int \<Rightarrow> ('s \<Rightarrow> byte list) \<Rightarrow> bool" where
  "streams S fd rest \<longleftrightarrow> (\<forall>n s. 0 < n \<longrightarrow> (\<exists>k s'. sys_recv S fd n 0 s = (Inr (take k (rest s)), s')
     \<and> rest s' = drop k (rest s) \<and> k \<le> n \<and> (rest s \<noteq> [] \<longrightarrow> 0 < k)))"

lemma recv_stream:
  assumes "streams S (sk_fd s) rest" "pcl_socket_isalive (Some s)" "0 < n"
  obtains d s' where "pcl_recv S (Some s) n 0 w = (int (length d), d, w\<lparr>os := s'\<rparr>)"
    "rest (os w) = d @ rest s'" "length d \<le> n" "rest (os w) \<noteq> [] \<longrightarrow> d \<noteq> []"
proof -
  obtain k s' where k: "sys_recv S (sk_fd s) n 0 (os w) = (Inr (take k (rest (os w))), s')"
    "rest s' = drop k (rest (os w))" "k \<le> n" "rest (os w) \<noteq> [] \<longrightarrow> 0 < k"
    using assms(1,3) unfolding streams_def by metis
  then show ?thesis using that [of "take k (rest (os w))" s'] assms(2)
    by (simp add: pcl_recv_def sock_retry_def syscall_def min.coboundedI2)
qed

lemma mem_copy_tail:
  "tot + length bytes \<le> length buf \<Longrightarrow>
     mem_copy buf (int tot) bytes = Some (take tot buf @ bytes @ drop (tot + length bytes) buf)"
  by (simp add: mem_copy_def)

lemma recv_loop_stream:
  assumes "streams S (sk_fd s) rest" "pcl_socket_isalive (Some s)" "cnt < 2 ^ 32" "cnt \<le> length buf"
  shows "tot < cnt \<Longrightarrow> length buf' = length buf \<Longrightarrow>
    (if cnt - tot \<le> length (rest (os w))
     then \<exists>s'. recv_loop S (Some s) cnt tot buf' w
           = Some (True, take tot buf' @ take (cnt - tot) (rest (os w)) @ drop cnt buf', w\<lparr>os := s'\<rparr>)
         \<and> rest s' = drop (cnt - tot) (rest (os w))
     else \<exists>buf1 s'. recv_loop S (Some s) cnt tot buf' w
           = Some (False, buf1, snd (SETERR (''recvall.c'', ''pcl_recvall'', 62) PCL_ECONNRESET (w\<lparr>os := s'\<rparr>)))
         \<and> rest s' = [])"
proof (induction "cnt - tot" arbitrary: tot buf' w rule: less_induct)
  case less
  have n: "0 < cnt - tot" using less.prems(1) by simp
  obtain d s' where d: "pcl_recv S (Some s) (cnt - tot) 0 w = (int (length d), d, w\<lparr>os := s'\<rparr>)"
    "rest (os w) = d @ rest s'" "length d \<le> cnt - tot" "rest (os w) \<noteq> [] \<longrightarrow> d \<noteq> []"
    by (rule recv_stream [OF assms(1,2) n, of w])
  show ?case
  proof (cases "rest (os w) = []")
    case True
    then have dz: "d = []" "rest s' = []" using d(2) by simp_all
    then have e: "pcl_recv S (Some s) (cnt - tot) 0 w = (0, [], w\<lparr>os := s'\<rparr>)" using d(1) by simp
    have "recv_loop S (Some s) cnt tot buf' w
      = Some (False, buf', snd (SETERR (''recvall.c'', ''pcl_recvall'', 62) PCL_ECONNRESET (w\<lparr>os := s'\<rparr>)))"
      by (subst recv_loop.simps) (simp only: e prod.case, simp)
    then show ?thesis using n dz(2) True by auto
  next
    case False
    then have dn: "d \<noteq> []" using d(4) by simp
    let ?tot = "tot + length d"
    have tot: "tot < ?tot" "?tot \<le> cnt" using d(3) dn less.prems(1) by auto
    define b where "b = take tot buf' @ d @ drop ?tot buf'"
    have len: "length b = length buf" using tot assms(4) less.prems(2) by (simp add: b_def)
    have copy: "mem_copy buf' (int tot) d = Some b"
      unfolding b_def by (rule mem_copy_tail) (use tot assms(4) less.prems(2) in simp)
    have low: "low_less ?tot cnt \<longleftrightarrow> ?tot < cnt" using tot assms(3) by (simp add: low_less_def)
    have step: "recv_loop S (Some s) cnt tot buf' w
      = (if ?tot < cnt then recv_loop S (Some s) cnt ?tot b (w\<lparr>os := s'\<rparr>) else Some (True, b, w\<lparr>os := s'\<rparr>))"
      by (subst recv_loop.simps) (use d(1) dn tot(2) copy low in simp)
    have tk: "take ?tot b = take tot buf' @ d" "drop cnt b = drop cnt buf'"
      using tot assms(4) less.prems by (simp_all add: b_def)
    show ?thesis
    proof (cases "?tot < cnt")
      case True
      have ih: "cnt - ?tot < cnt - tot" by (rule diff_less_mono2 [OF tot(1) less.prems(1)])
      have c: "cnt - tot = length d + (cnt - ?tot)" using True by simp
      from less.hyps [OF ih True len, of "w\<lparr>os := s'\<rparr>"] show ?thesis
        using True unfolding step tk c d(2) by (auto split: if_splits)
    next
      case False
      then have "cnt - tot = length d" "cnt = ?tot" using tot by simp_all
      then show ?thesis using d(2) step by (auto simp: b_def)
    qed
  qed
qed

text \<open>C14: \<open>pcl_recvall\<close> on a connection that delivers its stream in any pieces fills the block with the next
  \<open>count\<close> bytes, takes exactly those from the stream and leaves the error as it was; when the stream
  ends before, it fails with \<open>PCL_ECONNRESET\<close> and the stream is used up. The count is at least 1 and
  less than 2^32.\<close>

theorem recvall_stream:
  assumes "streams S (sk_fd s) rest" "pcl_socket_isalive (Some s)" "0 < cnt" "cnt < 2 ^ 32" "cnt \<le> length buf"
  shows "if cnt \<le> length (rest (os w))
    then \<exists>s'. pcl_recvall S (Some s) buf cnt w = Some (True, take cnt (rest (os w)) @ drop cnt buf, w\<lparr>os := s'\<rparr>)
       \<and> rest s' = drop cnt (rest (os w))
    else \<exists>buf1 s'. pcl_recvall S (Some s) buf cnt w
         = Some (False, buf1, snd (SETERR (''recvall.c'', ''pcl_recvall'', 62) PCL_ECONNRESET (w\<lparr>os := s'\<rparr>)))
       \<and> rest s' = []"
  using recv_loop_stream [OF assms(1,2,4,5) assms(3) refl, of w]
  by (simp only: pcl_recvall_def take_0 append_Nil minus_nat.diff_0)

definition demo_sockets :: "byte list sys_sockets" where
  "demo_sockets = \<lparr>sys_recv = (\<lambda>fd n fl s. (Inr (take (min n 2) s), drop (min n 2) s)),
     sys_send = (\<lambda>fd d fl s. (Inl 32, s))\<rparr>"

lemma demo_streams: "streams demo_sockets fd id"
  unfolding streams_def demo_sockets_def by (auto intro!: exI [of _ "min _ 2"])

definition demo_socket :: pcl_socket where "demo_socket = \<lparr>sk_flags = 2, sk_fd = 5\<rparr>"

lemma demo_alive: "pcl_socket_isalive (Some demo_socket)"
  by (simp add: pcl_socket_isalive_def demo_socket_def flag_in_def PCL_SOCK_CONNECTED_def)

lemma recvall_stream_witness:
  "\<exists>s'. pcl_recvall demo_sockets (Some demo_socket) [0, 0, 0, 0] 3 (demo_os [7, 8, 9, 10])
      = Some (True, [7, 8, 9, 0], (demo_os [7, 8, 9, 10])\<lparr>os := s'\<rparr>) \<and> s' = [10]"
  using recvall_stream [OF demo_streams demo_alive, of 3 "[0, 0, 0, 0]" "demo_os [7, 8, 9, 10]"]
  by (simp add: demo_os_def)

text \<open>C15: The loop of \<open>pcl_recvall\<close> compares the totals as 32-bit numbers: for a count that is a multiple of 2^32 it
  ends with success after the first piece, however short.\<close>

theorem recvall_wraps:
  assumes "pcl_socket_isalive (Some s)" "cnt mod 2 ^ 32 = 0" "length d < cnt" "d \<noteq> []" "length buf = cnt"
    and "sys_recv S (sk_fd s) cnt 0 (os w) = (Inr d, s')"
  shows "pcl_recvall S (Some s) buf cnt w = Some (True, d @ drop (length d) buf, w\<lparr>os := s'\<rparr>)"
proof -
  have "pcl_recv S (Some s) (cnt - 0) 0 w = (int (length d), d, w\<lparr>os := s'\<rparr>)"
    using assms(1,6) by (simp add: pcl_recv_def sock_retry_def syscall_def)
  moreover have "mem_copy buf 0 d = Some (d @ drop (length d) buf)"
    using mem_copy_tail [of 0 d buf] assms(3,5) by simp
  ultimately show ?thesis
    unfolding pcl_recvall_def using assms(2-4) by (subst recv_loop.simps) (simp add: low_less_def)
qed

lemma recvall_wraps_witness:
  "pcl_recvall demo_sockets (Some demo_socket) (replicate (2 ^ 32) 0) (2 ^ 32) (demo_os [7, 8, 9])
    = Some (True, [7, 8] @ drop (length [7, 8 :: byte]) (replicate (2 ^ 32) 0), (demo_os [7, 8, 9])\<lparr>os := [9]\<rparr>)"
  by (rule recvall_wraps [OF demo_alive]) (simp_all add: demo_sockets_def demo_os_def demo_socket_def)

section \<open>Sending while the error is frozen\<close>

lemma send_loop_diverges:
  assumes "pcl_send S sock (drop tot data) 0 w = (0, w)" "low_less tot cnt" "tot \<le> cnt"
  shows "send_loop S sock data cnt tot w = None"
proof -
  have "send_loop S sock data cnt tot w = Some r \<Longrightarrow>
      \<not> (low_less tot cnt \<and> tot \<le> cnt \<and> pcl_send S sock (drop tot data) 0 w = (0, w))" for r
    by (erule send_loop.raw_induct [where P = "\<lambda>S sock data cnt tot w r.
          \<not> (low_less tot cnt \<and> tot \<le> cnt \<and> pcl_send S sock (drop tot data) 0 w = (0, w))", rotated])
      (auto simp: Let_def split: if_splits)
  then show ?thesis using assms by (cases "send_loop S sock data cnt tot w") auto
qed

text \<open>C16: While the error is frozen a failing send evaluates to 0 instead of -1, and \<open>pcl_sendall\<close> tries again
  for ever when the system keeps refusing, unless the count is a multiple of \<open>2 ^ 32\<close>, for which its
  32-bit comparison finds nothing to send.\<close>

theorem sendall_frozen_loops:
  assumes "frozen w" "pcl_socket_isalive (Some s)" "length data mod 2 ^ 32 \<noteq> 0"
    and "sys_send S (sk_fd s) data 0 (os w) = (Inl (c_errno w), os w)"
  shows "pcl_sendall S (Some s) data w = None"
proof -
  have "syscall (sys_send S (sk_fd s) data 0) w = (None, w)"
    using assms(4) by (simp add: syscall_def)
  then have "sock_retry (sys_send S (sk_fd s) data 0) w = (None, w)"
    by (simp add: sock_retry_def)
  then have "pcl_send S (Some s) (drop 0 data) 0 w = (0, w)"
    using assms(1,2) by (simp add: pcl_send_def macros_frozen Let_def)
  moreover have "low_less 0 (length data)" using assms(3) by (simp add: low_less_def)
  ultimately show ?thesis unfolding pcl_sendall_def by (intro send_loop_diverges) simp_all
qed

lemma sendall_frozen_loops_witness:
  "pcl_sendall demo_sockets (Some demo_socket) [1, 2] ((demo_os [])\<lparr>frozen := True, c_errno := 32\<rparr>) = None"
  by (rule sendall_frozen_loops [OF _ demo_alive]) (simp_all add: demo_os_def demo_sockets_def)

end
