(* ===== verification/PclDirOk.thy ===== *)
theory PclDirOk imports PclDir PclFileOk begin

text \<open>
  \<open>pcl_mkdirs\<close> makes exactly the directories of the path, outermost first, and stops at the first that can
  not be made.
\<close>

section \<open>The directories of a path\<close>

text \<open>Every part in front of a separator, and the path itself; a separator at the beginning is the root.\<close>

fun cuts :: "byte list \<Rightarrow> byte list \<Rightarrow> byte list list" where
  "cuts pre [] = [pre]"
| "cuts pre (c # s) = (if c = 47 then [pre] else []) @ cuts (pre @ [c]) s"

definition dirs_of :: "byte list \<Rightarrow> byte list list" where
  "dirs_of p = (case p of c # s \<Rightarrow> if c = 47 then cuts [47] s else cuts [] p | [] \<Rightarrow> cuts [] p)"

lemma set_cuts: "q \<in> set (cuts pre s) \<longleftrightarrow> q = pre @ s \<or> (\<exists>u v. s = u @ 47 # v \<and> q = pre @ u)"
proof (induction s arbitrary: pre)
  case (Cons c s)
  show ?case
  proof
    assume "q \<in> set (cuts pre (c # s))"
    then consider "c = 47 \<and> q = pre" | "q \<in> set (cuts (pre @ [c]) s)" by (auto split: if_splits)
    then show "q = pre @ c # s \<or> (\<exists>u v. c # s = u @ 47 # v \<and> q = pre @ u)"
    proof cases
      case 1
      then have "c # s = [] @ 47 # s \<and> q = pre @ []" by simp
      then show ?thesis by blast
    next
      case 2
      then show ?thesis unfolding Cons.IH
      proof
        assume "\<exists>u v. s = u @ 47 # v \<and> q = (pre @ [c]) @ u"
        then obtain u v where "s = u @ 47 # v" "q = (pre @ [c]) @ u" by blast
        then have "c # s = (c # u) @ 47 # v" "q = pre @ c # u" by simp_all
        then show ?thesis by blast
      qed simp
    qed
  next
    assume "q = pre @ c # s \<or> (\<exists>u v. c # s = u @ 47 # v \<and> q = pre @ u)"
    then show "q \<in> set (cuts pre (c # s))"
    proof (elim disjE exE conjE)
      fix u v assume "c # s = u @ 47 # v" "q = pre @ u"
      then show ?thesis using Cons.IH [of "pre @ [c]"] by (cases u) auto
    qed (use Cons.IH [of "pre @ [c]"] in auto)
  qed
qed auto

text \<open>Making a list of directories, one after the other.\<close>

fun make_all ::
  "'s sys_dirs \<Rightarrow> byte list \<Rightarrow> 32 word \<Rightarrow> int \<Rightarrow> byte list list \<Rightarrow> ('s, 'z) os_world_scheme \<Rightarrow>
     int \<times> ('s, 'z) os_world_scheme" where
  "make_all S orig mode save [] w = (0, w\<lparr>c_errno := save\<rparr>)"
| "make_all S orig mode save (q # qs) w =
     (case pcl_mkdir S q mode w of
        (r, w1) \<Rightarrow>
          if r \<noteq> 0 \<and> pcl_err_last w1 \<noteq> PCL_EEXIST
          then TRCMSG (''mkdirs.c'', ''pcl_mkdirs'', 77) (Some (mkdir_text ''directories'' orig)) w1
          else make_all S orig mode save qs w1)"

lemma cuts_behind: "47 \<notin> set u \<Longrightarrow> cuts pre (u @ s) = cuts (pre @ u) s"
  by (induction u arbitrary: pre) auto

lemma strchr_here: "c \<notin> set u \<Longrightarrow> 0 \<notin> set u \<Longrightarrow> c_strchr c (u @ c # s) = Some (Some (length u))"
  by (simp add: strchr_behind)

lemma mkdirs_loop_all:
  fixes w :: "('s, 'z) os_world_scheme"
  assumes "0 \<notin> set (pre @ s)"
  shows "mkdirs_loop S orig mode save (pre @ s @ 0 # r) (length pre) w = Some (make_all S orig mode save (cuts pre s) w)"
  using assms
proof (induction "length s" arbitrary: pre s w rule: less_induct)
  case less
  show ?case
  proof (cases "47 \<in> set s")
    case False
    have "c_strchr 47 (s @ 0 # r) = Some None" using less.prems False by (simp add: strchr_absent)
    moreover have "c_strlen ((pre @ s) @ 0 # r) = Some (length (pre @ s))" by (rule strlen_nul [OF less.prems])
    moreover have "cuts pre s = [pre @ s]" using cuts_behind [OF False, of pre "[]"] by simp
    ultimately show ?thesis by (simp add: mkdirs_loop.simps split: prod.split)
  next
    case True
    then obtain u v where s: "s = u @ 47 # v" "47 \<notin> set u" by (metis split_list_first)
    have z: "0 \<notin> set (pre @ u)" "0 \<notin> set u" "0 \<notin> set ((pre @ u @ [47]) @ v)" using less.prems s(1) by auto
    have "c_strchr 47 (s @ 0 # r) = Some (Some (length u))"
      using strchr_here [OF s(2) z(2), of "v @ 0 # r"] by (simp add: s(1))
    moreover have "wr (pre @ s @ 0 # r) (int (length pre + length u)) 0 = Some ((pre @ u) @ 0 # v @ 0 # r)"
      unfolding wr_int by (simp add: s(1) list_update_append)
    moreover have "wr ((pre @ u) @ 0 # v @ 0 # r) (int (length pre + length u)) 47 = Some ((pre @ u @ [47]) @ v @ 0 # r)"
      unfolding wr_int by (simp add: list_update_append)
    moreover have "c_strlen ((pre @ u) @ 0 # v @ 0 # r) = Some (length (pre @ u))" by (rule strlen_nul [OF z(1)])
    moreover have "mkdirs_loop S orig mode save ((pre @ u @ [47]) @ v @ 0 # r) (length (pre @ u @ [47])) w1
        = Some (make_all S orig mode save (cuts (pre @ u @ [47]) v) w1)" for w1 :: "('s, 'z) os_world_scheme"
      using less.hyps [of v "pre @ u @ [47]" w1] z(3) by (simp add: s(1))
    moreover have "cuts pre s = (pre @ u) # cuts (pre @ u @ [47]) v"
      by (simp add: s(1) cuts_behind [OF s(2)])
    ultimately show ?thesis by (simp add: mkdirs_loop.simps [of S orig mode save "pre @ s @ 0 # r"] split: prod.split)
  qed
qed

lemma strncpy_whole:
  assumes "0 \<notin> set p" "length p < sz"
  obtains d where "pcl_strncpy (Some (replicate sz junk)) sz (Some (p @ 0 # r)) 0 w = Some (True, Some (p @ 0 # d), w)"
proof (cases "p = []")
  case True
  then obtain k where k: "sz = Suc k" using assms(2) by (cases sz) auto
  then show ?thesis using that True by (simp add: pcl_strncpy_def wr_def Let_def)
next
  case False
  have st: "c_strlen (p @ 0 # r) = Some (length p)" by (rule strlen_nul [OF assms(1)])
  from less_imp_Suc_add [OF assms(2)] obtain m where "sz = Suc (length p + m)" by blast
  then have m: "sz = length p + Suc m" by simp
  let ?d = "replicate sz junk"
  have l: "length (?d[0 := 0]) = sz" by simp
  from False obtain c q where p: "p = c # q" by (cases p) auto
  have "sz = Suc (length q + Suc m)" using m p by simp
  then have "?d = junk # replicate (length q + Suc m) junk" by (simp only: replicate_Suc)
  then have "?d[0 := 0] = 0 # replicate (length q + Suc m) junk" by (simp only: list_update_code)
  moreover have "length p = Suc (length q)" by (simp add: p)
  ultimately have dr: "drop (length p) (?d[0 := 0]) = replicate (Suc m) junk"
    by (simp only: drop_Suc_Cons drop_replicate diff_add_inverse)
  have "wr ?d 0 0 = Some (?d[0 := 0])" using m by (simp add: wr_def)
  moreover have "mem_read (p @ 0 # r) 0 (length p) = Some p" by (simp add: mem_read_def)
  moreover have "mem_copy (?d[0 := 0]) 0 p = Some (p @ replicate (Suc m) junk)"
    using assms(2) by (simp add: mem_copy_def dr del: replicate_Suc)
  moreover have "wr (p @ replicate (Suc m) junk) (int (length p)) 0 = Some (p @ 0 # replicate m junk)"
    by (simp add: wr_int list_update_append)
  ultimately show ?thesis using that st assms(2) False by (simp add: pcl_strncpy_def Let_def)
qed

lemma mkdirs_all:
  assumes "0 \<notin> set p" "length p < 16 * 1024"
  shows "pcl_mkdirs S junk (p @ 0 # r) mode w = Some (make_all S p mode (c_errno w) (dirs_of p) w)"
proof -
  obtain d where d: "pcl_strncpy (Some (replicate (16 * 1024) junk)) (16 * 1024) (Some (p @ 0 # r)) 0 w
      = Some (True, Some (p @ 0 # d), w)"
    by (rule strncpy_whole [OF assms])
  have st: "c_strlen (p @ 0 # r) = Some (length p)" by (rule strlen_nul [OF assms(1)])
  show ?thesis
  proof (cases "\<exists>s. p = 47 # s")
    case True
    then obtain s where s: "p = 47 # s" by blast
    have "mkdirs_loop S p mode (c_errno w) ([47] @ s @ 0 # d) (length [47 :: byte]) w
        = Some (make_all S p mode (c_errno w) (cuts [47] s) w)"
      by (rule mkdirs_loop_all) (use assms(1) s in simp)
    then show ?thesis using d st s by (simp add: pcl_mkdirs_def dirs_of_def rd_def)
  next
    case False
    have "mkdirs_loop S p mode (c_errno w) ([] @ p @ 0 # d) (length ([] :: byte list)) w
        = Some (make_all S p mode (c_errno w) (cuts [] p) w)"
      by (rule mkdirs_loop_all) (use assms(1) in simp)
    moreover have "rd (p @ 0 # d) 0 \<noteq> Some 47" "rd (p @ 0 # d) 0 \<noteq> None" using False by (cases p; simp add: rd_def)+
    moreover have "dirs_of p = cuts [] p" using False by (cases p) (auto simp: dirs_of_def)
    ultimately show ?thesis using d st by (auto simp: pcl_mkdirs_def)
  qed
qed

section \<open>The properties\<close>

text \<open>A directory that was made or exists already.\<close>

definition made_or_there :: "'s sys_dirs \<Rightarrow> 32 word \<Rightarrow> byte list \<Rightarrow> 's \<Rightarrow> bool" where
  "made_or_there S mode q s \<longleftrightarrow>
     (case fst (sys_mkdir S q mode s) of Inl e \<Rightarrow> pcl_err_os2pcl e = PCL_EEXIST | Inr _ \<Rightarrow> True)"

definition mkdir_run :: "'s sys_dirs \<Rightarrow> 32 word \<Rightarrow> byte list list \<Rightarrow> 's \<Rightarrow> 's" where
  "mkdir_run S mode qs s = fold (\<lambda>q s. snd (sys_mkdir S q mode s)) qs s"

fun run_ok :: "'s sys_dirs \<Rightarrow> 32 word \<Rightarrow> byte list list \<Rightarrow> 's \<Rightarrow> bool" where
  "run_ok S mode [] s = True"
| "run_ok S mode (q # qs) s = (made_or_there S mode q s \<and> run_ok S mode qs (snd (sys_mkdir S q mode s)))"

lemma mkdir_step:
  assumes "made_or_there S mode q (os w)"
  obtains r w1 where "pcl_mkdir S q mode w = (r, w1)" "r \<noteq> 0 \<longrightarrow> pcl_err_last w1 = PCL_EEXIST" "frozen w1 = frozen w"
    "os w1 = snd (sys_mkdir S q mode (os w))"
proof (cases "sys_mkdir S q mode (os w)")
  case (Pair res s)
  show ?thesis
  proof (cases res)
    case (Inl e)
    let ?w = "w\<lparr>c_errno := e, os := s\<rparr>"
    have call: "syscall (sys_mkdir S q mode) (pcl_err_osclear w) = (None, ?w)"
      using Pair Inl by (simp add: syscall_def pcl_err_osclear_def)
    have e: "pcl_err_os2pcl e = PCL_EEXIST" using assms Pair Inl by (simp add: made_or_there_def)
    show ?thesis
    proof (cases "frozen w")
      case True
      then show ?thesis using that [of 0 ?w] call Pair
        by (simp add: pcl_mkdir_def SETLASTERRMSG_def macros_frozen)
    next
      case False
      then show ?thesis using that call Pair e
        by (simp add: pcl_mkdir_def SETLASTERRMSG_def SETOSERRMSG_def SETERRMSG_OS_thawed pcl_err_last_def raised_def)
    qed
  next
    case (Inr u)
    then show ?thesis using that Pair by (simp add: pcl_mkdir_def syscall_def pcl_err_osclear_def)
  qed
qed

lemma make_all_ok:
  assumes "run_ok S mode qs (os w)"
  shows "\<exists>w'. make_all S orig mode save qs w = (0, w') \<and> os w' = mkdir_run S mode qs (os w) \<and> c_errno w' = save"
  using assms
proof (induction qs arbitrary: w)
  case (Cons q qs)
  from Cons.prems have "made_or_there S mode q (os w)" by simp
  then obtain r w1 where r: "pcl_mkdir S q mode w = (r, w1)" "r \<noteq> 0 \<longrightarrow> pcl_err_last w1 = PCL_EEXIST"
    "os w1 = snd (sys_mkdir S q mode (os w))"
    by (rule mkdir_step)
  then have "make_all S orig mode save (q # qs) w = make_all S orig mode save qs w1" by auto
  then show ?case using Cons.IH [of w1] Cons.prems r(3) by (simp add: mkdir_run_def)
qed (simp add: mkdir_run_def)

lemma make_all_stops:
  assumes "run_ok S mode qs (os w)" "\<not> frozen w" "sys_mkdir S q mode (mkdir_run S mode qs (os w)) = (Inl e, s)"
    "pcl_err_os2pcl e \<noteq> PCL_EEXIST" "pcl_err_os2pcl e \<noteq> 0"
  shows "\<exists>w'. make_all S orig mode save (qs @ q # rest) w = (-1, w') \<and> os w' = s \<and> err w' = pcl_err_os2pcl e \<and> oserr w' = e"
  using assms(1-3)
proof (induction qs arbitrary: w)
  case Nil
  let ?w = "w\<lparr>c_errno := e, os := s\<rparr>"
  have "syscall (sys_mkdir S q mode) (pcl_err_osclear w) = (None, ?w)"
    using Nil(3) by (simp add: syscall_def pcl_err_osclear_def mkdir_run_def)
  then show ?case using Nil(2) assms(4,5)
    by (simp add: pcl_mkdir_def SETLASTERRMSG_def SETOSERRMSG_def SETERRMSG_OS_thawed pcl_err_last_def raised_def
        TRCMSG_thawed)
next
  case (Cons p qs)
  from Cons.prems(1) have "made_or_there S mode p (os w)" by simp
  then obtain r w1 where r: "pcl_mkdir S p mode w = (r, w1)" "r \<noteq> 0 \<longrightarrow> pcl_err_last w1 = PCL_EEXIST"
    "frozen w1 = frozen w" "os w1 = snd (sys_mkdir S p mode (os w))"
    by (rule mkdir_step)
  then have "make_all S orig mode save ((p # qs) @ q # rest) w = make_all S orig mode save (qs @ q # rest) w1" by auto
  then show ?case using Cons.IH [of w1] Cons.prems r(3,4) by (simp add: mkdir_run_def)
qed

text \<open>C19: \<open>pcl_mkdirs\<close> calls \<open>mkdir\<close> for every directory of the path once, outermost first and the whole path at the end, and
  succeeds when each call makes the directory or finds it; the \<open>errno\<close> of the caller is kept.\<close>

theorem mkdirs_creates:
  assumes "0 \<notin> set p" "length p < 16 * 1024" "run_ok S mode (dirs_of p) (os w)"
  shows "\<exists>w'. pcl_mkdirs S junk (p @ 0 # r) mode w = Some (0, w')
    \<and> os w' = mkdir_run S mode (dirs_of p) (os w) \<and> c_errno w' = c_errno w"
  using make_all_ok [OF assms(3)] by (auto simp: mkdirs_all [OF assms(1,2)])

text \<open>A system whose state is the list of directories; the parent of a directory must exist.\<close>

definition demo_dirs :: "byte list list sys_dirs" where
  "demo_dirs = \<lparr>sys_mkdir = (\<lambda>p m s. if p \<in> set s then (Inl 17, s)
       else if 47 \<in> set p \<and> takeWhile (\<lambda>c. c \<noteq> 47) p \<notin> set s then (Inl 2, s) else (Inr (), p # s)),
     sys_rmdir = (\<lambda>p s. (Inr (), remove1 p s)), sys_chdir = (\<lambda>p s. (Inl 2, s))\<rparr>"

lemma demo_codes: "pcl_err_os2pcl 17 = PCL_EEXIST" "pcl_err_os2pcl 2 = PCL_ENOENT"
  by code_simp+

lemma mkdirs_creates_witness:
  "\<exists>w'. pcl_mkdirs demo_dirs 9 (str_bytes ''a/b'' @ 0 # []) 0 (demo_os [str_bytes ''a'']) = Some (0, w')
    \<and> os w' = mkdir_run demo_dirs 0 (dirs_of (str_bytes ''a/b'')) (os (demo_os [str_bytes ''a'']))
    \<and> c_errno w' = c_errno (demo_os [str_bytes ''a''])"
  by (rule mkdirs_creates) (simp_all add: dirs_of_def demo_dirs_def made_or_there_def demo_os_def demo_codes)

text \<open>C20: \<open>pcl_mkdirs\<close> stops at the first directory that can not be made: it returns -1 with the error of
  that call, the directories in front of it stay, and none behind it is attempted.\<close>

theorem mkdirs_stops:
  assumes "0 \<notin> set p" "length p < 16 * 1024" "dirs_of p = qs @ q # rest" "\<not> frozen w" "run_ok S mode qs (os w)"
    and "sys_mkdir S q mode (mkdir_run S mode qs (os w)) = (Inl e, s)"
    and "pcl_err_os2pcl e \<noteq> PCL_EEXIST" "pcl_err_os2pcl e \<noteq> 0"
  shows "\<exists>w'. pcl_mkdirs S junk (p @ 0 # r) mode w = Some (-1, w') \<and> os w' = s
    \<and> err w' = pcl_err_os2pcl e \<and> oserr w' = e"
  using make_all_stops [OF assms(5,4,6-8)] by (auto simp: mkdirs_all [OF assms(1,2)] assms(3))

lemma mkdirs_stops_witness:
  "\<exists>w'. pcl_mkdirs demo_dirs 9 (str_bytes ''/a/b'' @ 0 # []) 0 (demo_os []) = Some (-1, w') \<and> os w' = []
    \<and> err w' = pcl_err_os2pcl 2 \<and> oserr w' = 2"
  by (rule mkdirs_stops [where qs = "[]" and q = "str_bytes ''/a''" and rest = "[str_bytes ''/a/b'']"])
    (simp_all add: dirs_of_def demo_dirs_def demo_os_def demo_codes mkdir_run_def)

text \<open>A path that does not fit the copy: the loop reads through a null pointer.\<close>

lemma mkdirs_long_path:
  assumes "0 \<notin> set p" "16 * 1024 \<le> length p"
  shows "pcl_mkdirs S junk (p @ 0 # r) mode w = None"
proof -
  have "c_strlen (p @ 0 # r) = Some (length p)" by (rule strlen_nul [OF assms(1)])
  then have "\<exists>d v. pcl_strncpy (Some (replicate (16 * 1024) junk)) (16 * 1024) (Some (p @ 0 # r)) 0 w = Some (False, d, v)"
    using assms(2) by (auto simp: pcl_strncpy_def wr_def Let_def)
  then show ?thesis by (auto simp: pcl_mkdirs_def Let_def)
qed

end
