(* ===== verification/PclEvent.thy ===== *)
theory PclEvent imports PclArray begin

text \<open>
  Events (\<open>src/event\<close>): a table of handlers behind a recursive mutex. A handler is an address of type
  \<open>'h\<close>, called through the parameter \<open>call\<close>; it may itself register and unregister handlers, which
  changes the table while an event is dispatched. The model follows one thread: \<open>ev_lock\<close> is how often
  it holds the mutex.
\<close>

section \<open>The context\<close>

record ('h, 's) ev_world = pcl_err +
  ev_table :: "('h, unit) pcl_array"
  ev_lock :: nat
  ev_state :: 's

definition ipcl_event_init :: "('h, 's, 'z) ev_world_scheme \<Rightarrow> ('h, 's, 'z) ev_world_scheme" where
  "ipcl_event_init w = w\<lparr>ev_lock := 0, ev_table := pcl_array_new 4 None\<rparr>"

definition ipcl_event_context :: "('h, 's, 'z) ev_world_scheme \<Rightarrow> ('h, 's, 'z) ev_world_scheme" where
  "ipcl_event_context w = w\<lparr>ev_lock := ev_lock w + 1\<rparr>"

text \<open>Releasing a mutex that is not held is an error of the caller.\<close>

definition ipcl_event_context_release ::
  "('h, 's, 'z) ev_world_scheme \<Rightarrow> ('h, 's, 'z) ev_world_scheme option" where
  "ipcl_event_context_release w = (if ev_lock w = 0 then None else Some (w\<lparr>ev_lock := ev_lock w - 1\<rparr>))"

section \<open>Operations\<close>

definition pcl_event_register ::
  "'h option \<Rightarrow> ('h, 's, 'z) ev_world_scheme \<Rightarrow> ('h, 's, 'z) ev_world_scheme option" where
  "pcl_event_register handler w =
     (if handler = None then Some w
      else do { let w1 = ipcl_event_context w;
                (n, table, w2) \<leftarrow> pcl_array_append (Some (ev_table w1)) handler w1;
                t \<leftarrow> table;
                ipcl_event_context_release (w2\<lparr>ev_table := t\<rparr>) })"

definition pcl_event_unregister ::
  "'h option \<Rightarrow> ('h, 's, 'z) ev_world_scheme \<Rightarrow> ('h, 's, 'z) ev_world_scheme option" where
  "pcl_event_unregister handler w =
     (if handler = None then Some w
      else do { let w1 = ipcl_event_context w;
                index \<leftarrow> pcl_array_indexof (Some (ev_table w1)) handler None;
                w2 \<leftarrow> (if index \<noteq> -1
                       then do { (n, table, w2) \<leftarrow> pcl_array_remove (\<lambda>_ _ w. None) (Some (ev_table w1)) index w1;
                                 t \<leftarrow> table;
                                 Some (w2\<lparr>ev_table := t\<rparr>) }
                       else Some w1);
                ipcl_event_context_release w2 })"

text \<open>The loop reads the count and the slot of the table as they are at each turn. It may not end:
  a handler can register handlers for ever.\<close>

partial_function (option) dispatch_loop ::
  "('h \<Rightarrow> 32 word \<Rightarrow> 'd \<Rightarrow> ('h, 's, 'z) ev_world_scheme \<Rightarrow> ('h, 's, 'z) ev_world_scheme option) \<Rightarrow>
     32 word \<Rightarrow> 'd \<Rightarrow> int \<Rightarrow> ('h, 's, 'z) ev_world_scheme \<Rightarrow> ('h, 's, 'z) ev_world_scheme option" where
  "dispatch_loop call which data i w =
     (if i < arr_count (ev_table w)
      then do { handler \<leftarrow> rd (arr_elements (ev_table w)) i;
                h \<leftarrow> handler;
                w1 \<leftarrow> call h which data w;
                i1 \<leftarrow> cint (i + 1);
                dispatch_loop call which data i1 w1 }
      else Some w)"

definition pcl_event_dispatch ::
  "('h \<Rightarrow> 32 word \<Rightarrow> 'd \<Rightarrow> ('h, 's, 'z) ev_world_scheme \<Rightarrow> ('h, 's, 'z) ev_world_scheme option) \<Rightarrow>
     32 word \<Rightarrow> 'd \<Rightarrow> ('h, 's, 'z) ev_world_scheme \<Rightarrow> ('h, 's, 'z) ev_world_scheme option" where
  "pcl_event_dispatch call which data w =
     do { w1 \<leftarrow> dispatch_loop call which data 0 (ipcl_event_context w);
          ipcl_event_context_release w1 }"

declare dispatch_loop.simps [code]

section \<open>The table as a list of handlers\<close>

definition ev_holds :: "'h list \<Rightarrow> ('h, 's, 'z) ev_world_scheme \<Rightarrow> bool" where
  "ev_holds hs w \<longleftrightarrow> arr_wf (ev_table w) \<and> arr_seq (ev_table w) = map Some hs \<and> arr_cleanup (ev_table w) = None"

lemma init_holds: "ev_holds [] (ipcl_event_init w)"
  by (simp add: ev_holds_def ipcl_event_init_def array_new_wf INT_MAX_def) (simp add: pcl_array_new_def Let_def)

lemma holds_lock [simp]: "ev_holds hs (w\<lparr>ev_lock := n\<rparr>) = ev_holds hs w"
  by (simp add: ev_holds_def)

lemma holds_count: "ev_holds hs w \<Longrightarrow> arr_count (ev_table w) = int (length hs)"
  using arr_seq_length [of "ev_table w"] by (simp add: ev_holds_def)

lemma register_ok:
  assumes "ev_holds hs w" "length hs < 2 ^ 30"
  obtains w' where "pcl_event_register (Some h) w = Some w'" "ev_holds (hs @ [h]) w'" "ev_lock w' = ev_lock w"
    "ev_state w' = ev_state w"
proof -
  let ?w = "ipcl_event_context w"
  have t: "arr_wf (ev_table ?w)" "arr_seq (ev_table ?w) = map Some hs" "arr_cleanup (ev_table ?w) = None"
    using assms(1) by (simp_all add: ev_holds_def ipcl_event_context_def)
  have "arr_count (ev_table ?w) < 2 ^ 30" using holds_count [OF assms(1)] assms(2) by (simp add: ipcl_event_context_def)
  then obtain a where a: "pcl_array_append (Some (ev_table ?w)) (Some h) ?w = Some (arr_count (ev_table ?w) + 1, Some a, ?w)"
    "arr_wf a" "arr_cleanup a = arr_cleanup (ev_table ?w)" "arr_seq a = arr_seq (ev_table ?w) @ [Some h]"
    using array_append_ok [OF t(1), of "Some h" ?w] by metis
  then show ?thesis using that [of "w\<lparr>ev_table := a\<rparr>"] t
    by (simp add: pcl_event_register_def ipcl_event_context_release_def ipcl_event_context_def ev_holds_def)
qed

lemma find_index_Some_map: "find_index (\<lambda>x. x = Some h) (map Some hs) = find_index (\<lambda>x. x = h) hs"
  by (induction hs) auto

lemma remove1_find:
  "find_index (\<lambda>x. x = h) hs = None \<Longrightarrow> remove1 h hs = hs"
  "find_index (\<lambda>x. x = h) hs = Some k \<Longrightarrow> k < length hs \<and> remove1 h hs = take k hs @ drop (Suc k) hs"
  by (induction hs arbitrary: k) (auto split: if_splits option.splits)

lemma unregister_ok:
  assumes "ev_holds hs w"
  obtains w' where "pcl_event_unregister (Some h) w = Some w'" "ev_holds (remove1 h hs) w'" "ev_lock w' = ev_lock w"
    "ev_state w' = ev_state w"
proof -
  let ?w = "ipcl_event_context w"
  have t: "arr_wf (ev_table ?w)" "arr_seq (ev_table ?w) = map Some hs" "arr_cleanup (ev_table ?w) = None"
    using assms(1) by (simp_all add: ev_holds_def ipcl_event_context_def)
  have ix: "pcl_array_indexof (Some (ev_table ?w)) (Some h) None
      = Some (case find_index (\<lambda>x. x = h) hs of None \<Rightarrow> -1 | Some k \<Rightarrow> int k)"
    using array_indexof_pointer [OF t(1), of "Some h"] by (simp add: t(2) find_index_Some_map)
  show ?thesis
  proof (cases "find_index (\<lambda>x. x = h) hs")
    case None
    then show ?thesis using that [of w] ix assms remove1_find(1) [OF None]
      by (simp add: pcl_event_unregister_def ipcl_event_context_release_def ipcl_event_context_def)
  next
    case (Some k)
    note k = remove1_find(2) [OF Some]
    obtain a where a: "pcl_array_remove (\<lambda>_ _ w. None) (Some (ev_table ?w)) (int k) ?w
        = Some (arr_count (ev_table ?w) - 1, Some a, ?w)" "arr_wf a"
      "arr_seq a = take k (arr_seq (ev_table ?w)) @ drop (Suc k) (arr_seq (ev_table ?w))"
      "arr_cleanup a = arr_cleanup (ev_table ?w)"
      by (rule array_remove_ok [OF t(1), of k "\<lambda>_ _ w. None" ?w ?w]) (use k t in \<open>auto simp: cleanup_nonnull_def\<close>)
    have "arr_seq a = map Some (remove1 h hs)" using a(3) k by (simp add: t(2) take_map drop_map)
    then show ?thesis using that [of "w\<lparr>ev_table := a\<rparr>"] ix Some a(1,2,4) t(3)
      by (simp add: pcl_event_unregister_def ipcl_event_context_release_def ipcl_event_context_def ev_holds_def)
  qed
qed

section \<open>Dispatching\<close>

text \<open>A handler that leaves the table and the mutex alone.\<close>

definition quiet ::
  "('h \<Rightarrow> 32 word \<Rightarrow> 'd \<Rightarrow> ('h, 's, 'z) ev_world_scheme \<Rightarrow> ('h, 's, 'z) ev_world_scheme option) \<Rightarrow> 'h \<Rightarrow> bool" where
  "quiet call h \<longleftrightarrow> (\<forall>which data w. \<exists>w'. call h which data w = Some w' \<and> ev_table w' = ev_table w \<and> ev_lock w' = ev_lock w)"

fun call_all ::
  "('h \<Rightarrow> 32 word \<Rightarrow> 'd \<Rightarrow> ('h, 's, 'z) ev_world_scheme \<Rightarrow> ('h, 's, 'z) ev_world_scheme option) \<Rightarrow>
     32 word \<Rightarrow> 'd \<Rightarrow> 'h list \<Rightarrow> ('h, 's, 'z) ev_world_scheme \<Rightarrow> ('h, 's, 'z) ev_world_scheme option" where
  "call_all call which data [] w = Some w"
| "call_all call which data (h # hs) w = do { w1 \<leftarrow> call h which data w; call_all call which data hs w1 }"

lemma table_slot: "ev_holds hs w \<Longrightarrow> i < length hs \<Longrightarrow> rd (arr_elements (ev_table w)) (int i) = Some (Some (hs ! i))"
proof -
  assume h: "ev_holds hs w" "i < length hs"
  then have "arr_elements (ev_table w) ! i = Some (hs ! i)"
    using arr_seq_nth [of "ev_table w" i] by (simp add: ev_holds_def)
  moreover have "i < length (arr_elements (ev_table w))"
    using h holds_count [OF h(1)] by (auto simp: ev_holds_def arr_wf_def)
  ultimately show ?thesis by (simp add: rd_int)
qed

text \<open>The loop passes quiet handlers, whatever stands in front of and behind them.\<close>

lemma dispatch_turn:
  assumes "ev_holds (pre @ h # post) w" "length (pre @ h # post) < 2 ^ 30" "call h which data w = Some w1"
  shows "dispatch_loop call which data (int (length pre)) w = dispatch_loop call which data (int (length (pre @ [h]))) w1"
proof -
  have slot: "rd (arr_elements (ev_table w)) (int (length pre)) = Some (Some h)"
    using table_slot [OF assms(1), of "length pre"] by simp
  have count: "int (length pre) < arr_count (ev_table w)" using holds_count [OF assms(1)] by simp
  have ci: "cint (int (length pre) + 1) = Some (int (length (pre @ [h])))"
    using assms(2) by (simp add: cint_def INT_MIN_def INT_MAX_def)
  show ?thesis
    by (subst dispatch_loop.simps) (simp only: slot count ci if_True Option.bind.bind_lunit assms(3))
qed

lemma dispatch_pass:
  assumes "list_all (quiet call) hs" "ev_holds (pre @ hs @ post) w" "length (pre @ hs @ post) < 2 ^ 30"
  shows "\<exists>w1. call_all call which data hs w = Some w1 \<and> ev_table w1 = ev_table w \<and> ev_lock w1 = ev_lock w
    \<and> dispatch_loop call which data (int (length pre)) w = dispatch_loop call which data (int (length (pre @ hs))) w1"
  using assms
proof (induction hs arbitrary: pre w)
  case (Cons h hs)
  then obtain w1 where w1: "call h which data w = Some w1" "ev_table w1 = ev_table w" "ev_lock w1 = ev_lock w"
    unfolding quiet_def by fastforce
  have "dispatch_loop call which data (int (length pre)) w = dispatch_loop call which data (int (length (pre @ [h]))) w1"
    using Cons.prems(2,3) w1(1) by (intro dispatch_turn [of _ _ "hs @ post"]) simp_all
  moreover have "ev_holds ((pre @ [h]) @ hs @ post) w1" using Cons.prems(2) w1(2) by (simp add: ev_holds_def)
  then have "\<exists>w2. call_all call which data hs w1 = Some w2 \<and> ev_table w2 = ev_table w1 \<and> ev_lock w2 = ev_lock w1
    \<and> dispatch_loop call which data (int (length (pre @ [h]))) w1
      = dispatch_loop call which data (int (length ((pre @ [h]) @ hs))) w2"
    using Cons.prems(1,3) by (intro Cons.IH) simp_all
  ultimately show ?case using w1 by fastforce
qed simp

lemma dispatch_rest:
  assumes "list_all (quiet call) hs" "ev_holds (pre @ hs) w" "length (pre @ hs) < 2 ^ 30"
  shows "dispatch_loop call which data (int (length pre)) w = call_all call which data hs w
    \<and> (\<exists>w'. call_all call which data hs w = Some w' \<and> ev_table w' = ev_table w \<and> ev_lock w' = ev_lock w)"
proof -
  from dispatch_pass [of call hs pre "[]" w which data] assms obtain w1 where
    w1: "call_all call which data hs w = Some w1" "ev_table w1 = ev_table w" "ev_lock w1 = ev_lock w"
    "dispatch_loop call which data (int (length pre)) w = dispatch_loop call which data (int (length (pre @ hs))) w1"
    by auto
  moreover have "arr_count (ev_table w1) = int (length (pre @ hs))"
    using holds_count [OF assms(2)] w1(2) by simp
  then have "dispatch_loop call which data (int (length (pre @ hs))) w1 = Some w1"
    by (subst dispatch_loop.simps) simp
  ultimately show ?thesis by simp
qed

lemma dispatch_ok:
  assumes "list_all (quiet call) hs" "ev_holds hs w" "length hs < 2 ^ 30"
  obtains w1 where "call_all call which data hs (ipcl_event_context w) = Some w1"
    "pcl_event_dispatch call which data w = Some (w1\<lparr>ev_lock := ev_lock w\<rparr>)" "ev_table w1 = ev_table w"
proof -
  have h: "ev_holds hs (ipcl_event_context w)" using assms(2) by (simp add: ipcl_event_context_def)
  from dispatch_rest [OF assms(1), of "[]" "ipcl_event_context w" which data] h assms(3) obtain w1 where
    "dispatch_loop call which data 0 (ipcl_event_context w) = Some w1"
    "call_all call which data hs (ipcl_event_context w) = Some w1"
    "ev_table w1 = ev_table w" "ev_lock w1 = ev_lock w + 1"
    by (auto simp: ipcl_event_context_def)
  then show ?thesis using that by (simp add: pcl_event_dispatch_def ipcl_event_context_release_def)
qed

section \<open>The properties\<close>

datatype 'h ev_op = Register 'h | Unregister 'h

fun run_ops :: "'h ev_op list \<Rightarrow> ('h, 's, 'z) ev_world_scheme \<Rightarrow> ('h, 's, 'z) ev_world_scheme option" where
  "run_ops [] w = Some w"
| "run_ops (op # ops) w =
     do { w1 \<leftarrow> (case op of Register h \<Rightarrow> pcl_event_register (Some h) w | Unregister h \<Rightarrow> pcl_event_unregister (Some h) w);
          run_ops ops w1 }"

fun list_op :: "'h ev_op \<Rightarrow> 'h list \<Rightarrow> 'h list" where
  "list_op (Register h) hs = hs @ [h]"
| "list_op (Unregister h) hs = remove1 h hs"

lemma run_ops_ok:
  assumes "ev_holds hs w" "length hs + length ops < 2 ^ 30"
  shows "\<exists>w'. run_ops ops w = Some w' \<and> ev_holds (fold list_op ops hs) w' \<and> ev_lock w' = ev_lock w"
  using assms
proof (induction ops arbitrary: hs w)
  case (Cons x ops)
  have len: "length (list_op x hs) \<le> Suc (length hs)" by (cases x) (auto simp: length_remove1)
  obtain w1 where w1: "(case x of Register h \<Rightarrow> pcl_event_register (Some h) w | Unregister h \<Rightarrow> pcl_event_unregister (Some h) w)
      = Some w1" "ev_holds (list_op x hs) w1" "ev_lock w1 = ev_lock w"
  proof (cases x)
    case (Register h)
    have "length hs < 2 ^ 30" using Cons.prems(2) by simp
    then show ?thesis using that Register register_ok [OF Cons.prems(1), of h] by (metis ev_op.simps(5) list_op.simps(1))
  next
    case (Unregister h)
    then show ?thesis using that unregister_ok [OF Cons.prems(1), of h] by (metis ev_op.simps(6) list_op.simps(2))
  qed
  then show ?case using Cons.IH [OF w1(2)] Cons.prems(2) len by simp
qed simp

lemma fold_list_op_set: "set (fold list_op ops hs) \<subseteq> set hs \<union> {h. Register h \<in> set ops}"
proof (induction ops arbitrary: hs)
  case (Cons x ops)
  have "set (list_op x hs) \<subseteq> set hs \<union> {h. x = Register h}"
    by (cases x) (use set_remove1_subset in fastforce)+
  then show ?case using Cons.IH [of "list_op x hs"] by fastforce
qed simp

lemma fold_list_op_length: "length (fold list_op ops hs) \<le> length hs + length ops"
proof (induction ops arbitrary: hs)
  case (Cons x ops)
  have "length (list_op x hs) \<le> Suc (length hs)" by (cases x) (auto simp: length_remove1)
  then show ?case using Cons.IH [of "list_op x hs"] by simp
qed simp

text \<open>C21: After any sequence of registrations and removals since \<open>ipcl_event_init\<close> the table holds the handlers in the order
  of their registration, a removal taking away the first entry of its handler, and a dispatch calls
  exactly those, in that order, with the mutex held, and releases it, when they leave the table alone.\<close>

theorem event_dispatch_order:
  assumes "length ops < 2 ^ 30" "\<forall>h. Register h \<in> set ops \<longrightarrow> quiet call h"
  shows "\<exists>w w1. run_ops ops (ipcl_event_init w0) = Some w \<and> ev_holds (fold list_op ops []) w
    \<and> call_all call which data (fold list_op ops []) (ipcl_event_context w) = Some w1
    \<and> pcl_event_dispatch call which data w = Some (w1\<lparr>ev_lock := 0\<rparr>) \<and> ev_table w1 = ev_table w"
proof -
  from run_ops_ok [OF init_holds, of ops] assms(1) obtain w where
    w: "run_ops ops (ipcl_event_init w0) = Some w" "ev_holds (fold list_op ops []) w" "ev_lock w = 0"
    by (auto simp: ipcl_event_init_def)
  have "list_all (quiet call) (fold list_op ops [])"
    using fold_list_op_set [of ops "[]"] assms(2) by (auto simp: list_all_iff)
  moreover have "length (fold list_op ops []) < 2 ^ 30"
    using fold_list_op_length [of ops "[]"] assms(1) by simp
  ultimately obtain w1 where "call_all call which data (fold list_op ops []) (ipcl_event_context w) = Some w1"
    "pcl_event_dispatch call which data w = Some (w1\<lparr>ev_lock := ev_lock w\<rparr>)" "ev_table w1 = ev_table w"
    using dispatch_ok [OF _ w(2)] by metis
  then show ?thesis using w by auto
qed

definition demo_call :: "nat \<Rightarrow> 32 word \<Rightarrow> unit \<Rightarrow> (nat, nat list) ev_world \<Rightarrow> (nat, nat list) ev_world option" where
  "demo_call h which data w = (if h = 1 then pcl_event_unregister (Some 1) w else Some (w\<lparr>ev_state := ev_state w @ [h]\<rparr>))"

definition demo_events :: "(nat, nat list) ev_world" where
  "demo_events = \<lparr>frozen = False, err = 0, oserr = 0, strace = [], c_errno = 0, ev_table = pcl_array_new 4 None,
     ev_lock = 0, ev_state = []\<rparr>"

lemma demo_quiet: "h \<noteq> 1 \<Longrightarrow> quiet demo_call h"
  by (simp add: quiet_def demo_call_def)

lemma event_dispatch_order_witness:
  "\<exists>w w1. run_ops [Register 5, Register 7, Register 5, Unregister 5] (ipcl_event_init demo_events) = Some w
    \<and> ev_holds [7, 5] w \<and> call_all demo_call 10 () [7, 5] (ipcl_event_context w) = Some w1
    \<and> pcl_event_dispatch demo_call 10 () w = Some (w1\<lparr>ev_lock := 0\<rparr>) \<and> ev_table w1 = ev_table w"
  using event_dispatch_order [of "[Register 5, Register 7, Register 5, Unregister 5]" demo_call demo_events 10 "()"]
  by (simp add: demo_quiet)

text \<open>A handler that unregisters itself while it is called, and does anything besides that leaves the
  table and the mutex alone.\<close>

definition departs ::
  "('h \<Rightarrow> 32 word \<Rightarrow> 'd \<Rightarrow> ('h, 's, 'z) ev_world_scheme \<Rightarrow> ('h, 's, 'z) ev_world_scheme option) \<Rightarrow> 'h \<Rightarrow> bool" where
  "departs call h \<longleftrightarrow> (\<forall>which data hs v. ev_holds hs v \<longrightarrow>
     (\<exists>(u :: ('h, 's, 'z) ev_world_scheme) u' v'. ev_table u = ev_table v \<and> ev_lock u = ev_lock v \<and> pcl_event_unregister (Some h) u = Some u'
       \<and> call h which data v = Some v' \<and> ev_table v' = ev_table u' \<and> ev_lock v' = ev_lock u'))"

lemma leaving_call:
  fixes v :: "('h, 's, 'z) ev_world_scheme"
  assumes "departs call h" "ev_holds hs v"
  obtains v' where "call h which data v = Some v'" "ev_holds (remove1 h hs) v'" "ev_lock v' = ev_lock v"
proof -
  from assms obtain u u' v' :: "('h, 's, 'z) ev_world_scheme" where u: "ev_table u = ev_table v" "ev_lock u = ev_lock v"
    "pcl_event_unregister (Some h) u = Some u'" "call h which data v = Some v'"
    "ev_table v' = ev_table u'" "ev_lock v' = ev_lock u'"
    unfolding departs_def by blast
  have "ev_holds hs u" using assms(2) u(1) by (simp add: ev_holds_def)
  from unregister_ok [OF this, of h] u(3) have "ev_holds (remove1 h hs) u'" "ev_lock u' = ev_lock u" by auto
  then show ?thesis using u that [of v'] by (simp add: ev_holds_def)
qed

lemma call_all_last:
  "call_all call which data hs u = Some u1 \<Longrightarrow> call h which data u1 = Some u2 \<Longrightarrow>
     call_all call which data (hs @ [h]) u = Some u2"
  by (induction hs arbitrary: u) (auto simp: bind_Some_iff)

text \<open>C22: A handler, anywhere in the table, that unregisters itself while it is called moves the
  handlers behind it up. The dispatch calls the handlers in front of it and the handler itself; then
  the one that was next, whatever it does, is not called for this event; those behind are called, and
  the mutex is released. The handlers that are called before and after leave the table alone.\<close>

theorem event_unregister_skips:
  assumes "ev_holds (hs1 @ h # k # hs2) w" "departs call h" "h \<notin> set hs1"
    and "list_all (quiet call) hs1" "list_all (quiet call) hs2" "length (hs1 @ h # k # hs2) < 2 ^ 30"
  shows "\<exists>w1 w2. call_all call which data (hs1 @ [h]) (ipcl_event_context w) = Some w1
    \<and> ev_holds (hs1 @ k # hs2) w1 \<and> call_all call which data hs2 w1 = Some w2
    \<and> pcl_event_dispatch call which data w = Some (w2\<lparr>ev_lock := ev_lock w\<rparr>)"
proof -
  let ?w = "ipcl_event_context w"
  have hw: "ev_holds (hs1 @ h # k # hs2) ?w" using assms(1) by (simp add: ipcl_event_context_def)
  from dispatch_pass [of call hs1 "[]" "h # k # hs2" ?w which data] hw assms(4,6) obtain w0 where
    w0: "call_all call which data hs1 ?w = Some w0" "ev_table w0 = ev_table ?w" "ev_lock w0 = ev_lock ?w"
    "dispatch_loop call which data 0 ?w = dispatch_loop call which data (int (length hs1)) w0"
    by auto
  have h0: "ev_holds (hs1 @ h # k # hs2) w0" using hw w0(2) by (simp add: ev_holds_def)
  obtain w1 where w1: "call h which data w0 = Some w1" "ev_holds (remove1 h (hs1 @ h # k # hs2)) w1" "ev_lock w1 = ev_lock w0"
    by (rule leaving_call [OF assms(2) h0])
  have h1: "ev_holds (hs1 @ k # hs2) w1" using w1(2) assms(3) by (simp add: remove1_append)
  from dispatch_turn [of hs1 h "k # hs2" w0 call which data w1] h0 assms(6) w1(1)
  have "dispatch_loop call which data (int (length hs1)) w0 = dispatch_loop call which data (int (length (hs1 @ [k]))) w1"
    by simp
  moreover from dispatch_rest [OF assms(5), of "hs1 @ [k]" w1 which data] h1 assms(6) obtain w2 where
    "dispatch_loop call which data (int (length (hs1 @ [k]))) w1 = Some w2"
    "call_all call which data hs2 w1 = Some w2" "ev_lock w2 = ev_lock w1"
    by auto
  moreover have "call_all call which data (hs1 @ [h]) ?w = Some w1"
    by (rule call_all_last [OF w0(1) w1(1)])
  ultimately show ?thesis
    using w0(3,4) w1(3) h1
    by (simp add: pcl_event_dispatch_def ipcl_event_context_release_def ipcl_event_context_def)
qed

lemma demo_leaving: "departs demo_call 1"
  unfolding departs_def demo_call_def using unregister_ok by (metis (full_types))

lemma event_unregister_skips_witness:
  "\<exists>w w1 w2. run_ops [Register 4, Register 1, Register 2, Register 3] (ipcl_event_init demo_events) = Some w
    \<and> call_all demo_call 10 () [4, 1] (ipcl_event_context w) = Some w1 \<and> ev_holds [4, 2, 3] w1
    \<and> call_all demo_call 10 () [3] w1 = Some w2 \<and> pcl_event_dispatch demo_call 10 () w = Some (w2\<lparr>ev_lock := ev_lock w\<rparr>)"
proof -
  from run_ops_ok [OF init_holds, of "[Register 4, Register 1, Register 2, Register 3]" demo_events] obtain w where
    w: "run_ops [Register 4, Register 1, Register 2, Register 3] (ipcl_event_init demo_events) = Some w"
      "ev_holds [4, 1, 2, 3] w"
    by auto
  have "ev_holds ([4] @ 1 # 2 # [3]) w" using w(2) by simp
  from event_unregister_skips [OF this demo_leaving, of 10 "()"] show ?thesis
    unfolding append.simps using w(1) demo_quiet by auto
qed

end
