(* ===== verification/PclStatText.thy ===== *)
theory PclStatText imports PclStringOk PclStrint begin

unbundle bit_operations_syntax

text \<open>
  The mode and the flags of a file as text (\<open>src/stat/strmode.c\<close>, \<open>strflags.c\<close>). The words are those of
  \<open>include/pcl/stat.h\<close>, the blocks those of the caller.
\<close>

section \<open>The mode\<close>

definition mode_has :: "32 word \<Rightarrow> 32 word \<Rightarrow> bool" where
  "mode_has mode bits \<longleftrightarrow> mode AND bits \<noteq> 0"

definition type_char :: "32 word \<Rightarrow> char" where
  "type_char mode =
     (let t = mode AND 0xF000
      in if t = 0x4000 then CHR ''d'' else if t = 0x8000 then CHR ''-'' else if t = 0xA000 then CHR ''l''
         else if t = 0x6000 then CHR ''b'' else if t = 0x2000 then CHR ''c'' else if t = 0x1000 then CHR ''p''
         else if t = 0xC000 then CHR ''s'' else CHR ''?'')"

definition bit_char :: "char \<Rightarrow> 32 word \<Rightarrow> 32 word \<Rightarrow> char" where
  "bit_char c mode bits = (if mode_has mode bits then c else CHR ''-'')"

text \<open>The third character of a group: \<open>special\<close> is the set-id or the sticky bit, and \<open>x\<close> the bit the source
  tests when it is set. For the sticky bit that is the execute bit of the owner.\<close>

definition exec_char :: "char \<Rightarrow> char \<Rightarrow> 32 word \<Rightarrow> 32 word \<Rightarrow> 32 word \<Rightarrow> 32 word \<Rightarrow> char" where
  "exec_char both only mode special x plain =
     (if mode_has mode special then (if mode_has mode x then both else only) else bit_char CHR ''x'' mode plain)"

definition mode_text :: "32 word \<Rightarrow> string" where
  "mode_text mode =
     [type_char mode,
      bit_char CHR ''r'' mode 0x100, bit_char CHR ''w'' mode 0x80, exec_char CHR ''s'' CHR ''S'' mode 0x800 0x40 0x40,
      bit_char CHR ''r'' mode 0x20, bit_char CHR ''w'' mode 0x10, exec_char CHR ''s'' CHR ''S'' mode 0x400 0x8 0x8,
      bit_char CHR ''r'' mode 0x4, bit_char CHR ''w'' mode 0x2, exec_char CHR ''t'' CHR ''T'' mode 0x200 0x40 0x1]"

text \<open>The block is returned; a null pointer stays one.\<close>

definition pcl_strmode :: "byte list option \<Rightarrow> nat \<Rightarrow> 32 word \<Rightarrow> byte list option option" where
  "pcl_strmode out out_size mode =
     (case out of
        None \<Rightarrow> Some None
      | Some d \<Rightarrow>
          do { d1 \<leftarrow> wr d 0 0;
               d2 \<leftarrow> (if out_size \<ge> 11 then mem_copy d1 0 (str_bytes (mode_text mode) @ [0]) else Some d1);
               Some (Some d2) })"

section \<open>The flags\<close>

definition flag_names :: "(32 word \<times> string) list" where
  "flag_names = [(0x1, ''UF_NODUMP''), (0x2, ''UF_IMMUTABLE''), (0x4, ''UF_APPEND''), (0x8, ''UF_OPAQUE''),
     (0x10, ''UF_NOUNLINK''), (0x20, ''UF_COMPRESSED''), (0x40, ''UF_TRACKED''), (0x80, ''UF_ENCRYPTED''),
     (0x100, ''UF_SPARSE''), (0x200, ''UF_SYSTEM''), (0x8000, ''UF_HIDDEN''), (0x10000, ''SF_ARCHIVED''),
     (0x20000, ''SF_IMMUTABLE''), (0x40000, ''SF_APPEND''), (0x100000, ''SF_NOUNLINK''), (0x200000, ''SF_SNAPSHOT'')]"

text \<open>The macro \<open>catflag\<close> in turn for every flag; it returns when a name does not fit.\<close>

fun catflags :: "(32 word \<times> string) list \<Rightarrow> nat \<Rightarrow> 32 word \<Rightarrow> byte list \<Rightarrow> byte list option" where
  "catflags [] len flags out = Some out"
| "catflags ((f, name) # fs) len flags out =
     (if mode_has flags f
      then do { c \<leftarrow> rd out 0;
                (ok, d) \<leftarrow> pcl_strncat (Some out) len (Some (str_bytes ((if c \<noteq> 0 then '','' else []) @ name) @ [0])) 0;
                d1 \<leftarrow> d;
                if ok then catflags fs len flags d1 else Some d1 }
      else catflags fs len flags out)"

definition pcl_strflags :: "byte list option \<Rightarrow> nat \<Rightarrow> 32 word \<Rightarrow> byte list option option" where
  "pcl_strflags out len flags =
     (case out of
        None \<Rightarrow> Some None
      | Some d \<Rightarrow>
          if len = 0 then Some out
          else do { d1 \<leftarrow> wr d 0 0; d2 \<leftarrow> catflags flag_names len flags d1; Some (Some d2) })"

section \<open>What the mode shows\<close>

lemma mode_has_exp: "mode_has m (2 ^ k) \<longleftrightarrow> bit m k"
  by (simp add: mode_has_def and_exp_eq_0_iff_not_bit)

text \<open>The masks of \<open>stat.h\<close> by the number of their bit.\<close>

lemma mode_has_bit:
  "mode_has m 0x1 = bit m 0" "mode_has m 0x2 = bit m 1" "mode_has m 0x4 = bit m 2" "mode_has m 0x8 = bit m 3"
  "mode_has m 0x10 = bit m 4" "mode_has m 0x20 = bit m 5" "mode_has m 0x40 = bit m 6" "mode_has m 0x80 = bit m 7"
  "mode_has m 0x100 = bit m 8" "mode_has m 0x200 = bit m 9" "mode_has m 0x400 = bit m 10" "mode_has m 0x800 = bit m 11"
  using mode_has_exp [of m 0] mode_has_exp [of m 1] mode_has_exp [of m 2] mode_has_exp [of m 3]
    mode_has_exp [of m 4] mode_has_exp [of m 5] mode_has_exp [of m 6] mode_has_exp [of m 7]
    mode_has_exp [of m 8] mode_has_exp [of m 9] mode_has_exp [of m 10] mode_has_exp [of m 11]
  by simp_all

text \<open>The type of a file is the number in the four bits above the permissions.\<close>

definition file_type :: "32 word \<Rightarrow> 32 word" where
  "file_type m = take_bit 4 (drop_bit 12 m)"

definition file_types :: "(32 word \<times> char) list" where
  "file_types = [(1, CHR ''p''), (2, CHR ''c''), (4, CHR ''d''), (6, CHR ''b''), (8, CHR ''-''),
     (10, CHR ''l''), (12, CHR ''s'')]"

lemma type_bits: "m AND 0xF000 = push_bit 12 (file_type m)" "drop_bit 12 (m AND 0xF000) = file_type m"
proof -
  have f: "(0xF000 :: 32 word) = push_bit 12 (mask 4)" by (simp add: mask_eq_exp_minus_1)
  show "m AND 0xF000 = push_bit 12 (file_type m)"
    unfolding f file_type_def by (rule bit_eqI) (auto simp: bit_simps)
  show "drop_bit 12 (m AND 0xF000) = file_type m"
    unfolding f file_type_def by (rule bit_eqI) (auto simp: bit_simps)
qed

lemma type_iff: "m AND 0xF000 = push_bit 12 k \<longleftrightarrow> file_type m = k" if "drop_bit 12 (push_bit 12 k) = k"
  using that type_bits [of m] by metis

lemma type_char_shown:
  "type_char m = (case map_of file_types (file_type m) of Some c \<Rightarrow> c | None \<Rightarrow> CHR ''?'')"
  using type_iff [of 1 m] type_iff [of 2 m] type_iff [of 4 m] type_iff [of 6 m] type_iff [of 8 m]
    type_iff [of 10 m] type_iff [of 12 m]
  by (simp add: type_char_def file_types_def)

text \<open>C23: \<open>pcl_strmode\<close> writes ten characters and a NUL and leaves the rest of the block. The first
  character is the letter of the type (\<open>?\<close> for an unknown one); then there are three groups, of the
  owner, the group and the others, whose permissions are the bits 8 to 0 of the mode in turn: \<open>r\<close>,
  \<open>w\<close> and an execute character, or a dash. The set-id bits 11 and 10 turn the execute character of
  the first two groups into \<open>s\<close> or, without the execute bit of the group, \<open>S\<close>. The sticky bit 9 turns
  the last one into \<open>t\<close> or \<open>T\<close>, but by the execute bit 6, that of the owner, not by bit 0, that of the
  others, which then is not shown. A block of fewer than eleven bytes becomes an empty string.\<close>

theorem strmode_shows:
  assumes "11 \<le> length out"
  shows "\<exists>t. pcl_strmode (Some out) (length out) m = Some (Some (str_bytes t @ 0 # drop 11 out)) \<and> length t = 10
    \<and> t ! 0 = (case map_of [(1, CHR ''p''), (2, CHR ''c''), (4, CHR ''d''), (6, CHR ''b''), (8, CHR ''-''),
          (10, CHR ''l''), (12, CHR ''s'')] (take_bit 4 (drop_bit 12 m)) of Some c \<Rightarrow> c | None \<Rightarrow> CHR ''?'')
    \<and> (\<forall>i < 3. t ! (3 * i + 1) = (if bit m (8 - 3 * i) then CHR ''r'' else CHR ''-'')
         \<and> t ! (3 * i + 2) = (if bit m (7 - 3 * i) then CHR ''w'' else CHR ''-''))
    \<and> (\<forall>i < 2. t ! (3 * i + 3) = (if bit m (11 - i)
         then if bit m (6 - 3 * i) then CHR ''s'' else CHR ''S''
         else if bit m (6 - 3 * i) then CHR ''x'' else CHR ''-''))
    \<and> t ! 9 = (if bit m 9 then if bit m 6 then CHR ''t'' else CHR ''T'' else if bit m 0 then CHR ''x'' else CHR ''-'')
    \<and> (\<forall>n < 11. pcl_strmode (Some out) n m = Some (Some (out[0 := 0])))"
proof (intro exI conjI)
  have l: "length (str_bytes (mode_text m)) = 10" by (simp add: mode_text_def str_bytes_def)
  have "out \<noteq> []" using assms by auto
  then have w: "wr out 0 0 = Some (out[0 := 0])" by (simp add: wr_def)
  moreover have "mem_copy (out[0 := 0]) 0 (str_bytes (mode_text m) @ [0])
      = Some (str_bytes (mode_text m) @ 0 # drop 11 out)"
    using assms l by (simp add: mem_copy_def drop_update_cancel)
  ultimately show "pcl_strmode (Some out) (length out) m = Some (Some (str_bytes (mode_text m) @ 0 # drop 11 out))"
    using assms by (simp add: pcl_strmode_def)
  show "\<forall>n < 11. pcl_strmode (Some out) n m = Some (Some (out[0 := 0]))"
    using w by (simp add: pcl_strmode_def)
  show "length (mode_text m) = 10" by (simp add: mode_text_def)
  show "mode_text m ! 0 = (case map_of [(1, CHR ''p''), (2, CHR ''c''), (4, CHR ''d''), (6, CHR ''b''), (8, CHR ''-''),
          (10, CHR ''l''), (12, CHR ''s'')] (take_bit 4 (drop_bit 12 m)) of Some c \<Rightarrow> c | None \<Rightarrow> CHR ''?'')"
    using type_char_shown [of m] unfolding file_types_def file_type_def by (simp add: mode_text_def)
  show "mode_text m ! 9 = (if bit m 9 then if bit m 6 then CHR ''t'' else CHR ''T''
      else if bit m 0 then CHR ''x'' else CHR ''-'')"
    by (simp add: mode_text_def exec_char_def bit_char_def mode_has_bit)
  show "\<forall>i < 3. mode_text m ! (3 * i + 1) = (if bit m (8 - 3 * i) then CHR ''r'' else CHR ''-'')
         \<and> mode_text m ! (3 * i + 2) = (if bit m (7 - 3 * i) then CHR ''w'' else CHR ''-'')"
    by (simp add: mode_text_def bit_char_def mode_has_bit numeral_3_eq_3 numeral_2_eq_2 less_Suc_eq)
  show "\<forall>i < 2. mode_text m ! (3 * i + 3) = (if bit m (11 - i)
         then if bit m (6 - 3 * i) then CHR ''s'' else CHR ''S''
         else if bit m (6 - 3 * i) then CHR ''x'' else CHR ''-'')"
    by (simp add: mode_text_def exec_char_def bit_char_def mode_has_bit numeral_2_eq_2 less_Suc_eq)
qed

text \<open>The mode of a directory with the sticky bit that only its owner and its group may search.\<close>

lemma strmode_shows_witness:
  "\<exists>t. pcl_strmode (Some (replicate 12 7)) (length (replicate 12 (7 :: byte))) 0x43F8
        = Some (Some (str_bytes t @ 0 # drop 11 (replicate 12 7))) \<and> length t = 10 \<and> t ! 0 = CHR ''d'' \<and> t ! 9 = CHR ''t''
    \<and> (\<forall>n < 11. pcl_strmode (Some (replicate 12 7)) n 0x43F8 = Some (Some ((replicate 12 7)[0 := 0])))"
proof -
  have "take_bit 4 (drop_bit 12 0x43F8 :: 32 word) = 4" "bit (0x43F8 :: 32 word) 9" "bit (0x43F8 :: 32 word) 6"
    by simp_all
  moreover have "11 \<le> length (replicate 12 (7 :: byte))" by simp
  note strmode_shows [OF this, of "0x43F8"]
  ultimately show ?thesis by (elim exE conjE) (intro exI conjI, assumption+, simp_all)
qed

section \<open>What the flags show\<close>

text \<open>The names of the flags that are set, joined by commas, as long as the text fits.\<close>

fun join_names :: "(32 word \<times> string) list \<Rightarrow> nat \<Rightarrow> 32 word \<Rightarrow> byte list \<Rightarrow> byte list" where
  "join_names [] len flags acc = acc"
| "join_names ((f, name) # fs) len flags acc =
     (if mode_has flags f
      then (let t = acc @ str_bytes ((if acc = [] then [] else '','') @ name)
            in if length t < len then join_names fs len flags t else acc)
      else join_names fs len flags acc)"

definition c_name :: "string \<Rightarrow> bool" where
  "c_name s \<longleftrightarrow> s \<noteq> [] \<and> 0 \<notin> set (str_bytes s)"

lemma comma_name: "c_name s \<Longrightarrow> c_name (CHR '','' # s)"
  by (simp add: c_name_def str_bytes_def)

lemma catflags_join:
  assumes "list_all (\<lambda>(f, name). c_name name) fs" "0 \<notin> set acc" "length (acc @ 0 # r) = len"
  shows "\<exists>r'. catflags fs len flags (acc @ 0 # r) = Some (join_names fs len flags acc @ 0 # r')
    \<and> length (join_names fs len flags acc @ 0 # r') = len \<and> 0 \<notin> set (join_names fs len flags acc)"
  using assms
proof (induction fs arbitrary: acc r)
  case (Cons x fs)
  obtain f name where x: "x = (f, name)" by (cases x)
  define add where "add = str_bytes ((if acc = [] then [] else '','') @ name)"
  have nm: "c_name ((if acc = [] then [] else '','') @ name)"
    using Cons.prems(1) comma_name by (simp add: x)
  then have add: "0 \<notin> set add" "add \<noteq> []" by (simp_all add: add_def c_name_def str_bytes_def)
  have c: "rd (acc @ 0 # r) 0 = Some (case acc of [] \<Rightarrow> 0 | a # _ \<Rightarrow> a)" by (cases acc) (simp_all add: rd_def)
  have cz: "(case acc of [] \<Rightarrow> 0 | a # _ \<Rightarrow> a) \<noteq> 0 \<longleftrightarrow> acc \<noteq> []" using Cons.prems(2) by (cases acc) auto
  show ?case
  proof (cases "mode_has flags f")
    case False
    then show ?thesis using Cons.IH [of acc r] Cons.prems by (simp add: x)
  next
    case True
    have eq: "catflags (x # fs) len flags (acc @ 0 # r)
      = do { (ok, d) \<leftarrow> pcl_strncat (Some (acc @ 0 # r)) len (Some (add @ 0 # [])) 0;
             d1 \<leftarrow> d; if ok then catflags fs len flags d1 else Some d1 }"
      using True c cz by (simp add: x add_def)
    show ?thesis
    proof (cases "length (acc @ add) < len")
      case fits: True
      have "pcl_strncat (Some (acc @ 0 # r)) len (Some (add @ 0 # [])) 0
          = Some (True, Some ((acc @ add) @ 0 # drop (length add) r))"
        using strncat_ok [OF Cons.prems(2) add(1), of len r "[]"] fits Cons.prems(3) add(2) by simp
      moreover have "join_names (x # fs) len flags acc = join_names fs len flags (acc @ add)"
        using True fits by (simp add: x add_def Let_def)
      moreover have "0 \<notin> set (acc @ add)" "length ((acc @ add) @ 0 # drop (length add) r) = len"
        using Cons.prems(2,3) add(1) fits by auto
      ultimately show ?thesis using Cons.IH [of "acc @ add" "drop (length add) r"] Cons.prems(1) eq by simp
    next
      case False
      then have "pcl_strncat (Some (acc @ 0 # r)) len (Some (add @ 0 # [])) 0 = Some (False, Some (acc @ 0 # r))"
        using strncat_full [OF Cons.prems(2) add(1) _ _ add(2), of len r "[]"] Cons.prems(3) by simp
      moreover have "join_names (x # fs) len flags acc = acc"
        using True False by (simp add: x add_def Let_def)
      ultimately show ?thesis using eq Cons.prems(2,3) by auto
    qed
  qed
qed auto

lemma flag_names_ok: "list_all (\<lambda>(f, name). c_name name) flag_names"
  by (simp add: flag_names_def c_name_def str_bytes_def)

text \<open>C24: \<open>pcl_strflags\<close> leaves in the block the names of the flags that are set, in the order of the table and joined by
  commas, terminated; it stops in front of the first name that does not fit with its NUL.\<close>

theorem strflags_names:
  assumes "out \<noteq> []" "len = length out"
  shows "\<exists>r. pcl_strflags (Some out) len flags = Some (Some (join_names flag_names len flags [] @ 0 # r))
    \<and> length (join_names flag_names len flags [] @ 0 # r) = len"
proof -
  from assms(1) obtain a o' where out: "out = a # o'" by (cases out) auto
  then have "wr out 0 0 = Some ([] @ 0 # o')" by (simp add: wr_def)
  with catflags_join [OF flag_names_ok, of "[]" o' len flags] show ?thesis
    using assms by (auto simp: pcl_strflags_def out)
qed

lemma strflags_names_witness:
  "\<exists>r. pcl_strflags (Some (replicate 20 9)) 20 0x8006 = Some (Some (str_bytes ''UF_IMMUTABLE'' @ 0 # r))
    \<and> length (str_bytes ''UF_IMMUTABLE'' @ 0 # r) = 20"
proof -
  have "join_names flag_names 20 0x8006 [] = str_bytes ''UF_IMMUTABLE''"
    by (simp add: flag_names_def mode_has_def Let_def)
  then show ?thesis using strflags_names [of "replicate 20 9" 20 "0x8006"] by simp
qed

end
