(* ===== verification/PclSleep.thy ===== *)
theory PclSleep imports PclFileOk begin

text \<open>
  Sleeping (\<open>src/time/sleep.c\<close>, Unix): an interrupted \<open>nanosleep\<close> goes on with the time that remains; with a condition
  the sleep is cut into intervals.
\<close>

section \<open>The code\<close>

text \<open>A time is its seconds and nanoseconds. An interrupted call answers \<open>errno\<close> and the remaining time.\<close>

type_synonym timespec = "nat \<times> nat"

record 's sys_time =
  sys_nanosleep :: "timespec \<Rightarrow> 's \<Rightarrow> (int \<times> timespec) option \<times> 's"

definition PCL_NSECS :: nat where "PCL_NSECS = 1000000000"
definition COND_INTERVAL :: nat where "COND_INTERVAL = 10000000"

partial_function (option) sleep_loop ::
  "'s sys_time \<Rightarrow> timespec \<Rightarrow> ('s, 'z) os_world_scheme \<Rightarrow> (bool \<times> ('s, 'z) os_world_scheme) option" where
  "sleep_loop S amt w =
     (case sys_nanosleep S amt (os w) of
        (None, s) \<Rightarrow> Some (True, w\<lparr>os := s\<rparr>)
      | (Some (e, remaining_amt), s) \<Rightarrow>
          (let w1 = w\<lparr>c_errno := e, os := s\<rparr>
           in if e \<noteq> EINTR then Some (R_SETLASTERR False (''sleep.c'', ''pcl_sleep'', 112) w1)
              else sleep_loop S remaining_amt w1))"

definition plain_sleep ::
  "'s sys_time \<Rightarrow> nat \<Rightarrow> ('s, 'z) os_world_scheme \<Rightarrow> (bool \<times> ('s, 'z) os_world_scheme) option" where
  "plain_sleep S nsecs w = sleep_loop S (nsecs div PCL_NSECS, nsecs mod PCL_NSECS) w"

text \<open>A condition is a function that may change the world.\<close>

partial_function (option) cond_loop ::
  "'s sys_time \<Rightarrow> (('s, 'z) os_world_scheme \<Rightarrow> bool \<times> ('s, 'z) os_world_scheme) \<Rightarrow> nat \<Rightarrow> nat \<Rightarrow>
     ('s, 'z) os_world_scheme \<Rightarrow> (bool \<times> ('s, 'z) os_world_scheme) option" where
  "cond_loop S cond nsecs cond_interval w =
     do { let s = min nsecs cond_interval;
          (r, w1) \<leftarrow> plain_sleep S s w;
          if r then Some (R_TRC False (''sleep.c'', ''sleep_cond'', 80) w1)
          else (case cond w1 of
                  (c, w2) \<Rightarrow> if c \<or> nsecs - s = 0 then Some (True, w2)
                             else cond_loop S cond (nsecs - s) cond_interval w2) }"

definition sleep_cond ::
  "'s sys_time \<Rightarrow> nat \<Rightarrow> (('s, 'z) os_world_scheme \<Rightarrow> bool \<times> ('s, 'z) os_world_scheme) \<Rightarrow> nat \<Rightarrow>
     ('s, 'z) os_world_scheme \<Rightarrow> (bool \<times> ('s, 'z) os_world_scheme) option" where
  "sleep_cond S nsecs cond cond_interval w =
     (case cond w of
        (c, w1) \<Rightarrow>
          if c then Some (True, w1)
          else cond_loop S cond nsecs (if cond_interval = 0 then COND_INTERVAL else cond_interval) w1)"

definition pcl_sleep ::
  "'s sys_time \<Rightarrow> nat \<Rightarrow> (('s, 'z) os_world_scheme \<Rightarrow> bool \<times> ('s, 'z) os_world_scheme) option \<Rightarrow> nat \<Rightarrow>
     ('s, 'z) os_world_scheme \<Rightarrow> (bool \<times> ('s, 'z) os_world_scheme) option" where
  "pcl_sleep S nsecs cond cond_interval w =
     (case cond of
        Some f \<Rightarrow> sleep_cond S nsecs f cond_interval w
      | None \<Rightarrow> plain_sleep S nsecs w)"

declare sleep_loop.simps [code] cond_loop.simps [code]

section \<open>The whole time\<close>

definition time_ns :: "timespec \<Rightarrow> nat" where
  "time_ns t = fst t * PCL_NSECS + snd t"

definition spec_ok :: "timespec \<Rightarrow> bool" where
  "spec_ok t \<longleftrightarrow> snd t < PCL_NSECS"

text \<open>What \<open>nanosleep\<close> documents, for a system with a clock and signals that can still arrive, counted
  by \<open>pending\<close>: nanoseconds of a second or more are refused with \<open>EINVAL\<close> at once; otherwise a call
  that is not interrupted has slept at least the time, and an interrupted one answers \<open>EINTR\<close> and a
  remaining time, again with less than a second of nanoseconds, that makes up for what was not slept.\<close>

definition clocked :: "'s sys_time \<Rightarrow> ('s \<Rightarrow> nat) \<Rightarrow> ('s \<Rightarrow> nat) \<Rightarrow> bool" where
  "clocked S clock pending \<longleftrightarrow> (\<forall>amt s. case sys_nanosleep S amt s of
     (None, s') \<Rightarrow> spec_ok amt \<and> clock s + time_ns amt \<le> clock s'
   | (Some (e, rem), s') \<Rightarrow>
       if spec_ok amt
       then e = EINTR \<and> spec_ok rem \<and> clock s + time_ns amt \<le> clock s' + time_ns rem \<and> pending s' < pending s
       else e = EINVAL)"

lemma sleep_loop_time:
  assumes "clocked S clock pending" "spec_ok amt"
  shows "\<exists>s' e. sleep_loop S amt w = Some (True, w\<lparr>os := s', c_errno := e\<rparr>) \<and> clock (os w) + time_ns amt \<le> clock s'"
  using assms(2)
proof (induction "pending (os w)" arbitrary: amt w rule: less_induct)
  case less
  show ?case
  proof (cases "sys_nanosleep S amt (os w)")
    case (Pair res s)
    from assms(1) have "case sys_nanosleep S amt (os w) of
       (None, s') \<Rightarrow> spec_ok amt \<and> clock (os w) + time_ns amt \<le> clock s'
     | (Some (e, rem), s') \<Rightarrow>
         if spec_ok amt
         then e = EINTR \<and> spec_ok rem \<and> clock (os w) + time_ns amt \<le> clock s' + time_ns rem \<and> pending s' < pending (os w)
         else e = EINVAL"
      unfolding clocked_def by (elim allE)
    note law = this [unfolded Pair prod.case]
    show ?thesis
    proof (cases res)
      case None
      have "sleep_loop S amt w = Some (True, w\<lparr>os := s\<rparr>)"
        by (subst sleep_loop.simps) (simp add: Pair None)
      moreover have "w\<lparr>os := s\<rparr> = w\<lparr>os := s, c_errno := c_errno w\<rparr>"
        by (cases w) simp
      ultimately have "sleep_loop S amt w = Some (True, w\<lparr>os := s, c_errno := c_errno w\<rparr>)" by (simp only:)
      moreover have "clock (os w) + time_ns amt \<le> clock s" using law None by simp
      ultimately show ?thesis by blast
    next
      case (Some x)
      obtain e rem where x: "x = (e, rem)" by (cases x)
      let ?w = "w\<lparr>c_errno := e, os := s\<rparr>"
      have e: "e = EINTR" "spec_ok rem" "clock (os w) + time_ns amt \<le> clock s + time_ns rem" "pending (os ?w) < pending (os w)"
        using law Some x less.prems by simp_all
      have "sleep_loop S amt w = sleep_loop S rem ?w"
        using Pair Some x e(1) by (subst sleep_loop.simps) (simp add: Let_def)
      then show ?thesis using less.hyps [OF e(4,2)] e(3) by fastforce
    qed
  qed
qed

lemma plain_sleep_time:
  assumes "clocked S clock pending"
  obtains s' e where "plain_sleep S nsecs w = Some (True, w\<lparr>os := s', c_errno := e\<rparr>)" "clock (os w) + nsecs \<le> clock s'"
  using sleep_loop_time [OF assms, of "(nsecs div PCL_NSECS, nsecs mod PCL_NSECS)" w]
  by (auto simp: plain_sleep_def time_ns_def spec_ok_def PCL_NSECS_def)

text \<open>C25: However often signals interrupt it, \<open>pcl_sleep\<close> without a condition returns true, sets no error and
  has slept at least the time asked for, on any system whose \<open>nanosleep\<close> keeps to its documentation and
  interrupts it finitely often; it never passes a time that \<open>nanosleep\<close> refuses.\<close>

theorem sleep_whole_time:
  assumes "clocked S clock pending"
  shows "\<exists>s' e. pcl_sleep S nsecs None cond_interval w = Some (True, w\<lparr>os := s', c_errno := e\<rparr>)
    \<and> clock (os w) + nsecs \<le> clock s'"
  by (rule plain_sleep_time [OF assms, of nsecs w]) (auto simp: pcl_sleep_def)

text \<open>The state is the clock and the signals that are pending, each of which interrupts a call at once; a
  call that is not interrupted sleeps a little longer than asked.\<close>

definition demo_time :: "(nat \<times> nat) sys_time" where
  "demo_time = \<lparr>sys_nanosleep = (\<lambda>amt (t, k).
     if spec_ok amt
     then case k of 0 \<Rightarrow> (None, (t + time_ns amt + 7, 0)) | Suc j \<Rightarrow> (Some (EINTR, amt), (t, j))
     else (Some (EINVAL, amt), (t, k)))\<rparr>"

lemma demo_clocked: "clocked demo_time fst snd"
  by (auto simp: clocked_def demo_time_def split: nat.split)

lemma sleep_whole_time_witness:
  "\<exists>s' e. pcl_sleep demo_time 2000000005 None 0 (demo_os (100, 2)) = Some (True, (demo_os (100, 2))\<lparr>os := s', c_errno := e\<rparr>)
    \<and> fst (os (demo_os (100 :: nat, 2 :: nat))) + 2000000005 \<le> fst s'"
  by (rule sleep_whole_time [OF demo_clocked])

text \<open>C26: With a condition that does not hold when \<open>pcl_sleep\<close> asks for it first, \<open>pcl_sleep\<close> takes the success of
  the first interval for a failure. It returns false, without setting an error, in a world that differs
  from the one the condition left only in the state of the system, \<open>errno\<close> and the trace line that
  was added: so the condition is not asked again (whatever it would do), and the sleep is one interval.\<close>

theorem sleep_cond_inverted:
  assumes "clocked S clock pending" "cond w = (False, w1)" "\<not> frozen w1"
  shows "\<exists>s' e. pcl_sleep S nsecs (Some cond) cond_interval w
      = Some (False, w1\<lparr>os := s', c_errno := e, strace := mk_trace (''sleep.c'', ''sleep_cond'', 80) None # strace w1\<rparr>)
    \<and> plain_sleep S (min nsecs (if cond_interval = 0 then COND_INTERVAL else cond_interval)) w1
      = Some (True, w1\<lparr>os := s', c_errno := e\<rparr>)
    \<and> clock (os w1) + min nsecs (if cond_interval = 0 then COND_INTERVAL else cond_interval) \<le> clock s'"
proof -
  let ?i = "if cond_interval = 0 then COND_INTERVAL else cond_interval"
  obtain s' e where sl: "plain_sleep S (min nsecs ?i) w1 = Some (True, w1\<lparr>os := s', c_errno := e\<rparr>)"
    "clock (os w1) + min nsecs ?i \<le> clock s'"
    by (rule plain_sleep_time [OF assms(1)])
  from sl(1) have "cond_loop S cond nsecs ?i w1
      = Some (R_TRC False (''sleep.c'', ''sleep_cond'', 80) (w1\<lparr>os := s', c_errno := e\<rparr>))"
    by (subst cond_loop.simps) (simp add: Let_def)
  with assms(2,3) sl show ?thesis
    by (intro exI [of _ s'] exI [of _ e]) (simp add: pcl_sleep_def sleep_cond_def R_TRC_thawed)
qed

text \<open>A condition that counts in the error code of the system how often it was asked.\<close>

definition demo_cond :: "(nat \<times> nat) os_world \<Rightarrow> bool \<times> (nat \<times> nat) os_world" where
  "demo_cond w = (oserr w > 0, w\<lparr>oserr := oserr w + 1\<rparr>)"

lemma sleep_cond_inverted_witness:
  "\<exists>s' e. pcl_sleep demo_time 60000000 (Some demo_cond) 0 (demo_os (0, 0))
      = Some (False, ((demo_os (0, 0))\<lparr>oserr := 1\<rparr>)\<lparr>os := s', c_errno := e,
          strace := mk_trace (''sleep.c'', ''sleep_cond'', 80) None # strace ((demo_os (0 :: nat, 0 :: nat))\<lparr>oserr := 1\<rparr>)\<rparr>)
    \<and> plain_sleep demo_time (min 60000000 (if (0 :: nat) = 0 then COND_INTERVAL else 0)) ((demo_os (0, 0))\<lparr>oserr := 1\<rparr>)
      = Some (True, ((demo_os (0, 0))\<lparr>oserr := 1\<rparr>)\<lparr>os := s', c_errno := e\<rparr>)
    \<and> fst (os ((demo_os (0 :: nat, 0 :: nat))\<lparr>oserr := 1\<rparr>)) + min 60000000 (if (0 :: nat) = 0 then COND_INTERVAL else 0) \<le> fst s'"
  by (rule sleep_cond_inverted [where cond = demo_cond and cond_interval = 0, OF demo_clocked])
    (simp_all add: demo_os_def demo_cond_def)

end
