(* ===== verification/PclNet.thy ===== *)
theory PclNet imports PclFile PclArray PclString begin

text \<open>
  Names of the network (\<open>src/net\<close>: \<open>net_ai2pcl.c\<close>, \<open>net_dns2pcl.c\<close>, \<open>net_addrlen.c\<close>, \<open>net_host2addr.c\<close>,
  \<open>net_dnstxtrec.c\<close>, Unix). The resolver and the parser of DNS messages are parameters; the numbers
  are those of Linux.
\<close>

section \<open>Error codes\<close>

text \<open>The \<open>EAI_\<close> codes of \<open>getaddrinfo\<close>; \<open>EAI_SYSTEM\<close> refers to \<open>errno\<close>.\<close>

definition pcl_net_ai2pcl :: "int \<Rightarrow> 'z pcl_err_scheme \<Rightarrow> int" where
  "pcl_net_ai2pcl ai_retval w =
     (if ai_retval = -1 then PCL_EINVAL
      else if ai_retval = -2 then PCL_EHOSTNOTFOUND
      else if ai_retval = -3 then PCL_ETRYAGAIN
      else if ai_retval = -4 then PCL_EHOSTNOTFOUND
      else if ai_retval = -5 then PCL_ENODATA
      else if ai_retval = -6 then PCL_EAFNOSUPPORT
      else if ai_retval = -7 then PCL_ESOCKTNOSUPPORT
      else if ai_retval = -8 then PCL_ESOCKTNOSUPPORT
      else if ai_retval = -9 then PCL_EAFNOSUPPORT
      else if ai_retval = -10 then PCL_ENOMEM
      else if ai_retval = -11 then pcl_err_os2pcl (c_errno w)
      else if ai_retval = -12 then PCL_EOVERFLOW
      else if ai_retval = -100 then PCL_EINPROGRESS
      else if ai_retval = -101 then PCL_ECANCELLED
      else if ai_retval = -102 then PCL_EINPROGRESS
      else if ai_retval = -103 then PCL_EOKAY
      else if ai_retval = -104 then PCL_EINTR
      else if ai_retval = -105 then PCL_EFORMAT
      else PCL_EUNDEF)"

definition pcl_net_dns2pcl :: "int \<Rightarrow> 'z pcl_err_scheme \<Rightarrow> int" where
  "pcl_net_dns2pcl code w =
     (if code = 1 then PCL_EHOSTNOTFOUND
      else if code = 2 then PCL_EAGAIN
      else if code = 3 then PCL_ENORECOVERY
      else if code = 4 then PCL_ENODATA
      else pcl_err_os2pcl (c_errno w))"

text \<open>The sizes of \<open>sockaddr_in\<close>, \<open>sockaddr_in6\<close> and \<open>sockaddr_un\<close> by family (2, 10 and 1).\<close>

definition pcl_net_addrlen :: "nat option \<Rightarrow> nat" where
  "pcl_net_addrlen family =
     (case family of
        None \<Rightarrow> 0
      | Some f \<Rightarrow> if f = 2 then 16 else if f = 10 then 28 else if f = 1 then 110 else 0)"

section \<open>Addresses\<close>

text \<open>An address is its family and the bytes behind it. \<open>getaddrinfo\<close> answers an error code or the first
  address it found.\<close>

record 's sys_net =
  sys_getaddrinfo :: "byte list \<Rightarrow> 's \<Rightarrow> (int + nat \<times> byte list) \<times> 's"
  sys_res_query :: "byte list \<Rightarrow> 's \<Rightarrow> (int + byte list) \<times> 's"
  sys_ns_initparse :: "byte list \<Rightarrow> int option"
  sys_ns_parserr :: "byte list \<Rightarrow> int + byte list \<times> nat"

text \<open>\<open>sun_path\<close> has 108 characters. Without an address the path is measured against \<open>PCL_MAXUNIXSOCKPATH\<close>, a parameter.\<close>

definition pcl_net_host2addr ::
  "'s sys_net \<Rightarrow> nat \<Rightarrow> byte list option \<Rightarrow> (nat \<times> byte list) option \<Rightarrow> ('s, 'z) os_world_scheme \<Rightarrow>
     (int \<times> (nat \<times> byte list) option \<times> ('s, 'z) os_world_scheme) option" where
  "pcl_net_host2addr S maxpath host sa w =
     (let fail = (\<lambda>sa (r, w). Some (r, sa, w))
      in case host of
        None \<Rightarrow> fail sa (BADARG (''net_host2addr.c'', ''pcl_net_host2addr'', 46) w)
      | Some h \<Rightarrow>
          do { c \<leftarrow> rd h 0;
               n \<leftarrow> c_strlen h;
               if c = 0 then fail sa (BADARG (''net_host2addr.c'', ''pcl_net_host2addr'', 46) w)
               else if c = 47
               then (case sa of
                       None \<Rightarrow> if n \<ge> maxpath
                               then fail sa (SETERR (''net_host2addr.c'', ''pcl_net_host2addr'', 53) PCL_EOVERFLOW w)
                               else Some (0, sa, w)
                     | Some (f, addr) \<Rightarrow>
                         do { (ok, po, w1) \<leftarrow> pcl_strncpy (Some addr) 108 host 0 w;
                              p \<leftarrow> po;
                              if \<not> ok
                              then fail (Some (1, p)) (SETERR (''net_host2addr.c'', ''pcl_net_host2addr'', 63) PCL_EOVERFLOW w1)
                              else Some (0, Some (1, p), w1) })
               else (case sys_getaddrinfo S (take n h) (os w) of
                       (Inl r, s) \<Rightarrow>
                         fail sa (SETERR (''net_host2addr.c'', ''pcl_net_host2addr'', 72)
                                    (pcl_net_ai2pcl r (w\<lparr>os := s\<rparr>)) (w\<lparr>os := s\<rparr>))
                     | (Inr (f, bytes), s) \<Rightarrow>
                         (case sa of
                            None \<Rightarrow> Some (0, None, w\<lparr>os := s\<rparr>)
                          | Some (f0, addr) \<Rightarrow> do { a \<leftarrow> mem_copy addr 0 bytes; Some (0, Some (f, a), w\<lparr>os := s\<rparr>) })) })"

section \<open>TXT records\<close>

text \<open>The texts of a record: a length byte in front of each. \<open>data\<close> is the answer from the data of the record on,
  \<open>len\<close> the length of that data.\<close>

function txt_loop ::
  "byte list \<Rightarrow> nat \<Rightarrow> nat \<Rightarrow> (byte list, 'c) pcl_array option \<Rightarrow> 'z pcl_err_scheme \<Rightarrow>
     ((byte list, 'c) pcl_array option \<times> 'z pcl_err_scheme) option" where
  "txt_loop data len n arr w =
     (if n < len
      then do { b \<leftarrow> rd data (int n);
                let q = unat b;
                elem \<leftarrow> pcl_strndup (Some (drop (n + 1) data)) q;
                (m, arr1, w1) \<leftarrow> pcl_array_append arr (Some elem) w;
                txt_loop data len (n + 1 + q) arr1 w1 }
      else Some (arr, w))"
  by pat_completeness auto
termination by (relation "measure (\<lambda>(data, len, n, arr, w). len - n)") auto

declare txt_loop.simps [simp del]

definition resolve_text :: "byte list \<Rightarrow> string" where
  "resolve_text host = ''Cannot resolve: '' @ [CHR 0x27] @ path_text host @ [CHR 0x27]"

definition pcl_net_dnstxtrec ::
  "'s sys_net \<Rightarrow> 'c \<Rightarrow> byte list \<Rightarrow> ('s, 'z) os_world_scheme \<Rightarrow>
     ((byte list, 'c) pcl_array option \<times> ('s, 'z) os_world_scheme) option" where
  "pcl_net_dnstxtrec S pcl_cleanup_ptr host w =
     (case sys_res_query S host (os w) of
        (Inl h_errno, s) \<Rightarrow>
          Some (R_SETERRMSG None (''net_dnstxtrec.c'', ''pcl_net_dnstxtrec'', 77)
                  (pcl_net_dns2pcl h_errno (w\<lparr>os := s\<rparr>)) (resolve_text host) (w\<lparr>os := s\<rparr>))
      | (Inr answer, s) \<Rightarrow>
          (case (sys_ns_initparse S answer, sys_ns_parserr S answer) of
             (Some e, _) \<Rightarrow> Some (R_SETLASTERR None (''net_dnstxtrec.c'', ''pcl_net_dnstxtrec'', 80) (w\<lparr>c_errno := e, os := s\<rparr>))
           | (None, Inl e) \<Rightarrow> Some (R_SETLASTERR None (''net_dnstxtrec.c'', ''pcl_net_dnstxtrec'', 83) (w\<lparr>c_errno := e, os := s\<rparr>))
           | (None, Inr (data, len)) \<Rightarrow> txt_loop data len 0 (Some (pcl_array_new 4 (Some pcl_cleanup_ptr))) (w\<lparr>os := s\<rparr>)))"

section \<open>The texts that come out\<close>

definition txt_data :: "byte list list \<Rightarrow> byte list" where
  "txt_data ts = concat (map (\<lambda>t. of_nat (length t) # t) ts)"

lemma txt_loop_texts:
  assumes "arr_wf a" "arr_count a + int (length ts) < 2 ^ 30"
    "\<forall>t\<in>set ts. t \<noteq> [] \<and> length t < 256"
  shows "\<exists>a'. txt_loop (pre @ txt_data ts @ rest) (length pre + length (txt_data ts)) (length pre) (Some a) w
           = Some (Some a', w) \<and> arr_wf a' \<and> arr_seq a' = arr_seq a @ map (\<lambda>t. Some (t @ [0])) ts"
  using assms
proof (induction ts arbitrary: a pre)
  case Nil
  then show ?case by (subst txt_loop.simps) (simp add: txt_data_def)
next
  case (Cons t ts)
  define pre' where "pre' = pre @ of_nat (length t) # t"
  have t: "0 < length t" "length t < 256" using Cons.prems(3) by auto
  then have q: "unat (of_nat (length t) :: byte) = length t"
    by (simp add: unat_of_nat)
  have cnt: "arr_count a < 2 ^ 30" using Cons.prems(2) by simp
  obtain a1 where a1: "pcl_array_append (Some a) (Some (t @ [0])) w = Some (arr_count a + 1, Some a1, w)"
    "arr_wf a1" "arr_count a1 = arr_count a + 1" "arr_seq a1 = arr_seq a @ [Some (t @ [0])]"
    by (rule array_append_ok [OF Cons.prems(1) cnt, of "Some (t @ [0])" w])
  have dup: "pcl_strndup (Some (t @ txt_data ts @ rest)) (length t) = Some (t @ [0])"
    using t(1) by (simp add: pcl_strndup_def mem_read_def)
  have step: "txt_loop (pre @ txt_data (t # ts) @ rest) (length pre + length (txt_data (t # ts))) (length pre) (Some a) w
      = txt_loop (pre' @ txt_data ts @ rest) (length pre' + length (txt_data ts)) (length pre') (Some a1) w"
    by (subst txt_loop.simps)
      (simp add: txt_data_def pre'_def Let_def rd_int nth_append q a1(1) dup [unfolded txt_data_def] add.assoc)
  show ?case
    using Cons.IH [OF a1(2), of pre'] Cons.prems a1(3,4) by (simp add: step)
qed

text \<open>C27: A TXT record answered with texts of 1 to 255 bytes each becomes the array of exactly these texts, in
  their order and each with its terminator, whatever follows the record in the answer.\<close>

theorem dnstxtrec_texts:
  fixes w :: "('s, 'z) os_world_scheme" and cleanup :: 'c
  assumes "sys_res_query S host (os w) = (Inr answer, s)"
    "sys_ns_initparse S answer = None" "sys_ns_parserr S answer = Inr (txt_data ts @ rest, length (txt_data ts))"
    "\<forall>t\<in>set ts. t \<noteq> [] \<and> length t < 256" "length ts < 2 ^ 30"
  shows "\<exists>a. pcl_net_dnstxtrec S cleanup host w = Some (Some a, w\<lparr>os := s\<rparr>)
      \<and> arr_seq a = map (\<lambda>t. Some (t @ [0])) ts"
proof -
  have "arr_count (pcl_array_new 4 (Some cleanup) :: (byte list, 'c) pcl_array) = 0"
    by (simp add: pcl_array_new_def Let_def)
  then show ?thesis
    using txt_loop_texts [OF array_new_wf [of 4 "Some cleanup"], of ts "[]" rest "w\<lparr>os := s\<rparr>"] assms
    by (auto simp: pcl_net_dnstxtrec_def INT_MAX_def)
qed

definition demo_net :: "unit sys_net" where
  "demo_net = \<lparr>sys_getaddrinfo = (\<lambda>_ s. (Inl (-2), s)), sys_res_query = (\<lambda>h s. (Inr h, s)),
     sys_ns_initparse = (\<lambda>_. None), sys_ns_parserr = (\<lambda>a. Inr (a, 5))\<rparr>"

definition net_world :: "unit os_world" where
  "net_world = \<lparr>frozen = False, err = 0, oserr = 0, strace = [], c_errno = 0, os = ()\<rparr>"

theorem dnstxtrec_texts_witness:
  "\<exists>a. pcl_net_dnstxtrec demo_net () [2, 104, 105, 1, 33, 7] net_world = Some (Some a, net_world)
     \<and> arr_seq a = [Some [104, 105, 0], Some [33, 0]]"
proof -
  have e: "net_world\<lparr>os := ()\<rparr> = net_world" by simp
  have "sys_res_query demo_net [2, 104, 105, 1, 33, 7] (os net_world) = (Inr [2, 104, 105, 1, 33, 7], ())"
    by (simp add: demo_net_def)
  moreover have "sys_ns_initparse demo_net [2, 104, 105, 1, 33, 7] = None"
    by (simp add: demo_net_def)
  moreover have "sys_ns_parserr demo_net [2, 104, 105, 1, 33, 7]
      = Inr (txt_data [[104, 105], [33]] @ [7], length (txt_data [[104, 105], [33]]))"
    by (simp add: demo_net_def txt_data_def)
  ultimately show ?thesis
    using dnstxtrec_texts [of demo_net "[2, 104, 105, 1, 33, 7]" "net_world" "[2, 104, 105, 1, 33, 7]" "()"
        "[[104, 105], [33]]" "[7]" "()"] by (simp add: e)
qed

text \<open>An empty text of the record is not empty in the array: a length of 0 tells the copy to measure the string, and
  so it takes everything up to the next zero byte, the other texts and their lengths included.\<close>

lemma dnstxtrec_empty_text:
  assumes "arr_wf a" "arr_count a < 2 ^ 30" "c_strlen rest = Some m" "m \<le> length rest"
  shows "\<exists>a'. txt_loop (0 # rest) (length (0 # rest)) 0 (Some a) w
      = txt_loop (0 # rest) (length (0 # rest)) 1 (Some a') w
    \<and> arr_seq a' = arr_seq a @ [Some (take m rest @ [0])]"
proof -
  obtain a' where "pcl_array_append (Some a) (Some (take m rest @ [0])) w = Some (arr_count a + 1, Some a', w)"
    "arr_seq a' = arr_seq a @ [Some (take m rest @ [0])]"
    by (rule array_append_ok [OF assms(1,2), of "Some (take m rest @ [0])" w])
  then show ?thesis
    using assms(3,4)
    by (subst txt_loop.simps) (auto simp: rd_def pcl_strndup_def mem_read_def)
qed

end
