(* ===== verification/Spec2Isabelle.thy ===== *)
theory Spec2Isabelle imports PclErrno PclError PclArray PclVector PclBufOk PclUtf8 PclStringOk PclQueue PclStack PclJsonQueryOk
  PclGetoptOk PclFmtconvOk PclParsecmdOk PclErrJsonOk PclErrTextOk PclDirOk PclEvent PclStatText PclSleep PclNet begin

text \<open>
  A verification library for libpcl, the portable C library (\<open>include/pcl\<close>, \<open>src\<close>): its 64-bit Unix
  build with \<open>char\<close> strings.

  \<^bold>\<open>The program.\<close> The library is a set of components over one convention: an operation that fails
  stores an error in a record of the calling thread (\<open>src/error\<close>) and returns -1 or \<open>NULL\<close>; a caller
  that passes the failure on adds a trace. On the error module rest the containers (\<open>src/array\<close>,
  \<open>vector\<close>, \<open>queue\<close>, \<open>stack\<close>, \<open>htable\<close>), the buffer (\<open>src/buf\<close>) and the string functions (\<open>src/string\<close>,
  \<open>src/strint\<close>). JSON (\<open>src/json\<close>) keeps its members in hash tables and pointer tables, writes into a
  buffer and checks UTF-8. The error itself can be turned into JSON or into text, and back from JSON.
  The option parser and the format conversion are loops over strings; the command line splitter and
  the event table use the pointer table. Files, pipes, sockets, directories, sleeping and name records
  are loops around system calls.

  \<^bold>\<open>Conventions.\<close> They are set up in \<open>PclPrelude\<close> and \<open>PclBytes\<close>.
  \<^item> A block of memory is a list of its slots. An access outside of it, a read of something that was
    never stored, a signed overflow and a loop that does not end are undefined or without a result:
    the model answers \<open>None\<close>. So a theorem with \<open>Some\<close> also says that memory is used properly and that
    the call returns.
  \<^item> A pointer that may be \<open>NULL\<close> is an option; a C string is a list with its NUL, \<open>s @ 0 # r\<close>.
  \<^item> \<open>int\<close> is an integer whose arithmetic is checked (\<open>cint\<close>) or cast (\<open>to_int\<close>), \<open>size_t\<close> wraps
    (\<open>to_size\<close>); what the code treats as bits is a word of its width.
  \<^item> An operation takes and returns the world: the record \<open>pcl_err\<close> of \<open>PclError\<close> (freeze flag, code,
    system code, traces, \<open>errno\<close>), extended by the theories that need more: the store of JSON nodes
    (\<open>jworld\<close>), the buffer of the error's text (\<open>err_out\<close>), the state of the system (\<open>os_world\<close>), the
    event table (\<open>ev_world\<close>). An operation that leaves the world alone does not get it.
  \<^item> What is not part of the library is a parameter: \<open>farmhash\<close>, OpenSSL's block coders, \<open>htonll\<close>,
    \<open>qsort\<close>, the \<open>ctype\<close> functions, the text a format makes of its arguments, floating point numbers
    with \<open>strtod\<close> and \<open>%1.15g\<close>, the resolver, system calls on a state of the system, and the handlers
    and conditions that the caller passes. What a property needs of them is a hypothesis in it, and
    its witness gives a function that fulfils it. Memory is assumed to be available.
  \<^item> The macros \<open>SETERR\<close>, \<open>TRC\<close> and their relatives are definitions with the file, the function and the
    line they stand in, so the traces of the model are those of the code.

  \<^bold>\<open>The theories.\<close> A theory with the ending \<open>Ok\<close> holds what the one before it promises.
  \<^item> \<open>PclErrno\<close>, \<open>PclError\<close>: the codes with their names and messages, \<open>err_set.c\<close>, \<open>err_trace.c\<close>,
    \<open>err_clear.c\<close>, \<open>err_freeze.c\<close> and the macros; the calls as a step relation, its invariant (a code has
    a trace), what a freeze holds up, what traces keep.
  \<^item> \<open>PclSeq\<close>: the locales \<open>growable\<close> and \<open>indexed\<close> of growing sequences. \<open>PclArray\<close> (pointer table) and
    \<open>PclVector\<close> (elements of any size in bytes) interpret them: invariant, content, every operation on
    every branch.
  \<^item> \<open>PclNodes\<close>: linked nodes in a store and the locale \<open>container\<close>, interpreted by \<open>PclQueue\<close> and
    \<open>PclStack\<close>.
  \<^item> \<open>PclHtable\<close>, \<open>PclHtableInv\<close>, \<open>PclHtableOk\<close>: entries in insertion order with collision lists through
    them; the invariant; refinement of an association list by put, get, remove, clear, rehash and the
    iteration, through the locales \<open>dictionary\<close> and \<open>filled_dictionary\<close>.
  \<^item> \<open>PclBuf\<close>, \<open>PclBufOk\<close>: the buffer, its invariant and content, puts at any position, growth, and the
    locale \<open>serialiser\<close> by which numbers and strings that were put are read back.
  \<^item> \<open>PclUtf8\<close>: the UTF-8 check against an encoder, hexadecimal text, base64 around its parameters.
    \<open>PclString\<close>, \<open>PclStringOk\<close>: the string functions on blocks and what they do to strings (locale
    \<open>string_search\<close> for the two searches). \<open>PclStrint\<close>: integers from text.
  \<^item> \<open>PclJson\<close>, \<open>PclJsonDom\<close>: values with reference counts, objects, arrays. \<open>PclJsonTree\<close>: the trees that
    nodes represent and their text. \<open>PclJsonEncode\<close>, \<open>PclJsonEncodeOk\<close>: the encoder writes that text.
    \<open>PclJsonParse\<close>, \<open>PclJsonParseOk\<close>, \<open>PclJsonStringOk\<close>, \<open>PclJsonRoundtrip\<close>: the decoder rebuilds the
    tree from it. \<open>PclJsonOk\<close>: both together.
  \<^item> \<open>PclJsonPath\<close>, \<open>PclJsonPathOk\<close>: paths, the compiler (it returns on every string) and the matcher.
    \<open>PclJsonQuery\<close>, \<open>PclJsonMatchOk\<close>, \<open>PclJsonQueryOk\<close>: the language of paths, the subtrees a path selects,
    and that the code finds exactly these and counts their references.
  \<^item> \<open>PclGetopt\<close>, \<open>PclFmtconv\<close>, \<open>PclParsecmd\<close>, each with its \<open>Ok\<close>: the option parser (\<open>initopt.c\<close>,
    \<open>getopt.c\<close>), the conversion of formats (\<open>fmtconv.c\<close>) and the splitting of command lines
    (\<open>proc_parsecmd.c\<close>): what is written in their languages is read back; where they leave their text.
  \<^item> \<open>PclErrJson\<close>, \<open>PclErrText\<close>, each with its \<open>Ok\<close>: an error as JSON and back, and as text; the states
    that an error can reach by any calls, an import included.
  \<^item> \<open>PclFile\<close>, \<open>PclSocket\<close>, \<open>PclFileOk\<close>: files, pipes, the transfer through sockets; what is left of an
    error, which descriptors are closed, and which loops transfer everything or never end.
    \<open>PclDir\<close>, \<open>PclDirOk\<close>: directories. \<open>PclSleep\<close>: sleeping. \<open>PclStatText\<close>: modes and flags as text.
    \<open>PclNet\<close>: codes of the resolver, address lengths, text records. \<open>PclEvent\<close>: the event table.

  \<^bold>\<open>Bounds and loops.\<close> The code keeps sizes in \<open>int\<close> and doubles its blocks. The bounds in the
  properties keep the doubled sizes below \<open>2 ^ 31\<close>: \<open>2 ^ 30\<close> elements of tables and characters of paths
  and names, \<open>2 ^ 28\<close> bytes of JSON text, \<open>2 ^ 27\<close> of the text of an error, \<open>2 ^ 30\<close> bytes for
  hexadecimal text (its length is an \<open>int\<close>). \<open>pcl_mkdirs\<close> copies its path into 16384 characters.
  The decoder, the encoder and the matcher recur on fuel; \<open>tree_depth\<close> and \<open>need\<close> of the tree are shown to
  be enough, and without fuel the result is \<open>None\<close>. \<open>getopt_all\<close> calls the parser until it answers 0, with
  fuel above the number of options. The scans of formats and command lines are functions with a measure,
  so they return on every text. The other loops, around system calls, handlers and conditions, of the path
  compiler and the string parser, the replacement and splitting of strings, are partial functions: a property
  that they return shows \<open>Some\<close>, and a property that they do not return shows \<open>None\<close>.

  \<^bold>\<open>Not modelled.\<close> Calls of the system with no logic of their own (\<open>stat\<close>, processes, environment, users,
  dynamic libraries, system information, terminal and stream I/O, the calls that set up sockets, reading
  directories), the Windows and the wide build, calendar time, logging, TLS and ciphers (glue to OpenSSL),
  threads, locks and atomics: the model follows one thread, whose error is its own. The allocation
  functions end the process when memory is missing. Sizes as text (\<open>strfbytes\<close>) are computed in floating
  point.
\<close>

end
